(* ===== verification/Mach_Prelude.thy ===== *)
theory Mach_Prelude
  imports Main "HOL-Library.Word" "HOL-Library.Monad_Syntax"
begin

text \<open>
  Shared vocabulary of the development.

  \<^item> \<open>kern_return\<close> is the set of result codes of \<^verbatim>\<open>include/mach/kern_return.h\<close>.
  \<^item> Memory: the slab allocator may refuse any request.  An execution is given a script
    \<open>mem\<close> with the outcome of its next allocations; past the end of the script
    allocations succeed.  Theorems quantify over all scripts.
  \<^item> Failure: an operation that can hit an \<^verbatim>\<open>assert\<close>, a \<^verbatim>\<open>panic\<close>, a null or a
    freed pointer returns an option; \<open>None\<close> is the kernel stopping there.
    Theorems that an operation returns \<open>Some\<close> are theorems that its assertions hold.
  \<^item> Generic lemmas: base-64 digits, lists with one updated slot, bit fields of words,
    counting over maps with one updated key.
\<close>

datatype kern_return =
    KERN_SUCCESS
  | KERN_NO_SPACE
  | KERN_INVALID_ARGUMENT
  | KERN_RESOURCE_SHORTAGE
  | KERN_NOT_IN_SET
  | KERN_NAME_EXISTS
  | KERN_INVALID_NAME
  | KERN_INVALID_TASK
  | KERN_INVALID_RIGHT
  | KERN_INVALID_VALUE
  | KERN_UREFS_OVERFLOW
  | KERN_INVALID_CAPABILITY
  | KERN_RIGHT_EXISTS
  | KERN_INVALID_ADDRESS
  | KERN_PROTECTION_FAILURE

type_synonym mem = "bool list"

definition kmem_cache_alloc :: "mem \<Rightarrow> bool \<times> mem" where
  "kmem_cache_alloc m = (case m of [] \<Rightarrow> (True, []) | b # m' \<Rightarrow> (b, m'))"

definition kassert :: "bool \<Rightarrow> unit option" where
  "kassert b = (if b then Some () else None)"

lemma kassert_simps [simp]:
  "kassert True = Some ()" "kassert False = None"
  "(kassert b = Some u) = b" "(kassert b = None) = (\<not> b)"
  by (auto simp: kassert_def)

lemma kassert_bind [simp]:
  "(kassert b \<bind> f = Some x) = (b \<and> f () = Some x)"
  by (auto simp: kassert_def)

subsection \<open>Base-64 digits\<close>

lemma digit_split:
  fixes k l :: nat
  shows "(k mod 64 ^ Suc h = l mod 64 ^ Suc h) =
         (k div 64 ^ h mod 64 = l div 64 ^ h mod 64 \<and> k mod 64 ^ h = l mod 64 ^ h)"
proof -
  have e: "x mod 64 ^ Suc h = 64 ^ h * (x div 64 ^ h mod 64) + x mod 64 ^ h" for x :: nat
    by (metis mod_mult2_eq mult.commute power_Suc)
  show ?thesis
  proof
    assume a: "k mod 64 ^ Suc h = l mod 64 ^ Suc h"
    have "k mod 64 ^ h = l mod 64 ^ h"
      using arg_cong [OF a, of "\<lambda>x. x mod 64 ^ h"] by (simp only: e) simp
    moreover from this a have "64 ^ h * (k div 64 ^ h mod 64) = 64 ^ h * (l div 64 ^ h mod 64)"
      by (simp only: e)
    ultimately show "k div 64 ^ h mod 64 = l div 64 ^ h mod 64 \<and> k mod 64 ^ h = l mod 64 ^ h"
      by simp
  qed (simp only: e)
qed

subsection \<open>Lists with one updated slot\<close>

lemma count_filter_upd:
  assumes "i < length xs"
  shows "length (filter P (xs[i := y])) + (if P (xs ! i) then 1 else 0) =
         length (filter P xs) + (if P y then 1 else 0)"
  using assms
proof (induction xs arbitrary: i)
  case Nil
  then show ?case by simp
next
  case (Cons x xs)
  then show ?case by (cases i) (auto split: if_splits)
qed

lemma filter_count_full:
  "length (filter P xs) = length xs \<longleftrightarrow> (\<forall>x \<in> set xs. P x)"
  by (metis filter_id_conv length_filter_less less_irrefl filter_True)

lemma filter_count_none:
  "length (filter P xs) = 0 \<longleftrightarrow> (\<forall>x \<in> set xs. \<not> P x)"
  by (simp add: filter_empty_conv)

lemma filter_count_pos_upd:
  assumes "i < length xs" "P (xs ! i)"
  shows "length (filter P xs) = Suc (length (filter P (xs[i := y]))) - (if P y then 1 else 0)"
  using count_filter_upd [OF assms(1), of P y] assms(2) by (auto split: if_splits)

subsection \<open>Counters\<close>

lemma unat_pred: "unat x = Suc n \<Longrightarrow> unat (x - 1 :: 'a::len word) = n"
  by (metis Suc_neq_Zero diff_Suc_1 unat_eq_zero unat_minus_one)

lemma unat_succ: "Suc (unat x) < 2 ^ LENGTH('a) \<Longrightarrow> unat (x + 1 :: 'a::len word) = Suc (unat x)"
  by (metis Suc_eq_plus1 unat_1 unat_plus_simple no_olen_add_nat)

lemma word_less_succ:
  assumes "x < (y :: 'a::len word)"
  shows "x + 1 \<noteq> 0" "x + 1 \<le> y" "unat (x + 1) = Suc (unat x)"
proof -
  have "unat x < unat y" "unat y < 2 ^ LENGTH('a)"
    using assms by (simp_all add: word_less_nat_alt)
  then show u: "unat (x + 1) = Suc (unat x)" by (intro unat_succ) linarith
  then show "x + 1 \<noteq> 0" by (metis nat.simps(3) unat_0)
  show "x + 1 \<le> y" using u \<open>unat x < unat y\<close> by (simp add: word_le_nat_alt)
qed

lemma unat_sub_of_nat: "n \<le> unat x \<Longrightarrow> unat (x - of_nat n) = unat x - n" for x :: "'a::len word"
proof (induction n)
  case (Suc n)
  then have "unat (x - of_nat n) = Suc (unat x - Suc n)" by simp
  then show ?case using unat_pred by (metis (no_types, lifting) add.commute diff_diff_eq of_nat_Suc)
qed simp

end
