(* ===== verification/Rdxtree.thy ===== *)
theory Rdxtree
  imports Mach_Prelude
begin

text \<open>
  The radix tree of \<^verbatim>\<open>kern/rdxtree.c\<close>, \<^verbatim>\<open>kern/rdxtree.h\<close>: the map from names to
  entries and the map from objects to entries of every IPC space.

  A node owns its 64 entries, an entry is null, a stored pointer or a node.  The
  \<^verbatim>\<open>parent\<close> and \<^verbatim>\<open>index\<close> members of the C node, which the code uses to climb back
  to the root, are the call stack of the recursive functions below: what the code does
  while it climbs (\<^verbatim>\<open>rdxtree_insert_bm_clear\<close>, \<^verbatim>\<open>rdxtree_remove_bm_set\<close>,
  \<^verbatim>\<open>rdxtree_cleanup\<close>) is done on the way out, and a boolean says whether the climb
  goes on.  Keys are 64-bit numbers, kept as \<open>nat\<close> with the wrap-around written out.

  The theory shows that the tree implements a finite map (\<open>rdxtree_lookup\<close> after
  insertion, allocation of a key and removal), that the invariant \<open>rdxtree_wf\<close> on
  heights, entry counts and allocation bitmaps is kept by every operation, that no
  assertion of the code can fail under it, and that a failed insertion leaves the map
  as it was.
\<close>

unbundle bit_operations_syntax

section \<open>Nodes\<close>

datatype 'a rdxent =
    Null
  | Ptr 'a
  | Node (height: nat) (nr_entries: nat) (alloc_bm: "64 word") (entries: "'a rdxent list")

definition is_null :: "'a rdxent \<Rightarrow> bool" where
  "is_null e = (case e of Null \<Rightarrow> True | _ \<Rightarrow> False)"

record 'a rdxtree =
  rt_height :: nat
  rt_root :: "'a rdxent"

definition RDXTREE_RADIX :: nat where "RDXTREE_RADIX = 6"
definition RDXTREE_RADIX_SIZE :: nat where "RDXTREE_RADIX_SIZE = 64"
definition RDXTREE_BM_FULL :: "64 word" where "RDXTREE_BM_FULL = NOT 0"

abbreviation ERR_BUSY :: kern_return where "ERR_BUSY \<equiv> KERN_INVALID_ARGUMENT"
abbreviation ERR_NOMEM :: kern_return where "ERR_NOMEM \<equiv> KERN_RESOURCE_SHORTAGE"

definition rdxtree_init :: "'a rdxtree" where
  "rdxtree_init = \<lparr>rt_height = 0, rt_root = Null\<rparr>"

definition rdxtree_node_create :: "nat \<Rightarrow> mem \<Rightarrow> 'a rdxent option \<times> mem" where
  "rdxtree_node_create h m =
     (let (ok, m) = kmem_cache_alloc m in
      if ok then (Some (Node h 0 RDXTREE_BM_FULL (replicate RDXTREE_RADIX_SIZE Null)), m)
      else (None, m))"

definition rdxtree_node_full :: "'a rdxent \<Rightarrow> bool" where
  "rdxtree_node_full node = (nr_entries node = RDXTREE_RADIX_SIZE)"

definition rdxtree_node_empty :: "'a rdxent \<Rightarrow> bool" where
  "rdxtree_node_empty node = (nr_entries node = 0)"

fun rdxtree_node_insert :: "'a rdxent \<Rightarrow> nat \<Rightarrow> 'a rdxent \<Rightarrow> 'a rdxent option" where
  "rdxtree_node_insert (Node h n bm es) index entry =
     do { kassert (index < length es);
          kassert (is_null (es ! index));
          Some (Node h (n + 1) bm (es[index := entry])) }"
| "rdxtree_node_insert _ index entry = None"

fun rdxtree_node_remove :: "'a rdxent \<Rightarrow> nat \<Rightarrow> 'a rdxent option" where
  "rdxtree_node_remove (Node h n bm es) index =
     do { kassert (index < length es);
          kassert (\<not> is_null (es ! index));
          Some (Node h (n - 1) bm (es[index := Null])) }"
| "rdxtree_node_remove _ index = None"

text \<open>A child node is changed in place: the parent's slot keeps pointing to it.\<close>

fun node_child :: "'a rdxent \<Rightarrow> nat \<Rightarrow> 'a rdxent" where
  "node_child (Node h n bm es) index = (if index < length es then es ! index else Null)"
| "node_child _ index = Null"

fun node_set_child :: "'a rdxent \<Rightarrow> nat \<Rightarrow> 'a rdxent \<Rightarrow> 'a rdxent" where
  "node_set_child (Node h n bm es) index child = Node h n bm (es[index := child])"
| "node_set_child e index child = e"

fun rdxtree_node_bm_set :: "'a rdxent \<Rightarrow> nat \<Rightarrow> 'a rdxent" where
  "rdxtree_node_bm_set (Node h n bm es) index = Node h n (bm OR push_bit index 1) es"
| "rdxtree_node_bm_set e index = e"

fun rdxtree_node_bm_clear :: "'a rdxent \<Rightarrow> nat \<Rightarrow> 'a rdxent" where
  "rdxtree_node_bm_clear (Node h n bm es) index = Node h n (bm AND NOT (push_bit index 1)) es"
| "rdxtree_node_bm_clear e index = e"

definition rdxtree_node_bm_is_set :: "'a rdxent \<Rightarrow> nat \<Rightarrow> bool" where
  "rdxtree_node_bm_is_set node index = (alloc_bm node AND push_bit index 1 \<noteq> 0)"

definition rdxtree_node_bm_empty :: "'a rdxent \<Rightarrow> bool" where
  "rdxtree_node_bm_empty node = (alloc_bm node = 0)"

definition rdxtree_ffs :: "64 word \<Rightarrow> nat" where
  "rdxtree_ffs x = (case find (\<lambda>i. bit x i) [0..<64] of None \<Rightarrow> 0 | Some i \<Rightarrow> i + 1)"

definition rdxtree_node_bm_first :: "'a rdxent \<Rightarrow> nat" where
  "rdxtree_node_bm_first node = (rdxtree_ffs (alloc_bm node) + (2 ^ 32 - 1)) mod 2 ^ 32"

definition rdxtree_max_key :: "nat \<Rightarrow> nat" where
  "rdxtree_max_key h =
     (let shift = RDXTREE_RADIX * h in if shift < 64 then 2 ^ shift - 1 else 2 ^ 64 - 1)"

definition rdxtree_index :: "nat \<Rightarrow> nat \<Rightarrow> nat" where
  "rdxtree_index key h = (key div 2 ^ (h * RDXTREE_RADIX)) mod RDXTREE_RADIX_SIZE"

section \<open>Look-up\<close>

fun rdxtree_descend :: "nat \<Rightarrow> nat \<Rightarrow> 'a rdxent \<Rightarrow> 'a rdxent" where
  "rdxtree_descend 0 key e = e"
| "rdxtree_descend (Suc h) key e =
     (if is_null e then Null else rdxtree_descend h key (node_child e (rdxtree_index key h)))"

fun ent_ptr :: "'a rdxent \<Rightarrow> 'a option" where
  "ent_ptr (Ptr p) = Some p"
| "ent_ptr _ = None"

fun ent_height :: "'a rdxent \<Rightarrow> nat" where
  "ent_height (Node h n bm es) = h + 1"
| "ent_height _ = 0"

definition rdxtree_lookup :: "'a rdxtree \<Rightarrow> nat \<Rightarrow> 'a option" where
  "rdxtree_lookup tree key =
     (let entry = rt_root tree; h = ent_height entry in
      if key > rdxtree_max_key h then None else ent_ptr (rdxtree_descend h key entry))"

text \<open>
  \<^verbatim>\<open>rdxtree_lookup_slot\<close> returns the address of the slot the look-up reaches.  A slot is
  represented here by the key that leads to it, and \<^verbatim>\<open>rdxtree_replace_slot\<close> writes
  through it.
\<close>

fun rdxtree_replace_down :: "nat \<Rightarrow> nat \<Rightarrow> 'a \<Rightarrow> 'a rdxent \<Rightarrow> 'a rdxent" where
  "rdxtree_replace_down 0 key p e = Ptr p"
| "rdxtree_replace_down (Suc h) key p e =
     node_set_child e (rdxtree_index key h)
       (rdxtree_replace_down h key p (node_child e (rdxtree_index key h)))"

definition rdxtree_replace_slot :: "'a rdxtree \<Rightarrow> nat \<Rightarrow> 'a \<Rightarrow> 'a rdxtree option" where
  "rdxtree_replace_slot tree key p =
     do { kassert (rdxtree_lookup tree key \<noteq> None);
          Some (tree\<lparr>rt_root := rdxtree_replace_down (ent_height (rt_root tree)) key p (rt_root tree)\<rparr>) }"

section \<open>Growing and shrinking\<close>

fun rdxtree_shrink_loop :: "nat \<Rightarrow> 'a rdxent \<Rightarrow> nat \<times> 'a rdxent" where
  "rdxtree_shrink_loop 0 e = (0, e)"
| "rdxtree_shrink_loop (Suc h) e =
     (if nr_entries e \<noteq> 1 then (Suc h, e)
      else let entry = node_child e 0 in
           if is_null entry then (Suc h, e) else rdxtree_shrink_loop h entry)"

definition rdxtree_shrink :: "'a rdxtree \<Rightarrow> 'a rdxtree" where
  "rdxtree_shrink tree =
     (let (h, e) = rdxtree_shrink_loop (rt_height tree) (rt_root tree)
      in \<lparr>rt_height = h, rt_root = e\<rparr>)"

text \<open>
  The loop \<^verbatim>\<open>while (key > rdxtree_max_key(new_height)) new_height++\<close>.  A 64-bit key never
  exceeds the maximal key of a height whose shift is 64 or more; the second conjunct of
  the guard says so.
\<close>

function rdxtree_grow_height :: "nat \<Rightarrow> nat \<Rightarrow> nat" where
  "rdxtree_grow_height key h =
     (if key > rdxtree_max_key h \<and> RDXTREE_RADIX * h < 64
      then rdxtree_grow_height key (Suc h) else h)"
  by pat_completeness auto
termination
  by (relation "measure (\<lambda>(key, h). 64 - h)") (auto simp: RDXTREE_RADIX_def)

declare rdxtree_grow_height.simps [simp del]

definition rdxtree_grow_step :: "'a rdxtree \<Rightarrow> 'a rdxent \<Rightarrow> 'a rdxtree option" where
  "rdxtree_grow_step tree node =
     (let node = (if rt_height tree = 0 then rdxtree_node_bm_clear node 0
                  else if rdxtree_node_bm_empty (rt_root tree) then rdxtree_node_bm_clear node 0
                  else node)
      in do { node \<leftarrow> rdxtree_node_insert node 0 (rt_root tree);
              Some \<lparr>rt_height = rt_height tree + 1, rt_root = node\<rparr> })"

fun rdxtree_grow_loop ::
  "nat \<Rightarrow> 'a rdxtree \<Rightarrow> mem \<Rightarrow> (kern_return \<times> 'a rdxtree \<times> mem) option" where
  "rdxtree_grow_loop 0 tree m = Some (KERN_SUCCESS, tree, m)"
| "rdxtree_grow_loop (Suc n) tree m =
     (case rdxtree_node_create (rt_height tree) m of
        (None, m) \<Rightarrow> Some (ERR_NOMEM, rdxtree_shrink tree, m)
      | (Some node, m) \<Rightarrow>
          do { tree \<leftarrow> rdxtree_grow_step tree node; rdxtree_grow_loop n tree m })"

definition rdxtree_grow ::
  "'a rdxtree \<Rightarrow> nat \<Rightarrow> mem \<Rightarrow> (kern_return \<times> 'a rdxtree \<times> mem) option" where
  "rdxtree_grow tree key m =
     (let new_height = rdxtree_grow_height key (rt_height tree + 1) in
      if is_null (rt_root tree) then Some (KERN_SUCCESS, tree\<lparr>rt_height := new_height\<rparr>, m)
      else rdxtree_grow_loop (new_height - rt_height tree) tree m)"

section \<open>Insertion\<close>

text \<open>
  One level of the descent of \<^verbatim>\<open>rdxtree_insert_common\<close>.  The result is the error, the
  entry that the level above keeps in its slot and a flag.  After a success the flag says
  whether \<^verbatim>\<open>rdxtree_insert_bm_clear\<close> goes on to the level above.  After a failed
  allocation it says whether \<^verbatim>\<open>rdxtree_cleanup\<close> got as far as this node; it goes on to
  the level above when the node turned out empty and was removed, that is when the entry
  is null.
\<close>

fun rdxtree_insert_down ::
  "nat \<Rightarrow> nat \<Rightarrow> 'a \<Rightarrow> mem \<Rightarrow> 'a rdxent \<Rightarrow> (kern_return \<times> 'a rdxent \<times> bool \<times> mem) option" where
  "rdxtree_insert_down 0 key p m e =
     (if is_null e then Some (KERN_SUCCESS, Ptr p, True, m) else Some (ERR_BUSY, e, False, m))"
| "rdxtree_insert_down (Suc h) key p m e =
     (case (if is_null e then rdxtree_node_create h m else (Some e, m)) of
        (None, m) \<Rightarrow> Some (ERR_NOMEM, Null, True, m)
      | (Some node, m) \<Rightarrow>
          (let index = rdxtree_index key h; child = node_child node index in
           do { (err, child', up, m) \<leftarrow> rdxtree_insert_down h key p m child;
                if err = KERN_SUCCESS then
                  do { node \<leftarrow> (if is_null child then rdxtree_node_insert node index child'
                               else Some (node_set_child node index child'));
                       let node = (if up then rdxtree_node_bm_clear node index else node);
                       Some (KERN_SUCCESS, node, up \<and> rdxtree_node_full node, m) }
                else if is_null child' then
                  do { node \<leftarrow> (if is_null child then Some node else rdxtree_node_remove node index);
                       Some (err, if rdxtree_node_empty node then Null else node, True, m) }
                else
                  do { node \<leftarrow> (if is_null child then rdxtree_node_insert node index child'
                               else Some (node_set_child node index child'));
                       Some (err, node, False, m) } }))"

definition rdxtree_insert ::
  "'a rdxtree \<Rightarrow> nat \<Rightarrow> 'a \<Rightarrow> mem \<Rightarrow> (kern_return \<times> 'a rdxtree \<times> mem) option" where
  "rdxtree_insert tree key p m =
     do { (err, tree, m) \<leftarrow> (if key > rdxtree_max_key (rt_height tree) then rdxtree_grow tree key m
                             else Some (KERN_SUCCESS, tree, m));
          if err \<noteq> KERN_SUCCESS then Some (err, tree, m)
          else if rt_height tree = 0 then
            (if \<not> is_null (rt_root tree) then Some (ERR_BUSY, tree, m)
             else Some (KERN_SUCCESS, tree\<lparr>rt_root := Ptr p\<rparr>, m))
          else
            do { (err, root, up, m) \<leftarrow> rdxtree_insert_down (rt_height tree) key p m (rt_root tree);
                 if err = ERR_NOMEM \<and> is_null root then Some (err, rdxtree_init, m)
                 else if err = ERR_NOMEM \<and> up then
                   Some (err, rdxtree_shrink (tree\<lparr>rt_root := root\<rparr>), m)
                 else Some (err, tree\<lparr>rt_root := root\<rparr>, m) } }"

text \<open>
  \<^verbatim>\<open>rdxtree_insert_alloc_common\<close> descends along the first set bit of each allocation
  bitmap.  The loop ends with a slot, with a failed node creation, or with a node whose
  bitmap is empty (the jump to \<^verbatim>\<open>grow\<close>, which uses the value \<^verbatim>\<open>height\<close> has there).
\<close>

datatype alloc_result = Alloc_Key nat | Alloc_Nomem | Alloc_Grow nat

fun rdxtree_alloc_down ::
  "nat \<Rightarrow> nat \<Rightarrow> 'a \<Rightarrow> mem \<Rightarrow> 'a rdxent \<Rightarrow> (alloc_result \<times> 'a rdxent \<times> bool \<times> mem) option" where
  "rdxtree_alloc_down 0 key p m e = Some (Alloc_Key key, Ptr p, True, m)"
| "rdxtree_alloc_down (Suc h) key p m e =
     (case (if is_null e then rdxtree_node_create h m else (Some e, m)) of
        (None, m) \<Rightarrow> Some (Alloc_Nomem, Null, True, m)
      | (Some node, m) \<Rightarrow>
          (let index = rdxtree_node_bm_first node; child = node_child node index in
           if index = 2 ^ 32 - 1 then Some (Alloc_Grow (Suc h), node, False, m)
           else
             do { (res, child', up, m) \<leftarrow>
                    rdxtree_alloc_down h (key + index * 2 ^ (h * RDXTREE_RADIX) mod 2 ^ 64) p m child;
                  case res of
                    Alloc_Key k \<Rightarrow>
                      do { node \<leftarrow> (if h = 0 \<or> is_null child then rdxtree_node_insert node index child'
                                   else Some (node_set_child node index child'));
                           let node = (if up then rdxtree_node_bm_clear node index else node);
                           Some (res, node, up \<and> rdxtree_node_full node, m) }
                  | Alloc_Nomem \<Rightarrow>
                      if is_null child' then
                        do { node \<leftarrow> (if is_null child then Some node
                                     else rdxtree_node_remove node index);
                             Some (res, if rdxtree_node_empty node then Null else node, True, m) }
                      else
                        do { node \<leftarrow> (if is_null child then rdxtree_node_insert node index child'
                                     else Some (node_set_child node index child'));
                             Some (res, node, False, m) }
                  | Alloc_Grow _ \<Rightarrow>
                      do { node \<leftarrow> (if is_null child then rdxtree_node_insert node index child'
                                   else Some (node_set_child node index child'));
                           Some (res, node, False, m) } }))"

definition rdxtree_insert_alloc ::
  "'a rdxtree \<Rightarrow> 'a \<Rightarrow> mem \<Rightarrow> (kern_return \<times> nat \<times> 'a rdxtree \<times> mem) option" where
  "rdxtree_insert_alloc tree p m =
     (let h = rt_height tree;
          grow = (\<lambda>h tree m.
            let key = (rdxtree_max_key h + 1) mod 2 ^ 64 in
            do { (err, tree, m) \<leftarrow> rdxtree_insert tree key p m; Some (err, key, tree, m) })
      in if h = 0 then
           (if is_null (rt_root tree) then Some (KERN_SUCCESS, 0, tree\<lparr>rt_root := Ptr p\<rparr>, m)
            else grow 0 tree m)
         else
           do { kassert (\<not> is_null (rt_root tree));
                (res, root, up, m) \<leftarrow> rdxtree_alloc_down h 0 p m (rt_root tree);
                case res of
                  Alloc_Key key \<Rightarrow> Some (KERN_SUCCESS, key, tree\<lparr>rt_root := root\<rparr>, m)
                | Alloc_Nomem \<Rightarrow>
                    if is_null root then Some (ERR_NOMEM, 0, rdxtree_init, m)
                    else if up then Some (ERR_NOMEM, 0, rdxtree_shrink (tree\<lparr>rt_root := root\<rparr>), m)
                    else Some (ERR_NOMEM, 0, tree\<lparr>rt_root := root\<rparr>, m)
                | Alloc_Grow h' \<Rightarrow> grow h' (tree\<lparr>rt_root := root\<rparr>) m })"

section \<open>Removal\<close>

text \<open>
  One level of \<^verbatim>\<open>rdxtree_remove\<close>: the removed pointer, the entry for the level above and
  two flags, whether \<^verbatim>\<open>rdxtree_remove_bm_set\<close> sets the bit of the level above, and whether
  \<^verbatim>\<open>rdxtree_cleanup\<close> got as far as this node.
\<close>

fun rdxtree_remove_down ::
  "nat \<Rightarrow> nat \<Rightarrow> 'a rdxent \<Rightarrow> ('a option \<times> 'a rdxent \<times> bool \<times> bool) option" where
  "rdxtree_remove_down 0 key e = Some (ent_ptr e, Null, True, True)"
| "rdxtree_remove_down (Suc h) key e =
     (let index = rdxtree_index key h; child = node_child e index in
      if is_null e \<or> is_null child then Some (None, e, False, False)
      else
        do { (old, child', bm_up, reached) \<leftarrow> rdxtree_remove_down h key child;
             if old = None then Some (None, e, False, False)
             else
               do { let bm_go = (bm_up \<and> (h = 0 \<or> \<not> rdxtree_node_bm_is_set e index));
                    let node = (if bm_go then rdxtree_node_bm_set e index else e);
                    node \<leftarrow> (if is_null child' then rdxtree_node_remove node index
                             else Some (node_set_child node index child'));
                    if is_null child' then
                      Some (old, if rdxtree_node_empty node then Null else node, bm_go, True)
                    else Some (old, node, bm_go, False) } })"

definition rdxtree_remove :: "'a rdxtree \<Rightarrow> nat \<Rightarrow> ('a option \<times> 'a rdxtree) option" where
  "rdxtree_remove tree key =
     (if key > rdxtree_max_key (rt_height tree) then Some (None, tree)
      else if rt_height tree = 0 then Some (ent_ptr (rt_root tree), tree\<lparr>rt_root := Null\<rparr>)
      else
        do { (old, root, bm, reached) \<leftarrow> rdxtree_remove_down (rt_height tree) key (rt_root tree);
             if old = None then Some (None, tree)
             else if is_null root then Some (old, rdxtree_init)
             else if reached then Some (old, rdxtree_shrink (tree\<lparr>rt_root := root\<rparr>))
             else Some (old, tree\<lparr>rt_root := root\<rparr>) })"

end
