(* ===== verification/Rdxtree_Map.thy ===== *)
theory Rdxtree_Map
  imports Rdxtree
begin

text \<open>
  The radix tree of \<^theory_text>\<open>Rdxtree\<close> is a finite map.

  \<^item> \<open>rdx_wf\<close> and \<open>rdxtree_wf\<close> are the invariant: heights decrease by one, entry counts are
    right, no node is empty, and the allocation bitmaps are sound.  A set bit leads to a
    subtree with room (\<open>rdx_room\<close>), so \<open>rdxtree_insert_alloc\<close> never meets a full node below
    the root.  A clear bit leads to a subtree that itself has a clear bit (\<open>rdx_sat\<close>), so
    \<open>rdxtree_cleanup\<close> never leaves a clear bit on an empty slot.
  \<^item> \<open>rdxtree_insert_ok\<close>, \<open>rdxtree_insert_alloc_ok\<close>, \<open>rdxtree_remove_ok\<close> and
    \<open>rdxtree_replace_slot_ok\<close>: under the invariant no assertion of an operation fails, the
    invariant holds again, and the look-ups change as those of a map do.
  \<^item> The locale \<open>name_map\<close> is the contract the spaces rely on; it is interpreted on the tree.
\<close>

section \<open>The invariant\<close>

fun rdx_sat :: "nat \<Rightarrow> 'a rdxent \<Rightarrow> bool" where
  "rdx_sat 0 e = (\<not> is_null e)"
| "rdx_sat (Suc h) e = (case e of Node nh n bm es \<Rightarrow> \<exists>i<64. \<not> bit bm i | _ \<Rightarrow> False)"

fun rdx_room :: "nat \<Rightarrow> 'a rdxent \<Rightarrow> bool" where
  "rdx_room 0 e = is_null e"
| "rdx_room (Suc h) e = (case e of Node nh n bm es \<Rightarrow> bm \<noteq> 0 | _ \<Rightarrow> is_null e)"

fun rdx_wf :: "nat \<Rightarrow> 'a rdxent \<Rightarrow> bool" where
  "rdx_wf 0 e = (case e of Node nh n bm es \<Rightarrow> False | _ \<Rightarrow> True)"
| "rdx_wf (Suc h) e =
     (case e of
        Null \<Rightarrow> True
      | Ptr p \<Rightarrow> False
      | Node nh n bm es \<Rightarrow>
          nh = h \<and> length es = 64 \<and> n = length (filter (\<lambda>x. \<not> is_null x) es) \<and> 0 < n \<and>
          (\<forall>x \<in> set es. rdx_wf h x) \<and>
          (\<forall>i<64. if bit bm i then rdx_room h (es ! i) else rdx_sat h (es ! i)))"

definition rdxtree_wf :: "'a rdxtree \<Rightarrow> bool" where
  "rdxtree_wf tree =
     (rdx_wf (rt_height tree) (rt_root tree) \<and>
      (is_null (rt_root tree) \<longrightarrow> rt_height tree = 0) \<and> rt_height tree \<le> 11)"

definition rdx_get :: "nat \<Rightarrow> nat \<Rightarrow> 'a rdxent \<Rightarrow> 'a option" where
  "rdx_get h key e = ent_ptr (rdxtree_descend h key e)"

lemma is_null_simps [simp]:
  "is_null Null" "\<not> is_null (Ptr p)" "\<not> is_null (Node h n bm es)"
  by (simp_all add: is_null_def)

lemma is_null_iff: "is_null e \<longleftrightarrow> e = Null"
  by (cases e) auto

lemma rdx_descend_Null [simp]: "rdxtree_descend h k Null = Null"
  by (cases h) auto

lemma rdx_get_Null [simp]: "rdx_get h k Null = None"
  by (simp add: rdx_get_def)

lemma rdx_get_0 [simp]: "rdx_get 0 k e = ent_ptr e"
  by (simp add: rdx_get_def)

lemma rdxtree_index_64: "rdxtree_index key h = key div 64 ^ h mod 64"
proof -
  have "(2::nat) ^ (h * 6) = 64 ^ h" by (simp add: power_mult mult.commute [of h])
  then show ?thesis
    by (simp add: rdxtree_index_def RDXTREE_RADIX_def RDXTREE_RADIX_SIZE_def)
qed

lemma rdxtree_index_less [simp]: "rdxtree_index key h < 64"
  by (simp add: rdxtree_index_64)

lemma rdx_get_Node [simp]:
  "length es = 64 \<Longrightarrow> rdx_get (Suc h) k (Node nh n bm es) = rdx_get h k (es ! rdxtree_index k h)"
  by (simp add: rdx_get_def)

lemma rdx_sat_nonnull: "rdx_sat h e \<Longrightarrow> \<not> is_null e"
  by (cases h; cases e) auto

lemma rdx_room_Null [simp]: "rdx_room h Null"
  by (cases h) auto

lemma rdx_sat_Null [simp]: "\<not> rdx_sat h Null"
  by (cases h) auto

lemma rdx_wf_Null [simp]: "rdx_wf h Null"
  by (cases h) auto

lemma bm_clear_bit: "bit (bm AND NOT (push_bit i 1)) j \<longleftrightarrow> bit (bm :: 64 word) j \<and> j \<noteq> i"
  "bit (bm AND NOT (2 ^ i)) j \<longleftrightarrow> bit (bm :: 64 word) j \<and> j \<noteq> i"
  by (auto simp: bit_simps dest: bit_imp_le_length)

lemma bm_set_bit: "i < 64 \<Longrightarrow> bit (bm OR push_bit i 1) j \<longleftrightarrow> bit (bm :: 64 word) j \<or> j = i"
  "i < 64 \<Longrightarrow> bit (bm OR 2 ^ i) j \<longleftrightarrow> bit (bm :: 64 word) j \<or> j = i"
  by (auto simp: bit_simps dest: bit_imp_le_length)

lemma bm_full_bit [simp]: "bit RDXTREE_BM_FULL j \<longleftrightarrow> j < 64"
  by (simp add: RDXTREE_BM_FULL_def bit_simps)

lemma bm_eq_0: "(bm :: 64 word) = 0 \<longleftrightarrow> (\<forall>j<64. \<not> bit bm j)"
  by (auto simp: bit_eq_iff dest: bit_imp_le_length)

lemma bm_is_set_iff: "i < 64 \<Longrightarrow> rdxtree_node_bm_is_set (Node h n bm es) i \<longleftrightarrow> bit bm i"
  unfolding rdxtree_node_bm_is_set_def rdxent.sel bm_eq_0
  by (auto simp: bit_simps)

lemma bm_first_None: "bm = 0 \<Longrightarrow> rdxtree_node_bm_first (Node h n bm es) = 2 ^ 32 - 1"
proof -
  have "find (\<lambda>i. False) [0..<64] = None" by (simp add: find_None_iff)
  then show "bm = 0 \<Longrightarrow> ?thesis" by (simp add: rdxtree_node_bm_first_def rdxtree_ffs_def)
qed

lemma bm_first_Some:
  assumes "bm \<noteq> 0"
  shows "rdxtree_node_bm_first (Node h n bm es) < 64 \<and>
         bit bm (rdxtree_node_bm_first (Node h n bm es))"
proof -
  obtain j where j: "j < 64" "bit bm j" using assms bm_eq_0 by blast
  show ?thesis
  proof (cases "find (\<lambda>i. bit bm i) [0..<64]")
    case None
    with j show ?thesis by (auto simp: find_None_iff)
  next
    case (Some i)
    then have "i < 64" "bit bm i" by (auto simp: find_Some_iff)
    then show ?thesis
      by (simp add: rdxtree_node_bm_first_def rdxtree_ffs_def Some)
  qed
qed


definition rdx_node :: "nat \<Rightarrow> nat \<Rightarrow> nat \<Rightarrow> 64 word \<Rightarrow> 'a rdxent list \<Rightarrow> bool" where
  "rdx_node h nh n bm es =
     (nh = h \<and> length es = 64 \<and> n = length (filter (\<lambda>x. \<not> is_null x) es) \<and>
      (\<forall>x \<in> set es. rdx_wf h x) \<and>
      (\<forall>i<64. if bit bm i then rdx_room h (es ! i) else rdx_sat h (es ! i)))"

lemma rdx_wf_Node: "rdx_wf (Suc h) (Node nh n bm es) \<longleftrightarrow> rdx_node h nh n bm es \<and> 0 < n"
  by (auto simp: rdx_node_def)

lemma rdx_wf_Suc_cases:
  assumes "rdx_wf (Suc h) e"
  obtains "e = Null" | n bm es where "e = Node h n bm es" "rdx_node h h n bm es" "0 < n"
  using assms by (cases e) (auto simp: rdx_node_def)

declare rdx_wf.simps(2) [simp del]

lemma rdx_node_fresh: "rdx_node h h 0 RDXTREE_BM_FULL (replicate 64 Null)"
  by (auto simp: rdx_node_def)

lemma rdx_node_length [simp]: "rdx_node h nh n bm es \<Longrightarrow> length es = 64"
  unfolding rdx_node_def by blast

lemma rdx_node_child: "rdx_node h nh n bm es \<Longrightarrow> i < 64 \<Longrightarrow> rdx_wf h (es ! i)"
  unfolding rdx_node_def by (metis nth_mem)

lemma rdx_node_bit:
  "rdx_node h nh n bm es \<Longrightarrow> i < 64 \<Longrightarrow>
     if bit bm i then rdx_room h (es ! i) else rdx_sat h (es ! i)"
  unfolding rdx_node_def by blast

lemma rdx_node_count_pos: "rdx_node h nh n bm es \<Longrightarrow> i < 64 \<Longrightarrow> \<not> is_null (es ! i) \<Longrightarrow> 0 < n"
  unfolding rdx_node_def by (metis filter_count_none length_0_conv neq0_conv nth_mem)

lemma rdx_node_put:
  assumes nd: "rdx_node h nh n bm es" and i: "i < 64"
    and c: "rdx_wf h c"
    and bm: "\<And>j. j < 64 \<Longrightarrow> j \<noteq> i \<Longrightarrow> bit bm' j = bit bm j"
    and bi: "if bit bm' i then rdx_room h c else rdx_sat h c"
    and n': "n' + (if is_null (es ! i) then 0 else 1) = n + (if is_null c then 0 else 1)"
  shows "rdx_node h nh n' bm' (es[i := c])"
proof -
  have len: "length es = 64" using nd by simp
  have "n' = length (filter (\<lambda>x. \<not> is_null x) (es[i := c]))"
  proof -
    have "n = length (filter (\<lambda>x. \<not> is_null x) es)" using nd unfolding rdx_node_def by blast
    moreover note count_filter_upd [of i es "\<lambda>x. \<not> is_null x" c] n'
    ultimately show ?thesis using i len by (simp split: if_splits)
  qed
  moreover have "\<forall>x \<in> set (es[i := c]). rdx_wf h x"
  proof -
    have "\<forall>x \<in> set es. rdx_wf h x" using nd unfolding rdx_node_def by blast
    then show ?thesis using c set_update_subset_insert [of es i c] by blast
  qed
  moreover have "if bit bm' j then rdx_room h (es[i := c] ! j) else rdx_sat h (es[i := c] ! j)"
    if "j < 64" for j
    using rdx_node_bit [OF nd that] bm [OF that] bi len i by (cases "j = i") auto
  ultimately show ?thesis using nd unfolding rdx_node_def by simp
qed

lemma rdx_node_full_bm:
  assumes "rdx_node h nh n bm es" "bm = 0"
  shows "n = 64"
proof -
  have "\<not> is_null x" if x: "x \<in> set es" for x
  proof -
    obtain j where "j < 64" "x = es ! j"
      using x rdx_node_length [OF assms(1)] by (metis in_set_conv_nth)
    with rdx_node_bit [OF assms(1)] assms(2) show ?thesis by (simp add: rdx_sat_nonnull [of h])
  qed
  then have "length (filter (\<lambda>x. \<not> is_null x) es) = 64"
    using rdx_node_length [OF assms(1)] by simp
  then show ?thesis using assms(1) unfolding rdx_node_def by blast
qed

lemma rdx_get_put:
  assumes "length es = 64"
    and "\<And>k. rdx_get h k c' = (if k mod 64 ^ h = key mod 64 ^ h then v else
             rdx_get h k (es ! rdxtree_index key h))"
  shows "rdx_get (Suc h) k (Node nh n bm (es[rdxtree_index key h := c'])) =
         (if k mod 64 ^ Suc h = key mod 64 ^ Suc h then v
          else rdx_get (Suc h) k (Node nh' n' bm' es))"
proof (cases "rdxtree_index k h = rdxtree_index key h")
  case True
  then have "k mod 64 ^ Suc h = key mod 64 ^ Suc h \<longleftrightarrow> k mod 64 ^ h = key mod 64 ^ h"
    unfolding digit_split rdxtree_index_64 by simp
  with True assms show ?thesis by simp
next
  case False
  then have "k mod 64 ^ Suc h \<noteq> key mod 64 ^ Suc h"
    unfolding digit_split rdxtree_index_64 by simp
  with False assms show ?thesis by simp
qed

definition ins_post ::
  "nat \<Rightarrow> nat \<Rightarrow> 'a \<Rightarrow> mem \<Rightarrow> 'a rdxent \<Rightarrow> kern_return \<Rightarrow> 'a rdxent \<Rightarrow> bool \<Rightarrow> bool" where
  "ins_post h key p m e err e' up =
     (if err = KERN_SUCCESS then
        rdx_get h key e = None \<and> \<not> is_null e' \<and> rdx_wf h e' \<and>
        (rdx_sat h e \<or> up \<longrightarrow> rdx_sat h e') \<and> (rdx_room h e \<and> \<not> up \<longrightarrow> rdx_room h e') \<and>
        (\<forall>k. rdx_get h k e' = (if k mod 64 ^ h = key mod 64 ^ h then Some p else rdx_get h k e))
      else if err = ERR_BUSY then e' = e \<and> rdx_get h key e \<noteq> None
      else err = ERR_NOMEM \<and> e' = e \<and> rdx_get h key e = None \<and> False \<in> set m)"


lemma rdxtree_node_create_cases:
  obtains m' where "rdxtree_node_create h m =
      (Some (Node h 0 RDXTREE_BM_FULL (replicate 64 Null)) :: 'a rdxent option, m')" "set m' \<subseteq> set m"
  | m' where "rdxtree_node_create h m = (None :: 'a rdxent option, m')" "False \<in> set m" "set m' \<subseteq> set m"
proof (cases "kmem_cache_alloc m")
  case (Pair ok m')
  then have m': "set m' \<subseteq> set m" "\<not> ok \<Longrightarrow> False \<in> set m"
    by (cases m; auto simp: kmem_cache_alloc_def)+
  have c: "rdxtree_node_create h m =
      (if ok then Some (Node h 0 RDXTREE_BM_FULL (replicate 64 Null)) else None :: 'a rdxent option, m')"
    using Pair by (simp add: rdxtree_node_create_def RDXTREE_RADIX_SIZE_def)
  show thesis by (cases ok) (use that [of m'] m' c in auto)
qed

lemma rdx_acquire:
  fixes e :: "'a rdxent"
  assumes "rdx_wf (Suc h) e"
  obtains (nomem) m' where "e = Null" "rdxtree_node_create h m = (None :: 'a rdxent option, m')" "False \<in> set m"
      "set m' \<subseteq> set m"
  | (node) n bm es m' where
      "(if is_null e then rdxtree_node_create h m else (Some e, m)) = (Some (Node h n bm es), m')"
      "rdx_node h h n bm es" "set m' \<subseteq> set m"
      "e = Node h n bm es \<and> 0 < n \<or>
       e = Null \<and> n = 0 \<and> bm = RDXTREE_BM_FULL \<and> es = replicate 64 Null"
  using assms
proof (cases rule: rdx_wf_Suc_cases)
  case 1
  show thesis
  proof (cases rule: rdxtree_node_create_cases [where h = h and m = m and 'a = 'a])
    case (1 m')
    with \<open>e = Null\<close> show thesis
      using node [of 0 RDXTREE_BM_FULL "replicate 64 Null" m'] rdx_node_fresh [of h] by simp
  next
    case (2 m')
    with \<open>e = Null\<close> show thesis using nomem by simp
  qed
next
  case (2 n bm es)
  then show thesis using node [of n bm es m] by simp
qed

text \<open>
  Both kinds of insertion end a level in the same way: the child that was put below is
  stored and counted, and its bit is cleared if the climb reaches this node.
\<close>

definition ins_up :: "'a rdxent \<Rightarrow> nat \<Rightarrow> 'a rdxent \<Rightarrow> bool \<Rightarrow> 'a rdxent" where
  "ins_up e i c' up =
     (case e of Node h n bm es \<Rightarrow>
        Node h (if is_null (es ! i) then n + 1 else n)
          (if up then bm AND NOT (push_bit i 1) else bm) (es[i := c'])
      | _ \<Rightarrow> e)"

lemma ins_up_eq:
  assumes "length es = 64" "i < 64" "\<not> is_null c'" "e = Node h n bm es"
  shows "do { node \<leftarrow> (if is_null (es ! i) then rdxtree_node_insert e i c'
                      else Some (node_set_child e i c'));
              let node = (if up then rdxtree_node_bm_clear node i else node);
              Some (r, node, up \<and> rdxtree_node_full node, m') }
       = Some (r, ins_up e i c' up, up \<and> nr_entries (ins_up e i c' up) = 64, m')"
  using assms by (auto simp: ins_up_def rdxtree_node_full_def RDXTREE_RADIX_SIZE_def)

lemma ins_up_wf:
  assumes nd: "rdx_node h h n bm es" and i: "i < 64"
    and c: "rdx_wf h c'" "\<not> is_null c'"
    and sat: "rdx_sat h (es ! i) \<or> up \<longrightarrow> rdx_sat h c'"
    and room: "rdx_room h (es ! i) \<and> \<not> up \<longrightarrow> rdx_room h c'"
    and e': "e' = ins_up (Node h n bm es) i c' up"
  shows "rdx_wf (Suc h) e'" "\<not> is_null e'"
    "rdx_sat (Suc h) (Node h n bm es) \<or> up \<longrightarrow> rdx_sat (Suc h) e'"
    "bm \<noteq> 0 \<and> \<not> (up \<and> nr_entries e' = 64) \<longrightarrow> rdx_room (Suc h) e'"
proof -
  let ?n = "if is_null (es ! i) then n + 1 else n"
  let ?bm = "if up then bm AND NOT (push_bit i 1) else bm"
  have e: "e' = Node h ?n ?bm (es[i := c'])" using e' by (simp add: ins_up_def)
  have "rdx_node h h ?n ?bm (es[i := c'])"
    by (rule rdx_node_put [OF nd i c(1)])
      (use rdx_node_bit [OF nd i] sat room c in \<open>auto simp: bm_clear_bit split: if_splits\<close>)
  moreover have "0 < ?n" using rdx_node_count_pos [OF nd i] by simp
  ultimately have nd': "rdx_node h h ?n ?bm (es[i := c'])" "0 < ?n" by auto
  then show "rdx_wf (Suc h) e'" unfolding e rdx_wf_Node by blast
  show "\<not> is_null e'" by (simp add: e)
  show "rdx_sat (Suc h) (Node h n bm es) \<or> up \<longrightarrow> rdx_sat (Suc h) e'"
    using i by (auto simp: e bm_clear_bit)
  show "bm \<noteq> 0 \<and> \<not> (up \<and> nr_entries e' = 64) \<longrightarrow> rdx_room (Suc h) e'"
    using rdx_node_full_bm [OF nd'(1)] by (auto simp: e)
qed

lemma ins_post_level:
  assumes nd: "rdx_node h h n bm es" and i: "i = rdxtree_index key h"
    and e: "e = Node h n bm es \<or> e = Null \<and> bm = RDXTREE_BM_FULL \<and> es = replicate 64 Null"
    and post: "ins_post h key p m (es ! i) KERN_SUCCESS c' up"
    and e': "e' = ins_up (Node h n bm es) i c' up"
  shows "ins_post (Suc h) key p m' e KERN_SUCCESS e' (up \<and> nr_entries e' = 64)"
proof -
  note P = post [unfolded ins_post_def, simplified]
  note len = rdx_node_length [OF nd]
  have "i < 64" using i by simp
  note wf = ins_up_wf [OF nd this, of c' up e']
  have get: "rdx_get (Suc h) k e = rdx_get (Suc h) k (Node h n bm es)" for k
    using e len by auto
  have "rdx_get (Suc h) k e' =
      (if k mod 64 ^ Suc h = key mod 64 ^ Suc h then Some p else rdx_get (Suc h) k e)" for k
    unfolding e' i ins_up_def rdxent.case get by (rule rdx_get_put [OF len]) (use P i in blast)
  moreover have "rdx_room (Suc h) e \<longrightarrow> bm \<noteq> 0"
    "rdx_sat (Suc h) e \<longrightarrow> rdx_sat (Suc h) (Node h n bm es)"
    using e by (auto simp: RDXTREE_BM_FULL_def)
  ultimately show ?thesis
    using wf P e' i get [of key] len unfolding ins_post_def by simp
qed

lemma insert_down_ok:
  "rdx_wf h e \<Longrightarrow>
   \<exists>err e' up m'. rdxtree_insert_down h key p m e = Some (err, e', up, m') \<and>
     ins_post h key p m e err e' up \<and> set m' \<subseteq> set m"
proof (induction h arbitrary: e m)
  case 0
  then show ?case by (cases e) (auto simp: ins_post_def)
next
  case (Suc h)
  let ?i = "rdxtree_index key h"
  from Suc.prems show ?case
  proof (cases rule: rdx_acquire [where m = m])
    case nomem
    then show ?thesis by (auto simp: ins_post_def)
  next
    case (node n bm es m1)
    note len = rdx_node_length [OF node(2)]
    let ?node = "Node h n bm es"
    from Suc.IH [OF rdx_node_child [OF node(2)], of ?i m1] obtain err c' up m' where
      IH: "rdxtree_insert_down h key p m1 (es ! ?i) = Some (err, c', up, m')"
        "ins_post h key p m1 (es ! ?i) err c' up" "set m' \<subseteq> set m1"
      by auto
    have get: "rdx_get (Suc h) k e = rdx_get (Suc h) k ?node" for k
      using node(4) len by auto
    show ?thesis
    proof (cases "err = KERN_SUCCESS")
      case True
      let ?e' = "ins_up ?node ?i c' up"
      have "\<not> is_null c'" using IH(2) True by (simp add: ins_post_def)
      then have "rdxtree_insert_down (Suc h) key p m e =
          Some (KERN_SUCCESS, ?e', up \<and> nr_entries ?e' = 64, m')"
        using ins_up_eq [OF len _ _ refl, of ?i c' h n bm up KERN_SUCCESS m']
        by (simp add: node(1) len IH(1) True Let_def)
      moreover have "ins_post (Suc h) key p m e KERN_SUCCESS ?e' (up \<and> nr_entries ?e' = 64)"
        by (rule ins_post_level [OF node(2) refl]) (use node(4) IH(2) True in auto)
      ultimately show ?thesis using IH(3) node(3) by blast
    next
      case False
      then have c': "c' = es ! ?i" using IH(2) by (auto simp: ins_post_def split: if_splits)
      have "rdxtree_insert_down (Suc h) key p m e =
          Some (err, e, is_null c', m')"
      proof (cases "is_null (es ! ?i)")
        case True
        then show ?thesis
          using node(4) by (auto simp: node(1) len IH(1) c' False rdxtree_node_empty_def)
      next
        case nonnull: False
        then have "e = ?node" "m1 = m" using node(1,4) by auto
        with nonnull show ?thesis using IH(1) by (simp add: len c' False)
      qed
      moreover have "ins_post (Suc h) key p m e err e (is_null c')"
        using IH(2) False get [of key] len node(3) by (auto simp: ins_post_def split: if_splits)
      ultimately show ?thesis using IH(3) node(3) by blast
    qed
  qed
qed

section \<open>Trees\<close>

lemma rdxtree_eta [simp]: "\<lparr>rt_height = rt_height t, rt_root = rt_root t\<rparr> = t"
  by (cases t) simp

lemma max_key_small: "h \<le> 10 \<Longrightarrow> rdxtree_max_key h = 64 ^ h - 1"
  by (simp add: rdxtree_max_key_def RDXTREE_RADIX_def power_mult)

lemma max_key_11: "10 < h \<Longrightarrow> rdxtree_max_key h = 2 ^ 64 - 1"
  by (simp add: rdxtree_max_key_def RDXTREE_RADIX_def)

lemma max_key_less: "k \<le> rdxtree_max_key h \<Longrightarrow> k < 64 ^ h"
proof (cases "h \<le> 10")
  case True
  then show "k \<le> rdxtree_max_key h \<Longrightarrow> ?thesis"
    using max_key_small [OF True] zero_less_power [of "64::nat" h] by linarith
next
  case False
  then have "(64::nat) ^ 11 \<le> 64 ^ h" by (intro power_increasing) auto
  then have "(2::nat) ^ 64 \<le> 64 ^ h" by simp
  then show "k \<le> rdxtree_max_key h \<Longrightarrow> ?thesis" using max_key_11 [of h] False by simp
qed

lemma max_key_mono: "h \<le> h' \<Longrightarrow> rdxtree_max_key h \<le> rdxtree_max_key h'"
proof (cases "h' \<le> 10")
  case True
  assume "h \<le> h'"
  then have "(64::nat) ^ h \<le> 64 ^ h'" by (intro power_increasing) auto
  then have "(64::nat) ^ h - 1 \<le> 64 ^ h' - 1" by (rule diff_le_mono)
  with True \<open>h \<le> h'\<close> show ?thesis by (simp add: max_key_small)
next
  case False
  show ?thesis
  proof (cases "h \<le> 10")
    case True
    then have "(64::nat) ^ h \<le> 64 ^ 10" by (intro power_increasing) auto
    then have "(64::nat) ^ h \<le> 2 ^ 64" by simp
    then show ?thesis using True False by (simp add: max_key_small max_key_11)
  qed (use False in \<open>simp add: max_key_11\<close>)
qed

lemma grow_height_ok:
  "key < 2 ^ 64 \<Longrightarrow> h \<le> 11 \<Longrightarrow>
   key \<le> rdxtree_max_key (rdxtree_grow_height key h) \<and> h \<le> rdxtree_grow_height key h \<and>
   rdxtree_grow_height key h \<le> 11"
proof (induction key h rule: rdxtree_grow_height.induct)
  case (1 key h)
  show ?case
  proof (cases "key > rdxtree_max_key h \<and> RDXTREE_RADIX * h < 64")
    case True
    then have "Suc h \<le> 11" by (simp add: RDXTREE_RADIX_def)
    with 1 True show ?thesis by (simp add: rdxtree_grow_height.simps [of key h])
  next
    case False
    then have "key \<le> rdxtree_max_key h"
      using 1 by (auto simp: RDXTREE_RADIX_def max_key_11 not_less)
    with False 1 show ?thesis by (simp add: rdxtree_grow_height.simps [of key h])
  qed
qed

lemma rdxtree_lookup_get:
  assumes "rdx_wf (rt_height t) (rt_root t)"
  shows "rdxtree_lookup t k =
    (if k \<le> rdxtree_max_key (rt_height t) then rdx_get (rt_height t) k (rt_root t) else None)"
proof (cases "rt_height t")
  case 0
  with assms show ?thesis
    by (cases "rt_root t") (auto simp: rdxtree_lookup_def rdx_get_def)
next
  case (Suc h)
  with assms have "rdx_wf (Suc h) (rt_root t)" by simp
  then show ?thesis using Suc
    by (cases rule: rdx_wf_Suc_cases)
      (auto simp: rdxtree_lookup_def rdx_get_def not_less)
qed

lemma rdxtree_lookup_fold:
  assumes nd: "rdx_node h h n bm es" "h \<le> 10" "\<And>j. 0 < j \<Longrightarrow> j < 64 \<Longrightarrow> is_null (es ! j)"
  shows "rdxtree_lookup \<lparr>rt_height = Suc h, rt_root = Node h n bm es\<rparr> =
         rdxtree_lookup \<lparr>rt_height = h, rt_root = es ! 0\<rparr>" (is "?l = ?r")
proof
  fix k
  have wf: "rdx_wf h (es ! 0)" using rdx_node_child [OF nd(1)] by simp
  have len: "length es = 64" using nd by simp
  have "?l k = (if k \<le> rdxtree_max_key (Suc h) then rdx_get (Suc h) k (Node h n bm es) else None)"
    using len by (simp add: rdxtree_lookup_def rdx_get_def not_less)
  moreover have "?r k = (if k \<le> rdxtree_max_key h then rdx_get h k (es ! 0) else None)"
    using rdxtree_lookup_get [of "\<lparr>rt_height = h, rt_root = es ! 0\<rparr>"] wf by simp
  moreover have "k \<le> rdxtree_max_key h \<longleftrightarrow> rdxtree_index k h = 0" if "k \<le> rdxtree_max_key (Suc h)"
  proof -
    have "k < 64 ^ h * 64" using max_key_less [OF that] by simp
    then have "k div 64 ^ h < 64" by (simp add: less_mult_imp_div_less)
    then have "rdxtree_index k h = 0 \<longleftrightarrow> k < 64 ^ h" by (simp add: rdxtree_index_64 div_eq_0_iff)
    moreover have "k \<le> rdxtree_max_key h \<longleftrightarrow> k < 64 ^ h"
      unfolding max_key_small [OF nd(2)] using zero_less_power [of "64::nat" h] by linarith
    ultimately show ?thesis by blast
  qed
  moreover have "rdxtree_max_key h \<le> rdxtree_max_key (Suc h)" by (simp add: max_key_mono)
  moreover have "rdx_get h k (es ! rdxtree_index k h) = None" if "rdxtree_index k h \<noteq> 0"
    using nd(3) [of "rdxtree_index k h"] that by (simp add: is_null_iff)
  ultimately show "?l k = ?r k" using len by (cases "rdxtree_index k h = 0") auto
qed


lemma rdxtree_shrink_ok:
  assumes "rdx_wf (rt_height t) (rt_root t)" "\<not> is_null (rt_root t)" "rt_height t \<le> 11"
  shows "rdxtree_wf (rdxtree_shrink t) \<and> rdxtree_lookup (rdxtree_shrink t) = rdxtree_lookup t"
  using assms
proof (induction "rt_height t" arbitrary: t)
  case 0
  then have "rdxtree_shrink t = t" by (simp add: rdxtree_shrink_def)
  with 0 show ?case by (simp add: rdxtree_wf_def)
next
  case (Suc h)
  then have "rdx_wf (Suc h) (rt_root t)" by simp
  then obtain n bm es where r: "rt_root t = Node h n bm es" "rdx_node h h n bm es"
    using Suc.prems(2) by (cases rule: rdx_wf_Suc_cases) auto
  have len: "length es = 64" using r(2) by simp
  have t: "t = \<lparr>rt_height = Suc h, rt_root = Node h n bm es\<rparr>" using r(1) Suc.hyps(2) by simp
  show ?case
  proof (cases "n = 1 \<and> \<not> is_null (es ! 0)")
    case True
    let ?t = "\<lparr>rt_height = h, rt_root = es ! 0\<rparr>"
    have "rdxtree_shrink t = rdxtree_shrink ?t"
      using True len by (simp add: rdxtree_shrink_def t)
    moreover have "is_null (es ! j)" if j: "0 < j" "j < 64" for j
    proof -
      have "length (filter (\<lambda>x. \<not> is_null x) es) = 1"
        using r(2) True unfolding rdx_node_def by simp
      then have "length (filter (\<lambda>x. \<not> is_null x) (es[0 := Null])) = 0"
        using count_filter_upd [of 0 es "\<lambda>x. \<not> is_null x" Null] True len by simp
      then have "\<forall>x \<in> set (es[0 := Null]). is_null x" by (simp add: filter_empty_conv)
      moreover have "es[0 := Null] ! j \<in> set (es[0 := Null])" using j len by (intro nth_mem) simp
      ultimately show ?thesis using j by auto
    qed
    then have "rdxtree_lookup t = rdxtree_lookup ?t"
      unfolding t using rdxtree_lookup_fold [OF r(2)] Suc.hyps(2) Suc.prems(3) by simp
    moreover have "rdxtree_wf (rdxtree_shrink ?t) \<and>
        rdxtree_lookup (rdxtree_shrink ?t) = rdxtree_lookup ?t"
      by (rule Suc.hyps(1))
        (use True rdx_node_child [OF r(2), of 0] Suc.hyps(2) Suc.prems(3) in auto)
    ultimately show ?thesis by simp
  next
    case False
    then have "rdxtree_shrink t = t" using len by (auto simp: rdxtree_shrink_def t)
    with Suc.prems show ?thesis by (simp add: rdxtree_wf_def)
  qed
qed

lemma rdxtree_grow_step_ok:
  assumes wf: "rdxtree_wf t" and h: "rt_height t \<le> 10" and nn: "\<not> is_null (rt_root t)"
  shows "\<exists>t'. rdxtree_grow_step t (Node (rt_height t) 0 RDXTREE_BM_FULL (replicate 64 Null)) = Some t' \<and>
      rdxtree_wf t' \<and> \<not> is_null (rt_root t') \<and> rt_height t' = Suc (rt_height t) \<and>
      rdxtree_lookup t' = rdxtree_lookup t"
proof -
  let ?h = "rt_height t" and ?es = "(replicate 64 Null)[0 := rt_root t]"
  define bm where "bm = (if ?h = 0 \<or> alloc_bm (rt_root t) = 0
      then RDXTREE_BM_FULL AND NOT (push_bit 0 1) else RDXTREE_BM_FULL)"
  let ?t = "\<lparr>rt_height = Suc ?h, rt_root = Node ?h 1 bm ?es\<rparr>"
  have step: "rdxtree_grow_step t (Node ?h 0 RDXTREE_BM_FULL (replicate 64 Null)) = Some ?t"
    by (simp add: rdxtree_grow_step_def rdxtree_node_bm_empty_def bm_def Let_def)
  have bits: "bit bm j \<longleftrightarrow> j < 64 \<and> (j = 0 \<longrightarrow> ?h \<noteq> 0 \<and> alloc_bm (rt_root t) \<noteq> 0)" for j
    by (simp only: bm_def bm_clear_bit(1) bm_full_bit split: if_split) auto
  have root: "?h = 0 \<or> (\<exists>h n bm es. ?h = Suc h \<and> rt_root t = Node h n bm es \<and> rdx_node h h n bm es)"
    using wf nn by (cases ?h) (auto simp: rdxtree_wf_def elim: rdx_wf_Suc_cases)
  have nd: "rdx_node ?h ?h 1 bm ?es"
  proof (rule rdx_node_put [OF rdx_node_fresh])
    show "if bit bm 0 then rdx_room ?h (rt_root t) else rdx_sat ?h (rt_root t)"
      using root nn by (auto simp: bits split: if_splits intro!: exI [of _ "0::nat"])
  qed (use wf nn in \<open>auto simp: rdxtree_wf_def bits\<close>)
  moreover have "rdxtree_lookup ?t = rdxtree_lookup \<lparr>rt_height = ?h, rt_root = ?es ! 0\<rparr>"
    using nd h by (intro rdxtree_lookup_fold) auto
  moreover have "rdx_wf (Suc ?h) (Node ?h 1 bm ?es)"
    using nd unfolding rdx_wf_Node by simp
  ultimately show ?thesis using step h by (simp add: rdxtree_wf_def)
qed


lemma rdxtree_grow_loop_ok:
  assumes "rdxtree_wf t" "rt_height t + n \<le> 11" "\<not> is_null (rt_root t)"
  shows "\<exists>err t' m'. rdxtree_grow_loop n t m = Some (err, t', m') \<and> rdxtree_wf t' \<and>
      rdxtree_lookup t' = rdxtree_lookup t \<and> set m' \<subseteq> set m \<and>
      (err = KERN_SUCCESS \<and> rt_height t' = rt_height t + n \<or> err = ERR_NOMEM \<and> False \<in> set m)"
  using assms
proof (induction n arbitrary: t m)
  case 0
  then show ?case by simp
next
  case (Suc n)
  show ?case
  proof (cases rule: rdxtree_node_create_cases [where h = "rt_height t" and m = m and 'a = 'a])
    case (1 m1)
    obtain t1 where t1: "rdxtree_grow_step t (Node (rt_height t) 0 RDXTREE_BM_FULL (replicate 64 Null)) = Some t1"
      "rdxtree_wf t1" "\<not> is_null (rt_root t1)" "rt_height t1 = Suc (rt_height t)"
      "rdxtree_lookup t1 = rdxtree_lookup t"
      using rdxtree_grow_step_ok [of t] Suc.prems by auto
    from Suc.IH [of t1 m1] t1 Suc.prems obtain err t' m' where
      "rdxtree_grow_loop n t1 m1 = Some (err, t', m')" "rdxtree_wf t'"
      "rdxtree_lookup t' = rdxtree_lookup t1" "set m' \<subseteq> set m1"
      "err = KERN_SUCCESS \<and> rt_height t' = rt_height t1 + n \<or> err = ERR_NOMEM \<and> False \<in> set m1"
      by auto
    with 1 t1 show ?thesis by auto
  next
    case (2 m1)
    with Suc.prems rdxtree_shrink_ok [of t] show ?thesis by (auto simp: rdxtree_wf_def)
  qed
qed

lemma rdxtree_grow_ok:
  assumes wf: "rdxtree_wf t" and key: "key < 2 ^ 64" "rdxtree_max_key (rt_height t) < key"
  shows "\<exists>err t' m'. rdxtree_grow t key m = Some (err, t', m') \<and> set m' \<subseteq> set m \<and>
      rdxtree_lookup t' = rdxtree_lookup t \<and>
      (err = KERN_SUCCESS \<and> rdx_wf (rt_height t') (rt_root t') \<and> rt_height t' \<le> 11 \<and>
         key \<le> rdxtree_max_key (rt_height t') \<or>
       err = ERR_NOMEM \<and> rdxtree_wf t' \<and> False \<in> set m)"
proof -
  let ?H = "rdxtree_grow_height key (rt_height t + 1)"
  have "rt_height t \<le> 10"
    using key by (cases "rt_height t \<le> 10") (auto simp: max_key_11)
  then have H: "key \<le> rdxtree_max_key ?H" "rt_height t + 1 \<le> ?H" "?H \<le> 11"
    using grow_height_ok [OF key(1), of "rt_height t + 1"] by auto
  show ?thesis
  proof (cases "is_null (rt_root t)")
    case True
    then have "rt_root t = Null" by (simp add: is_null_iff)
    then show ?thesis
      using H wf by (auto simp: rdxtree_grow_def rdxtree_wf_def rdxtree_lookup_def)
  next
    case False
    obtain err t' m' where L: "rdxtree_grow_loop (?H - rt_height t) t m = Some (err, t', m')"
      "rdxtree_wf t'" "rdxtree_lookup t' = rdxtree_lookup t" "set m' \<subseteq> set m"
      "err = KERN_SUCCESS \<and> rt_height t' = rt_height t + (?H - rt_height t) \<or>
       err = ERR_NOMEM \<and> False \<in> set m"
      using rdxtree_grow_loop_ok [of t "?H - rt_height t" m] wf H False by auto
    moreover have "rt_height t + (?H - rt_height t) = ?H" using H by simp
    ultimately show ?thesis
      using False H by (auto simp: rdxtree_grow_def rdxtree_wf_def)
  qed
qed

definition insert_spec ::
  "(nat \<rightharpoonup> 'a) \<Rightarrow> nat \<Rightarrow> 'a \<Rightarrow> mem \<Rightarrow> kern_return \<Rightarrow> (nat \<rightharpoonup> 'a) \<Rightarrow> bool" where
  "insert_spec M key p m err M' =
     (err = KERN_SUCCESS \<and> M key = None \<and> M' = M(key \<mapsto> p) \<or>
      err = ERR_BUSY \<and> M key \<noteq> None \<and> M' = M \<or>
      err = ERR_NOMEM \<and> M key = None \<and> M' = M \<and> False \<in> set m)"

lemma ins_post_lookup:
  assumes wf: "rdx_wf (rt_height t) (rt_root t)" and key: "key \<le> rdxtree_max_key (rt_height t)"
    and post: "ins_post (rt_height t) key p m (rt_root t) KERN_SUCCESS root up"
  shows "rdx_wf (rt_height t) root" "\<not> is_null root" "rdxtree_lookup t key = None"
    "rdxtree_lookup (t\<lparr>rt_root := root\<rparr>) = (rdxtree_lookup t)(key \<mapsto> p)"
proof -
  note P = post [unfolded ins_post_def, simplified]
  have mod: "k mod 64 ^ rt_height t = k" if "k \<le> rdxtree_max_key (rt_height t)" for k
    using max_key_less [OF that] by simp
  show "rdx_wf (rt_height t) root" "\<not> is_null root" using P by auto
  then show "rdxtree_lookup (t\<lparr>rt_root := root\<rparr>) = (rdxtree_lookup t)(key \<mapsto> p)"
    using P key mod by (intro ext) (simp add: rdxtree_lookup_get [OF wf] rdxtree_lookup_get)
  show "rdxtree_lookup t key = None" using P key by (simp add: rdxtree_lookup_get [OF wf])
qed

lemma rdxtree_insert_fit:
  assumes wf: "rdx_wf (rt_height t) (rt_root t)" "rt_height t \<le> 11"
    and key: "key \<le> rdxtree_max_key (rt_height t)" and h: "rt_height t \<noteq> 0"
  shows "\<exists>err root up m'. rdxtree_insert_down (rt_height t) key p m (rt_root t) = Some (err, root, up, m') \<and>
      set m' \<subseteq> set m \<and> rdx_wf (rt_height t) root \<and> (is_null root \<longrightarrow> err = ERR_NOMEM) \<and>
      insert_spec (rdxtree_lookup t) key p m err (rdxtree_lookup (t\<lparr>rt_root := root\<rparr>))"
proof -
  obtain err root up m' where D: "rdxtree_insert_down (rt_height t) key p m (rt_root t) = Some (err, root, up, m')"
    "ins_post (rt_height t) key p m (rt_root t) err root up" "set m' \<subseteq> set m"
    using insert_down_ok [OF wf(1)] by blast
  have wf': "rdx_wf (rt_height t) root"
    using D(2) wf(1) by (auto simp: ins_post_def split: if_splits)
  have "insert_spec (rdxtree_lookup t) key p m err (rdxtree_lookup (t\<lparr>rt_root := root\<rparr>))"
  proof (cases "err = KERN_SUCCESS")
    case True
    with ins_post_lookup [OF wf(1) key] D(2) show ?thesis by (auto simp: insert_spec_def)
  next
    case False
    then have "root = rt_root t" using D(2) by (auto simp: ins_post_def split: if_splits)
    then show ?thesis
      using D(2) False key
      by (auto simp: insert_spec_def ins_post_def rdxtree_lookup_get [OF wf(1)] split: if_splits)
  qed
  moreover have "is_null root \<longrightarrow> err = ERR_NOMEM"
    using D(2) by (auto simp: ins_post_def is_null_iff split: if_splits)
  ultimately show ?thesis using D wf' by blast
qed

lemma rdxtree_insert_ok:
  assumes "rdxtree_wf t" "key < 2 ^ 64"
  shows "\<exists>err t' m'. rdxtree_insert t key p m = Some (err, t', m') \<and> rdxtree_wf t' \<and>
      set m' \<subseteq> set m \<and> insert_spec (rdxtree_lookup t) key p m err (rdxtree_lookup t')"
proof -
  let ?g = "if key > rdxtree_max_key (rt_height t) then rdxtree_grow t key m
            else Some (KERN_SUCCESS, t, m)"
  obtain err t1 m1 where g: "?g = Some (err, t1, m1)" "set m1 \<subseteq> set m"
      "rdxtree_lookup t1 = rdxtree_lookup t"
    and c: "err = KERN_SUCCESS \<and> rdx_wf (rt_height t1) (rt_root t1) \<and> rt_height t1 \<le> 11 \<and>
         key \<le> rdxtree_max_key (rt_height t1) \<or>
       err = ERR_NOMEM \<and> rdxtree_wf t1 \<and> False \<in> set m \<and> key > rdxtree_max_key (rt_height t)"
  proof (cases "key > rdxtree_max_key (rt_height t)")
    case True
    with rdxtree_grow_ok [OF assms True, of m] that show thesis by auto
  next
    case False
    with that [of KERN_SUCCESS t m] assms(1) show thesis by (simp add: rdxtree_wf_def)
  qed
  show ?thesis
  proof (cases "err = KERN_SUCCESS")
    case False
    then have "rdxtree_lookup t key = None"
      using c assms(1) by (auto simp: rdxtree_lookup_get rdxtree_wf_def)
    with False g c show ?thesis by (auto simp: rdxtree_insert_def insert_spec_def)
  next
    case True
    then have t1: "rdx_wf (rt_height t1) (rt_root t1)" "rt_height t1 \<le> 11"
      "key \<le> rdxtree_max_key (rt_height t1)" using c by auto
    show ?thesis
    proof (cases "rt_height t1 = 0")
      case h: True
      then have "key = 0" using t1(3) by (simp add: max_key_small)
      then show ?thesis
        using h t1(1) g True
        by (cases "rt_root t1")
          (auto simp: rdxtree_insert_def insert_spec_def rdxtree_wf_def rdxtree_lookup_get
            g(3) [symmetric] max_key_small fun_eq_iff)
    next
      case h: False
      obtain err root up m' where D:
        "rdxtree_insert_down (rt_height t1) key p m1 (rt_root t1) = Some (err, root, up, m')"
        "set m' \<subseteq> set m1" "rdx_wf (rt_height t1) root" "is_null root \<longrightarrow> err = ERR_NOMEM"
        and spec: "insert_spec (rdxtree_lookup t1) key p m1 err (rdxtree_lookup (t1\<lparr>rt_root := root\<rparr>))"
        using rdxtree_insert_fit [OF t1 h] by blast
      have spec': "insert_spec (rdxtree_lookup t) key p m err (rdxtree_lookup (t1\<lparr>rt_root := root\<rparr>))"
        using spec g(2,3) by (auto simp: insert_spec_def)
      consider "err = ERR_NOMEM" "is_null root" | "err = ERR_NOMEM" "up" "\<not> is_null root"
        | "\<not> (err = ERR_NOMEM \<and> up)" "\<not> is_null root" using D(4) by blast
      then show ?thesis
      proof cases
        case 1
        then have "rdxtree_lookup (t1\<lparr>rt_root := root\<rparr>) = rdxtree_lookup rdxtree_init"
          by (auto simp: is_null_iff rdxtree_lookup_def rdxtree_init_def fun_eq_iff)
        with 1 D g True h spec' show ?thesis
          by (auto simp: rdxtree_insert_def rdxtree_wf_def rdxtree_init_def)
      next
        case 2
        with D g True h spec' rdxtree_shrink_ok [of "t1\<lparr>rt_root := root\<rparr>"] t1 show ?thesis
          by (auto simp: rdxtree_insert_def)
      next
        case 3
        with D g True h spec' t1 show ?thesis
          by (auto simp: rdxtree_insert_def rdxtree_wf_def)
      qed
    qed
  qed
qed


section \<open>Allocation of a key\<close>

lemma rdx_get_cong: "k mod 64 ^ h = l mod 64 ^ h \<Longrightarrow> rdx_get h k e = rdx_get h l e"
proof (induction h arbitrary: e)
  case 0
  then show ?case by simp
next
  case (Suc h)
  then have "rdxtree_index k h = rdxtree_index l h" "k mod 64 ^ h = l mod 64 ^ h"
    unfolding digit_split rdxtree_index_64 by auto
  with Suc.IH show ?case by (auto simp: rdx_get_def)
qed

lemma ins_post_cong:
  "k mod 64 ^ h = l mod 64 ^ h \<Longrightarrow> ins_post h k p m e err e' up \<Longrightarrow> ins_post h l p m e err e' up"
  by (simp add: ins_post_def rdx_get_cong [of k h l] cong: if_cong)

lemma alloc_down_ok:
  "rdx_wf h e \<Longrightarrow> rdx_room h e \<Longrightarrow> h \<le> 10 \<Longrightarrow>
   \<exists>res e' up m'. rdxtree_alloc_down h key0 p m e = Some (res, e', up, m') \<and> set m' \<subseteq> set m \<and>
     ((\<exists>k < 64 ^ h. res = Alloc_Key (key0 + k) \<and> ins_post h k p m e KERN_SUCCESS e' up) \<or>
      res = Alloc_Nomem \<and> e' = e \<and> False \<in> set m)"
proof (induction h arbitrary: e m key0)
  case 0
  then show ?case by (auto simp: is_null_iff ins_post_def)
next
  case (Suc h)
  from Suc.prems(1) show ?case
  proof (cases rule: rdx_acquire [where m = m])
    case nomem
    then show ?thesis by auto
  next
    case (node n bm es m1)
    let ?node = "Node h n bm es"
    note len = rdx_node_length [OF node(2)]
    have "bm \<noteq> 0" using node(4) Suc.prems(2) by (auto simp: RDXTREE_BM_FULL_def)
    define i where "i = rdxtree_node_bm_first ?node"
    then have i: "i < 64" "bit bm i" using bm_first_Some [OF \<open>bm \<noteq> 0\<close>] by blast+
    have room: "rdx_room h (es ! i)" using rdx_node_bit [OF node(2) i(1)] i(2) by simp
    have "i * 64 ^ h < 2 ^ 64"
    proof -
      have "(64::nat) ^ h \<le> 64 ^ 9" using Suc.prems(3) by (intro power_increasing) auto
      then have "i * 64 ^ h \<le> 63 * 64 ^ 9" using i(1) by (intro mult_le_mono) auto
      then show ?thesis by simp
    qed
    then have sh: "i * 2 ^ (h * RDXTREE_RADIX) mod 18446744073709551616 = i * 64 ^ h"
      by (simp add: RDXTREE_RADIX_def power_mult mult.commute [of h])
    from Suc.IH [OF rdx_node_child [OF node(2) i(1)] room, of "key0 + i * 64 ^ h" m1] Suc.prems(3)
    obtain res c' up m' where
      IH: "rdxtree_alloc_down h (key0 + i * 64 ^ h) p m1 (es ! i) = Some (res, c', up, m')"
        "set m' \<subseteq> set m1"
        "(\<exists>k < 64 ^ h. res = Alloc_Key (key0 + i * 64 ^ h + k) \<and>
            ins_post h k p m1 (es ! i) KERN_SUCCESS c' up) \<or>
         res = Alloc_Nomem \<and> c' = es ! i \<and> False \<in> set m1"
      by auto
    from IH(3) show ?thesis
    proof (elim disjE exE conjE)
      fix k
      assume k: "k < 64 ^ h" and res: "res = Alloc_Key (key0 + i * 64 ^ h + k)"
        and post: "ins_post h k p m1 (es ! i) KERN_SUCCESS c' up"
      let ?k = "i * 64 ^ h + k" and ?e' = "ins_up ?node i c' up"
      have idx: "i = rdxtree_index ?k h" using k i(1) by (simp add: rdxtree_index_64)
      have post': "ins_post h ?k p m1 (es ! i) KERN_SUCCESS c' up"
        by (rule ins_post_cong [OF _ post]) simp
      have "\<not> is_null c'" using post by (simp add: ins_post_def)
      moreover have "h = 0 \<longrightarrow> is_null (es ! i)" using room by (cases h) auto
      ultimately have "rdxtree_alloc_down (Suc h) key0 p m e =
          Some (res, ?e', up \<and> nr_entries ?e' = 64, m')"
        using i(1)
        by (auto simp: node(1) len IH(1) Let_def i_def [symmetric] sh res ins_up_def
            rdxtree_node_full_def RDXTREE_RADIX_SIZE_def)
      moreover have "ins_post (Suc h) ?k p m e KERN_SUCCESS ?e' (up \<and> nr_entries ?e' = 64)"
        by (rule ins_post_level [OF node(2) idx]) (use node(4) post' in auto)
      moreover have "?k < 64 ^ Suc h"
      proof -
        have "?k < (i + 1) * 64 ^ h" using k by simp
        also have "\<dots> \<le> 64 * 64 ^ h" using i(1) by (intro mult_le_mono) auto
        finally show ?thesis by simp
      qed
      ultimately show ?thesis using IH(2) node(3) res by (auto simp: add.assoc)
    next
      assume res: "res = Alloc_Nomem" and c': "c' = es ! i" and m1: "False \<in> set m1"
      have "rdxtree_alloc_down (Suc h) key0 p m e = Some (res, e, is_null c', m')"
      proof (cases "is_null (es ! i)")
        case True
        then show ?thesis
          using node(4) i(1)
          by (auto simp: node(1) len IH(1) c' i_def [symmetric] sh res rdxtree_node_empty_def)
      next
        case nonnull: False
        then have "e = ?node" "m1 = m" using node(1,4) i(1) by auto
        with nonnull show ?thesis using IH(1) i(1) by (simp add: len c' i_def [symmetric] sh res Let_def)
      qed
      then show ?thesis using IH(2) node(3) res m1 by blast
    qed
  qed
qed



lemma rdxtree_insert_alloc_ok:
  assumes wf: "rdxtree_wf t" and h: "rt_height t \<le> 10"
  shows "\<exists>err key t' m'. rdxtree_insert_alloc t p m = Some (err, key, t', m') \<and> rdxtree_wf t' \<and>
      set m' \<subseteq> set m \<and>
      (err = KERN_SUCCESS \<and> key \<le> 64 ^ rt_height t \<and> rdxtree_lookup t key = None \<and>
         rdxtree_lookup t' = (rdxtree_lookup t)(key \<mapsto> p) \<or>
       err = ERR_NOMEM \<and> rdxtree_lookup t' = rdxtree_lookup t \<and> False \<in> set m)"
proof -
  let ?H = "rt_height t"
  have key: "(rdxtree_max_key ?H + 1) mod 18446744073709551616 = 64 ^ ?H" 
    and key_less: "64 ^ ?H < (2::nat) ^ 64"
  proof -
    have "(64::nat) ^ ?H \<le> 64 ^ 10" using h by (intro power_increasing) auto
    then show "64 ^ ?H < (2::nat) ^ 64" by simp
    then show "(rdxtree_max_key ?H + 1) mod 18446744073709551616 = 64 ^ ?H"
      using h by (simp add: max_key_small)
  qed
  have grow: "\<exists>err t' m'. do { (err, t', m) \<leftarrow> rdxtree_insert t (64 ^ ?H) p m; Some (err, 64 ^ ?H, t', m) }
      = Some (err, 64 ^ ?H, t', m') \<and> rdxtree_wf t' \<and> set m' \<subseteq> set m \<and>
      (err = KERN_SUCCESS \<and> rdxtree_lookup t (64 ^ ?H) = None \<and>
         rdxtree_lookup t' = (rdxtree_lookup t)(64 ^ ?H \<mapsto> p) \<or>
       err = ERR_NOMEM \<and> rdxtree_lookup t' = rdxtree_lookup t \<and> False \<in> set m)"
  proof -
    have "\<not> 64 ^ ?H \<le> rdxtree_max_key ?H"
      unfolding max_key_small [OF h] using zero_less_power [of "64::nat" ?H] by linarith
    then have "rdxtree_lookup t (64 ^ ?H) = None"
      using wf by (simp add: rdxtree_wf_def rdxtree_lookup_get)
    with rdxtree_insert_ok [OF wf key_less, of p m] show ?thesis
      by (fastforce simp: insert_spec_def)
  qed
  show ?thesis
  proof (cases ?H)
    case 0
    show ?thesis
    proof (cases "rt_root t")
      case Null
      with 0 wf show ?thesis
        by (auto simp: rdxtree_insert_alloc_def rdxtree_wf_def rdxtree_lookup_get max_key_small fun_eq_iff)
    next
      case (Ptr q)
      then have "rdxtree_insert_alloc t p m =
          do { (err, t', m) \<leftarrow> rdxtree_insert t (64 ^ ?H) p m; Some (err, 64 ^ ?H, t', m) }"
        using 0 by (simp add: rdxtree_insert_alloc_def Let_def max_key_small)
      with grow show ?thesis by auto
    next
      case (Node h n bm es)
      with 0 wf show ?thesis by (simp add: rdxtree_wf_def)
    qed
  next
    case (Suc h0)
    then obtain n bm es where r: "rt_root t = Node h0 n bm es" "rdx_node h0 h0 n bm es" "0 < n"
      using wf by (auto simp: rdxtree_wf_def elim: rdx_wf_Suc_cases)
    have nz: "?H \<noteq> 0" "\<not> is_null (rt_root t)" using Suc r(1) by auto
    show ?thesis
    proof (cases "bm = 0")
      case True
      have "rdxtree_alloc_down ?H 0 p m (rt_root t) = Some (Alloc_Grow ?H, rt_root t, False, m)"
        using True by (simp add: Suc r(1) bm_first_None)
      moreover have "rdxtree_max_key ?H + 1 = 64 ^ ?H" using h by (simp add: max_key_small)
      ultimately have "rdxtree_insert_alloc t p m =
          do { (err, t', m) \<leftarrow> rdxtree_insert t (64 ^ ?H) p m; Some (err, 64 ^ ?H, t', m) }"
        using nz key by (simp add: rdxtree_insert_alloc_def Let_def)
      with grow show ?thesis by auto
    next
      case False
      then have "rdx_room ?H (rt_root t)" by (simp add: Suc r(1))
      then obtain res root up m' where
        D: "rdxtree_alloc_down ?H 0 p m (rt_root t) = Some (res, root, up, m')" "set m' \<subseteq> set m"
          "(\<exists>k < 64 ^ ?H. res = Alloc_Key (0 + k) \<and> ins_post ?H k p m (rt_root t) KERN_SUCCESS root up) \<or>
           res = Alloc_Nomem \<and> root = rt_root t \<and> False \<in> set m"
        using alloc_down_ok [of ?H "rt_root t" 0 p m] wf h by (auto simp: rdxtree_wf_def)
      from D(3) show ?thesis
      proof (elim disjE exE conjE)
        fix k
        assume k: "k < 64 ^ ?H" "res = Alloc_Key (0 + k)"
          "ins_post ?H k p m (rt_root t) KERN_SUCCESS root up"
        have "k \<le> rdxtree_max_key ?H" using k(1) max_key_small [OF h] by simp
        with ins_post_lookup [OF _ this k(3)] wf D(1,2) k(1,2) nz show ?thesis
          by (auto simp: rdxtree_insert_alloc_def rdxtree_wf_def Let_def)
      next
        assume "res = Alloc_Nomem" "root = rt_root t" "False \<in> set m"
        with rdxtree_shrink_ok [of t] wf D(1,2) nz show ?thesis
          by (auto simp: rdxtree_insert_alloc_def rdxtree_wf_def Let_def)
      qed
    qed
  qed
qed

section \<open>Removal\<close>

definition rem_post ::
  "nat \<Rightarrow> nat \<Rightarrow> 'a rdxent \<Rightarrow> 'a option \<Rightarrow> 'a rdxent \<Rightarrow> bool \<Rightarrow> bool" where
  "rem_post h key e old e' bm =
     (old = rdx_get h key e \<and> rdx_wf h e' \<and>
      (if old = None then e' = e
       else (bm \<longrightarrow> rdx_room h e') \<and> (rdx_room h e \<longrightarrow> rdx_room h e') \<and>
            (\<not> bm \<and> rdx_sat h e \<longrightarrow> rdx_sat h e')) \<and>
      (\<forall>k. rdx_get h k e' = (if k mod 64 ^ h = key mod 64 ^ h then None else rdx_get h k e)))"

lemma remove_down_ok:
  "rdx_wf h e \<Longrightarrow>
   \<exists>old e' bm r. rdxtree_remove_down h key e = Some (old, e', bm, r) \<and> rem_post h key e old e' bm"
proof (induction h arbitrary: e)
  case 0
  then show ?case by (cases e) (auto simp: rem_post_def)
next
  case (Suc h)
  let ?i = "rdxtree_index key h"
  from Suc.prems show ?case
  proof (cases rule: rdx_wf_Suc_cases)
    case 1
    then show ?thesis by (auto simp: rem_post_def)
  next
    case (2 n bm es)
    note len = rdx_node_length [OF 2(2)]
    from Suc.IH [OF rdx_node_child [OF 2(2) rdxtree_index_less]] obtain old c' go r where
      IH: "rdxtree_remove_down h key (es ! ?i) = Some (old, c', go, r)"
        "rem_post h key (es ! ?i) old c' go" by blast
    show ?thesis
    proof (cases "old = None")
      case True
      then have none: "rdx_get (Suc h) key e = None" using IH(2) 2(1) len by (simp add: rem_post_def)
      then have "rdx_get (Suc h) k e = None" if "k mod 64 ^ Suc h = key mod 64 ^ Suc h" for k
        using rdx_get_cong [OF that, of e] by simp
      moreover have "\<exists>x r. rdxtree_remove_down (Suc h) key e = Some (None, e, x, r)"
        using 2(1) IH(1) len True by (auto simp: Let_def)
      ultimately show ?thesis using none Suc.prems by (auto simp: rem_post_def)
    next
      case False
      then have nn: "\<not> is_null (es ! ?i)" using IH(2) by (auto simp: rem_post_def is_null_iff)
      define bm_go where "bm_go = (go \<and> (h = 0 \<or> \<not> bit bm ?i))"
      define bm' where "bm' = (if bm_go then bm OR push_bit ?i 1 else bm)"
      define n' where "n' = (if is_null c' then n - 1 else n)"
      define e' where "e' = (if is_null c' \<and> n' = 0 then Null else Node h n' bm' (es[?i := c']))"
      note P = IH(2) [unfolded rem_post_def]
      have bits: "bit bm' j \<longleftrightarrow> bit bm j \<or> bm_go \<and> j = ?i" for j
        by (auto simp: bm'_def bm_set_bit)
      have nd: "rdx_node h h n' bm' (es[?i := c'])"
      proof (rule rdx_node_put [OF 2(2) rdxtree_index_less])
        show "if bit bm' ?i then rdx_room h c' else rdx_sat h c'"
          using rdx_node_bit [OF 2(2), of ?i] P False by (auto simp: bits bm_go_def split: if_splits)
      qed (use P nn 2(3) in \<open>auto simp: bits n'_def\<close>)
      have get': "rdx_get (Suc h) k (Node h n' bm' (es[?i := c'])) =
          (if k mod 64 ^ Suc h = key mod 64 ^ Suc h then None else rdx_get (Suc h) k e)" for k
        unfolding 2(1) by (rule rdx_get_put [OF len]) (use P in blast)
      have run: "\<exists>r. rdxtree_remove_down (Suc h) key e = Some (old, e', bm_go, r)"
        using 2(1) IH(1) len False nn
        by (auto simp: Let_def bm_is_set_iff bm_go_def bm'_def e'_def n'_def rdxtree_node_empty_def
            dest: is_null_iff [THEN iffD1])
      have post: "rem_post (Suc h) key e old e' bm_go"
      proof (cases "e' = Null")
        case True
        then have c': "c' = Null" "n' = 0" by (auto simp: e'_def is_null_iff split: if_splits)
        have "\<not> rdx_sat (Suc h) e \<or> bm_go"
        proof (rule ccontr)
          assume "\<not> ?thesis"
          then obtain j where j: "j < 64" "\<not> bit bm j" "\<not> bm_go" by (auto simp: 2(1))
          then have "rdx_sat h (es[?i := c'] ! j)" using rdx_node_bit [OF nd j(1)] by (simp add: bits)
          then show False
            using rdx_node_count_pos [OF nd j(1)] c'(2) rdx_sat_nonnull by blast
        qed
        moreover have "rdx_get (Suc h) k (Node h n' bm' (es[?i := c'])) = None" for k
        proof -
          have "is_null (es[?i := c'] ! rdxtree_index k h)"
            using rdx_node_count_pos [OF nd rdxtree_index_less [of k h]] c'(2) by blast
          then show ?thesis using len by (simp add: is_null_iff)
        qed
        then have "rdx_get (Suc h) k e' =
            (if k mod 64 ^ Suc h = key mod 64 ^ Suc h then None else rdx_get (Suc h) k e)" for k
          using get' [of k] True by (metis rdx_get_Null)
        moreover have "old = rdx_get (Suc h) key e" using P len 2(1) by simp
        ultimately show ?thesis
          using True False unfolding rem_post_def by (auto simp del: power_Suc rdx_sat.simps)
      next
        case nnull: False
        then have e': "e' = Node h n' bm' (es[?i := c'])" by (auto simp: e'_def split: if_splits)
        have "0 < n'" using nnull 2(3) by (auto simp: e'_def n'_def split: if_splits)
        then have "rdx_wf (Suc h) e'" unfolding e' rdx_wf_Node using nd by blast
        moreover have "rdx_room (Suc h) e \<or> bm_go \<longrightarrow> rdx_room (Suc h) e'"
          using bits unfolding e' 2(1) 
          by (auto simp: bm_eq_0 intro: exI [of _ ?i])
        moreover have "rdx_sat (Suc h) e \<and> \<not> bm_go \<longrightarrow> rdx_sat (Suc h) e'"
          using bits unfolding e' 2(1) by auto
        moreover have "old = rdx_get (Suc h) key e" using P len 2(1) by simp
        ultimately show ?thesis
          using get' False unfolding rem_post_def e'
          by (auto simp del: power_Suc rdx_sat.simps rdx_room.simps)
      qed
      from run post show ?thesis by blast
    qed
  qed
qed



lemma rdxtree_remove_ok:
  assumes wf: "rdxtree_wf t"
  shows "\<exists>t'. rdxtree_remove t key = Some (rdxtree_lookup t key, t') \<and> rdxtree_wf t' \<and>
      rdxtree_lookup t' = (rdxtree_lookup t)(key := None)"
proof (cases "key \<le> rdxtree_max_key (rt_height t)")
  case False
  then have "rdxtree_lookup t key = None" using wf by (simp add: rdxtree_lookup_get rdxtree_wf_def)
  with False wf show ?thesis by (auto simp: rdxtree_remove_def)
next
  case key: True
  show ?thesis
  proof (cases "rt_height t = 0")
    case True
    then show ?thesis
      using wf key by (auto simp: rdxtree_remove_def rdxtree_wf_def rdxtree_lookup_get max_key_small)
  next
    case h: False
    have wfr: "rdx_wf (rt_height t) (rt_root t)" using wf by (simp add: rdxtree_wf_def)
    obtain old root bm r where
      D: "rdxtree_remove_down (rt_height t) key (rt_root t) = Some (old, root, bm, r)"
        "rem_post (rt_height t) key (rt_root t) old root bm"
      using remove_down_ok [OF wfr] by blast
    have mod: "k mod 64 ^ rt_height t = k" if "k \<le> rdxtree_max_key (rt_height t)" for k
      using max_key_less [OF that] by simp
    have root: "rdx_wf (rt_height t) root" "old = rdxtree_lookup t key"
      using D(2) key by (simp_all add: rem_post_def rdxtree_lookup_get [OF wfr])
    have lk: "rdxtree_lookup (t\<lparr>rt_root := root\<rparr>) = (rdxtree_lookup t)(key := None)"
      using D(2) root key mod
      by (intro ext) (simp add: rdxtree_lookup_get [OF wfr] rdxtree_lookup_get rem_post_def)
    show ?thesis
    proof (cases "old = None \<or> is_null root")
      case True
      have "rdxtree_lookup rdxtree_init = rdxtree_lookup (t\<lparr>rt_root := root\<rparr>)" if "is_null root"
        using that by (auto simp: is_null_iff rdxtree_lookup_def rdxtree_init_def)
      with True lk D root wf key h show ?thesis
        by (auto simp: rdxtree_remove_def rdxtree_wf_def rdxtree_init_def)
    next
      case False
      with lk D root wf key h rdxtree_shrink_ok [of "t\<lparr>rt_root := root\<rparr>"] show ?thesis
        by (auto simp: rdxtree_remove_def rdxtree_wf_def)
    qed
  qed
qed

lemma replace_down_ok:
  "rdx_wf h e \<Longrightarrow> rdx_get h key e \<noteq> None \<Longrightarrow> e' = rdxtree_replace_down h key p e \<Longrightarrow>
   rdx_wf h e' \<and> \<not> is_null e' \<and> ent_height e' = ent_height e \<and>
   (rdx_sat h e \<longrightarrow> rdx_sat h e') \<and> (rdx_room h e \<longrightarrow> rdx_room h e') \<and>
   (\<forall>k. rdx_get h k e' = (if k mod 64 ^ h = key mod 64 ^ h then Some p else rdx_get h k e))"
proof (induction h arbitrary: e e')
  case 0
  then show ?case by (cases e) auto
next
  case (Suc h)
  let ?i = "rdxtree_index key h"
  from Suc.prems(1) show ?case
  proof (cases rule: rdx_wf_Suc_cases)
    case 1
    with Suc.prems show ?thesis by simp
  next
    case (2 n bm es)
    note len = rdx_node_length [OF 2(2)]
    define c' where "c' = rdxtree_replace_down h key p (es ! ?i)"
    have get: "rdx_get h key (es ! ?i) \<noteq> None" using Suc.prems(2) 2(1) len by simp
    then have nn: "\<not> is_null (es ! ?i)" by (auto simp: is_null_iff)
    have e': "e' = Node h n bm (es[?i := c'])" using Suc.prems(3) 2(1) len by (simp add: c'_def)
    note IH = Suc.IH [OF rdx_node_child [OF 2(2) rdxtree_index_less] get c'_def]
    have "rdx_node h h n bm (es[?i := c'])"
      by (rule rdx_node_put [OF 2(2) rdxtree_index_less])
        (use IH nn rdx_node_bit [OF 2(2), of ?i] in \<open>auto split: if_splits\<close>)
    then have "rdx_wf (Suc h) e'" unfolding e' rdx_wf_Node using 2(3) by blast
    moreover have "rdx_get (Suc h) k e' =
        (if k mod 64 ^ Suc h = key mod 64 ^ Suc h then Some p else rdx_get (Suc h) k e)" for k
      unfolding e' 2(1) by (rule rdx_get_put [OF len]) (use IH in blast)
    ultimately show ?thesis by (simp add: e' 2(1))
  qed
qed

lemma rdxtree_replace_slot_ok:
  assumes wf: "rdxtree_wf t" and key: "rdxtree_lookup t key \<noteq> None"
  shows "\<exists>t'. rdxtree_replace_slot t key p = Some t' \<and> rdxtree_wf t' \<and>
      rdxtree_lookup t' = (rdxtree_lookup t)(key \<mapsto> p)"
proof -
  have wfr: "rdx_wf (rt_height t) (rt_root t)" using wf by (simp add: rdxtree_wf_def)
  have h: "ent_height (rt_root t) = rt_height t"
  proof (cases "rt_height t")
    case 0
    with wfr show ?thesis by (cases "rt_root t") auto
  next
    case (Suc h)
    with wf have "rdx_wf (Suc h) (rt_root t)" "\<not> is_null (rt_root t)" by (auto simp: rdxtree_wf_def)
    then show ?thesis using Suc by (cases rule: rdx_wf_Suc_cases) auto
  qed
  have k: "key \<le> rdxtree_max_key (rt_height t)" "rdx_get (rt_height t) key (rt_root t) \<noteq> None"
    using key by (auto simp: rdxtree_lookup_get [OF wfr] split: if_splits)
  define root where "root = rdxtree_replace_down (rt_height t) key p (rt_root t)"
  note R = replace_down_ok [OF wfr k(2) root_def]
  have mod: "k mod 64 ^ rt_height t = k" if "k \<le> rdxtree_max_key (rt_height t)" for k
    using max_key_less [OF that] by simp
  have "rdxtree_lookup (t\<lparr>rt_root := root\<rparr>) = (rdxtree_lookup t)(key \<mapsto> p)"
    using R k mod by (intro ext) (simp add: rdxtree_lookup_get [OF wfr] rdxtree_lookup_get)
  moreover have "rdxtree_wf (t\<lparr>rt_root := root\<rparr>)" using R wf by (simp add: rdxtree_wf_def)
  ultimately show ?thesis using key by (simp add: rdxtree_replace_slot_def h root_def)
qed

lemma rdxtree_wf_init [simp]: "rdxtree_wf rdxtree_init"
  by (simp add: rdxtree_wf_def rdxtree_init_def)

lemma rdxtree_lookup_init [simp]: "rdxtree_lookup rdxtree_init = Map.empty"
  by (auto simp: rdxtree_lookup_def rdxtree_init_def)

lemma rdxtree_lookup_finite:
  assumes "rdxtree_wf t"
  shows "finite (dom (rdxtree_lookup t))"
proof (rule finite_subset)
  show "dom (rdxtree_lookup t) \<subseteq> {.. rdxtree_max_key (rt_height t)}"
    using assms by (auto simp: rdxtree_wf_def rdxtree_lookup_get split: if_splits)
qed simp

section \<open>The contract of the trees\<close>

locale name_map =
  fixes wf :: "'t \<Rightarrow> bool"
    and look :: "'t \<Rightarrow> nat \<Rightarrow> 'v option"
    and ins :: "'t \<Rightarrow> nat \<Rightarrow> 'v \<Rightarrow> mem \<Rightarrow> (kern_return \<times> 't \<times> mem) option"
    and rem :: "'t \<Rightarrow> nat \<Rightarrow> ('v option \<times> 't) option"
    and rep :: "'t \<Rightarrow> nat \<Rightarrow> 'v \<Rightarrow> 't option"
  assumes ins_law: "wf t \<Longrightarrow> k < 2 ^ 64 \<Longrightarrow>
      \<exists>err t' m'. ins t k v m = Some (err, t', m') \<and> wf t' \<and> set m' \<subseteq> set m \<and>
        insert_spec (look t) k v m err (look t')"
    and rem_law: "wf t \<Longrightarrow>
      \<exists>t'. rem t k = Some (look t k, t') \<and> wf t' \<and> look t' = (look t)(k := None)"
    and rep_law: "wf t \<Longrightarrow> look t k \<noteq> None \<Longrightarrow>
      \<exists>t'. rep t k v = Some t' \<and> wf t' \<and> look t' = (look t)(k \<mapsto> v)"
    and rep_none: "look t k = None \<Longrightarrow> rep t k v = None"
    and look_finite: "wf t \<Longrightarrow> finite (dom (look t))"
begin

lemma ins_success:
  assumes "wf t" "k < 2 ^ 64" "ins t k v m = Some (KERN_SUCCESS, t', m')"
  shows "wf t'" "look t k = None" "look t' = (look t)(k \<mapsto> v)" "set m' \<subseteq> set m"
  using ins_law [OF assms(1,2), of v m] assms(3) by (auto simp: insert_spec_def)

lemma ins_failure:
  assumes "wf t" "k < 2 ^ 64" "ins t k v m = Some (err, t', m')" "err \<noteq> KERN_SUCCESS"
  shows "wf t'" "look t' = look t" "set m' \<subseteq> set m"
    "err = ERR_BUSY \<and> look t k \<noteq> None \<or> err = ERR_NOMEM \<and> look t k = None \<and> False \<in> set m"
  using ins_law [OF assms(1,2), of v m] assms(3,4) by (auto simp: insert_spec_def)

lemma ins_total: "wf t \<Longrightarrow> k < 2 ^ 64 \<Longrightarrow> ins t k v m \<noteq> None"
  using ins_law [of t k v m] by auto

lemma rem_eq:
  assumes "wf t" "rem t k = Some (old, t')"
  shows "old = look t k" "wf t'" "look t' = (look t)(k := None)"
  using rem_law [OF assms(1), of k] assms(2) by auto

lemma rem_total: "wf t \<Longrightarrow> rem t k \<noteq> None"
  using rem_law [of t k] by auto

lemma rep_eq:
  assumes "wf t" "rep t k v = Some t'"
  shows "look t k \<noteq> None" "wf t'" "look t' = (look t)(k \<mapsto> v)"
proof -
  show l: "look t k \<noteq> None" using rep_none [of t k v] assms(2) by auto
  show "wf t'" "look t' = (look t)(k \<mapsto> v)" using rep_law [OF assms(1) l, of v] assms(2) by auto
qed

lemma rep_total: "wf t \<Longrightarrow> look t k \<noteq> None \<Longrightarrow> rep t k v \<noteq> None"
  using rep_law [of t k v] by auto

lemma ins_rem:
  assumes "wf t" "k < 2 ^ 64" "ins t k v m = Some (KERN_SUCCESS, t1, m1)"
  shows "\<exists>t2. rem t1 k = Some (Some v, t2) \<and> wf t2 \<and> look t2 = look t"
  using ins_success [OF assms] rem_law [of t1 k] by (auto simp: fun_upd_idem)

lemma ins_card:
  assumes "wf t" "k < 2 ^ 64" "ins t k v m = Some (KERN_SUCCESS, t', m')"
  shows "card (dom (look t')) = Suc (card (dom (look t)))"
  using ins_success [OF assms] look_finite [OF assms(1)] by (simp add: domIff)

lemma rem_card:
  assumes "wf t" "rem t k = Some (old, t')" "look t k \<noteq> None"
  shows "Suc (card (dom (look t'))) = card (dom (look t))"
proof -
  have "dom (look t') = dom (look t) - {k}" using rem_eq [OF assms(1,2)] by simp
  moreover have "k \<in> dom (look t)" using assms(3) by blast
  ultimately show ?thesis using card.remove [OF look_finite [OF assms(1)], of k] by simp
qed

lemma rep_card:
  assumes "wf t" "rep t k v = Some t'"
  shows "dom (look t') = dom (look t)"
  using rep_eq [OF assms] by auto

end

text \<open>A map that can also choose the key of a new value.\<close>

locale name_alloc = name_map +
  fixes room :: "'t \<Rightarrow> bool" and bound :: "'t \<Rightarrow> nat"
    and al :: "'t \<Rightarrow> 'v \<Rightarrow> mem \<Rightarrow> (kern_return \<times> nat \<times> 't \<times> mem) option"
  assumes al_law: "wf t \<Longrightarrow> room t \<Longrightarrow>
      \<exists>err k t' m'. al t v m = Some (err, k, t', m') \<and> wf t' \<and> set m' \<subseteq> set m \<and>
        (err = KERN_SUCCESS \<and> k \<le> bound t \<and> look t k = None \<and> look t' = (look t)(k \<mapsto> v) \<or>
         err = ERR_NOMEM \<and> look t' = look t \<and> False \<in> set m)"
begin

lemma al_success:
  assumes "wf t" "room t" "al t v m = Some (KERN_SUCCESS, k, t', m')"
  shows "wf t'" "look t k = None" "look t' = (look t)(k \<mapsto> v)" "k \<le> bound t" "set m' \<subseteq> set m"
  using al_law [OF assms(1,2), of v m] assms(3) by auto

lemma al_failure:
  assumes "wf t" "room t" "al t v m = Some (err, k, t', m')" "err \<noteq> KERN_SUCCESS"
  shows "wf t'" "look t' = look t" "err = ERR_NOMEM" "False \<in> set m" "set m' \<subseteq> set m"
  using al_law [OF assms(1,2), of v m] assms(3,4) by auto

lemma al_total: "wf t \<Longrightarrow> room t \<Longrightarrow> al t v m \<noteq> None"
  using al_law [of t v m] by auto

lemma al_card:
  assumes "wf t" "room t" "al t v m = Some (KERN_SUCCESS, k, t', m')"
  shows "card (dom (look t')) = Suc (card (dom (look t)))"
  using al_success [OF assms] look_finite [OF assms(1)] by (simp add: domIff)

end

interpretation rdx: name_map rdxtree_wf rdxtree_lookup rdxtree_insert rdxtree_remove
    rdxtree_replace_slot
proof
  show "rdxtree_replace_slot t k v = None" if "rdxtree_lookup t k = None" for t :: "'a rdxtree" and k v
    using that by (simp add: rdxtree_replace_slot_def)
qed (simp_all add: rdxtree_insert_ok rdxtree_remove_ok rdxtree_replace_slot_ok rdxtree_lookup_finite)

interpretation rdxa: name_alloc rdxtree_wf rdxtree_lookup rdxtree_insert rdxtree_remove
    rdxtree_replace_slot "\<lambda>t. rt_height t \<le> 10" "\<lambda>t. 64 ^ rt_height t" rdxtree_insert_alloc
  by unfold_locales (simp add: rdxtree_insert_alloc_ok)

section \<open>Properties\<close>

text \<open>
  C1: \<^verbatim>\<open>rdxtree_insert\<close> on a well-formed tree runs without a failed assertion and keeps the
  tree well formed.  It stores the pointer if the key is free and memory suffices, and
  otherwise reports the right error and leaves the map as it was, even when the tree had
  to grow and memory ran out half-way.
\<close>

theorem rdxtree_insert_correct:
  assumes "rdxtree_wf t" "key < 2 ^ 64"
  shows "\<exists>err t' m'. rdxtree_insert t key p m = Some (err, t', m') \<and> rdxtree_wf t' \<and>
    (err = KERN_SUCCESS \<and> rdxtree_lookup t key = None \<and> rdxtree_lookup t' = (rdxtree_lookup t)(key \<mapsto> p) \<or>
     err = ERR_BUSY \<and> rdxtree_lookup t key \<noteq> None \<and> rdxtree_lookup t' = rdxtree_lookup t \<or>
     err = ERR_NOMEM \<and> rdxtree_lookup t key = None \<and> rdxtree_lookup t' = rdxtree_lookup t \<and> False \<in> set m)"
  using rdx.ins_law [OF assms, of p m] unfolding insert_spec_def by blast

theorem rdxtree_insert_correct_witness:
  "\<exists>err t' m'. rdxtree_insert rdxtree_init 70 (3::nat) [True, False] = Some (err, t', m') \<and> rdxtree_wf t' \<and>
     rdxtree_lookup t' = Map.empty \<and> err = ERR_NOMEM"
proof -
  have "rdxtree_insert rdxtree_init 70 (3::nat) [True, False] = Some (ERR_NOMEM, rdxtree_init, [])"
    by code_simp
  then show ?thesis
    using rdxtree_insert_correct [of "rdxtree_init :: nat rdxtree" 70 3 "[True, False]"] by auto
qed

text \<open>
  C23: \<^verbatim>\<open>rdxtree_insert_alloc\<close> gives the new pointer a key that was free before, at most one
  past the keys the tree has room for, and fails only for lack of memory, with the map
  as before.  The tree has a height of at most 10, so that its largest key is
  \<open>2 ^ 60 - 1\<close>.
\<close>

theorem rdxtree_insert_alloc_correct:
  assumes "rdxtree_wf t" "rt_height t \<le> 10"
  shows "\<exists>err key t' m'. rdxtree_insert_alloc t p m = Some (err, key, t', m') \<and> rdxtree_wf t' \<and>
    (err = KERN_SUCCESS \<and> key \<le> 64 ^ rt_height t \<and> rdxtree_lookup t key = None \<and>
       rdxtree_lookup t' = (rdxtree_lookup t)(key \<mapsto> p) \<or>
     err = ERR_NOMEM \<and> rdxtree_lookup t' = rdxtree_lookup t \<and> False \<in> set m)"
  using rdxa.al_law [OF assms, of p m] by blast

theorem rdxtree_insert_alloc_correct_witness:
  "\<exists>key t' m'. rdxtree_insert_alloc \<lparr>rt_height = 0, rt_root = Ptr (7::nat)\<rparr> 8 [] = Some (KERN_SUCCESS, key, t', m') \<and>
     rdxtree_wf t' \<and> key \<le> 1 \<and> key \<noteq> 0"
proof -
  let ?t = "\<lparr>rt_height = 0, rt_root = Ptr (7::nat)\<rparr>"
  have "rdxtree_wf ?t" by (simp add: rdxtree_wf_def)
  moreover have "rdxtree_lookup ?t 0 = Some 7" by code_simp
  ultimately show ?thesis
    using rdxtree_insert_alloc_correct [of ?t 8 "[]"]
    by (auto intro: ccontr)
qed

text \<open>
  C22: \<^verbatim>\<open>rdxtree_remove\<close> returns what the key stood for and takes it out of the map, and leaves
  all other keys as they were, although it may free nodes and lower the tree.
\<close>

theorem rdxtree_remove_correct:
  assumes "rdxtree_wf t"
  shows "\<exists>t'. rdxtree_remove t key = Some (rdxtree_lookup t key, t') \<and> rdxtree_wf t' \<and>
    rdxtree_lookup t' = (rdxtree_lookup t)(key := None)"
  using assms by (rule rdx.rem_law)

theorem rdxtree_remove_correct_witness:
  "\<exists>t'. rdxtree_remove \<lparr>rt_height = 0, rt_root = Ptr (7::nat)\<rparr> 0 = Some (Some 7, t') \<and> rdxtree_wf t' \<and>
     rdxtree_lookup t' 0 = None"
proof -
  let ?t = "\<lparr>rt_height = 0, rt_root = Ptr (7::nat)\<rparr>"
  have "rdxtree_wf ?t" by (simp add: rdxtree_wf_def)
  moreover have "rdxtree_lookup ?t 0 = Some 7" by code_simp
  ultimately show ?thesis using rdxtree_remove_correct [of ?t 0] by auto
qed

end
