(* ===== verification/Ipc_Types.thy ===== *)
theory Ipc_Types
  imports Rdxtree_Map
begin

text \<open>
  Data of the IPC system: the constants of \<^verbatim>\<open>include/mach/port.h\<close>, \<^verbatim>\<open>ipc/ipc_entry.h\<close> and
  \<^verbatim>\<open>ipc/ipc_object.h\<close>, the structures \<^verbatim>\<open>ipc_entry\<close>, \<^verbatim>\<open>ipc_space\<close>, \<^verbatim>\<open>ipc_port\<close>,
  \<^verbatim>\<open>ipc_pset\<close>, \<^verbatim>\<open>ipc_kmsg\<close>, \<^verbatim>\<open>ipc_marequest\<close> and the IPC part of a thread, and the kernel
  state that holds them.

  \<^item> Addresses of ports, port sets, spaces, threads and requests are numbers.  The kernel
    state maps each address to the structure there; \<open>None\<close> is memory that is not (or no
    longer) such a structure, and an operation that reads through it stops with \<open>None\<close>.
    A fresh object gets the address \<open>k_next\<close>; addresses are not used twice, so every use
    of a freed object is seen.  The key of a port in a reverse map is its address.
  \<^item> A pointer to an entry is the key of the entry in \<^verbatim>\<open>is_map\<close>.  Names are numbers; the
    cast of a 64-bit key to a 32-bit name is written out where the code has it.
  \<^item> Counters and bit fields are words of the width the code gives them.
  \<^item> Unions are datatypes with one constructor per member.
  \<^item> Locks are not modelled: an operation runs to its end before the next one starts.
\<close>

section \<open>Constants\<close>

type_synonym mach_port_name = nat
type_synonym space_id = nat
type_synonym port_id = nat
type_synonym pset_id = nat
type_synonym thread_id = nat
type_synonym marequest_id = nat
type_synonym bits32 = "32 word"

definition MACH_PORT_NAME_NULL :: mach_port_name where "MACH_PORT_NAME_NULL = 0"
definition MACH_PORT_NAME_DEAD :: mach_port_name where "MACH_PORT_NAME_DEAD = 2 ^ 32 - 1"

definition MACH_PORT_NAME_VALID :: "mach_port_name \<Rightarrow> bool" where
  "MACH_PORT_NAME_VALID name = (name \<noteq> MACH_PORT_NAME_NULL \<and> name \<noteq> MACH_PORT_NAME_DEAD)"

datatype mach_port_right =
    MACH_PORT_RIGHT_SEND
  | MACH_PORT_RIGHT_RECEIVE
  | MACH_PORT_RIGHT_SEND_ONCE
  | MACH_PORT_RIGHT_PORT_SET
  | MACH_PORT_RIGHT_DEAD_NAME

definition MACH_PORT_TYPE :: "nat \<Rightarrow> bits32" where
  "MACH_PORT_TYPE right = push_bit (right + 16) 1"

definition MACH_PORT_TYPE_NONE :: bits32 where "MACH_PORT_TYPE_NONE = 0"
definition MACH_PORT_TYPE_SEND :: bits32 where "MACH_PORT_TYPE_SEND = MACH_PORT_TYPE 0"
definition MACH_PORT_TYPE_RECEIVE :: bits32 where "MACH_PORT_TYPE_RECEIVE = MACH_PORT_TYPE 1"
definition MACH_PORT_TYPE_SEND_ONCE :: bits32 where "MACH_PORT_TYPE_SEND_ONCE = MACH_PORT_TYPE 2"
definition MACH_PORT_TYPE_PORT_SET :: bits32 where "MACH_PORT_TYPE_PORT_SET = MACH_PORT_TYPE 3"
definition MACH_PORT_TYPE_DEAD_NAME :: bits32 where "MACH_PORT_TYPE_DEAD_NAME = MACH_PORT_TYPE 4"

definition MACH_PORT_TYPE_SEND_RECEIVE :: bits32 where
  "MACH_PORT_TYPE_SEND_RECEIVE = MACH_PORT_TYPE_SEND OR MACH_PORT_TYPE_RECEIVE"
definition MACH_PORT_TYPE_SEND_RIGHTS :: bits32 where
  "MACH_PORT_TYPE_SEND_RIGHTS = MACH_PORT_TYPE_SEND OR MACH_PORT_TYPE_SEND_ONCE"
definition MACH_PORT_TYPE_PORT_RIGHTS :: bits32 where
  "MACH_PORT_TYPE_PORT_RIGHTS = MACH_PORT_TYPE_SEND_RIGHTS OR MACH_PORT_TYPE_RECEIVE"
definition MACH_PORT_TYPE_PORT_OR_DEAD :: bits32 where
  "MACH_PORT_TYPE_PORT_OR_DEAD = MACH_PORT_TYPE_PORT_RIGHTS OR MACH_PORT_TYPE_DEAD_NAME"
definition MACH_PORT_TYPE_ALL_RIGHTS :: bits32 where
  "MACH_PORT_TYPE_ALL_RIGHTS = MACH_PORT_TYPE_PORT_OR_DEAD OR MACH_PORT_TYPE_PORT_SET"
definition MACH_PORT_TYPE_DNREQUEST :: bits32 where "MACH_PORT_TYPE_DNREQUEST = 0x80000000"
definition MACH_PORT_TYPE_MAREQUEST :: bits32 where "MACH_PORT_TYPE_MAREQUEST = 0x40000000"

definition MACH_PORT_UREFS_MAX :: bits32 where "MACH_PORT_UREFS_MAX = 0xffff"

text \<open>\<^verbatim>\<open>delta\<close> is a signed and \<^verbatim>\<open>urefs\<close> an unsigned 32-bit number; sums and comparisons with
  \<^verbatim>\<open>urefs\<close> are unsigned.\<close>

definition MACH_PORT_UREFS_OVERFLOW :: "bits32 \<Rightarrow> bits32 \<Rightarrow> bool" where
  "MACH_PORT_UREFS_OVERFLOW urefs delta =
     (sint delta > 0 \<and> (urefs + delta \<le> urefs \<or> urefs + delta > MACH_PORT_UREFS_MAX))"

definition MACH_PORT_UREFS_UNDERFLOW :: "bits32 \<Rightarrow> bits32 \<Rightarrow> bool" where
  "MACH_PORT_UREFS_UNDERFLOW urefs delta = (sint delta < 0 \<and> - delta > urefs)"

definition MACH_PORT_QLIMIT_DEFAULT :: bits32 where "MACH_PORT_QLIMIT_DEFAULT = 5"
definition MACH_PORT_QLIMIT_MAX :: bits32 where "MACH_PORT_QLIMIT_MAX = 16"

definition IE_BITS_UREFS_MASK :: bits32 where "IE_BITS_UREFS_MASK = 0x0000ffff"
definition IE_BITS_TYPE_MASK :: bits32 where "IE_BITS_TYPE_MASK = 0x001f0000"
definition IE_BITS_MAREQUEST :: bits32 where "IE_BITS_MAREQUEST = 0x00200000"
definition IE_BITS_RIGHT_MASK :: bits32 where "IE_BITS_RIGHT_MASK = 0x003fffff"
definition IE_BITS_GEN_MASK :: bits32 where "IE_BITS_GEN_MASK = 0"

definition IE_BITS_UREFS :: "bits32 \<Rightarrow> bits32" where "IE_BITS_UREFS bits = bits AND IE_BITS_UREFS_MASK"
definition IE_BITS_TYPE :: "bits32 \<Rightarrow> bits32" where "IE_BITS_TYPE bits = bits AND IE_BITS_TYPE_MASK"

definition IO_BITS_KOTYPE :: bits32 where "IO_BITS_KOTYPE = 0x0000ffff"
definition IO_BITS_OTYPE :: bits32 where "IO_BITS_OTYPE = 0x3fff0000"
definition IO_BITS_PROTECTED_PAYLOAD :: bits32 where "IO_BITS_PROTECTED_PAYLOAD = 0x40000000"
definition IO_BITS_ACTIVE :: bits32 where "IO_BITS_ACTIVE = 0x80000000"

definition IOT_PORT :: bits32 where "IOT_PORT = 0"
definition IOT_PORT_SET :: bits32 where "IOT_PORT_SET = 1"

definition io_active :: "bits32 \<Rightarrow> bool" where "io_active bits = (sint bits < 0)"
definition io_otype :: "bits32 \<Rightarrow> bits32" where "io_otype bits = drop_bit 16 (bits AND IO_BITS_OTYPE)"
definition io_kotype :: "bits32 \<Rightarrow> bits32" where "io_kotype bits = bits AND IO_BITS_KOTYPE"
definition io_makebits :: "bool \<Rightarrow> bits32 \<Rightarrow> bits32 \<Rightarrow> bits32" where
  "io_makebits active otype kotype =
     ((if active then IO_BITS_ACTIVE else 0) OR push_bit 16 otype OR kotype)"

section \<open>Objects and entries\<close>

datatype ipc_object = IO_NULL | IO_DEAD | IO_PORT port_id | IO_PSET pset_id

definition IO_VALID :: "ipc_object \<Rightarrow> bool" where
  "IO_VALID object = (object \<noteq> IO_NULL \<and> object \<noteq> IO_DEAD)"

text \<open>The casts \<^verbatim>\<open>(ipc_port_t) object\<close> and \<^verbatim>\<open>(ipc_pset_t) object\<close>, with the assertion that follows them.\<close>

definition obj_port :: "ipc_object \<Rightarrow> port_id option" where
  "obj_port object = (case object of IO_PORT p \<Rightarrow> Some p | _ \<Rightarrow> None)"

definition obj_pset :: "ipc_object \<Rightarrow> pset_id option" where
  "obj_pset object = (case object of IO_PSET q \<Rightarrow> Some q | _ \<Rightarrow> None)"

record ipc_entry =
  ie_name :: mach_port_name
  ie_bits :: bits32
  ie_object :: ipc_object
  ie_request :: nat

definition IS_FREE_LIST_SIZE_LIMIT :: "64 word" where "IS_FREE_LIST_SIZE_LIMIT = 64"

text \<open>The free list links entries through \<^verbatim>\<open>ie_next_free\<close>; here it is the list of their keys.\<close>

record ipc_space =
  is_references :: bits32
  is_active :: bool
  is_map :: "ipc_entry rdxtree"
  is_size :: "64 word"
  is_reverse_map :: "nat rdxtree"
  is_free_list :: "nat list"
  is_free_list_size :: "64 word"

section \<open>Messages, threads and queues\<close>

text \<open>Types of rights in messages (\<^verbatim>\<open>mach_msg_type_name_t\<close>).\<close>

definition MACH_MSG_TYPE_MOVE_RECEIVE :: nat where "MACH_MSG_TYPE_MOVE_RECEIVE = 16"
definition MACH_MSG_TYPE_MOVE_SEND :: nat where "MACH_MSG_TYPE_MOVE_SEND = 17"
definition MACH_MSG_TYPE_MOVE_SEND_ONCE :: nat where "MACH_MSG_TYPE_MOVE_SEND_ONCE = 18"
definition MACH_MSG_TYPE_COPY_SEND :: nat where "MACH_MSG_TYPE_COPY_SEND = 19"
definition MACH_MSG_TYPE_MAKE_SEND :: nat where "MACH_MSG_TYPE_MAKE_SEND = 20"
definition MACH_MSG_TYPE_MAKE_SEND_ONCE :: nat where "MACH_MSG_TYPE_MAKE_SEND_ONCE = 21"

definition MACH_MSG_TYPE_PORT_RECEIVE :: nat where "MACH_MSG_TYPE_PORT_RECEIVE = MACH_MSG_TYPE_MOVE_RECEIVE"
definition MACH_MSG_TYPE_PORT_SEND :: nat where "MACH_MSG_TYPE_PORT_SEND = MACH_MSG_TYPE_MOVE_SEND"
definition MACH_MSG_TYPE_PORT_SEND_ONCE :: nat where
  "MACH_MSG_TYPE_PORT_SEND_ONCE = MACH_MSG_TYPE_MOVE_SEND_ONCE"

text \<open>
  The header word \<^verbatim>\<open>msgh_bits\<close> as its fields, and the body as its items: an item holds port
  rights (\<^verbatim>\<open>MACH_MSG_TYPE_PORT_ANY\<close>) or plain data.
\<close>

datatype msg_item =
    Item_Ports nat "ipc_object list"
  | Item_Data "nat list"

record kmsg =
  msgh_remote_type :: nat
  msgh_local_type :: nat
  msgh_complex :: bool
  msgh_circular :: bool
  msgh_size :: nat
  msgh_remote_port :: ipc_object
  msgh_local_port :: ipc_object
  msgh_id :: nat
  msgh_body :: "msg_item list"
  ikm_marequest :: "marequest_id option"

datatype mach_msg_return =
    MACH_MSG_SUCCESS
  | MACH_SEND_IN_PROGRESS
  | MACH_SEND_TIMED_OUT
  | MACH_SEND_INTERRUPTED
  | MACH_SEND_NOTIFY_IN_PROGRESS
  | MACH_SEND_INVALID_NOTIFY
  | MACH_SEND_NO_NOTIFY
  | MACH_RCV_IN_PROGRESS
  | MACH_RCV_INVALID_NAME
  | MACH_RCV_TIMED_OUT
  | MACH_RCV_TOO_LARGE
  | MACH_RCV_INTERRUPTED
  | MACH_RCV_PORT_CHANGED
  | MACH_RCV_PORT_DIED
  | MACH_RCV_IN_SET

record ipc_thread =
  ith_state :: mach_msg_return
  ith_msize :: nat
  ith_kmsg :: "kmsg option"
  ith_seqno :: bits32
  th_waiting :: bool

record ipc_mqueue =
  imq_messages :: "kmsg list"
  imq_threads :: "thread_id list"

section \<open>Ports and port sets\<close>

datatype ip_data =
    D_receiver "space_id option"
  | D_destination "port_id option"
  | D_timestamp bits32

datatype ipr_notify = N_port port_id | N_index nat

text \<open>
  A table of dead-name requests is a list of slots.  Slot 0 is the header: its
  \<^verbatim>\<open>ipr_next\<close> heads the free list and its \<^verbatim>\<open>ipr_size\<close> points into the array
  \<^verbatim>\<open>ipc_table_dnrequests\<close> (the pointer is the index there).
\<close>

record ipc_port_request =
  ipr_notify :: ipr_notify
  ipr_name :: nat

datatype ipc_target = T_port | T_pset pset_id

record ipc_port =
  ip_references :: bits32
  ip_bits :: bits32
  ip_receiver_name :: mach_port_name
  ip_messages :: ipc_mqueue
  ip_cur_target :: ipc_target
  ip_data :: ip_data
  ip_mscount :: bits32
  ip_srights :: bits32
  ip_sorights :: bits32
  ip_nsrequest :: "port_id option"
  ip_pdrequest :: "port_id option"
  ip_dnrequests :: "ipc_port_request list option"
  ip_pset :: "pset_id option"
  ip_seqno :: bits32
  ip_msgcount :: bits32
  ip_qlimit :: bits32
  ip_blocked :: "thread_id list"
  ip_protected_payload :: "64 word"

record ipc_pset =
  ips_references :: bits32
  ips_bits :: bits32
  ips_local_name :: mach_port_name
  ips_messages :: ipc_mqueue

record ipc_marequest =
  imar_space :: space_id
  imar_name :: mach_port_name
  imar_soright :: port_id

abbreviation ip_active :: "ipc_port \<Rightarrow> bool" where "ip_active port \<equiv> io_active (ip_bits port)"
abbreviation ips_active :: "ipc_pset \<Rightarrow> bool" where "ips_active pset \<equiv> io_active (ips_bits pset)"

section \<open>Kernel state\<close>

text \<open>
  \<open>k_messages\<close> is the queue \<^verbatim>\<open>ith_messages\<close> of the current thread, the messages that
  \<^verbatim>\<open>ipc_kmsg_destroy\<close> still has to clean.
\<close>

record kernel =
  k_spaces :: "space_id \<rightharpoonup> ipc_space"
  k_ports :: "port_id \<rightharpoonup> ipc_port"
  k_psets :: "pset_id \<rightharpoonup> ipc_pset"
  k_threads :: "thread_id \<rightharpoonup> ipc_thread"
  k_marequests :: "marequest_id \<rightharpoonup> ipc_marequest"
  k_marequest_table :: "nat \<Rightarrow> marequest_id list"
  k_timestamp :: bits32
  k_messages :: "kmsg list"
  k_mem :: mem
  k_next :: nat

definition ipc_space_kernel :: space_id where "ipc_space_kernel = 0"
definition ipc_space_reply :: space_id where "ipc_space_reply = 1"

definition k_alloc :: "kernel \<Rightarrow> bool \<times> kernel" where
  "k_alloc st = (let (ok, m) = kmem_cache_alloc (k_mem st) in (ok, st\<lparr>k_mem := m\<rparr>))"

definition set_port :: "port_id \<Rightarrow> ipc_port \<Rightarrow> kernel \<Rightarrow> kernel" where
  "set_port p port st = st\<lparr>k_ports := (k_ports st)(p \<mapsto> port)\<rparr>"

definition set_pset :: "pset_id \<Rightarrow> ipc_pset \<Rightarrow> kernel \<Rightarrow> kernel" where
  "set_pset q pset st = st\<lparr>k_psets := (k_psets st)(q \<mapsto> pset)\<rparr>"

definition set_thread :: "thread_id \<Rightarrow> ipc_thread \<Rightarrow> kernel \<Rightarrow> kernel" where
  "set_thread t th st = st\<lparr>k_threads := (k_threads st)(t \<mapsto> th)\<rparr>"

definition set_space :: "space_id \<Rightarrow> ipc_space \<Rightarrow> kernel \<Rightarrow> kernel" where
  "set_space s sp st = st\<lparr>k_spaces := (k_spaces st)(s \<mapsto> sp)\<rparr>"

text \<open>The state before any object has been created, with memory to spare.\<close>

definition kernel_empty :: kernel where
  "kernel_empty = \<lparr>k_spaces = Map.empty, k_ports = Map.empty, k_psets = Map.empty, k_threads = Map.empty,
     k_marequests = Map.empty, k_marequest_table = (\<lambda>_. []), k_timestamp = 0, k_messages = [],
     k_mem = [], k_next = 2\<rparr>"

lemma kernel_empty_simps [simp]:
  "k_spaces kernel_empty = Map.empty" "k_ports kernel_empty = Map.empty" "k_psets kernel_empty = Map.empty"
  "k_threads kernel_empty = Map.empty" "k_marequests kernel_empty = Map.empty"
  "k_marequest_table kernel_empty h = []" "k_timestamp kernel_empty = 0" "k_messages kernel_empty = []"
  "k_mem kernel_empty = []" "k_next kernel_empty = 2"
  by (simp_all add: kernel_empty_def)

end
