(* ===== verification/Ipc_Object.thy ===== *)
theory Ipc_Object
  imports Ipc_Types
begin

text \<open>
  Reference counts of ports and port sets: the macros of \<^verbatim>\<open>ipc/ipc_object.h\<close> and
  \<^verbatim>\<open>ipc_object_reference\<close>, \<^verbatim>\<open>ipc_object_release\<close> of \<^verbatim>\<open>ipc/ipc_object.c\<close>.  An object whose
  count is zero when it is unlocked is freed, that is removed from the kernel state.
\<close>

definition ip_reference :: "port_id \<Rightarrow> kernel \<Rightarrow> kernel option" where
  "ip_reference p st =
     do { port \<leftarrow> k_ports st p;
          Some (set_port p (port\<lparr>ip_references := ip_references port + 1\<rparr>) st) }"

definition ip_release :: "port_id \<Rightarrow> kernel \<Rightarrow> kernel option" where
  "ip_release p st =
     do { port \<leftarrow> k_ports st p;
          Some (set_port p (port\<lparr>ip_references := ip_references port - 1\<rparr>) st) }"

definition ip_check_unlock :: "port_id \<Rightarrow> kernel \<Rightarrow> kernel option" where
  "ip_check_unlock p st =
     do { port \<leftarrow> k_ports st p;
          Some (if ip_references port = 0 then st\<lparr>k_ports := (k_ports st)(p := None)\<rparr> else st) }"

definition ips_reference :: "pset_id \<Rightarrow> kernel \<Rightarrow> kernel option" where
  "ips_reference q st =
     do { pset \<leftarrow> k_psets st q;
          Some (set_pset q (pset\<lparr>ips_references := ips_references pset + 1\<rparr>) st) }"

definition ips_release :: "pset_id \<Rightarrow> kernel \<Rightarrow> kernel option" where
  "ips_release q st =
     do { pset \<leftarrow> k_psets st q;
          Some (set_pset q (pset\<lparr>ips_references := ips_references pset - 1\<rparr>) st) }"

definition ips_check_unlock :: "pset_id \<Rightarrow> kernel \<Rightarrow> kernel option" where
  "ips_check_unlock q st =
     do { pset \<leftarrow> k_psets st q;
          Some (if ips_references pset = 0 then st\<lparr>k_psets := (k_psets st)(q := None)\<rparr> else st) }"

definition ipc_port_reference :: "port_id \<Rightarrow> kernel \<Rightarrow> kernel option" where
  "ipc_port_reference p st =
     do { port \<leftarrow> k_ports st p;
          kassert (ip_references port > 0);
          ip_reference p st }"

definition ipc_port_release :: "port_id \<Rightarrow> kernel \<Rightarrow> kernel option" where
  "ipc_port_release p st =
     do { port \<leftarrow> k_ports st p;
          kassert (ip_references port > 0);
          st \<leftarrow> ip_release p st;
          ip_check_unlock p st }"

definition ipc_object_reference :: "ipc_object \<Rightarrow> kernel \<Rightarrow> kernel option" where
  "ipc_object_reference object st =
     (case object of
        IO_PORT p \<Rightarrow> ipc_port_reference p st
      | IO_PSET q \<Rightarrow>
          do { pset \<leftarrow> k_psets st q;
               kassert (ips_references pset > 0);
               ips_reference q st }
      | _ \<Rightarrow> None)"

definition ipc_object_release :: "ipc_object \<Rightarrow> kernel \<Rightarrow> kernel option" where
  "ipc_object_release object st =
     (case object of
        IO_PORT p \<Rightarrow> ipc_port_release p st
      | IO_PSET q \<Rightarrow>
          do { pset \<leftarrow> k_psets st q;
               kassert (ips_references pset > 0);
               st \<leftarrow> ips_release q st;
               ips_check_unlock q st }
      | _ \<Rightarrow> None)"

end
