(* ===== verification/Ipc_Mqueue.thy ===== *)
theory Ipc_Mqueue
  imports Ipc_Object
begin

text \<open>
  Thread and message queues: \<^verbatim>\<open>ipc/ipc_thread.c\<close>, the queue operations of \<^verbatim>\<open>ipc/ipc_kmsg.c\<close>, and
  \<^verbatim>\<open>ipc_mqueue_move\<close>, \<^verbatim>\<open>ipc_mqueue_changed\<close> of \<^verbatim>\<open>ipc/ipc_mqueue.c\<close>.  A circular list with a
  base pointer is the list that starts at its base.
\<close>

section \<open>Queues of threads and messages\<close>

definition ipc_thread_enqueue :: "thread_id list \<Rightarrow> thread_id \<Rightarrow> thread_id list" where
  "ipc_thread_enqueue queue thread = thread # queue"

definition ipc_thread_dequeue :: "thread_id list \<Rightarrow> (thread_id \<times> thread_id list) option" where
  "ipc_thread_dequeue queue = (case queue of [] \<Rightarrow> None | first # rest \<Rightarrow> Some (first, rest))"

definition ipc_thread_rmqueue :: "thread_id list \<Rightarrow> thread_id \<Rightarrow> thread_id list option" where
  "ipc_thread_rmqueue queue thread =
     do { kassert (thread \<in> set queue); Some (remove1 thread queue) }"

definition ipc_kmsg_enqueue :: "kmsg list \<Rightarrow> kmsg \<Rightarrow> kmsg list" where
  "ipc_kmsg_enqueue queue kmsg = queue @ [kmsg]"

definition ipc_kmsg_dequeue :: "kmsg list \<Rightarrow> (kmsg \<times> kmsg list) option" where
  "ipc_kmsg_dequeue queue = (case queue of [] \<Rightarrow> None | first # rest \<Rightarrow> Some (first, rest))"

text \<open>Why a thread that waited runs again, when no one took it off its queue.\<close>

datatype wait_result = THREAD_INTERRUPTED | THREAD_TIMED_OUT | THREAD_RESTART

definition thread_go :: "thread_id \<Rightarrow> kernel \<Rightarrow> kernel option" where
  "thread_go t st =
     do { th \<leftarrow> k_threads st t; Some (set_thread t (th\<lparr>th_waiting := False\<rparr>) st) }"

section \<open>Message queues\<close>

definition ipc_mqueue_init :: ipc_mqueue where
  "ipc_mqueue_init = \<lparr>imq_messages = [], imq_threads = []\<rparr>"

text \<open>Ports and port sets as \<^verbatim>\<open>memset\<close> leaves them.\<close>

definition zero_port :: ipc_port where
  "zero_port = \<lparr>ip_references = 0, ip_bits = 0, ip_receiver_name = 0, ip_messages = ipc_mqueue_init,
     ip_cur_target = T_port, ip_data = D_receiver None, ip_mscount = 0, ip_srights = 0, ip_sorights = 0,
     ip_nsrequest = None, ip_pdrequest = None, ip_dnrequests = None, ip_pset = None, ip_seqno = 0,
     ip_msgcount = 0, ip_qlimit = 0, ip_blocked = [], ip_protected_payload = 0\<rparr>"

definition zero_pset :: ipc_pset where
  "zero_pset = \<lparr>ips_references = 0, ips_bits = 0, ips_local_name = 0, ips_messages = ipc_mqueue_init\<rparr>"

text \<open>A port and a port set with one reference, as \<^verbatim>\<open>ipc_object_alloc\<close> leaves them.\<close>

definition new_port :: ipc_port where
  "new_port = zero_port\<lparr>ip_references := 1, ip_bits := io_makebits True IOT_PORT 0\<rparr>"

definition new_pset :: ipc_pset where
  "new_pset = zero_pset\<lparr>ips_references := 1, ips_bits := io_makebits True IOT_PORT_SET 0\<rparr>"

text \<open>The place of a message queue: in a port or in a port set.\<close>

datatype mq = MQ_port port_id | MQ_pset pset_id

fun get_mq :: "kernel \<Rightarrow> mq \<Rightarrow> ipc_mqueue option" where
  "get_mq st (MQ_port p) = map_option ip_messages (k_ports st p)"
| "get_mq st (MQ_pset q) = map_option ips_messages (k_psets st q)"

fun set_mq :: "mq \<Rightarrow> ipc_mqueue \<Rightarrow> kernel \<Rightarrow> kernel option" where
  "set_mq (MQ_port p) mqueue st =
     do { port \<leftarrow> k_ports st p; Some (set_port p (port\<lparr>ip_messages := mqueue\<rparr>) st) }"
| "set_mq (MQ_pset q) mqueue st =
     do { pset \<leftarrow> k_psets st q; Some (set_pset q (pset\<lparr>ips_messages := mqueue\<rparr>) st) }"

text \<open>
  The loop that offers a message to the waiting receivers of a queue: a receiver whose
  buffer is too small is woken with an error, the first one whose buffer is large enough
  gets the message and its sequence number.  The result says whether one was found.
\<close>

fun mq_offer ::
  "kmsg \<Rightarrow> port_id \<Rightarrow> kmsg list \<Rightarrow> thread_id list \<Rightarrow> kernel \<Rightarrow> (bool \<times> thread_id list \<times> kernel) option"
where
  "mq_offer kmsg p queued [] st = Some (False, [], st)"
| "mq_offer kmsg p queued (t # ts) st =
     do { kassert (queued = []);
          th \<leftarrow> k_threads st t;
          if msgh_size kmsg \<le> ith_msize th then
            do { port \<leftarrow> k_ports st p;
                 let st = set_thread t (th\<lparr>ith_state := MACH_MSG_SUCCESS, ith_kmsg := Some kmsg,
                            ith_seqno := ip_seqno port, th_waiting := False\<rparr>) st;
                 Some (True, ts, set_port p (port\<lparr>ip_seqno := ip_seqno port + 1\<rparr>) st) }
          else
            mq_offer kmsg p queued ts
              (set_thread t (th\<lparr>ith_state := MACH_RCV_TOO_LARGE, ith_msize := msgh_size kmsg,
                 th_waiting := False\<rparr>) st) }"

text \<open>The loop of \<^verbatim>\<open>ipc_mqueue_move\<close> over the messages of the source, with the messages kept
  there and the state of the destination queue.\<close>

fun mq_move_loop ::
  "port_id \<Rightarrow> kmsg list \<Rightarrow> kmsg list \<Rightarrow> thread_id list \<Rightarrow> kernel \<Rightarrow>
   (kmsg list \<times> kmsg list \<times> thread_id list \<times> kernel) option"
where
  "mq_move_loop p [] newq blockedq st = Some ([], newq, blockedq, st)"
| "mq_move_loop p (kmsg # oldq) newq blockedq st =
     (if msgh_remote_port kmsg \<noteq> IO_PORT p then
        do { (kept, newq, blockedq, st) \<leftarrow> mq_move_loop p oldq newq blockedq st;
             Some (kmsg # kept, newq, blockedq, st) }
      else
        do { (found, blockedq, st) \<leftarrow> mq_offer kmsg p newq blockedq st;
             mq_move_loop p oldq (if found then newq else ipc_kmsg_enqueue newq kmsg) blockedq st })"

definition ipc_mqueue_move :: "mq \<Rightarrow> mq \<Rightarrow> port_id \<Rightarrow> kernel \<Rightarrow> kernel option" where
  "ipc_mqueue_move dest source p st =
     do { sq \<leftarrow> get_mq st source;
          dq \<leftarrow> get_mq st dest;
          (kept, newq, blockedq, st) \<leftarrow>
            mq_move_loop p (imq_messages sq) (imq_messages dq) (imq_threads dq) st;
          st \<leftarrow> set_mq source (sq\<lparr>imq_messages := kept\<rparr>) st;
          set_mq dest \<lparr>imq_messages = newq, imq_threads = blockedq\<rparr> st }"

text \<open>Wake the threads of a list, telling each one why.\<close>

fun wake_all :: "mach_msg_return \<Rightarrow> thread_id list \<Rightarrow> kernel \<Rightarrow> kernel option" where
  "wake_all mr [] st = Some st"
| "wake_all mr (t # ts) st =
     do { th \<leftarrow> k_threads st t;
          wake_all mr ts (set_thread t (th\<lparr>ith_state := mr, th_waiting := False\<rparr>) st) }"

definition ipc_mqueue_changed :: "mq \<Rightarrow> mach_msg_return \<Rightarrow> kernel \<Rightarrow> kernel option" where
  "ipc_mqueue_changed m mr st =
     do { mqueue \<leftarrow> get_mq st m;
          st \<leftarrow> wake_all mr (imq_threads mqueue) st;
          set_mq m (mqueue\<lparr>imq_threads := []\<rparr>) st }"

section \<open>Fresh objects\<close>

lemma io_active_makebits [simp]:
  "io_active (io_makebits True IOT_PORT 0)" "io_active (io_makebits True IOT_PORT_SET 0)"
  by (simp_all add: io_active_def io_makebits_def IO_BITS_ACTIVE_def IOT_PORT_def IOT_PORT_SET_def)

lemma new_port_simps [simp]:
  "ip_references new_port = 1" "ip_active new_port" "ip_receiver_name new_port = 0"
  "ip_messages new_port = ipc_mqueue_init" "ip_data new_port = D_receiver None" "ip_srights new_port = 0"
  "ip_sorights new_port = 0" "ip_mscount new_port = 0" "ip_seqno new_port = 0" "ip_nsrequest new_port = None"
  "ip_pdrequest new_port = None" "ip_dnrequests new_port = None" "ip_pset new_port = None"
  "ip_msgcount new_port = 0" "ip_qlimit new_port = 0" "ip_blocked new_port = []"
  by (simp_all add: new_port_def zero_port_def)

lemma new_pset_simps [simp]:
  "ips_references new_pset = 1" "ips_active new_pset" "ips_messages new_pset = ipc_mqueue_init"
  by (simp_all add: new_pset_def zero_pset_def)

lemma ipc_mqueue_init_simps [simp]:
  "imq_messages ipc_mqueue_init = []" "imq_threads ipc_mqueue_init = []"
  by (simp_all add: ipc_mqueue_init_def)

section \<open>Kernel objects and queues\<close>

lemma set_simps [simp]:
  "k_ports (set_port p port st) = (k_ports st)(p \<mapsto> port)" "k_threads (set_port p port st) = k_threads st"
  "k_psets (set_port p port st) = k_psets st" "k_spaces (set_port p port st) = k_spaces st"
  "k_mem (set_port p port st) = k_mem st" "k_messages (set_port p port st) = k_messages st"
  "k_psets (set_pset q pset st) = (k_psets st)(q \<mapsto> pset)" "k_threads (set_pset q pset st) = k_threads st"
  "k_ports (set_pset q pset st) = k_ports st" "k_spaces (set_pset q pset st) = k_spaces st"
  "k_mem (set_pset q pset st) = k_mem st" "k_messages (set_pset q pset st) = k_messages st"
  "k_threads (set_thread t th st) = (k_threads st)(t \<mapsto> th)" "k_ports (set_thread t th st) = k_ports st"
  "k_psets (set_thread t th st) = k_psets st" "k_spaces (set_thread t th st) = k_spaces st"
  "k_mem (set_thread t th st) = k_mem st" "k_messages (set_thread t th st) = k_messages st"
  "k_spaces (set_space s sp st) = (k_spaces st)(s \<mapsto> sp)" "k_threads (set_space s sp st) = k_threads st"
  "k_ports (set_space s sp st) = k_ports st" "k_psets (set_space s sp st) = k_psets st"
  "k_mem (set_space s sp st) = k_mem st" "k_messages (set_space s sp st) = k_messages st"
  by (simp_all add: set_port_def set_pset_def set_thread_def set_space_def)

lemma set_simps2 [simp]:
  "k_timestamp (set_port p port st) = k_timestamp st" "k_next (set_port p port st) = k_next st"
  "k_marequests (set_port p port st) = k_marequests st" "k_marequest_table (set_port p port st) = k_marequest_table st"
  "k_timestamp (set_pset q pset st) = k_timestamp st" "k_next (set_pset q pset st) = k_next st"
  "k_marequests (set_pset q pset st) = k_marequests st" "k_marequest_table (set_pset q pset st) = k_marequest_table st"
  "k_timestamp (set_thread t th st) = k_timestamp st" "k_next (set_thread t th st) = k_next st"
  "k_marequests (set_thread t th st) = k_marequests st" "k_marequest_table (set_thread t th st) = k_marequest_table st"
  "k_timestamp (set_space s sp st) = k_timestamp st" "k_next (set_space s sp st) = k_next st"
  "k_marequests (set_space s sp st) = k_marequests st" "k_marequest_table (set_space s sp st) = k_marequest_table st"
  by (simp_all add: set_port_def set_pset_def set_thread_def set_space_def)

lemma set_port_port [simp]: "set_port p port (set_port p port' st) = set_port p port st"
  by (simp add: set_port_def)

lemma set_pset_pset [simp]: "set_pset q pset (set_pset q pset' st) = set_pset q pset st"
  by (simp add: set_pset_def)

lemma set_port_pset [simp]: "set_port p port (set_pset q pset st) = set_pset q pset (set_port p port st)"
  by (simp add: set_port_def set_pset_def)

lemma set_port_id: "k_ports st p = Some port \<Longrightarrow> set_port p port st = st"
  by (simp add: set_port_def fun_upd_idem)

lemma set_pset_id: "k_psets st q = Some pset \<Longrightarrow> set_pset q pset st = st"
  by (simp add: set_pset_def fun_upd_idem)

lemma set_threads_port [simp]:
  "(set_port p port st)\<lparr>k_threads := T\<rparr> = set_port p port (st\<lparr>k_threads := T\<rparr>)"
  "(set_pset q pset st)\<lparr>k_threads := T\<rparr> = set_pset q pset (st\<lparr>k_threads := T\<rparr>)"
  by (simp_all add: set_port_def set_pset_def)

lemma mqueue_eta [simp]: "\<lparr>imq_messages = imq_messages mqueue, imq_threads = imq_threads mqueue\<rparr> = (mqueue :: ipc_mqueue)"
  by simp

lemma mqueue_emptied [simp]: "mqueue\<lparr>imq_messages := [], imq_threads := []\<rparr> = (ipc_mqueue_init :: ipc_mqueue)"
  by (simp add: ipc_mqueue_init_def)

section \<open>Delivery of messages to waiting threads\<close>

text \<open>
  \<open>served st ts ms n\<close>: the threads \<open>ts\<close> were woken with the messages \<open>ms\<close>, one each and in order,
  under the sequence numbers \<open>n\<close>, \<open>n + 1\<close>, and so on.
\<close>

fun served :: "(thread_id \<rightharpoonup> ipc_thread) \<Rightarrow> thread_id list \<Rightarrow> kmsg list \<Rightarrow> bits32 \<Rightarrow> bool" where
  "served T [] ms n = (ms = [])"
| "served T (t # ts) ms n =
     (case ms of
        [] \<Rightarrow> False
      | m # ms \<Rightarrow>
          (\<exists>th. T t = Some th \<and> ith_state th = MACH_MSG_SUCCESS \<and> ith_kmsg th = Some m \<and>
                ith_seqno th = n \<and> \<not> th_waiting th \<and> msgh_size m \<le> ith_msize th) \<and>
          served T ts ms (n + 1))"

lemma served_length: "served T ts ms n \<Longrightarrow> length ts = length ms"
  by (induction T ts ms n rule: served.induct) (auto split: list.splits)

lemma served_cong: "served T ts ms n \<Longrightarrow> (\<And>t. t \<in> set ts \<Longrightarrow> T' t = T t) \<Longrightarrow> served T' ts ms n"
  by (induction T ts ms n rule: served.induct) (auto split: list.splits)

text \<open>The threads were woken and told that a message did not fit their buffer.\<close>

definition told_too_large :: "(thread_id \<rightharpoonup> ipc_thread) \<Rightarrow> thread_id set \<Rightarrow> bool" where
  "told_too_large T ts =
     (\<forall>t \<in> ts. \<exists>th. T t = Some th \<and> ith_state th = MACH_RCV_TOO_LARGE \<and> \<not> th_waiting th)"

text \<open>Receivers that can be given a message: no thread twice, and each one exists.\<close>

definition waiters_ok :: "(thread_id \<rightharpoonup> ipc_thread) \<Rightarrow> thread_id list \<Rightarrow> bool" where
  "waiters_ok T ts = (distinct ts \<and> set ts \<subseteq> dom T)"

lemma mq_offer_ok:
  assumes "waiters_ok (k_threads st) ts" "queued = [] \<or> ts = []" "k_ports st p = Some port"
  obtains (found) skipped t rest T where
    "mq_offer kmsg p queued ts st = Some (True, rest,
       set_port p (port\<lparr>ip_seqno := ip_seqno port + 1\<rparr>) (st\<lparr>k_threads := T\<rparr>))"
    "ts = skipped @ t # rest" "told_too_large T (set skipped)" "served T [t] [kmsg] (ip_seqno port)"
    "\<And>u. u \<notin> set (skipped @ [t]) \<Longrightarrow> T u = k_threads st u"
  | (none) T where "mq_offer kmsg p queued ts st = Some (False, [], st\<lparr>k_threads := T\<rparr>)"
    "told_too_large T (set ts)" "\<And>u. u \<notin> set ts \<Longrightarrow> T u = k_threads st u"
  using assms
proof (induction ts arbitrary: st thesis)
  case Nil
  show ?case using Nil.prems(2) [of "k_threads st"] by (simp add: told_too_large_def)
next
  case (Cons t ts)
  obtain th where th: "k_threads st t = Some th" using Cons.prems(3) by (auto simp: waiters_ok_def)
  have q: "queued = []" using Cons.prems(4) by simp
  show ?case
  proof (cases "msgh_size kmsg \<le> ith_msize th")
    case True
    define T where "T = (k_threads st)(t \<mapsto> th\<lparr>ith_state := MACH_MSG_SUCCESS, ith_kmsg := Some kmsg,
                            ith_seqno := ip_seqno port, th_waiting := False\<rparr>)"
    have run: "mq_offer kmsg p queued (t # ts) st = Some (True, ts,
        set_port p (port\<lparr>ip_seqno := ip_seqno port + 1\<rparr>) (st\<lparr>k_threads := T\<rparr>))"
      using True th q Cons.prems(5) by (simp add: T_def set_thread_def)
    show ?thesis
      by (rule Cons.prems(1) [OF run, of "[]" t]) (use True in \<open>auto simp: T_def told_too_large_def\<close>)
  next
    case False
    define th' where "th' = th\<lparr>ith_state := MACH_RCV_TOO_LARGE, ith_msize := msgh_size kmsg, th_waiting := False\<rparr>"
    define st1 where "st1 = set_thread t th' st"
    have run: "mq_offer kmsg p queued (t # ts) st = mq_offer kmsg p queued ts st1"
      using False th q by (simp add: st1_def th'_def)
    have w: "waiters_ok (k_threads st1) ts" "k_ports st1 p = Some port" "t \<notin> set ts"
      using Cons.prems(3,5) by (auto simp: waiters_ok_def st1_def set_thread_def)
    have same: "st1\<lparr>k_threads := T\<rparr> = st\<lparr>k_threads := T\<rparr>" "k_ports st1 = k_ports st" for T
      by (simp_all add: st1_def set_thread_def)
    have st1: "k_threads st1 u = (if u = t then Some th' else k_threads st u)" for u
      by (simp add: st1_def set_thread_def)
    show ?thesis
    proof (rule Cons.IH [OF _ _ w(1) _ w(2)], goal_cases)
      case (1 rest T skipped t')
      have "T t = Some th'" using 1(2,5) w(3) st1 [of t] by auto
      then have "told_too_large T (set (t # skipped))" using 1(3) by (simp add: told_too_large_def th'_def)
      moreover have "T u = k_threads st u" if "u \<notin> set ((t # skipped) @ [t'])" for u
        using that 1(5) [of u] st1 [of u] by simp
      ultimately show ?case
        by (intro Cons.prems(1) [of rest T "t # skipped" t']) (use 1 run same in auto)
    next
      case (2 T)
      have "T t = Some th'" using 2(3) w(3) st1 [of t] by auto
      then show ?case
        by (intro Cons.prems(2) [of T]) (use 2 run same st1 in \<open>auto simp: told_too_large_def th'_def\<close>)
    next
      case 3
      then show ?case using q by simp
    qed
  qed
qed


text \<open>
  The loop of \<^verbatim>\<open>ipc_mqueue_move\<close>: of the messages for the port, the first ones go to the
  threads \<open>us\<close>, which were waiting at the destination, and the others to the end of its
  queue; the order is kept, and only if no thread waits any more a message is queued.
\<close>

lemma mq_move_loop_ok:
  assumes "waiters_ok (k_threads st) blocked" "newq = [] \<or> blocked = []" "k_ports st p = Some port"
  obtains us newq' blocked' T where
    "mq_move_loop p oldq newq blocked st = Some (filter (\<lambda>m. msgh_remote_port m \<noteq> IO_PORT p) oldq, newq', blocked',
       set_port p (port\<lparr>ip_seqno := ip_seqno port + of_nat (length us)\<rparr>) (st\<lparr>k_threads := T\<rparr>))"
    "newq' = newq @ drop (length us) (filter (\<lambda>m. msgh_remote_port m = IO_PORT p) oldq)"
    "served T us (take (length us) (filter (\<lambda>m. msgh_remote_port m = IO_PORT p) oldq)) (ip_seqno port)"
    "newq' = [] \<or> blocked' = []" "waiters_ok T blocked'" "distinct us" "set us \<inter> set blocked' = {}"
    "set us \<union> set blocked' \<subseteq> set blocked" "told_too_large T (set blocked - set us - set blocked')"
    "\<And>t. t \<in> set blocked' \<or> t \<notin> set blocked \<Longrightarrow> T t = k_threads st t"
  using assms
proof (induction oldq arbitrary: newq blocked st port thesis)
  case Nil
  show ?case
    by (rule Nil.prems(1) [where us = "[]" and T = "k_threads st"])
      (use Nil.prems(2-) in \<open>auto simp: told_too_large_def set_port_id\<close>)
next
  case (Cons m oldq)
  show ?case
  proof (cases "msgh_remote_port m = IO_PORT p")
    case False
    show ?thesis
    proof (rule Cons.IH [OF _ Cons.prems(2-)], goal_cases)
      case (1 newq' blocked' us T)
      then show ?case by (intro Cons.prems(1) [of newq' blocked' us T]) (use False in simp_all)
    qed
  next
    case True
    have e: "newq = [] \<or> blocked = []" by (rule Cons.prems(3))
    show ?thesis
    proof (cases rule: mq_offer_ok [OF Cons.prems(2) e Cons.prems(4), of m])
      case (1 skipped t rest T1)
      note found = 1
      define port1 where "port1 = port\<lparr>ip_seqno := ip_seqno port + 1\<rparr>"
      define st1 where "st1 = set_port p port1 (st\<lparr>k_threads := T1\<rparr>)"
      have d: "distinct (skipped @ t # rest)" using Cons.prems(2) found(2) by (simp add: waiters_ok_def)
      have T1: "T1 u = k_threads st u" if "u \<in> set rest \<or> u \<notin> set blocked" for u
      proof -
        have "u \<notin> set (skipped @ [t])" using that found(2) d by auto
        then show ?thesis by (rule found(5))
      qed
      then have w: "waiters_ok (k_threads st1) rest"
        using Cons.prems(2) found(2) d unfolding waiters_ok_def st1_def by (fastforce simp: dom_def)
      have "newq = []" using e found(2) by auto
      show ?thesis
      proof (rule Cons.IH [OF _ w, of newq port1], goal_cases)
        case (1 newq' blocked' us T)
        have kept: "T u = T1 u" if "u \<notin> set rest" for u using that 1(10) by (simp add: st1_def)
        have "served T (t # us) (take (length (t # us)) (filter (\<lambda>m. msgh_remote_port m = IO_PORT p) (m # oldq))) (ip_seqno port)"
          using True found(4) 1(3) kept [of t] d by (simp add: port1_def)
        moreover have "told_too_large T (set blocked - set (t # us) - set blocked')"
          using 1(9) found(2,3) kept d unfolding told_too_large_def by fastforce
        moreover have "mq_move_loop p (m # oldq) newq blocked st =
          Some (filter (\<lambda>m. msgh_remote_port m \<noteq> IO_PORT p) (m # oldq), newq', blocked',
            set_port p (port\<lparr>ip_seqno := ip_seqno port + of_nat (length (t # us))\<rparr>) (st\<lparr>k_threads := T\<rparr>))"
          using True found(1) 1(1) by (simp add: st1_def port1_def add.commute add.left_commute)
        moreover have "T u = k_threads st u" if "u \<in> set blocked' \<or> u \<notin> set blocked" for u
          using that 1(8) 1(10) [of u] T1 [of u] found(2) by (auto simp: st1_def)
        ultimately show ?case
          by (intro Cons.prems(1) [of newq' blocked' "t # us" T])
            (use 1 True found(2) d in auto)
      next
        case 2
        then show ?case using \<open>newq = []\<close> by simp
      next
        case 3
        then show ?case by (simp add: st1_def)
      qed
    next
      case (2 T1)
      note none = 2
      define st1 where "st1 = st\<lparr>k_threads := T1\<rparr>"
      have w: "waiters_ok (k_threads st1) []" "k_ports st1 p = Some port"
        using Cons.prems(4) by (simp_all add: waiters_ok_def st1_def)
      show ?thesis
      proof (rule Cons.IH [OF _ w(1) _ w(2), of "ipc_kmsg_enqueue newq m"], goal_cases)
        case (1 newq' blocked' us T)
        then have us: "us = []" "blocked' = []" by auto
        then have "T = T1" using 1(10) by (auto simp: st1_def fun_eq_iff)
        then show ?case
          by (intro Cons.prems(1) [of newq' blocked' "[]" T])
            (use 1 us True none in \<open>auto simp: st1_def ipc_kmsg_enqueue_def\<close>)
      qed simp
    qed
  qed
qed

text \<open>
  The specification of a delivery: messages \<open>ms\<close>, numbered from \<open>n\<close>, arrive at a queue with
  messages \<open>queue\<close> and waiting threads \<open>blocked\<close>.  The threads \<open>us\<close> get the first ones, the
  others are queued, threads whose buffers are too small are told so, and the others keep
  waiting.
\<close>

definition delivery ::
  "(thread_id \<rightharpoonup> ipc_thread) \<Rightarrow> thread_id list \<Rightarrow> kmsg list \<Rightarrow> kmsg list \<Rightarrow> bits32 \<Rightarrow>
   thread_id list \<Rightarrow> ipc_mqueue \<Rightarrow> (thread_id \<rightharpoonup> ipc_thread) \<Rightarrow> bool" where
  "delivery T blocked queue ms n us mqueue T' =
     (imq_messages mqueue = queue @ drop (length us) ms \<and>
      served T' us (take (length us) ms) n \<and>
      (imq_messages mqueue = [] \<or> imq_threads mqueue = []) \<and> waiters_ok T' (imq_threads mqueue) \<and>
      distinct us \<and> set us \<inter> set (imq_threads mqueue) = {} \<and>
      set us \<union> set (imq_threads mqueue) \<subseteq> set blocked \<and>
      told_too_large T' (set blocked - set us - set (imq_threads mqueue)) \<and>
      (\<forall>t. t \<in> set (imq_threads mqueue) \<or> t \<notin> set blocked \<longrightarrow> T' t = T t))"

lemma delivery_Nil: "delivery T [] queue ms n us mqueue T' \<longleftrightarrow>
    us = [] \<and> mqueue = \<lparr>imq_messages = queue @ ms, imq_threads = []\<rparr> \<and> T' = T"
  by (cases mqueue) (auto simp: delivery_def waiters_ok_def told_too_large_def)

lemma mq_move_loop_delivery:
  assumes "waiters_ok (k_threads st) blocked" "newq = [] \<or> blocked = []" "k_ports st p = Some port"
  shows "\<exists>us mqueue T.
    mq_move_loop p oldq newq blocked st =
      Some (filter (\<lambda>m. msgh_remote_port m \<noteq> IO_PORT p) oldq, imq_messages mqueue, imq_threads mqueue,
        set_port p (port\<lparr>ip_seqno := ip_seqno port + of_nat (length us)\<rparr>) (st\<lparr>k_threads := T\<rparr>)) \<and>
    delivery (k_threads st) blocked newq (filter (\<lambda>m. msgh_remote_port m = IO_PORT p) oldq) (ip_seqno port)
      us mqueue T"
proof (rule mq_move_loop_ok [OF assms, of oldq], goal_cases)
  case (1 us newq' blocked' T)
  then show ?case
    by (intro exI [of _ us] exI [of _ "\<lparr>imq_messages = newq', imq_threads = blocked'\<rparr>"] exI [of _ T])
      (simp add: delivery_def)
qed

text \<open>The threads of a list, woken with a reason.\<close>

definition woken :: "mach_msg_return \<Rightarrow> thread_id list \<Rightarrow> (thread_id \<rightharpoonup> ipc_thread) \<Rightarrow> thread_id \<rightharpoonup> ipc_thread" where
  "woken mr ts T t =
     (if t \<in> set ts then map_option (\<lambda>th. th\<lparr>ith_state := mr, th_waiting := False\<rparr>) (T t) else T t)"

lemma woken_Nil [simp]: "woken mr [] T = T"
  by (simp add: woken_def fun_eq_iff)

lemma wake_all_eq:
  "set ts \<subseteq> dom (k_threads st) \<Longrightarrow> wake_all mr ts st = Some (st\<lparr>k_threads := woken mr ts (k_threads st)\<rparr>)"
proof (induction ts arbitrary: st)
  case (Cons t ts)
  then obtain th where th: "k_threads st t = Some th" by auto
  define st1 where "st1 = set_thread t (th\<lparr>ith_state := mr, th_waiting := False\<rparr>) st"
  have "set ts \<subseteq> dom (k_threads st1)" using Cons.prems by (auto simp: st1_def)
  then have "wake_all mr ts st1 = Some (st1\<lparr>k_threads := woken mr ts (k_threads st1)\<rparr>)" by (rule Cons.IH)
  moreover have "wake_all mr (t # ts) st = wake_all mr ts st1" using th by (simp add: st1_def)
  moreover have "woken mr ts (k_threads st1) = woken mr (t # ts) (k_threads st)"
    using th by (auto simp: woken_def st1_def fun_eq_iff)
  ultimately show ?case by (simp add: st1_def set_thread_def)
qed simp

lemma ipc_mqueue_changed_eq:
  assumes "get_mq st m = Some mqueue" "set (imq_threads mqueue) \<subseteq> dom (k_threads st)"
  shows "ipc_mqueue_changed m mr st =
         set_mq m (mqueue\<lparr>imq_threads := []\<rparr>) (st\<lparr>k_threads := woken mr (imq_threads mqueue) (k_threads st)\<rparr>)"
  using assms by (simp add: ipc_mqueue_changed_def wake_all_eq)

section \<open>The contract of a queue\<close>

text \<open>
  What the users of a queue rely on: an element that is put in comes out once, after
  those that were put in before it.
\<close>

locale fifo_queue =
  fixes enq :: "'q \<Rightarrow> 'a \<Rightarrow> 'q"
    and deq :: "'q \<Rightarrow> ('a \<times> 'q) option"
    and elems :: "'q \<Rightarrow> 'a list"
  assumes enq_law: "elems (enq q x) = elems q @ [x]"
    and deq_empty: "deq q = None \<longleftrightarrow> elems q = []"
    and deq_rest: "deq q = Some (x, q') \<Longrightarrow> elems q = x # elems q'"
begin

lemma deq_first: "elems q = x # xs \<Longrightarrow> \<exists>q'. deq q = Some (x, q') \<and> elems q' = xs"
  using deq_empty [of q] deq_rest [of q] by (cases "deq q") auto

text \<open>Elements put in one after the other come out in the same order.\<close>

lemma enq_all: "elems (foldl enq q xs) = elems q @ xs"
  by (induction xs arbitrary: q) (simp_all add: enq_law)

lemma deq_after_enq: "elems q = [] \<Longrightarrow> \<exists>q'. deq (foldl enq q (x # xs)) = Some (x, q') \<and> elems q' = xs"
  by (rule deq_first) (simp add: enq_all enq_law)

end

interpretation kmsgq: fifo_queue ipc_kmsg_enqueue ipc_kmsg_dequeue "\<lambda>q. q"
  by unfold_locales (auto simp: ipc_kmsg_enqueue_def ipc_kmsg_dequeue_def split: list.splits)

end
