(* ===== verification/Ipc_Pset.thy ===== *)
theory Ipc_Pset
  imports Ipc_Mqueue
begin

text \<open>
  Port sets, \<^verbatim>\<open>ipc/ipc_pset.c\<close>: membership of a port in a set and the destruction of a set.  A port
  in a set keeps its messages in the queue of the set.
\<close>

definition ipc_pset_add :: "pset_id \<Rightarrow> port_id \<Rightarrow> kernel \<Rightarrow> kernel option" where
  "ipc_pset_add q p st =
     do { pset \<leftarrow> k_psets st q;
          kassert (ips_active pset);
          port \<leftarrow> k_ports st p;
          kassert (ip_active port);
          kassert (ip_pset port = None);
          let st = set_port p (port\<lparr>ip_pset := Some q, ip_cur_target := T_pset q\<rparr>) st;
          st \<leftarrow> ips_reference q st;
          st \<leftarrow> ipc_mqueue_move (MQ_pset q) (MQ_port p) p st;
          port \<leftarrow> k_ports st p;
          kassert (imq_messages (ip_messages port) = []);
          st \<leftarrow> ipc_mqueue_changed (MQ_port p) MACH_RCV_PORT_CHANGED st;
          port \<leftarrow> k_ports st p;
          kassert (imq_threads (ip_messages port) = []);
          Some st }"

definition ipc_pset_remove :: "pset_id \<Rightarrow> port_id \<Rightarrow> kernel \<Rightarrow> kernel option" where
  "ipc_pset_remove q p st =
     do { port \<leftarrow> k_ports st p;
          kassert (ip_active port);
          kassert (ip_pset port = Some q);
          let st = set_port p (port\<lparr>ip_pset := None, ip_cur_target := T_port\<rparr>) st;
          st \<leftarrow> ips_release q st;
          ipc_mqueue_move (MQ_port p) (MQ_pset q) p st }"

definition ipc_pset_move ::
  "port_id \<Rightarrow> pset_id option \<Rightarrow> kernel \<Rightarrow> (kern_return \<times> kernel) option" where
  "ipc_pset_move p nset st =
     do { port \<leftarrow> k_ports st p;
          kassert (ip_active port);
          let oset = ip_pset port;
          (oset, st) \<leftarrow>
            (if oset = nset then Some (oset, st)
             else case (oset, nset) of
               (None, Some n) \<Rightarrow>
                 do { pset \<leftarrow> k_psets st n;
                      kassert (ips_active pset);
                      st \<leftarrow> ipc_pset_add n p st;
                      Some (oset, st) }
             | (Some q, None) \<Rightarrow>
                 do { st \<leftarrow> ipc_pset_remove q p st;
                      pset \<leftarrow> k_psets st q;
                      if ips_active pset then Some (oset, st)
                      else do { st \<leftarrow> ips_check_unlock q st; Some (None, st) } }
             | (Some q, Some n) \<Rightarrow>
                 do { pset \<leftarrow> k_psets st n;
                      kassert (ips_active pset);
                      st \<leftarrow> ipc_pset_remove q p st;
                      st \<leftarrow> ipc_pset_add n p st;
                      st \<leftarrow> ips_check_unlock q st;
                      Some (oset, st) }
             | (None, None) \<Rightarrow> Some (oset, st));
          Some (if nset = None \<and> oset = None then KERN_NOT_IN_SET else KERN_SUCCESS, st) }"

definition ipc_pset_destroy :: "pset_id \<Rightarrow> kernel \<Rightarrow> kernel option" where
  "ipc_pset_destroy q st =
     do { pset \<leftarrow> k_psets st q;
          kassert (ips_active pset);
          let st = set_pset q (pset\<lparr>ips_bits := ips_bits pset AND NOT IO_BITS_ACTIVE\<rparr>) st;
          st \<leftarrow> ipc_mqueue_changed (MQ_pset q) MACH_RCV_PORT_DIED st;
          st \<leftarrow> ips_release q st;
          ips_check_unlock q st }"

section \<open>Messages of a port that joins or leaves a set\<close>

abbreviation for_port :: "port_id \<Rightarrow> kmsg \<Rightarrow> bool" where
  "for_port p m \<equiv> msgh_remote_port m = IO_PORT p"

lemma ipc_mqueue_move_to_set:
  assumes "k_ports st p = Some port" "k_psets st q = Some pset"
    and "imq_messages (ips_messages pset) = [] \<or> imq_threads (ips_messages pset) = []"
    and "waiters_ok (k_threads st) (imq_threads (ips_messages pset))"
  shows "\<exists>us mqueue T.
    ipc_mqueue_move (MQ_pset q) (MQ_port p) p st =
      Some (set_pset q (pset\<lparr>ips_messages := mqueue\<rparr>)
        (set_port p (port\<lparr>ip_seqno := ip_seqno port + of_nat (length us),
            ip_messages := (ip_messages port)\<lparr>imq_messages :=
              filter (\<lambda>m. \<not> for_port p m) (imq_messages (ip_messages port))\<rparr>\<rparr>) (st\<lparr>k_threads := T\<rparr>))) \<and>
    delivery (k_threads st) (imq_threads (ips_messages pset)) (imq_messages (ips_messages pset))
      (filter (for_port p) (imq_messages (ip_messages port))) (ip_seqno port) us mqueue T"
proof -
  obtain us mqueue T where "mq_move_loop p (imq_messages (ip_messages port)) (imq_messages (ips_messages pset))
      (imq_threads (ips_messages pset)) st =
    Some (filter (\<lambda>m. \<not> for_port p m) (imq_messages (ip_messages port)), imq_messages mqueue, imq_threads mqueue,
        set_port p (port\<lparr>ip_seqno := ip_seqno port + of_nat (length us)\<rparr>) (st\<lparr>k_threads := T\<rparr>))"
    and "delivery (k_threads st) (imq_threads (ips_messages pset)) (imq_messages (ips_messages pset))
      (filter (for_port p) (imq_messages (ip_messages port))) (ip_seqno port) us mqueue T"
    using mq_move_loop_delivery [OF assms(4,3,1), of "imq_messages (ip_messages port)"] by blast
  then show ?thesis
    using assms(1,2) by (intro exI [of _ us] exI [of _ mqueue] exI [of _ T]) (simp add: ipc_mqueue_move_def)
qed

text \<open>Nobody waits at the queue of a port in a set, so the messages are only moved.\<close>

lemma ipc_mqueue_move_from_set:
  assumes "k_ports st p = Some port" "k_psets st q = Some pset" "imq_threads (ip_messages port) = []"
  shows "ipc_mqueue_move (MQ_port p) (MQ_pset q) p st =
    Some (set_port p (port\<lparr>ip_messages := \<lparr>imq_messages = imq_messages (ip_messages port) @
              filter (for_port p) (imq_messages (ips_messages pset)), imq_threads = []\<rparr>\<rparr>)
           (set_pset q (pset\<lparr>ips_messages := (ips_messages pset)\<lparr>imq_messages :=
              filter (\<lambda>m. \<not> for_port p m) (imq_messages (ips_messages pset))\<rparr>\<rparr>) st))"
proof -
  have "waiters_ok (k_threads st) []" by (simp add: waiters_ok_def)
  then obtain us mqueue T where r: "mq_move_loop p (imq_messages (ips_messages pset)) (imq_messages (ip_messages port)) [] st =
    Some (filter (\<lambda>m. \<not> for_port p m) (imq_messages (ips_messages pset)), imq_messages mqueue, imq_threads mqueue,
        set_port p (port\<lparr>ip_seqno := ip_seqno port + of_nat (length us)\<rparr>) (st\<lparr>k_threads := T\<rparr>))"
    and d: "delivery (k_threads st) [] (imq_messages (ip_messages port))
      (filter (for_port p) (imq_messages (ips_messages pset))) (ip_seqno port) us mqueue T"
    using mq_move_loop_delivery [OF _ _ assms(1), of "[]" "imq_messages (ip_messages port)" "imq_messages (ips_messages pset)"]
    by blast
  have "us = []" "imq_messages mqueue = imq_messages (ip_messages port) @ filter (for_port p) (imq_messages (ips_messages pset))"
    "imq_threads mqueue = []" "T = k_threads st"
    using d by (simp_all add: delivery_Nil)
  then show ?thesis using assms r by (simp add: ipc_mqueue_move_def set_port_id)
qed

section \<open>Membership\<close>

text \<open>
  A queue is in order: a message is queued only if no thread waits, and the waiting
  threads exist and wait only once.
\<close>

definition mqueue_ok :: "(thread_id \<rightharpoonup> ipc_thread) \<Rightarrow> ipc_mqueue \<Rightarrow> bool" where
  "mqueue_ok T mqueue =
     ((imq_messages mqueue = [] \<or> imq_threads mqueue = []) \<and> waiters_ok T (imq_threads mqueue))"

lemma ipc_pset_add_ok:
  assumes "k_ports st p = Some port" "ip_active port" "ip_pset port = None"
    and "k_psets st q = Some pset" "ips_active pset"
    and "mqueue_ok (k_threads st) (ip_messages port)" "mqueue_ok (k_threads st) (ips_messages pset)"
    and "set (imq_threads (ip_messages port)) \<inter> set (imq_threads (ips_messages pset)) = {}"
    and "\<forall>m \<in> set (imq_messages (ip_messages port)). for_port p m"
  shows "\<exists>us mqueue T.
    ipc_pset_add q p st =
      Some (set_pset q (pset\<lparr>ips_references := ips_references pset + 1, ips_messages := mqueue\<rparr>)
           (set_port p (port\<lparr>ip_pset := Some q, ip_cur_target := T_pset q,
              ip_seqno := ip_seqno port + of_nat (length us), ip_messages := ipc_mqueue_init\<rparr>)
           (st\<lparr>k_threads := woken MACH_RCV_PORT_CHANGED (imq_threads (ip_messages port)) T\<rparr>))) \<and>
    delivery (k_threads st) (imq_threads (ips_messages pset)) (imq_messages (ips_messages pset))
      (imq_messages (ip_messages port)) (ip_seqno port) us mqueue T"
proof -
  define port1 where "port1 = port\<lparr>ip_pset := Some q, ip_cur_target := T_pset q\<rparr>"
  define pset1 where "pset1 = pset\<lparr>ips_references := ips_references pset + 1\<rparr>"
  define st1 where "st1 = set_pset q pset1 (set_port p port1 st)"
  have all: "filter (for_port p) (imq_messages (ip_messages port)) = imq_messages (ip_messages port)"
    "filter (\<lambda>m. \<not> for_port p m) (imq_messages (ip_messages port)) = []"
    using assms(9) by (simp_all add: filter_id_conv filter_empty_conv)
  obtain us mqueue T where m: "ipc_mqueue_move (MQ_pset q) (MQ_port p) p st1 =
      Some (set_pset q (pset1\<lparr>ips_messages := mqueue\<rparr>)
        (set_port p (port1\<lparr>ip_seqno := ip_seqno port + of_nat (length us),
            ip_messages := (ip_messages port)\<lparr>imq_messages := []\<rparr>\<rparr>) (st1\<lparr>k_threads := T\<rparr>)))"
    and d: "delivery (k_threads st) (imq_threads (ips_messages pset)) (imq_messages (ips_messages pset))
      (imq_messages (ip_messages port)) (ip_seqno port) us mqueue T"
    using ipc_mqueue_move_to_set [of st1 p port1 q pset1] assms(7) all
    by (auto simp: st1_def port1_def pset1_def mqueue_ok_def)
  define st2 where "st2 = set_pset q (pset1\<lparr>ips_messages := mqueue\<rparr>)
        (set_port p (port1\<lparr>ip_seqno := ip_seqno port + of_nat (length us),
            ip_messages := (ip_messages port)\<lparr>imq_messages := []\<rparr>\<rparr>) (st1\<lparr>k_threads := T\<rparr>))"
  have "T t = k_threads st t" if "t \<in> set (imq_threads (ip_messages port))" for t
    using that d assms(8) unfolding delivery_def by blast
  then have "set (imq_threads (ip_messages port)) \<subseteq> dom T"
    using assms(6) unfolding mqueue_ok_def waiters_ok_def by fastforce
  then have c: "ipc_mqueue_changed (MQ_port p) MACH_RCV_PORT_CHANGED st2 =
      set_mq (MQ_port p) ipc_mqueue_init
        (st2\<lparr>k_threads := woken MACH_RCV_PORT_CHANGED (imq_threads (ip_messages port)) T\<rparr>)"
    by (subst ipc_mqueue_changed_eq [of _ _ "(ip_messages port)\<lparr>imq_messages := []\<rparr>"])
      (simp_all add: st2_def)
  have "ipc_pset_add q p st =
      do { st \<leftarrow> ipc_mqueue_move (MQ_pset q) (MQ_port p) p st1;
           port \<leftarrow> k_ports st p;
           kassert (imq_messages (ip_messages port) = []);
           st \<leftarrow> ipc_mqueue_changed (MQ_port p) MACH_RCV_PORT_CHANGED st;
           port \<leftarrow> k_ports st p;
           kassert (imq_threads (ip_messages port) = []);
           Some st }"
    using assms(1-5)
    by (simp add: ipc_pset_add_def ips_reference_def st1_def port1_def pset1_def)
  also have "\<dots> = Some (set_pset q (pset1\<lparr>ips_messages := mqueue\<rparr>)
        (set_port p (port1\<lparr>ip_seqno := ip_seqno port + of_nat (length us), ip_messages := ipc_mqueue_init\<rparr>)
          (st\<lparr>k_threads := woken MACH_RCV_PORT_CHANGED (imq_threads (ip_messages port)) T\<rparr>)))"
    unfolding m using c by (simp add: st2_def st1_def)
  finally show ?thesis using d unfolding port1_def pset1_def by auto
qed

lemma ipc_pset_remove_ok:
  assumes "k_ports st p = Some port" "ip_active port" "ip_pset port = Some q" "k_psets st q = Some pset"
    and "imq_threads (ip_messages port) = []"
  shows "ipc_pset_remove q p st =
    Some (set_pset q (pset\<lparr>ips_references := ips_references pset - 1,
              ips_messages := (ips_messages pset)\<lparr>imq_messages :=
                filter (\<lambda>m. \<not> for_port p m) (imq_messages (ips_messages pset))\<rparr>\<rparr>)
           (set_port p (port\<lparr>ip_pset := None, ip_cur_target := T_port,
              ip_messages := \<lparr>imq_messages = imq_messages (ip_messages port) @
                filter (for_port p) (imq_messages (ips_messages pset)), imq_threads = []\<rparr>\<rparr>) st))"
  using assms by (simp add: ipc_pset_remove_def ips_release_def
    ipc_mqueue_move_from_set [of _ p "port\<lparr>ip_pset := None, ip_cur_target := T_port\<rparr>" q
      "pset\<lparr>ips_references := ips_references pset - 1\<rparr>"])

lemma mqueue_no_threads:
  "mqueue\<lparr>imq_threads := []\<rparr> = \<lparr>imq_messages = imq_messages mqueue, imq_threads = []\<rparr>" for mqueue :: ipc_mqueue
  by simp

section \<open>Properties\<close>

text \<open>
  C29: A port that joins a port set takes its messages along: in the order of the port's
  queue, numbered as before, they are handed to the threads that wait at the set, and the
  remaining ones are queued behind the messages of the set.  The threads that waited at
  the port are woken and told so, and no assertion of the code fails.
\<close>

theorem ipc_pset_add_correct:
  assumes "k_ports st p = Some port" "ip_active port" "ip_pset port = None"
    and "k_psets st q = Some pset" "ips_active pset"
    and "mqueue_ok (k_threads st) (ip_messages port)" "mqueue_ok (k_threads st) (ips_messages pset)"
    and "set (imq_threads (ip_messages port)) \<inter> set (imq_threads (ips_messages pset)) = {}"
    and "\<forall>m \<in> set (imq_messages (ip_messages port)). msgh_remote_port m = IO_PORT p"
  shows "\<exists>us mqueue T.
    ipc_pset_add q p st =
      Some (set_pset q (pset\<lparr>ips_references := ips_references pset + 1, ips_messages := mqueue\<rparr>)
           (set_port p (port\<lparr>ip_pset := Some q, ip_cur_target := T_pset q,
              ip_seqno := ip_seqno port + of_nat (length us), ip_messages := ipc_mqueue_init\<rparr>)
           (st\<lparr>k_threads := woken MACH_RCV_PORT_CHANGED (imq_threads (ip_messages port)) T\<rparr>))) \<and>
    delivery (k_threads st) (imq_threads (ips_messages pset)) (imq_messages (ips_messages pset))
      (imq_messages (ip_messages port)) (ip_seqno port) us mqueue T"
  by (rule ipc_pset_add_ok [OF assms])

text \<open>A message for port 5, and a thread that waits for it at the set 9.\<close>

definition example_msg :: "port_id \<Rightarrow> nat \<Rightarrow> kmsg" where
  "example_msg p n = \<lparr>msgh_remote_type = MACH_MSG_TYPE_PORT_SEND, msgh_local_type = 0, msgh_complex = False,
     msgh_circular = False, msgh_size = 24, msgh_remote_port = IO_PORT p, msgh_local_port = IO_NULL,
     msgh_id = n, msgh_body = [], ikm_marequest = None\<rparr>"

definition example_thread :: ipc_thread where
  "example_thread = \<lparr>ith_state = MACH_RCV_IN_PROGRESS, ith_msize = 100, ith_kmsg = None, ith_seqno = 0,
     th_waiting = True\<rparr>"

theorem ipc_pset_add_correct_witness:
  "\<exists>st'. ipc_pset_add 9 5
      (set_pset 9 (new_pset\<lparr>ips_messages := \<lparr>imq_messages = [], imq_threads = [3]\<rparr>\<rparr>)
      (set_port 5 (new_port\<lparr>ip_messages := \<lparr>imq_messages = [example_msg 5 1], imq_threads = []\<rparr>\<rparr>)
      (set_thread 3 example_thread kernel_empty))) = Some st'"
  using ipc_pset_add_correct [of
      "set_pset 9 (new_pset\<lparr>ips_messages := \<lparr>imq_messages = [], imq_threads = [3]\<rparr>\<rparr>)
      (set_port 5 (new_port\<lparr>ip_messages := \<lparr>imq_messages = [example_msg 5 1], imq_threads = []\<rparr>\<rparr>)
      (set_thread 3 example_thread kernel_empty))" 5
      "new_port\<lparr>ip_messages := \<lparr>imq_messages = [example_msg 5 1], imq_threads = []\<rparr>\<rparr>" 9
      "new_pset\<lparr>ips_messages := \<lparr>imq_messages = [], imq_threads = [3]\<rparr>\<rparr>"]
  by (auto simp: mqueue_ok_def waiters_ok_def example_msg_def)

text \<open>
  C30: A port that joins a set where no thread waits and leaves it again has all its messages
  in the same order, and the set has the messages it had before.
\<close>

theorem ipc_pset_add_remove:
  assumes "k_ports st p = Some port" "ip_active port" "ip_pset port = None" "ip_cur_target port = T_port"
    and "k_psets st q = Some pset" "ips_active pset"
    and "mqueue_ok (k_threads st) (ip_messages port)" "imq_threads (ips_messages pset) = []"
    and "\<forall>m \<in> set (imq_messages (ip_messages port)). msgh_remote_port m = IO_PORT p"
    and "\<forall>m \<in> set (imq_messages (ips_messages pset)). msgh_remote_port m \<noteq> IO_PORT p"
  shows "do { st' \<leftarrow> ipc_pset_add q p st; ipc_pset_remove q p st' } =
    Some (set_port p (port\<lparr>ip_messages := (ip_messages port)\<lparr>imq_threads := []\<rparr>\<rparr>)
      (st\<lparr>k_threads := woken MACH_RCV_PORT_CHANGED (imq_threads (ip_messages port)) (k_threads st)\<rparr>))"
proof -
  have f: "filter (for_port p) (imq_messages (ips_messages pset)) = []"
    "filter (\<lambda>m. \<not> for_port p m) (imq_messages (ips_messages pset)) = imq_messages (ips_messages pset)"
    "filter (for_port p) (imq_messages (ip_messages port)) = imq_messages (ip_messages port)"
    "filter (\<lambda>m. \<not> for_port p m) (imq_messages (ip_messages port)) = []"
    using assms(9,10) by (simp_all add: filter_id_conv filter_empty_conv)
  have "mqueue_ok (k_threads st) (ips_messages pset)"
    using assms(8) by (simp add: mqueue_ok_def waiters_ok_def)
  then obtain us mqueue T where a: "ipc_pset_add q p st =
      Some (set_pset q (pset\<lparr>ips_references := ips_references pset + 1, ips_messages := mqueue\<rparr>)
           (set_port p (port\<lparr>ip_pset := Some q, ip_cur_target := T_pset q,
              ip_seqno := ip_seqno port + of_nat (length us), ip_messages := ipc_mqueue_init\<rparr>)
           (st\<lparr>k_threads := woken MACH_RCV_PORT_CHANGED (imq_threads (ip_messages port)) T\<rparr>)))"
    and d: "delivery (k_threads st) (imq_threads (ips_messages pset)) (imq_messages (ips_messages pset))
      (imq_messages (ip_messages port)) (ip_seqno port) us mqueue T"
    using ipc_pset_add_ok [OF assms(1-3,5-7) _ _ assms(9)] assms(8) by auto
  have "us = []" "mqueue = \<lparr>imq_messages = imq_messages (ips_messages pset) @ imq_messages (ip_messages port), imq_threads = []\<rparr>"
    "T = k_threads st"
    using d assms(8) by (simp_all add: delivery_Nil)
  moreover have "pset\<lparr>ips_messages := \<lparr>imq_messages = imq_messages (ips_messages pset), imq_threads = []\<rparr>\<rparr> = pset"
    using assms(8) mqueue_eta [of "ips_messages pset"] by simp
  moreover have "port\<lparr>ip_pset := None, ip_cur_target := T_port, ip_messages := \<lparr>imq_messages = ms, imq_threads = []\<rparr>\<rparr> =
      port\<lparr>ip_messages := \<lparr>imq_messages = ms, imq_threads = []\<rparr>\<rparr>" for ms
    using assms(3,4) by (intro ipc_port.equality) simp_all
  ultimately show ?thesis
    using assms(2,5,8) a f by (simp add: ipc_pset_remove_ok set_pset_id mqueue_no_threads)
qed

theorem ipc_pset_add_remove_witness:
  "(let st = set_pset 9 new_pset (set_port 5 (new_port\<lparr>ip_messages :=
        \<lparr>imq_messages = [example_msg 5 1, example_msg 5 2], imq_threads = []\<rparr>\<rparr>) kernel_empty)
    in do { st' \<leftarrow> ipc_pset_add 9 5 st; ipc_pset_remove 9 5 st' } = Some st)"
  using ipc_pset_add_remove [of "set_pset 9 new_pset (set_port 5 (new_port\<lparr>ip_messages :=
        \<lparr>imq_messages = [example_msg 5 1, example_msg 5 2], imq_threads = []\<rparr>\<rparr>) kernel_empty)" 5
      "new_port\<lparr>ip_messages := \<lparr>imq_messages = [example_msg 5 1, example_msg 5 2], imq_threads = []\<rparr>\<rparr>" 9 new_pset]
  by (simp add: mqueue_ok_def waiters_ok_def example_msg_def mqueue_no_threads new_port_def zero_port_def kernel_empty_def
      set_port_def set_pset_def)

end
