(* ===== verification/Ipc_Entry.thy ===== *)
theory Ipc_Entry
  imports Ipc_Types
begin

text \<open>
  Entries of a space: the inline functions of \<^verbatim>\<open>ipc/ipc_space.h\<close>, \<^verbatim>\<open>ipc/ipc_entry.c\<close>, and the
  creation and reference counting of spaces in \<^verbatim>\<open>ipc/ipc_space.c\<close>.

  \<open>space_wf\<close> is the invariant of a space: both trees are well formed, every entry is stored
  under its own name, the free list holds distinct unused entries and its size field is
  its length, at most 64, and \<^verbatim>\<open>is_size\<close> counts the entries that are not on the free list.
  Every operation keeps it; an allocated name denotes no right before, and afterwards an
  entry without type, object and request.
\<close>

section \<open>Access to an entry\<close>

abbreviation is_entries :: "ipc_space \<Rightarrow> nat \<Rightarrow> ipc_entry option" where
  "is_entries sp \<equiv> rdxtree_lookup (is_map sp)"

abbreviation reverse :: "ipc_space \<Rightarrow> nat \<Rightarrow> nat option" where
  "reverse sp \<equiv> rdxtree_lookup (is_reverse_map sp)"

text \<open>A write through a pointer to an entry.\<close>

definition set_entry :: "ipc_space \<Rightarrow> nat \<Rightarrow> ipc_entry \<Rightarrow> ipc_space option" where
  "set_entry sp e entry =
     do { t \<leftarrow> rdxtree_replace_slot (is_map sp) e entry; Some (sp\<lparr>is_map := t\<rparr>) }"

definition ipc_entry_lookup :: "ipc_space \<Rightarrow> mach_port_name \<Rightarrow> ipc_entry option option" where
  "ipc_entry_lookup sp name =
     do { kassert (is_active sp);
          Some (case is_entries sp name of
                  None \<Rightarrow> None
                | Some entry \<Rightarrow>
                    if IE_BITS_TYPE (ie_bits entry) = MACH_PORT_TYPE_NONE then None else Some entry) }"

section \<open>Allocation\<close>

definition ipc_entry_get ::
  "ipc_space \<Rightarrow> (kern_return \<times> mach_port_name \<times> nat \<times> ipc_space) option" where
  "ipc_entry_get sp =
     do { kassert (is_active sp);
          case is_free_list sp of
            [] \<Rightarrow> Some (KERN_NO_SPACE, 0, 0, sp)
          | e # rest \<Rightarrow>
              do { free_entry \<leftarrow> is_entries sp e;
                   let sp = sp\<lparr>is_free_list := rest, is_free_list_size := is_free_list_size sp - 1\<rparr>;
                   kassert (ie_bits free_entry AND NOT IE_BITS_GEN_MASK = 0);
                   let gen = ie_bits free_entry + 0;
                   sp \<leftarrow> set_entry sp e (free_entry\<lparr>ie_bits := gen, ie_request := 0\<rparr>);
                   let new_name = ie_name free_entry;
                   kassert (MACH_PORT_NAME_VALID new_name);
                   kassert (ie_object free_entry = IO_NULL);
                   Some (KERN_SUCCESS, new_name, e, sp\<lparr>is_size := is_size sp + 1\<rparr>) } }"

definition new_entry :: "mach_port_name \<Rightarrow> ipc_entry" where
  "new_entry name = \<lparr>ie_name = name, ie_bits = 0, ie_object = IO_NULL, ie_request = 0\<rparr>"

definition ipc_entry_alloc ::
  "ipc_space \<Rightarrow> mem \<Rightarrow> (kern_return \<times> mach_port_name \<times> nat \<times> ipc_space \<times> mem) option" where
  "ipc_entry_alloc sp m =
     (if \<not> is_active sp then Some (KERN_INVALID_TASK, 0, 0, sp, m)
      else do {
        (kr, name, e, sp) \<leftarrow> ipc_entry_get sp;
        if kr = KERN_SUCCESS then Some (kr, name, e, sp, m)
        else let (ok, m) = kmem_cache_alloc m in
          if \<not> ok then Some (KERN_RESOURCE_SHORTAGE, 0, 0, sp, m)
          else do {
            (kr, key, t, m) \<leftarrow> rdxtree_insert_alloc (is_map sp) (new_entry 0) m;
            let sp = sp\<lparr>is_map := t\<rparr>;
            if kr \<noteq> KERN_SUCCESS then Some (kr, 0, 0, sp, m)
            else do {
              let sp = sp\<lparr>is_size := is_size sp + 1\<rparr>;
              sp \<leftarrow> set_entry sp key (new_entry (key mod 2 ^ 32));
              Some (KERN_SUCCESS, key mod 2 ^ 32, key, sp, m) } } })"

text \<open>The loop that rips a free entry out of the free list; it would run off the end of a
  list that does not hold the entry.\<close>

fun free_list_rip :: "nat \<Rightarrow> nat list \<Rightarrow> nat list option" where
  "free_list_rip entry [] = None"
| "free_list_rip entry (e # es) =
     (if e = entry then Some es else do { es \<leftarrow> free_list_rip entry es; Some (e # es) })"

definition ipc_entry_alloc_name ::
  "ipc_space \<Rightarrow> mach_port_name \<Rightarrow> mem \<Rightarrow> (kern_return \<times> nat \<times> ipc_space \<times> mem) option" where
  "ipc_entry_alloc_name sp name m =
     do { kassert (MACH_PORT_NAME_VALID name);
          if \<not> is_active sp then Some (KERN_INVALID_TASK, 0, sp, m)
          else case is_entries sp name of
            None \<Rightarrow>
              (let (ok, m) = kmem_cache_alloc m in
               if \<not> ok then Some (KERN_RESOURCE_SHORTAGE, 0, sp, m)
               else do {
                 (kr, t, m) \<leftarrow> rdxtree_insert (is_map sp) name (new_entry name) m;
                 let sp = sp\<lparr>is_map := t\<rparr>;
                 if kr \<noteq> KERN_SUCCESS then Some (kr, 0, sp, m)
                 else Some (KERN_SUCCESS, name, sp\<lparr>is_size := is_size sp + 1\<rparr>, m) })
          | Some entry \<Rightarrow>
              if IE_BITS_TYPE (ie_bits entry) \<noteq> 0 then Some (KERN_SUCCESS, name, sp, m)
              else do {
                fl \<leftarrow> free_list_rip name (is_free_list sp);
                let sp = sp\<lparr>is_free_list := fl, is_free_list_size := is_free_list_size sp - 1\<rparr>;
                kassert (ie_object entry = IO_NULL);
                kassert (ie_name entry = name);
                sp \<leftarrow> set_entry sp name (entry\<lparr>ie_bits := 0, ie_request := 0\<rparr>);
                Some (KERN_SUCCESS, name, sp\<lparr>is_size := is_size sp + 1\<rparr>, m) } }"

definition ipc_entry_dealloc :: "ipc_space \<Rightarrow> mach_port_name \<Rightarrow> nat \<Rightarrow> ipc_space option" where
  "ipc_entry_dealloc sp name e =
     do { entry \<leftarrow> is_entries sp e;
          kassert (is_active sp);
          kassert (ie_object entry = IO_NULL);
          kassert (ie_request entry = 0);
          sp \<leftarrow> (if is_free_list_size sp < IS_FREE_LIST_SIZE_LIMIT
                 then do {
                   sp \<leftarrow> set_entry sp e (entry\<lparr>ie_bits := ie_bits entry AND IE_BITS_GEN_MASK\<rparr>);
                   Some (sp\<lparr>is_free_list_size := is_free_list_size sp + 1,
                            is_free_list := e # is_free_list sp\<rparr>) }
                 else do {
                   (old, t) \<leftarrow> rdxtree_remove (is_map sp) name;
                   Some (sp\<lparr>is_map := t\<rparr>) });
          Some (sp\<lparr>is_size := is_size sp - 1\<rparr>) }"

section \<open>The reverse map\<close>

definition ipc_reverse_insert ::
  "ipc_space \<Rightarrow> port_id \<Rightarrow> nat \<Rightarrow> mem \<Rightarrow> (kern_return \<times> ipc_space \<times> mem) option" where
  "ipc_reverse_insert sp obj e m =
     do { (kr, t, m) \<leftarrow> rdxtree_insert (is_reverse_map sp) obj e m;
          Some (kr, sp\<lparr>is_reverse_map := t\<rparr>, m) }"

definition ipc_reverse_remove :: "ipc_space \<Rightarrow> port_id \<Rightarrow> (nat option \<times> ipc_space) option" where
  "ipc_reverse_remove sp obj =
     do { (old, t) \<leftarrow> rdxtree_remove (is_reverse_map sp) obj;
          Some (old, sp\<lparr>is_reverse_map := t\<rparr>) }"

definition ipc_reverse_lookup :: "ipc_space \<Rightarrow> port_id \<Rightarrow> nat option" where
  "ipc_reverse_lookup sp obj = reverse sp obj"

section \<open>Spaces\<close>

definition zero_entry :: ipc_entry where
  "zero_entry = \<lparr>ie_name = 0, ie_bits = 0, ie_object = IO_NULL, ie_request = 0\<rparr>"

definition ipc_space_create :: "kernel \<Rightarrow> (kern_return \<times> space_id \<times> kernel) option" where
  "ipc_space_create st =
     (let (ok, st) = k_alloc st in
      if \<not> ok then Some (KERN_RESOURCE_SHORTAGE, 0, st)
      else do {
        (kr, t, m) \<leftarrow> rdxtree_insert rdxtree_init 0 zero_entry (k_mem st);
        let s = k_next st;
        Some (KERN_SUCCESS, s,
          set_space s
            \<lparr>is_references = 2, is_active = True, is_map = t, is_size = 1,
             is_reverse_map = rdxtree_init, is_free_list = [], is_free_list_size = 0\<rparr>
            (st\<lparr>k_mem := m, k_next := s + 1\<rparr>)) })"

definition ipc_space_create_special :: "kernel \<Rightarrow> kern_return \<times> space_id \<times> kernel" where
  "ipc_space_create_special st =
     (let (ok, st) = k_alloc st in
      if \<not> ok then (KERN_RESOURCE_SHORTAGE, 0, st)
      else let s = k_next st in
        (KERN_SUCCESS, s,
         set_space s
           \<lparr>is_references = 1, is_active = False, is_map = rdxtree_init, is_size = 0,
            is_reverse_map = rdxtree_init, is_free_list = [], is_free_list_size = 0\<rparr>
           (st\<lparr>k_next := s + 1\<rparr>)))"

definition is_reference :: "space_id \<Rightarrow> kernel \<Rightarrow> kernel option" where
  "is_reference s st =
     do { sp \<leftarrow> k_spaces st s;
          kassert (is_references sp > 0);
          Some (set_space s (sp\<lparr>is_references := is_references sp + 1\<rparr>) st) }"

definition is_release :: "space_id \<Rightarrow> kernel \<Rightarrow> kernel option" where
  "is_release s st =
     do { sp \<leftarrow> k_spaces st s;
          kassert (is_references sp > 0);
          let refs = is_references sp - 1;
          let st = set_space s (sp\<lparr>is_references := refs\<rparr>) st;
          Some (if refs = 0 then st\<lparr>k_spaces := (k_spaces st)(s := None)\<rparr> else st) }"

section \<open>The invariant of a space\<close>

definition space_wf :: "ipc_space \<Rightarrow> bool" where
  "space_wf sp =
     (rdxtree_wf (is_map sp) \<and> rdxtree_wf (is_reverse_map sp) \<and>
      (\<forall>k en. is_entries sp k = Some en \<longrightarrow> ie_name en = k \<and> k < 2 ^ 32 - 1) \<and>
      is_entries sp 0 = Some zero_entry \<and>
      distinct (is_free_list sp) \<and>
      (\<forall>k \<in> set (is_free_list sp). k \<noteq> 0 \<and>
         (\<exists>en. is_entries sp k = Some en \<and> ie_bits en = 0 \<and> ie_object en = IO_NULL)) \<and>
      unat (is_free_list_size sp) = length (is_free_list sp) \<and> length (is_free_list sp) \<le> 64 \<and>
      unat (is_size sp) + length (is_free_list sp) = card (dom (is_entries sp)))"

text \<open>What a space means: the names that denote a right, with their entries.\<close>

definition rights :: "ipc_space \<Rightarrow> mach_port_name \<Rightarrow> ipc_entry option" where
  "rights sp name =
     (case is_entries sp name of
        None \<Rightarrow> None
      | Some entry \<Rightarrow> if IE_BITS_TYPE (ie_bits entry) = 0 then None else Some entry)"

lemma ipc_entry_lookup_rights: "is_active sp \<Longrightarrow> ipc_entry_lookup sp name = Some (rights sp name)"
  by (simp add: ipc_entry_lookup_def rights_def MACH_PORT_TYPE_NONE_def cong: option.case_cong)

lemma rights_Some: "rights sp k = Some en \<longleftrightarrow> is_entries sp k = Some en \<and> IE_BITS_TYPE (ie_bits en) \<noteq> 0"
  by (auto simp: rights_def split: option.splits)

lemma space_wfD:
  assumes "space_wf sp"
  shows "rdxtree_wf (is_map sp)" "rdxtree_wf (is_reverse_map sp)"
    "\<And>k en. is_entries sp k = Some en \<Longrightarrow> ie_name en = k \<and> k < 2 ^ 32 - 1"
    "is_entries sp 0 = Some zero_entry" "distinct (is_free_list sp)"
    "\<And>k. k \<in> set (is_free_list sp) \<Longrightarrow> k \<noteq> 0 \<and>
       (\<exists>en. is_entries sp k = Some en \<and> ie_bits en = 0 \<and> ie_object en = IO_NULL)"
    "unat (is_free_list_size sp) = length (is_free_list sp)" "length (is_free_list sp) \<le> 64"
    "unat (is_size sp) + length (is_free_list sp) = card (dom (is_entries sp))"
  using assms unfolding space_wf_def by blast+

lemma IE_BITS_TYPE_0 [simp]: "IE_BITS_TYPE 0 = 0"
  by (simp add: IE_BITS_TYPE_def)

lemma set_entry_ex:
  assumes "rdxtree_wf (is_map sp)" "is_entries sp e \<noteq> None"
  shows "\<exists>t. set_entry sp e en = Some (sp\<lparr>is_map := t\<rparr>) \<and> rdxtree_wf t \<and>
             rdxtree_lookup t = (is_entries sp)(e \<mapsto> en)"
  using rdx.rep_law [OF assms, of en] by (auto simp: set_entry_def)

lemma set_entry_cases:
  assumes "rdxtree_wf (is_map sp)" "set_entry sp e en = Some sp'"
  obtains t where "sp' = sp\<lparr>is_map := t\<rparr>" "rdxtree_wf t"
    "rdxtree_lookup t = (is_entries sp)(e \<mapsto> en)" "is_entries sp e \<noteq> None"
proof -
  have "is_entries sp e \<noteq> None" using assms(2) rdx.rep_none by (fastforce simp: set_entry_def)
  with set_entry_ex [OF assms(1) this, of en] assms(2) that show thesis by auto
qed

lemma entries_card_bound:
  assumes "space_wf sp"
  shows "card (dom (is_entries sp)) < 2 ^ 32"
proof -
  have "dom (is_entries sp) \<subseteq> {..< 2 ^ 32 - 1}" using space_wfD(3) [OF assms] by auto
  then have "card (dom (is_entries sp)) \<le> card {..< (2::nat) ^ 32 - 1}" by (intro card_mono) auto
  then show ?thesis by simp
qed

lemma set_entry_wf:
  assumes wf: "space_wf sp" and e: "is_entries sp e \<noteq> None" "ie_name en = e" "e \<noteq> 0"
    and fl: "e \<in> set (is_free_list sp) \<Longrightarrow> ie_bits en = 0 \<and> ie_object en = IO_NULL"
  shows "\<exists>t. set_entry sp e en = Some (sp\<lparr>is_map := t\<rparr>) \<and> space_wf (sp\<lparr>is_map := t\<rparr>) \<and>
             rdxtree_lookup t = (is_entries sp)(e \<mapsto> en)"
proof -
  obtain t where t: "set_entry sp e en = Some (sp\<lparr>is_map := t\<rparr>)" "rdxtree_wf t"
    "rdxtree_lookup t = (is_entries sp)(e \<mapsto> en)"
    using set_entry_ex [OF space_wfD(1) [OF wf] e(1)] by blast
  have "dom (rdxtree_lookup t) = dom (is_entries sp)" using t(3) e(1) by auto
  then have "space_wf (sp\<lparr>is_map := t\<rparr>)"
    using wf t e fl unfolding space_wf_def by auto
  with t show ?thesis by blast
qed

lemma rights_upd:
  assumes "rdxtree_lookup t = (is_entries sp)(e \<mapsto> en)"
  shows "rights (sp\<lparr>is_map := t\<rparr>) =
    (rights sp)(e := if IE_BITS_TYPE (ie_bits en) = 0 then None else Some en)"
  using assms by (auto simp: rights_def fun_eq_iff)

lemma rights_zero:
  assumes "space_wf sp"
  shows "rights sp 0 = None"
  using space_wfD(4) [OF assms] by (simp add: rights_def zero_entry_def)

lemma rights_free:
  assumes "space_wf sp" "k \<in> set (is_free_list sp)"
  shows "rights sp k = None"
  using space_wfD(6) [OF assms] by (auto simp: rights_def)

subsection \<open>Operations\<close>

text \<open>What a successful allocation of entry \<open>e\<close> does to a space.\<close>

definition entry_allocated :: "ipc_space \<Rightarrow> nat \<Rightarrow> ipc_space \<Rightarrow> bool" where
  "entry_allocated sp e sp' =
     (space_wf sp' \<and> is_active sp' \<and> e \<noteq> 0 \<and> e < 2 ^ 32 - 1 \<and> rights sp e = None \<and>
      is_entries sp' e = Some (new_entry e) \<and> e \<notin> set (is_free_list sp') \<and>
      (\<forall>k. k \<noteq> e \<longrightarrow> is_entries sp' k = is_entries sp k) \<and>
      set (is_free_list sp) \<subseteq> insert e (set (is_free_list sp')) \<and>
      set (is_free_list sp') \<subseteq> set (is_free_list sp) \<and>
      is_reverse_map sp' = is_reverse_map sp \<and> is_references sp' = is_references sp)"

lemma ipc_entry_get_ok:
  assumes wf: "space_wf sp" and act: "is_active sp"
  shows "is_free_list sp = [] \<and> ipc_entry_get sp = Some (KERN_NO_SPACE, 0, 0, sp) \<or>
    (\<exists>e sp'. ipc_entry_get sp = Some (KERN_SUCCESS, e, e, sp') \<and> entry_allocated sp e sp')"
proof (cases "is_free_list sp")
  case Nil
  then show ?thesis by (simp add: ipc_entry_get_def act)
next
  case (Cons e rest)
  obtain en where en: "is_entries sp e = Some en" "ie_bits en = 0" "ie_object en = IO_NULL" "e \<noteq> 0"
    using space_wfD(6) [OF wf, of e] Cons by auto
  have nm: "ie_name en = e" "e < 2 ^ 32 - 1" using space_wfD(3) [OF wf en(1)] by auto
  let ?en = "en\<lparr>ie_request := 0\<rparr>"
  have new: "?en = new_entry e" using en nm by (cases en) (simp add: new_entry_def)
  let ?sp = "sp\<lparr>is_free_list := rest, is_free_list_size := is_free_list_size sp - 1\<rparr>"
  have "\<exists>t. set_entry ?sp e ?en = Some (?sp\<lparr>is_map := t\<rparr>) \<and> rdxtree_wf t \<and>
      rdxtree_lookup t = (is_entries sp)(e \<mapsto> ?en)"
    using set_entry_ex [of ?sp e ?en] space_wfD(1) [OF wf] en(1) by auto
  then obtain t where t: "set_entry ?sp e ?en = Some (?sp\<lparr>is_map := t\<rparr>)" "rdxtree_wf t"
    "rdxtree_lookup t = (is_entries sp)(e \<mapsto> ?en)" by blast
  let ?sp' = "?sp\<lparr>is_map := t, is_size := is_size sp + 1\<rparr>"
  have run: "ipc_entry_get sp = Some (KERN_SUCCESS, e, e, ?sp')"
    using t(1) en nm act by (simp add: ipc_entry_get_def Cons Let_def IE_BITS_GEN_MASK_def
        MACH_PORT_NAME_VALID_def MACH_PORT_NAME_NULL_def MACH_PORT_NAME_DEAD_def)
  have dom: "dom (rdxtree_lookup t) = dom (is_entries sp)" using t(3) en(1) by auto
  have fls: "unat (is_free_list_size sp - 1) = length rest"
    using space_wfD(7) [OF wf] Cons by (intro unat_pred) simp
  have size: "unat (is_size sp + 1) = Suc (unat (is_size sp))"
    using space_wfD(9) [OF wf] entries_card_bound [OF wf] by (intro unat_succ) simp
  have "space_wf ?sp'"
    using space_wfD [OF wf] t dom fls size Cons en nm unfolding space_wf_def by auto
  then have "entry_allocated sp e ?sp'"
    unfolding entry_allocated_def using t en nm new act Cons space_wfD(5) [OF wf]
    by (auto simp: rights_def)
  with run show ?thesis by blast
qed

text \<open>A failed allocation may change the shape of the tree but nothing else.\<close>

definition same_space :: "ipc_space \<Rightarrow> ipc_space \<Rightarrow> bool" where
  "same_space sp sp' =
     (\<exists>t. sp' = sp\<lparr>is_map := t\<rparr> \<and> rdxtree_wf t \<and> rdxtree_lookup t = is_entries sp)"

lemma same_space_wf: "space_wf sp \<Longrightarrow> same_space sp sp' \<Longrightarrow> space_wf sp' \<and> rights sp' = rights sp"
  unfolding same_space_def space_wf_def by (auto simp: rights_def [abs_def])

lemma same_space_refl: "space_wf sp \<Longrightarrow> same_space sp sp"
  unfolding same_space_def using space_wfD(1) by (intro exI [of _ "is_map sp"]) auto

lemma entry_inserted:
  assumes wf: "space_wf sp" and act: "is_active sp" and e: "e < 2 ^ 32 - 1"
    and t: "rdxtree_wf t" "is_entries sp e = None" "rdxtree_lookup t = (is_entries sp)(e \<mapsto> new_entry e)"
  shows "entry_allocated sp e (sp\<lparr>is_map := t, is_size := is_size sp + 1\<rparr>)"
proof -
  have e0: "e \<noteq> 0" using t(2) space_wfD(4) [OF wf] by (metis option.distinct(1))
  have fl: "e \<notin> set (is_free_list sp)" using t(2) space_wfD(6) [OF wf, of e] by auto
  have size: "unat (is_size sp + 1) = Suc (unat (is_size sp))"
    using space_wfD(9) [OF wf] entries_card_bound [OF wf] by (intro unat_succ) simp
  have "finite (dom (is_entries sp))" using rdx.look_finite space_wfD(1) [OF wf] by blast
  then have card: "card (dom (rdxtree_lookup t)) = Suc (card (dom (is_entries sp)))"
    using t(2,3) by (simp add: domIff)
  have "space_wf (sp\<lparr>is_map := t, is_size := is_size sp + 1\<rparr>)"
    unfolding space_wf_def
    using space_wfD [OF wf] t e e0 fl size card by (auto simp: new_entry_def)
  with t e0 e fl act show ?thesis by (auto simp: entry_allocated_def rights_def)
qed

lemma kmem_cache_alloc_cases:
  obtains m' where "kmem_cache_alloc m = (True, m')" "set m' \<subseteq> set m"
  | m' where "kmem_cache_alloc m = (False, m')" "set m' \<subseteq> set m" "False \<in> set m"
proof (cases m)
  case Nil
  then show thesis using that(1) by (simp add: kmem_cache_alloc_def)
next
  case (Cons b m')
  then show thesis using that by (cases b) (auto simp: kmem_cache_alloc_def)
qed

lemma ipc_entry_alloc_ok:
  assumes wf: "space_wf sp" and act: "is_active sp" and h: "rt_height (is_map sp) \<le> 10"
  shows "\<exists>kr name e sp' m'. ipc_entry_alloc sp m = Some (kr, name, e, sp', m') \<and> set m' \<subseteq> set m \<and>
    (kr = KERN_SUCCESS \<and> name = e mod 2 ^ 32 \<and> (e < 2 ^ 32 - 1 \<longrightarrow> entry_allocated sp e sp') \<and>
       (is_free_list sp = [] \<longrightarrow> e \<le> 64 ^ rt_height (is_map sp)) \<and>
       (is_free_list sp \<noteq> [] \<longrightarrow> e < 2 ^ 32 - 1) \<or>
     kr = KERN_RESOURCE_SHORTAGE \<and> False \<in> set m \<and> same_space sp sp')"
  using ipc_entry_get_ok [OF wf act]
proof (elim disjE exE conjE)
  fix e sp'
  assume "ipc_entry_get sp = Some (KERN_SUCCESS, e, e, sp')" "entry_allocated sp e sp'"
  then show ?thesis
    using act by (auto simp: ipc_entry_alloc_def entry_allocated_def ipc_entry_get_def)
next
  assume fl: "is_free_list sp = []" and get: "ipc_entry_get sp = Some (KERN_NO_SPACE, 0, 0, sp)"
  show ?thesis
  proof (cases rule: kmem_cache_alloc_cases [of m])
    case (1 m1)
    let ?al = "rdxtree_insert_alloc (is_map sp) (new_entry 0) m1"
    obtain err key t m' where al: "?al = Some (err, key, t, m')"
      using rdxa.al_total [OF space_wfD(1) [OF wf] h] by fast
    show ?thesis
    proof (cases "err = KERN_SUCCESS")
      case True
      note S = rdxa.al_success [OF space_wfD(1) [OF wf] h al [unfolded True]]
      let ?sp = "sp\<lparr>is_map := t, is_size := is_size sp + 1\<rparr>"
      obtain t' where t': "set_entry ?sp key (new_entry (key mod 2 ^ 32)) = Some (?sp\<lparr>is_map := t'\<rparr>)"
        "rdxtree_wf t'" "rdxtree_lookup t' = (is_entries sp)(key \<mapsto> new_entry (key mod 2 ^ 32))"
        using set_entry_ex [of ?sp key "new_entry (key mod 2 ^ 32)"] S by auto
      have "key < 2 ^ 32 - 1 \<longrightarrow> entry_allocated sp key (?sp\<lparr>is_map := t'\<rparr>)"
      proof
        assume key: "key < 2 ^ 32 - 1"
        have eq: "?sp\<lparr>is_map := t'\<rparr> = sp\<lparr>is_map := t', is_size := is_size sp + 1\<rparr>" by simp
        show "entry_allocated sp key (?sp\<lparr>is_map := t'\<rparr>)"
          unfolding eq by (rule entry_inserted [OF wf act key t'(2) S(2)]) (use t'(3) key in simp)
      qed
      then show ?thesis
        using act get 1 al True t' S fl by (auto simp: ipc_entry_alloc_def)
    next
      case False
      note F = rdxa.al_failure [OF space_wfD(1) [OF wf] h al False]
      then have "same_space sp (sp\<lparr>is_map := t\<rparr>)" by (auto simp: same_space_def)
      then show ?thesis using act get 1 al False F by (auto simp: ipc_entry_alloc_def)
    qed
  next
    case (2 m1)
    then show ?thesis using act get same_space_refl [OF wf] by (auto simp: ipc_entry_alloc_def)
  qed
qed

lemma free_list_rip_ok:
  "e \<in> set es \<Longrightarrow> distinct es \<Longrightarrow>
   \<exists>es'. free_list_rip e es = Some es' \<and> distinct es' \<and> set es' = set es - {e} \<and>
     Suc (length es') = length es"
  by (induction es) auto

lemma ipc_entry_alloc_name_ok:
  assumes wf: "space_wf sp" and act: "is_active sp" and name: "name \<noteq> 0" "name < 2 ^ 32 - 1"
    and clean: "\<And>en. is_entries sp name = Some en \<Longrightarrow> IE_BITS_TYPE (ie_bits en) = 0 \<Longrightarrow>
                  name \<in> set (is_free_list sp)"
  shows "\<exists>kr e sp' m'. ipc_entry_alloc_name sp name m = Some (kr, e, sp', m') \<and> set m' \<subseteq> set m \<and>
    (kr = KERN_SUCCESS \<and> e = name \<and>
       (if rights sp name = None then entry_allocated sp name sp' else sp' = sp) \<or>
     kr = KERN_RESOURCE_SHORTAGE \<and> rights sp name = None \<and> False \<in> set m \<and> same_space sp sp')"
proof (cases "is_entries sp name")
  case None
  then have r: "rights sp name = None" by (simp add: rights_def)
  have valid: "MACH_PORT_NAME_VALID name"
    using name by (simp add: MACH_PORT_NAME_VALID_def MACH_PORT_NAME_NULL_def MACH_PORT_NAME_DEAD_def)
  show ?thesis
  proof (cases rule: kmem_cache_alloc_cases [of m])
    case (1 m1)
    have n64: "name < 2 ^ 64" using name by simp
    obtain err t m' where ins: "rdxtree_insert (is_map sp) name (new_entry name) m1 = Some (err, t, m')"
      using rdx.ins_total [OF space_wfD(1) [OF wf] n64] by fast
    show ?thesis
    proof (cases "err = KERN_SUCCESS")
      case True
      note S = rdx.ins_success [OF space_wfD(1) [OF wf] n64 ins [unfolded True]]
      have "entry_allocated sp name (sp\<lparr>is_map := t, is_size := is_size sp + 1\<rparr>)"
        by (rule entry_inserted [OF wf act name(2)]) (use S in auto)
      then show ?thesis
        using None valid act 1 ins True S r by (auto simp: ipc_entry_alloc_name_def)
    next
      case False
      note F = rdx.ins_failure [OF space_wfD(1) [OF wf] n64 ins False]
      then have "same_space sp (sp\<lparr>is_map := t\<rparr>)" by (auto simp: same_space_def)
      then show ?thesis using None valid act 1 ins False F r by (auto simp: ipc_entry_alloc_name_def)
    qed
  next
    case (2 m1)
    then show ?thesis
      using None valid act same_space_refl [OF wf] r by (auto simp: ipc_entry_alloc_name_def)
  qed
next
  case (Some en)
  have valid: "MACH_PORT_NAME_VALID name"
    using name by (simp add: MACH_PORT_NAME_VALID_def MACH_PORT_NAME_NULL_def MACH_PORT_NAME_DEAD_def)
  have nm: "ie_name en = name" using space_wfD(3) [OF wf Some] by simp
  show ?thesis
  proof (cases "IE_BITS_TYPE (ie_bits en) = 0")
    case False
    then have "rights sp name = Some en" using Some by (simp add: rights_def)
    with False Some valid act show ?thesis by (auto simp: ipc_entry_alloc_name_def)
  next
    case True
    then have fl: "name \<in> set (is_free_list sp)" using clean Some by blast
    have r: "rights sp name = None" using True Some by (simp add: rights_def)
    from space_wfD(6) [OF wf fl] Some have en: "ie_bits en = 0" "ie_object en = IO_NULL" by auto
    obtain es' where es': "free_list_rip name (is_free_list sp) = Some es'" "distinct es'"
      "set es' = set (is_free_list sp) - {name}" "Suc (length es') = length (is_free_list sp)"
      using free_list_rip_ok [OF fl space_wfD(5) [OF wf]] by blast
    let ?en = "en\<lparr>ie_bits := 0, ie_request := 0\<rparr>"
    have new: "?en = new_entry name" using en nm by (cases en) (simp add: new_entry_def)
    let ?sp = "sp\<lparr>is_free_list := es', is_free_list_size := is_free_list_size sp - 1\<rparr>"
    obtain t where t: "set_entry ?sp name ?en = Some (?sp\<lparr>is_map := t\<rparr>)" "rdxtree_wf t"
      "rdxtree_lookup t = (is_entries sp)(name \<mapsto> ?en)"
      using set_entry_ex [of ?sp name ?en] space_wfD(1) [OF wf] Some by auto
    let ?sp' = "?sp\<lparr>is_map := t, is_size := is_size sp + 1\<rparr>"
    have run: "ipc_entry_alloc_name sp name m = Some (KERN_SUCCESS, name, ?sp', m)"
      using t(1) en nm act valid Some True es'(1) by (simp add: ipc_entry_alloc_name_def Let_def)
    have dom: "dom (rdxtree_lookup t) = dom (is_entries sp)" using t(3) Some by auto
    have fls: "unat (is_free_list_size sp - 1) = length es'"
      using space_wfD(7) [OF wf] es'(4) by (intro unat_pred) simp
    have size: "unat (is_size sp + 1) = Suc (unat (is_size sp))"
      using space_wfD(9) [OF wf] entries_card_bound [OF wf] by (intro unat_succ) simp
    have "space_wf ?sp'"
      using space_wfD [OF wf] t dom fls size es' name nm unfolding space_wf_def by auto
    then have "entry_allocated sp name ?sp'"
      unfolding entry_allocated_def using t nm new act es' name r by auto
    with run r show ?thesis by auto
  qed
qed

lemma ipc_entry_dealloc_ok:
  assumes wf: "space_wf sp" and act: "is_active sp" and e: "is_entries sp e = Some en"
    and en: "ie_object en = IO_NULL" "ie_request en = 0" "e \<noteq> 0" "e \<notin> set (is_free_list sp)"
  shows "\<exists>sp'. ipc_entry_dealloc sp e e = Some sp' \<and> space_wf sp' \<and> is_active sp' \<and>
     (\<forall>k. k \<noteq> e \<longrightarrow> is_entries sp' k = is_entries sp k) \<and>
     (is_entries sp' e = None \<and> is_free_list sp' = is_free_list sp \<or>
      is_entries sp' e = Some (en\<lparr>ie_bits := 0\<rparr>) \<and> is_free_list sp' = e # is_free_list sp) \<and>
     is_reverse_map sp' = is_reverse_map sp \<and> is_references sp' = is_references sp"
proof -
  have nm: "ie_name en = e" "e < 2 ^ 32 - 1" using space_wfD(3) [OF wf e] by simp_all
  have fin: "finite (dom (is_entries sp))" using rdx.look_finite space_wfD(1) [OF wf] by blast
  have sub: "insert e (set (is_free_list sp)) \<subseteq> dom (is_entries sp)"
    using e space_wfD(6) [OF wf] by auto
  have "Suc (length (is_free_list sp)) = card (insert e (set (is_free_list sp)))"
    using en(4) space_wfD(5) [OF wf] by (simp add: distinct_card)
  also have "\<dots> \<le> card (dom (is_entries sp))" by (rule card_mono [OF fin sub])
  finally obtain n where n: "unat (is_size sp) = Suc n"
    using space_wfD(9) [OF wf] by (cases "unat (is_size sp)") auto
  have size: "unat (is_size sp - 1) = n" using n by (rule unat_pred)
  show ?thesis
  proof (cases "is_free_list_size sp < IS_FREE_LIST_SIZE_LIMIT")
    case True
    let ?en = "en\<lparr>ie_bits := 0\<rparr>"
    obtain t where t: "set_entry sp e ?en = Some (sp\<lparr>is_map := t\<rparr>)" "rdxtree_wf t"
      "rdxtree_lookup t = (is_entries sp)(e \<mapsto> ?en)"
      using set_entry_ex [OF space_wfD(1) [OF wf], of e ?en] e by auto
    have lim: "length (is_free_list sp) < 64"
      using True space_wfD(7) [OF wf] by (simp add: IS_FREE_LIST_SIZE_LIMIT_def word_less_nat_alt)
    have fls: "unat (is_free_list_size sp + 1) = Suc (length (is_free_list sp))"
      using lim space_wfD(7) [OF wf] by (subst unat_succ) auto
    have dom: "dom (rdxtree_lookup t) = dom (is_entries sp)" using t(3) e by auto
    let ?sp' = "sp\<lparr>is_map := t, is_free_list_size := is_free_list_size sp + 1,
       is_free_list := e # is_free_list sp, is_size := is_size sp - 1\<rparr>"
    have "ipc_entry_dealloc sp e e = Some ?sp'"
      using e act en t(1) True by (simp add: ipc_entry_dealloc_def IE_BITS_GEN_MASK_def)
    moreover have "space_wf ?sp'"
      using space_wfD [OF wf] t dom fls size lim n en nm unfolding space_wf_def by auto
    ultimately show ?thesis using t(3) act by auto
  next
    case False
    obtain t where t: "rdxtree_remove (is_map sp) e = Some (Some en, t)" "rdxtree_wf t"
      "rdxtree_lookup t = (is_entries sp)(e := None)"
      using rdx.rem_law [OF space_wfD(1) [OF wf], of e] e by auto
    have card: "Suc (card (dom (rdxtree_lookup t))) = card (dom (is_entries sp))"
      using rdx.rem_card [OF space_wfD(1) [OF wf] t(1)] e by simp
    let ?sp' = "sp\<lparr>is_map := t, is_size := is_size sp - 1\<rparr>"
    have "ipc_entry_dealloc sp e e = Some ?sp'"
      using e act en t(1) False by (simp add: ipc_entry_dealloc_def)
    moreover have "space_wf ?sp'"
      using space_wfD [OF wf] t card size n en unfolding space_wf_def by auto
    ultimately show ?thesis using t(3) act by auto
  qed
qed

lemma entry_allocated_rights:
  assumes "entry_allocated sp e sp'"
  shows "rights sp' = rights sp"
proof
  fix k
  show "rights sp' k = rights sp k"
    using assms by (cases "k = e") (auto simp: entry_allocated_def rights_def new_entry_def)
qed

lemma ipc_entry_dealloc_rights:
  assumes "space_wf sp" "is_active sp" "is_entries sp e = Some en"
    "ie_object en = IO_NULL" "ie_request en = 0" "e \<noteq> 0" "e \<notin> set (is_free_list sp)"
  shows "\<exists>sp'. ipc_entry_dealloc sp e e = Some sp' \<and> space_wf sp' \<and> is_active sp' \<and>
     rights sp' = (rights sp)(e := None) \<and>
     is_reverse_map sp' = is_reverse_map sp \<and> is_references sp' = is_references sp"
proof -
  obtain sp' where sp': "ipc_entry_dealloc sp e e = Some sp'" "space_wf sp'" "is_active sp'"
    "\<forall>k. k \<noteq> e \<longrightarrow> is_entries sp' k = is_entries sp k"
    "is_entries sp' e = None \<or> is_entries sp' e = Some (en\<lparr>ie_bits := 0\<rparr>)"
    "is_reverse_map sp' = is_reverse_map sp" "is_references sp' = is_references sp"
    using ipc_entry_dealloc_ok [OF assms] by blast
  moreover have "rights sp' = (rights sp)(e := None)"
    using sp'(4,5) by (auto simp: rights_def fun_eq_iff)
  ultimately show ?thesis by blast
qed

text \<open>A space as it is created: only the reserved entry is there.\<close>

definition space_new :: ipc_space where
  "space_new = \<lparr>is_references = 2, is_active = True, is_map = \<lparr>rt_height = 0, rt_root = Ptr zero_entry\<rparr>,
     is_size = 1, is_reverse_map = rdxtree_init, is_free_list = [], is_free_list_size = 0\<rparr>"

lemma space_new_ok [simp]:
  "space_wf space_new" "rights space_new = Map.empty" "reverse space_new = Map.empty"
  "is_active space_new" "is_references space_new = 2" "is_free_list space_new = []"
  "is_entries space_new = [0 \<mapsto> zero_entry]" "rt_height (is_map space_new) = 0"
proof -
  show l: "is_entries space_new = [0 \<mapsto> zero_entry]"
    by (auto simp: space_new_def rdxtree_lookup_def max_key_small)
  show "space_wf space_new"
  proof -
    have "rdxtree_wf (is_map space_new)" by (simp add: space_new_def rdxtree_wf_def)
    moreover have "is_reverse_map space_new = rdxtree_init" by (simp add: space_new_def)
    ultimately show ?thesis
      unfolding space_wf_def l by (auto simp: space_new_def zero_entry_def split: if_splits)
  qed
  show "rights space_new = Map.empty" using l by (auto simp: rights_def fun_eq_iff zero_entry_def)
qed (simp_all add: space_new_def)

lemma ipc_space_create_ok:
  "\<exists>kr s st'. ipc_space_create st = Some (kr, s, st') \<and>
     (kr = KERN_SUCCESS \<and> s = k_next st \<and> k_spaces st' = (k_spaces st)(s \<mapsto> space_new) \<or>
      kr = KERN_RESOURCE_SHORTAGE \<and> False \<in> set (k_mem st) \<and> k_spaces st' = k_spaces st)"
proof (cases rule: kmem_cache_alloc_cases [of "k_mem st"])
  case (1 m')
  then show ?thesis
    by (auto simp: ipc_space_create_def k_alloc_def set_space_def Let_def space_new_def
        rdxtree_insert_def rdxtree_init_def)
next
  case (2 m')
  then show ?thesis by (auto simp: ipc_space_create_def k_alloc_def)
qed

section \<open>Properties\<close>



text \<open>
  C27: \<^verbatim>\<open>ipc_entry_alloc_name\<close> with a valid name finds the entry if the name denotes a right, and
  otherwise makes a blank entry with that name, taking it off the free list if it is
  there.  (An entry without a right is always on the free list between operations.)
\<close>

theorem ipc_entry_alloc_name_correct:
  assumes "space_wf sp" "is_active sp" "MACH_PORT_NAME_VALID name" "name < 2 ^ 32"
    and "\<And>en. is_entries sp name = Some en \<Longrightarrow> IE_BITS_TYPE (ie_bits en) = 0 \<Longrightarrow> name \<in> set (is_free_list sp)"
  shows "\<exists>kr e sp' m'. ipc_entry_alloc_name sp name m = Some (kr, e, sp', m') \<and>
    space_wf sp' \<and> rights sp' = rights sp \<and>
    (kr = KERN_SUCCESS \<and> e = name \<and> name \<notin> set (is_free_list sp') \<and>
       is_entries sp' name = Some (case rights sp name of Some en \<Rightarrow> en | None \<Rightarrow> new_entry name) \<or>
     kr = KERN_RESOURCE_SHORTAGE \<and> rights sp name = None \<and> False \<in> set m)"
proof -
  have n: "name \<noteq> 0" "name < 2 ^ 32 - 1"
    using assms(3,4) by (auto simp: MACH_PORT_NAME_VALID_def MACH_PORT_NAME_NULL_def MACH_PORT_NAME_DEAD_def)
  obtain kr e sp' m' where A: "ipc_entry_alloc_name sp name m = Some (kr, e, sp', m')"
    and B: "kr = KERN_SUCCESS \<and> e = name \<and> (if rights sp name = None then entry_allocated sp name sp' else sp' = sp) \<or>
     kr = KERN_RESOURCE_SHORTAGE \<and> rights sp name = None \<and> False \<in> set m \<and> same_space sp sp'"
    using ipc_entry_alloc_name_ok [OF assms(1,2) n, of m] assms(5) by blast
  show ?thesis
  proof (cases "rights sp name")
    case None
    with A B same_space_wf [OF assms(1), of sp'] entry_allocated_rights [of sp name sp'] show ?thesis
      by (auto simp: entry_allocated_def)
  next
    case (Some en)
    then have "name \<notin> set (is_free_list sp)" using rights_free [OF assms(1)] by auto
    moreover have "is_entries sp name = Some en" using Some by (simp add: rights_Some)
    ultimately show ?thesis using A B Some assms(1) by auto
  qed
qed

theorem ipc_entry_alloc_name_correct_witness:
  "\<exists>e sp' m'. ipc_entry_alloc_name space_new 5 [] = Some (KERN_SUCCESS, e, sp', m') \<and> e = 5 \<and>
     is_entries sp' 5 = Some (new_entry 5)"
  using ipc_entry_alloc_name_correct [of space_new 5 "[]"]
  by (auto simp: MACH_PORT_NAME_VALID_def MACH_PORT_NAME_NULL_def MACH_PORT_NAME_DEAD_def)

text \<open>
  C28: \<^verbatim>\<open>ipc_entry_dealloc\<close> takes exactly one name out of the space.  The entry goes to the free
  list, which never holds more than 64 entries, or out of the tree; either way the size
  of the space and the free list stay consistent.
\<close>

theorem ipc_entry_dealloc_correct:
  assumes "space_wf sp" "is_active sp" "rights sp name = Some en" "ie_object en = IO_NULL" "ie_request en = 0"
  shows "\<exists>sp'. ipc_entry_dealloc sp name name = Some sp' \<and> space_wf sp' \<and> is_active sp' \<and>
    rights sp' = (rights sp)(name := None) \<and> length (is_free_list sp') \<le> 64"
proof -
  have "is_entries sp name = Some en" "name \<noteq> 0" "name \<notin> set (is_free_list sp)"
    using assms(3) rights_zero [OF assms(1)] rights_free [OF assms(1), of name]
    by (metis rights_Some, metis option.distinct(1), metis option.distinct(1))
  with ipc_entry_dealloc_rights [OF assms(1,2) _ assms(4,5)] space_wfD(8) show ?thesis by blast
qed

text \<open>A space with a right: name 5 is a dead name.\<close>

lemma space_with_right:
  "\<exists>sp. space_wf sp \<and> is_active sp \<and>
     rights sp 5 = Some \<lparr>ie_name = 5, ie_bits = 0x100001, ie_object = IO_NULL, ie_request = 0\<rparr>"
proof -
  obtain sp where sp: "entry_allocated space_new 5 sp"
    using ipc_entry_alloc_name_ok [of space_new 5 "[]"] by auto
  let ?en = "\<lparr>ie_name = 5, ie_bits = 0x100001, ie_object = IO_NULL, ie_request = 0\<rparr>"
  obtain t where t: "space_wf (sp\<lparr>is_map := t\<rparr>)" "rdxtree_lookup t = (is_entries sp)(5 \<mapsto> ?en)"
    using set_entry_wf [of sp 5 ?en] sp by (auto simp: entry_allocated_def)
  moreover have "rights (sp\<lparr>is_map := t\<rparr>) 5 = Some ?en"
    using rights_upd [OF t(2)] by (simp add: IE_BITS_TYPE_def IE_BITS_TYPE_MASK_def)
  moreover have "is_active (sp\<lparr>is_map := t\<rparr>)" using sp by (simp add: entry_allocated_def)
  ultimately show ?thesis by blast
qed

theorem ipc_entry_dealloc_correct_witness:
  "\<exists>sp sp'. rights sp 5 \<noteq> None \<and> ipc_entry_dealloc sp 5 5 = Some sp' \<and> rights sp' 5 = None"
proof -
  let ?en = "\<lparr>ie_name = 5, ie_bits = 0x100001, ie_object = IO_NULL, ie_request = 0\<rparr>"
  obtain sp where "space_wf sp" "is_active sp" "rights sp 5 = Some ?en" using space_with_right by blast
  then show ?thesis using ipc_entry_dealloc_correct [of sp 5 ?en] by fastforce
qed

end
