(* ===== verification/Ipc_Port.thy ===== *)
theory Ipc_Port
  imports Ipc_Pset Ipc_Entry
begin

text \<open>
  Ports, \<^verbatim>\<open>ipc/ipc_port.c\<close> and \<^verbatim>\<open>ipc/ipc_port.h\<close>, without the operations that send notifications:
  timestamps, dead-name request tables (with the table sizes of \<^verbatim>\<open>ipc/ipc_table.c\<close>), the other
  requests, queue limits, the receiver, the check for circular messages, and the naked
  send and send-once rights.
\<close>

section \<open>Timestamps\<close>

definition ipc_port_timestamp :: "kernel \<Rightarrow> bits32 \<times> kernel" where
  "ipc_port_timestamp st = (k_timestamp st, st\<lparr>k_timestamp := k_timestamp st + 1\<rparr>)"

definition IP_TIMESTAMP_ORDER :: "bits32 \<Rightarrow> bits32 \<Rightarrow> bool" where
  "IP_TIMESTAMP_ORDER one two = (sint (one - two) < 0)"

section \<open>Table sizes\<close>

text \<open>
  \<^verbatim>\<open>ipc_table_fill\<close> as the two loops of the code: powers of two up to the page size, then
  increments of a page, then of two pages, and so on.  Each loop returns the sizes it
  stores; \<open>num\<close> is the number of places left.
\<close>

definition PAGE_SIZE :: nat where "PAGE_SIZE = 4096"

function table_fill_pow :: "nat \<Rightarrow> nat \<Rightarrow> nat \<Rightarrow> nat \<Rightarrow> nat list \<times> nat \<times> nat" where
  "table_fill_pow num minsize elemsize sz =
     (if 0 < num \<and> 0 < sz \<and> sz < PAGE_SIZE then
        (if sz \<ge> minsize then
           (let (its, num', sz') = table_fill_pow (num - 1) minsize elemsize (2 * sz)
            in ((sz div elemsize) # its, num', sz'))
         else table_fill_pow num minsize elemsize (2 * sz))
      else ([], num, sz))"
  by pat_completeness auto
termination
  by (relation "measure (\<lambda>(num, minsize, elemsize, sz). PAGE_SIZE - sz)") (auto simp: PAGE_SIZE_def)

declare table_fill_pow.simps [simp del]

fun table_fill_period ::
  "nat \<Rightarrow> nat \<Rightarrow> nat \<Rightarrow> nat \<Rightarrow> nat \<Rightarrow> nat \<Rightarrow> nat list \<times> nat \<times> nat" where
  "table_fill_period 0 num minsize elemsize incr sz = ([], num, sz)"
| "table_fill_period (Suc period) num minsize elemsize incr sz =
     (if 0 < num then
        (if sz \<ge> minsize then
           (let (its, num', sz') = table_fill_period period (num - 1) minsize elemsize incr (sz + incr)
            in ((sz div elemsize) # its, num', sz'))
         else table_fill_period period num minsize elemsize incr (sz + incr))
      else ([], num, sz))"

fun table_fill_incr :: "nat \<Rightarrow> nat \<Rightarrow> nat \<Rightarrow> nat \<Rightarrow> nat \<Rightarrow> nat \<Rightarrow> nat list" where
  "table_fill_incr 0 num minsize elemsize incr sz = []"
| "table_fill_incr (Suc fuel) num minsize elemsize incr sz =
     (if 0 < num then
        (let (its, num', sz') = table_fill_period 15 num minsize elemsize incr sz
         in its @ table_fill_incr fuel num' minsize elemsize
              (if incr < 8 * PAGE_SIZE then 2 * incr else incr) sz')
      else [])"

definition ipc_table_fill :: "nat \<Rightarrow> nat \<Rightarrow> nat \<Rightarrow> nat list" where
  "ipc_table_fill num mn elemsize =
     (let (its, num', sz) = table_fill_pow num (mn * elemsize) elemsize 1
      in its @ table_fill_incr num num' (mn * elemsize) elemsize PAGE_SIZE sz)"

text \<open>\<^verbatim>\<open>ipc_table_init\<close>: 63 sizes for elements of 16 bytes, and a last size of zero.\<close>

definition ipc_table_dnrequests :: "nat list" where
  "ipc_table_dnrequests = ipc_table_fill 63 2 16 @ [0]"

definition its_size :: "nat \<Rightarrow> nat" where
  "its_size its = (if its < length ipc_table_dnrequests then ipc_table_dnrequests ! its else 0)"

section \<open>Dead-name requests\<close>

fun ipr_next :: "ipc_port_request \<Rightarrow> nat option" where
  "ipr_next ipr = (case ipr_notify ipr of N_index i \<Rightarrow> Some i | N_port p \<Rightarrow> None)"

fun ipr_soright :: "ipc_port_request \<Rightarrow> port_id option" where
  "ipr_soright ipr = (case ipr_notify ipr of N_port p \<Rightarrow> Some p | N_index i \<Rightarrow> None)"

definition table_at :: "ipc_port_request list \<Rightarrow> nat \<Rightarrow> ipc_port_request option" where
  "table_at table i = (if i < length table then Some (table ! i) else None)"

definition ipc_port_dnrequest ::
  "ipc_port \<Rightarrow> mach_port_name \<Rightarrow> port_id \<Rightarrow> (kern_return \<times> nat \<times> ipc_port) option" where
  "ipc_port_dnrequest port name soright =
     do { kassert (ip_active port);
          kassert (name \<noteq> MACH_PORT_NAME_NULL);
          case ip_dnrequests port of
            None \<Rightarrow> Some (KERN_NO_SPACE, 0, port)
          | Some table \<Rightarrow>
              do { header \<leftarrow> table_at table 0;
                   index \<leftarrow> ipr_next header;
                   if index = 0 then Some (KERN_NO_SPACE, 0, port)
                   else do {
                     ipr \<leftarrow> table_at table index;
                     kassert (ipr_name ipr = MACH_PORT_NAME_NULL);
                     next \<leftarrow> ipr_next ipr;
                     let table = table[0 := header\<lparr>ipr_notify := N_index next\<rparr>];
                     let table = table[index := \<lparr>ipr_notify = N_port soright, ipr_name = name\<rparr>];
                     Some (KERN_SUCCESS, index, port\<lparr>ip_dnrequests := Some table\<rparr>) } } }"

text \<open>The loop that puts the new slots on the free list.\<close>

fun dngrow_loop :: "nat \<Rightarrow> nat \<Rightarrow> nat \<Rightarrow> ipc_port_request list \<Rightarrow> ipc_port_request list \<times> nat" where
  "dngrow_loop 0 i free ntable = (ntable, free)"
| "dngrow_loop (Suc n) i free ntable =
     dngrow_loop n (i + 1) i (ntable[i := \<lparr>ipr_notify = N_index free, ipr_name = MACH_PORT_NAME_NULL\<rparr>])"

text \<open>
  \<^verbatim>\<open>ipc_port_dngrow\<close> drops the port lock to allocate; in an execution without interleaving
  the port is unchanged when it takes the lock again, and the new table is installed.
\<close>

definition ipc_port_dngrow :: "port_id \<Rightarrow> kernel \<Rightarrow> (kern_return \<times> kernel) option" where
  "ipc_port_dngrow p st =
     do { port \<leftarrow> k_ports st p;
          kassert (ip_active port);
          let otable = ip_dnrequests port;
          its \<leftarrow> (case otable of
                    None \<Rightarrow> Some 0
                  | Some table \<Rightarrow> do { header \<leftarrow> table_at table 0; Some (ipr_name header + 1) });
          st \<leftarrow> ip_reference p st;
          let (ok, st) = (if its_size its = 0 then (False, st) else k_alloc st);
          if \<not> ok then do { st \<leftarrow> ipc_port_release p st; Some (KERN_RESOURCE_SHORTAGE, st) }
          else do {
            st \<leftarrow> ip_release p st;
            port \<leftarrow> k_ports st p;
            (osize, free, slots) \<leftarrow>
              (case otable of
                 None \<Rightarrow> Some (1, 0, [])
               | Some table \<Rightarrow>
                   do { header \<leftarrow> table_at table 0;
                        free \<leftarrow> ipr_next header;
                        Some (its_size (ipr_name header), free, tl table) });
            let nsize = its_size its;
            kassert (nsize > osize);
            let garbage = \<lparr>ipr_notify = N_index 0, ipr_name = 0\<rparr>;
            let ntable = garbage # slots @ replicate (nsize - 1 - length slots) garbage;
            let (ntable, free) = dngrow_loop (nsize - osize) osize free ntable;
            let ntable = ntable[0 := \<lparr>ipr_notify = N_index free, ipr_name = its\<rparr>];
            Some (KERN_SUCCESS, set_port p (port\<lparr>ip_dnrequests := Some ntable\<rparr>) st) } }"

definition ipc_port_dncancel ::
  "ipc_port \<Rightarrow> mach_port_name \<Rightarrow> nat \<Rightarrow> (port_id \<times> ipc_port) option" where
  "ipc_port_dncancel port name index =
     do { kassert (ip_active port);
          kassert (name \<noteq> MACH_PORT_NAME_NULL);
          kassert (index \<noteq> 0);
          table \<leftarrow> ip_dnrequests port;
          ipr \<leftarrow> table_at table index;
          dnrequest \<leftarrow> ipr_soright ipr;
          kassert (ipr_name ipr = name);
          header \<leftarrow> table_at table 0;
          next \<leftarrow> ipr_next header;
          let table = table[index := \<lparr>ipr_notify = N_index next, ipr_name = MACH_PORT_NAME_NULL\<rparr>];
          let table = table[0 := header\<lparr>ipr_notify := N_index index\<rparr>];
          Some (dnrequest, port\<lparr>ip_dnrequests := Some table\<rparr>) }"

definition ipc_port_dnrename ::
  "ipc_port \<Rightarrow> nat \<Rightarrow> mach_port_name \<Rightarrow> mach_port_name \<Rightarrow> ipc_port option" where
  "ipc_port_dnrename port index oname nname =
     do { kassert (ip_active port);
          table \<leftarrow> ip_dnrequests port;
          ipr \<leftarrow> table_at table index;
          kassert (ipr_name ipr = oname);
          Some (port\<lparr>ip_dnrequests := Some (table[index := ipr\<lparr>ipr_name := nname\<rparr>])\<rparr>) }"

section \<open>Other attributes\<close>

definition ipc_port_pdrequest ::
  "port_id \<Rightarrow> port_id option \<Rightarrow> kernel \<Rightarrow> (port_id option \<times> kernel) option" where
  "ipc_port_pdrequest p notify st =
     do { port \<leftarrow> k_ports st p;
          kassert (ip_active port);
          Some (ip_pdrequest port, set_port p (port\<lparr>ip_pdrequest := notify\<rparr>) st) }"

definition ipc_port_set_qlimit :: "port_id \<Rightarrow> bits32 \<Rightarrow> kernel \<Rightarrow> kernel option" where
  "ipc_port_set_qlimit p qlimit st =
     do { port \<leftarrow> k_ports st p;
          kassert (ip_active port);
          let wakeup = (if qlimit > ip_qlimit port then unat (qlimit - ip_qlimit port) else 0);
          st \<leftarrow> wake_all MACH_MSG_SUCCESS (take wakeup (ip_blocked port)) st;
          Some (set_port p (port\<lparr>ip_blocked := drop wakeup (ip_blocked port), ip_qlimit := qlimit\<rparr>) st) }"

definition ipc_port_set_mscount :: "port_id \<Rightarrow> bits32 \<Rightarrow> kernel \<Rightarrow> kernel option" where
  "ipc_port_set_mscount p mscount st =
     do { port \<leftarrow> k_ports st p;
          kassert (ip_active port);
          Some (set_port p (port\<lparr>ip_mscount := mscount\<rparr>) st) }"

definition ipc_port_lock_mqueue :: "port_id \<Rightarrow> kernel \<Rightarrow> (mq \<times> kernel) option" where
  "ipc_port_lock_mqueue p st =
     do { port \<leftarrow> k_ports st p;
          case ip_pset port of
            None \<Rightarrow> Some (MQ_port p, st)
          | Some q \<Rightarrow>
              do { pset \<leftarrow> k_psets st q;
                   if ips_active pset then Some (MQ_pset q, st)
                   else do {
                     st \<leftarrow> ipc_pset_remove q p st;
                     st \<leftarrow> ips_check_unlock q st;
                     Some (MQ_port p, st) } } }"

definition ipc_port_set_seqno :: "port_id \<Rightarrow> bits32 \<Rightarrow> kernel \<Rightarrow> kernel option" where
  "ipc_port_set_seqno p seqno st =
     do { (mqueue, st) \<leftarrow> ipc_port_lock_mqueue p st;
          port \<leftarrow> k_ports st p;
          Some (set_port p (port\<lparr>ip_seqno := seqno\<rparr>) st) }"

definition ipc_port_flag_protected_payload_set :: "ipc_port \<Rightarrow> ipc_port" where
  "ipc_port_flag_protected_payload_set port = port\<lparr>ip_bits := ip_bits port OR IO_BITS_PROTECTED_PAYLOAD\<rparr>"

definition ipc_port_flag_protected_payload_clear :: "ipc_port \<Rightarrow> ipc_port" where
  "ipc_port_flag_protected_payload_clear port =
     port\<lparr>ip_bits := ip_bits port AND NOT IO_BITS_PROTECTED_PAYLOAD\<rparr>"

definition ipc_port_set_protected_payload :: "port_id \<Rightarrow> 64 word \<Rightarrow> kernel \<Rightarrow> kernel option" where
  "ipc_port_set_protected_payload p payload st =
     do { (mqueue, st) \<leftarrow> ipc_port_lock_mqueue p st;
          port \<leftarrow> k_ports st p;
          Some (set_port p
            (ipc_port_flag_protected_payload_set (port\<lparr>ip_protected_payload := payload\<rparr>)) st) }"

definition ipc_port_clear_protected_payload :: "port_id \<Rightarrow> kernel \<Rightarrow> kernel option" where
  "ipc_port_clear_protected_payload p st =
     do { (mqueue, st) \<leftarrow> ipc_port_lock_mqueue p st;
          port \<leftarrow> k_ports st p;
          Some (set_port p (ipc_port_flag_protected_payload_clear port) st) }"

definition ipc_port_clear_receiver :: "port_id \<Rightarrow> kernel \<Rightarrow> kernel option" where
  "ipc_port_clear_receiver p st =
     do { port \<leftarrow> k_ports st p;
          kassert (ip_active port);
          st \<leftarrow> (case ip_pset port of
                   Some q \<Rightarrow>
                     do { st \<leftarrow> ipc_pset_remove q p st; ips_check_unlock q st }
                 | None \<Rightarrow> ipc_mqueue_changed (MQ_port p) MACH_RCV_PORT_DIED st);
          st \<leftarrow> ipc_port_set_mscount p 0 st;
          port \<leftarrow> k_ports st p;
          Some (set_port p (port\<lparr>ip_seqno := 0\<rparr>) st) }"

definition ipc_port_init :: "ipc_port \<Rightarrow> space_id \<Rightarrow> mach_port_name \<Rightarrow> ipc_port" where
  "ipc_port_init port space name =
     (let port = port\<lparr>ip_receiver_name := name, ip_messages := ipc_mqueue_init,
            ip_data := D_receiver (Some space),
            ip_mscount := 0, ip_srights := 0, ip_sorights := 0,
            ip_nsrequest := None, ip_pdrequest := None, ip_dnrequests := None,
            ip_pset := None, ip_cur_target := T_port, ip_seqno := 0, ip_msgcount := 0,
            ip_qlimit := MACH_PORT_QLIMIT_DEFAULT\<rparr>;
          port = ipc_port_flag_protected_payload_clear port
      in port\<lparr>ip_protected_payload := 0, ip_messages := ipc_mqueue_init, ip_blocked := []\<rparr>)"

section \<open>Circular messages\<close>

text \<open>Reading \<^verbatim>\<open>ip_destination\<close> is meaningful after a write of that member, or of a null pointer.\<close>

fun ip_destination :: "ipc_port \<Rightarrow> port_id option option" where
  "ip_destination port =
     (case ip_data port of
        D_destination d \<Rightarrow> Some d
      | D_receiver None \<Rightarrow> Some None
      | _ \<Rightarrow> None)"

definition in_transit :: "ipc_port \<Rightarrow> bool option" where
  "in_transit port =
     (if \<not> ip_active port \<or> ip_receiver_name port \<noteq> MACH_PORT_NAME_NULL then Some False
      else do { d \<leftarrow> ip_destination port; Some (d \<noteq> None) })"

text \<open>The search for the end of a chain of ports in transit; on a circle it would not end.\<close>

partial_function (option) chain_base :: "kernel \<Rightarrow> port_id \<Rightarrow> port_id option" where
  "chain_base st base =
     do { port \<leftarrow> k_ports st base;
          transit \<leftarrow> in_transit port;
          if \<not> transit then Some base
          else do {
            d \<leftarrow> ip_destination port;
            next \<leftarrow> d;
            chain_base st next } }"

definition ipc_port_check_circularity ::
  "port_id \<Rightarrow> port_id \<Rightarrow> kernel \<Rightarrow> (bool \<times> kernel) option" where
  "ipc_port_check_circularity p dest st =
     (if p = dest then Some (True, st)
      else do {
        port \<leftarrow> k_ports st p;
        dport \<leftarrow> k_ports st dest;
        transit \<leftarrow> in_transit dport;
        base \<leftarrow> (if \<not> transit then Some dest else chain_base st dest);
        kassert (ip_active port);
        kassert (ip_receiver_name port = MACH_PORT_NAME_NULL);
        d \<leftarrow> ip_destination port;
        kassert (d = None);
        if p = base then Some (True, st)
        else do {
          st \<leftarrow> ip_reference dest st;
          port \<leftarrow> k_ports st p;
          Some (False, set_port p (port\<lparr>ip_data := D_destination (Some dest)\<rparr>) st) } })"

section \<open>Naked rights\<close>

definition ipc_port_lookup_notify ::
  "space_id \<Rightarrow> mach_port_name \<Rightarrow> kernel \<Rightarrow> (port_id option \<times> kernel) option" where
  "ipc_port_lookup_notify space name st =
     do { sp \<leftarrow> k_spaces st space;
          kassert (is_active sp);
          entry \<leftarrow> ipc_entry_lookup sp name;
          case entry of
            None \<Rightarrow> Some (None, st)
          | Some entry \<Rightarrow>
              if ie_bits entry AND MACH_PORT_TYPE_RECEIVE = 0 then Some (None, st)
              else do {
                p \<leftarrow> obj_port (ie_object entry);
                port \<leftarrow> k_ports st p;
                kassert (ip_active port);
                kassert (ip_receiver_name port = name);
                kassert (ip_data port = D_receiver (Some space));
                Some (Some p, set_port p
                  (port\<lparr>ip_references := ip_references port + 1,
                         ip_sorights := ip_sorights port + 1\<rparr>) st) } }"

definition ipc_port_make_send :: "port_id \<Rightarrow> kernel \<Rightarrow> kernel option" where
  "ipc_port_make_send p st =
     do { port \<leftarrow> k_ports st p;
          kassert (ip_active port);
          Some (set_port p
            (port\<lparr>ip_mscount := ip_mscount port + 1, ip_srights := ip_srights port + 1,
                  ip_references := ip_references port + 1\<rparr>) st) }"

definition ipc_port_copy_send :: "ipc_object \<Rightarrow> kernel \<Rightarrow> (ipc_object \<times> kernel) option" where
  "ipc_port_copy_send object st =
     (case object of
        IO_PORT p \<Rightarrow>
          do { port \<leftarrow> k_ports st p;
               if ip_active port then
                 do { kassert (ip_srights port > 0);
                      Some (object, set_port p
                        (port\<lparr>ip_references := ip_references port + 1,
                              ip_srights := ip_srights port + 1\<rparr>) st) }
               else Some (IO_DEAD, st) }
      | _ \<Rightarrow> Some (object, st))"

definition ipc_port_make_sonce :: "port_id \<Rightarrow> kernel \<Rightarrow> kernel option" where
  "ipc_port_make_sonce p st =
     do { port \<leftarrow> k_ports st p;
          kassert (ip_active port);
          Some (set_port p
            (port\<lparr>ip_sorights := ip_sorights port + 1,
                  ip_references := ip_references port + 1\<rparr>) st) }"

definition ipc_port_release_sonce :: "port_id \<Rightarrow> kernel \<Rightarrow> kernel option" where
  "ipc_port_release_sonce p st =
     do { port \<leftarrow> k_ports st p;
          kassert (ip_sorights port > 0);
          let st = set_port p (port\<lparr>ip_sorights := ip_sorights port - 1,
                     ip_references := ip_references port - 1\<rparr>) st;
          if \<not> ip_active port then ip_check_unlock p st else Some st }"

section \<open>The table sizes grow\<close>

text \<open>Sizes that a fill loop stores: strictly increasing, from \<open>lo\<close> up to below \<open>hi\<close>.\<close>

definition sizes_in :: "nat \<Rightarrow> nat \<Rightarrow> nat list \<Rightarrow> bool" where
  "sizes_in lo hi its = (sorted_wrt (<) its \<and> (\<forall>x \<in> set its. lo \<le> x \<and> x < hi))"

lemma sizes_in_Nil [simp]: "sizes_in lo hi []"
  by (simp add: sizes_in_def)

lemma sizes_in_Cons: "lo \<le> x \<Longrightarrow> x < lo' \<Longrightarrow> lo' \<le> hi \<Longrightarrow> sizes_in lo' hi its \<Longrightarrow> sizes_in lo hi (x # its)"
  by (fastforce simp: sizes_in_def)

lemma sizes_in_append:
  "sizes_in lo mid its \<Longrightarrow> sizes_in mid hi its' \<Longrightarrow> lo \<le> mid \<Longrightarrow> mid \<le> hi \<Longrightarrow> sizes_in lo hi (its @ its')"
  by (fastforce simp: sizes_in_def sorted_wrt_append)

lemma sizes_in_weaken: "sizes_in lo' hi its \<Longrightarrow> lo \<le> lo' \<Longrightarrow> sizes_in lo hi its"
  by (fastforce simp: sizes_in_def)

lemma div_double: "0 < e \<Longrightarrow> 0 < mn \<Longrightarrow> mn * e \<le> sz \<Longrightarrow> mn \<le> sz div e \<and> sz div e < 2 * sz div e" for e :: nat
proof -
  assume a: "0 < e" "0 < mn" "mn * e \<le> sz"
  then have m: "mn \<le> sz div e" by (simp add: less_eq_div_iff_mult_less_eq)
  have "2 * (sz div e) * e \<le> 2 * sz" by (simp add: mult.assoc)
  then have "2 * (sz div e) \<le> 2 * sz div e" using a(1) by (simp only: less_eq_div_iff_mult_less_eq)
  then show ?thesis using m a(2) by linarith
qed

lemma table_fill_pow_ok:
  assumes "0 < e" "0 < mn" "0 < sz"
  shows "case table_fill_pow num (mn * e) e sz of (its, num', sz') \<Rightarrow>
           length its + num' = num \<and> sz \<le> sz' \<and> (0 < num' \<longrightarrow> PAGE_SIZE \<le> sz') \<and>
           sizes_in (sz div e) (sz' div e) its \<and> (\<forall>x \<in> set its. mn \<le> x)"
  using assms(3)
proof (induction "PAGE_SIZE - sz" arbitrary: num sz rule: less_induct)
  case less
  show ?case
  proof (cases "0 < num \<and> sz < PAGE_SIZE")
    case False
    then show ?thesis by (auto simp: table_fill_pow.simps [of num "mn * e" e sz])
  next
    case True
    then have m: "PAGE_SIZE - 2 * sz < PAGE_SIZE - sz" using less.prems by linarith
    have le: "sz div e \<le> 2 * sz div e" by (simp add: div_le_mono)
    show ?thesis
    proof (cases "mn * e \<le> sz")
      case True': True
      obtain its num' sz' where r: "table_fill_pow (num - 1) (mn * e) e (2 * sz) = (its, num', sz')"
        by (metis prod_cases3)
      have "sizes_in (sz div e) (sz' div e) (sz div e # its)"
        if "sizes_in (2 * sz div e) (sz' div e) its" "2 * sz \<le> sz'"
        using that div_double [OF assms(1,2) True'] div_le_mono [OF that(2), of e]
        by (intro sizes_in_Cons [where lo' = "2 * sz div e"]) auto
      then show ?thesis
        using less.hyps [OF m, of "num - 1"] less.prems True True' r div_double [OF assms(1,2) True']
        by (auto simp: table_fill_pow.simps [of num "mn * e" e sz])
    next
      case False
      obtain its num' sz' where r: "table_fill_pow num (mn * e) e (2 * sz) = (its, num', sz')"
        by (metis prod_cases3)
      show ?thesis
        using less.hyps [OF m, of num] less.prems True False r sizes_in_weaken [OF _ le]
        by (auto simp: table_fill_pow.simps [of num "mn * e" e sz])
    qed
  qed
qed

lemma table_fill_period_ok:
  assumes "0 < e" "e \<le> incr" "ms \<le> sz"
  shows "case table_fill_period period num ms e incr sz of (its, num', sz') \<Rightarrow>
           length its = min period num \<and> num' = num - period \<and> sz \<le> sz' \<and>
           sizes_in (sz div e) (sz' div e) its"
  using assms(3)
proof (induction period arbitrary: num sz)
  case 0
  then show ?case by simp
next
  case (Suc period)
  obtain its num' sz' where r: "table_fill_period period (num - 1) ms e incr (sz + incr) = (its, num', sz')"
    by (metis prod_cases3)
  have "sz div e < (sz + incr) div e"
    using div_le_mono [of "sz + e" "sz + incr" e] assms(1,2) by (simp add: div_add_self2)
  then have "sizes_in (sz div e) (sz' div e) (sz div e # its)"
    if "sizes_in ((sz + incr) div e) (sz' div e) its" "sz + incr \<le> sz'"
    using that div_le_mono [OF that(2), of e] by (intro sizes_in_Cons [where lo' = "(sz + incr) div e"]) auto
  then show ?case using Suc.IH [of "sz + incr" "num - 1"] Suc.prems r by (auto simp: min_def)
qed

lemma table_fill_incr_ok:
  assumes "0 < e" "e \<le> incr" "ms \<le> sz" "num \<le> fuel"
  shows "length (table_fill_incr fuel num ms e incr sz) = num \<and>
         (\<exists>hi. sizes_in (sz div e) hi (table_fill_incr fuel num ms e incr sz) \<and> sz div e \<le> hi)"
  using assms(2-)
proof (induction fuel arbitrary: num incr sz)
  case 0
  then show ?case by auto
next
  case (Suc fuel)
  obtain its num' sz' where r: "table_fill_period 15 num ms e incr sz = (its, num', sz')"
    by (metis prod_cases3)
  show ?case
  proof (cases "0 < num")
    case False
    then show ?thesis by auto
  next
    case True
    define incr' where "incr' = (if incr < 8 * PAGE_SIZE then 2 * incr else incr)"
    have p: "length its = min 15 num" "num' = num - 15" "sz \<le> sz'" "sizes_in (sz div e) (sz' div e) its"
      using table_fill_period_ok [OF assms(1) Suc.prems(1,2), of 15 num] r by auto
    have le: "sz div e \<le> sz' div e" using p(3) by (rule div_le_mono)
    obtain hi where h: "length (table_fill_incr fuel num' ms e incr' sz') = num'"
      "sizes_in (sz' div e) hi (table_fill_incr fuel num' ms e incr' sz')" "sz' div e \<le> hi"
    proof -
      have "e \<le> incr'" "ms \<le> sz'" "num' \<le> fuel"
        using Suc.prems p(2,3) True by (auto simp: incr'_def)
      then show ?thesis using that Suc.IH [of incr' sz' num'] by blast
    qed
    have "table_fill_incr (Suc fuel) num ms e incr sz = its @ table_fill_incr fuel num' ms e incr' sz'"
      using True r by (simp add: incr'_def)
    moreover have "sizes_in (sz div e) hi (its @ table_fill_incr fuel num' ms e incr' sz')"
      using p(4) h(2,3) le by (intro sizes_in_append) auto
    moreover have "length its + num' = num" using p(1,2) by simp
    ultimately show ?thesis using h(1,3) le by (metis length_append le_trans)
  qed
qed

lemma ipc_table_fill_ok:
  assumes "0 < elemsize" "0 < mn" "mn * elemsize \<le> PAGE_SIZE"
  shows "length (ipc_table_fill num mn elemsize) = num"
    "sorted_wrt (<) (ipc_table_fill num mn elemsize)"
    "x \<in> set (ipc_table_fill num mn elemsize) \<Longrightarrow> mn \<le> x"
proof -
  obtain its num' sz where r: "table_fill_pow num (mn * elemsize) elemsize 1 = (its, num', sz)"
    by (metis prod_cases3)
  let ?inc = "table_fill_incr num num' (mn * elemsize) elemsize PAGE_SIZE sz"
  have p: "length its + num' = num" "0 < num' \<Longrightarrow> PAGE_SIZE \<le> sz"
    "sizes_in (1 div elemsize) (sz div elemsize) its" "\<forall>x \<in> set its. mn \<le> x"
    using table_fill_pow_ok [OF assms(1,2), of 1 num] r by auto
  have e: "ipc_table_fill num mn elemsize = its @ ?inc" using r by (simp add: ipc_table_fill_def)
  have "elemsize \<le> PAGE_SIZE" using assms(2,3) by (metis le_trans mult_le_mono1 nat_mult_1 One_nat_def Suc_leI)
  have i: "length ?inc = num' \<and> (\<exists>hi. sizes_in (sz div elemsize) hi ?inc)" "\<forall>x \<in> set ?inc. mn \<le> x"
  proof -
    show a: "length ?inc = num' \<and> (\<exists>hi. sizes_in (sz div elemsize) hi ?inc)"
    proof (cases "0 < num'")
      case False
      then show ?thesis by (cases num) (auto intro: exI [of _ 0])
    next
      case True
      then show ?thesis
        using table_fill_incr_ok [OF assms(1) \<open>elemsize \<le> PAGE_SIZE\<close>, of "mn * elemsize" sz num' num] p assms(3)
        by auto
    qed
    show "\<forall>x \<in> set ?inc. mn \<le> x"
    proof (cases "0 < num'")
      case False
      then show ?thesis using a by simp
    next
      case True
      then have "mn * elemsize \<le> sz" using p(2) assms(3) by linarith
      then have "mn \<le> sz div elemsize" using assms(1) by (simp add: less_eq_div_iff_mult_less_eq)
      then show ?thesis using a by (fastforce simp: sizes_in_def)
    qed
  qed
  show "length (ipc_table_fill num mn elemsize) = num" using e p(1) i(1) by simp
  show "sorted_wrt (<) (ipc_table_fill num mn elemsize)"
    using e p(3) i(1) by (fastforce simp: sizes_in_def sorted_wrt_append)
  show "x \<in> set (ipc_table_fill num mn elemsize) \<Longrightarrow> mn \<le> x" using e p(4) i(2) by auto
qed

lemma dnrequest_sizes:
  "length ipc_table_dnrequests = 64" "ipc_table_dnrequests ! 63 = 0"
  "i < j \<Longrightarrow> j < 63 \<Longrightarrow> ipc_table_dnrequests ! i < ipc_table_dnrequests ! j"
  "i < 63 \<Longrightarrow> 2 \<le> ipc_table_dnrequests ! i"
proof -
  have f: "length (ipc_table_fill 63 2 16) = 63" "sorted_wrt (<) (ipc_table_fill 63 2 16)"
    "x \<in> set (ipc_table_fill 63 2 16) \<Longrightarrow> 2 \<le> x" for x
    using ipc_table_fill_ok [of 16 2 63] ipc_table_fill_ok(3) [of 16 2 x 63] by (auto simp: PAGE_SIZE_def)
  show "length ipc_table_dnrequests = 64" "ipc_table_dnrequests ! 63 = 0"
    using f(1) by (simp_all add: ipc_table_dnrequests_def nth_append)
  show "ipc_table_dnrequests ! i < ipc_table_dnrequests ! j" if "i < j" "j < 63"
    using that f(1,2) by (simp add: ipc_table_dnrequests_def nth_append sorted_wrt_nth_less)
  show "2 \<le> ipc_table_dnrequests ! i" if "i < 63"
    using that f(1,3) by (simp add: ipc_table_dnrequests_def nth_append)
qed

lemma its_size_0: "its_size its = 0 \<longleftrightarrow> 63 \<le> its"
proof (cases "its < 63")
  case True
  then show ?thesis using dnrequest_sizes(4) [OF True] by (simp add: its_size_def dnrequest_sizes(1))
next
  case False
  then have "its = 63 \<or> 64 \<le> its" by linarith
  then show ?thesis using False dnrequest_sizes(1,2) by (auto simp: its_size_def)
qed

lemma its_size_ge_2: "its_size its \<noteq> 0 \<Longrightarrow> 2 \<le> its_size its"
  using its_size_0 [of its] dnrequest_sizes(1,4) by (auto simp: its_size_def)

lemma its_size_less: "its_size (its + 1) \<noteq> 0 \<Longrightarrow> its_size its < its_size (its + 1)"
  using its_size_0 [of "its + 1"] dnrequest_sizes(1) dnrequest_sizes(3) [of its "its + 1"]
  by (simp add: its_size_def)

section \<open>The invariant of a dead-name request table\<close>

text \<open>The free list of a table, followed from the index \<open>i\<close>.\<close>

fun dn_chain :: "ipc_port_request list \<Rightarrow> nat \<Rightarrow> nat list \<Rightarrow> bool" where
  "dn_chain table i [] = (i = 0)"
| "dn_chain table i (j # js) =
     (i = j \<and> j \<noteq> 0 \<and> j < length table \<and> ipr_name (table ! j) = MACH_PORT_NAME_NULL \<and>
      (\<exists>n. ipr_notify (table ! j) = N_index n \<and> dn_chain table n js))"

definition dn_slots :: "ipc_port_request list \<Rightarrow> nat list \<Rightarrow> bool" where
  "dn_slots table free =
     (\<forall>i. 0 < i \<longrightarrow> i < length table \<longrightarrow>
        (if i \<in> set free then ipr_name (table ! i) = MACH_PORT_NAME_NULL
         else ipr_name (table ! i) \<noteq> MACH_PORT_NAME_NULL \<and> (\<exists>p. ipr_notify (table ! i) = N_port p)))"

definition dn_wf :: "ipc_port_request list \<Rightarrow> bool" where
  "dn_wf table =
     (0 < length table \<and> length table = its_size (ipr_name (table ! 0)) \<and>
      (\<exists>n free. ipr_notify (table ! 0) = N_index n \<and> dn_chain table n free \<and> distinct free \<and>
         dn_slots table free))"

lemma dn_slotsD:
  "dn_slots table free \<Longrightarrow> 0 < i \<Longrightarrow> i < length table \<Longrightarrow>
   if i \<in> set free then ipr_name (table ! i) = MACH_PORT_NAME_NULL
   else ipr_name (table ! i) \<noteq> MACH_PORT_NAME_NULL \<and> (\<exists>p. ipr_notify (table ! i) = N_port p)"
  unfolding dn_slots_def by blast

lemma dn_wfE:
  assumes "dn_wf table"
  obtains n free where "0 < length table" "length table = its_size (ipr_name (table ! 0))"
    "ipr_notify (table ! 0) = N_index n" "dn_chain table n free" "distinct free" "dn_slots table free"
  using assms unfolding dn_wf_def by blast

definition dn_table_requests :: "ipc_port_request list \<Rightarrow> nat \<rightharpoonup> mach_port_name \<times> port_id" where
  "dn_table_requests table i =
     (if 0 < i \<and> i < length table \<and> ipr_name (table ! i) \<noteq> MACH_PORT_NAME_NULL
      then (case ipr_notify (table ! i) of N_port p \<Rightarrow> Some (ipr_name (table ! i), p) | N_index n \<Rightarrow> None)
      else None)"

text \<open>What the table of a port means: the requests registered at the port, by index.\<close>

definition dn_port_wf :: "ipc_port \<Rightarrow> bool" where
  "dn_port_wf port = (case ip_dnrequests port of None \<Rightarrow> True | Some table \<Rightarrow> dn_wf table)"

definition dn_requests :: "ipc_port \<Rightarrow> nat \<rightharpoonup> mach_port_name \<times> port_id" where
  "dn_requests port = (case ip_dnrequests port of None \<Rightarrow> Map.empty | Some table \<Rightarrow> dn_table_requests table)"

lemma dn_chain_upd: "i \<notin> set js \<Longrightarrow> dn_chain (table[i := x]) n js = dn_chain table n js"
  by (induction js arbitrary: n) auto

lemma dn_chain_nonzero: "dn_chain table n js \<Longrightarrow> 0 \<notin> set js"
  by (induction js arbitrary: n) auto

lemma dn_chain_cong:
  "dn_chain table n js \<Longrightarrow> length table \<le> length table' \<Longrightarrow> (\<And>j. j \<in> set js \<Longrightarrow> table' ! j = table ! j) \<Longrightarrow>
   dn_chain table' n js"
  by (induction js arbitrary: n) auto

lemma dn_chain_bound: "dn_chain table n js \<Longrightarrow> j \<in> set js \<Longrightarrow> j < length table"
  by (induction js arbitrary: n) auto

lemma ipc_port_dnrequest_ok:
  assumes "ip_active port" "name \<noteq> MACH_PORT_NAME_NULL" "dn_port_wf port"
  obtains index port' where "ipc_port_dnrequest port name soright = Some (KERN_SUCCESS, index, port')"
    "index \<noteq> 0" "dn_requests port index = None" "dn_port_wf port'"
    "dn_requests port' = (dn_requests port)(index \<mapsto> (name, soright))"
    "port' = port\<lparr>ip_dnrequests := ip_dnrequests port'\<rparr>"
  | "ipc_port_dnrequest port name soright = Some (KERN_NO_SPACE, 0, port)"
    "\<And>table i. ip_dnrequests port = Some table \<Longrightarrow> 0 < i \<Longrightarrow> i < length table \<Longrightarrow> dn_requests port i \<noteq> None"
proof (cases "ip_dnrequests port")
  case None
  then show ?thesis using assms that(2) by (simp add: ipc_port_dnrequest_def)
next
  case (Some table)
  then have "dn_wf table" using assms(3) by (simp add: dn_port_wf_def)
  then obtain n free where w: "0 < length table" "length table = its_size (ipr_name (table ! 0))"
    "ipr_notify (table ! 0) = N_index n" "dn_chain table n free" "distinct free" "dn_slots table free"
    by (rule dn_wfE)
  show ?thesis
  proof (cases free)
    case Nil
    then have "n = 0" using w(4) by simp
    then have 1: "ipc_port_dnrequest port name soright = Some (KERN_NO_SPACE, 0, port)"
      using w(1,3) Some assms(1,2) by (simp add: ipc_port_dnrequest_def table_at_def)
    have 2: "dn_requests port i \<noteq> None" if "0 < i" "i < length table" for i
      using that dn_slotsD [OF w(6) that] Nil Some by (auto simp: dn_requests_def dn_table_requests_def)
    show ?thesis using that(2) [OF 1] 2 Some by auto
  next
    case (Cons j js)
    then obtain n' where j: "n = j" "j \<noteq> 0" "j < length table" "ipr_name (table ! j) = MACH_PORT_NAME_NULL"
      "ipr_notify (table ! j) = N_index n'" "dn_chain table n' js" "j \<notin> set js" "distinct js"
      using w(4,5) by auto
    define table' where "table' = (table[0 := (table ! 0)\<lparr>ipr_notify := N_index n'\<rparr>])
      [j := \<lparr>ipr_notify = N_port soright, ipr_name = name\<rparr>]"
    have at: "table' ! i = (if i = j then \<lparr>ipr_notify = N_port soright, ipr_name = name\<rparr>
        else if i = 0 then (table ! 0)\<lparr>ipr_notify := N_index n'\<rparr> else table ! i)"
      if "i < length table" for i
      using that j(2) by (auto simp: table'_def nth_list_update)
    have len: "length table' = length table" by (simp add: table'_def)
    have c: "dn_chain table' n' js"
      using j(6,7) dn_chain_nonzero [OF j(6)] by (simp add: table'_def dn_chain_upd)
    have d: "dn_slots table' js"
      unfolding dn_slots_def
    proof (intro allI impI)
      fix i assume "0 < i" "i < length table'"
      then show "if i \<in> set js then ipr_name (table' ! i) = MACH_PORT_NAME_NULL
        else ipr_name (table' ! i) \<noteq> MACH_PORT_NAME_NULL \<and> (\<exists>p. ipr_notify (table' ! i) = N_port p)"
        using dn_slotsD [OF w(6), of i] at [of i] j(7) assms(2) len Cons by (auto split: if_splits)
    qed
    have wf: "dn_wf table'"
      unfolding dn_wf_def
      using w(1,2) at [of 0] j(2,8) len c d by (intro conjI exI [of _ n'] exI [of _ js]) auto
    have r: "dn_table_requests table' = (dn_table_requests table)(j \<mapsto> (name, soright))"
      using j(2,3) assms(2) at len by (auto simp: dn_table_requests_def fun_eq_iff split: ipr_notify.splits)
    have "ipc_port_dnrequest port name soright =
        Some (KERN_SUCCESS, j, port\<lparr>ip_dnrequests := Some table'\<rparr>)"
      using assms(1,2) Some w(1,3) j by (simp add: ipc_port_dnrequest_def table_at_def table'_def)
    then show ?thesis
      using that(1) [of j "port\<lparr>ip_dnrequests := Some table'\<rparr>"] j(2,4) wf r Some
      by (simp add: dn_requests_def dn_port_wf_def dn_table_requests_def)
  qed
qed


lemma ipc_port_dncancel_ok:
  assumes "ip_active port" "dn_port_wf port" "dn_requests port index = Some (name, soright)"
  obtains port' where "ipc_port_dncancel port name index = Some (soright, port')" "dn_port_wf port'"
    "dn_requests port' = (dn_requests port)(index := None)"
    "port' = port\<lparr>ip_dnrequests := ip_dnrequests port'\<rparr>"
proof -
  obtain table where t: "ip_dnrequests port = Some table" "dn_table_requests table index = Some (name, soright)"
    using assms(3) by (auto simp: dn_requests_def split: option.splits)
  then have i: "0 < index" "index < length table" "ipr_name (table ! index) = name"
    "ipr_notify (table ! index) = N_port soright" "name \<noteq> MACH_PORT_NAME_NULL"
    by (auto simp: dn_table_requests_def split: if_splits ipr_notify.splits)
  have "dn_wf table" using assms(2) t(1) by (simp add: dn_port_wf_def)
  then obtain n free where w: "0 < length table" "length table = its_size (ipr_name (table ! 0))"
    "ipr_notify (table ! 0) = N_index n" "dn_chain table n free" "distinct free" "dn_slots table free"
    by (rule dn_wfE)
  have nf: "index \<notin> set free" using dn_slotsD [OF w(6) i(1,2)] i(3,5) by (auto split: if_splits)
  define table' where "table' = (table[index := \<lparr>ipr_notify = N_index n, ipr_name = MACH_PORT_NAME_NULL\<rparr>])
      [0 := (table ! 0)\<lparr>ipr_notify := N_index index\<rparr>]"
  have len: "length table' = length table" by (simp add: table'_def)
  have at: "table' ! j = (if j = 0 then (table ! 0)\<lparr>ipr_notify := N_index index\<rparr>
      else if j = index then \<lparr>ipr_notify = N_index n, ipr_name = MACH_PORT_NAME_NULL\<rparr> else table ! j)"
    if "j < length table" for j
    using that i(1) by (auto simp: table'_def nth_list_update)
  have c: "dn_chain table' index (index # free)"
    using w(4) nf dn_chain_nonzero [OF w(4)] i(1,2) at len
    by (auto simp: table'_def dn_chain_upd)
  have d: "dn_slots table' (index # free)"
    unfolding dn_slots_def
  proof (intro allI impI)
    fix j assume "0 < j" "j < length table'"
    then show "if j \<in> set (index # free) then ipr_name (table' ! j) = MACH_PORT_NAME_NULL
      else ipr_name (table' ! j) \<noteq> MACH_PORT_NAME_NULL \<and> (\<exists>p. ipr_notify (table' ! j) = N_port p)"
      using dn_slotsD [OF w(6), of j] at [of j] len by (auto split: if_splits)
  qed
  have wf: "dn_wf table'"
    unfolding dn_wf_def
    using w(1,2,5) at [of 0] len c d nf by (intro conjI exI [of _ index] exI [of _ "index # free"]) auto
  have r: "dn_table_requests table' = (dn_table_requests table)(index := None)"
    using at len by (auto simp: dn_table_requests_def fun_eq_iff split: ipr_notify.splits)
  have "ipc_port_dncancel port name index = Some (soright, port\<lparr>ip_dnrequests := Some table'\<rparr>)"
    using assms(1) t(1) w(1,3) i by (simp add: ipc_port_dncancel_def table_at_def table'_def)
  then show ?thesis
    using that [of "port\<lparr>ip_dnrequests := Some table'\<rparr>"] wf r t(1)
    by (simp add: dn_requests_def dn_port_wf_def)
qed

lemma ipc_port_dnrename_ok:
  assumes "ip_active port" "dn_port_wf port" "dn_requests port index = Some (oname, soright)"
    "nname \<noteq> MACH_PORT_NAME_NULL"
  obtains port' where "ipc_port_dnrename port index oname nname = Some port'" "dn_port_wf port'"
    "dn_requests port' = (dn_requests port)(index \<mapsto> (nname, soright))"
    "port' = port\<lparr>ip_dnrequests := ip_dnrequests port'\<rparr>"
proof -
  obtain table where t: "ip_dnrequests port = Some table" "dn_table_requests table index = Some (oname, soright)"
    using assms(3) by (auto simp: dn_requests_def split: option.splits)
  then have i: "0 < index" "index < length table" "ipr_name (table ! index) = oname"
    "ipr_notify (table ! index) = N_port soright" "oname \<noteq> MACH_PORT_NAME_NULL"
    by (auto simp: dn_table_requests_def split: if_splits ipr_notify.splits)
  have "dn_wf table" using assms(2) t(1) by (simp add: dn_port_wf_def)
  then obtain n free where w: "0 < length table" "length table = its_size (ipr_name (table ! 0))"
    "ipr_notify (table ! 0) = N_index n" "dn_chain table n free" "distinct free" "dn_slots table free"
    by (rule dn_wfE)
  have nf: "index \<notin> set free" using dn_slotsD [OF w(6) i(1,2)] i(3,5) by (auto split: if_splits)
  define table' where "table' = table[index := (table ! index)\<lparr>ipr_name := nname\<rparr>]"
  have c: "dn_chain table' n free" using w(4) nf by (simp add: table'_def dn_chain_upd)
  have d: "dn_slots table' free"
    unfolding dn_slots_def
  proof (intro allI impI)
    fix j assume "0 < j" "j < length table'"
    then show "if j \<in> set free then ipr_name (table' ! j) = MACH_PORT_NAME_NULL
      else ipr_name (table' ! j) \<noteq> MACH_PORT_NAME_NULL \<and> (\<exists>p. ipr_notify (table' ! j) = N_port p)"
      using dn_slotsD [OF w(6), of j] nf assms(4) i(4) by (cases "j = index") (auto simp: table'_def)
  qed
  have wf: "dn_wf table'"
    unfolding dn_wf_def
    using w(1,2,3,5) i(1) c d by (intro conjI exI [of _ n] exI [of _ free]) (auto simp: table'_def)
  have r: "dn_table_requests table' = (dn_table_requests table)(index \<mapsto> (nname, soright))"
    using i assms(4) by (auto simp: dn_table_requests_def table'_def fun_eq_iff nth_list_update split: ipr_notify.splits)
  have "ipc_port_dnrename port index oname nname = Some (port\<lparr>ip_dnrequests := Some table'\<rparr>)"
    using assms(1) t(1) i by (simp add: ipc_port_dnrename_def table_at_def table'_def)
  then show ?thesis
    using that [of "port\<lparr>ip_dnrequests := Some table'\<rparr>"] wf r t(1)
    by (simp add: dn_requests_def dn_port_wf_def)
qed

text \<open>The new slots come first on the free list of a grown table, the highest one first.\<close>

lemma dngrow_loop_ok:
  assumes "dn_chain table free js" "\<And>j. j \<in> set js \<Longrightarrow> j < i" "0 < i" "i + n \<le> length table"
  shows "case dngrow_loop n i free table of (table', free') \<Rightarrow>
    length table' = length table \<and> dn_chain table' free' (rev [i..<i + n] @ js) \<and>
    (\<forall>j. j < i \<or> i + n \<le> j \<longrightarrow> table' ! j = table ! j) \<and>
    (\<forall>j. i \<le> j \<and> j < i + n \<longrightarrow> ipr_name (table' ! j) = MACH_PORT_NAME_NULL)"
  using assms
proof (induction n arbitrary: i free table js)
  case 0
  then show ?case by simp
next
  case (Suc n)
  define t where "t = table[i := \<lparr>ipr_notify = N_index free, ipr_name = MACH_PORT_NAME_NULL\<rparr>]"
  have c: "dn_chain t i (i # js)"
  proof -
    have "i \<notin> set js" using Suc.prems(2) by blast
    then show ?thesis using Suc.prems by (simp add: t_def dn_chain_upd)
  qed
  have u: "rev [Suc i..<Suc i + n] @ i # js = rev [i..<i + Suc n] @ js"
    by (subst upt_rec [of i]) simp
  obtain table' free' where r: "dngrow_loop n (Suc i) i t = (table', free')" by fastforce
  have b: "j < Suc i" if "j \<in> set (i # js)" for j using that Suc.prems(2) by fastforce
  have "Suc i + n \<le> length t" using Suc.prems(4) by (simp add: t_def)
  note IH0 = Suc.IH [OF c b zero_less_Suc this, unfolded r prod.case u]
  have IH: "length table' = length t" "dn_chain table' free' (rev [i..<i + Suc n] @ js)"
    "\<And>j. j < Suc i \<or> Suc i + n \<le> j \<Longrightarrow> table' ! j = t ! j"
    "\<And>j. Suc i \<le> j \<Longrightarrow> j < Suc i + n \<Longrightarrow> ipr_name (table' ! j) = MACH_PORT_NAME_NULL"
    using IH0 by blast+
  have "ipr_name (table' ! j) = MACH_PORT_NAME_NULL" if "i \<le> j" "j < i + Suc n" for j
    using that IH(4) [of j] IH(3) [of i] Suc.prems(4) by (cases "j = i") (auto simp: t_def)
  moreover have "table' ! j = table ! j" if "j < i \<or> i + Suc n \<le> j" for j
    using that IH(3) [of j] by (auto simp: t_def)
  ultimately show ?case using IH(1,2) r unfolding t_def by simp
qed

lemma dn_wf_grown:
  assumes "dn_chain table free js" "distinct js" "dn_slots (take osize table) js" "0 < osize" "osize < length table"
    "\<And>j. j \<in> set js \<Longrightarrow> j < osize" "dngrow_loop (length table - osize) osize free table = (ntable, free')"
    "length table = its_size its"
  shows "dn_wf (ntable[0 := \<lparr>ipr_notify = N_index free', ipr_name = its\<rparr>])" (is "dn_wf ?t")
    and "dn_table_requests (ntable[0 := \<lparr>ipr_notify = N_index free', ipr_name = its\<rparr>]) =
         dn_table_requests (take osize table)"
proof -
  let ?fl = "rev [osize..<length table] @ js"
  have l: "length ntable = length table" "dn_chain ntable free' ?fl"
    "\<And>j. j < osize \<Longrightarrow> ntable ! j = table ! j"
    "\<And>j. osize \<le> j \<Longrightarrow> j < length table \<Longrightarrow> ipr_name (ntable ! j) = MACH_PORT_NAME_NULL"
    using dngrow_loop_ok [OF assms(1,6,4), of "length table - osize"] assms(5,7) by auto
  have c: "dn_chain ?t free' ?fl" using l(2) dn_chain_nonzero [OF l(2)] by (simp add: dn_chain_upd)
  have at: "?t ! j = (if j < osize then take osize table ! j else ntable ! j)" if "0 < j" for j
    using that l(1,3) by auto
  have d: "dn_slots ?t ?fl"
    unfolding dn_slots_def
  proof (intro allI impI)
    fix j assume j: "0 < j" "j < length ?t"
    show "if j \<in> set ?fl then ipr_name (?t ! j) = MACH_PORT_NAME_NULL
      else ipr_name (?t ! j) \<noteq> MACH_PORT_NAME_NULL \<and> (\<exists>p. ipr_notify (?t ! j) = N_port p)"
    proof (cases "j < osize")
      case True
      then show ?thesis using dn_slotsD [OF assms(3) j(1)] at [OF j(1)] assms(5) by (auto split: if_splits)
    next
      case False
      then show ?thesis using l(1,4) j at [OF j(1)] by simp
    qed
  qed
  have "distinct ?fl" using assms(2,6) by fastforce
  then show "dn_wf ?t"
    unfolding dn_wf_def
    using l(1) assms(4,5,8) c d by (intro conjI exI [of _ free'] exI [of _ ?fl]) (auto simp: nth_list_update)
  show "dn_table_requests ?t = dn_table_requests (take osize table)"
  proof
    fix j
    show "dn_table_requests ?t j = dn_table_requests (take osize table) j"
    proof (cases "0 < j \<and> j < length table")
      case True
      then have "?t ! j = (if j < osize then table ! j else ntable ! j)" using at [of j] by (simp split: if_splits)
      then show ?thesis using True l(1) l(4) [of j] assms(5)
        by (cases "j < osize") (auto simp: dn_table_requests_def split: ipr_notify.splits)
    next
      case False
      then show ?thesis using l(1) by (auto simp: dn_table_requests_def)
    qed
  qed
qed

lemma dn_table_requests_eq:
  "length table = length table' \<Longrightarrow> (\<And>j. 0 < j \<Longrightarrow> j < length table \<Longrightarrow> table ! j = table' ! j) \<Longrightarrow>
   dn_table_requests table = dn_table_requests table'"
  by (auto simp: dn_table_requests_def fun_eq_iff split: ipr_notify.splits)

text \<open>The table of a port with room for more requests: a slot that holds none.\<close>

definition dn_room :: "ipc_port \<Rightarrow> bool" where
  "dn_room port =
     (\<exists>table i. ip_dnrequests port = Some table \<and> 0 < i \<and> i < length table \<and> dn_requests port i = None)"

lemma ipc_port_dnrequest_room:
  assumes "ip_active port" "name \<noteq> MACH_PORT_NAME_NULL" "dn_port_wf port" "dn_room port"
  shows "\<exists>index port'. ipc_port_dnrequest port name soright = Some (KERN_SUCCESS, index, port')"
proof -
  obtain table i where "ip_dnrequests port = Some table" "0 < i" "i < length table" "dn_requests port i = None"
    using assms(4) by (auto simp: dn_room_def)
  then show ?thesis using ipc_port_dnrequest_ok [OF assms(1-3), of soright] by metis
qed

text \<open>The part of the table that \<^verbatim>\<open>ipc_port_dngrow\<close> copies, with the head of the free list.\<close>

definition dn_garbage :: ipc_port_request where
  "dn_garbage = \<lparr>ipr_notify = N_index 0, ipr_name = 0\<rparr>"

definition dn_copied :: "ipc_port \<Rightarrow> ipc_port_request list" where
  "dn_copied port =
     dn_garbage # (case ip_dnrequests port of None \<Rightarrow> [] | Some table \<Rightarrow> tl table)"

lemma dn_copied_nonempty [simp]: "dn_copied port \<noteq> []"
  by (simp add: dn_copied_def)

lemma dn_copied_ok:
  assumes "dn_port_wf port"
  obtains n free where "dn_chain (dn_copied port) n free" "distinct free" "dn_slots (dn_copied port) free"
    "dn_table_requests (dn_copied port) = dn_requests port"
    "\<And>table. ip_dnrequests port = Some table \<Longrightarrow>
       table \<noteq> [] \<and> length table = its_size (ipr_name (table ! 0)) \<and> ipr_next (table ! 0) = Some n"
    "ip_dnrequests port = None \<Longrightarrow> n = 0"
proof (cases "ip_dnrequests port")
  case None
  then show ?thesis
    by (intro that [of 0 "[]"]) (auto simp: dn_copied_def dn_slots_def dn_requests_def dn_table_requests_def)
next
  case (Some table)
  then have "dn_wf table" using assms by (simp add: dn_port_wf_def)
  then obtain n free where w: "0 < length table" "length table = its_size (ipr_name (table ! 0))"
    "ipr_notify (table ! 0) = N_index n" "dn_chain table n free" "distinct free" "dn_slots table free"
    by (rule dn_wfE)
  have len: "length (dn_copied port) = length table" using Some w(1) by (simp add: dn_copied_def)
  have at: "dn_copied port ! j = table ! j" if "0 < j" "j < length table" for j
    using that Some by (cases j; cases table) (auto simp: dn_copied_def)
  have nz: "0 < j \<and> j < length table" if "j \<in> set free" for j
    using that dn_chain_nonzero [OF w(4)] dn_chain_bound [OF w(4) that] by (metis gr0I)
  have 1: "dn_chain (dn_copied port) n free"
    by (rule dn_chain_cong [OF w(4)]) (use len at nz in auto)
  have 2: "dn_slots (dn_copied port) free" using w(6) at len by (simp add: dn_slots_def)
  have 3: "dn_table_requests (dn_copied port) = dn_requests port"
    using dn_table_requests_eq [OF len] at len Some by (simp add: dn_requests_def)
  show ?thesis by (rule that [OF 1 w(5) 2 3]) (use Some w(1-3) in auto)
qed

lemma dn_copied_length:
  "ip_dnrequests port = Some table \<Longrightarrow> table \<noteq> [] \<Longrightarrow> length (dn_copied port) = length table"
  by (cases table) (simp_all add: dn_copied_def)

lemma table_at_0: "table \<noteq> [] \<Longrightarrow> table_at table 0 = Some (table ! 0)"
  by (simp add: table_at_def)

lemma k_alloc_eq: "k_alloc st = (ok, st') \<longleftrightarrow> (\<exists>m. kmem_cache_alloc (k_mem st) = (ok, m) \<and> st' = st\<lparr>k_mem := m\<rparr>)"
  by (auto simp: k_alloc_def split: prod.splits)

lemma ipc_port_dngrow_ok:
  assumes "k_ports st p = Some port" "ip_active port" "dn_port_wf port"
    "ip_references port \<noteq> 0" "ip_references port + 1 \<noteq> 0"
  obtains port' m where "ipc_port_dngrow p st =
      Some (KERN_SUCCESS, st\<lparr>k_ports := (k_ports st)(p \<mapsto> port'), k_mem := m\<rparr>)"
    "dn_port_wf port'" "dn_requests port' = dn_requests port" "dn_room port'"
    "port' = port\<lparr>ip_dnrequests := ip_dnrequests port'\<rparr>"
  | m where "ipc_port_dngrow p st = Some (KERN_RESOURCE_SHORTAGE, st\<lparr>k_mem := m\<rparr>)"
proof -
  obtain n free where c: "dn_chain (dn_copied port) n free" "distinct free" "dn_slots (dn_copied port) free"
    "dn_table_requests (dn_copied port) = dn_requests port"
    "\<And>table. ip_dnrequests port = Some table \<Longrightarrow>
       table \<noteq> [] \<and> length table = its_size (ipr_name (table ! 0)) \<and> ipr_next (table ! 0) = Some n"
    "ip_dnrequests port = None \<Longrightarrow> n = 0"
    using dn_copied_ok [OF assms(3)] by blast
  define its where "its = (case ip_dnrequests port of None \<Rightarrow> 0 | Some table \<Rightarrow> ipr_name (table ! 0) + 1)"
  obtain ok m where alloc: "kmem_cache_alloc (k_mem st) = (ok, m)" by fastforce
  have same: "(k_ports st)(p \<mapsto> port) = k_ports st" using assms(1) by (simp add: fun_upd_idem)
  show ?thesis
  proof (cases "its_size its = 0 \<or> \<not> ok")
    case True
    define m' where "m' = (if its_size its = 0 then k_mem st else m)"
    have "ipc_port_dngrow p st = Some (KERN_RESOURCE_SHORTAGE, st\<lparr>k_mem := m'\<rparr>)"
    proof (cases "ip_dnrequests port")
      case None
      then show ?thesis using True assms alloc same c(5)
        by (auto simp: ipc_port_dngrow_def its_def ip_reference_def set_port_def k_alloc_def m'_def
            ipc_port_release_def ip_release_def ip_check_unlock_def word_neq_0_conv)
    next
      case (Some table)
      then have "table_at table 0 = Some (table ! 0)" using c(5) [OF Some] table_at_0 by blast
      then show ?thesis using True assms alloc same c(5) Some
        by (auto simp: ipc_port_dngrow_def its_def ip_reference_def set_port_def k_alloc_def m'_def
            ipc_port_release_def ip_release_def ip_check_unlock_def word_neq_0_conv)
    qed
    then show ?thesis using that(2) by blast
  next
    case False
    let ?osize = "length (dn_copied port)" and ?nsize = "its_size its"
    let ?t0 = "dn_copied port @ replicate (?nsize - ?osize) dn_garbage"
    have os: "?osize < ?nsize"
    proof (cases "ip_dnrequests port")
      case None
      then show ?thesis using False its_size_ge_2 [of its] by (simp add: dn_copied_def)
    next
      case (Some table)
      then have "?osize = its_size (ipr_name (table ! 0))" using dn_copied_length [OF Some] c(5) [OF Some] by simp
      then show ?thesis using False its_size_less [of "ipr_name (table ! 0)"] Some by (simp add: its_def)
    qed
    obtain nt free' where g: "dngrow_loop (?nsize - ?osize) ?osize n ?t0 = (nt, free')" by fastforce
    let ?nt = "nt[0 := \<lparr>ipr_notify = N_index free', ipr_name = its\<rparr>]"
    have ch: "dn_chain ?t0 n free"
      by (rule dn_chain_cong [OF c(1)]) (use dn_chain_bound [OF c(1)] in \<open>auto simp: nth_append\<close>)
    have b: "j < ?osize" if "j \<in> set free" for j using dn_chain_bound [OF c(1) that] .
    have wf: "dn_wf ?nt" "dn_table_requests ?nt = dn_requests port"
      using dn_wf_grown [OF ch c(2), of ?osize nt free' its] c(3,4) os b g by auto
    have "nsize - 1 - length slots = nsize - length (dn_garbage # slots)" for nsize and slots :: "ipc_port_request list"
      by simp
    then have t0: "?t0 = dn_garbage # (case ip_dnrequests port of None \<Rightarrow> [] | Some table \<Rightarrow> tl table) @
        replicate (?nsize - 1 - length (case ip_dnrequests port of None \<Rightarrow> [] | Some table \<Rightarrow> tl table)) dn_garbage"
      by (simp add: dn_copied_def)
    have "ipc_port_dngrow p st = Some (KERN_SUCCESS,
        st\<lparr>k_mem := m, k_ports := (k_ports st)(p \<mapsto> port\<lparr>ip_dnrequests := Some ?nt\<rparr>)\<rparr>)"
    proof (cases "ip_dnrequests port")
      case None
      then show ?thesis using False assms alloc same c(6) os g t0
        by (simp add: ipc_port_dngrow_def its_def ip_reference_def set_port_def k_alloc_def dn_copied_def
            ip_release_def dn_garbage_def [symmetric] Let_def)
    next
      case (Some table)
      have "table_at table 0 = Some (table ! 0)" using c(5) [OF Some] table_at_0 by blast
      then show ?thesis using False assms alloc same c(5) [OF Some] os g t0 Some dn_copied_length [OF Some]
        by (simp add: ipc_port_dngrow_def its_def ip_reference_def set_port_def k_alloc_def dn_copied_def
            ip_release_def dn_garbage_def [symmetric] Let_def)
    qed
    moreover have "dn_room (port\<lparr>ip_dnrequests := Some ?nt\<rparr>)"
    proof -
      have "0 < ?osize \<and> ?osize < length ?nt \<and> dn_table_requests (dn_copied port) ?osize = None"
        using os dngrow_loop_ok [OF ch b, of "?nsize - ?osize"] g by (auto simp: dn_table_requests_def)
      then show ?thesis
        unfolding dn_room_def using wf(2) c(4)
        by (intro exI [of _ ?nt] exI [of _ ?osize]) (simp add: dn_requests_def)
    qed
    ultimately show ?thesis
      by (intro that(1) [of m "port\<lparr>ip_dnrequests := Some ?nt\<rparr>"]) (use wf in \<open>auto simp: dn_port_wf_def dn_requests_def\<close>)
  qed
qed

section \<open>The contract of a table of requests\<close>

text \<open>
  What the users of a table of requests rely on: a request gets an index that is not in
  use, stays registered there under its name until it is cancelled, and is handed back
  when it is.
\<close>

locale request_table =
  fixes wf :: "'t \<Rightarrow> bool"
    and reqs :: "'t \<Rightarrow> nat \<Rightarrow> ('n \<times> 'p) option"
    and valid :: "'n \<Rightarrow> bool"
    and req :: "'t \<Rightarrow> 'n \<Rightarrow> 'p \<Rightarrow> (kern_return \<times> nat \<times> 't) option"
    and cancel :: "'t \<Rightarrow> 'n \<Rightarrow> nat \<Rightarrow> ('p \<times> 't) option"
    and rename :: "'t \<Rightarrow> nat \<Rightarrow> 'n \<Rightarrow> 'n \<Rightarrow> 't option"
  assumes req_law: "wf t \<Longrightarrow> valid n \<Longrightarrow>
      (\<exists>i t'. req t n s = Some (KERN_SUCCESS, i, t') \<and> i \<noteq> 0 \<and> reqs t i = None \<and> wf t' \<and>
              reqs t' = (reqs t)(i \<mapsto> (n, s))) \<or>
      req t n s = Some (KERN_NO_SPACE, 0, t)"
    and cancel_law: "wf t \<Longrightarrow> reqs t i = Some (n, s) \<Longrightarrow>
      \<exists>t'. cancel t n i = Some (s, t') \<and> wf t' \<and> reqs t' = (reqs t)(i := None)"
    and rename_law: "wf t \<Longrightarrow> reqs t i = Some (n, s) \<Longrightarrow> valid n' \<Longrightarrow>
      \<exists>t'. rename t i n n' = Some t' \<and> wf t' \<and> reqs t' = (reqs t)(i \<mapsto> (n', s))"
begin

lemma req_success:
  assumes "wf t" "valid n" "req t n s = Some (KERN_SUCCESS, i, t')"
  shows "i \<noteq> 0" "reqs t i = None" "wf t'" "reqs t' = (reqs t)(i \<mapsto> (n, s))"
  using req_law [OF assms(1,2), of s] assms(3) by auto

lemma req_cancel:
  assumes "wf t" "valid n" "req t n s = Some (KERN_SUCCESS, i, t')"
  shows "\<exists>t''. cancel t' n i = Some (s, t'') \<and> wf t'' \<and> reqs t'' = reqs t"
  using req_success [OF assms] cancel_law [of t' i n s] by (auto simp: fun_upd_idem)

lemma req_rename_cancel:
  assumes "wf t" "valid n" "valid n'" "req t n s = Some (KERN_SUCCESS, i, t')"
  shows "\<exists>t1 t2. rename t' i n n' = Some t1 \<and> cancel t1 n' i = Some (s, t2) \<and> wf t2 \<and> reqs t2 = reqs t"
proof -
  note r = req_success [OF assms(1,2,4)]
  then obtain t1 where "rename t' i n n' = Some t1" "wf t1" "reqs t1 = (reqs t)(i \<mapsto> (n', s))"
    using rename_law [of t' i n s n'] assms(3) by auto
  then show ?thesis using cancel_law [of t1 i n' s] r(2) by (auto simp: fun_upd_idem)
qed

end

lemma dn_same_bits: "port' = port\<lparr>ip_dnrequests := x\<rparr> \<Longrightarrow> ip_bits port' = ip_bits port"
  by simp

interpretation dnr: request_table "\<lambda>port. ip_active port \<and> dn_port_wf port" dn_requests
  "\<lambda>name. name \<noteq> MACH_PORT_NAME_NULL" ipc_port_dnrequest ipc_port_dncancel ipc_port_dnrename
proof unfold_locales
  fix port name soright
  assume a: "ip_active port \<and> dn_port_wf port" "name \<noteq> MACH_PORT_NAME_NULL"
  show "(\<exists>i port'. ipc_port_dnrequest port name soright = Some (KERN_SUCCESS, i, port') \<and> i \<noteq> 0 \<and>
        dn_requests port i = None \<and> (ip_active port' \<and> dn_port_wf port') \<and>
        dn_requests port' = (dn_requests port)(i \<mapsto> (name, soright))) \<or>
      ipc_port_dnrequest port name soright = Some (KERN_NO_SPACE, 0, port)"
    by (rule ipc_port_dnrequest_ok [of port name soright]) (use a in \<open>auto dest: dn_same_bits\<close>)
next
  fix port index name soright
  assume a: "ip_active port \<and> dn_port_wf port" "dn_requests port index = Some (name, soright)"
  show "\<exists>port'. ipc_port_dncancel port name index = Some (soright, port') \<and>
      (ip_active port' \<and> dn_port_wf port') \<and> dn_requests port' = (dn_requests port)(index := None)"
    by (rule ipc_port_dncancel_ok [of port index name soright]) (use a in \<open>auto dest: dn_same_bits\<close>)
next
  fix port index name soright name'
  assume a: "ip_active port \<and> dn_port_wf port" "dn_requests port index = Some (name, soright)"
    "name' \<noteq> MACH_PORT_NAME_NULL"
  show "\<exists>port'. ipc_port_dnrename port index name name' = Some port' \<and>
      (ip_active port' \<and> dn_port_wf port') \<and> dn_requests port' = (dn_requests port)(index \<mapsto> (name', soright))"
    by (rule ipc_port_dnrename_ok [of port index name soright name']) (use a in \<open>auto dest: dn_same_bits\<close>)
qed

section \<open>Order of timestamps\<close>

lemma timestamps_ok: "k_timestamp (((snd \<circ> ipc_port_timestamp) ^^ n) st) = k_timestamp st + of_nat n"
  by (induction n) (simp_all add: ipc_port_timestamp_def)

lemma sint_neg_small:
  assumes "0 < n" "n < 2 ^ 31"
  shows "sint (- (of_nat n) :: bits32) < 0" "\<not> sint (of_nat n :: bits32) < 0"
proof -
  have s: "sint (of_nat n :: bits32) = int n"
    using assms by (simp add: sint_uint signed_take_bit_int_eq_self unsigned_of_nat take_bit_nat_eq_self)
  then show "\<not> sint (of_nat n :: bits32) < 0" by simp
  have "sint (- (of_nat n) :: bits32) = - int n"
  proof -
    have "sint (word_of_int (- int n) :: bits32) = - int n"
      using assms by (subst signed_of_int) (simp add: signed_take_bit_int_eq_self)
    then show ?thesis by simp
  qed
  then show "sint (- (of_nat n) :: bits32) < 0" using assms(1) by simp
qed

section \<open>Ports in transit\<close>

text \<open>
  The destination of a port whose receive right is in a message on its way to another
  port, and the relation that follows these destinations.  In a well-formed state it has
  no circles.
\<close>

definition transit_dest :: "kernel \<Rightarrow> port_id \<Rightarrow> port_id option" where
  "transit_dest st p =
     (case k_ports st p of
        None \<Rightarrow> None
      | Some port \<Rightarrow> if in_transit port = Some True then Option.bind (ip_destination port) (\<lambda>d. d) else None)"

definition transit_rel :: "kernel \<Rightarrow> (port_id \<times> port_id) set" where
  "transit_rel st = {(p, d). transit_dest st p = Some d}"

definition transit_wf :: "kernel \<Rightarrow> bool" where
  "transit_wf st =
     (finite (dom (k_ports st)) \<and> acyclic (transit_rel st) \<and>
      (\<forall>p port. k_ports st p = Some port \<longrightarrow> in_transit port \<noteq> None) \<and>
      (\<forall>p d. transit_dest st p = Some d \<longrightarrow> k_ports st d \<noteq> None))"

lemma in_transit_dest:
  "in_transit port = Some True \<Longrightarrow> \<exists>d. ip_destination port = Some (Some d)"
  by (auto simp: in_transit_def split: if_splits bind_splits)

lemma transit_dest_port:
  "k_ports st p = Some port \<Longrightarrow>
   transit_dest st p = (if in_transit port = Some True then Option.bind (ip_destination port) (\<lambda>d. d) else None)"
  by (simp add: transit_dest_def)

lemma transit_rel_finite: "finite (dom (k_ports st)) \<Longrightarrow> finite (transit_rel st)"
proof -
  assume "finite (dom (k_ports st))"
  moreover have "transit_rel st \<subseteq> (\<lambda>p. (p, the (transit_dest st p))) ` dom (k_ports st)"
    by (force simp: transit_rel_def transit_dest_def split: option.splits)
  ultimately show ?thesis by (meson finite_imageI finite_subset)
qed

lemma transit_end_unique:
  assumes "(p, b) \<in> (transit_rel st)\<^sup>*" "transit_dest st b = None" "(p, c) \<in> (transit_rel st)\<^sup>*" "transit_dest st c = None"
  shows "b = c"
  using assms(1,3)
proof (induction rule: converse_rtrancl_induct)
  case base
  then show ?case using assms(2) by (auto elim: converse_rtranclE simp: transit_rel_def)
next
  case (step p q)
  then show ?case using assms(4) by (auto elim: converse_rtranclE simp: transit_rel_def)
qed

lemma chain_base_ok:
  assumes "transit_wf st" "k_ports st p \<noteq> None"
  shows "\<exists>b. chain_base st p = Some b \<and> (p, b) \<in> (transit_rel st)\<^sup>* \<and> transit_dest st b = None"
proof -
  have "wf ((transit_rel st)\<inverse>)"
    using assms(1) by (simp add: transit_wf_def transit_rel_finite finite_acyclic_wf_converse)
  then show ?thesis using assms(2)
  proof (induction p)
    case (less p)
    then obtain port where p: "k_ports st p = Some port" by auto
    then have t: "in_transit port \<noteq> None" using assms(1) by (simp add: transit_wf_def)
    show ?case
    proof (cases "in_transit port = Some True")
      case True
      then obtain d where d: "ip_destination port = Some (Some d)" using in_transit_dest by blast
      then have td: "transit_dest st p = Some d" using p True by (simp add: transit_dest_port)
      then have r: "(p, d) \<in> transit_rel st" "k_ports st d \<noteq> None"
        using assms(1) by (auto simp: transit_rel_def transit_wf_def)
      obtain b where "chain_base st d = Some b" "(d, b) \<in> (transit_rel st)\<^sup>*" "transit_dest st b = None"
        using less.IH [of d] r by auto
      moreover have "chain_base st p = chain_base st d"
        using p True d by (simp add: chain_base.simps [of st p])
      ultimately show ?thesis using r(1) by (auto intro: converse_rtrancl_into_rtrancl)
    next
      case False
      then show ?thesis using p t by (auto simp: chain_base.simps [of st p] transit_dest_port)
    qed
  qed
qed

text \<open>A change of a port that does not concern its right to be received.\<close>

lemma transit_dest_upd:
  assumes "in_transit port' = in_transit port" "ip_destination port' = ip_destination port" "k_ports st p = Some port"
  shows "transit_dest (set_port p port' st) = transit_dest st"
  using assms by (auto simp: transit_dest_def set_port_def fun_eq_iff)

lemma ipc_port_check_circularity_ok:
  assumes "transit_wf st" "k_ports st p = Some port" "k_ports st dest \<noteq> None"
    "ip_active port" "ip_receiver_name port = MACH_PORT_NAME_NULL" "ip_destination port = Some None"
  shows "\<exists>circular st'. ipc_port_check_circularity p dest st = Some (circular, st') \<and>
     circular = ((dest, p) \<in> (transit_rel st)\<^sup>*) \<and>
     (circular \<longrightarrow> st' = st) \<and>
     (\<not> circular \<longrightarrow> transit_wf st' \<and> transit_dest st' = (transit_dest st)(p \<mapsto> dest))"
proof -
  have np: "in_transit port = Some False" "transit_dest st p = None"
    using assms(2,5,6) by (simp_all add: in_transit_def transit_dest_port)
  obtain dport where d: "k_ports st dest = Some dport" using assms(3) by auto
  obtain b where b: "chain_base st dest = Some b" "(dest, b) \<in> (transit_rel st)\<^sup>*" "transit_dest st b = None"
    using chain_base_ok [OF assms(1,3)] by blast
  obtain transit where t: "in_transit dport = Some transit" using assms(1) d unfolding transit_wf_def by blast
  have base: "(if \<not> transit then Some dest else chain_base st dest) = Some b"
    using b(1) d t by (cases transit) (auto simp: chain_base.simps [of st dest])
  have circ: "(dest, p) \<in> (transit_rel st)\<^sup>* \<longleftrightarrow> p = b"
    using b(2,3) np(2) transit_end_unique [of dest b st p] by auto
  show ?thesis
  proof (cases "p = dest \<or> p = b")
    case True
    then show ?thesis using assms d t base circ
      by (auto simp: ipc_port_check_circularity_def)
  next
    case False
    define st1 where "st1 = set_port dest (dport\<lparr>ip_references := ip_references dport + 1\<rparr>) st"
    define st2 where "st2 = set_port p (port\<lparr>ip_data := D_destination (Some dest)\<rparr>) st1"
    have run: "ipc_port_check_circularity p dest st = Some (False, st2)"
      using False assms d t base
      by (simp add: ipc_port_check_circularity_def ip_reference_def st2_def st1_def set_port_def)
    have td1: "transit_dest st1 = transit_dest st"
      unfolding st1_def by (rule transit_dest_upd [OF _ _ d]) (simp_all add: in_transit_def)
    have td: "transit_dest st2 = (transit_dest st)(p \<mapsto> dest)"
    proof
      fix q
      show "transit_dest st2 q = ((transit_dest st)(p \<mapsto> dest)) q"
        using fun_cong [OF td1, of q] assms(4,5)
        by (auto simp: st2_def transit_dest_def set_port_def in_transit_def)
    qed
    then have rel: "transit_rel st2 = insert (p, dest) (transit_rel st)"
      using np(2) by (auto simp: transit_rel_def split: if_splits)
    have dom: "dom (k_ports st2) = dom (k_ports st)"
      using assms(2) d by (auto simp: st2_def st1_def set_port_def)
    have "in_transit port' \<noteq> None" if "k_ports st2 q = Some port'" for q port'
      using that assms(1) d by (auto simp: st2_def st1_def set_port_def transit_wf_def in_transit_def split: if_splits)
    moreover have "k_ports st2 e \<noteq> None" if "transit_dest st2 q = Some e" for q e
      using that td dom assms(1,3) by (auto simp: transit_wf_def split: if_splits)
    moreover have "acyclic (transit_rel st2)"
      using rel circ False assms(1) by (simp add: transit_wf_def)
    ultimately have "transit_wf st2" using dom assms(1) by (simp add: transit_wf_def)
    then show ?thesis using run td circ False by blast
  qed
qed

section \<open>Properties\<close>

text \<open>
  C37: Timestamps keep their order although the counter wraps around: of two timestamps with
  fewer than 2 to the power of 31 others between them, the earlier one precedes the later
  one, and not the other way round.
\<close>

theorem timestamp_order_correct:
  assumes "0 < n" "n < 2 ^ 31"
    and "t1 = fst (ipc_port_timestamp st)"
    and "t2 = fst (ipc_port_timestamp (((snd \<circ> ipc_port_timestamp) ^^ n) st))"
  shows "IP_TIMESTAMP_ORDER t1 t2 \<and> \<not> IP_TIMESTAMP_ORDER t2 t1"
proof -
  have "t1 = k_timestamp st" "t2 = k_timestamp st + of_nat n"
    using assms(3,4) timestamps_ok [of n st] by (simp_all add: ipc_port_timestamp_def)
  then show ?thesis
    using sint_neg_small [OF assms(1,2)] by (simp_all add: IP_TIMESTAMP_ORDER_def)
qed

text \<open>The counter wraps around between the two timestamps.\<close>

theorem timestamp_order_correct_witness:
  "IP_TIMESTAMP_ORDER 0xffffffff 1 \<and> \<not> IP_TIMESTAMP_ORDER 1 0xffffffff"
proof -
  let ?st = "kernel_empty\<lparr>k_timestamp := 0xffffffff\<rparr>"
  have "(0xffffffff :: bits32) = fst (ipc_port_timestamp ?st)"
    "(1 :: bits32) = fst (ipc_port_timestamp (((snd \<circ> ipc_port_timestamp) ^^ 2) ?st))"
    using timestamps_ok [of 2 ?st] by (simp_all add: ipc_port_timestamp_def)
  then show ?thesis by (intro timestamp_order_correct [of 2 _ ?st]) simp_all
qed



text \<open>
  C34: A dead-name request that is registered, renamed with its right, and cancelled gives
  back the send-once right, and leaves all other requests of the port as they were.
\<close>

theorem dnrequest_roundtrip:
  assumes "ip_active port" "dn_port_wf port" "name \<noteq> MACH_PORT_NAME_NULL" "nname \<noteq> MACH_PORT_NAME_NULL"
    and "ipc_port_dnrequest port name soright = Some (KERN_SUCCESS, index, port1)"
  shows "\<exists>port2 port3. ipc_port_dnrename port1 index name nname = Some port2 \<and>
           ipc_port_dncancel port2 nname index = Some (soright, port3) \<and>
           dn_port_wf port3 \<and> dn_requests port3 = dn_requests port"
  using dnr.req_rename_cancel [of port name nname soright index port1] assms by blast

definition dn_example :: ipc_port where
  "dn_example = new_port\<lparr>ip_dnrequests :=
     Some [\<lparr>ipr_notify = N_index 1, ipr_name = 0\<rparr>, \<lparr>ipr_notify = N_index 0, ipr_name = 0\<rparr>]\<rparr>"

lemma its_size_smallest: "its_size 0 = 2"
proof -
  have "ipc_table_dnrequests ! 0 = 2"
    by (simp add: ipc_table_dnrequests_def ipc_table_fill_def table_fill_pow.simps PAGE_SIZE_def)
  then show ?thesis by (simp add: its_size_def dnrequest_sizes(1))
qed

lemma dn_example_wf: "dn_port_wf dn_example"
  by (simp add: dn_port_wf_def dn_example_def dn_wf_def its_size_smallest MACH_PORT_NAME_NULL_def)
    (auto simp: dn_slots_def MACH_PORT_NAME_NULL_def less_Suc_eq numeral_2_eq_2 intro!: exI [of _ "[1]"])

theorem dnrequest_roundtrip_witness:
  "\<exists>port1 port2 port3. ipc_port_dnrequest dn_example 7 42 = Some (KERN_SUCCESS, 1, port1) \<and>
     ipc_port_dnrename port1 1 7 8 = Some port2 \<and> ipc_port_dncancel port2 8 1 = Some (42, port3) \<and>
     dn_port_wf port3 \<and> dn_requests port3 = dn_requests dn_example"
proof -
  have "\<exists>port1. ipc_port_dnrequest dn_example 7 42 = Some (KERN_SUCCESS, 1, port1)"
    by (simp add: ipc_port_dnrequest_def dn_example_def table_at_def MACH_PORT_NAME_NULL_def)
  then show ?thesis
    using dnrequest_roundtrip [of dn_example 7 8 42 1] dn_example_wf
    by (auto simp: dn_example_def MACH_PORT_NAME_NULL_def)
qed

text \<open>
  C35: Growing a table of dead-name requests keeps the requests and their indices, and
  makes room for another one; without memory, or beyond the largest size, it fails and
  changes nothing.
\<close>

theorem ipc_port_dngrow_correct:
  assumes "k_ports st p = Some port" "ip_active port" "dn_port_wf port"
    "ip_references port \<noteq> 0" "ip_references port + 1 \<noteq> 0"
  shows "(\<exists>port' m. ipc_port_dngrow p st =
             Some (KERN_SUCCESS, st\<lparr>k_ports := (k_ports st)(p \<mapsto> port'), k_mem := m\<rparr>) \<and>
           dn_port_wf port' \<and> dn_requests port' = dn_requests port \<and>
           (\<forall>name soright. name \<noteq> MACH_PORT_NAME_NULL \<longrightarrow>
              (\<exists>i port''. ipc_port_dnrequest port' name soright = Some (KERN_SUCCESS, i, port'')))) \<or>
         (\<exists>m. ipc_port_dngrow p st = Some (KERN_RESOURCE_SHORTAGE, st\<lparr>k_mem := m\<rparr>))"
  using assms
proof (cases rule: ipc_port_dngrow_ok [OF assms])
  case (1 port' m)
  then have "ip_active port'" using assms(2) by (auto dest: dn_same_bits)
  then show ?thesis using 1 ipc_port_dnrequest_room by blast
next
  case (2 m)
  then show ?thesis by blast
qed

theorem ipc_port_dngrow_correct_witness:
  "\<exists>port' m. ipc_port_dngrow 5 (set_port 5 new_port kernel_empty) =
       Some (KERN_SUCCESS, (set_port 5 new_port kernel_empty)
         \<lparr>k_ports := (k_ports (set_port 5 new_port kernel_empty))(5 \<mapsto> port'), k_mem := m\<rparr>) \<and>
     dn_port_wf port' \<and> dn_requests port' = Map.empty"
proof -
  have "fst (the (ipc_port_dngrow 5 (set_port 5 new_port kernel_empty))) = KERN_SUCCESS"
    by (simp add: ipc_port_dngrow_def set_port_def ip_reference_def ip_release_def k_alloc_def
        kmem_cache_alloc_def its_size_smallest Let_def split: prod.splits)
  then show ?thesis
    using ipc_port_dngrow_correct [of "set_port 5 new_port kernel_empty" 5 new_port]
    by (auto simp: set_port_def dn_port_wf_def dn_requests_def)
qed

text \<open>
  C15: The check for circular messages always returns.  It reports a circle exactly if
  following the ports in transit from the destination leads to the port whose receive
  right is about to be sent there.  Otherwise the port is recorded as in transit to the
  destination, and no circle comes into being.
\<close>

theorem ipc_port_check_circularity_correct:
  assumes "transit_wf st" "k_ports st p = Some port" "k_ports st dest \<noteq> None"
    "ip_active port" "ip_receiver_name port = MACH_PORT_NAME_NULL" "ip_destination port = Some None"
  shows "\<exists>circular st'. ipc_port_check_circularity p dest st = Some (circular, st') \<and>
     circular = ((dest, p) \<in> (transit_rel st)\<^sup>*) \<and>
     (circular \<longrightarrow> st' = st) \<and>
     (\<not> circular \<longrightarrow> transit_wf st' \<and> transit_dest st' = (transit_dest st)(p \<mapsto> dest))"
  by (rule ipc_port_check_circularity_ok [OF assms])

text \<open>Port 6 is on its way to port 5; sending port 5 to port 6 would close a circle.\<close>

theorem ipc_port_check_circularity_correct_witness:
  "let st = set_port 6 (new_port\<lparr>ip_data := D_destination (Some 5)\<rparr>) (set_port 5 new_port kernel_empty)
   in ipc_port_check_circularity 5 6 st = Some (True, st)"
proof -
  define st where "st = set_port 6 (new_port\<lparr>ip_data := D_destination (Some 5)\<rparr>) (set_port 5 new_port kernel_empty)"
  have td: "transit_dest st = [6 \<mapsto> 5]"
    by (auto simp: st_def transit_dest_def set_port_def in_transit_def MACH_PORT_NAME_NULL_def fun_eq_iff)
  then have rel: "transit_rel st = {(6, 5)}" by (auto simp: transit_rel_def split: if_splits)
  have "acyclic {(6, 5) :: port_id \<times> port_id}" by (simp add: acyclic_def trancl_insert)
  then have "transit_wf st"
    unfolding transit_wf_def rel td
    by (auto simp: st_def set_port_def in_transit_def MACH_PORT_NAME_NULL_def split: if_splits)
  then show ?thesis
    using ipc_port_check_circularity_correct [of st 5 new_port 6] rel
    by (auto simp: st_def [symmetric] Let_def) (auto simp: st_def set_port_def MACH_PORT_NAME_NULL_def)
qed

end
