(* ===== verification/Ipc_Notify.thy ===== *)
theory Ipc_Notify
  imports Ipc_Port
begin

text \<open>
  Sending a message (\<^verbatim>\<open>ipc/ipc_mqueue.c\<close>), the notifications of \<^verbatim>\<open>ipc/ipc_notify.c\<close>, and the
  operations of \<^verbatim>\<open>ipc/ipc_port.c\<close> that send them: \<^verbatim>\<open>ipc_port_release_send\<close>,
  \<^verbatim>\<open>ipc_port_nsrequest\<close>, \<^verbatim>\<open>ipc_port_destroy\<close>, \<^verbatim>\<open>ipc_port_release_receive\<close>,
  \<^verbatim>\<open>ipc_port_dealloc_special\<close>.

  These functions and the destruction of messages (\<^theory_text>\<open>Ipc_Kmsg\<close>) call each other.  The code curtails the recursion in \<^verbatim>\<open>ipc_kmsg_destroy\<close>:
  while a message is being cleaned, further messages to destroy are only queued.  The
  operations below therefore take the function \<open>D\<close> that destroys a message as an argument;
  it is \<open>kmsg_queue\<close> while a message is cleaned and \<open>ipc_kmsg_destroy\<close> elsewhere.

  \<open>K\<close> stands for the kernel objects behind ports of \<^verbatim>\<open>ipc_space_kernel\<close>: the MIG-generated
  servers that \<^verbatim>\<open>ipc_kobject_server\<close> dispatches to, and the clean-up that
  \<^verbatim>\<open>ipc_kobject_destroy\<close> asks of the VM system.
\<close>

record ipc_env =
  kobject_server :: "kmsg \<Rightarrow> kernel \<Rightarrow> (kmsg option \<times> kernel) option"
  kobject_destroy :: "port_id \<Rightarrow> kernel \<Rightarrow> kernel option"

type_synonym destroyer = "kmsg \<Rightarrow> kernel \<Rightarrow> kernel option"

section \<open>Sending\<close>

text \<open>The last part of \<^verbatim>\<open>ipc_mqueue_send\<close>: the message may be queued without blocking.\<close>

definition mqueue_post :: "destroyer \<Rightarrow> port_id \<Rightarrow> kmsg \<Rightarrow> kernel \<Rightarrow> kernel option" where
  "mqueue_post D p kmsg st =
     (if msgh_circular kmsg then D kmsg st
      else do {
        port \<leftarrow> k_ports st p;
        let count = ip_msgcount port + 1;
        kassert (count > 0);
        let st = set_port p (port\<lparr>ip_msgcount := count\<rparr>) st;
        let m = (case ip_pset port of None \<Rightarrow> MQ_port p | Some q \<Rightarrow> MQ_pset q);
        mqueue \<leftarrow> get_mq st m;
        (found, receivers, st) \<leftarrow> mq_offer kmsg p (imq_messages mqueue) (imq_threads mqueue) st;
        set_mq m
          \<lparr>imq_messages = (if found then imq_messages mqueue
                           else ipc_kmsg_enqueue (imq_messages mqueue) kmsg),
           imq_threads = receivers\<rparr> st })"

text \<open>
  One round of the loop of \<^verbatim>\<open>ipc_mqueue_send\<close>, up to the point where the caller blocks.
  \<open>always\<close> is \<^verbatim>\<open>MACH_SEND_ALWAYS\<close>, \<open>time_out\<close> the time-out if \<^verbatim>\<open>MACH_SEND_TIMEOUT\<close> is set.  A
  caller that has to wait is left on \<^verbatim>\<open>ip_blocked\<close> with the result \<^verbatim>\<open>MACH_SEND_IN_PROGRESS\<close>.
\<close>

definition mqueue_send_try ::
  "destroyer \<Rightarrow> thread_id \<Rightarrow> bool \<Rightarrow> nat option \<Rightarrow> port_id \<Rightarrow> kmsg \<Rightarrow> kernel \<Rightarrow>
   (mach_msg_return \<times> kernel) option" where
  "mqueue_send_try D self always time_out p kmsg st =
     do { port \<leftarrow> k_ports st p;
          if \<not> ip_active port then
            do { st \<leftarrow> ip_release p st;
                 st \<leftarrow> ip_check_unlock p st;
                 st \<leftarrow> D (kmsg\<lparr>msgh_remote_port := IO_NULL\<rparr>) st;
                 Some (MACH_MSG_SUCCESS, st) }
          else if ip_msgcount port < ip_qlimit port \<or> always \<or>
                  msgh_remote_type kmsg = MACH_MSG_TYPE_PORT_SEND_ONCE then
            do { st \<leftarrow> mqueue_post D p kmsg st; Some (MACH_MSG_SUCCESS, st) }
          else if time_out = Some 0 then Some (MACH_SEND_TIMED_OUT, st)
          else
            do { th \<leftarrow> k_threads st self;
                 let st = set_thread self (th\<lparr>ith_state := MACH_SEND_IN_PROGRESS, th_waiting := True\<rparr>) st;
                 Some (MACH_SEND_IN_PROGRESS,
                   set_port p (port\<lparr>ip_blocked := ipc_thread_enqueue (ip_blocked port) self\<rparr>) st) } }"

text \<open>
  The part of the loop after \<^verbatim>\<open>thread_block\<close>, for a sender that was woken: by a receiver, which
  has taken it off the queue, or by a signal or time-out.
\<close>

definition mqueue_send_resume ::
  "destroyer \<Rightarrow> thread_id \<Rightarrow> wait_result \<Rightarrow> bool \<Rightarrow> nat option \<Rightarrow> port_id \<Rightarrow> kmsg \<Rightarrow> kernel \<Rightarrow>
   (mach_msg_return \<times> kernel) option" where
  "mqueue_send_resume D self wait always time_out p kmsg st =
     do { th \<leftarrow> k_threads st self;
          if ith_state th = MACH_MSG_SUCCESS then mqueue_send_try D self always time_out p kmsg st
          else do {
            kassert (ith_state th = MACH_SEND_IN_PROGRESS);
            port \<leftarrow> k_ports st p;
            blocked \<leftarrow> ipc_thread_rmqueue (ip_blocked port) self;
            let st = set_port p (port\<lparr>ip_blocked := blocked\<rparr>) st;
            case wait of
              THREAD_INTERRUPTED \<Rightarrow> Some (MACH_SEND_INTERRUPTED, st)
            | THREAD_TIMED_OUT \<Rightarrow>
                do { kassert (time_out \<noteq> None);
                     mqueue_send_try D self always (Some 0) p kmsg st }
            | THREAD_RESTART \<Rightarrow> None } }"

partial_function (option) ipc_mqueue_send ::
  "ipc_env \<Rightarrow> destroyer \<Rightarrow> thread_id \<Rightarrow> bool \<Rightarrow> nat option \<Rightarrow> kmsg \<Rightarrow> kernel \<Rightarrow>
   (mach_msg_return \<times> kernel) option"
where
  "ipc_mqueue_send K D self always time_out kmsg st =
     do { p \<leftarrow> obj_port (msgh_remote_port kmsg);
          port \<leftarrow> k_ports st p;
          if ip_data port = D_receiver (Some ipc_space_kernel) then
            do { kassert (ip_active port);
                 res \<leftarrow> kobject_server K kmsg st;
                 case fst res of
                   None \<Rightarrow> Some (MACH_MSG_SUCCESS, snd res)
                 | Some reply \<Rightarrow>
                     do { res \<leftarrow> ipc_mqueue_send K D self True None reply (snd res);
                          kassert (fst res = MACH_MSG_SUCCESS);
                          Some (MACH_MSG_SUCCESS, snd res) } }
          else mqueue_send_try D self always time_out p kmsg st }"

text \<open>\<^verbatim>\<open>ipc_mqueue_send_always\<close>; the caller never blocks, so it is no particular thread.\<close>

definition ipc_mqueue_send_always :: "ipc_env \<Rightarrow> destroyer \<Rightarrow> kmsg \<Rightarrow> kernel \<Rightarrow> kernel option" where
  "ipc_mqueue_send_always K D kmsg st =
     do { (mr, st) \<leftarrow> ipc_mqueue_send K D 0 True None kmsg st;
          kassert (mr = MACH_MSG_SUCCESS);
          Some st }"

section \<open>Notifications\<close>

definition MACH_NOTIFY_PORT_DELETED :: nat where "MACH_NOTIFY_PORT_DELETED = 65"
definition MACH_NOTIFY_MSG_ACCEPTED :: nat where "MACH_NOTIFY_MSG_ACCEPTED = 66"
definition MACH_NOTIFY_PORT_DESTROYED :: nat where "MACH_NOTIFY_PORT_DESTROYED = 69"
definition MACH_NOTIFY_NO_SENDERS :: nat where "MACH_NOTIFY_NO_SENDERS = 70"
definition MACH_NOTIFY_SEND_ONCE :: nat where "MACH_NOTIFY_SEND_ONCE = 71"
definition MACH_NOTIFY_DEAD_NAME :: nat where "MACH_NOTIFY_DEAD_NAME = 72"

text \<open>
  The templates that \<^verbatim>\<open>ipc_notify_init\<close> fills in.  Sizes are those of the structures of
  \<^verbatim>\<open>include/mach/notify.h\<close> on a 64-bit kernel.
\<close>

definition notify_header :: "nat \<Rightarrow> nat \<Rightarrow> kmsg" where
  "notify_header sz mid =
     \<lparr>msgh_remote_type = MACH_MSG_TYPE_PORT_SEND_ONCE, msgh_local_type = 0,
      msgh_complex = False, msgh_circular = False, msgh_size = sz,
      msgh_remote_port = IO_NULL, msgh_local_port = IO_NULL, msgh_id = mid,
      msgh_body = [], ikm_marequest = None\<rparr>"

definition ipc_notify_port_deleted_template :: kmsg where
  "ipc_notify_port_deleted_template = notify_header 48 MACH_NOTIFY_PORT_DELETED"

definition ipc_notify_msg_accepted_template :: kmsg where
  "ipc_notify_msg_accepted_template = notify_header 48 MACH_NOTIFY_MSG_ACCEPTED"

definition ipc_notify_port_destroyed_template :: kmsg where
  "ipc_notify_port_destroyed_template = (notify_header 48 MACH_NOTIFY_PORT_DESTROYED)\<lparr>msgh_complex := True\<rparr>"

definition ipc_notify_no_senders_template :: kmsg where
  "ipc_notify_no_senders_template = notify_header 48 MACH_NOTIFY_NO_SENDERS"

definition ipc_notify_send_once_template :: kmsg where
  "ipc_notify_send_once_template = notify_header 32 MACH_NOTIFY_SEND_ONCE"

definition ipc_notify_dead_name_template :: kmsg where
  "ipc_notify_dead_name_template = notify_header 48 MACH_NOTIFY_DEAD_NAME"

text \<open>
  Each notification allocates a message; if that fails the notification is dropped and
  the send-once right released.
\<close>

definition ipc_notify_port_deleted ::
  "ipc_env \<Rightarrow> destroyer \<Rightarrow> port_id \<Rightarrow> mach_port_name \<Rightarrow> kernel \<Rightarrow> kernel option" where
  "ipc_notify_port_deleted K D port name st =
     (let (ok, st) = k_alloc st in
      if \<not> ok then ipc_port_release_sonce port st
      else ipc_mqueue_send_always K D
             (ipc_notify_port_deleted_template
                \<lparr>msgh_remote_port := IO_PORT port, msgh_body := [Item_Data [name]]\<rparr>) st)"

definition ipc_notify_msg_accepted ::
  "ipc_env \<Rightarrow> destroyer \<Rightarrow> port_id \<Rightarrow> mach_port_name \<Rightarrow> kernel \<Rightarrow> kernel option" where
  "ipc_notify_msg_accepted K D port name st =
     (let (ok, st) = k_alloc st in
      if \<not> ok then ipc_port_release_sonce port st
      else ipc_mqueue_send_always K D
             (ipc_notify_msg_accepted_template
                \<lparr>msgh_remote_port := IO_PORT port, msgh_body := [Item_Data [name]]\<rparr>) st)"

definition ipc_notify_no_senders ::
  "ipc_env \<Rightarrow> destroyer \<Rightarrow> port_id \<Rightarrow> bits32 \<Rightarrow> kernel \<Rightarrow> kernel option" where
  "ipc_notify_no_senders K D port mscount st =
     (let (ok, st) = k_alloc st in
      if \<not> ok then ipc_port_release_sonce port st
      else ipc_mqueue_send_always K D
             (ipc_notify_no_senders_template
                \<lparr>msgh_remote_port := IO_PORT port, msgh_body := [Item_Data [unat mscount]]\<rparr>) st)"

definition ipc_notify_send_once ::
  "ipc_env \<Rightarrow> destroyer \<Rightarrow> port_id \<Rightarrow> kernel \<Rightarrow> kernel option" where
  "ipc_notify_send_once K D port st =
     (let (ok, st) = k_alloc st in
      if \<not> ok then ipc_port_release_sonce port st
      else ipc_mqueue_send_always K D
             (ipc_notify_send_once_template\<lparr>msgh_remote_port := IO_PORT port\<rparr>) st)"

definition ipc_notify_dead_name ::
  "ipc_env \<Rightarrow> destroyer \<Rightarrow> port_id \<Rightarrow> mach_port_name \<Rightarrow> kernel \<Rightarrow> kernel option" where
  "ipc_notify_dead_name K D port name st =
     (let (ok, st) = k_alloc st in
      if \<not> ok then ipc_port_release_sonce port st
      else ipc_mqueue_send_always K D
             (ipc_notify_dead_name_template
                \<lparr>msgh_remote_port := IO_PORT port, msgh_body := [Item_Data [name]]\<rparr>) st)"

text \<open>The message of a port-destroyed notification carries the receive right.\<close>

definition port_destroyed_msg :: "port_id \<Rightarrow> port_id \<Rightarrow> kmsg" where
  "port_destroyed_msg port right =
     ipc_notify_port_destroyed_template
       \<lparr>msgh_remote_port := IO_PORT port,
        msgh_body := [Item_Ports MACH_MSG_TYPE_PORT_RECEIVE [IO_PORT right]]\<rparr>"

section \<open>Send rights and no-senders requests\<close>

definition ipc_port_release_send :: "ipc_env \<Rightarrow> destroyer \<Rightarrow> port_id \<Rightarrow> kernel \<Rightarrow> kernel option" where
  "ipc_port_release_send K D p st =
     do { st \<leftarrow> ip_release p st;
          port \<leftarrow> k_ports st p;
          if \<not> ip_active port then ip_check_unlock p st
          else do {
            kassert (ip_srights port > 0);
            let srights = ip_srights port - 1;
            if srights = 0 \<and> ip_nsrequest port \<noteq> None then
              do { nsrequest \<leftarrow> ip_nsrequest port;
                   ipc_notify_no_senders K D nsrequest (ip_mscount port)
                     (set_port p (port\<lparr>ip_srights := srights, ip_nsrequest := None\<rparr>) st) }
            else Some (set_port p (port\<lparr>ip_srights := srights\<rparr>) st) } }"

definition ipc_port_nsrequest ::
  "ipc_env \<Rightarrow> destroyer \<Rightarrow> port_id \<Rightarrow> bits32 \<Rightarrow> port_id option \<Rightarrow> kernel \<Rightarrow>
   (port_id option \<times> kernel) option" where
  "ipc_port_nsrequest K D p sync notify st =
     do { port \<leftarrow> k_ports st p;
          kassert (ip_active port);
          let previous = ip_nsrequest port;
          let mscount = ip_mscount port;
          if ip_srights port = 0 \<and> sync \<le> mscount \<and> notify \<noteq> None then
            do { n \<leftarrow> notify;
                 st \<leftarrow> ipc_notify_no_senders K D n mscount (set_port p (port\<lparr>ip_nsrequest := None\<rparr>) st);
                 Some (previous, st) }
          else Some (previous, set_port p (port\<lparr>ip_nsrequest := notify\<rparr>) st) }"

section \<open>Destruction of a port\<close>

text \<open>The loop over the messages queued at a dead port.\<close>

partial_function (option) destroy_queued :: "destroyer \<Rightarrow> port_id \<Rightarrow> kernel \<Rightarrow> kernel option" where
  "destroy_queued D p st =
     do { port \<leftarrow> k_ports st p;
          case imq_messages (ip_messages port) of
            [] \<Rightarrow> Some st
          | kmsg # rest \<Rightarrow>
              do { let st = set_port p
                     (port\<lparr>ip_messages := (ip_messages port)\<lparr>imq_messages := rest\<rparr>\<rparr>) st;
                   kassert (msgh_remote_port kmsg = IO_PORT p);
                   st \<leftarrow> ipc_port_release p st;
                   st \<leftarrow> D (kmsg\<lparr>msgh_remote_port := IO_NULL\<rparr>) st;
                   destroy_queued D p st } }"

text \<open>The loop that sends the dead-name notifications.\<close>

fun notify_dead_names ::
  "ipc_env \<Rightarrow> destroyer \<Rightarrow> ipc_port_request list \<Rightarrow> kernel \<Rightarrow> kernel option" where
  "notify_dead_names K D [] st = Some st"
| "notify_dead_names K D (ipr # iprs) st =
     (if ipr_name ipr = MACH_PORT_NAME_NULL then notify_dead_names K D iprs st
      else do {
        soright \<leftarrow> ipr_soright ipr;
        st \<leftarrow> ipc_notify_dead_name K D soright (ipr_name ipr) st;
        notify_dead_names K D iprs st })"

text \<open>The part of \<^verbatim>\<open>ipc_port_destroy\<close> after the check for a backup port.\<close>

definition port_destroy_dead :: "ipc_env \<Rightarrow> destroyer \<Rightarrow> port_id \<Rightarrow> kernel \<Rightarrow> kernel option" where
  "port_destroy_dead K D p st =
     do { port \<leftarrow> k_ports st p;
          st \<leftarrow> wake_all MACH_MSG_SUCCESS (ip_blocked port) st;
          let (timestamp, st) = ipc_port_timestamp st;
          let port = port\<lparr>ip_blocked := [], ip_bits := ip_bits port AND NOT IO_BITS_ACTIVE,
                       ip_data := D_timestamp timestamp\<rparr>;
          let st = set_port p port st;
          st \<leftarrow> (case ip_nsrequest port of
                   None \<Rightarrow> Some st
                 | Some nsrequest \<Rightarrow> ipc_notify_send_once K D nsrequest st);
          port \<leftarrow> k_ports st p;
          kassert (imq_threads (ip_messages port) = []);
          st \<leftarrow> destroy_queued D p st;
          port \<leftarrow> k_ports st p;
          st \<leftarrow> (case ip_dnrequests port of
                   None \<Rightarrow> Some st
                 | Some dnrequests \<Rightarrow> notify_dead_names K D (tl dnrequests) st);
          port \<leftarrow> k_ports st p;
          st \<leftarrow> (if io_kotype (ip_bits port) \<noteq> 0 then kobject_destroy K p st else Some st);
          ipc_port_release p st }"

text \<open>
  \<^verbatim>\<open>ipc_port_destroy\<close>.  With a backup port the port is sent there in a port-destroyed
  notification; if no message can be allocated, \<^verbatim>\<open>ipc_notify_port_destroyed\<close> releases the
  receive right, which destroys the port again, now without a backup.  That branch is
  written out here; \<open>ipc_port_destroy_backup\<close> below folds it.
\<close>

partial_function (option) ipc_port_destroy ::
  "ipc_env \<Rightarrow> destroyer \<Rightarrow> port_id \<Rightarrow> kernel \<Rightarrow> kernel option" where
  "ipc_port_destroy K D p st =
     do { port \<leftarrow> k_ports st p;
          kassert (ip_active port);
          kassert (ip_pset port = None);
          kassert (ip_mscount port = 0);
          kassert (ip_seqno port = 0);
          case ip_pdrequest port of
            None \<Rightarrow> port_destroy_dead K D p st
          | Some pdrequest \<Rightarrow>
              do { let port = port\<lparr>ip_pdrequest := None, ip_receiver_name := MACH_PORT_NAME_NULL,
                                ip_data := D_destination None\<rparr>;
                   let st = set_port p (ipc_port_flag_protected_payload_clear port) st;
                   res \<leftarrow> ipc_port_check_circularity p pdrequest st;
                   if \<not> fst res then
                     (if \<not> fst (k_alloc (snd res)) then
                        do { st \<leftarrow> ipc_port_release_sonce pdrequest (snd (k_alloc (snd res)));
                             port \<leftarrow> k_ports st p;
                             kassert (ip_active port);
                             kassert (ip_receiver_name port = MACH_PORT_NAME_NULL);
                             dest \<leftarrow> ip_destination port;
                             st \<leftarrow> ipc_port_destroy K D p st;
                             case dest of None \<Rightarrow> Some st | Some d \<Rightarrow> ipc_port_release d st }
                      else ipc_mqueue_send_always K D (port_destroyed_msg pdrequest p)
                             (snd (k_alloc (snd res))))
                   else
                     do { st \<leftarrow> ipc_port_release_sonce pdrequest (snd res);
                          port \<leftarrow> k_ports st p;
                          kassert (ip_active port);
                          kassert (ip_pset port = None);
                          kassert (ip_mscount port = 0);
                          kassert (ip_seqno port = 0);
                          kassert (ip_pdrequest port = None);
                          kassert (ip_receiver_name port = MACH_PORT_NAME_NULL);
                          kassert (ip_destination port = Some None);
                          port_destroy_dead K D p st } } }"

definition ipc_port_release_receive :: "ipc_env \<Rightarrow> destroyer \<Rightarrow> port_id \<Rightarrow> kernel \<Rightarrow> kernel option" where
  "ipc_port_release_receive K D p st =
     do { port \<leftarrow> k_ports st p;
          kassert (ip_active port);
          kassert (ip_receiver_name port = MACH_PORT_NAME_NULL);
          dest \<leftarrow> ip_destination port;
          st \<leftarrow> ipc_port_destroy K D p st;
          case dest of None \<Rightarrow> Some st | Some d \<Rightarrow> ipc_port_release d st }"

definition ipc_notify_port_destroyed ::
  "ipc_env \<Rightarrow> destroyer \<Rightarrow> port_id \<Rightarrow> port_id \<Rightarrow> kernel \<Rightarrow> kernel option" where
  "ipc_notify_port_destroyed K D port right st =
     (let (ok, st) = k_alloc st in
      if \<not> ok then
        do { st \<leftarrow> ipc_port_release_sonce port st; ipc_port_release_receive K D right st }
      else ipc_mqueue_send_always K D (port_destroyed_msg port right) st)"

definition ipc_port_dealloc_special ::
  "ipc_env \<Rightarrow> destroyer \<Rightarrow> port_id \<Rightarrow> space_id \<Rightarrow> kernel \<Rightarrow> kernel option" where
  "ipc_port_dealloc_special K D p space st =
     do { port \<leftarrow> k_ports st p;
          kassert (ip_active port);
          kassert (ip_receiver_name port \<noteq> MACH_PORT_NAME_NULL);
          kassert (ip_data port = D_receiver (Some space));
          let st = set_port p (port\<lparr>ip_receiver_name := MACH_PORT_NAME_NULL,
                                     ip_data := D_receiver None\<rparr>) st;
          st \<leftarrow> ipc_port_clear_receiver p st;
          ipc_port_destroy K D p st }"

section \<open>Sending to a queue\<close>

lemma mq_offer_delivery:
  assumes "mqueue_ok (k_threads st) mqueue" "k_ports st p = Some port"
  shows "\<exists>us mqueue' T.
    mq_offer kmsg p (imq_messages mqueue) (imq_threads mqueue) st =
      Some (us \<noteq> [], imq_threads mqueue',
        set_port p (port\<lparr>ip_seqno := ip_seqno port + of_nat (length us)\<rparr>) (st\<lparr>k_threads := T\<rparr>)) \<and>
    imq_messages mqueue' = (if us \<noteq> [] then imq_messages mqueue else ipc_kmsg_enqueue (imq_messages mqueue) kmsg) \<and>
    delivery (k_threads st) (imq_threads mqueue) (imq_messages mqueue) [kmsg] (ip_seqno port) us mqueue' T"
proof -
  have w: "waiters_ok (k_threads st) (imq_threads mqueue)" "imq_messages mqueue = [] \<or> imq_threads mqueue = []"
    using assms(1) by (simp_all add: mqueue_ok_def)
  show ?thesis
  proof (cases rule: mq_offer_ok [OF w assms(2), of kmsg])
    case (1 skipped t rest T)
    have d: "distinct (skipped @ t # rest)" using w(1) 1(2) by (simp add: waiters_ok_def)
    have T: "T u = k_threads st u" if "u \<in> set rest \<or> u \<notin> set (imq_threads mqueue)" for u
      using that 1(2) d by (intro 1(5)) auto
    then have "waiters_ok T rest" using w(1) 1(2) d unfolding waiters_ok_def by (fastforce simp: dom_def)
    moreover have "set (imq_threads mqueue) - {t} - set rest = set skipped" using 1(2) d by auto
    ultimately have "delivery (k_threads st) (imq_threads mqueue) (imq_messages mqueue) [kmsg] (ip_seqno port) [t]
        \<lparr>imq_messages = imq_messages mqueue, imq_threads = rest\<rparr> T"
      using 1 w(2) d T by (auto simp: delivery_def)
    then show ?thesis
      using 1(1) by (intro exI [of _ "[t]"] exI [of _ "\<lparr>imq_messages = imq_messages mqueue, imq_threads = rest\<rparr>"] exI [of _ T]) simp
  next
    case (2 T)
    have "delivery (k_threads st) (imq_threads mqueue) (imq_messages mqueue) [kmsg] (ip_seqno port) []
        \<lparr>imq_messages = imq_messages mqueue @ [kmsg], imq_threads = []\<rparr> T"
      using 2(2,3) by (simp add: delivery_def waiters_ok_def)
    then show ?thesis
      using 2(1) assms(2)
      by (intro exI [of _ "[]"] exI [of _ "\<lparr>imq_messages = imq_messages mqueue @ [kmsg], imq_threads = []\<rparr>"] exI [of _ T])
        (simp add: ipc_kmsg_enqueue_def set_port_id)
  qed
qed

lemma mqueue_post_ok:
  assumes "k_ports st p = Some port" "ip_pset port = None" "mqueue_ok (k_threads st) (ip_messages port)"
    "\<not> msgh_circular kmsg" "ip_msgcount port + 1 \<noteq> 0"
  shows "\<exists>us mqueue T.
    mqueue_post D p kmsg st =
      Some (set_port p (port\<lparr>ip_msgcount := ip_msgcount port + 1,
              ip_seqno := ip_seqno port + of_nat (length us), ip_messages := mqueue\<rparr>) (st\<lparr>k_threads := T\<rparr>)) \<and>
    delivery (k_threads st) (imq_threads (ip_messages port)) (imq_messages (ip_messages port)) [kmsg]
      (ip_seqno port) us mqueue T"
proof -
  define port1 where "port1 = port\<lparr>ip_msgcount := ip_msgcount port + 1\<rparr>"
  obtain us mqueue T where m: "mq_offer kmsg p (imq_messages (ip_messages port)) (imq_threads (ip_messages port)) (set_port p port1 st) =
      Some (us \<noteq> [], imq_threads mqueue,
        set_port p (port1\<lparr>ip_seqno := ip_seqno port + of_nat (length us)\<rparr>) (st\<lparr>k_threads := T\<rparr>))"
    "imq_messages mqueue = (if us \<noteq> [] then imq_messages (ip_messages port)
       else ipc_kmsg_enqueue (imq_messages (ip_messages port)) kmsg)"
    and d: "delivery (k_threads st) (imq_threads (ip_messages port)) (imq_messages (ip_messages port)) [kmsg]
      (ip_seqno port) us mqueue T"
    using mq_offer_delivery [of "set_port p port1 st" "ip_messages port" p port1 kmsg] assms(3)
    by (auto simp: port1_def)
  have e: "\<lparr>imq_messages = (if us \<noteq> [] then imq_messages (ip_messages port)
       else ipc_kmsg_enqueue (imq_messages (ip_messages port)) kmsg), imq_threads = imq_threads mqueue\<rparr> = mqueue"
    using m(2) mqueue_eta [of mqueue] by simp
  show ?thesis
    using assms(1,2,4,5) m(1) e d
    by (intro exI [of _ us] exI [of _ mqueue] exI [of _ T])
      (simp add: mqueue_post_def port1_def word_gt_0 Let_def del: mqueue_eta)
qed

lemma mqueue_send_try_active:
  assumes "k_ports st p = Some port" "ip_active port"
  shows "mqueue_send_try D self always time_out p kmsg st =
    (if ip_msgcount port < ip_qlimit port \<or> always \<or> msgh_remote_type kmsg = MACH_MSG_TYPE_PORT_SEND_ONCE then
       do { st \<leftarrow> mqueue_post D p kmsg st; Some (MACH_MSG_SUCCESS, st) }
     else if time_out = Some 0 then Some (MACH_SEND_TIMED_OUT, st)
     else do { th \<leftarrow> k_threads st self;
               Some (MACH_SEND_IN_PROGRESS,
                 set_port p (port\<lparr>ip_blocked := ipc_thread_enqueue (ip_blocked port) self\<rparr>)
                   (set_thread self (th\<lparr>ith_state := MACH_SEND_IN_PROGRESS, th_waiting := True\<rparr>) st)) })"
  using assms by (simp add: mqueue_send_try_def)

lemma ipc_mqueue_send_user:
  assumes "msgh_remote_port kmsg = IO_PORT p" "k_ports st p = Some port" "ip_data port \<noteq> D_receiver (Some ipc_space_kernel)"
  shows "ipc_mqueue_send K D self always time_out kmsg st = mqueue_send_try D self always time_out p kmsg st"
  using assms by (subst ipc_mqueue_send.simps) (simp add: obj_port_def)

section \<open>Notifications\<close>

text \<open>
  A port that takes notifications: alive, with a receiver outside the kernel, in no port
  set, and at the moment without a thread that waits at it.  A message sent there is queued.
\<close>

definition takes_notifications :: "ipc_port \<Rightarrow> bool" where
  "takes_notifications port =
     (ip_active port \<and> ip_data port \<noteq> D_receiver (Some ipc_space_kernel) \<and> ip_pset port = None \<and>
      imq_threads (ip_messages port) = [])"

definition queue_msgs :: "kmsg list \<Rightarrow> ipc_port \<Rightarrow> ipc_port" where
  "queue_msgs ms port =
     port\<lparr>ip_msgcount := ip_msgcount port + of_nat (length ms),
          ip_messages := (ip_messages port)\<lparr>imq_messages := imq_messages (ip_messages port) @ ms\<rparr>\<rparr>"

lemma queue_msgs_Nil [simp]: "queue_msgs [] port = port"
  by (simp add: queue_msgs_def)

lemma queue_msgs_append: "queue_msgs ms' (queue_msgs ms port) = queue_msgs (ms @ ms') port"
  by (simp add: queue_msgs_def add.assoc)

lemma takes_queue_msgs [simp]: "takes_notifications (queue_msgs ms port) = takes_notifications port"
  by (simp add: takes_notifications_def queue_msgs_def)

lemma send_queued:
  assumes "msgh_remote_port kmsg = IO_PORT n" "k_ports st n = Some port" "takes_notifications port"
    "\<not> msgh_circular kmsg" "ip_msgcount port + 1 \<noteq> 0"
    "ip_msgcount port < ip_qlimit port \<or> always \<or> msgh_remote_type kmsg = MACH_MSG_TYPE_PORT_SEND_ONCE"
  shows "ipc_mqueue_send K D self always time_out kmsg st =
         Some (MACH_MSG_SUCCESS, set_port n (queue_msgs [kmsg] port) st)"
proof -
  have t: "ip_active port" "ip_data port \<noteq> D_receiver (Some ipc_space_kernel)" "ip_pset port = None"
    "imq_threads (ip_messages port) = []"
    using assms(3) by (simp_all add: takes_notifications_def)
  then have "mqueue_ok (k_threads st) (ip_messages port)" by (simp add: mqueue_ok_def waiters_ok_def)
  from mqueue_post_ok [OF assms(2) t(3) this assms(4,5), of D] t(4)
  have "mqueue_post D n kmsg st = Some (set_port n (queue_msgs [kmsg] port) st)"
    by (auto simp: delivery_Nil queue_msgs_def mqueue_no_threads)
      (metis mqueue_eta ipc_mqueue.update_convs(1))
  then show ?thesis
    using ipc_mqueue_send_user [OF assms(1,2) t(2)] mqueue_send_try_active [OF assms(2) t(1)] assms(6) by simp
qed

text \<open>The messages of the notifications.\<close>

definition no_senders_msg :: "port_id \<Rightarrow> bits32 \<Rightarrow> kmsg" where
  "no_senders_msg n mscount = ipc_notify_no_senders_template
     \<lparr>msgh_remote_port := IO_PORT n, msgh_body := [Item_Data [unat mscount]]\<rparr>"

definition dead_name_msg :: "port_id \<Rightarrow> mach_port_name \<Rightarrow> kmsg" where
  "dead_name_msg n name = ipc_notify_dead_name_template
     \<lparr>msgh_remote_port := IO_PORT n, msgh_body := [Item_Data [name]]\<rparr>"

lemma send_always_queued:
  assumes "msgh_remote_port kmsg = IO_PORT n" "k_ports st n = Some port" "takes_notifications port"
    "\<not> msgh_circular kmsg" "ip_msgcount port + 1 \<noteq> 0"
  shows "ipc_mqueue_send_always K D kmsg st = Some (set_port n (queue_msgs [kmsg] port) st)"
  using send_queued [OF assms, of True] by (simp add: ipc_mqueue_send_always_def)

lemma k_alloc_Nil: "k_mem st = [] \<Longrightarrow> k_alloc st = (True, st)"
  by (simp add: k_alloc_def kmem_cache_alloc_def)

lemma ipc_notify_no_senders_queued:
  assumes "k_ports st n = Some port" "takes_notifications port" "ip_msgcount port + 1 \<noteq> 0" "k_mem st = []"
  shows "ipc_notify_no_senders K D n mscount st = Some (set_port n (queue_msgs [no_senders_msg n mscount] port) st)"
proof -
  show ?thesis
    using send_always_queued [OF _ assms(1,2) _ assms(3), of "no_senders_msg n mscount" K D] k_alloc_Nil [OF assms(4)]
    by (simp add: ipc_notify_no_senders_def no_senders_msg_def ipc_notify_no_senders_template_def notify_header_def)
qed

lemma ipc_notify_dead_name_queued:
  assumes "k_ports st n = Some port" "takes_notifications port" "ip_msgcount port + 1 \<noteq> 0" "k_mem st = []"
  shows "ipc_notify_dead_name K D n name st = Some (set_port n (queue_msgs [dead_name_msg n name] port) st)"
proof -
  show ?thesis
    using send_always_queued [OF _ assms(1,2) _ assms(3), of "dead_name_msg n name" K D] k_alloc_Nil [OF assms(4)]
    by (simp add: ipc_notify_dead_name_def dead_name_msg_def ipc_notify_dead_name_template_def notify_header_def)
qed

text \<open>The dead-name notifications that a table of requests asks for at the port \<open>n\<close>.\<close>

fun dead_name_msgs :: "port_id \<Rightarrow> ipc_port_request list \<Rightarrow> kmsg list" where
  "dead_name_msgs n [] = []"
| "dead_name_msgs n (ipr # iprs) =
     (if ipr_name ipr \<noteq> MACH_PORT_NAME_NULL \<and> ipr_notify ipr = N_port n
      then dead_name_msg n (ipr_name ipr) # dead_name_msgs n iprs else dead_name_msgs n iprs)"

definition dead_names_notified :: "ipc_port_request list \<Rightarrow> kernel \<Rightarrow> kernel" where
  "dead_names_notified iprs st =
     st\<lparr>k_ports := (\<lambda>n. map_option (queue_msgs (dead_name_msgs n iprs)) (k_ports st n))\<rparr>"

text \<open>Every request in use names a port that takes notifications, with room in its message count.\<close>

definition requests_ok :: "ipc_port_request list \<Rightarrow> kernel \<Rightarrow> bool" where
  "requests_ok iprs st =
     (\<forall>ipr \<in> set iprs. ipr_name ipr \<noteq> MACH_PORT_NAME_NULL \<longrightarrow>
        (\<exists>n port. ipr_notify ipr = N_port n \<and> k_ports st n = Some port \<and> takes_notifications port \<and>
           unat (ip_msgcount port) + length (dead_name_msgs n iprs) < 2 ^ 32))"

lemma unat_succ_ne_0: "unat x + Suc k < 2 ^ LENGTH('a) \<Longrightarrow> x + 1 \<noteq> (0 :: 'a::len word)"
  using unat_succ [of x] by (metis Suc_lessD add_Suc_right le_add1 le_less_trans nat.simps(3) not_less_eq unat_0 less_eq_Suc_le)

lemma notify_dead_names_ok:
  assumes "requests_ok iprs st" "k_mem st = []"
  shows "notify_dead_names K D iprs st = Some (dead_names_notified iprs st)"
  using assms
proof (induction iprs arbitrary: st)
  case Nil
  have "(\<lambda>n. map_option (queue_msgs []) (k_ports st n)) = k_ports st"
    by (auto simp: fun_eq_iff option.map_comp o_def map_option_case split: option.splits)
  then show ?case by (simp add: dead_names_notified_def)
next
  case (Cons ipr iprs)
  show ?case
  proof (cases "ipr_name ipr = MACH_PORT_NAME_NULL")
    case True
    then have "requests_ok iprs st" using Cons.prems(1) by (simp add: requests_ok_def)
    then show ?thesis using Cons.IH Cons.prems(2) True by (simp add: dead_names_notified_def)
  next
    case False
    then obtain n port where n: "ipr_notify ipr = N_port n" "k_ports st n = Some port" "takes_notifications port"
      "unat (ip_msgcount port) + length (dead_name_msgs n (ipr # iprs)) < 2 ^ 32"
      using Cons.prems(1) by (auto simp: requests_ok_def)
    define st1 where "st1 = set_port n (queue_msgs [dead_name_msg n (ipr_name ipr)] port) st"
    have "ip_msgcount port + 1 \<noteq> 0" using n(1,4) False by (intro unat_succ_ne_0 [of _ "length (dead_name_msgs n iprs)"]) simp
    then have run: "ipc_notify_dead_name K D n (ipr_name ipr) st = Some st1"
      unfolding st1_def by (rule ipc_notify_dead_name_queued [OF n(2,3) _ Cons.prems(2)])
    have cnt: "unat (ip_msgcount port + 1) = Suc (unat (ip_msgcount port))"
      using n(1,4) False by (intro unat_succ) simp
    have "requests_ok iprs st1"
      unfolding requests_ok_def
    proof (intro ballI impI)
      fix ipr' assume "ipr' \<in> set iprs" "ipr_name ipr' \<noteq> MACH_PORT_NAME_NULL"
      then obtain n' port' where n': "ipr_notify ipr' = N_port n'" "k_ports st n' = Some port'"
        "takes_notifications port'" "unat (ip_msgcount port') + length (dead_name_msgs n' (ipr # iprs)) < 2 ^ 32"
        using Cons.prems(1) unfolding requests_ok_def by (meson list.set_intros(2))
      show "\<exists>m port. ipr_notify ipr' = N_port m \<and> k_ports st1 m = Some port \<and> takes_notifications port \<and>
           unat (ip_msgcount port) + length (dead_name_msgs m iprs) < 2 ^ 32"
      proof (cases "n' = n")
        case True
        then show ?thesis using n n' cnt False
          by (intro exI [of _ n] exI [of _ "queue_msgs [dead_name_msg n (ipr_name ipr)] port"])
            (simp add: st1_def, simp add: queue_msgs_def)
      next
        case False
        then show ?thesis using n(1) n' by (intro exI [of _ n'] exI [of _ port']) (auto simp: st1_def split: if_splits)
      qed
    qed
    then have "notify_dead_names K D iprs st1 = Some (dead_names_notified iprs st1)"
      using Cons.IH Cons.prems(2) by (simp add: st1_def)
    moreover have "dead_names_notified iprs st1 = dead_names_notified (ipr # iprs) st"
    proof -
      have "map_option (queue_msgs (dead_name_msgs m iprs)) (k_ports st1 m) =
          map_option (queue_msgs (dead_name_msgs m (ipr # iprs))) (k_ports st m)" for m
        using n(1,2) False by (auto simp: st1_def queue_msgs_append)
      then show ?thesis by (simp add: dead_names_notified_def st1_def set_port_def)
    qed
    ultimately show ?thesis using False n(1) run by simp
  qed
qed

section \<open>Ports with a backup\<close>

text \<open>The branch of \<^verbatim>\<open>ipc_port_destroy\<close> for a backup port that can be sent the port.\<close>

lemma ipc_port_destroy_backup:
  assumes "k_ports st p = Some port" "ip_active port" "ip_pset port = None" "ip_mscount port = 0"
    "ip_seqno port = 0" "ip_pdrequest port = Some pdrequest"
    and "ipc_port_check_circularity p pdrequest
           (set_port p (ipc_port_flag_protected_payload_clear
              (port\<lparr>ip_pdrequest := None, ip_receiver_name := MACH_PORT_NAME_NULL,
                    ip_data := D_destination None\<rparr>)) st) = Some (False, st')"
  shows "ipc_port_destroy K D p st = ipc_notify_port_destroyed K D pdrequest p st'"
proof -
  have "ipc_port_destroy K D p st =
      (if \<not> fst (k_alloc st') then
         do { st \<leftarrow> ipc_port_release_sonce pdrequest (snd (k_alloc st'));
              ipc_port_release_receive K D p st }
       else ipc_mqueue_send_always K D (port_destroyed_msg pdrequest p) (snd (k_alloc st')))"
    using assms by (subst ipc_port_destroy.simps) (simp add: ipc_port_release_receive_def [abs_def])
  then show ?thesis by (simp add: ipc_notify_port_destroyed_def split: prod.splits)
qed

lemma flag_clear_simps [simp]:
  "ip_receiver_name (ipc_port_flag_protected_payload_clear port) = ip_receiver_name port"
  "ip_data (ipc_port_flag_protected_payload_clear port) = ip_data port"
  "ip_references (ipc_port_flag_protected_payload_clear port) = ip_references port"
  "ip_srights (ipc_port_flag_protected_payload_clear port) = ip_srights port"
  "ip_sorights (ipc_port_flag_protected_payload_clear port) = ip_sorights port"
  "ip_mscount (ipc_port_flag_protected_payload_clear port) = ip_mscount port"
  "ip_seqno (ipc_port_flag_protected_payload_clear port) = ip_seqno port"
  "ip_pset (ipc_port_flag_protected_payload_clear port) = ip_pset port"
  "ip_messages (ipc_port_flag_protected_payload_clear port) = ip_messages port"
  "ip_msgcount (ipc_port_flag_protected_payload_clear port) = ip_msgcount port"
  "ip_nsrequest (ipc_port_flag_protected_payload_clear port) = ip_nsrequest port"
  "ip_pdrequest (ipc_port_flag_protected_payload_clear port) = ip_pdrequest port"
  "ip_dnrequests (ipc_port_flag_protected_payload_clear port) = ip_dnrequests port"
  by (simp_all add: ipc_port_flag_protected_payload_clear_def)

lemma io_active_bit: "io_active bits = bit bits 31"
proof -
  have "bit bits (LENGTH(32) - Suc 0) = (sint bits < 0)" by (rule bit_last_iff)
  then show ?thesis unfolding io_active_def by simp
qed

lemma io_active_flag [simp]:
  "io_active (bits AND NOT IO_BITS_PROTECTED_PAYLOAD) = io_active bits"
  "\<not> io_active (bits AND NOT IO_BITS_ACTIVE)"
proof -
  have "\<not> bit IO_BITS_PROTECTED_PAYLOAD 31" "bit IO_BITS_ACTIVE 31"
    by (simp_all add: IO_BITS_PROTECTED_PAYLOAD_def IO_BITS_ACTIVE_def)
  then show "io_active (bits AND NOT IO_BITS_PROTECTED_PAYLOAD) = io_active bits"
    "\<not> io_active (bits AND NOT IO_BITS_ACTIVE)"
    by (simp_all add: io_active_bit bit_and_iff bit_not_iff)
qed


lemma check_circularity_False:
  assumes "ipc_port_check_circularity p dest st = Some (False, st')" "k_ports st p = Some port" "k_ports st dest = Some dport"
  shows "p \<noteq> dest" "st' = set_port p (port\<lparr>ip_data := D_destination (Some dest)\<rparr>)
                           (set_port dest (dport\<lparr>ip_references := ip_references dport + 1\<rparr>) st)"
proof -
  show "p \<noteq> dest" using assms(1) by (auto simp: ipc_port_check_circularity_def)
  then show "st' = set_port p (port\<lparr>ip_data := D_destination (Some dest)\<rparr>)
      (set_port dest (dport\<lparr>ip_references := ip_references dport + 1\<rparr>) st)"
    using assms by (auto simp: ipc_port_check_circularity_def ip_reference_def split: bind_splits if_splits)
qed

lemma transit_wf_upd:
  assumes "transit_wf st" "k_ports st p = Some port" "in_transit port' = Some t"
    "transit_dest (set_port p port' st) = transit_dest st"
  shows "transit_wf (set_port p port' st)"
proof -
  have "transit_rel (set_port p port' st) = transit_rel st" using assms(4) by (simp add: transit_rel_def)
  then show ?thesis using assms unfolding transit_wf_def by auto
qed

lemma transit_wf_queue:
  assumes "transit_wf st" "k_ports st p = Some port"
  shows "transit_wf (set_port p (queue_msgs ms port) st)"
    "transit_dest (set_port p (queue_msgs ms port) st) = transit_dest st"
proof -
  have e: "in_transit (queue_msgs ms port) = in_transit port" "ip_destination (queue_msgs ms port) = ip_destination port"
    by (simp_all add: in_transit_def queue_msgs_def)
  show d: "transit_dest (set_port p (queue_msgs ms port) st) = transit_dest st"
    by (rule transit_dest_upd [OF e assms(2)])
  obtain t where "in_transit port = Some t" using assms unfolding transit_wf_def by blast
  then show "transit_wf (set_port p (queue_msgs ms port) st)"
    using e(1) by (intro transit_wf_upd [OF assms _ d]) simp
qed

text \<open>A receive right that leaves its space.\<close>

lemma transit_wf_leave:
  assumes "transit_wf st" "k_ports st p = Some port"
    "ip_receiver_name port \<noteq> MACH_PORT_NAME_NULL \<or> ip_destination port = Some None"
    "ip_receiver_name port' = MACH_PORT_NAME_NULL" "ip_data port' = D_destination None"
  shows "transit_wf (set_port p port' st)" "transit_dest (set_port p port' st) = transit_dest st"
proof -
  have "transit_dest st p = None" using assms(2,3) by (auto simp: transit_dest_port in_transit_def)
  then show d: "transit_dest (set_port p port' st) = transit_dest st"
    using assms(4,5) by (auto simp: transit_dest_def fun_eq_iff in_transit_def)
  show "transit_wf (set_port p port' st)"
    using assms(4,5) by (intro transit_wf_upd [OF assms(1,2) _ d, of False]) (simp add: in_transit_def)
qed

section \<open>Properties\<close>

text \<open>For the examples: a kernel without servers, where no message has to be destroyed.\<close>

definition no_kobjects :: ipc_env where
  "no_kobjects = \<lparr>kobject_server = (\<lambda>_ _. None), kobject_destroy = (\<lambda>_ _. None)\<rparr>"

definition no_destroy :: destroyer where
  "no_destroy = (\<lambda>_ _. None)"

text \<open>
  C16: Sending to a live port outside the kernel.  While the queue has room, or for messages that
  may always be sent, the message goes to a waiting thread with a buffer that is large
  enough, or else to the end of the queue.  If the queue is full, a sender that may not
  wait gets a time-out and nothing changes, and otherwise it waits and only the list of blocked
  senders changes.
\<close>

theorem ipc_mqueue_send_correct:
  assumes "msgh_remote_port kmsg = IO_PORT p" "k_ports st p = Some port" "ip_active port"
    "ip_data port \<noteq> D_receiver (Some ipc_space_kernel)" "ip_pset port = None"
    "mqueue_ok (k_threads st) (ip_messages port)" "\<not> msgh_circular kmsg" "ip_msgcount port + 1 \<noteq> 0"
    "k_threads st self = Some th"
    and "room = (ip_msgcount port < ip_qlimit port \<or> always \<or> msgh_remote_type kmsg = MACH_MSG_TYPE_PORT_SEND_ONCE)"
  shows "if room then
      (\<exists>us mqueue T.
         ipc_mqueue_send K D self always time_out kmsg st =
           Some (MACH_MSG_SUCCESS, set_port p (port\<lparr>ip_msgcount := ip_msgcount port + 1,
              ip_seqno := ip_seqno port + of_nat (length us), ip_messages := mqueue\<rparr>) (st\<lparr>k_threads := T\<rparr>)) \<and>
         delivery (k_threads st) (imq_threads (ip_messages port)) (imq_messages (ip_messages port)) [kmsg]
           (ip_seqno port) us mqueue T)
    else if time_out = Some 0 then
      ipc_mqueue_send K D self always time_out kmsg st = Some (MACH_SEND_TIMED_OUT, st)
    else
      ipc_mqueue_send K D self always time_out kmsg st =
        Some (MACH_SEND_IN_PROGRESS, set_port p (port\<lparr>ip_blocked := self # ip_blocked port\<rparr>)
          (set_thread self (th\<lparr>ith_state := MACH_SEND_IN_PROGRESS, th_waiting := True\<rparr>) st))"
proof -
  have "ipc_mqueue_send K D self always time_out kmsg st = mqueue_send_try D self always time_out p kmsg st"
    by (rule ipc_mqueue_send_user [OF assms(1,2,4)])
  then have e: "ipc_mqueue_send K D self always time_out kmsg st =
      (if room then do { st \<leftarrow> mqueue_post D p kmsg st; Some (MACH_MSG_SUCCESS, st) }
       else if time_out = Some 0 then Some (MACH_SEND_TIMED_OUT, st)
       else Some (MACH_SEND_IN_PROGRESS, set_port p (port\<lparr>ip_blocked := self # ip_blocked port\<rparr>)
          (set_thread self (th\<lparr>ith_state := MACH_SEND_IN_PROGRESS, th_waiting := True\<rparr>) st)))"
    unfolding mqueue_send_try_active [OF assms(2,3)] assms(10) [symmetric] ipc_thread_enqueue_def
    using assms(9) by simp
  obtain us mqueue T where "mqueue_post D p kmsg st =
      Some (set_port p (port\<lparr>ip_msgcount := ip_msgcount port + 1,
              ip_seqno := ip_seqno port + of_nat (length us), ip_messages := mqueue\<rparr>) (st\<lparr>k_threads := T\<rparr>))"
    and "delivery (k_threads st) (imq_threads (ip_messages port)) (imq_messages (ip_messages port)) [kmsg]
      (ip_seqno port) us mqueue T"
    using mqueue_post_ok [OF assms(2,5,6,7,8), of D] by blast
  then show ?thesis
    unfolding e by (cases room; cases "time_out = Some 0") (auto intro!: exI [of _ us] exI [of _ mqueue] exI [of _ T])
qed

theorem ipc_mqueue_send_correct_witness:
  "ipc_mqueue_send no_kobjects no_destroy 3 False (Some 0) (example_msg 5 1)
     (set_port 5 new_port (set_thread 3 example_thread kernel_empty)) =
   Some (MACH_SEND_TIMED_OUT, set_port 5 new_port (set_thread 3 example_thread kernel_empty))"
  using ipc_mqueue_send_correct [of "example_msg 5 1" 5 "set_port 5 new_port (set_thread 3 example_thread kernel_empty)"
      new_port 3 example_thread False False no_kobjects no_destroy "Some 0"]
  by (simp add: mqueue_ok_def waiters_ok_def example_msg_def MACH_MSG_TYPE_PORT_SEND_def
      MACH_MSG_TYPE_PORT_SEND_ONCE_def MACH_MSG_TYPE_MOVE_SEND_def MACH_MSG_TYPE_MOVE_SEND_ONCE_def)



text \<open>
  C32: Releasing a send right sends the no-senders notification that was asked for exactly
  if it was the last send right, once, with the make-send count of the port; otherwise no other port
  changes.
\<close>

theorem ipc_port_release_send_correct:
  assumes "k_ports st p = Some port" "ip_active port" "ip_srights port > 0" "ip_nsrequest port = Some n"
    and "n \<noteq> p" "k_ports st n = Some nport" "takes_notifications nport" "ip_msgcount nport + 1 \<noteq> 0" "k_mem st = []"
  shows "ipc_port_release_send K D p st =
    Some (if ip_srights port = 1 then
            set_port n (queue_msgs [no_senders_msg n (ip_mscount port)] nport)
              (set_port p (port\<lparr>ip_references := ip_references port - 1, ip_srights := 0, ip_nsrequest := None\<rparr>) st)
          else set_port p (port\<lparr>ip_references := ip_references port - 1, ip_srights := ip_srights port - 1\<rparr>) st)"
proof (cases "ip_srights port = 1")
  case True
  then show ?thesis
    using assms
    by (simp add: ipc_port_release_send_def ip_release_def ipc_notify_no_senders_queued)
next
  case False
  then show ?thesis using assms by (simp add: ipc_port_release_send_def ip_release_def)
qed

theorem ipc_port_release_send_correct_witness:
  "\<exists>st' nport'. ipc_port_release_send no_kobjects no_destroy 5
      (set_port 6 new_port (set_port 5 (new_port\<lparr>ip_srights := 1, ip_mscount := 4, ip_nsrequest := Some 6\<rparr>) kernel_empty)) =
        Some st' \<and>
     k_ports st' 6 = Some nport' \<and> imq_messages (ip_messages nport') = [no_senders_msg 6 4]"
  using ipc_port_release_send_correct [of
      "set_port 6 new_port (set_port 5 (new_port\<lparr>ip_srights := 1, ip_mscount := 4, ip_nsrequest := Some 6\<rparr>) kernel_empty)"
      5 "new_port\<lparr>ip_srights := 1, ip_mscount := 4, ip_nsrequest := Some 6\<rparr>" 6 new_port no_kobjects no_destroy]
  by (simp add: takes_notifications_def queue_msgs_def)



end
