(* ===== verification/Ipc_Kmsg.thy ===== *)
theory Ipc_Kmsg
  imports Ipc_Notify
begin

text \<open>
  Msg-accepted requests (\<^verbatim>\<open>ipc/ipc_marequest.c\<close>), the destruction of messages
  (\<^verbatim>\<open>ipc/ipc_kmsg.c\<close>) and of naked rights (\<^verbatim>\<open>ipc_object_destroy\<close>), and the receiving side of message
  queues (\<^verbatim>\<open>ipc/ipc_mqueue.c\<close>).
\<close>

section \<open>Finding the name of a port\<close>

text \<open>\<^verbatim>\<open>ipc_right_lookup_write\<close> and \<^verbatim>\<open>ipc_right_reverse\<close> of \<^verbatim>\<open>ipc/ipc_right.c\<close>.\<close>

definition ipc_right_lookup_write ::
  "space_id \<Rightarrow> mach_port_name \<Rightarrow> kernel \<Rightarrow> (kern_return \<times> nat) option" where
  "ipc_right_lookup_write space name st =
     do { sp \<leftarrow> k_spaces st space;
          if \<not> is_active sp then Some (KERN_INVALID_TASK, 0)
          else do {
            entry \<leftarrow> ipc_entry_lookup sp name;
            Some (if entry = None then (KERN_INVALID_NAME, 0) else (KERN_SUCCESS, name)) } }"

definition ipc_right_reverse ::
  "space_id \<Rightarrow> ipc_object \<Rightarrow> kernel \<Rightarrow> (mach_port_name \<times> nat) option option" where
  "ipc_right_reverse space object st =
     do { sp \<leftarrow> k_spaces st space;
          kassert (is_active sp);
          p \<leftarrow> obj_port object;
          port \<leftarrow> k_ports st p;
          if \<not> ip_active port then Some None
          else if ip_data port = D_receiver (Some space) then
            do { let name = ip_receiver_name port;
                 kassert (name \<noteq> MACH_PORT_NAME_NULL);
                 entry \<leftarrow> ipc_entry_lookup sp name;
                 entry \<leftarrow> entry;
                 kassert (ie_bits entry AND MACH_PORT_TYPE_RECEIVE \<noteq> 0);
                 kassert (ie_object entry = IO_PORT p);
                 Some (Some (name, name)) }
          else case ipc_reverse_lookup sp p of
            None \<Rightarrow> Some None
          | Some e \<Rightarrow>
              do { entry \<leftarrow> is_entries sp e;
                   kassert (IE_BITS_TYPE (ie_bits entry) = MACH_PORT_TYPE_SEND);
                   kassert (ie_object entry = IO_PORT p);
                   Some (Some (ie_name entry, e)) } }"

section \<open>Msg-accepted requests\<close>

definition IPC_MAREQUEST_SIZE :: nat where "IPC_MAREQUEST_SIZE = 16"

text \<open>Spaces are at addresses, of which the hash uses the bits from the fourth on.\<close>

definition IMAR_HASH :: "space_id \<Rightarrow> mach_port_name \<Rightarrow> nat" where
  "IMAR_HASH space name = (space div 16 + name) mod IPC_MAREQUEST_SIZE"

definition set_entry_in :: "space_id \<Rightarrow> nat \<Rightarrow> (ipc_entry \<Rightarrow> ipc_entry) \<Rightarrow> kernel \<Rightarrow> kernel option" where
  "set_entry_in space e f st =
     do { sp \<leftarrow> k_spaces st space;
          entry \<leftarrow> is_entries sp e;
          sp \<leftarrow> set_entry sp e (f entry);
          Some (set_space space sp st) }"

definition marequest_push :: "nat \<Rightarrow> marequest_id \<Rightarrow> kernel \<Rightarrow> kernel" where
  "marequest_push h r st =
     st\<lparr>k_marequest_table := (k_marequest_table st)(h := r # k_marequest_table st h)\<rparr>"

definition ipc_marequest_create ::
  "space_id \<Rightarrow> port_id \<Rightarrow> mach_port_name \<Rightarrow> kernel \<Rightarrow>
   (mach_msg_return \<times> marequest_id \<times> kernel) option" where
  "ipc_marequest_create space p notify st =
     (let (ok, st) = k_alloc st in
      if \<not> ok then Some (MACH_SEND_NO_NOTIFY, 0, st)
      else do {
        sp \<leftarrow> k_spaces st space;
        if \<not> is_active sp then Some (MACH_SEND_INVALID_NOTIFY, 0, st)
        else do {
          found \<leftarrow> ipc_right_reverse space (IO_PORT p) st;
          case found of
            Some (name, e) \<Rightarrow>
              do { entry \<leftarrow> is_entries sp e;
                   let bits = ie_bits entry;
                   kassert (ie_object entry = IO_PORT p);
                   kassert (bits AND MACH_PORT_TYPE_SEND_RECEIVE \<noteq> 0);
                   if bits AND IE_BITS_MAREQUEST \<noteq> 0 then Some (MACH_SEND_NOTIFY_IN_PROGRESS, 0, st)
                   else do {
                     (soright, st) \<leftarrow> ipc_port_lookup_notify space notify st;
                     if soright = None then Some (MACH_SEND_INVALID_NOTIFY, 0, st)
                     else do {
                       soright \<leftarrow> soright;
                       st \<leftarrow> set_entry_in space e (\<lambda>en. en\<lparr>ie_bits := bits OR IE_BITS_MAREQUEST\<rparr>) st;
                       st \<leftarrow> is_reference space st;
                       let r = k_next st;
                       let st = st\<lparr>k_next := r + 1,
                         k_marequests := (k_marequests st)(r \<mapsto>
                           \<lparr>imar_space = space, imar_name = name, imar_soright = soright\<rparr>)\<rparr>;
                       Some (MACH_MSG_SUCCESS, r, marequest_push (IMAR_HASH space name) r st) } } }
          | None \<Rightarrow>
              do { (soright, st) \<leftarrow> ipc_port_lookup_notify space notify st;
                   if soright = None then Some (MACH_SEND_INVALID_NOTIFY, 0, st)
                   else do {
                     soright \<leftarrow> soright;
                     st \<leftarrow> is_reference space st;
                     let r = k_next st;
                     Some (MACH_MSG_SUCCESS, r, st\<lparr>k_next := r + 1,
                       k_marequests := (k_marequests st)(r \<mapsto>
                         \<lparr>imar_space = space, imar_name = MACH_PORT_NAME_NULL,
                          imar_soright = soright\<rparr>)\<rparr>) } } } })"

text \<open>The walk along a bucket: the first request for the name, and the bucket without it.\<close>

fun marequest_find ::
  "kernel \<Rightarrow> space_id \<Rightarrow> mach_port_name \<Rightarrow> marequest_id list \<Rightarrow> (marequest_id \<times> marequest_id list) option"
where
  "marequest_find st space name [] = None"
| "marequest_find st space name (r # rs) =
     do { imar \<leftarrow> k_marequests st r;
          if imar_space imar = space \<and> imar_name imar = name then Some (r, rs)
          else do { (found, rest) \<leftarrow> marequest_find st space name rs; Some (found, r # rest) } }"

definition ipc_marequest_cancel :: "space_id \<Rightarrow> mach_port_name \<Rightarrow> kernel \<Rightarrow> kernel option" where
  "ipc_marequest_cancel space name st =
     do { sp \<leftarrow> k_spaces st space;
          kassert (is_active sp);
          let h = IMAR_HASH space name;
          (r, rest) \<leftarrow> marequest_find st space name (k_marequest_table st h);
          imar \<leftarrow> k_marequests st r;
          Some (st\<lparr>k_marequest_table := (k_marequest_table st)(h := rest),
                   k_marequests := (k_marequests st)(r \<mapsto> imar\<lparr>imar_name := MACH_PORT_NAME_NULL\<rparr>)\<rparr>) }"

definition ipc_marequest_rename ::
  "space_id \<Rightarrow> mach_port_name \<Rightarrow> mach_port_name \<Rightarrow> kernel \<Rightarrow> kernel option" where
  "ipc_marequest_rename space old new st =
     do { sp \<leftarrow> k_spaces st space;
          kassert (is_active sp);
          let h = IMAR_HASH space old;
          (r, rest) \<leftarrow> marequest_find st space old (k_marequest_table st h);
          imar \<leftarrow> k_marequests st r;
          let st = st\<lparr>k_marequest_table := (k_marequest_table st)(h := rest),
                      k_marequests := (k_marequests st)(r \<mapsto> imar\<lparr>imar_name := new\<rparr>)\<rparr>;
          Some (marequest_push (IMAR_HASH space new) r st) }"

definition ipc_marequest_destroy :: "ipc_env \<Rightarrow> destroyer \<Rightarrow> marequest_id \<Rightarrow> kernel \<Rightarrow> kernel option" where
  "ipc_marequest_destroy K D r st =
     do { imar \<leftarrow> k_marequests st r;
          let space = imar_space imar;
          let name = imar_name imar;
          sp \<leftarrow> k_spaces st space;
          (name, st) \<leftarrow>
            (if name \<noteq> MACH_PORT_NAME_NULL then
               do { let h = IMAR_HASH space name;
                    (this, rest) \<leftarrow> marequest_find st space name (k_marequest_table st h);
                    kassert (this = r);
                    let st = st\<lparr>k_marequest_table := (k_marequest_table st)(h := rest)\<rparr>;
                    if is_active sp then
                      do { entry \<leftarrow> ipc_entry_lookup sp name;
                           entry \<leftarrow> entry;
                           kassert (ie_bits entry AND IE_BITS_MAREQUEST \<noteq> 0);
                           kassert (ie_bits entry AND MACH_PORT_TYPE_SEND_RECEIVE \<noteq> 0);
                           st \<leftarrow> set_entry_in space name
                             (\<lambda>en. en\<lparr>ie_bits := ie_bits en AND NOT IE_BITS_MAREQUEST\<rparr>) st;
                           Some (name, st) }
                    else Some (MACH_PORT_NAME_NULL, st) }
             else Some (name, st));
          st \<leftarrow> is_release space st;
          let st = st\<lparr>k_marequests := (k_marequests st)(r := None)\<rparr>;
          ipc_notify_msg_accepted K D (imar_soright imar) name st }"

section \<open>Destruction of naked rights and of messages\<close>

definition ipc_object_destroy ::
  "ipc_env \<Rightarrow> destroyer \<Rightarrow> ipc_object \<Rightarrow> nat \<Rightarrow> kernel \<Rightarrow> kernel option" where
  "ipc_object_destroy K D object msgt_name st =
     do { kassert (IO_VALID object);
          p \<leftarrow> obj_port object;
          if msgt_name = MACH_MSG_TYPE_PORT_SEND then ipc_port_release_send K D p st
          else if msgt_name = MACH_MSG_TYPE_PORT_SEND_ONCE then ipc_notify_send_once K D p st
          else if msgt_name = MACH_MSG_TYPE_PORT_RECEIVE then ipc_port_release_receive K D p st
          else None }"

fun clean_objects ::
  "ipc_env \<Rightarrow> destroyer \<Rightarrow> nat \<Rightarrow> ipc_object list \<Rightarrow> kernel \<Rightarrow> kernel option" where
  "clean_objects K D msgt_name [] st = Some st"
| "clean_objects K D msgt_name (object # objects) st =
     (if \<not> IO_VALID object then clean_objects K D msgt_name objects st
      else do {
        st \<leftarrow> ipc_object_destroy K D object msgt_name st;
        clean_objects K D msgt_name objects st })"

text \<open>The items of the body; out-of-line memory is not modelled.\<close>

fun ipc_kmsg_clean_body :: "ipc_env \<Rightarrow> destroyer \<Rightarrow> msg_item list \<Rightarrow> kernel \<Rightarrow> kernel option" where
  "ipc_kmsg_clean_body K D [] st = Some st"
| "ipc_kmsg_clean_body K D (Item_Data xs # items) st = ipc_kmsg_clean_body K D items st"
| "ipc_kmsg_clean_body K D (Item_Ports msgt_name objects # items) st =
     do { st \<leftarrow> clean_objects K D msgt_name objects st;
          ipc_kmsg_clean_body K D items st }"

definition ipc_kmsg_clean :: "ipc_env \<Rightarrow> destroyer \<Rightarrow> kmsg \<Rightarrow> kernel \<Rightarrow> kernel option" where
  "ipc_kmsg_clean K D kmsg st =
     do { st \<leftarrow> (case ikm_marequest kmsg of
                   None \<Rightarrow> Some st
                 | Some r \<Rightarrow> ipc_marequest_destroy K D r st);
          st \<leftarrow> (if IO_VALID (msgh_remote_port kmsg)
                 then ipc_object_destroy K D (msgh_remote_port kmsg) (msgh_remote_type kmsg) st
                 else Some st);
          st \<leftarrow> (if IO_VALID (msgh_local_port kmsg)
                 then ipc_object_destroy K D (msgh_local_port kmsg) (msgh_local_type kmsg) st
                 else Some st);
          if msgh_complex kmsg then ipc_kmsg_clean_body K D (msgh_body kmsg) st else Some st }"

text \<open>
  \<^verbatim>\<open>ipc_kmsg_destroy\<close>.  A call while messages are being cleaned finds a message in the queue
  and only adds its own; \<open>kmsg_queue\<close> is that call.  The loop leaves a message in the queue
  while it cleans it.
\<close>

definition kmsg_queue :: destroyer where
  "kmsg_queue kmsg st = Some (st\<lparr>k_messages := ipc_kmsg_enqueue (k_messages st) kmsg\<rparr>)"

partial_function (option) kmsg_clean_queued :: "ipc_env \<Rightarrow> kernel \<Rightarrow> kernel option" where
  "kmsg_clean_queued K st =
     (case k_messages st of
        [] \<Rightarrow> Some st
      | kmsg # rest \<Rightarrow>
          do { st \<leftarrow> ipc_kmsg_clean K kmsg_queue kmsg st;
               kmsg_clean_queued K (st\<lparr>k_messages := tl (k_messages st)\<rparr>) })"

definition ipc_kmsg_destroy :: "ipc_env \<Rightarrow> destroyer" where
  "ipc_kmsg_destroy K kmsg st =
     (let empty = (k_messages st = []) in
      do { st \<leftarrow> kmsg_queue kmsg st;
           if empty then kmsg_clean_queued K st else Some st })"

section \<open>Receiving\<close>

definition ipc_mqueue_copyin ::
  "space_id \<Rightarrow> mach_port_name \<Rightarrow> kernel \<Rightarrow> (mach_msg_return \<times> mq \<times> ipc_object \<times> kernel) option" where
  "ipc_mqueue_copyin space name st =
     do { sp \<leftarrow> k_spaces st space;
          if \<not> is_active sp then Some (MACH_RCV_INVALID_NAME, MQ_port 0, IO_NULL, st)
          else do {
            entry \<leftarrow> ipc_entry_lookup sp name;
            case entry of
              None \<Rightarrow> Some (MACH_RCV_INVALID_NAME, MQ_port 0, IO_NULL, st)
            | Some entry \<Rightarrow>
                (if ie_bits entry AND MACH_PORT_TYPE_RECEIVE \<noteq> 0 then
                   do { p \<leftarrow> obj_port (ie_object entry);
                        port \<leftarrow> k_ports st p;
                        kassert (ip_active port);
                        kassert (ip_receiver_name port = name);
                        kassert (ip_data port = D_receiver (Some space));
                        (inset, st) \<leftarrow>
                          (case ip_pset port of
                             None \<Rightarrow> Some (False, st)
                           | Some q \<Rightarrow>
                               do { pset \<leftarrow> k_psets st q;
                                    if ips_active pset then Some (True, st)
                                    else do {
                                      st \<leftarrow> ipc_pset_remove q p st;
                                      st \<leftarrow> ips_check_unlock q st;
                                      port \<leftarrow> k_ports st p;
                                      kassert (ip_pset port = None);
                                      Some (False, st) } });
                        if inset then Some (MACH_RCV_IN_SET, MQ_port 0, IO_NULL, st)
                        else do {
                          st \<leftarrow> ip_reference p st;
                          Some (MACH_MSG_SUCCESS, MQ_port p, IO_PORT p, st) } }
                 else if ie_bits entry AND MACH_PORT_TYPE_PORT_SET \<noteq> 0 then
                   do { q \<leftarrow> obj_pset (ie_object entry);
                        pset \<leftarrow> k_psets st q;
                        kassert (ips_active pset);
                        kassert (ips_local_name pset = name);
                        st \<leftarrow> ips_reference q st;
                        Some (MACH_MSG_SUCCESS, MQ_pset q, IO_PSET q, st) }
                 else Some (MACH_RCV_INVALID_NAME, MQ_port 0, IO_NULL, st)) } }"

text \<open>
  The end of \<^verbatim>\<open>ipc_mqueue_receive\<close>, once a message has been taken: the msg-accepted request is
  answered, and a sender blocked on the port may go on.
\<close>

definition mqueue_received :: "ipc_env \<Rightarrow> kmsg \<Rightarrow> kernel \<Rightarrow> (kmsg \<times> kernel) option" where
  "mqueue_received K kmsg st =
     do { st \<leftarrow> (case ikm_marequest kmsg of
                   None \<Rightarrow> Some st
                 | Some r \<Rightarrow> ipc_marequest_destroy K (ipc_kmsg_destroy K) r st);
          kassert (\<not> msgh_circular kmsg);
          p \<leftarrow> obj_port (msgh_remote_port kmsg);
          port \<leftarrow> k_ports st p;
          st \<leftarrow> (if ip_active port then
                   do { kassert (ip_msgcount port > 0);
                        let port = port\<lparr>ip_msgcount := ip_msgcount port - 1\<rparr>;
                        case ip_blocked port of
                          sender # senders \<Rightarrow>
                            if ip_msgcount port < ip_qlimit port then
                              do { st \<leftarrow> wake_all MACH_MSG_SUCCESS [sender] st;
                                   Some (set_port p (port\<lparr>ip_blocked := senders\<rparr>) st) }
                            else Some (set_port p port st)
                        | [] \<Rightarrow> Some (set_port p port st) }
                 else Some st);
          Some (kmsg\<lparr>ikm_marequest := None\<rparr>, st) }"

text \<open>
  \<^verbatim>\<open>ipc_mqueue_receive\<close> up to the point where the caller blocks.  The result carries the
  message and its sequence number, or the size of a message that is too large.
\<close>

datatype rcv_result = Rcv_Msg kmsg bits32 | Rcv_Size nat | Rcv_None

definition ipc_mqueue_receive ::
  "ipc_env \<Rightarrow> thread_id \<Rightarrow> mq \<Rightarrow> nat \<Rightarrow> nat option \<Rightarrow> kernel \<Rightarrow>
   (mach_msg_return \<times> rcv_result \<times> kernel) option" where
  "ipc_mqueue_receive K self m max_size time_out st =
     do { mqueue \<leftarrow> get_mq st m;
          case ipc_kmsg_dequeue (imq_messages mqueue) of
            Some (kmsg, rest) \<Rightarrow>
              (if msgh_size kmsg > max_size then
                 Some (MACH_RCV_TOO_LARGE, Rcv_Size (msgh_size kmsg), st)
               else do {
                 st \<leftarrow> set_mq m (mqueue\<lparr>imq_messages := rest\<rparr>) st;
                 p \<leftarrow> obj_port (msgh_remote_port kmsg);
                 port \<leftarrow> k_ports st p;
                 let seqno = ip_seqno port;
                 let st = set_port p (port\<lparr>ip_seqno := seqno + 1\<rparr>) st;
                 (kmsg, st) \<leftarrow> mqueue_received K kmsg st;
                 Some (MACH_MSG_SUCCESS, Rcv_Msg kmsg seqno, st) })
          | None \<Rightarrow>
              (if time_out = Some 0 then Some (MACH_RCV_TIMED_OUT, Rcv_None, st)
               else do {
                 th \<leftarrow> k_threads st self;
                 st \<leftarrow> set_mq m (mqueue\<lparr>imq_threads := ipc_thread_enqueue (imq_threads mqueue) self\<rparr>) st;
                 Some (MACH_RCV_IN_PROGRESS, Rcv_None,
                   set_thread self (th\<lparr>ith_state := MACH_RCV_IN_PROGRESS, ith_msize := max_size,
                                       th_waiting := True\<rparr>) st) }) }"

text \<open>
  The part after \<^verbatim>\<open>thread_block\<close>, for a receiver that was woken: by another thread, or by a
  signal or time-out.
\<close>

definition mqueue_receive_resume ::
  "ipc_env \<Rightarrow> thread_id \<Rightarrow> wait_result \<Rightarrow> mq \<Rightarrow> nat \<Rightarrow> nat option \<Rightarrow> kernel \<Rightarrow>
   (mach_msg_return \<times> rcv_result \<times> kernel) option" where
  "mqueue_receive_resume K self wait m max_size time_out st =
     do { th \<leftarrow> k_threads st self;
          if ith_state th = MACH_MSG_SUCCESS then
            do { kmsg \<leftarrow> ith_kmsg th;
                 kassert (msgh_size kmsg \<le> max_size);
                 (kmsg, st) \<leftarrow> mqueue_received K kmsg st;
                 Some (MACH_MSG_SUCCESS, Rcv_Msg kmsg (ith_seqno th), st) }
          else if ith_state th = MACH_RCV_TOO_LARGE then
            Some (MACH_RCV_TOO_LARGE, Rcv_Size (ith_msize th), st)
          else if ith_state th = MACH_RCV_PORT_DIED \<or> ith_state th = MACH_RCV_PORT_CHANGED then
            Some (ith_state th, Rcv_None, st)
          else if ith_state th = MACH_RCV_IN_PROGRESS then
            do { mqueue \<leftarrow> get_mq st m;
                 threads \<leftarrow> ipc_thread_rmqueue (imq_threads mqueue) self;
                 st \<leftarrow> set_mq m (mqueue\<lparr>imq_threads := threads\<rparr>) st;
                 case wait of
                   THREAD_INTERRUPTED \<Rightarrow> Some (MACH_RCV_INTERRUPTED, Rcv_None, st)
                 | THREAD_TIMED_OUT \<Rightarrow>
                     do { kassert (time_out \<noteq> None);
                          ipc_mqueue_receive K self m max_size (Some 0) st }
                 | THREAD_RESTART \<Rightarrow> None }
          else None }"

section \<open>Destruction of a port\<close>

text \<open>While a message is cleaned, the messages of a dead port are only queued for cleaning.\<close>

definition orphan :: "kmsg \<Rightarrow> kmsg" where
  "orphan m = m\<lparr>msgh_remote_port := IO_NULL\<rparr>"

lemma set_messages_port [simp]:
  "(set_port p port st)\<lparr>k_messages := ms\<rparr> = set_port p port (st\<lparr>k_messages := ms\<rparr>)"
  by (simp add: set_port_def)

lemma destroy_queued_ok:
  assumes "k_ports st p = Some port" "imq_messages (ip_messages port) = ms"
    "\<forall>m \<in> set ms. msgh_remote_port m = IO_PORT p" "length ms < unat (ip_references port)"
  shows "destroy_queued kmsg_queue p st =
    Some (set_port p (port\<lparr>ip_messages := (ip_messages port)\<lparr>imq_messages := []\<rparr>,
              ip_references := ip_references port - of_nat (length ms)\<rparr>)
           (st\<lparr>k_messages := k_messages st @ map orphan ms\<rparr>))"
  using assms
proof (induction ms arbitrary: port st)
  case Nil
  then have "port\<lparr>ip_messages := (ip_messages port)\<lparr>imq_messages := []\<rparr>\<rparr> = port" by simp
  then show ?case using Nil by (subst destroy_queued.simps) (simp add: set_port_id)
next
  case (Cons m ms)
  define port1 where "port1 = port\<lparr>ip_messages := (ip_messages port)\<lparr>imq_messages := ms\<rparr>,
      ip_references := ip_references port - 1\<rparr>"
  define st1 where "st1 = set_port p port1 (st\<lparr>k_messages := k_messages st @ [orphan m]\<rparr>)"
  obtain r where r: "unat (ip_references port) = Suc r" "0 < r" "length ms < r"
    using Cons.prems(4) by (cases "unat (ip_references port)") auto
  have refs: "ip_references port > 0" "ip_references port - 1 \<noteq> 0" "unat (ip_references port - 1) = r"
    using r(1,2) unat_pred [OF r(1)] by (auto simp: word_gt_0)
  have "destroy_queued kmsg_queue p st = destroy_queued kmsg_queue p st1"
    using Cons.prems refs
    by (subst destroy_queued.simps)
      (simp add: ipc_port_release_def ip_release_def ip_check_unlock_def kmsg_queue_def ipc_kmsg_enqueue_def
        st1_def port1_def orphan_def)
  also have "\<dots> = Some (set_port p (port1\<lparr>ip_messages := (ip_messages port1)\<lparr>imq_messages := []\<rparr>,
              ip_references := ip_references port1 - of_nat (length ms)\<rparr>)
           (st1\<lparr>k_messages := k_messages st1 @ map orphan ms\<rparr>))"
    by (rule Cons.IH) (use Cons.prems refs r in \<open>simp_all add: st1_def port1_def\<close>)
  finally show ?case by (simp add: st1_def port1_def diff_diff_eq)
qed

definition send_once_msg :: "port_id \<Rightarrow> kmsg" where
  "send_once_msg n = ipc_notify_send_once_template\<lparr>msgh_remote_port := IO_PORT n\<rparr>"

lemma ipc_notify_send_once_queued:
  assumes "k_ports st n = Some port" "takes_notifications port" "ip_msgcount port + 1 \<noteq> 0" "k_mem st = []"
  shows "ipc_notify_send_once K D n st = Some (set_port n (queue_msgs [send_once_msg n] port) st)"
proof -
  show ?thesis
    using send_always_queued [OF _ assms(1,2) _ assms(3), of "send_once_msg n" K D] k_alloc_Nil [OF assms(4)]
    by (simp add: ipc_notify_send_once_def send_once_msg_def ipc_notify_send_once_template_def notify_header_def)
qed

text \<open>The notifications that the death of a port sends to the port \<open>n\<close>.\<close>

definition death_notes :: "ipc_port \<Rightarrow> port_id \<Rightarrow> kmsg list" where
  "death_notes port n =
     (if ip_nsrequest port = Some n then [send_once_msg n] else []) @
     (case ip_dnrequests port of None \<Rightarrow> [] | Some table \<Rightarrow> dead_name_msgs n (tl table))"

definition death_notes_ok :: "port_id \<Rightarrow> ipc_port \<Rightarrow> kernel \<Rightarrow> bool" where
  "death_notes_ok p port st =
     (dn_port_wf port \<and>
      (\<forall>n. death_notes port n \<noteq> [] \<longrightarrow>
         n \<noteq> p \<and> (\<exists>nport. k_ports st n = Some nport \<and> takes_notifications nport \<and>
                    unat (ip_msgcount nport) + length (death_notes port n) < 2 ^ 32)))"

lemma death_notes_okD:
  "death_notes_ok p port st \<Longrightarrow> death_notes port n \<noteq> [] \<Longrightarrow>
   n \<noteq> p \<and> (\<exists>nport. k_ports st n = Some nport \<and> takes_notifications nport \<and>
                unat (ip_msgcount nport) + length (death_notes port n) < 2 ^ 32)"
  unfolding death_notes_ok_def by blast

lemma dead_name_msgs_mem:
  "ipr \<in> set iprs \<Longrightarrow> ipr_name ipr \<noteq> MACH_PORT_NAME_NULL \<Longrightarrow> ipr_notify ipr = N_port n \<Longrightarrow> dead_name_msgs n iprs \<noteq> []"
  by (induction iprs) auto

lemma dn_wf_slot:
  assumes "dn_wf table" "ipr \<in> set (tl table)" "ipr_name ipr \<noteq> MACH_PORT_NAME_NULL"
  shows "\<exists>n. ipr_notify ipr = N_port n"
proof -
  obtain i where i: "i < length (tl table)" "ipr = tl table ! i" using assms(2) by (auto simp: in_set_conv_nth)
  then have "0 < Suc i" "Suc i < length table" "ipr = table ! Suc i" by (simp_all add: nth_tl)
  moreover obtain free where "dn_slots table free" using assms(1) by (auto elim: dn_wfE)
  ultimately show ?thesis using dn_slotsD [of table free "Suc i"] assms(3) by (auto split: if_splits)
qed

lemma death_requests_ok:
  assumes "death_notes_ok p port st" "ip_dnrequests port = Some table" "ip_nsrequest port = None"
  shows "requests_ok (tl table) st"
  unfolding requests_ok_def
proof (intro ballI impI)
  fix ipr assume i: "ipr \<in> set (tl table)" "ipr_name ipr \<noteq> MACH_PORT_NAME_NULL"
  have "dn_wf table" using assms(1,2) by (simp add: death_notes_ok_def dn_port_wf_def)
  then obtain n where n: "ipr_notify ipr = N_port n" using dn_wf_slot i by blast
  then have "death_notes port n = dead_name_msgs n (tl table)" "dead_name_msgs n (tl table) \<noteq> []"
    using assms(2,3) dead_name_msgs_mem [OF i] by (simp_all add: death_notes_def)
  then show "\<exists>n port. ipr_notify ipr = N_port n \<and> k_ports st n = Some port \<and> takes_notifications port \<and>
      unat (ip_msgcount port) + length (dead_name_msgs n (tl table)) < 2 ^ 32"
    using assms(1) n unfolding death_notes_ok_def by metis
qed

text \<open>The two steps that notify: the no-senders request, and the dead-name requests.\<close>

definition notes_sent :: "ipc_port \<Rightarrow> kernel \<Rightarrow> kernel" where
  "notes_sent port st = st\<lparr>k_ports := (\<lambda>n. map_option (queue_msgs (death_notes port n)) (k_ports st n))\<rparr>"

lemma death_nsrequest_ok:
  assumes "death_notes_ok p port st" "k_mem st = []" "ip_nsrequest port = Some n" "k_ports st n = Some nport"
  shows "ipc_notify_send_once K D n st = Some (set_port n (queue_msgs [send_once_msg n] nport) st)"
    and "death_notes_ok p (port\<lparr>ip_nsrequest := None\<rparr>) (set_port n (queue_msgs [send_once_msg n] nport) st)"
    and "notes_sent (port\<lparr>ip_nsrequest := None\<rparr>) (set_port n (queue_msgs [send_once_msg n] nport) st) = notes_sent port st"
proof -
  have d: "death_notes port m = (if m = n then [send_once_msg n] else []) @ death_notes (port\<lparr>ip_nsrequest := None\<rparr>) m" for m
    using assms(3) by (simp add: death_notes_def)
  have n: "n \<noteq> p" "takes_notifications nport" "unat (ip_msgcount nport) + length (death_notes port n) < 2 ^ 32"
    using death_notes_okD [OF assms(1), of n] assms(4) d [of n] by auto
  have ne: "ip_msgcount nport + 1 \<noteq> 0"
    using n(3) d [of n] by (intro unat_succ_ne_0 [of _ "length (death_notes (port\<lparr>ip_nsrequest := None\<rparr>) n)"]) simp
  show "ipc_notify_send_once K D n st = Some (set_port n (queue_msgs [send_once_msg n] nport) st)"
    by (rule ipc_notify_send_once_queued [OF assms(4) n(2) ne assms(2)])
  have cnt: "unat (ip_msgcount nport + 1) = Suc (unat (ip_msgcount nport))"
    using n(3) d [of n] by (intro unat_succ) simp
  show "death_notes_ok p (port\<lparr>ip_nsrequest := None\<rparr>) (set_port n (queue_msgs [send_once_msg n] nport) st)"
    unfolding death_notes_ok_def
  proof (intro conjI allI impI)
    show "dn_port_wf (port\<lparr>ip_nsrequest := None\<rparr>)"
      using assms(1) by (simp add: death_notes_ok_def dn_port_wf_def)
    fix m assume m: "death_notes (port\<lparr>ip_nsrequest := None\<rparr>) m \<noteq> []"
    then show "m \<noteq> p" using death_notes_okD [OF assms(1), of m] d [of m] by auto
    obtain mport where "k_ports st m = Some mport" "takes_notifications mport"
        "unat (ip_msgcount mport) + length (death_notes port m) < 2 ^ 32"
      using m death_notes_okD [OF assms(1), of m] d [of m] by auto
    then show "\<exists>nport'. k_ports (set_port n (queue_msgs [send_once_msg n] nport) st) m = Some nport' \<and>
        takes_notifications nport' \<and>
        unat (ip_msgcount nport') + length (death_notes (port\<lparr>ip_nsrequest := None\<rparr>) m) < 2 ^ 32"
      using n(2,3) d [of m] cnt by (auto simp: queue_msgs_def takes_notifications_def)
  qed
  have "map_option (queue_msgs (death_notes (port\<lparr>ip_nsrequest := None\<rparr>) m))
        (k_ports (set_port n (queue_msgs [send_once_msg n] nport) st) m) =
      map_option (queue_msgs (death_notes port m)) (k_ports st m)" for m
    using d [of m] assms(4) by (auto simp: queue_msgs_append)
  then show "notes_sent (port\<lparr>ip_nsrequest := None\<rparr>) (set_port n (queue_msgs [send_once_msg n] nport) st) = notes_sent port st"
    by (simp add: notes_sent_def set_port_def)
qed

lemma io_kotype_inactive [simp]: "io_kotype (bits AND NOT IO_BITS_ACTIVE) = io_kotype bits"
proof -
  have "NOT IO_BITS_ACTIVE AND IO_BITS_KOTYPE = IO_BITS_KOTYPE"
    by (simp add: IO_BITS_ACTIVE_def IO_BITS_KOTYPE_def)
  then show ?thesis by (simp add: io_kotype_def and.assoc)
qed

definition dead_port :: "ipc_port \<Rightarrow> bits32 \<Rightarrow> ipc_port" where
  "dead_port port timestamp =
     port\<lparr>ip_blocked := [], ip_bits := ip_bits port AND NOT IO_BITS_ACTIVE, ip_data := D_timestamp timestamp\<rparr>"

lemma dead_port_simps [simp]:
  "ip_references (dead_port port ts) = ip_references port" "ip_messages (dead_port port ts) = ip_messages port"
  "ip_nsrequest (dead_port port ts) = ip_nsrequest port" "ip_dnrequests (dead_port port ts) = ip_dnrequests port"
  "io_kotype (ip_bits (dead_port port ts)) = io_kotype (ip_bits port)" "\<not> ip_active (dead_port port ts)"
  "ip_data (dead_port port ts) = D_timestamp ts"
  by (simp_all add: dead_port_def)

lemma notes_sent_p: "death_notes_ok p port st \<Longrightarrow> death_notes port p = []"
  using death_notes_okD by blast

text \<open>The dead-name requests of a port that has asked for no other notification.\<close>

lemma death_dnrequests_ok:
  assumes "death_notes_ok p port st" "ip_nsrequest port = None" "k_mem st = []"
  shows "(case ip_dnrequests port of None \<Rightarrow> Some st | Some table \<Rightarrow> notify_dead_names K D (tl table) st) =
         Some (notes_sent port st)"
proof (cases "ip_dnrequests port")
  case None
  then have "death_notes port n = []" for n using assms(2) by (simp add: death_notes_def)
  moreover have "queue_msgs [] = (\<lambda>port. port)" by (simp add: fun_eq_iff)
  ultimately have "notes_sent port st = st" by (simp add: notes_sent_def option.map_ident)
  then show ?thesis using None by simp
next
  case (Some table)
  then show ?thesis
    using notify_dead_names_ok [OF death_requests_ok [OF assms(1) Some assms(2)] assms(3), of K D] assms(2)
    by (simp add: notes_sent_def dead_names_notified_def death_notes_def)
qed

lemma port_destroy_dead_ok:
  assumes "k_ports st p = Some port" "set (ip_blocked port) \<subseteq> dom (k_threads st)"
    "imq_messages (ip_messages port) = ms" "imq_threads (ip_messages port) = []"
    "\<forall>m \<in> set ms. msgh_remote_port m = IO_PORT p" "length ms < unat (ip_references port)"
    "death_notes_ok p port st" "k_mem st = []" "io_kotype (ip_bits port) = 0"
  shows "\<exists>st'. port_destroy_dead K kmsg_queue p st = Some st' \<and>
    (\<forall>n. n \<noteq> p \<longrightarrow> k_ports st' n = map_option (queue_msgs (death_notes port n)) (k_ports st n)) \<and>
    k_ports st' p =
      (if unat (ip_references port) = Suc (length ms) then None
       else Some ((dead_port port (k_timestamp st))\<lparr>ip_messages := ipc_mqueue_init,
              ip_references := ip_references port - of_nat (Suc (length ms))\<rparr>)) \<and>
    k_messages st' = k_messages st @ map orphan ms \<and>
    k_threads st' = woken MACH_MSG_SUCCESS (ip_blocked port) (k_threads st) \<and>
    k_timestamp st' = k_timestamp st + 1 \<and> k_spaces st' = k_spaces st \<and> k_psets st' = k_psets st"
proof -
  define dead where "dead = dead_port port (k_timestamp st)"
  define st1 where "st1 = set_port p dead
    (st\<lparr>k_threads := woken MACH_MSG_SUCCESS (ip_blocked port) (k_threads st), k_timestamp := k_timestamp st + 1\<rparr>)"
  define port0 where "port0 = port\<lparr>ip_nsrequest := None\<rparr>"
  have notes1: "death_notes_ok p port st1"
    using assms(7) unfolding death_notes_ok_def by (auto simp: st1_def)
  have "\<exists>st2. (case ip_nsrequest port of None \<Rightarrow> Some st1 | Some n \<Rightarrow> ipc_notify_send_once K kmsg_queue n st1) = Some st2 \<and>
      death_notes_ok p port0 st2 \<and> notes_sent port0 st2 = notes_sent port st1 \<and> k_ports st2 p = Some dead \<and>
      k_mem st2 = [] \<and> k_messages st2 = k_messages st"
  proof (cases "ip_nsrequest port")
    case None
    then have "port0 = port" by (simp add: port0_def)
    then show ?thesis using None notes1 assms(8) by (simp add: st1_def)
  next
    case (Some n)
    then have "death_notes port n \<noteq> []" by (simp add: death_notes_def)
    then obtain nport where n: "n \<noteq> p" "k_ports st1 n = Some nport"
      using death_notes_okD [OF notes1] by blast
    have "k_mem st1 = []" using assms(8) by (simp add: st1_def)
    note ns = death_nsrequest_ok(1) [OF notes1 this Some n(2), of K kmsg_queue]
      death_nsrequest_ok(2,3) [OF notes1 this Some n(2)]
    show ?thesis
      using ns Some n(1) assms(8) by (simp add: port0_def) (simp add: st1_def)
  qed
  then obtain st2 where st2: "(case ip_nsrequest port of None \<Rightarrow> Some st1 | Some n \<Rightarrow> ipc_notify_send_once K kmsg_queue n st1) = Some st2"
    "death_notes_ok p port0 st2" "notes_sent port0 st2 = notes_sent port st1" "k_ports st2 p = Some dead"
    "k_mem st2 = []" "k_messages st2 = k_messages st" by blast
  define dead3 where "dead3 = dead\<lparr>ip_messages := (ip_messages port)\<lparr>imq_messages := []\<rparr>,
      ip_references := ip_references port - of_nat (length ms)\<rparr>"
  define st3 where "st3 = set_port p dead3 (st2\<lparr>k_messages := k_messages st @ map orphan ms\<rparr>)"
  have st3: "destroy_queued kmsg_queue p st2 = Some st3"
    using destroy_queued_ok [OF st2(4), of ms] assms(3,5,6) st2(6) by (simp add: st3_def dead3_def dead_def)
  have notes3: "death_notes_ok p port0 st3"
    using st2(2) unfolding death_notes_ok_def by (auto simp: st3_def)
  define st4 where "st4 = notes_sent port0 st3"
  have st4: "(case ip_dnrequests dead3 of None \<Rightarrow> Some st3 | Some table \<Rightarrow> notify_dead_names K kmsg_queue (tl table) st3) = Some st4"
    using death_dnrequests_ok [OF notes3, of K kmsg_queue] st2(5)
    by (simp add: st4_def st3_def dead3_def dead_def port0_def)
  have p4: "k_ports st4 p = Some dead3"
    using notes_sent_p [OF notes3] by (simp add: st4_def notes_sent_def st3_def)
  have run: "port_destroy_dead K kmsg_queue p st = ipc_port_release p st4"
  proof -
    have w: "wake_all MACH_MSG_SUCCESS (ip_blocked port) st =
        Some (st\<lparr>k_threads := woken MACH_MSG_SUCCESS (ip_blocked port) (k_threads st)\<rparr>)"
      by (rule wake_all_eq [OF assms(2)])
    have "io_kotype (ip_bits dead3) = 0" "k_ports st3 p = Some dead3"
      using assms(9) by (simp_all add: dead3_def dead_def st3_def)
    moreover have "port_destroy_dead K kmsg_queue p st =
      do { st \<leftarrow> (case ip_nsrequest port of None \<Rightarrow> Some st1 | Some n \<Rightarrow> ipc_notify_send_once K kmsg_queue n st1);
           port \<leftarrow> k_ports st p;
           kassert (imq_threads (ip_messages port) = []);
           st \<leftarrow> destroy_queued kmsg_queue p st;
           port \<leftarrow> k_ports st p;
           st \<leftarrow> (case ip_dnrequests port of None \<Rightarrow> Some st
                   | Some dnrequests \<Rightarrow> notify_dead_names K kmsg_queue (tl dnrequests) st);
           port \<leftarrow> k_ports st p;
           st \<leftarrow> (if io_kotype (ip_bits port) \<noteq> 0 then kobject_destroy K p st else Some st);
           ipc_port_release p st }"
      using w assms(1)
      by (cases "ip_nsrequest port")
        (simp_all add: port_destroy_dead_def ipc_port_timestamp_def Let_def dead_port_def dead_def st1_def)
    ultimately show ?thesis
      unfolding st2(1) using assms(4) st2(4) st3 st4 p4 by (simp add: dead_def)
  qed
  have fields: "k_threads st4 = k_threads st1" "k_timestamp st4 = k_timestamp st1" "k_spaces st4 = k_spaces st1"
    "k_psets st4 = k_psets st1" "k_messages st4 = k_messages st @ map orphan ms"
    using arg_cong [OF st2(3), of k_threads] arg_cong [OF st2(3), of k_timestamp]
      arg_cong [OF st2(3), of k_spaces] arg_cong [OF st2(3), of k_psets]
    by (simp_all add: st4_def notes_sent_def st3_def)
  have ports: "k_ports st4 n = map_option (queue_msgs (death_notes port n)) (k_ports st n)" if "n \<noteq> p" for n
    using that fun_cong [OF arg_cong [OF st2(3), of k_ports], of n]
    by (simp add: st4_def notes_sent_def st3_def st1_def)
  obtain r where r: "unat (ip_references port) = Suc r" "length ms \<le> r"
    using assms(6) by (cases "unat (ip_references port)") auto
  have "ip_references dead3 > 0 \<and> (ip_references dead3 - 1 = 0 \<longleftrightarrow> r = length ms)"
  proof -
    have u: "unat (ip_references dead3) = Suc (r - length ms)"
      using unat_sub_of_nat [of "length ms" "ip_references port"] r by (simp add: dead3_def Suc_diff_le)
    show ?thesis using u unat_pred [OF u] r(2) by (auto simp: word_gt_0 unat_eq_0 [symmetric])
  qed
  moreover have "(ip_messages port)\<lparr>imq_messages := []\<rparr> = ipc_mqueue_init"
    using assms(4) by (simp add: ipc_mqueue_init_def)
  then have "dead3\<lparr>ip_references := ip_references dead3 - 1\<rparr> = (dead_port port (k_timestamp st))
      \<lparr>ip_messages := ipc_mqueue_init, ip_references := ip_references port - of_nat (Suc (length ms))\<rparr>"
    by (simp add: dead3_def dead_def diff_diff_eq add.commute)
  moreover have "ip_references port = 1 + of_nat (length ms) \<longleftrightarrow> ip_references dead3 = 1"
    by (simp add: dead3_def diff_eq_eq)
  ultimately show ?thesis
    using run p4 fields ports r
    by (simp add: ipc_port_release_def ip_release_def ip_check_unlock_def st1_def)
qed

section \<open>Receiving\<close>

text \<open>Sending a list of messages, and receiving a number of them, one after the other.\<close>

fun send_all :: "ipc_env \<Rightarrow> thread_id \<Rightarrow> kmsg list \<Rightarrow> kernel \<Rightarrow> kernel option" where
  "send_all K self [] st = Some st"
| "send_all K self (m # ms) st =
     do { (mr, st) \<leftarrow> ipc_mqueue_send K (ipc_kmsg_destroy K) self False None m st;
          kassert (mr = MACH_MSG_SUCCESS);
          send_all K self ms st }"

fun receive_all :: "ipc_env \<Rightarrow> thread_id \<Rightarrow> mq \<Rightarrow> nat \<Rightarrow> nat \<Rightarrow> kernel \<Rightarrow> ((kmsg \<times> bits32) list \<times> kernel) option" where
  "receive_all K self mq max_size 0 st = Some ([], st)"
| "receive_all K self mq max_size (Suc n) st =
     do { (mr, r, st) \<leftarrow> ipc_mqueue_receive K self mq max_size None st;
          case r of
            Rcv_Msg m seqno \<Rightarrow>
              do { (ms, st) \<leftarrow> receive_all K self mq max_size n st; Some ((m, seqno) # ms, st) }
          | _ \<Rightarrow> None }"

text \<open>A plain message to a port.\<close>

definition plain_msg :: "port_id \<Rightarrow> kmsg \<Rightarrow> bool" where
  "plain_msg p m = (msgh_remote_port m = IO_PORT p \<and> \<not> msgh_circular m \<and> ikm_marequest m = None)"

lemma send_all_ok:
  assumes "k_ports st p = Some port" "takes_notifications port" "\<forall>m \<in> set ms. plain_msg p m"
    "unat (ip_msgcount port) + length ms \<le> unat (ip_qlimit port)"
  shows "send_all K self ms st = Some (set_port p (queue_msgs ms port) st)"
  using assms
proof (induction ms arbitrary: st port)
  case Nil
  then show ?case by (simp add: set_port_id)
next
  case (Cons m ms)
  have l: "ip_msgcount port < ip_qlimit port" using Cons.prems(4) by (simp add: word_less_nat_alt)
  define port1 where "port1 = queue_msgs [m] port"
  have "ipc_mqueue_send K (ipc_kmsg_destroy K) self False None m st = Some (MACH_MSG_SUCCESS, set_port p port1 st)"
    unfolding port1_def
    by (rule send_queued [OF _ Cons.prems(1,2)])
      (use Cons.prems(3) l word_less_succ [OF l] in \<open>auto simp: plain_msg_def\<close>)
  moreover have "send_all K self ms (set_port p port1 st) = Some (set_port p (queue_msgs ms port1) (set_port p port1 st))"
    by (rule Cons.IH) (use Cons.prems word_less_succ(3) [OF l] in \<open>auto simp: port1_def queue_msgs_def takes_notifications_def\<close>)
  ultimately show ?case by (simp add: port1_def queue_msgs_append)
qed

lemma receive_all_ok:
  assumes "k_ports st p = Some port" "ip_active port" "ip_blocked port = []"
    "imq_messages (ip_messages port) = ms @ rest" "\<forall>m \<in> set ms. plain_msg p m \<and> msgh_size m \<le> max_size"
    "length ms \<le> unat (ip_msgcount port)"
  shows "receive_all K self (MQ_port p) max_size (length ms) st =
    Some (zip ms (map (\<lambda>i. ip_seqno port + of_nat i) [0..<length ms]),
      set_port p (port\<lparr>ip_messages := (ip_messages port)\<lparr>imq_messages := rest\<rparr>,
        ip_seqno := ip_seqno port + of_nat (length ms), ip_msgcount := ip_msgcount port - of_nat (length ms)\<rparr>) st)"
  using assms
proof (induction ms arbitrary: st port)
  case Nil
  then have "port\<lparr>ip_messages := (ip_messages port)\<lparr>imq_messages := rest\<rparr>\<rparr> = port" by simp
  then show ?case using Nil.prems(1) by (simp add: set_port_id)
next
  case (Cons m ms)
  define port1 where "port1 = port\<lparr>ip_messages := (ip_messages port)\<lparr>imq_messages := ms @ rest\<rparr>,
     ip_seqno := ip_seqno port + 1, ip_msgcount := ip_msgcount port - 1\<rparr>"
  obtain c where c: "unat (ip_msgcount port) = Suc c" "length ms \<le> c"
    using Cons.prems(6) by (cases "unat (ip_msgcount port)") auto
  then have "ip_msgcount port > 0" by (auto simp: word_gt_0)
  moreover have "m\<lparr>ikm_marequest := None\<rparr> = m"
    using Cons.prems(5) by (intro kmsg.equality) (simp_all add: plain_msg_def)
  ultimately have "ipc_mqueue_receive K self (MQ_port p) max_size None st =
      Some (MACH_MSG_SUCCESS, Rcv_Msg m (ip_seqno port), set_port p port1 st)"
    using Cons.prems by (simp add: ipc_mqueue_receive_def ipc_kmsg_dequeue_def mqueue_received_def plain_msg_def
      obj_port_def port1_def Let_def)
  moreover have "receive_all K self (MQ_port p) max_size (length ms) (set_port p port1 st) =
    Some (zip ms (map (\<lambda>i. ip_seqno port1 + of_nat i) [0..<length ms]),
      set_port p (port1\<lparr>ip_messages := (ip_messages port1)\<lparr>imq_messages := rest\<rparr>,
        ip_seqno := ip_seqno port1 + of_nat (length ms), ip_msgcount := ip_msgcount port1 - of_nat (length ms)\<rparr>)
        (set_port p port1 st))"
    by (rule Cons.IH) (use Cons.prems c unat_pred [OF c(1)] in \<open>auto simp: port1_def\<close>)
  moreover have "map (\<lambda>i. ip_seqno port + of_nat i) [0..<length (m # ms)] =
      ip_seqno port # map (\<lambda>i. ip_seqno port1 + of_nat i) [0..<length ms]"
    by (simp add: port1_def map_upt_Suc add.assoc del: upt_Suc)
  ultimately show ?case by (simp add: port1_def diff_diff_eq add.assoc del: upt_Suc)
qed

section \<open>The table of msg-accepted requests\<close>

text \<open>
  In a well-formed table each bucket holds, without repetition, the requests that hash
  there, every request with a name is in its bucket, and there is at most one request for
  a name of a space.  \<open>marequest_of\<close> is what the table means: the request for a name.
\<close>

definition marequest_for :: "kernel \<Rightarrow> marequest_id \<Rightarrow> space_id \<Rightarrow> mach_port_name \<Rightarrow> bool" where
  "marequest_for st r space name =
     (\<exists>imar. k_marequests st r = Some imar \<and> imar_space imar = space \<and> imar_name imar = name \<and>
             name \<noteq> MACH_PORT_NAME_NULL)"

definition marequest_wf :: "kernel \<Rightarrow> bool" where
  "marequest_wf st =
     ((\<forall>h. distinct (k_marequest_table st h)) \<and>
      (\<forall>h r. r \<in> set (k_marequest_table st h) \<longleftrightarrow> (\<exists>space name. marequest_for st r space name \<and> IMAR_HASH space name = h)) \<and>
      (\<forall>r r' space name. marequest_for st r space name \<longrightarrow> marequest_for st r' space name \<longrightarrow> r = r'))"

definition marequest_of :: "kernel \<Rightarrow> space_id \<times> mach_port_name \<Rightarrow> marequest_id option" where
  "marequest_of st = (\<lambda>(space, name).
     map_option fst (marequest_find st space name (k_marequest_table st (IMAR_HASH space name))))"

lemma marequest_find_ok:
  assumes "\<forall>r \<in> set rs. \<exists>s n. marequest_for st r s n"
  shows "case marequest_find st space name rs of
           None \<Rightarrow> \<forall>r \<in> set rs. \<not> marequest_for st r space name
         | Some (r, rest) \<Rightarrow> r \<in> set rs \<and> marequest_for st r space name \<and> rest = remove1 r rs"
  using assms
proof (induction rs)
  case (Cons r rs)
  obtain imar where imar: "k_marequests st r = Some imar" "imar_name imar \<noteq> MACH_PORT_NAME_NULL"
    using Cons.prems by (auto simp: marequest_for_def)
  have IH: "case marequest_find st space name rs of
      None \<Rightarrow> \<forall>r \<in> set rs. \<not> marequest_for st r space name
    | Some (r, rest) \<Rightarrow> r \<in> set rs \<and> marequest_for st r space name \<and> rest = remove1 r rs"
    using Cons by simp
  show ?case
  proof (cases "imar_space imar = space \<and> imar_name imar = name")
    case True
    then show ?thesis using imar by (auto simp: marequest_for_def)
  next
    case False
    then have "\<not> marequest_for st r space name" using imar by (auto simp: marequest_for_def)
    then show ?thesis
      using IH False imar by (cases "marequest_find st space name rs") (auto split: prod.splits)
  qed
qed simp

lemma marequest_bucket:
  "marequest_wf st \<Longrightarrow> \<forall>r \<in> set (k_marequest_table st h). \<exists>s n. marequest_for st r s n"
  unfolding marequest_wf_def by blast

lemma marequest_find_bucket:
  assumes "marequest_wf st"
  shows "case marequest_find st space name (k_marequest_table st (IMAR_HASH space name)) of
      None \<Rightarrow> \<forall>r \<in> set (k_marequest_table st (IMAR_HASH space name)). \<not> marequest_for st r space name
    | Some (r, rest) \<Rightarrow> r \<in> set (k_marequest_table st (IMAR_HASH space name)) \<and> marequest_for st r space name \<and>
        rest = remove1 r (k_marequest_table st (IMAR_HASH space name))"
  by (rule marequest_find_ok [OF marequest_bucket [OF assms]])

lemma marequest_wfD:
  assumes "marequest_wf st"
  shows "distinct (k_marequest_table st h)"
    "r \<in> set (k_marequest_table st h) \<longleftrightarrow> (\<exists>space name. marequest_for st r space name \<and> IMAR_HASH space name = h)"
    "marequest_for st r space name \<Longrightarrow> marequest_for st r' space name \<Longrightarrow> r = r'"
  using assms unfolding marequest_wf_def by blast+

lemma marequest_of_iff:
  assumes "marequest_wf st"
  shows "marequest_of st (space, name) = Some r \<longleftrightarrow> marequest_for st r space name"
proof
  assume "marequest_of st (space, name) = Some r"
  then obtain rest where "marequest_find st space name (k_marequest_table st (IMAR_HASH space name)) = Some (r, rest)"
    by (auto simp: marequest_of_def)
  then show "marequest_for st r space name"
    using marequest_find_bucket [OF assms, of space name] by auto
next
  assume r: "marequest_for st r space name"
  then have "r \<in> set (k_marequest_table st (IMAR_HASH space name))" using assms unfolding marequest_wf_def by blast
  then obtain r' rest where f: "marequest_find st space name (k_marequest_table st (IMAR_HASH space name)) = Some (r', rest)"
    using marequest_find_bucket [OF assms, of space name] r by (auto split: option.splits)
  then have "marequest_for st r' space name"
    using marequest_find_bucket [OF assms, of space name] by auto
  then have "r' = r" using assms r unfolding marequest_wf_def by blast
  then show "marequest_of st (space, name) = Some r" using f by (simp add: marequest_of_def)
qed

text \<open>Two tables with the same meaning at every name are the same map.\<close>

lemma marequest_of_eqI:
  assumes "marequest_wf st" "\<And>space name r. marequest_for st r space name \<longleftrightarrow> f (space, name) = Some r"
  shows "marequest_of st = f"
proof
  fix x :: "space_id \<times> mach_port_name"
  obtain space name where x: "x = (space, name)" by fastforce
  show "marequest_of st x = f x"
    using marequest_of_iff [OF assms(1), of space name] assms(2) [of _ space name] x
    by (metis not_None_eq)
qed

text \<open>Taking the request for a name out of its bucket.\<close>

lemma marequest_find_the:
  assumes "marequest_wf st" "marequest_for st r space name"
  shows "marequest_find st space name (k_marequest_table st (IMAR_HASH space name)) =
         Some (r, remove1 r (k_marequest_table st (IMAR_HASH space name)))"
proof -
  have "marequest_of st (space, name) = Some r" using assms by (simp add: marequest_of_iff)
  then show ?thesis
    using marequest_find_bucket [OF assms(1), of space name] by (auto simp: marequest_of_def)
qed

lemma ipc_marequest_cancel_ok:
  assumes "marequest_wf st" "k_spaces st space = Some sp" "is_active sp" "marequest_of st (space, name) = Some r"
  shows "\<exists>st' imar. ipc_marequest_cancel space name st = Some st' \<and> marequest_wf st' \<and>
    marequest_of st' = (marequest_of st)((space, name) := None) \<and>
    k_marequests st r = Some imar \<and>
    k_marequests st' = (k_marequests st)(r \<mapsto> imar\<lparr>imar_name := MACH_PORT_NAME_NULL\<rparr>) \<and>
    st' = st\<lparr>k_marequest_table := k_marequest_table st', k_marequests := k_marequests st'\<rparr>"
proof -
  have r: "marequest_for st r space name" using assms(1,4) by (simp add: marequest_of_iff)
  then obtain imar where imar: "k_marequests st r = Some imar" "imar_space imar = space" "imar_name imar = name"
    "name \<noteq> MACH_PORT_NAME_NULL" by (auto simp: marequest_for_def)
  define h where "h = IMAR_HASH space name"
  define st' where "st' = st\<lparr>k_marequest_table := (k_marequest_table st)(h := remove1 r (k_marequest_table st h)),
      k_marequests := (k_marequests st)(r \<mapsto> imar\<lparr>imar_name := MACH_PORT_NAME_NULL\<rparr>)\<rparr>"
  have run: "ipc_marequest_cancel space name st = Some st'"
    using assms(2,3) marequest_find_the [OF assms(1) r] imar
    by (simp add: ipc_marequest_cancel_def st'_def h_def Let_def)
  have f': "marequest_for st' r' s n \<longleftrightarrow> marequest_for st r' s n \<and> r' \<noteq> r" for r' s n
    by (auto simp: marequest_for_def st'_def)
  have one: "marequest_for st r s n \<longleftrightarrow> s = space \<and> n = name" for s n
    using imar by (auto simp: marequest_for_def)
  have wf: "marequest_wf st'"
    unfolding marequest_wf_def
  proof (intro conjI allI impI)
    fix h' r'
    show "distinct (k_marequest_table st' h')"
      using marequest_wfD(1) [OF assms(1)] by (simp add: st'_def)
    show "(r' \<in> set (k_marequest_table st' h')) = (\<exists>s n. marequest_for st' r' s n \<and> IMAR_HASH s n = h')"
    proof -
      have "r \<notin> set (k_marequest_table st h')" if "h' \<noteq> h"
        using that one marequest_wfD(2) [OF assms(1), of r h'] by (auto simp: h_def)
      then have "r' \<in> set (k_marequest_table st' h') \<longleftrightarrow> r' \<in> set (k_marequest_table st h') \<and> r' \<noteq> r"
        using marequest_wfD(1) [OF assms(1), of h] by (auto simp: st'_def)
      then show ?thesis using marequest_wfD(2) [OF assms(1), of r' h'] f' by auto
    qed
  next
    fix r1 r2 s n assume "marequest_for st' r1 s n" "marequest_for st' r2 s n"
    then have "marequest_for st r1 s n" "marequest_for st r2 s n" by (simp_all add: f')
    then show "r1 = r2" by (rule marequest_wfD(3) [OF assms(1)])
  qed
  moreover have "marequest_of st' = (marequest_of st)((space, name) := None)"
  proof (rule marequest_of_eqI [OF wf])
    fix s n r'
    show "marequest_for st' r' s n = (((marequest_of st)((space, name) := None)) (s, n) = Some r')"
    proof (cases "(s, n) = (space, name)")
      case True
      then show ?thesis using f' [of r' s n] marequest_wfD(3) [OF assms(1) r] by auto
    next
      case False
      then show ?thesis using f' [of r' s n] one [of s n] marequest_of_iff [OF assms(1), of s n r'] by auto
    qed
  qed
  ultimately show ?thesis using run imar(1) by (auto simp: st'_def)
qed

lemma ipc_marequest_rename_ok:
  assumes "marequest_wf st" "k_spaces st space = Some sp" "is_active sp" "marequest_of st (space, old) = Some r"
    "marequest_of st (space, new) = None" "new \<noteq> MACH_PORT_NAME_NULL"
  shows "\<exists>st'. ipc_marequest_rename space old new st = Some st' \<and> marequest_wf st' \<and>
    marequest_of st' = (marequest_of st)((space, old) := None, (space, new) \<mapsto> r) \<and>
    st' = st\<lparr>k_marequest_table := k_marequest_table st', k_marequests := k_marequests st'\<rparr>"
proof -
  have r: "marequest_for st r space old" using assms(1,4) by (simp add: marequest_of_iff)
  have nn: "\<not> marequest_for st r' space new" for r'
    using assms(1,5) by (metis marequest_of_iff option.distinct(1))
  then have "old \<noteq> new" using r by auto
  from r obtain imar where imar: "k_marequests st r = Some imar" "imar_space imar = space" "imar_name imar = old"
    "old \<noteq> MACH_PORT_NAME_NULL" by (auto simp: marequest_for_def)
  define h h2 where "h = IMAR_HASH space old" and "h2 = IMAR_HASH space new"
  define T where "T = (k_marequest_table st)(h := remove1 r (k_marequest_table st h))"
  define st' where "st' = st\<lparr>k_marequest_table := T(h2 := r # T h2),
      k_marequests := (k_marequests st)(r \<mapsto> imar\<lparr>imar_name := new\<rparr>)\<rparr>"
  have run: "ipc_marequest_rename space old new st = Some st'"
    using assms(2,3) marequest_find_the [OF assms(1) r] imar
    by (simp add: ipc_marequest_rename_def marequest_push_def st'_def T_def h_def h2_def Let_def)
  have f': "marequest_for st' r' s n \<longleftrightarrow> (if r' = r then s = space \<and> n = new else marequest_for st r' s n)" for r' s n
    using imar assms(6) by (auto simp: marequest_for_def st'_def)
  have one: "marequest_for st r s n \<longleftrightarrow> s = space \<and> n = old" for s n
    using imar by (auto simp: marequest_for_def)
  have T: "r' \<in> set (T h') \<longleftrightarrow> r' \<in> set (k_marequest_table st h') \<and> r' \<noteq> r" for r' h'
  proof -
    have "r \<notin> set (k_marequest_table st h')" if "h' \<noteq> h"
      using that one marequest_wfD(2) [OF assms(1), of r h'] by (auto simp: h_def)
    then show ?thesis using marequest_wfD(1) [OF assms(1), of h] by (auto simp: T_def)
  qed
  have wf: "marequest_wf st'"
    unfolding marequest_wf_def
  proof (intro conjI allI impI)
    fix h' r'
    show "distinct (k_marequest_table st' h')"
      using marequest_wfD(1) [OF assms(1)] T [of r h2] by (auto simp: st'_def T_def)
    show "(r' \<in> set (k_marequest_table st' h')) = (\<exists>s n. marequest_for st' r' s n \<and> IMAR_HASH s n = h')"
      using T [of r' h'] marequest_wfD(2) [OF assms(1), of r' h'] f'
      by (cases "r' = r") (auto simp: st'_def h2_def)
  next
    fix r1 r2 s n assume "marequest_for st' r1 s n" "marequest_for st' r2 s n"
    then show "r1 = r2" using f' nn marequest_wfD(3) [OF assms(1)] by metis
  qed
  moreover have "marequest_of st' = (marequest_of st)((space, old) := None, (space, new) \<mapsto> r)"
  proof (rule marequest_of_eqI [OF wf])
    fix s n r'
    show "marequest_for st' r' s n = (((marequest_of st)((space, old) := None, (space, new) \<mapsto> r)) (s, n) = Some r')"
    proof (cases "(s, n) = (space, new)")
      case True
      then show ?thesis using f' [of r' s n] nn [of r'] by auto
    next
      case new: False
      show ?thesis
      proof (cases "(s, n) = (space, old)")
        case True
        then show ?thesis using new f' [of r' s n] marequest_wfD(3) [OF assms(1) r] by auto
      next
        case False
        then show ?thesis
          using new f' [of r' s n] one [of s n] marequest_of_iff [OF assms(1), of s n r'] by auto
      qed
    qed
  qed
  ultimately show ?thesis using run by (auto simp: st'_def)
qed

section \<open>Properties\<close>

text \<open>
  C2: A port that dies, while messages are being cleaned: every queued message is handed on to be
  cleaned, in order and detached from the port; every thread that was blocked sending to
  the port goes on; every port that asked for it gets its notification (the send-once
  notification for the no-senders request, a dead-name notification for each dead-name request); the port
  carries the time of its death, and is freed with its last reference.
\<close>

theorem ipc_port_destroy_correct:
  assumes "k_ports st p = Some port" "ip_active port" "ip_pset port = None" "ip_mscount port = 0"
    "ip_seqno port = 0" "ip_pdrequest port = None" "set (ip_blocked port) \<subseteq> dom (k_threads st)"
    "imq_messages (ip_messages port) = ms" "imq_threads (ip_messages port) = []"
    "\<forall>m \<in> set ms. msgh_remote_port m = IO_PORT p" "length ms < unat (ip_references port)"
    "death_notes_ok p port st" "k_mem st = []" "io_kotype (ip_bits port) = 0"
  shows "\<exists>st'. ipc_port_destroy K kmsg_queue p st = Some st' \<and>
    (\<forall>n. n \<noteq> p \<longrightarrow> k_ports st' n = map_option (queue_msgs (death_notes port n)) (k_ports st n)) \<and>
    k_ports st' p =
      (if unat (ip_references port) = Suc (length ms) then None
       else Some ((dead_port port (k_timestamp st))\<lparr>ip_messages := ipc_mqueue_init,
              ip_references := ip_references port - of_nat (Suc (length ms))\<rparr>)) \<and>
    k_messages st' = k_messages st @ map orphan ms \<and>
    k_threads st' = woken MACH_MSG_SUCCESS (ip_blocked port) (k_threads st) \<and>
    k_timestamp st' = k_timestamp st + 1 \<and> k_spaces st' = k_spaces st \<and> k_psets st' = k_psets st"
proof -
  have "ipc_port_destroy K kmsg_queue p st = port_destroy_dead K kmsg_queue p st"
    using assms(1-6) by (subst ipc_port_destroy.simps) simp
  then show ?thesis
    using port_destroy_dead_ok [OF assms(1,7-14), of K] by simp
qed

text \<open>A port with a queued message and a no-senders request dies.\<close>

theorem ipc_port_destroy_correct_witness:
  "\<exists>st' nport. ipc_port_destroy no_kobjects kmsg_queue 5
      (set_port 6 new_port (set_port 5 (new_port\<lparr>ip_references := 2, ip_nsrequest := Some 6,
         ip_messages := \<lparr>imq_messages = [example_msg 5 1], imq_threads = []\<rparr>\<rparr>) kernel_empty)) = Some st' \<and>
     k_ports st' 5 = None \<and> k_messages st' = [orphan (example_msg 5 1)] \<and>
     k_ports st' 6 = Some nport \<and> imq_messages (ip_messages nport) = [send_once_msg 6]"
proof -
  let ?port = "new_port\<lparr>ip_references := 2, ip_nsrequest := Some 6,
      ip_messages := \<lparr>imq_messages = [example_msg 5 1], imq_threads = []\<rparr>\<rparr>"
  have n: "death_notes ?port n = (if n = 6 then [send_once_msg 6] else [])" for n
    by (simp add: death_notes_def)
  then have "death_notes_ok 5 ?port (set_port 6 new_port (set_port 5 ?port kernel_empty))"
    by (simp add: death_notes_ok_def dn_port_wf_def takes_notifications_def)
  moreover have "io_kotype (ip_bits new_port) = 0"
    by (simp add: new_port_def io_makebits_def io_kotype_def IO_BITS_ACTIVE_def IO_BITS_KOTYPE_def IOT_PORT_def)
  ultimately show ?thesis
    using ipc_port_destroy_correct [of "set_port 6 new_port (set_port 5 ?port kernel_empty)" 5 ?port "[example_msg 5 1]" no_kobjects] n
    by (auto simp: example_msg_def queue_msgs_def)
qed

text \<open>
  C3: Messages are received in the order in which they were sent, each one once, unchanged, and
  under consecutive sequence numbers; afterwards the port is as before, but for the sequence
  number.
\<close>

theorem send_receive_fifo:
  assumes "k_ports st p = Some port" "takes_notifications port" "ip_blocked port = []"
    "imq_messages (ip_messages port) = []" "\<forall>m \<in> set ms. plain_msg p m \<and> msgh_size m \<le> max_size"
    "unat (ip_msgcount port) + length ms \<le> unat (ip_qlimit port)"
  shows "do { st \<leftarrow> send_all K self ms st; receive_all K self' (MQ_port p) max_size (length ms) st } =
    Some (zip ms (map (\<lambda>i. ip_seqno port + of_nat i) [0..<length ms]),
          set_port p (port\<lparr>ip_seqno := ip_seqno port + of_nat (length ms)\<rparr>) st)"
proof -
  define port1 where "port1 = queue_msgs ms port"
  have s: "send_all K self ms st = Some (set_port p port1 st)"
    unfolding port1_def by (rule send_all_ok [OF assms(1,2)]) (use assms(5,6) in auto)
  have c: "length ms \<le> unat (ip_msgcount port1)"
  proof -
    have "length ms \<le> unat (ip_qlimit port)" "unat (ip_qlimit port) < 2 ^ 32"
      using assms(6) unsigned_less [of "ip_qlimit port"] by simp_all
    then have "unat (of_nat (length ms) :: bits32) = length ms" by (simp add: unat_of_nat take_bit_nat_eq_self)
    then have "unat (ip_msgcount port1) = unat (ip_msgcount port) + length ms"
      using assms(6) \<open>unat (ip_qlimit port) < 2 ^ 32\<close>
      by (simp add: port1_def queue_msgs_def unat_word_ariths)
    then show ?thesis by simp
  qed
  have "receive_all K self' (MQ_port p) max_size (length ms) (set_port p port1 st) =
    Some (zip ms (map (\<lambda>i. ip_seqno port1 + of_nat i) [0..<length ms]),
      set_port p (port1\<lparr>ip_messages := (ip_messages port1)\<lparr>imq_messages := []\<rparr>,
        ip_seqno := ip_seqno port1 + of_nat (length ms), ip_msgcount := ip_msgcount port1 - of_nat (length ms)\<rparr>)
        (set_port p port1 st))"
    by (rule receive_all_ok) (use assms c in \<open>auto simp: port1_def queue_msgs_def takes_notifications_def\<close>)
  moreover have "port1\<lparr>ip_messages := (ip_messages port1)\<lparr>imq_messages := []\<rparr>,
        ip_seqno := ip_seqno port1 + of_nat (length ms), ip_msgcount := ip_msgcount port1 - of_nat (length ms)\<rparr> =
      port\<lparr>ip_seqno := ip_seqno port + of_nat (length ms)\<rparr>"
    using assms(4) by (intro ipc_port.equality) (simp_all add: port1_def queue_msgs_def)
  ultimately show ?thesis using s by (simp add: port1_def queue_msgs_def)
qed

theorem send_receive_fifo_witness:
  "(let st = set_port 5 (new_port\<lparr>ip_qlimit := 5\<rparr>) kernel_empty; ms = [example_msg 5 1, example_msg 5 2]
    in do { st \<leftarrow> send_all no_kobjects 3 ms st; receive_all no_kobjects 4 (MQ_port 5) 100 (length ms) st } =
       Some ([(example_msg 5 1, 0), (example_msg 5 2, 1)], set_port 5 (new_port\<lparr>ip_qlimit := 5, ip_seqno := 2\<rparr>) st))"
proof -
  let ?port = "new_port\<lparr>ip_qlimit := 5\<rparr>" and ?ms = "[example_msg 5 1, example_msg 5 2]"
  have "\<forall>m \<in> set ?ms. plain_msg 5 m \<and> msgh_size m \<le> 100"
    by (simp add: plain_msg_def example_msg_def)
  from send_receive_fifo [OF _ _ _ _ this, of "set_port 5 ?port kernel_empty" ?port no_kobjects 3 4]
  show ?thesis
    by (simp del: send_all.simps receive_all.simps add: takes_notifications_def Let_def upt_rec)
qed

text \<open>
  C38: Renaming a msg-accepted request moves it to its new name and leaves every other
  request where it was; the hash table stays well formed.
\<close>

theorem ipc_marequest_rename_correct:
  assumes "marequest_wf st" "k_spaces st space = Some sp" "is_active sp" "marequest_of st (space, old) = Some r"
    "marequest_of st (space, new) = None" "new \<noteq> MACH_PORT_NAME_NULL"
  shows "\<exists>st'. ipc_marequest_rename space old new st = Some st' \<and> marequest_wf st' \<and>
    marequest_of st' = (marequest_of st)((space, old) := None, (space, new) \<mapsto> r)"
  using ipc_marequest_rename_ok [OF assms] by blast

theorem ipc_marequest_rename_correct_witness:
  "\<exists>st'. ipc_marequest_rename 2 5 21
     (kernel_empty\<lparr>k_spaces := [2 \<mapsto> space_new], k_marequest_table := (\<lambda>_. [])(5 := [3]),
        k_marequests := [3 \<mapsto> \<lparr>imar_space = 2, imar_name = 5, imar_soright = 9\<rparr>]\<rparr>) = Some st' \<and>
     marequest_of st' (2, 21) = Some 3 \<and> marequest_of st' (2, 5) = None"
proof -
  let ?st = "kernel_empty\<lparr>k_spaces := [2 \<mapsto> space_new], k_marequest_table := (\<lambda>_. [])(5 := [3]),
        k_marequests := [3 \<mapsto> \<lparr>imar_space = 2, imar_name = 5, imar_soright = 9\<rparr>]\<rparr>"
  have f: "marequest_for ?st r s n \<longleftrightarrow> r = 3 \<and> s = 2 \<and> n = 5" for r s n
    by (auto simp: marequest_for_def MACH_PORT_NAME_NULL_def)
  have "IMAR_HASH 2 5 = 5" by (simp add: IMAR_HASH_def IPC_MAREQUEST_SIZE_def)
  then have wf: "marequest_wf ?st"
    unfolding marequest_wf_def f by auto
  have "marequest_of ?st (2, 5) = Some 3" "marequest_of ?st (2, 21) = None"
    using marequest_of_iff [OF wf, of 2 5 3] marequest_of_iff [OF wf, of 2 21] f by auto
  then show ?thesis
    using ipc_marequest_rename_correct [OF wf, of 2 space_new 5 3 21] by (auto simp: MACH_PORT_NAME_NULL_def)
qed

end
