(* ===== verification/Ipc_Right.thy ===== *)
theory Ipc_Right
  imports Ipc_Kmsg
begin

text \<open>
  Rights in a space, \<^verbatim>\<open>ipc/ipc_right.c\<close>.  The operations take the space, the name and the
  pointer to the entry as the code does; the notifications they send destroy messages
  with \<open>ipc_kmsg_destroy\<close>.
\<close>

section \<open>Entries of a space in the kernel state\<close>

definition entry_in :: "space_id \<Rightarrow> nat \<Rightarrow> kernel \<Rightarrow> ipc_entry option" where
  "entry_in space e st = do { sp \<leftarrow> k_spaces st space; is_entries sp e }"

definition dealloc_in :: "space_id \<Rightarrow> mach_port_name \<Rightarrow> nat \<Rightarrow> kernel \<Rightarrow> kernel option" where
  "dealloc_in space name e st =
     do { sp \<leftarrow> k_spaces st space;
          sp \<leftarrow> ipc_entry_dealloc sp name e;
          Some (set_space space sp st) }"

definition reverse_insert_in :: "space_id \<Rightarrow> port_id \<Rightarrow> nat \<Rightarrow> kernel \<Rightarrow> (kern_return \<times> kernel) option" where
  "reverse_insert_in space p e st =
     do { sp \<leftarrow> k_spaces st space;
          (kr, sp, m) \<leftarrow> ipc_reverse_insert sp p e (k_mem st);
          Some (kr, set_space space sp (st\<lparr>k_mem := m\<rparr>)) }"

definition reverse_remove_in :: "space_id \<Rightarrow> port_id \<Rightarrow> kernel \<Rightarrow> kernel option" where
  "reverse_remove_in space p st =
     do { sp \<leftarrow> k_spaces st space;
          (old, sp) \<leftarrow> ipc_reverse_remove sp p;
          Some (set_space space sp st) }"

definition space_active :: "space_id \<Rightarrow> kernel \<Rightarrow> bool option" where
  "space_active space st = do { sp \<leftarrow> k_spaces st space; Some (is_active sp) }"

section \<open>Parts that several operations share\<close>

text \<open>
  The block that gives up a send right of a port: if it was the last one, the no-senders
  request is taken from the port, with the make-send count.
\<close>

definition drop_sright :: "port_id \<Rightarrow> kernel \<Rightarrow> ((port_id \<times> bits32) option \<times> kernel) option" where
  "drop_sright p st =
     do { port \<leftarrow> k_ports st p;
          kassert (ip_srights port > 0);
          let srights = ip_srights port - 1;
          if srights = 0 \<and> ip_nsrequest port \<noteq> None then
            do { nsrequest \<leftarrow> ip_nsrequest port;
                 Some (Some (nsrequest, ip_mscount port),
                       set_port p (port\<lparr>ip_srights := srights, ip_nsrequest := None\<rparr>) st) }
          else Some (None, set_port p (port\<lparr>ip_srights := srights\<rparr>) st) }"

definition notify_no_senders_if ::
  "ipc_env \<Rightarrow> (port_id \<times> bits32) option \<Rightarrow> kernel \<Rightarrow> kernel option" where
  "notify_no_senders_if K ns st =
     (case ns of
        None \<Rightarrow> Some st
      | Some (nsrequest, mscount) \<Rightarrow>
          ipc_notify_no_senders K (ipc_kmsg_destroy K) nsrequest mscount st)"

definition notify_port_deleted_if ::
  "ipc_env \<Rightarrow> port_id option \<Rightarrow> mach_port_name \<Rightarrow> kernel \<Rightarrow> kernel option" where
  "notify_port_deleted_if K dnrequest name st =
     (case dnrequest of
        None \<Rightarrow> Some st
      | Some port \<Rightarrow> ipc_notify_port_deleted K (ipc_kmsg_destroy K) port name st)"

definition ipc_right_dncancel ::
  "space_id \<Rightarrow> port_id \<Rightarrow> mach_port_name \<Rightarrow> nat \<Rightarrow> kernel \<Rightarrow> (port_id \<times> kernel) option" where
  "ipc_right_dncancel space p name e st =
     do { port \<leftarrow> k_ports st p;
          entry \<leftarrow> entry_in space e st;
          kassert (ip_active port);
          kassert (ie_object entry = IO_PORT p);
          (dnrequest, port) \<leftarrow> ipc_port_dncancel port name (ie_request entry);
          st \<leftarrow> set_entry_in space e (\<lambda>en. en\<lparr>ie_request := 0\<rparr>) (set_port p port st);
          Some (dnrequest, st) }"

definition ipc_right_dncancel_macro ::
  "space_id \<Rightarrow> port_id \<Rightarrow> mach_port_name \<Rightarrow> nat \<Rightarrow> kernel \<Rightarrow> (port_id option \<times> kernel) option" where
  "ipc_right_dncancel_macro space p name e st =
     do { entry \<leftarrow> entry_in space e st;
          if ie_request entry = 0 then Some (None, st)
          else do { (dnrequest, st) \<leftarrow> ipc_right_dncancel space p name e st; Some (Some dnrequest, st) } }"

definition ipc_right_inuse :: "ipc_entry \<Rightarrow> bool" where
  "ipc_right_inuse entry = (IE_BITS_TYPE (ie_bits entry) \<noteq> MACH_PORT_TYPE_NONE)"

text \<open>The assertions on the port of a receive right.\<close>

definition assert_receiver :: "space_id \<Rightarrow> mach_port_name \<Rightarrow> port_id \<Rightarrow> kernel \<Rightarrow> ipc_port option" where
  "assert_receiver space name p st =
     do { port \<leftarrow> k_ports st p;
          kassert (ip_active port);
          kassert (ip_receiver_name port = name);
          kassert (ip_data port = D_receiver (Some space));
          Some port }"

section \<open>Dead ports\<close>

definition ipc_right_check ::
  "space_id \<Rightarrow> port_id \<Rightarrow> mach_port_name \<Rightarrow> nat \<Rightarrow> kernel \<Rightarrow> (bool \<times> kernel) option" where
  "ipc_right_check space p name e st =
     do { active \<leftarrow> space_active space st;
          kassert active;
          entry \<leftarrow> entry_in space e st;
          kassert (ie_object entry = IO_PORT p);
          port \<leftarrow> k_ports st p;
          if ip_active port then Some (False, st)
          else do {
            let bits = ie_bits entry;
            kassert (bits AND MACH_PORT_TYPE_RECEIVE = 0);
            kassert (IE_BITS_UREFS bits > 0);
            (bits, st) \<leftarrow>
              (if bits AND MACH_PORT_TYPE_SEND \<noteq> 0 then
                 do { kassert (IE_BITS_TYPE bits = MACH_PORT_TYPE_SEND);
                      (bits, st) \<leftarrow>
                        (if bits AND IE_BITS_MAREQUEST \<noteq> 0 then
                           do { st \<leftarrow> ipc_marequest_cancel space name st;
                                Some (bits AND NOT IE_BITS_MAREQUEST, st) }
                         else Some (bits, st));
                      st \<leftarrow> reverse_remove_in space p st;
                      Some (bits, st) }
               else
                 do { kassert (IE_BITS_TYPE bits = MACH_PORT_TYPE_SEND_ONCE);
                      kassert (IE_BITS_UREFS bits = 1);
                      kassert (bits AND IE_BITS_MAREQUEST = 0);
                      Some (bits, st) });
            st \<leftarrow> ipc_port_release p st;
            let bits = (bits AND NOT IE_BITS_TYPE_MASK) OR MACH_PORT_TYPE_DEAD_NAME;
            entry \<leftarrow> entry_in space e st;
            bits \<leftarrow> (if ie_request entry \<noteq> 0 then
                       do { kassert (IE_BITS_UREFS bits < MACH_PORT_UREFS_MAX); Some (bits + 1) }
                     else Some bits);
            st \<leftarrow> set_entry_in space e
              (\<lambda>en. en\<lparr>ie_request := 0, ie_bits := bits, ie_object := IO_NULL\<rparr>) st;
            Some (True, st) } }"

section \<open>Dead-name requests\<close>

partial_function (option) ipc_right_dnrequest ::
  "ipc_env \<Rightarrow> space_id \<Rightarrow> mach_port_name \<Rightarrow> bool \<Rightarrow> port_id option \<Rightarrow> kernel \<Rightarrow>
   (kern_return \<times> port_id option \<times> kernel) option"
where
  "ipc_right_dnrequest K space name immediate notify st =
     do { kre \<leftarrow> ipc_right_lookup_write space name st;
          if fst kre \<noteq> KERN_SUCCESS then Some (fst kre, None, st)
          else do {
            let e = snd kre;
            entry \<leftarrow> entry_in space e st;
            chk \<leftarrow> (if ie_bits entry AND MACH_PORT_TYPE_PORT_RIGHTS \<noteq> 0 then
                      do { p \<leftarrow> obj_port (ie_object entry); ipc_right_check space p name e st }
                    else Some (True, st));
            if \<not> fst chk then
              do { let st = snd chk;
                   p \<leftarrow> obj_port (ie_object entry);
                   prev \<leftarrow> ipc_right_dncancel_macro space p name e st;
                   if notify = None then Some (KERN_SUCCESS, fst prev, snd prev)
                   else do {
                     n \<leftarrow> notify;
                     port \<leftarrow> k_ports (snd prev) p;
                     req \<leftarrow> ipc_port_dnrequest port name n;
                     if fst req \<noteq> KERN_SUCCESS then
                       do { kassert (fst prev = None);
                            g \<leftarrow> ipc_port_dngrow p (set_port p (snd (snd req)) (snd prev));
                            if fst g \<noteq> KERN_SUCCESS then Some (fst g, None, snd g)
                            else ipc_right_dnrequest K space name immediate notify (snd g) }
                     else do {
                       kassert (fst (snd req) \<noteq> 0);
                       st \<leftarrow> set_entry_in space e (\<lambda>en. en\<lparr>ie_request := fst (snd req)\<rparr>)
                              (set_port p (snd (snd req)) (snd prev));
                       Some (KERN_SUCCESS, fst prev, st) } } }
            else do {
              let st = snd chk;
              entry' \<leftarrow> entry_in space e st;
              let bits = ie_bits entry';
              kassert (ie_bits entry AND MACH_PORT_TYPE_PORT_RIGHTS \<noteq> 0 \<longrightarrow>
                       bits AND MACH_PORT_TYPE_DEAD_NAME \<noteq> 0);
              if bits AND MACH_PORT_TYPE_DEAD_NAME \<noteq> 0 \<and> immediate \<and> notify \<noteq> None then
                do { let urefs = IE_BITS_UREFS bits;
                     kassert (IE_BITS_TYPE bits = MACH_PORT_TYPE_DEAD_NAME);
                     kassert (urefs > 0);
                     if MACH_PORT_UREFS_OVERFLOW urefs 1 then Some (KERN_UREFS_OVERFLOW, None, st)
                     else do {
                       n \<leftarrow> notify;
                       st \<leftarrow> set_entry_in space e (\<lambda>en. en\<lparr>ie_bits := bits + 1\<rparr>) st;
                       st \<leftarrow> ipc_notify_dead_name K (ipc_kmsg_destroy K) n name st;
                       Some (KERN_SUCCESS, None, st) } }
              else if bits AND MACH_PORT_TYPE_PORT_OR_DEAD \<noteq> 0 then Some (KERN_INVALID_ARGUMENT, None, st)
              else Some (KERN_INVALID_RIGHT, None, st) } } }"

section \<open>Destruction\<close>

text \<open>The end of the port cases of \<^verbatim>\<open>ipc_right_clean\<close> and \<^verbatim>\<open>ipc_right_destroy\<close>.\<close>

definition right_release ::
  "ipc_env \<Rightarrow> space_id \<Rightarrow> port_id \<Rightarrow> bits32 \<Rightarrow> kernel \<Rightarrow> ((port_id \<times> bits32) option \<times> kernel) option" where
  "right_release K space p type st =
     do { (ns, st) \<leftarrow> (if type AND MACH_PORT_TYPE_SEND \<noteq> 0 then drop_sright p st else Some (None, st));
          port \<leftarrow> k_ports st p;
          if type AND MACH_PORT_TYPE_RECEIVE \<noteq> 0 then
            do { kassert (ip_active port);
                 kassert (ip_data port = D_receiver (Some space));
                 st \<leftarrow> ipc_port_clear_receiver p st;
                 st \<leftarrow> ipc_port_destroy K (ipc_kmsg_destroy K) p st;
                 Some (ns, st) }
          else if type AND MACH_PORT_TYPE_SEND_ONCE \<noteq> 0 then
            do { kassert (ip_sorights port > 0);
                 st \<leftarrow> ipc_notify_send_once K (ipc_kmsg_destroy K) p st;
                 Some (ns, st) }
          else
            do { kassert (ip_data port \<noteq> D_receiver (Some space));
                 st \<leftarrow> ip_release p st;
                 Some (ns, st) } }"

definition ipc_right_clean ::
  "ipc_env \<Rightarrow> space_id \<Rightarrow> mach_port_name \<Rightarrow> nat \<Rightarrow> kernel \<Rightarrow> kernel option" where
  "ipc_right_clean K space name e st =
     do { entry \<leftarrow> entry_in space e st;
          let bits = ie_bits entry;
          let type = IE_BITS_TYPE bits;
          active \<leftarrow> space_active space st;
          kassert (\<not> active);
          if type = MACH_PORT_TYPE_DEAD_NAME then
            do { kassert (ie_request entry = 0);
                 kassert (ie_object entry = IO_NULL);
                 kassert (bits AND IE_BITS_MAREQUEST = 0);
                 Some st }
          else if type = MACH_PORT_TYPE_PORT_SET then
            do { kassert (ie_request entry = 0);
                 kassert (bits AND IE_BITS_MAREQUEST = 0);
                 q \<leftarrow> obj_pset (ie_object entry);
                 pset \<leftarrow> k_psets st q;
                 kassert (ips_active pset);
                 ipc_pset_destroy q st }
          else if type = MACH_PORT_TYPE_SEND \<or> type = MACH_PORT_TYPE_RECEIVE \<or>
                  type = MACH_PORT_TYPE_SEND_RECEIVE \<or> type = MACH_PORT_TYPE_SEND_ONCE then
            do { p \<leftarrow> obj_port (ie_object entry);
                 port \<leftarrow> k_ports st p;
                 if \<not> ip_active port then
                   do { st \<leftarrow> ip_release p st; ip_check_unlock p st }
                 else do {
                   (dnrequest, st) \<leftarrow> ipc_right_dncancel_macro space p name e st;
                   kassert (type AND MACH_PORT_TYPE_RECEIVE \<noteq> 0 \<longrightarrow> ip_receiver_name port = name);
                   (ns, st) \<leftarrow> right_release K space p type st;
                   st \<leftarrow> notify_no_senders_if K ns st;
                   notify_port_deleted_if K dnrequest name st } }
          else None }"

definition ipc_right_destroy ::
  "ipc_env \<Rightarrow> space_id \<Rightarrow> mach_port_name \<Rightarrow> nat \<Rightarrow> kernel \<Rightarrow> (kern_return \<times> kernel) option" where
  "ipc_right_destroy K space name e st =
     do { entry \<leftarrow> entry_in space e st;
          let bits = ie_bits entry;
          let type = IE_BITS_TYPE bits;
          active \<leftarrow> space_active space st;
          kassert active;
          if type = MACH_PORT_TYPE_DEAD_NAME then
            do { kassert (ie_request entry = 0);
                 kassert (ie_object entry = IO_NULL);
                 kassert (bits AND IE_BITS_MAREQUEST = 0);
                 st \<leftarrow> dealloc_in space name e st;
                 Some (KERN_SUCCESS, st) }
          else if type = MACH_PORT_TYPE_PORT_SET then
            do { kassert (ie_request entry = 0);
                 q \<leftarrow> obj_pset (ie_object entry);
                 st \<leftarrow> set_entry_in space e (\<lambda>en. en\<lparr>ie_object := IO_NULL\<rparr>) st;
                 st \<leftarrow> dealloc_in space name e st;
                 pset \<leftarrow> k_psets st q;
                 kassert (ips_active pset);
                 st \<leftarrow> ipc_pset_destroy q st;
                 Some (KERN_SUCCESS, st) }
          else if type = MACH_PORT_TYPE_SEND \<or> type = MACH_PORT_TYPE_RECEIVE \<or>
                  type = MACH_PORT_TYPE_SEND_RECEIVE \<or> type = MACH_PORT_TYPE_SEND_ONCE then
            do { p \<leftarrow> obj_port (ie_object entry);
                 st \<leftarrow> (if bits AND IE_BITS_MAREQUEST \<noteq> 0 then
                          do { kassert (type AND MACH_PORT_TYPE_SEND_RECEIVE \<noteq> 0);
                               ipc_marequest_cancel space name st }
                        else Some st);
                 st \<leftarrow> (if type = MACH_PORT_TYPE_SEND then reverse_remove_in space p st else Some st);
                 port \<leftarrow> k_ports st p;
                 if \<not> ip_active port then
                   do { kassert (type AND MACH_PORT_TYPE_RECEIVE = 0);
                        st \<leftarrow> ip_release p st;
                        st \<leftarrow> ip_check_unlock p st;
                        st \<leftarrow> set_entry_in space e (\<lambda>en. en\<lparr>ie_request := 0, ie_object := IO_NULL\<rparr>) st;
                        st \<leftarrow> dealloc_in space name e st;
                        Some (KERN_SUCCESS, st) }
                 else do {
                   (dnrequest, st) \<leftarrow> ipc_right_dncancel_macro space p name e st;
                   st \<leftarrow> set_entry_in space e (\<lambda>en. en\<lparr>ie_object := IO_NULL\<rparr>) st;
                   st \<leftarrow> dealloc_in space name e st;
                   (ns, st) \<leftarrow> right_release K space p type st;
                   st \<leftarrow> notify_no_senders_if K ns st;
                   st \<leftarrow> notify_port_deleted_if K dnrequest name st;
                   Some (KERN_SUCCESS, st) } }
          else None }"

section \<open>Releasing a user reference\<close>

text \<open>The code at the label \<^verbatim>\<open>dead_name\<close>.\<close>

definition dealloc_dead_name ::
  "space_id \<Rightarrow> mach_port_name \<Rightarrow> nat \<Rightarrow> kernel \<Rightarrow> (kern_return \<times> kernel) option" where
  "dealloc_dead_name space name e st =
     do { entry \<leftarrow> entry_in space e st;
          let bits = ie_bits entry;
          kassert (IE_BITS_UREFS bits > 0);
          kassert (ie_request entry = 0);
          kassert (ie_object entry = IO_NULL);
          kassert (bits AND IE_BITS_MAREQUEST = 0);
          st \<leftarrow> (if IE_BITS_UREFS bits = 1 then dealloc_in space name e st
                 else set_entry_in space e (\<lambda>en. en\<lparr>ie_bits := bits - 1\<rparr>) st);
          Some (KERN_SUCCESS, st) }"

text \<open>A send-once right given up by its holder.\<close>

definition dealloc_send_once ::
  "ipc_env \<Rightarrow> space_id \<Rightarrow> port_id \<Rightarrow> mach_port_name \<Rightarrow> nat \<Rightarrow> kernel \<Rightarrow> kernel option" where
  "dealloc_send_once K space p name e st =
     do { port \<leftarrow> k_ports st p;
          kassert (ip_sorights port > 0);
          (dnrequest, st) \<leftarrow> ipc_right_dncancel_macro space p name e st;
          st \<leftarrow> set_entry_in space e (\<lambda>en. en\<lparr>ie_object := IO_NULL\<rparr>) st;
          st \<leftarrow> dealloc_in space name e st;
          st \<leftarrow> ipc_notify_send_once K (ipc_kmsg_destroy K) p st;
          notify_port_deleted_if K dnrequest name st }"

text \<open>The last user reference of a pure send right given up.\<close>

definition dealloc_last_send ::
  "space_id \<Rightarrow> port_id \<Rightarrow> mach_port_name \<Rightarrow> nat \<Rightarrow> bits32 \<Rightarrow> kernel \<Rightarrow> (port_id option \<times> kernel) option" where
  "dealloc_last_send space p name e bits st =
     do { (dnrequest, st) \<leftarrow> ipc_right_dncancel_macro space p name e st;
          st \<leftarrow> reverse_remove_in space p st;
          st \<leftarrow> (if bits AND IE_BITS_MAREQUEST \<noteq> 0 then ipc_marequest_cancel space name st else Some st);
          st \<leftarrow> ip_release p st;
          st \<leftarrow> set_entry_in space e (\<lambda>en. en\<lparr>ie_object := IO_NULL\<rparr>) st;
          st \<leftarrow> dealloc_in space name e st;
          Some (dnrequest, st) }"

definition ipc_right_dealloc ::
  "ipc_env \<Rightarrow> space_id \<Rightarrow> mach_port_name \<Rightarrow> nat \<Rightarrow> kernel \<Rightarrow> (kern_return \<times> kernel) option" where
  "ipc_right_dealloc K space name e st =
     do { entry \<leftarrow> entry_in space e st;
          let bits = ie_bits entry;
          let type = IE_BITS_TYPE bits;
          active \<leftarrow> space_active space st;
          kassert active;
          if type = MACH_PORT_TYPE_DEAD_NAME then dealloc_dead_name space name e st
          else if type = MACH_PORT_TYPE_SEND_ONCE then
            do { kassert (IE_BITS_UREFS bits = 1);
                 kassert (bits AND IE_BITS_MAREQUEST = 0);
                 p \<leftarrow> obj_port (ie_object entry);
                 (dead, st) \<leftarrow> ipc_right_check space p name e st;
                 if dead then
                   do { entry \<leftarrow> entry_in space e st;
                        kassert (IE_BITS_TYPE (ie_bits entry) = MACH_PORT_TYPE_DEAD_NAME);
                        dealloc_dead_name space name e st }
                 else do {
                   st \<leftarrow> dealloc_send_once K space p name e st;
                   Some (KERN_SUCCESS, st) } }
          else if type = MACH_PORT_TYPE_SEND then
            do { kassert (IE_BITS_UREFS bits > 0);
                 p \<leftarrow> obj_port (ie_object entry);
                 (dead, st) \<leftarrow> ipc_right_check space p name e st;
                 if dead then
                   do { entry \<leftarrow> entry_in space e st;
                        kassert (IE_BITS_TYPE (ie_bits entry) = MACH_PORT_TYPE_DEAD_NAME);
                        dealloc_dead_name space name e st }
                 else do {
                   port \<leftarrow> k_ports st p;
                   kassert (ip_srights port > 0);
                   if IE_BITS_UREFS bits = 1 then
                     do { (ns, st) \<leftarrow> drop_sright p st;
                          (dnrequest, st) \<leftarrow> dealloc_last_send space p name e bits st;
                          st \<leftarrow> notify_no_senders_if K ns st;
                          st \<leftarrow> notify_port_deleted_if K dnrequest name st;
                          Some (KERN_SUCCESS, st) }
                   else do {
                     st \<leftarrow> set_entry_in space e (\<lambda>en. en\<lparr>ie_bits := bits - 1\<rparr>) st;
                     Some (KERN_SUCCESS, st) } } }
          else if type = MACH_PORT_TYPE_SEND_RECEIVE then
            do { kassert (IE_BITS_UREFS bits > 0);
                 p \<leftarrow> obj_port (ie_object entry);
                 port \<leftarrow> assert_receiver space name p st;
                 kassert (ip_srights port > 0);
                 if IE_BITS_UREFS bits = 1 then
                   do { (ns, st) \<leftarrow> drop_sright p st;
                        st \<leftarrow> set_entry_in space e
                          (\<lambda>en. en\<lparr>ie_bits := bits AND NOT (IE_BITS_UREFS_MASK OR MACH_PORT_TYPE_SEND)\<rparr>) st;
                        st \<leftarrow> notify_no_senders_if K ns st;
                        Some (KERN_SUCCESS, st) }
                 else do {
                   st \<leftarrow> set_entry_in space e (\<lambda>en. en\<lparr>ie_bits := bits - 1\<rparr>) st;
                   Some (KERN_SUCCESS, st) } }
          else Some (KERN_INVALID_RIGHT, st) }"

section \<open>Changing the user references\<close>

definition right_delta_port_set ::
  "space_id \<Rightarrow> mach_port_name \<Rightarrow> nat \<Rightarrow> bits32 \<Rightarrow> kernel \<Rightarrow> (kern_return \<times> kernel) option" where
  "right_delta_port_set space name e delta st =
     do { entry \<leftarrow> entry_in space e st;
          let bits = ie_bits entry;
          if bits AND MACH_PORT_TYPE_PORT_SET = 0 then Some (KERN_INVALID_RIGHT, st)
          else do {
            kassert (IE_BITS_TYPE bits = MACH_PORT_TYPE_PORT_SET);
            kassert (IE_BITS_UREFS bits = 0);
            kassert (bits AND IE_BITS_MAREQUEST = 0);
            kassert (ie_request entry = 0);
            if delta = 0 then Some (KERN_SUCCESS, st)
            else if delta \<noteq> - 1 then Some (KERN_INVALID_VALUE, st)
            else do {
              q \<leftarrow> obj_pset (ie_object entry);
              st \<leftarrow> set_entry_in space e (\<lambda>en. en\<lparr>ie_object := IO_NULL\<rparr>) st;
              st \<leftarrow> dealloc_in space name e st;
              pset \<leftarrow> k_psets st q;
              kassert (ips_active pset);
              st \<leftarrow> ipc_pset_destroy q st;
              Some (KERN_SUCCESS, st) } } }"

definition right_delta_receive ::
  "ipc_env \<Rightarrow> space_id \<Rightarrow> mach_port_name \<Rightarrow> nat \<Rightarrow> bits32 \<Rightarrow> kernel \<Rightarrow> (kern_return \<times> kernel) option" where
  "right_delta_receive K space name e delta st =
     do { entry \<leftarrow> entry_in space e st;
          let bits = ie_bits entry;
          if bits AND MACH_PORT_TYPE_RECEIVE = 0 then Some (KERN_INVALID_RIGHT, st)
          else if delta = 0 then Some (KERN_SUCCESS, st)
          else if delta \<noteq> - 1 then Some (KERN_INVALID_VALUE, st)
          else do {
            (bits, st) \<leftarrow>
              (if bits AND IE_BITS_MAREQUEST \<noteq> 0 then
                 do { st \<leftarrow> ipc_marequest_cancel space name st;
                      Some (bits AND NOT IE_BITS_MAREQUEST, st) }
               else Some (bits, st));
            p \<leftarrow> obj_port (ie_object entry);
            port \<leftarrow> assert_receiver space name p st;
            (dnrequest, st) \<leftarrow>
              (if bits AND MACH_PORT_TYPE_SEND \<noteq> 0 then
                 do { kassert (IE_BITS_TYPE bits = MACH_PORT_TYPE_SEND_RECEIVE);
                      kassert (IE_BITS_UREFS bits > 0);
                      kassert (IE_BITS_UREFS bits < MACH_PORT_UREFS_MAX);
                      kassert (ip_srights port > 0);
                      let bits = (bits AND NOT IE_BITS_TYPE_MASK) OR MACH_PORT_TYPE_DEAD_NAME;
                      let bits = (if ie_request entry \<noteq> 0 then bits + 1 else bits);
                      st \<leftarrow> set_entry_in space e
                        (\<lambda>en. en\<lparr>ie_request := 0, ie_bits := bits, ie_object := IO_NULL\<rparr>) st;
                      Some (None, st) }
               else
                 do { kassert (IE_BITS_TYPE bits = MACH_PORT_TYPE_RECEIVE);
                      kassert (IE_BITS_UREFS bits = 0);
                      (dnrequest, st) \<leftarrow> ipc_right_dncancel_macro space p name e st;
                      st \<leftarrow> set_entry_in space e (\<lambda>en. en\<lparr>ie_object := IO_NULL\<rparr>) st;
                      st \<leftarrow> dealloc_in space name e st;
                      Some (dnrequest, st) });
            st \<leftarrow> ipc_port_clear_receiver p st;
            st \<leftarrow> ipc_port_destroy K (ipc_kmsg_destroy K) p st;
            st \<leftarrow> notify_port_deleted_if K dnrequest name st;
            Some (KERN_SUCCESS, st) } }"

definition right_delta_send_once ::
  "ipc_env \<Rightarrow> space_id \<Rightarrow> mach_port_name \<Rightarrow> nat \<Rightarrow> bits32 \<Rightarrow> kernel \<Rightarrow> (kern_return \<times> kernel) option" where
  "right_delta_send_once K space name e delta st =
     do { entry \<leftarrow> entry_in space e st;
          let bits = ie_bits entry;
          if bits AND MACH_PORT_TYPE_SEND_ONCE = 0 then Some (KERN_INVALID_RIGHT, st)
          else do {
            kassert (IE_BITS_TYPE bits = MACH_PORT_TYPE_SEND_ONCE);
            kassert (IE_BITS_UREFS bits = 1);
            kassert (bits AND IE_BITS_MAREQUEST = 0);
            if sint delta > 0 \<or> sint delta < - 1 then Some (KERN_INVALID_VALUE, st)
            else do {
              p \<leftarrow> obj_port (ie_object entry);
              (dead, st) \<leftarrow> ipc_right_check space p name e st;
              if dead then
                do { entry \<leftarrow> entry_in space e st;
                     kassert (ie_bits entry AND MACH_PORT_TYPE_SEND_ONCE = 0);
                     Some (KERN_INVALID_RIGHT, st) }
              else do {
                port \<leftarrow> k_ports st p;
                kassert (ip_sorights port > 0);
                if delta = 0 then Some (KERN_SUCCESS, st)
                else do {
                  st \<leftarrow> dealloc_send_once K space p name e st;
                  Some (KERN_SUCCESS, st) } } } } }"

definition right_delta_dead_name ::
  "space_id \<Rightarrow> mach_port_name \<Rightarrow> nat \<Rightarrow> bits32 \<Rightarrow> kernel \<Rightarrow> (kern_return \<times> kernel) option" where
  "right_delta_dead_name space name e delta st =
     do { entry \<leftarrow> entry_in space e st;
          let bits = ie_bits entry;
          (invalid, st) \<leftarrow>
            (if bits AND MACH_PORT_TYPE_SEND_RIGHTS \<noteq> 0 then
               do { p \<leftarrow> obj_port (ie_object entry);
                    (dead, st) \<leftarrow> ipc_right_check space p name e st;
                    Some (\<not> dead, st) }
             else Some (bits AND MACH_PORT_TYPE_DEAD_NAME = 0, st));
          if invalid then Some (KERN_INVALID_RIGHT, st)
          else do {
            entry \<leftarrow> entry_in space e st;
            let bits = ie_bits entry;
            kassert (IE_BITS_TYPE bits = MACH_PORT_TYPE_DEAD_NAME);
            kassert (IE_BITS_UREFS bits > 0);
            kassert (bits AND IE_BITS_MAREQUEST = 0);
            kassert (ie_object entry = IO_NULL);
            kassert (ie_request entry = 0);
            let urefs = IE_BITS_UREFS bits;
            if MACH_PORT_UREFS_UNDERFLOW urefs delta then Some (KERN_INVALID_VALUE, st)
            else if MACH_PORT_UREFS_OVERFLOW urefs delta then Some (KERN_UREFS_OVERFLOW, st)
            else do {
              st \<leftarrow> (if urefs + delta = 0 then dealloc_in space name e st
                     else set_entry_in space e (\<lambda>en. en\<lparr>ie_bits := bits + delta\<rparr>) st);
              Some (KERN_SUCCESS, st) } } }"

definition right_delta_send ::
  "ipc_env \<Rightarrow> space_id \<Rightarrow> mach_port_name \<Rightarrow> nat \<Rightarrow> bits32 \<Rightarrow> kernel \<Rightarrow> (kern_return \<times> kernel) option" where
  "right_delta_send K space name e delta st =
     do { entry \<leftarrow> entry_in space e st;
          let bits = ie_bits entry;
          let urefs = IE_BITS_UREFS bits;
          if bits AND MACH_PORT_TYPE_SEND = 0 then Some (KERN_INVALID_RIGHT, st)
          else if MACH_PORT_UREFS_UNDERFLOW urefs delta then Some (KERN_INVALID_VALUE, st)
          else if MACH_PORT_UREFS_OVERFLOW (urefs + 1) delta then Some (KERN_UREFS_OVERFLOW, st)
          else do {
            p \<leftarrow> obj_port (ie_object entry);
            (dead, st) \<leftarrow> ipc_right_check space p name e st;
            if dead then
              do { entry \<leftarrow> entry_in space e st;
                   kassert (ie_bits entry AND MACH_PORT_TYPE_SEND = 0);
                   Some (KERN_INVALID_RIGHT, st) }
            else do {
              port \<leftarrow> k_ports st p;
              kassert (ip_srights port > 0);
              if urefs + delta = 0 then
                do { (ns, st) \<leftarrow> drop_sright p st;
                     (dnrequest, st) \<leftarrow>
                       (if bits AND MACH_PORT_TYPE_RECEIVE \<noteq> 0 then
                          do { kassert (ip_receiver_name port = name);
                               kassert (ip_data port = D_receiver (Some space));
                               kassert (IE_BITS_TYPE bits = MACH_PORT_TYPE_SEND_RECEIVE);
                               st \<leftarrow> set_entry_in space e (\<lambda>en. en\<lparr>ie_bits :=
                                 bits AND NOT (IE_BITS_UREFS_MASK OR MACH_PORT_TYPE_SEND)\<rparr>) st;
                               Some (None, st) }
                        else
                          do { kassert (IE_BITS_TYPE bits = MACH_PORT_TYPE_SEND);
                               dealloc_last_send space p name e bits st });
                     st \<leftarrow> notify_no_senders_if K ns st;
                     st \<leftarrow> notify_port_deleted_if K dnrequest name st;
                     Some (KERN_SUCCESS, st) }
              else do {
                st \<leftarrow> set_entry_in space e (\<lambda>en. en\<lparr>ie_bits := bits + delta\<rparr>) st;
                Some (KERN_SUCCESS, st) } } } }"

definition ipc_right_delta ::
  "ipc_env \<Rightarrow> space_id \<Rightarrow> mach_port_name \<Rightarrow> nat \<Rightarrow> mach_port_right \<Rightarrow> bits32 \<Rightarrow> kernel \<Rightarrow>
   (kern_return \<times> kernel) option" where
  "ipc_right_delta K space name e right delta st =
     do { active \<leftarrow> space_active space st;
          kassert active;
          case right of
            MACH_PORT_RIGHT_PORT_SET \<Rightarrow> right_delta_port_set space name e delta st
          | MACH_PORT_RIGHT_RECEIVE \<Rightarrow> right_delta_receive K space name e delta st
          | MACH_PORT_RIGHT_SEND_ONCE \<Rightarrow> right_delta_send_once K space name e delta st
          | MACH_PORT_RIGHT_DEAD_NAME \<Rightarrow> right_delta_dead_name space name e delta st
          | MACH_PORT_RIGHT_SEND \<Rightarrow> right_delta_send K space name e delta st }"

definition ipc_right_info ::
  "space_id \<Rightarrow> mach_port_name \<Rightarrow> nat \<Rightarrow> kernel \<Rightarrow> (kern_return \<times> bits32 \<times> bits32 \<times> kernel) option" where
  "ipc_right_info space name e st =
     do { entry \<leftarrow> entry_in space e st;
          st \<leftarrow> (if ie_bits entry AND MACH_PORT_TYPE_SEND_RIGHTS \<noteq> 0 then
                   do { p \<leftarrow> obj_port (ie_object entry);
                        (dead, st) \<leftarrow> ipc_right_check space p name e st;
                        entry \<leftarrow> entry_in space e st;
                        kassert (dead \<longrightarrow> IE_BITS_TYPE (ie_bits entry) = MACH_PORT_TYPE_DEAD_NAME);
                        Some st }
                 else Some st);
          entry \<leftarrow> entry_in space e st;
          let bits = ie_bits entry;
          let type = IE_BITS_TYPE bits;
          let type = (if ie_request entry \<noteq> 0 then type OR MACH_PORT_TYPE_DNREQUEST else type);
          let type = (if bits AND IE_BITS_MAREQUEST \<noteq> 0 then type OR MACH_PORT_TYPE_MAREQUEST else type);
          Some (KERN_SUCCESS, type, IE_BITS_UREFS bits, st) }"

end
