(* ===== verification/Ipc_Right_Copy.thy ===== *)
theory Ipc_Right_Copy
  imports Ipc_Right
begin

text \<open>
  Moving rights between a space and messages, the second half of \<^verbatim>\<open>ipc/ipc_right.c\<close>: copyin,
  copyout and renaming.  \<^verbatim>\<open>ipc_right_copyin\<close> is one definition per type of transfer.  The
  result of a copyin is the object, and the send-once right to use in a port-deleted
  notification.
\<close>

type_synonym copyin_result = "(kern_return \<times> ipc_object \<times> port_id option \<times> kernel) option"

section \<open>Copyin\<close>

definition ipc_right_copyin_check ::
  "space_id \<Rightarrow> mach_port_name \<Rightarrow> nat \<Rightarrow> nat \<Rightarrow> kernel \<Rightarrow> bool option" where
  "ipc_right_copyin_check space name e msgt_name st =
     do { entry \<leftarrow> entry_in space e st;
          let bits = ie_bits entry;
          active \<leftarrow> space_active space st;
          kassert active;
          if msgt_name = MACH_MSG_TYPE_MAKE_SEND \<or> msgt_name = MACH_MSG_TYPE_MAKE_SEND_ONCE \<or>
             msgt_name = MACH_MSG_TYPE_MOVE_RECEIVE then
            Some (bits AND MACH_PORT_TYPE_RECEIVE \<noteq> 0)
          else if msgt_name = MACH_MSG_TYPE_COPY_SEND \<or> msgt_name = MACH_MSG_TYPE_MOVE_SEND \<or>
                  msgt_name = MACH_MSG_TYPE_MOVE_SEND_ONCE then
            (if bits AND MACH_PORT_TYPE_DEAD_NAME \<noteq> 0 then Some True
             else if bits AND MACH_PORT_TYPE_SEND_RIGHTS = 0 then Some False
             else do {
               p \<leftarrow> obj_port (ie_object entry);
               port \<leftarrow> k_ports st p;
               if \<not> ip_active port then Some True
               else if msgt_name = MACH_MSG_TYPE_MOVE_SEND_ONCE then
                 Some (bits AND MACH_PORT_TYPE_SEND_ONCE \<noteq> 0)
               else Some (bits AND MACH_PORT_TYPE_SEND \<noteq> 0) })
          else None }"

definition copyin_make_send :: "space_id \<Rightarrow> mach_port_name \<Rightarrow> nat \<Rightarrow> kernel \<Rightarrow> copyin_result" where
  "copyin_make_send space name e st =
     do { entry \<leftarrow> entry_in space e st;
          if ie_bits entry AND MACH_PORT_TYPE_RECEIVE = 0 then Some (KERN_INVALID_RIGHT, IO_NULL, None, st)
          else do {
            p \<leftarrow> obj_port (ie_object entry);
            port \<leftarrow> assert_receiver space name p st;
            let st = set_port p (port\<lparr>ip_mscount := ip_mscount port + 1,
                                       ip_srights := ip_srights port + 1\<rparr>) st;
            st \<leftarrow> ip_reference p st;
            Some (KERN_SUCCESS, IO_PORT p, None, st) } }"

definition copyin_make_send_once :: "space_id \<Rightarrow> mach_port_name \<Rightarrow> nat \<Rightarrow> kernel \<Rightarrow> copyin_result" where
  "copyin_make_send_once space name e st =
     do { entry \<leftarrow> entry_in space e st;
          if ie_bits entry AND MACH_PORT_TYPE_RECEIVE = 0 then Some (KERN_INVALID_RIGHT, IO_NULL, None, st)
          else do {
            p \<leftarrow> obj_port (ie_object entry);
            port \<leftarrow> assert_receiver space name p st;
            let st = set_port p (port\<lparr>ip_sorights := ip_sorights port + 1\<rparr>) st;
            st \<leftarrow> ip_reference p st;
            Some (KERN_SUCCESS, IO_PORT p, None, st) } }"

definition copyin_move_receive :: "space_id \<Rightarrow> mach_port_name \<Rightarrow> nat \<Rightarrow> kernel \<Rightarrow> copyin_result" where
  "copyin_move_receive space name e st =
     do { entry \<leftarrow> entry_in space e st;
          let bits = ie_bits entry;
          if bits AND MACH_PORT_TYPE_RECEIVE = 0 then Some (KERN_INVALID_RIGHT, IO_NULL, None, st)
          else do {
            p \<leftarrow> obj_port (ie_object entry);
            port \<leftarrow> assert_receiver space name p st;
            (dnrequest, st) \<leftarrow>
              (if bits AND MACH_PORT_TYPE_SEND \<noteq> 0 then
                 do { kassert (IE_BITS_TYPE bits = MACH_PORT_TYPE_SEND_RECEIVE);
                      kassert (IE_BITS_UREFS bits > 0);
                      kassert (ip_srights port > 0);
                      st \<leftarrow> set_entry_in space e (\<lambda>en. en\<lparr>ie_name := name\<rparr>) st;
                      (kr, st) \<leftarrow> reverse_insert_in space p e st;
                      st \<leftarrow> ip_reference p st;
                      Some (None, st) }
               else
                 do { kassert (IE_BITS_TYPE bits = MACH_PORT_TYPE_RECEIVE);
                      kassert (IE_BITS_UREFS bits = 0);
                      (dnrequest, st) \<leftarrow> ipc_right_dncancel_macro space p name e st;
                      st \<leftarrow> (if bits AND IE_BITS_MAREQUEST \<noteq> 0
                             then ipc_marequest_cancel space name st else Some st);
                      st \<leftarrow> set_entry_in space e (\<lambda>en. en\<lparr>ie_object := IO_NULL\<rparr>) st;
                      Some (dnrequest, st) });
            st \<leftarrow> set_entry_in space e (\<lambda>en. en\<lparr>ie_bits := bits AND NOT MACH_PORT_TYPE_RECEIVE\<rparr>) st;
            st \<leftarrow> ipc_port_clear_receiver p st;
            port \<leftarrow> k_ports st p;
            let port = port\<lparr>ip_receiver_name := MACH_PORT_NAME_NULL, ip_data := D_destination None\<rparr>;
            Some (KERN_SUCCESS, IO_PORT p, dnrequest,
                  set_port p (ipc_port_flag_protected_payload_clear port) st) } }"

text \<open>The labels \<^verbatim>\<open>copy_dead\<close> and \<^verbatim>\<open>move_dead\<close>.\<close>

definition copyin_assert_dead :: "ipc_entry \<Rightarrow> unit option" where
  "copyin_assert_dead entry =
     do { kassert (IE_BITS_TYPE (ie_bits entry) = MACH_PORT_TYPE_DEAD_NAME);
          kassert (IE_BITS_UREFS (ie_bits entry) > 0);
          kassert (ie_bits entry AND IE_BITS_MAREQUEST = 0);
          kassert (ie_request entry = 0);
          kassert (ie_object entry = IO_NULL) }"

definition copyin_copy_dead :: "space_id \<Rightarrow> nat \<Rightarrow> bool \<Rightarrow> kernel \<Rightarrow> copyin_result" where
  "copyin_copy_dead space e deadok st =
     do { entry \<leftarrow> entry_in space e st;
          copyin_assert_dead entry;
          if \<not> deadok then Some (KERN_INVALID_RIGHT, IO_NULL, None, st)
          else Some (KERN_SUCCESS, IO_DEAD, None, st) }"

definition copyin_move_dead :: "space_id \<Rightarrow> nat \<Rightarrow> bool \<Rightarrow> kernel \<Rightarrow> copyin_result" where
  "copyin_move_dead space e deadok st =
     do { entry \<leftarrow> entry_in space e st;
          copyin_assert_dead entry;
          if \<not> deadok then Some (KERN_INVALID_RIGHT, IO_NULL, None, st)
          else do {
            let bits = ie_bits entry;
            st \<leftarrow> set_entry_in space e (\<lambda>en. en\<lparr>ie_bits :=
                    (if IE_BITS_UREFS bits = 1 then bits AND NOT MACH_PORT_TYPE_DEAD_NAME
                     else bits - 1)\<rparr>) st;
            Some (KERN_SUCCESS, IO_DEAD, None, st) } }"

definition copyin_copy_send :: "space_id \<Rightarrow> mach_port_name \<Rightarrow> nat \<Rightarrow> bool \<Rightarrow> kernel \<Rightarrow> copyin_result" where
  "copyin_copy_send space name e deadok st =
     do { entry \<leftarrow> entry_in space e st;
          let bits = ie_bits entry;
          if bits AND MACH_PORT_TYPE_DEAD_NAME \<noteq> 0 then copyin_copy_dead space e deadok st
          else if bits AND MACH_PORT_TYPE_SEND_RIGHTS = 0 then Some (KERN_INVALID_RIGHT, IO_NULL, None, st)
          else do {
            kassert (IE_BITS_UREFS bits > 0);
            p \<leftarrow> obj_port (ie_object entry);
            (dead, st) \<leftarrow> ipc_right_check space p name e st;
            if dead then copyin_copy_dead space e deadok st
            else do {
              port \<leftarrow> k_ports st p;
              if bits AND MACH_PORT_TYPE_SEND = 0 then
                do { kassert (IE_BITS_TYPE bits = MACH_PORT_TYPE_SEND_ONCE);
                     kassert (ip_sorights port > 0);
                     Some (KERN_INVALID_RIGHT, IO_NULL, None, st) }
              else do {
                kassert (ip_srights port > 0);
                let st = set_port p (port\<lparr>ip_srights := ip_srights port + 1\<rparr>) st;
                st \<leftarrow> ip_reference p st;
                Some (KERN_SUCCESS, IO_PORT p, None, st) } } } }"

text \<open>The last user reference of a send right moves out of the entry.\<close>

definition copyin_last_send ::
  "space_id \<Rightarrow> mach_port_name \<Rightarrow> nat \<Rightarrow> port_id \<Rightarrow> bits32 \<Rightarrow> kernel \<Rightarrow> (port_id option \<times> kernel) option" where
  "copyin_last_send space name e p bits st =
     do { kassert (IE_BITS_TYPE bits = MACH_PORT_TYPE_SEND);
          (dnrequest, st) \<leftarrow> ipc_right_dncancel_macro space p name e st;
          st \<leftarrow> reverse_remove_in space p st;
          st \<leftarrow> (if bits AND IE_BITS_MAREQUEST \<noteq> 0 then ipc_marequest_cancel space name st else Some st);
          Some (dnrequest, st) }"

definition copyin_move_send :: "space_id \<Rightarrow> mach_port_name \<Rightarrow> nat \<Rightarrow> bool \<Rightarrow> kernel \<Rightarrow> copyin_result" where
  "copyin_move_send space name e deadok st =
     do { entry \<leftarrow> entry_in space e st;
          let bits = ie_bits entry;
          if bits AND MACH_PORT_TYPE_DEAD_NAME \<noteq> 0 then copyin_move_dead space e deadok st
          else if bits AND MACH_PORT_TYPE_SEND_RIGHTS = 0 then Some (KERN_INVALID_RIGHT, IO_NULL, None, st)
          else do {
            kassert (IE_BITS_UREFS bits > 0);
            p \<leftarrow> obj_port (ie_object entry);
            (dead, st) \<leftarrow> ipc_right_check space p name e st;
            if dead then copyin_move_dead space e deadok st
            else do {
              port \<leftarrow> k_ports st p;
              if bits AND MACH_PORT_TYPE_SEND = 0 then
                do { kassert (IE_BITS_TYPE bits = MACH_PORT_TYPE_SEND_ONCE);
                     kassert (ip_sorights port > 0);
                     Some (KERN_INVALID_RIGHT, IO_NULL, None, st) }
              else do {
                kassert (ip_srights port > 0);
                if IE_BITS_UREFS bits = 1 then
                  do { (dnrequest, st) \<leftarrow>
                         (if bits AND MACH_PORT_TYPE_RECEIVE \<noteq> 0 then
                            do { kassert (ip_receiver_name port = name);
                                 kassert (ip_data port = D_receiver (Some space));
                                 kassert (IE_BITS_TYPE bits = MACH_PORT_TYPE_SEND_RECEIVE);
                                 st \<leftarrow> ip_reference p st;
                                 Some (None, st) }
                          else
                            do { (dnrequest, st) \<leftarrow> copyin_last_send space name e p bits st;
                                 st \<leftarrow> set_entry_in space e (\<lambda>en. en\<lparr>ie_object := IO_NULL\<rparr>) st;
                                 Some (dnrequest, st) });
                       st \<leftarrow> set_entry_in space e (\<lambda>en. en\<lparr>ie_bits :=
                               bits AND NOT (IE_BITS_UREFS_MASK OR MACH_PORT_TYPE_SEND)\<rparr>) st;
                       Some (KERN_SUCCESS, IO_PORT p, dnrequest, st) }
                else do {
                  let st = set_port p (port\<lparr>ip_srights := ip_srights port + 1\<rparr>) st;
                  st \<leftarrow> ip_reference p st;
                  st \<leftarrow> set_entry_in space e (\<lambda>en. en\<lparr>ie_bits := bits - 1\<rparr>) st;
                  Some (KERN_SUCCESS, IO_PORT p, None, st) } } } } }"

definition copyin_move_send_once ::
  "space_id \<Rightarrow> mach_port_name \<Rightarrow> nat \<Rightarrow> bool \<Rightarrow> kernel \<Rightarrow> copyin_result" where
  "copyin_move_send_once space name e deadok st =
     do { entry \<leftarrow> entry_in space e st;
          let bits = ie_bits entry;
          if bits AND MACH_PORT_TYPE_DEAD_NAME \<noteq> 0 then copyin_move_dead space e deadok st
          else if bits AND MACH_PORT_TYPE_SEND_RIGHTS = 0 then Some (KERN_INVALID_RIGHT, IO_NULL, None, st)
          else do {
            kassert (IE_BITS_UREFS bits > 0);
            p \<leftarrow> obj_port (ie_object entry);
            (dead, st) \<leftarrow> ipc_right_check space p name e st;
            if dead then copyin_move_dead space e deadok st
            else do {
              port \<leftarrow> k_ports st p;
              if bits AND MACH_PORT_TYPE_SEND_ONCE = 0 then
                do { kassert (bits AND MACH_PORT_TYPE_SEND \<noteq> 0);
                     kassert (ip_srights port > 0);
                     Some (KERN_INVALID_RIGHT, IO_NULL, None, st) }
              else do {
                kassert (IE_BITS_TYPE bits = MACH_PORT_TYPE_SEND_ONCE);
                kassert (IE_BITS_UREFS bits = 1);
                kassert (bits AND IE_BITS_MAREQUEST = 0);
                kassert (ip_sorights port > 0);
                (dnrequest, st) \<leftarrow> ipc_right_dncancel_macro space p name e st;
                st \<leftarrow> set_entry_in space e (\<lambda>en. en\<lparr>ie_object := IO_NULL,
                        ie_bits := bits AND NOT MACH_PORT_TYPE_SEND_ONCE\<rparr>) st;
                Some (KERN_SUCCESS, IO_PORT p, dnrequest, st) } } } }"

definition ipc_right_copyin ::
  "space_id \<Rightarrow> mach_port_name \<Rightarrow> nat \<Rightarrow> nat \<Rightarrow> bool \<Rightarrow> kernel \<Rightarrow> copyin_result" where
  "ipc_right_copyin space name e msgt_name deadok st =
     do { active \<leftarrow> space_active space st;
          kassert active;
          if msgt_name = MACH_MSG_TYPE_MAKE_SEND then copyin_make_send space name e st
          else if msgt_name = MACH_MSG_TYPE_MAKE_SEND_ONCE then copyin_make_send_once space name e st
          else if msgt_name = MACH_MSG_TYPE_MOVE_RECEIVE then copyin_move_receive space name e st
          else if msgt_name = MACH_MSG_TYPE_COPY_SEND then copyin_copy_send space name e deadok st
          else if msgt_name = MACH_MSG_TYPE_MOVE_SEND then copyin_move_send space name e deadok st
          else if msgt_name = MACH_MSG_TYPE_MOVE_SEND_ONCE then copyin_move_send_once space name e deadok st
          else None }"

definition ipc_right_copyin_undo ::
  "space_id \<Rightarrow> mach_port_name \<Rightarrow> nat \<Rightarrow> nat \<Rightarrow> ipc_object \<Rightarrow> port_id option \<Rightarrow> kernel \<Rightarrow> kernel option" where
  "ipc_right_copyin_undo space name e msgt_name object soright st =
     do { entry \<leftarrow> entry_in space e st;
          let bits = ie_bits entry;
          active \<leftarrow> space_active space st;
          kassert active;
          kassert (msgt_name = MACH_MSG_TYPE_MOVE_SEND \<or> msgt_name = MACH_MSG_TYPE_COPY_SEND \<or>
                   msgt_name = MACH_MSG_TYPE_MOVE_SEND_ONCE);
          st \<leftarrow>
            (if soright \<noteq> None then
               do { kassert (msgt_name = MACH_MSG_TYPE_MOVE_SEND \<or>
                             msgt_name = MACH_MSG_TYPE_MOVE_SEND_ONCE);
                    kassert (IE_BITS_TYPE bits = MACH_PORT_TYPE_NONE);
                    kassert (ie_object entry = IO_NULL);
                    kassert (object \<noteq> IO_DEAD);
                    set_entry_in space e (\<lambda>en. en\<lparr>ie_bits :=
                      (bits AND NOT IE_BITS_RIGHT_MASK) OR MACH_PORT_TYPE_DEAD_NAME OR 2\<rparr>) st }
             else if IE_BITS_TYPE bits = MACH_PORT_TYPE_NONE then
               do { kassert (msgt_name = MACH_MSG_TYPE_MOVE_SEND \<or>
                             msgt_name = MACH_MSG_TYPE_MOVE_SEND_ONCE);
                    kassert (ie_object entry = IO_NULL);
                    set_entry_in space e (\<lambda>en. en\<lparr>ie_bits :=
                      (bits AND NOT IE_BITS_RIGHT_MASK) OR MACH_PORT_TYPE_DEAD_NAME OR 1\<rparr>) st }
             else if IE_BITS_TYPE bits = MACH_PORT_TYPE_DEAD_NAME then
               do { kassert (ie_object entry = IO_NULL);
                    kassert (object = IO_DEAD);
                    kassert (IE_BITS_UREFS bits > 0);
                    if msgt_name \<noteq> MACH_MSG_TYPE_COPY_SEND then
                      do { kassert (IE_BITS_UREFS bits < MACH_PORT_UREFS_MAX);
                           set_entry_in space e (\<lambda>en. en\<lparr>ie_bits := bits + 1\<rparr>) st }
                    else Some st }
             else
               do { kassert (msgt_name = MACH_MSG_TYPE_MOVE_SEND \<or>
                             msgt_name = MACH_MSG_TYPE_COPY_SEND);
                    kassert (IE_BITS_TYPE bits = MACH_PORT_TYPE_SEND);
                    kassert (object \<noteq> IO_DEAD);
                    kassert (ie_object entry = object);
                    kassert (IE_BITS_UREFS bits > 0);
                    st \<leftarrow> (if msgt_name \<noteq> MACH_MSG_TYPE_COPY_SEND then
                             do { kassert (IE_BITS_UREFS bits < MACH_PORT_UREFS_MAX - 1);
                                  set_entry_in space e (\<lambda>en. en\<lparr>ie_bits := bits + 1\<rparr>) st }
                           else Some st);
                    p \<leftarrow> obj_port object;
                    (dead, st) \<leftarrow> ipc_right_check space p name e st;
                    Some st });
          if object \<noteq> IO_DEAD then ipc_object_release object st else Some st }"

definition ipc_right_copyin_two :: "space_id \<Rightarrow> mach_port_name \<Rightarrow> nat \<Rightarrow> kernel \<Rightarrow> copyin_result" where
  "ipc_right_copyin_two space name e st =
     do { entry \<leftarrow> entry_in space e st;
          let bits = ie_bits entry;
          active \<leftarrow> space_active space st;
          kassert active;
          let urefs = IE_BITS_UREFS bits;
          if bits AND MACH_PORT_TYPE_SEND = 0 \<or> urefs < 2 then Some (KERN_INVALID_RIGHT, IO_NULL, None, st)
          else do {
            p \<leftarrow> obj_port (ie_object entry);
            (dead, st) \<leftarrow> ipc_right_check space p name e st;
            if dead then Some (KERN_INVALID_RIGHT, IO_NULL, None, st)
            else do {
              port \<leftarrow> k_ports st p;
              kassert (ip_srights port > 0);
              if urefs = 2 then
                do { (dnrequest, st) \<leftarrow>
                       (if bits AND MACH_PORT_TYPE_RECEIVE \<noteq> 0 then
                          do { kassert (ip_receiver_name port = name);
                               kassert (ip_data port = D_receiver (Some space));
                               kassert (IE_BITS_TYPE bits = MACH_PORT_TYPE_SEND_RECEIVE);
                               let st = set_port p (port\<lparr>ip_srights := ip_srights port + 1\<rparr>) st;
                               st \<leftarrow> ip_reference p st;
                               st \<leftarrow> ip_reference p st;
                               Some (None, st) }
                        else
                          do { (dnrequest, st) \<leftarrow> copyin_last_send space name e p bits st;
                               port \<leftarrow> k_ports st p;
                               let st = set_port p (port\<lparr>ip_srights := ip_srights port + 1\<rparr>) st;
                               st \<leftarrow> ip_reference p st;
                               st \<leftarrow> set_entry_in space e (\<lambda>en. en\<lparr>ie_object := IO_NULL\<rparr>) st;
                               Some (dnrequest, st) });
                     st \<leftarrow> set_entry_in space e (\<lambda>en. en\<lparr>ie_bits :=
                             bits AND NOT (IE_BITS_UREFS_MASK OR MACH_PORT_TYPE_SEND)\<rparr>) st;
                     Some (KERN_SUCCESS, IO_PORT p, dnrequest, st) }
              else do {
                let st = set_port p (port\<lparr>ip_srights := ip_srights port + 2\<rparr>) st;
                st \<leftarrow> ip_reference p st;
                st \<leftarrow> ip_reference p st;
                st \<leftarrow> set_entry_in space e (\<lambda>en. en\<lparr>ie_bits := bits - 2\<rparr>) st;
                Some (KERN_SUCCESS, IO_PORT p, None, st) } } } }"

section \<open>Copyout\<close>

definition copyout_send_once ::
  "space_id \<Rightarrow> nat \<Rightarrow> port_id \<Rightarrow> kernel \<Rightarrow> (kern_return \<times> kernel) option" where
  "copyout_send_once space e p st =
     do { entry \<leftarrow> entry_in space e st;
          port \<leftarrow> k_ports st p;
          kassert (IE_BITS_TYPE (ie_bits entry) = MACH_PORT_TYPE_NONE);
          kassert (ip_sorights port > 0);
          st \<leftarrow> set_entry_in space e
                 (\<lambda>en. en\<lparr>ie_bits := ie_bits entry OR (MACH_PORT_TYPE_SEND_ONCE OR 1)\<rparr>) st;
          Some (KERN_SUCCESS, st) }"

definition copyout_send ::
  "space_id \<Rightarrow> mach_port_name \<Rightarrow> nat \<Rightarrow> bool \<Rightarrow> port_id \<Rightarrow> kernel \<Rightarrow> (kern_return \<times> kernel) option" where
  "copyout_send space name e overflow p st =
     do { entry \<leftarrow> entry_in space e st;
          let bits = ie_bits entry;
          port \<leftarrow> k_ports st p;
          kassert (ip_srights port > 0);
          if bits AND MACH_PORT_TYPE_SEND \<noteq> 0 then
            do { let urefs = IE_BITS_UREFS bits;
                 kassert (ip_srights port > 1);
                 kassert (urefs > 0);
                 kassert (urefs < MACH_PORT_UREFS_MAX);
                 if urefs + 1 = MACH_PORT_UREFS_MAX \<and> \<not> overflow then Some (KERN_UREFS_OVERFLOW, st)
                 else do {
                   st \<leftarrow> ip_release p (set_port p (port\<lparr>ip_srights := ip_srights port - 1\<rparr>) st);
                   if urefs + 1 = MACH_PORT_UREFS_MAX then Some (KERN_SUCCESS, st)
                   else do {
                     st \<leftarrow> set_entry_in space e
                       (\<lambda>en. en\<lparr>ie_bits := (bits OR MACH_PORT_TYPE_SEND) + 1\<rparr>) st;
                     Some (KERN_SUCCESS, st) } } }
          else do {
            st \<leftarrow>
              (if bits AND MACH_PORT_TYPE_RECEIVE \<noteq> 0 then
                 do { kassert (IE_BITS_TYPE bits = MACH_PORT_TYPE_RECEIVE);
                      kassert (IE_BITS_UREFS bits = 0);
                      ip_release p st }
               else
                 do { kassert (IE_BITS_TYPE bits = MACH_PORT_TYPE_NONE);
                      kassert (IE_BITS_UREFS bits = 0);
                      st \<leftarrow> set_entry_in space e (\<lambda>en. en\<lparr>ie_name := name\<rparr>) st;
                      (kr, st) \<leftarrow> reverse_insert_in space p e st;
                      Some st });
            st \<leftarrow> set_entry_in space e (\<lambda>en. en\<lparr>ie_bits := (bits OR MACH_PORT_TYPE_SEND) + 1\<rparr>) st;
            Some (KERN_SUCCESS, st) } }"

definition copyout_receive ::
  "space_id \<Rightarrow> mach_port_name \<Rightarrow> nat \<Rightarrow> port_id \<Rightarrow> kernel \<Rightarrow> (kern_return \<times> kernel) option" where
  "copyout_receive space name e p st =
     do { entry \<leftarrow> entry_in space e st;
          let bits = ie_bits entry;
          port \<leftarrow> k_ports st p;
          kassert (ip_mscount port = 0);
          kassert (ip_receiver_name port = MACH_PORT_NAME_NULL);
          dest \<leftarrow> ip_destination port;
          let port = port\<lparr>ip_receiver_name := name, ip_data := D_receiver (Some space)\<rparr>;
          let st = set_port p (ipc_port_flag_protected_payload_clear port) st;
          kassert (bits AND MACH_PORT_TYPE_RECEIVE = 0);
          st \<leftarrow>
            (if bits AND MACH_PORT_TYPE_SEND \<noteq> 0 then
               do { kassert (IE_BITS_TYPE bits = MACH_PORT_TYPE_SEND);
                    kassert (IE_BITS_UREFS bits > 0);
                    kassert (ip_srights port > 0);
                    st \<leftarrow> ip_release p st;
                    reverse_remove_in space p st }
             else
               do { kassert (IE_BITS_TYPE bits = MACH_PORT_TYPE_NONE);
                    kassert (IE_BITS_UREFS bits = 0);
                    Some st });
          st \<leftarrow> set_entry_in space e (\<lambda>en. en\<lparr>ie_bits := bits OR MACH_PORT_TYPE_RECEIVE\<rparr>) st;
          st \<leftarrow> (case dest of None \<Rightarrow> Some st | Some d \<Rightarrow> ipc_port_release d st);
          Some (KERN_SUCCESS, st) }"

definition ipc_right_copyout ::
  "space_id \<Rightarrow> mach_port_name \<Rightarrow> nat \<Rightarrow> nat \<Rightarrow> bool \<Rightarrow> ipc_object \<Rightarrow> kernel \<Rightarrow>
   (kern_return \<times> kernel) option" where
  "ipc_right_copyout space name e msgt_name overflow object st =
     do { entry \<leftarrow> entry_in space e st;
          kassert (IO_VALID object);
          p \<leftarrow> obj_port object;
          port \<leftarrow> k_ports st p;
          kassert (ip_active port);
          kassert (ie_object entry = object);
          if msgt_name = MACH_MSG_TYPE_PORT_SEND_ONCE then copyout_send_once space e p st
          else if msgt_name = MACH_MSG_TYPE_PORT_SEND then copyout_send space name e overflow p st
          else if msgt_name = MACH_MSG_TYPE_PORT_RECEIVE then copyout_receive space name e p st
          else None }"

section \<open>Renaming\<close>

text \<open>What a renamed right changes outside its entry.\<close>

definition rename_object ::
  "space_id \<Rightarrow> mach_port_name \<Rightarrow> mach_port_name \<Rightarrow> nat \<Rightarrow> bits32 \<Rightarrow> ipc_object \<Rightarrow> kernel \<Rightarrow> kernel option" where
  "rename_object space oname nname ne type object st =
     (if type = MACH_PORT_TYPE_SEND then
        do { p \<leftarrow> obj_port object;
             st \<leftarrow> reverse_remove_in space p st;
             st \<leftarrow> set_entry_in space ne (\<lambda>en. en\<lparr>ie_name := nname\<rparr>) st;
             (kr, st) \<leftarrow> reverse_insert_in space p ne st;
             Some st }
      else if type = MACH_PORT_TYPE_RECEIVE \<or> type = MACH_PORT_TYPE_SEND_RECEIVE then
        do { p \<leftarrow> obj_port object;
             port \<leftarrow> assert_receiver space oname p st;
             Some (set_port p (port\<lparr>ip_receiver_name := nname\<rparr>) st) }
      else if type = MACH_PORT_TYPE_PORT_SET then
        do { q \<leftarrow> obj_pset object;
             pset \<leftarrow> k_psets st q;
             kassert (ips_active pset);
             kassert (ips_local_name pset = oname);
             Some (set_pset q (pset\<lparr>ips_local_name := nname\<rparr>) st) }
      else if type = MACH_PORT_TYPE_SEND_ONCE \<or> type = MACH_PORT_TYPE_DEAD_NAME then Some st
      else None)"

definition ipc_right_rename ::
  "space_id \<Rightarrow> mach_port_name \<Rightarrow> nat \<Rightarrow> mach_port_name \<Rightarrow> nat \<Rightarrow> kernel \<Rightarrow>
   (kern_return \<times> kernel) option" where
  "ipc_right_rename space oname oe nname ne st =
     do { oentry \<leftarrow> entry_in space oe st;
          active \<leftarrow> space_active space st;
          kassert active;
          kassert (oname \<noteq> nname);
          (bits, request, object, st) \<leftarrow>
            (if ie_request oentry \<noteq> 0 then
               do { kassert (ie_bits oentry AND MACH_PORT_TYPE_PORT_RIGHTS \<noteq> 0);
                    p \<leftarrow> obj_port (ie_object oentry);
                    (dead, st) \<leftarrow> ipc_right_check space p oname oe st;
                    if dead then
                      do { oentry \<leftarrow> entry_in space oe st;
                           kassert (IE_BITS_TYPE (ie_bits oentry) = MACH_PORT_TYPE_DEAD_NAME);
                           kassert (ie_request oentry = 0);
                           kassert (ie_object oentry = IO_NULL);
                           Some (ie_bits oentry, 0, IO_NULL, st) }
                    else do {
                      port \<leftarrow> k_ports st p;
                      port \<leftarrow> ipc_port_dnrename port (ie_request oentry) oname nname;
                      st \<leftarrow> set_entry_in space oe (\<lambda>en. en\<lparr>ie_request := 0\<rparr>) (set_port p port st);
                      Some (ie_bits oentry, ie_request oentry, ie_object oentry, st) } }
             else Some (ie_bits oentry, ie_request oentry, ie_object oentry, st));
          st \<leftarrow> (if bits AND IE_BITS_MAREQUEST \<noteq> 0 then
                   do { kassert (bits AND MACH_PORT_TYPE_SEND_RECEIVE \<noteq> 0);
                        ipc_marequest_rename space oname nname st }
                 else Some st);
          nentry \<leftarrow> entry_in space ne st;
          kassert (ie_bits nentry AND IE_BITS_RIGHT_MASK = 0);
          st \<leftarrow> set_entry_in space ne
            (\<lambda>en. en\<lparr>ie_bits := ie_bits nentry OR (bits AND IE_BITS_RIGHT_MASK),
                     ie_request := request, ie_object := object\<rparr>) st;
          st \<leftarrow> rename_object space oname nname ne (IE_BITS_TYPE bits) object st;
          oentry \<leftarrow> entry_in space oe st;
          kassert (ie_request oentry = 0);
          st \<leftarrow> set_entry_in space oe (\<lambda>en. en\<lparr>ie_object := IO_NULL\<rparr>) st;
          st \<leftarrow> dealloc_in space oname oe st;
          Some (KERN_SUCCESS, st) }"

end
