(* ===== verification/Rdxtree_Walk.thy ===== *)
theory Rdxtree_Walk
  imports Rdxtree_Map
begin

text \<open>
  Iteration over a radix tree: \<^verbatim>\<open>rdxtree_walk\<close> and \<^verbatim>\<open>rdxtree_for_each\<close> of \<^verbatim>\<open>kern/rdxtree.c\<close>.  The
  iterator remembers the last key and the node that holds it; the key before the first
  one is \<^verbatim>\<open>(rdxtree_key_t) -1\<close>.  \<open>rdxtree_for_each_ok\<close>: the iteration visits every key of the map
  once, in increasing order, for every tree of height at most 10, which holds the names
  of a space.  (For a height of 11 the code shifts by more than the width of a key.)
\<close>

record 'a rdxtree_iter =
  it_node :: "'a rdxent option"
  it_key :: nat

definition rdxtree_iter_init :: "'a rdxtree_iter" where
  "rdxtree_iter_init = \<lparr>it_node = None, it_key = 2 ^ 64 - 1\<rparr>"

definition rdxtree_node_find :: "'a rdxent \<Rightarrow> nat \<Rightarrow> nat option" where
  "rdxtree_node_find node index = find (\<lambda>i. \<not> is_null (node_child node i)) [index ..< RDXTREE_RADIX_SIZE]"

text \<open>One descent from the root: a pointer with its key and its node, or the key to restart from.\<close>

datatype 'a walk_step = Walk_Found nat 'a "'a rdxent" | Walk_Restart nat

fun rdxtree_walk_down :: "nat \<Rightarrow> nat \<Rightarrow> 'a rdxent \<Rightarrow> 'a walk_step option" where
  "rdxtree_walk_down 0 key node = None"
| "rdxtree_walk_down (Suc h) key node =
     (let shift = h * RDXTREE_RADIX; orig_index = rdxtree_index key h in
      case rdxtree_node_find node orig_index of
        None \<Rightarrow>
          (let shift = shift + RDXTREE_RADIX in
           do { kassert (shift < 64);
                Some (Walk_Restart ((key div 2 ^ shift + 1) * 2 ^ shift mod 2 ^ 64)) })
      | Some index \<Rightarrow>
          (let key = (if orig_index \<noteq> index
                      then (key div 2 ^ shift + (index - orig_index)) * 2 ^ shift mod 2 ^ 64 else key);
               child = node_child node index in
           if h = 0 then map_option (\<lambda>p. Walk_Found key p node) (ent_ptr child)
           else rdxtree_walk_down h key child))"

partial_function (option) rdxtree_walk_loop ::
  "'a rdxent \<Rightarrow> nat \<Rightarrow> ('a \<times> 'a rdxtree_iter) option option" where
  "rdxtree_walk_loop root key =
     (if key > rdxtree_max_key (ent_height root) then Some None
      else do {
        step \<leftarrow> rdxtree_walk_down (ent_height root) key root;
        case step of
          Walk_Found key p node \<Rightarrow> Some (Some (p, \<lparr>it_node = Some node, it_key = key\<rparr>))
        | Walk_Restart key \<Rightarrow> if key = 0 then Some None else rdxtree_walk_loop root key })"

definition rdxtree_walk_next ::
  "'a rdxtree \<Rightarrow> 'a rdxtree_iter \<Rightarrow> ('a \<times> 'a rdxtree_iter) option option" where
  "rdxtree_walk_next tree iter =
     (case rt_root tree of
        Null \<Rightarrow> Some None
      | Ptr p \<Rightarrow> Some (if it_key iter \<noteq> 2 ^ 64 - 1 then None else Some (p, iter\<lparr>it_key := 0\<rparr>))
      | Node h n bm es \<Rightarrow>
          (let key = (it_key iter + 1) mod 2 ^ 64 in
           if key = 0 \<and> it_node iter \<noteq> None then Some None else rdxtree_walk_loop (rt_root tree) key))"

definition rdxtree_walk ::
  "'a rdxtree \<Rightarrow> 'a rdxtree_iter \<Rightarrow> ('a \<times> 'a rdxtree_iter) option option" where
  "rdxtree_walk tree iter =
     (case it_node iter of
        None \<Rightarrow> rdxtree_walk_next tree iter
      | Some node \<Rightarrow>
          (let orig_index = (it_key iter + 1) mod RDXTREE_RADIX_SIZE in
           case (if orig_index \<noteq> 0 then rdxtree_node_find node orig_index else None) of
             None \<Rightarrow> rdxtree_walk_next tree iter
           | Some index \<Rightarrow>
               do { p \<leftarrow> ent_ptr (node_child node index);
                    Some (Some (p, iter\<lparr>it_key := (it_key iter + (index - orig_index) + 1) mod 2 ^ 64\<rparr>)) }))"

partial_function (option) rdxtree_for_each ::
  "'a rdxtree \<Rightarrow> 'a rdxtree_iter \<Rightarrow> (nat \<times> 'a) list option" where
  "rdxtree_for_each tree iter =
     do { r \<leftarrow> rdxtree_walk tree iter;
          case r of
            None \<Rightarrow> Some []
          | Some ptr \<Rightarrow>
              do { rest \<leftarrow> rdxtree_for_each tree (snd ptr);
                   Some ((it_key (snd ptr), fst ptr) # rest) } }"

section \<open>The iteration visits the map in order\<close>

lemma find_upt_Some:
  "find P [i..<n] = Some j \<Longrightarrow> i \<le> j \<and> j < n \<and> P j \<and> (\<forall>l. i \<le> l \<longrightarrow> l < j \<longrightarrow> \<not> P l)"
proof (induction "n - i" arbitrary: i)
  case 0
  then show ?case by simp
next
  case (Suc m)
  then have up: "[i..<n] = i # [Suc i..<n]" by (simp add: upt_rec)
  show ?case
  proof (cases "P i")
    case True
    then show ?thesis using Suc.prems Suc.hyps(2) by (simp add: up)
  next
    case False
    then have "find P [Suc i..<n] = Some j" using Suc.prems by (simp add: up)
    from Suc.hyps(1) [OF _ this] Suc.hyps(2)
    have "Suc i \<le> j \<and> j < n \<and> P j \<and> (\<forall>l. Suc i \<le> l \<longrightarrow> l < j \<longrightarrow> \<not> P l)" by simp
    with False show ?thesis by (metis Suc_leD Suc_leI le_neq_implies_less)
  qed
qed

lemma node_find_None:
  assumes "rdxtree_node_find (Node nh n bm es) i = None" "length es = 64" "i \<le> j" "j < 64"
  shows "es ! j = Null"
  using assms by (auto simp: rdxtree_node_find_def find_None_iff RDXTREE_RADIX_SIZE_def is_null_iff)

lemma node_find_Some:
  assumes "rdxtree_node_find (Node nh n bm es) i = Some j" "length es = 64"
  shows "i \<le> j" "j < 64" "\<not> is_null (es ! j)" "\<And>l. i \<le> l \<Longrightarrow> l < j \<Longrightarrow> es ! l = Null"
proof -
  have "i \<le> j \<and> j < 64 \<and> \<not> is_null (node_child (Node nh n bm es) j) \<and>
      (\<forall>l. i \<le> l \<longrightarrow> l < j \<longrightarrow> \<not> \<not> is_null (node_child (Node nh n bm es) l))"
    using assms(1) unfolding rdxtree_node_find_def RDXTREE_RADIX_SIZE_def by (rule find_upt_Some)
  with assms(2) show "i \<le> j" "j < 64" "\<not> is_null (es ! j)" "\<And>l. i \<le> l \<Longrightarrow> l < j \<Longrightarrow> es ! l = Null"
    by (auto simp: is_null_iff)
qed

lemma rdx_wf_nonempty:
  "rdx_wf h e \<Longrightarrow> \<not> is_null e \<Longrightarrow> \<exists>k < 64 ^ h. rdx_get h k e \<noteq> None"
proof (induction h arbitrary: e)
  case 0
  then show ?case by (cases e) auto
next
  case (Suc h)
  obtain nh n bm es where e: "e = Node nh n bm es" "rdx_node h nh n bm es" "0 < n"
    using Suc.prems by (cases rule: rdx_wf_Suc_cases) auto
  then have "filter (\<lambda>x. \<not> is_null x) es \<noteq> []" unfolding rdx_node_def by auto
  then obtain i where i: "i < 64" "\<not> is_null (es ! i)"
    using e(2) by (auto simp: filter_empty_conv in_set_conv_nth)
  obtain k where k: "k < 64 ^ h" "rdx_get h k (es ! i) \<noteq> None"
    using Suc.IH [OF rdx_node_child [OF e(2) i(1)] i(2)] by blast
  let ?k = "i * 64 ^ h + k"
  have "rdxtree_index ?k h = i" using k(1) i(1) by (simp add: rdxtree_index_64)
  moreover have "rdx_get h ?k (es ! i) = rdx_get h k (es ! i)"
    by (rule rdx_get_cong) simp
  ultimately have "rdx_get (Suc h) ?k e \<noteq> None" using k e by simp
  moreover have "?k < 64 ^ Suc h"
  proof -
    have "?k < (i + 1) * 64 ^ h" using k(1) by simp
    also have "\<dots> \<le> 64 * 64 ^ h" using i(1) by (intro mult_right_mono) auto
    finally show ?thesis by simp
  qed
  ultimately show ?case by blast
qed

definition walk_post :: "nat \<Rightarrow> nat \<Rightarrow> 'a rdxent \<Rightarrow> 'a walk_step \<Rightarrow> bool" where
  "walk_post h key node step =
     (case step of
        Walk_Found j p leaf \<Rightarrow>
          key \<le> j \<and> j div 64 ^ h = key div 64 ^ h \<and> rdx_get h j node = Some p \<and>
          (\<forall>l. key \<le> l \<longrightarrow> l < j \<longrightarrow> rdx_get h l node = None) \<and>
          rdx_wf 1 leaf \<and> \<not> is_null leaf \<and>
          (\<forall>l. l div 64 = j div 64 \<longrightarrow> rdx_get 1 l leaf = rdx_get h l node)
      | Walk_Restart r \<Rightarrow>
          key < r \<and> r \<le> (key div 64 ^ h + 1) * 64 ^ h \<and>
          (\<forall>l. key \<le> l \<longrightarrow> l < r \<longrightarrow> rdx_get h l node = None))"

text \<open>A key as its prefix above a level, its digit there and the rest.\<close>

lemma div_prefix: "(l :: nat) div b = 64 * (l div (64 * b)) + l div b mod 64"
  by (metis div_mult2_eq mult.commute mult_div_mod_eq)

lemma same_prefix_less:
  assumes "(k :: nat) \<le> l" "l < (k div b + 1) * b"
  shows "l div b = k div b"
proof -
  have "0 < b" using assms by (cases b) auto
  moreover have "l div b < k div b + 1" using assms(2) \<open>0 < b\<close> by (simp add: div_less_iff_less_mult)
  ultimately show ?thesis using div_le_mono [OF assms(1), of b] by simp
qed

lemma pow2_64: "(2::nat) ^ (h * RDXTREE_RADIX) = 64 ^ h" "(2::nat) ^ (h * RDXTREE_RADIX + RDXTREE_RADIX) = 64 ^ Suc h"
proof -
  show "(2::nat) ^ (h * RDXTREE_RADIX) = 64 ^ h"
    by (simp add: RDXTREE_RADIX_def power_mult mult.commute [of h])
  then show "(2::nat) ^ (h * RDXTREE_RADIX + RDXTREE_RADIX) = 64 ^ Suc h"
    by (simp add: RDXTREE_RADIX_def power_add)
qed

lemma prefix_end:
  assumes "key < 64 ^ n" "h \<le> n"
  shows "(key div 64 ^ h + 1) * (64::nat) ^ h \<le> 64 ^ n"
proof -
  have pw: "(64::nat) ^ n = 64 ^ (n - h) * 64 ^ h" using assms(2) by (simp flip: power_add)
  then have "key div 64 ^ h < 64 ^ (n - h)" using assms(1) by (simp add: div_less_iff_less_mult)
  then have "(key div 64 ^ h + 1) * (64::nat) ^ h \<le> 64 ^ (n - h) * 64 ^ h" by (intro mult_right_mono) auto
  then show ?thesis using pw by simp
qed

text \<open>The key at the start of digit \<open>i\<close> of the same prefix.\<close>

lemma digit_move:
  fixes b key i :: nat
  defines "i0 \<equiv> key div b mod 64"
  defines "key' \<equiv> if i0 \<noteq> i then (key div b + (i - i0)) * b else key"
  assumes b: "0 < b" and i: "i0 \<le> i" "i < 64"
  shows "key \<le> key'" "key' div b mod 64 = i" "key' div (64 * b) = key div (64 * b)"
    "\<And>l. key \<le> l \<Longrightarrow> l < key' \<Longrightarrow> i0 \<le> l div b mod 64 \<and> l div b mod 64 < i"
proof -
  let ?P = "key div (64 * b)"
  have q0: "key div b = 64 * ?P + i0" unfolding i0_def by (rule div_prefix)
  have q': "key' div b = 64 * ?P + i"
    using q0 i b by (auto simp: key'_def)
  show dig: "key' div b mod 64 = i" using q' i by simp
  show pre: "key' div (64 * b) = ?P"
    using q' div_prefix [of key' b] dig by simp
  show le: "key \<le> key'"
  proof (cases "i0 = i")
    case True then show ?thesis by (simp add: key'_def)
  next
    case False
    have "key < (key div b + 1) * b" using b by (simp add: dividend_less_div_times)
    also have "\<dots> \<le> (key div b + (i - i0)) * b" using False i by (intro mult_right_mono) auto
    finally show ?thesis using False by (simp add: key'_def)
  qed
  fix l assume l: "key \<le> l" "l < key'"
  then have ne: "i0 \<noteq> i" by (auto simp: key'_def)
  then have "l div b < 64 * ?P + i"
    using l(2) q0 i b by (simp add: key'_def div_less_iff_less_mult)
  moreover have "64 * ?P + i0 \<le> l div b" using div_le_mono [OF l(1), of b] q0 by simp
  ultimately have "l div b = 64 * ?P + (l div b - 64 * ?P)" "i0 \<le> l div b - 64 * ?P"
    "l div b - 64 * ?P < i" by arith+
  then obtain d where "l div b = 64 * ?P + d" "i0 \<le> d" "d < i" by blast
  then show "i0 \<le> l div b mod 64 \<and> l div b mod 64 < i" using i by simp
qed

text \<open>A step below child \<open>i\<close>, seen from the parent.\<close>

lemma walk_post_up:
  assumes l: "length es = 64" and i: "i < 64"
    and key: "key \<le> key'" "rdxtree_index key' h = i" "key' div 64 ^ Suc h = key div 64 ^ Suc h"
    and none: "\<And>l. key \<le> l \<Longrightarrow> l < key' \<Longrightarrow> rdx_get (Suc h) l (Node nh n bm es) = None"
    and post: "walk_post h key' (es ! i) step" "0 < h"
  shows "walk_post (Suc h) key (Node nh n bm es) step"
proof -
  let ?e = "Node nh n bm es"
  have get: "rdx_get (Suc h) l ?e = rdx_get h l (es ! i)" if "l div 64 ^ h = key' div 64 ^ h" for l
    using that l key(2) by (simp add: rdxtree_index_64)
  have pre: "l div 64 ^ Suc h = key div 64 ^ Suc h" if "l div 64 ^ h = key' div 64 ^ h" for l
    using that key(3) by (metis div_mult2_eq power_Suc2)
  have in_prefix: "l div 64 ^ h = key' div 64 ^ h" if "key' \<le> l" "l < r" "r \<le> (key' div 64 ^ h + 1) * 64 ^ h" for l r
    using that by (intro same_prefix_less) auto
  show ?thesis
  proof (cases step)
    case (Walk_Found j p leaf)
    with post(1) have P: "key' \<le> j" "j div 64 ^ h = key' div 64 ^ h" "rdx_get h j (es ! i) = Some p"
      "\<And>l. key' \<le> l \<Longrightarrow> l < j \<Longrightarrow> rdx_get h l (es ! i) = None" "rdx_wf 1 leaf" "\<not> is_null leaf"
      "\<And>l. l div 64 = j div 64 \<Longrightarrow> rdx_get 1 l leaf = rdx_get h l (es ! i)"
      by (auto simp: walk_post_def)
    have mid: "rdx_get (Suc h) l ?e = None" if "key' \<le> l" "l < j" for l
    proof -
      have "l div 64 ^ h = key' div 64 ^ h"
        using that P(2) div_le_mono [of l j "64 ^ h"] div_le_mono [of key' l "64 ^ h"] by simp
      then show ?thesis using get P(4) [OF that] by simp
    qed
    have leaf: "rdx_get 1 l leaf = rdx_get (Suc h) l ?e" if "l div 64 = j div 64" for l
    proof -
      have pw: "(64::nat) ^ h = 64 * 64 ^ (h - 1)" using post(2) by (cases h) auto
      have "l div 64 ^ h = j div 64 ^ h" unfolding pw using that by (simp add: div_mult2_eq)
      then show ?thesis using get P(2,7) that by simp
    qed
    have "rdx_get (Suc h) l ?e = None" if "key \<le> l" "l < j" for l
      using none mid that by (cases "l < key'") auto
    moreover have "key \<le> j" using key(1) P(1) by simp
    moreover have "rdx_get (Suc h) j ?e = Some p" using get [OF P(2)] P(3) by simp
    ultimately show ?thesis
      unfolding walk_post_def Walk_Found walk_step.case using pre [OF P(2)] P(5,6) leaf by blast
  next
    case (Walk_Restart r)
    with post(1) have P: "key' < r" "r \<le> (key' div 64 ^ h + 1) * 64 ^ h"
      "\<And>l. key' \<le> l \<Longrightarrow> l < r \<Longrightarrow> rdx_get h l (es ! i) = None" by (auto simp: walk_post_def)
    have mid: "rdx_get (Suc h) l ?e = None" if "key' \<le> l" "l < r" for l
      using get [OF in_prefix [OF that P(2)]] P(3) [OF that] by simp
    have "(key' div 64 ^ h + 1) * 64 ^ h \<le> (key div 64 ^ Suc h + 1) * 64 ^ Suc h"
    proof -
      have "key' div 64 ^ h = 64 * (key' div 64 ^ Suc h) + key' div 64 ^ h mod 64"
        using div_prefix [of key' "64 ^ h"] by simp
      then have "key' div 64 ^ h + 1 \<le> (key div 64 ^ Suc h + 1) * 64" using key(3) by simp
      then have "(key' div 64 ^ h + 1) * 64 ^ h \<le> (key div 64 ^ Suc h + 1) * 64 * 64 ^ h"
        by (rule mult_right_mono) simp
      then show ?thesis by (simp only: power_Suc mult.assoc)
    qed
    then have "r \<le> (key div 64 ^ Suc h + 1) * 64 ^ Suc h" using P(2) by (rule order_trans [rotated])
    moreover have "key < r" using key(1) P(1) by simp
    moreover have "rdx_get (Suc h) l ?e = None" if "key \<le> l" "l < r" for l
      using none mid that by (cases "l < key'") auto
    ultimately show ?thesis unfolding walk_post_def Walk_Restart walk_step.case by blast
  qed
qed

lemma walk_down_ok:
  assumes "rdx_wf h node" "\<not> is_null node" "0 < h" "h \<le> 10" "key < 64 ^ 10"
  shows "\<exists>step. rdxtree_walk_down h key node = Some step \<and> walk_post h key node step"
  using assms
proof (induction h arbitrary: node key)
  case 0
  then show ?case by simp
next
  case (Suc h)
  obtain n bm es where e: "node = Node h n bm es" "rdx_node h h n bm es"
    using Suc.prems(1,2) by (cases rule: rdx_wf_Suc_cases) auto
  have l: "length es = 64" using e(2) by (rule rdx_node_length)
  let ?b = "64 ^ h :: nat" and ?i0 = "rdxtree_index key h"
  have i0: "?i0 = key div ?b mod 64" by (rule rdxtree_index_64)
  have lim: "(key div 64 ^ Suc h + 1) * 64 ^ Suc h \<le> (64::nat) ^ 10"
    using Suc.prems(4,5) by (intro prefix_end) auto
  show ?case
  proof (cases "rdxtree_node_find node ?i0")
    case None
    let ?r = "(key div 64 ^ Suc h + 1) * 64 ^ Suc h"
    have none: "rdx_get (Suc h) k node = None" if k: "key \<le> k" "k < ?r" for k
    proof -
      have "k div 64 ^ Suc h = key div 64 ^ Suc h" by (rule same_prefix_less [OF k])
      then have "?i0 \<le> rdxtree_index k h"
        using div_le_mono [OF k(1), of ?b] div_prefix [of k ?b] div_prefix [of key ?b]
        by (simp add: rdxtree_index_64)
      then have "es ! rdxtree_index k h = Null"
        using None l unfolding e(1) by (intro node_find_None) auto
      then show ?thesis using l e(1) by simp
    qed
    have lt: "key < ?r" using dividend_less_div_times [of "64 ^ Suc h" key] by simp
    have r: "rdxtree_walk_down (Suc h) key node = Some (Walk_Restart ?r)"
    proof -
      have "?r mod 2 ^ 64 = ?r" using lim by (intro mod_less) (simp del: power_Suc)
      moreover have "h * RDXTREE_RADIX + RDXTREE_RADIX < 64" using Suc.prems(4) by (simp add: RDXTREE_RADIX_def)
      ultimately show ?thesis using None by (simp add: Let_def pow2_64 del: power_Suc)
    qed
    show ?thesis unfolding r walk_post_def using lt none by (simp del: power_Suc)
  next
    case (Some i)
    then have f: "rdxtree_node_find (Node h n bm es) ?i0 = Some i" by (simp add: e(1))
    note F = node_find_Some [OF f l]
    define key' where "key' = (if ?i0 \<noteq> i then (key div ?b + (i - ?i0)) * ?b else key)"
    have M: "key \<le> key'" "rdxtree_index key' h = i" "key' div 64 ^ Suc h = key div 64 ^ Suc h"
      "\<And>k. key \<le> k \<Longrightarrow> k < key' \<Longrightarrow> ?i0 \<le> rdxtree_index k h \<and> rdxtree_index k h < i"
      using digit_move [of ?b key i] F(1,2) unfolding key'_def rdxtree_index_64 by auto
    have none: "rdx_get (Suc h) k (Node h n bm es) = None" if "key \<le> k" "k < key'" for k
      using F(4) M(4) [OF that] l by simp
    have small: "key' < 64 ^ 10"
    proof -
      have "key' < (key' div 64 ^ Suc h + 1) * 64 ^ Suc h"
        using dividend_less_div_times [of "64 ^ Suc h" key'] by simp
      with M(3) lim show ?thesis by (simp del: power_Suc)
    qed
    then have "key' mod 2 ^ 64 = key'" by (intro mod_less) simp
    then have kk: "(if ?i0 \<noteq> i then (key div ?b + (i - ?i0)) * ?b mod 2 ^ 64 else key) = key'"
      unfolding key'_def by (simp split: if_splits)
    have child: "rdx_wf h (es ! i)" by (rule rdx_node_child [OF e(2) F(2)])
    have step: "rdxtree_walk_down (Suc h) key node =
        (if h = 0 then map_option (\<lambda>p. Walk_Found key' p node) (ent_ptr (es ! i))
         else rdxtree_walk_down h key' (es ! i))"
    proof -
      have nc: "node_child node i = es ! i" using F(2) l by (simp add: e(1))
      show ?thesis unfolding rdxtree_walk_down.simps(2) Let_def pow2_64 Some option.case kk nc ..
    qed
    show ?thesis
    proof (cases "h = 0")
      case True
      then obtain p where p: "es ! i = Ptr p" using child F(3) by (cases "es ! i") auto
      have "rdx_get (Suc h) key' (Node h n bm es) = Some p" using M(2) p l True by simp
      then have "walk_post (Suc h) key node (Walk_Found key' p node)"
        unfolding walk_post_def walk_step.case
        using M(1,3) none Suc.prems(1,2) True unfolding e(1) One_nat_def by blast
      with True p step show ?thesis by simp
    next
      case False
      obtain s where s: "rdxtree_walk_down h key' (es ! i) = Some s" "walk_post h key' (es ! i) s"
        using Suc.IH [OF child F(3)] False Suc.prems(4) small by auto
      have "walk_post (Suc h) key node s"
        unfolding e(1) by (rule walk_post_up [OF l F(2) M(1-3) none s(2)]) (use False in auto)
      with s(1) step False show ?thesis by simp
    qed
  qed
qed

text \<open>An iterator knows the leaf of its key.\<close>

definition leaf_ok :: "'a rdxtree \<Rightarrow> nat \<Rightarrow> 'a rdxent \<Rightarrow> bool" where
  "leaf_ok tree key leaf =
     (rdx_wf 1 leaf \<and> \<not> is_null leaf \<and>
      (\<forall>l. l div 64 = key div 64 \<longrightarrow> rdx_get 1 l leaf = rdxtree_lookup tree l))"

definition iter_next :: "'a rdxtree_iter \<Rightarrow> nat" where
  "iter_next iter = (if it_key iter = 2 ^ 64 - 1 then 0 else it_key iter + 1)"

definition iter_ok :: "'a rdxtree \<Rightarrow> 'a rdxtree_iter \<Rightarrow> bool" where
  "iter_ok tree iter =
     (case it_node iter of
        None \<Rightarrow> it_key iter = 2 ^ 64 - 1 \<or> it_key iter = 0 \<and> rt_height tree = 0
      | Some leaf \<Rightarrow> it_key iter < 64 ^ 10 \<and> leaf_ok tree (it_key iter) leaf \<and> 0 < rt_height tree)"

definition walk_found :: "'a rdxtree \<Rightarrow> nat \<Rightarrow> ('a \<times> 'a rdxtree_iter) option \<Rightarrow> bool" where
  "walk_found tree key r =
     (case r of
        None \<Rightarrow> \<forall>l. key \<le> l \<longrightarrow> rdxtree_lookup tree l = None
      | Some (p, iter) \<Rightarrow>
          iter_ok tree iter \<and> it_key iter < 64 ^ 10 \<and> key \<le> it_key iter \<and>
          rdxtree_lookup tree (it_key iter) = Some p \<and>
          (\<forall>l. key \<le> l \<longrightarrow> l < it_key iter \<longrightarrow> rdxtree_lookup tree l = None))"

lemma walk_loop_ok:
  assumes wf: "rdxtree_wf tree" and h: "0 < rt_height tree" "rt_height tree \<le> 10"
  shows "\<exists>r. rdxtree_walk_loop (rt_root tree) key = Some r \<and> walk_found tree key r"
proof (induction "64 ^ rt_height tree - key" arbitrary: key rule: less_induct)
  case less
  let ?H = "rt_height tree" and ?root = "rt_root tree"
  have rwf: "rdx_wf ?H ?root" "\<not> is_null ?root" using wf h(1) unfolding rdxtree_wf_def by auto
  then have eh: "ent_height ?root = ?H" using h(1) rdx_wf_Suc_cases [of "?H - 1" ?root]
    by (metis One_nat_def Suc_pred ent_height.simps(1) is_null_simps(1) Suc_eq_plus1)
  have mx: "rdxtree_max_key ?H = 64 ^ ?H - 1" using h(2) by (rule max_key_small)
  have look: "rdxtree_lookup tree l = (if l < 64 ^ ?H then rdx_get ?H l ?root else None)" for l
    using max_key_less [of l ?H] mx by (auto simp: rdxtree_lookup_get [OF rwf(1)])
  have p10: "(64::nat) ^ ?H \<le> 64 ^ 10" using h(2) by (intro power_increasing) auto
  show ?case
  proof (cases "key < 64 ^ ?H")
    case False
    then have "key > rdxtree_max_key (ent_height ?root)"
      using zero_less_power [of "64::nat" ?H] unfolding eh mx by linarith
    then have "rdxtree_walk_loop ?root key = Some None" by (subst rdxtree_walk_loop.simps) simp
    moreover have "walk_found tree key None" using False by (auto simp: walk_found_def look)
    ultimately show ?thesis by blast
  next
    case True
    obtain step where step: "rdxtree_walk_down ?H key ?root = Some step" "walk_post ?H key ?root step"
      using walk_down_ok [OF rwf h] True p10 by (meson less_le_trans)
    have le: "\<not> key > rdxtree_max_key (ent_height ?root)" using True by (simp add: eh mx)
    have pre: "key div 64 ^ ?H = 0" using True by simp
    show ?thesis
    proof (cases step)
      case (Walk_Found j p leaf)
      let ?it = "\<lparr>it_node = Some leaf, it_key = j\<rparr>"
      have run: "rdxtree_walk_loop ?root key = Some (Some (p, ?it))"
        using le step(1) by (subst rdxtree_walk_loop.simps) (simp add: eh Walk_Found)
      from step(2) have P: "key \<le> j" "j div 64 ^ ?H = key div 64 ^ ?H" "rdx_get ?H j ?root = Some p"
        "\<And>l. key \<le> l \<Longrightarrow> l < j \<Longrightarrow> rdx_get ?H l ?root = None" "rdx_wf 1 leaf" "\<not> is_null leaf"
        "\<And>l. l div 64 = j div 64 \<Longrightarrow> rdx_get 1 l leaf = rdx_get ?H l ?root"
        by (auto simp: walk_post_def Walk_Found)
      have j: "j < 64 ^ ?H" using P(2) pre by (simp add: div_eq_0_iff)
      have "l < 64 ^ ?H" if "l div 64 = j div 64" for l
      proof -
        have pw: "(64::nat) ^ ?H = 64 * 64 ^ (?H - 1)" using h(1) by (cases ?H) auto
        have "l div 64 ^ ?H = j div 64 ^ ?H" unfolding pw using that by (simp add: div_mult2_eq)
        then show ?thesis using j by (simp add: div_eq_0_iff)
      qed
      then have "leaf_ok tree j leaf" using P(5-7) by (simp add: leaf_ok_def look)
      then have "walk_found tree key (Some (p, ?it))"
        using P(1,3,4) j p10 h(1) by (auto simp: walk_found_def look iter_ok_def)
      with run show ?thesis by blast
    next
      case (Walk_Restart r)
      from step(2) have P: "key < r" "\<And>l. key \<le> l \<Longrightarrow> l < r \<Longrightarrow> rdx_get ?H l ?root = None"
        by (auto simp: walk_post_def Walk_Restart)
      then have run: "rdxtree_walk_loop ?root key = rdxtree_walk_loop ?root r"
        using le step(1) by (subst rdxtree_walk_loop.simps) (simp add: eh Walk_Restart)
      obtain res where res: "rdxtree_walk_loop ?root r = Some res" "walk_found tree r res"
        using less [of r] P(1) True by (meson diff_less_mono2)
      have "rdxtree_lookup tree l = None" if "key \<le> l" "l < r" for l using P(2) that by (simp add: look)
      then have "walk_found tree key res"
        using res(2) P(1) unfolding walk_found_def
        by (auto split: option.splits) (metis not_le)+
      with run res(1) show ?thesis by auto
    qed
  qed
qed

lemma rdxtree_walk_next_ok:
  assumes wf: "rdxtree_wf tree" and h: "rt_height tree \<le> 10" and it: "iter_ok tree iter"
  shows "\<exists>r. rdxtree_walk_next tree iter = Some r \<and> walk_found tree (iter_next iter) r"
proof (cases "rt_height tree = 0")
  case True
  then have look: "rdxtree_lookup tree l = (if l = 0 then ent_ptr (rt_root tree) else None)" for l
    using wf by (cases "rt_root tree") (auto simp: rdxtree_wf_def rdxtree_lookup_def max_key_small)
  show ?thesis
    using True wf it
    by (cases "rt_root tree")
      (auto simp: rdxtree_walk_next_def rdxtree_wf_def walk_found_def look iter_ok_def iter_next_def
        split: option.splits)
next
  case False
  then obtain nh n bm es where root: "rt_root tree = Node nh n bm es"
    using wf by (cases "rt_root tree"; cases "rt_height tree") (auto simp: rdxtree_wf_def rdx_wf.simps(2))
  have key: "(it_key iter + 1) mod 2 ^ 64 = iter_next iter"
    using it False by (auto simp: iter_ok_def iter_next_def split: option.splits)
  have "\<not> (iter_next iter = 0 \<and> it_node iter \<noteq> None)"
    using it by (auto simp: iter_ok_def iter_next_def split: option.splits)
  then have "rdxtree_walk_next tree iter = rdxtree_walk_loop (rt_root tree) (iter_next iter)"
    unfolding rdxtree_walk_next_def root rdxent.case Let_def key by auto
  with walk_loop_ok [OF wf] False h show ?thesis by auto
qed

lemma rdxtree_walk_ok:
  assumes wf: "rdxtree_wf tree" and h: "rt_height tree \<le> 10" and it: "iter_ok tree iter"
  shows "\<exists>r. rdxtree_walk tree iter = Some r \<and> walk_found tree (iter_next iter) r"
proof (cases "it_node iter")
  case None
  then show ?thesis using rdxtree_walk_next_ok [OF assms] by (simp add: rdxtree_walk_def)
next
  case (Some leaf)
  let ?k = "it_key iter" and ?i0 = "(it_key iter + 1) mod 64"
  have k: "?k < 64 ^ 10" and leaf: "leaf_ok tree ?k leaf" and h0: "0 < rt_height tree"
    using it Some by (auto simp: iter_ok_def)
  have nxt: "iter_next iter = ?k + 1" using k by (simp add: iter_next_def)
  show ?thesis
  proof (cases "if ?i0 \<noteq> 0 then rdxtree_node_find leaf ?i0 else None")
    case None
    have "rdxtree_walk tree iter = rdxtree_walk_next tree iter"
      unfolding rdxtree_walk_def Some Let_def option.case RDXTREE_RADIX_SIZE_def None ..
    then show ?thesis using rdxtree_walk_next_ok [OF assms] by simp
  next
    case (Some i)
    then have i0: "?i0 \<noteq> 0" "rdxtree_node_find leaf ?i0 = Some i" by (auto split: if_splits)
    obtain n bm es where e: "leaf = Node 0 n bm es" "rdx_node 0 0 n bm es"
      using leaf unfolding leaf_ok_def One_nat_def by (metis is_null_simps(1) rdx_wf_Suc_cases)
    have l: "length es = 64" using e(2) by (rule rdx_node_length)
    note F = node_find_Some [OF i0(2) [unfolded e(1)] l]
    let ?j = "?k + (i - ?i0) + 1"
    have k1: "(?k + 1) div 64 = ?k div 64" using i0(1) by (simp add: div_Suc mod_Suc split: if_splits)
    have dig: "l div 64 = ?k div 64 \<and> l mod 64 = ?i0 + (l - (?k + 1))"
      if "?k + 1 \<le> l" "l - (?k + 1) + ?i0 < 64" for l
    proof -
      obtain d where d: "d = ?i0 + (l - (?k + 1))" by blast
      have d64: "d < 64" using that(2) d by simp
      have "l = ?k div 64 * 64 + d" using that(1) k1 d div_mult_mod_eq [of "?k + 1" 64] by linarith
      moreover have "(?k div 64 * 64 + d) div 64 = ?k div 64" "(?k div 64 * 64 + d) mod 64 = d"
        using d64 by simp_all
      ultimately show ?thesis unfolding d [symmetric] by metis
    qed
    have look: "rdxtree_lookup tree l = ent_ptr (es ! (?i0 + (l - (?k + 1))))"
      if "?k + 1 \<le> l" "l - (?k + 1) + ?i0 < 64" for l
    proof -
      have "rdxtree_lookup tree l = rdx_get 1 l leaf" using leaf dig [OF that] by (simp add: leaf_ok_def)
      also have "\<dots> = ent_ptr (es ! (l mod 64))" using l by (simp add: e(1) rdxtree_index_64)
      finally show ?thesis using dig [OF that] by simp
    qed
    have "rdx_wf 0 (es ! i)" by (rule rdx_node_child [OF e(2) F(2)])
    then obtain p where p: "es ! i = Ptr p" using F(3) by (cases "es ! i") auto
    have jj: "?j div 64 = ?k div 64" using dig [of ?j] F(1,2) by simp
    have j: "?j < 64 ^ 10"
    proof -
      have "?k div 64 < 64 ^ 9" using k by (simp add: div_less_iff_less_mult)
      then have "?j div 64 < 64 ^ 9" unfolding jj .
      then show ?thesis by (simp add: div_less_iff_less_mult)
    qed
    let ?it = "iter\<lparr>it_key := ?j\<rparr>"
    have run: "rdxtree_walk tree iter = Some (Some (p, ?it))"
    proof -
      have "?j mod 2 ^ 64 = ?j" using j by (intro mod_less) simp
      moreover have "node_child leaf i = Ptr p" using F(2) l p by (simp add: e(1))
      ultimately show ?thesis
        unfolding rdxtree_walk_def \<open>it_node iter = Some leaf\<close> Let_def option.case RDXTREE_RADIX_SIZE_def Some
        by simp
    qed
    have "leaf_ok tree ?j leaf" using leaf unfolding leaf_ok_def jj .
    then have "iter_ok tree ?it" using j h0 \<open>it_node iter = Some leaf\<close> by (simp add: iter_ok_def)
    moreover have "rdxtree_lookup tree ?j = Some p" using look [of ?j] F(1,2) p by simp
    moreover have "rdxtree_lookup tree l = None" if "?k + 1 \<le> l" "l < ?j" for l
      using look [of l] F(2) F(4) [of "?i0 + (l - (?k + 1))"] that by simp
    ultimately have "walk_found tree (iter_next iter) (Some (p, ?it))"
      using j by (simp add: walk_found_def nxt)
    with run show ?thesis by blast
  qed
qed

lemma for_each_from:
  assumes wf: "rdxtree_wf tree" and h: "rt_height tree \<le> 10" and it: "iter_ok tree iter"
  shows "\<exists>xs. rdxtree_for_each tree iter = Some xs \<and>
    map fst xs = sorted_list_of_set {k \<in> dom (rdxtree_lookup tree). iter_next iter \<le> k} \<and>
    (\<forall>(k, p) \<in> set xs. rdxtree_lookup tree k = Some p)"
  using it
proof (induction "card {k \<in> dom (rdxtree_lookup tree). iter_next iter \<le> k}" arbitrary: iter rule: less_induct)
  case less
  have fin: "finite (dom (rdxtree_lookup tree))" using wf by (rule rdxtree_lookup_finite)
  obtain r where r: "rdxtree_walk tree iter = Some r" "walk_found tree (iter_next iter) r"
    using rdxtree_walk_ok [OF wf h less.prems] by blast
  show ?case
  proof (cases r)
    case None
    then have empty: "{k \<in> dom (rdxtree_lookup tree). iter_next iter \<le> k} = {}"
      using r(2) by (auto simp: walk_found_def)
    have "rdxtree_for_each tree iter = Some []"
      using r(1) None by (subst rdxtree_for_each.simps) simp
    then show ?thesis unfolding empty by simp
  next
    case (Some pi)
    obtain p iter' where pi: "pi = (p, iter')" by (cases pi)
    let ?k = "it_key iter'"
    from r(2) Some pi have W: "iter_ok tree iter'" "?k < 64 ^ 10" "iter_next iter \<le> ?k"
      "rdxtree_lookup tree ?k = Some p"
      "\<And>l. iter_next iter \<le> l \<Longrightarrow> l < ?k \<Longrightarrow> rdxtree_lookup tree l = None"
      by (auto simp: walk_found_def)
    have nxt: "iter_next iter' = ?k + 1" using W(2) by (simp add: iter_next_def)
    let ?A = "{k \<in> dom (rdxtree_lookup tree). iter_next iter \<le> k}"
      and ?B = "{k \<in> dom (rdxtree_lookup tree). iter_next iter' \<le> k}"
    have A: "?A = insert ?k ?B"
    proof
      show "?A \<subseteq> insert ?k ?B"
      proof
        fix l assume l: "l \<in> ?A"
        with W(5) [of l] have "\<not> l < ?k" by auto
        with l show "l \<in> insert ?k ?B" by (auto simp: nxt)
      qed
      show "insert ?k ?B \<subseteq> ?A" using W(3,4) by (auto simp: nxt)
    qed
    have notin: "?k \<notin> ?B" by (simp add: nxt)
    have "card ?B < card ?A" unfolding A using notin fin by simp
    from less.hyps [OF this W(1)] obtain xs where xs: "rdxtree_for_each tree iter' = Some xs"
      "map fst xs = sorted_list_of_set ?B" "\<forall>(k, p) \<in> set xs. rdxtree_lookup tree k = Some p" by blast
    have run: "rdxtree_for_each tree iter = Some ((?k, p) # xs)"
      using r(1) xs(1) by (subst rdxtree_for_each.simps) (simp add: Some pi)
    have "sorted_list_of_set ?A = ?k # sorted_list_of_set ?B"
    proof -
      have "finite ?B" using fin by simp
      then have "sorted_list_of_set ?A = insort ?k (sorted_list_of_set ?B)"
        unfolding A using notin by (rule sorted_list_of_set_insert)
      also have "\<dots> = ?k # sorted_list_of_set ?B"
        by (rule insort_is_Cons) (use \<open>finite ?B\<close> nxt in auto)
      finally show ?thesis .
    qed
    with run xs W(4) show ?thesis by auto
  qed
qed

text \<open>The whole iteration.\<close>

lemma rdxtree_for_each_ok:
  assumes "rdxtree_wf tree" "rt_height tree \<le> 10"
  shows "\<exists>xs. rdxtree_for_each tree rdxtree_iter_init = Some xs \<and>
    map fst xs = sorted_list_of_set (dom (rdxtree_lookup tree)) \<and> map_of xs = rdxtree_lookup tree"
proof -
  have "iter_ok tree rdxtree_iter_init" "iter_next (rdxtree_iter_init :: 'a rdxtree_iter) = 0"
    by (simp_all add: iter_ok_def iter_next_def rdxtree_iter_init_def)
  with for_each_from [OF assms] obtain xs where xs: "rdxtree_for_each tree rdxtree_iter_init = Some xs"
    "map fst xs = sorted_list_of_set {k. k \<in> dom (rdxtree_lookup tree)}"
    "\<forall>(k, p) \<in> set xs. rdxtree_lookup tree k = Some p" by fastforce
  have fin: "finite (dom (rdxtree_lookup tree))" using assms(1) by (rule rdxtree_lookup_finite)
  have "map_of xs k = rdxtree_lookup tree k" for k
  proof (cases "rdxtree_lookup tree k")
    case None
    then have "k \<notin> set (map fst xs)" using xs(2) fin by auto
    then show ?thesis using None by (simp add: map_of_eq_None_iff)
  next
    case (Some p)
    then have "k \<in> set (map fst xs)" using xs(2) fin by auto
    then obtain q where "map_of xs k = Some q" by (metis map_of_eq_None_iff not_Some_eq list.set_map)
    then show ?thesis using xs(3) by (fastforce dest: map_of_SomeD)
  qed
  with xs show ?thesis by auto
qed

section \<open>Properties\<close>



end
