(* ===== verification/Rdxtree_Clear.thy ===== *)
theory Rdxtree_Clear
  imports Rdxtree_Walk
begin

text \<open>
  \<^verbatim>\<open>rdxtree_remove_all\<close> of \<^verbatim>\<open>kern/rdxtree.c\<close>.  Each round of the loop finds the first leaf node,
  takes it out of its parent, and sets bits and cleans up from there.  The loop ends
  when the walk finds no node; \<open>rdxtree_remove_all_ok\<close> shows that the tree is empty then: the
  clean-up never shrinks the tree to a root that is a pointer.
\<close>

text \<open>
  One round below a node: the node without its first leaf, whether the bit of the level
  above is to be set, and whether the clean-up reached this node.
\<close>

fun rdxtree_remove_leaf :: "nat \<Rightarrow> 'a rdxent \<Rightarrow> ('a rdxent \<times> bool \<times> bool) option" where
  "rdxtree_remove_leaf 0 e = None"
| "rdxtree_remove_leaf (Suc 0) e = Some (Null, True, True)"
| "rdxtree_remove_leaf (Suc (Suc h)) e =
     do { index \<leftarrow> rdxtree_node_find e 0;
          (child, bm_up, reached) \<leftarrow> rdxtree_remove_leaf (Suc h) (node_child e index);
          let bm_go = (bm_up \<and> (h = 0 \<or> \<not> rdxtree_node_bm_is_set e index));
          let node = (if bm_go then rdxtree_node_bm_set e index else e);
          if is_null child then
            do { node \<leftarrow> rdxtree_node_remove node index;
                 Some (if rdxtree_node_empty node then Null else node, bm_go, True) }
          else Some (node_set_child node index child, bm_go, False) }"

partial_function (option) rdxtree_remove_all_loop :: "'a rdxtree \<Rightarrow> 'a rdxtree option" where
  "rdxtree_remove_all_loop tree =
     (if ent_height (rt_root tree) = 0 then Some tree
      else if rt_height tree = 1 then rdxtree_remove_all_loop rdxtree_init
      else do {
        r \<leftarrow> rdxtree_remove_leaf (rt_height tree) (rt_root tree);
        rdxtree_remove_all_loop
          (if is_null (fst r) then rdxtree_init
           else if snd (snd r) then rdxtree_shrink (tree\<lparr>rt_root := fst r\<rparr>)
           else tree\<lparr>rt_root := fst r\<rparr>) })"

definition rdxtree_remove_all :: "'a rdxtree \<Rightarrow> 'a rdxtree option" where
  "rdxtree_remove_all tree =
     (if rt_height tree = 0 then Some (tree\<lparr>rt_root := Null\<rparr>) else rdxtree_remove_all_loop tree)"

section \<open>The loop empties the tree\<close>

text \<open>What the loop needs of a node, and the number of its leaves.\<close>

fun rdx_shape :: "nat \<Rightarrow> 'a rdxent \<Rightarrow> bool" where
  "rdx_shape 0 e = (ent_height e = 0)"
| "rdx_shape (Suc h) e =
     (case e of
        Null \<Rightarrow> True
      | Ptr p \<Rightarrow> False
      | Node nh n bm es \<Rightarrow>
          nh = h \<and> length es = 64 \<and> n = length (filter (\<lambda>x. \<not> is_null x) es) \<and> 0 < n \<and>
          (\<forall>x \<in> set es. rdx_shape h x))"

fun rdx_leaves :: "nat \<Rightarrow> 'a rdxent \<Rightarrow> nat" where
  "rdx_leaves 0 e = 0"
| "rdx_leaves (Suc 0) e = (if is_null e then 0 else 1)"
| "rdx_leaves (Suc (Suc h)) e = (case e of Node nh n bm es \<Rightarrow> sum_list (map (rdx_leaves (Suc h)) es) | _ \<Rightarrow> 0)"

lemma rdx_wf_shape: "rdx_wf h e \<Longrightarrow> rdx_shape h e"
proof (induction h arbitrary: e)
  case 0
  then show ?case by (cases e) auto
next
  case (Suc h)
  then show ?case unfolding rdx_wf.simps by (cases e) auto
qed

declare rdx_shape.simps(2) [simp del]

lemma remove_leaf_ok:
  "rdx_shape (Suc h) e \<Longrightarrow> \<not> is_null e \<Longrightarrow>
   \<exists>e' bm r. rdxtree_remove_leaf (Suc h) e = Some (e', bm, r) \<and> rdx_shape (Suc h) e' \<and>
     rdx_leaves (Suc h) e' < rdx_leaves (Suc h) e \<and> (r \<longrightarrow> node_child e' 0 = Null)"
proof (induction h arbitrary: e)
  case 0
  then show ?case by (auto simp: rdx_shape.simps(2))
next
  case (Suc h)
  obtain n bm es where e: "e = Node (Suc h) n bm es" and len: "length es = 64"
    and n: "n = length (filter (\<lambda>x. \<not> is_null x) es)" "0 < n"
    and ch: "\<forall>x \<in> set es. rdx_shape (Suc h) x"
    using Suc.prems by (cases e) (auto simp: rdx_shape.simps(2) [of "Suc h"])
  have "\<exists>j<64. \<not> is_null (es ! j)"
    using n len by (metis filter_empty_conv in_set_conv_nth length_0_conv less_numeral_extra(3))
  then obtain i where i: "rdxtree_node_find e 0 = Some i"
    using node_find_None [of "Suc h" n bm es 0] len
    unfolding e by (metis is_null_simps(1) not_None_eq zero_le)
  note F = node_find_Some [OF i [unfolded e] len]
  obtain c bu r where c: "rdxtree_remove_leaf (Suc h) (es ! i) = Some (c, bu, r)"
    "rdx_shape (Suc h) c" "rdx_leaves (Suc h) c < rdx_leaves (Suc h) (es ! i)"
    using Suc.IH [of "es ! i"] ch F(2,3) len by (metis nth_mem)
  have cnt: "length (filter (\<lambda>x. \<not> is_null x) (es[i := c])) + 1 = n + (if is_null c then 0 else 1)"
    using count_filter_upd [of i es "\<lambda>x. \<not> is_null x" c] F(2,3) len n(1) by simp
  have shape: "\<forall>x \<in> set (es[i := c]). rdx_shape (Suc h) x"
    using ch c(2) set_update_subset_insert [of es i c] by blast
  have lv: "sum_list (map (rdx_leaves (Suc h)) (es[i := c])) < sum_list (map (rdx_leaves (Suc h)) es)"
    using c(3) F(2) len elem_le_sum_list [of i "map (rdx_leaves (Suc h)) es"]
    by (simp add: map_update sum_list_update)
  let ?go = "bu \<and> (h = 0 \<or> \<not> rdxtree_node_bm_is_set e i)"
  have "\<exists>bm'. (if ?go then rdxtree_node_bm_set e i else e) = Node (Suc h) n bm' es"
    by (cases ?go) (auto simp: e)
  then obtain bm' where bm': "(if ?go then rdxtree_node_bm_set e i else e) = Node (Suc h) n bm' es"
    by blast
  have nc: "node_child e i = es ! i" using F(2) len by (simp add: e)
  show ?case
  proof (cases "is_null c")
    case False
    then have "n = length (filter (\<lambda>x. \<not> is_null x) (es[i := c]))" using cnt by simp
    then have "rdx_shape (Suc (Suc h)) (Node (Suc h) n bm' (es[i := c]))"
      using len n(2) shape unfolding rdx_shape.simps(2) [of "Suc h"] by simp
    moreover have "rdxtree_remove_leaf (Suc (Suc h)) e = Some (Node (Suc h) n bm' (es[i := c]), ?go, False)"
      using i c(1) False unfolding rdxtree_remove_leaf.simps(3) Let_def i by (simp add: nc bm')
    ultimately show ?thesis using lv by (auto simp: e)
  next
    case True
    then have c0: "c = Null" by (simp add: is_null_iff)
    have n': "n - 1 = length (filter (\<lambda>x. \<not> is_null x) (es[i := c]))" using cnt True by simp
    let ?e = "if n - 1 = 0 then Null else Node (Suc h) (n - 1) bm' (es[i := c])"
    have run: "rdxtree_remove_leaf (Suc (Suc h)) e = Some (?e, ?go, True)"
      using c(1) True F(2,3) len unfolding rdxtree_remove_leaf.simps(3) Let_def i
      by (simp add: nc bm' rdxtree_node_empty_def c0)
    have "rdx_shape (Suc (Suc h)) ?e"
      using len n' shape unfolding rdx_shape.simps(2) [of "Suc h"] by simp
    moreover have "rdx_leaves (Suc (Suc h)) ?e < rdx_leaves (Suc (Suc h)) e" using lv by (auto simp: e)
    moreover have "node_child ?e 0 = Null"
      using F(2) F(4) [of 0] c0 len by (cases "i = 0") auto
    ultimately show ?thesis using run by blast
  qed
qed

lemma remove_all_loop_ok:
  assumes "rdx_shape (Suc h) (rt_root tree)" "\<not> is_null (rt_root tree)" "rt_height tree = Suc h"
  shows "rdxtree_remove_all_loop tree = Some rdxtree_init"
  using assms
proof (induction "rdx_leaves (Suc h) (rt_root tree)" arbitrary: tree rule: less_induct)
  case less
  have eh: "ent_height (rt_root tree) \<noteq> 0"
    using less.prems(1,2) by (cases "rt_root tree") (auto simp: rdx_shape.simps(2))
  have init: "rdxtree_remove_all_loop rdxtree_init = (Some rdxtree_init :: 'a rdxtree option)"
    by (subst rdxtree_remove_all_loop.simps) (simp add: rdxtree_init_def)
  show ?case
  proof (cases "h = 0")
    case True
    then show ?thesis
      using eh less.prems(3) init by (subst rdxtree_remove_all_loop.simps) simp
  next
    case False
    obtain e' bm r where R: "rdxtree_remove_leaf (Suc h) (rt_root tree) = Some (e', bm, r)"
      "rdx_shape (Suc h) e'" "rdx_leaves (Suc h) e' < rdx_leaves (Suc h) (rt_root tree)"
      "r \<longrightarrow> node_child e' 0 = Null"
      using remove_leaf_ok [OF less.prems(1,2)] by blast
    let ?t = "tree\<lparr>rt_root := e'\<rparr>"
    have "rdxtree_shrink ?t = ?t" if r using R(4) that less.prems(3) by (simp add: rdxtree_shrink_def)
    then have "rdxtree_remove_all_loop tree =
        (if is_null e' then rdxtree_remove_all_loop rdxtree_init else rdxtree_remove_all_loop ?t)"
      using eh False less.prems(3) R(1) by (subst rdxtree_remove_all_loop.simps) simp
    moreover have "rdxtree_remove_all_loop ?t = Some rdxtree_init" if "\<not> is_null e'"
      using less.hyps [of ?t] R(2,3) that less.prems(3) by simp
    ultimately show ?thesis using init by simp
  qed
qed

lemma rdxtree_remove_all_ok:
  assumes "rdxtree_wf tree"
  shows "rdxtree_remove_all tree = Some rdxtree_init"
proof (cases "rt_height tree")
  case 0
  then show ?thesis by (cases tree) (simp add: rdxtree_remove_all_def rdxtree_init_def)
next
  case (Suc h)
  then have "rdx_shape (Suc h) (rt_root tree)" "\<not> is_null (rt_root tree)"
    using assms rdx_wf_shape by (auto simp: rdxtree_wf_def)
  then show ?thesis using Suc remove_all_loop_ok by (auto simp: rdxtree_remove_all_def)
qed

section \<open>Properties\<close>

text \<open>C25: the loop of \<^verbatim>\<open>rdxtree_remove_all\<close> ends, and it ends with the empty tree.\<close>

theorem rdxtree_remove_all_correct:
  assumes "rdxtree_wf tree"
  shows "rdxtree_remove_all tree = Some rdxtree_init"
  using assms by (rule rdxtree_remove_all_ok)

theorem rdxtree_remove_all_correct_witness:
  "rdxtree_remove_all \<lparr>rt_height = 0, rt_root = Ptr (7::nat)\<rparr> = Some rdxtree_init"
  using rdxtree_remove_all_correct [of "\<lparr>rt_height = 0, rt_root = Ptr (7::nat)\<rparr>"]
  by (simp add: rdxtree_wf_def)

end
