(* ===== verification/Ipc_Space.thy ===== *)
theory Ipc_Space
  imports Ipc_Right_Copy Rdxtree_Clear
begin

text \<open>
  Operations on a space by name: the allocation of rights, copyin and copyout of
  \<^verbatim>\<open>ipc/ipc_object.c\<close>, the allocation of ports (\<^verbatim>\<open>ipc/ipc_port.c\<close>) and port sets
  (\<^verbatim>\<open>ipc/ipc_pset.c\<close>), and \<^verbatim>\<open>ipc_space_destroy\<close>.  An object gets its address when
  its allocation has succeeded as a whole.
\<close>

section \<open>Entries of a space in the kernel state\<close>

definition entry_alloc_in ::
  "space_id \<Rightarrow> kernel \<Rightarrow> (kern_return \<times> mach_port_name \<times> nat \<times> kernel) option" where
  "entry_alloc_in space st =
     do { sp \<leftarrow> k_spaces st space;
          (kr, name, e, sp, m) \<leftarrow> ipc_entry_alloc sp (k_mem st);
          Some (kr, name, e, set_space space sp (st\<lparr>k_mem := m\<rparr>)) }"

definition entry_alloc_name_in ::
  "space_id \<Rightarrow> mach_port_name \<Rightarrow> kernel \<Rightarrow> (kern_return \<times> nat \<times> kernel) option" where
  "entry_alloc_name_in space name st =
     do { sp \<leftarrow> k_spaces st space;
          (kr, e, sp, m) \<leftarrow> ipc_entry_alloc_name sp name (k_mem st);
          Some (kr, e, set_space space sp (st\<lparr>k_mem := m\<rparr>)) }"

section \<open>Translation\<close>

fun right_number :: "mach_port_right \<Rightarrow> nat" where
  "right_number MACH_PORT_RIGHT_SEND = 0"
| "right_number MACH_PORT_RIGHT_RECEIVE = 1"
| "right_number MACH_PORT_RIGHT_SEND_ONCE = 2"
| "right_number MACH_PORT_RIGHT_PORT_SET = 3"
| "right_number MACH_PORT_RIGHT_DEAD_NAME = 4"

definition ipc_object_translate ::
  "space_id \<Rightarrow> mach_port_name \<Rightarrow> mach_port_right \<Rightarrow> kernel \<Rightarrow> (kern_return \<times> ipc_object) option" where
  "ipc_object_translate space name right st =
     do { (kr, e) \<leftarrow> ipc_right_lookup_write space name st;
          if kr \<noteq> KERN_SUCCESS then Some (kr, IO_NULL)
          else do {
            entry \<leftarrow> entry_in space e st;
            if ie_bits entry AND MACH_PORT_TYPE (right_number right) = 0 then Some (KERN_INVALID_RIGHT, IO_NULL)
            else do {
              kassert (ie_object entry \<noteq> IO_NULL);
              Some (KERN_SUCCESS, ie_object entry) } } }"

section \<open>Allocation of rights\<close>

definition ipc_object_alloc_dead ::
  "space_id \<Rightarrow> kernel \<Rightarrow> (kern_return \<times> mach_port_name \<times> kernel) option" where
  "ipc_object_alloc_dead space st =
     do { (kr, name, e, st) \<leftarrow> entry_alloc_in space st;
          if kr \<noteq> KERN_SUCCESS then Some (kr, name, st)
          else do {
            entry \<leftarrow> entry_in space e st;
            kassert (ie_object entry = IO_NULL);
            st \<leftarrow> set_entry_in space e
              (\<lambda>en. en\<lparr>ie_bits := ie_bits en OR (MACH_PORT_TYPE_DEAD_NAME OR 1)\<rparr>) st;
            Some (KERN_SUCCESS, name, st) } }"

definition ipc_object_alloc_dead_name ::
  "space_id \<Rightarrow> mach_port_name \<Rightarrow> kernel \<Rightarrow> (kern_return \<times> kernel) option" where
  "ipc_object_alloc_dead_name space name st =
     do { (kr, e, st) \<leftarrow> entry_alloc_name_in space name st;
          if kr \<noteq> KERN_SUCCESS then Some (kr, st)
          else do {
            entry \<leftarrow> entry_in space e st;
            if ipc_right_inuse entry then Some (KERN_NAME_EXISTS, st)
            else do {
              kassert (ie_object entry = IO_NULL);
              st \<leftarrow> set_entry_in space e
                (\<lambda>en. en\<lparr>ie_bits := ie_bits en OR (MACH_PORT_TYPE_DEAD_NAME OR 1)\<rparr>) st;
              Some (KERN_SUCCESS, st) } } }"

text \<open>The new object, with one reference for its entry, put into the entry.\<close>

definition object_enter ::
  "space_id \<Rightarrow> nat \<Rightarrow> bits32 \<Rightarrow> bits32 \<Rightarrow> bits32 \<Rightarrow> kernel \<Rightarrow> (ipc_object \<times> kernel) option" where
  "object_enter space e otype type urefs st =
     (let a = k_next st; st = st\<lparr>k_next := a + 1\<rparr>; bits = io_makebits True otype 0;
          (object, st) =
            (if otype = IOT_PORT then
               (IO_PORT a, set_port a (zero_port\<lparr>ip_references := 1, ip_bits := bits\<rparr>) st)
             else (IO_PSET a, set_pset a (zero_pset\<lparr>ips_references := 1, ips_bits := bits\<rparr>) st))
      in do {
        st \<leftarrow> set_entry_in space e
          (\<lambda>en. en\<lparr>ie_bits := ie_bits en OR (type OR urefs), ie_object := object\<rparr>) st;
        Some (object, st) })"

definition ipc_object_alloc ::
  "space_id \<Rightarrow> bits32 \<Rightarrow> bits32 \<Rightarrow> bits32 \<Rightarrow> kernel \<Rightarrow>
   (kern_return \<times> mach_port_name \<times> ipc_object \<times> kernel) option" where
  "ipc_object_alloc space otype type urefs st =
     do { kassert (otype < 2);
          kassert (type AND MACH_PORT_TYPE_ALL_RIGHTS = type);
          kassert (type \<noteq> MACH_PORT_TYPE_NONE);
          kassert (urefs \<le> MACH_PORT_UREFS_MAX);
          let (ok, st) = k_alloc st;
          if \<not> ok then Some (KERN_RESOURCE_SHORTAGE, 0, IO_NULL, st)
          else do {
            (kr, name, e, st) \<leftarrow> entry_alloc_in space st;
            if kr \<noteq> KERN_SUCCESS then Some (kr, 0, IO_NULL, st)
            else do {
              (object, st) \<leftarrow> object_enter space e otype type urefs st;
              Some (KERN_SUCCESS, name, object, st) } } }"

definition ipc_object_alloc_name ::
  "space_id \<Rightarrow> bits32 \<Rightarrow> bits32 \<Rightarrow> bits32 \<Rightarrow> mach_port_name \<Rightarrow> kernel \<Rightarrow>
   (kern_return \<times> ipc_object \<times> kernel) option" where
  "ipc_object_alloc_name space otype type urefs name st =
     do { kassert (otype < 2);
          kassert (type AND MACH_PORT_TYPE_ALL_RIGHTS = type);
          kassert (type \<noteq> MACH_PORT_TYPE_NONE);
          kassert (urefs \<le> MACH_PORT_UREFS_MAX);
          let (ok, st) = k_alloc st;
          if \<not> ok then Some (KERN_RESOURCE_SHORTAGE, IO_NULL, st)
          else do {
            (kr, e, st) \<leftarrow> entry_alloc_name_in space name st;
            if kr \<noteq> KERN_SUCCESS then Some (kr, IO_NULL, st)
            else do {
              entry \<leftarrow> entry_in space e st;
              if ipc_right_inuse entry then Some (KERN_NAME_EXISTS, IO_NULL, st)
              else do {
                (object, st) \<leftarrow> object_enter space e otype type urefs st;
                Some (KERN_SUCCESS, object, st) } } } }"

definition ipc_port_alloc ::
  "space_id \<Rightarrow> kernel \<Rightarrow> (kern_return \<times> mach_port_name \<times> port_id \<times> kernel) option" where
  "ipc_port_alloc space st =
     do { (kr, name, object, st) \<leftarrow> ipc_object_alloc space IOT_PORT MACH_PORT_TYPE_RECEIVE 0 st;
          if kr \<noteq> KERN_SUCCESS then Some (kr, 0, 0, st)
          else do {
            p \<leftarrow> obj_port object;
            port \<leftarrow> k_ports st p;
            Some (KERN_SUCCESS, name, p, set_port p (ipc_port_init port space name) st) } }"

definition ipc_port_alloc_name ::
  "space_id \<Rightarrow> mach_port_name \<Rightarrow> kernel \<Rightarrow> (kern_return \<times> port_id \<times> kernel) option" where
  "ipc_port_alloc_name space name st =
     do { (kr, object, st) \<leftarrow> ipc_object_alloc_name space IOT_PORT MACH_PORT_TYPE_RECEIVE 0 name st;
          if kr \<noteq> KERN_SUCCESS then Some (kr, 0, st)
          else do {
            p \<leftarrow> obj_port object;
            port \<leftarrow> k_ports st p;
            Some (KERN_SUCCESS, p, set_port p (ipc_port_init port space name) st) } }"

definition ipc_port_alloc_special :: "space_id \<Rightarrow> kernel \<Rightarrow> port_id option \<times> kernel" where
  "ipc_port_alloc_special space st =
     (let (ok, st) = k_alloc st in
      if \<not> ok then (None, st)
      else let p = k_next st;
               port = zero_port\<lparr>ip_references := 1, ip_bits := io_makebits True IOT_PORT 0\<rparr>
           in (Some p, set_port p (ipc_port_init port space (p mod 2 ^ 32)) (st\<lparr>k_next := p + 1\<rparr>)))"

definition ipc_pset_alloc ::
  "space_id \<Rightarrow> kernel \<Rightarrow> (kern_return \<times> mach_port_name \<times> pset_id \<times> kernel) option" where
  "ipc_pset_alloc space st =
     do { (kr, name, object, st) \<leftarrow> ipc_object_alloc space IOT_PORT_SET MACH_PORT_TYPE_PORT_SET 0 st;
          if kr \<noteq> KERN_SUCCESS then Some (kr, 0, 0, st)
          else do {
            q \<leftarrow> obj_pset object;
            pset \<leftarrow> k_psets st q;
            Some (KERN_SUCCESS, name, q,
                  set_pset q (pset\<lparr>ips_local_name := name, ips_messages := ipc_mqueue_init\<rparr>) st) } }"

definition ipc_pset_alloc_name ::
  "space_id \<Rightarrow> mach_port_name \<Rightarrow> kernel \<Rightarrow> (kern_return \<times> pset_id \<times> kernel) option" where
  "ipc_pset_alloc_name space name st =
     do { (kr, object, st) \<leftarrow> ipc_object_alloc_name space IOT_PORT_SET MACH_PORT_TYPE_PORT_SET 0 name st;
          if kr \<noteq> KERN_SUCCESS then Some (kr, 0, st)
          else do {
            q \<leftarrow> obj_pset object;
            pset \<leftarrow> k_psets st q;
            Some (KERN_SUCCESS, q,
                  set_pset q (pset\<lparr>ips_local_name := name, ips_messages := ipc_mqueue_init\<rparr>) st) } }"

section \<open>Copyin and copyout\<close>

definition ipc_object_copyin_type :: "nat \<Rightarrow> nat option" where
  "ipc_object_copyin_type msgt_name =
     (if msgt_name = 0 then Some 0
      else if msgt_name = MACH_MSG_TYPE_MOVE_RECEIVE then Some MACH_MSG_TYPE_PORT_RECEIVE
      else if msgt_name = MACH_MSG_TYPE_MOVE_SEND_ONCE \<or> msgt_name = MACH_MSG_TYPE_MAKE_SEND_ONCE
      then Some MACH_MSG_TYPE_PORT_SEND_ONCE
      else if msgt_name = MACH_MSG_TYPE_MOVE_SEND \<or> msgt_name = MACH_MSG_TYPE_MAKE_SEND \<or>
              msgt_name = MACH_MSG_TYPE_COPY_SEND
      then Some MACH_MSG_TYPE_PORT_SEND
      else None)"

definition ipc_object_copyin ::
  "ipc_env \<Rightarrow> space_id \<Rightarrow> mach_port_name \<Rightarrow> nat \<Rightarrow> kernel \<Rightarrow> (kern_return \<times> ipc_object \<times> kernel) option" where
  "ipc_object_copyin K space name msgt_name st =
     do { (kr, e) \<leftarrow> ipc_right_lookup_write space name st;
          if kr \<noteq> KERN_SUCCESS then Some (kr, IO_NULL, st)
          else do {
            (kr, object, soright, st) \<leftarrow> ipc_right_copyin space name e msgt_name True st;
            entry \<leftarrow> entry_in space e st;
            st \<leftarrow> (if IE_BITS_TYPE (ie_bits entry) = MACH_PORT_TYPE_NONE
                   then dealloc_in space name e st else Some st);
            st \<leftarrow> (if kr = KERN_SUCCESS then notify_port_deleted_if K soright name st else Some st);
            Some (kr, object, st) } }"

text \<open>The assertions on a port of which the kernel holds the receive right.\<close>

definition assert_kernel_receiver :: "port_id \<Rightarrow> kernel \<Rightarrow> ipc_port option" where
  "assert_kernel_receiver p st =
     do { port \<leftarrow> k_ports st p;
          kassert (ip_active port);
          kassert (ip_receiver_name port \<noteq> MACH_PORT_NAME_NULL);
          kassert (ip_data port = D_receiver (Some ipc_space_kernel));
          Some port }"

definition ipc_object_copyin_from_kernel :: "ipc_object \<Rightarrow> nat \<Rightarrow> kernel \<Rightarrow> kernel option" where
  "ipc_object_copyin_from_kernel object msgt_name st =
     do { kassert (IO_VALID object);
          p \<leftarrow> obj_port object;
          if msgt_name = MACH_MSG_TYPE_MOVE_RECEIVE then
            do { port \<leftarrow> assert_kernel_receiver p st;
                 st \<leftarrow> ipc_port_set_mscount p 0 st;
                 port \<leftarrow> k_ports st p;
                 let port = port\<lparr>ip_receiver_name := MACH_PORT_NAME_NULL, ip_data := D_destination None\<rparr>;
                 Some (set_port p (ipc_port_flag_protected_payload_clear port) st) }
          else if msgt_name = MACH_MSG_TYPE_COPY_SEND then
            do { port \<leftarrow> k_ports st p;
                 st \<leftarrow> (if ip_active port then
                          do { kassert (ip_srights port > 0);
                               Some (set_port p (port\<lparr>ip_srights := ip_srights port + 1\<rparr>) st) }
                        else Some st);
                 ip_reference p st }
          else if msgt_name = MACH_MSG_TYPE_MAKE_SEND then
            do { port \<leftarrow> assert_kernel_receiver p st;
                 st \<leftarrow> ip_reference p st;
                 port \<leftarrow> k_ports st p;
                 Some (set_port p (port\<lparr>ip_mscount := ip_mscount port + 1,
                                         ip_srights := ip_srights port + 1\<rparr>) st) }
          else if msgt_name = MACH_MSG_TYPE_MOVE_SEND then Some st
          else if msgt_name = MACH_MSG_TYPE_MAKE_SEND_ONCE then
            do { port \<leftarrow> assert_kernel_receiver p st;
                 st \<leftarrow> ip_reference p st;
                 port \<leftarrow> k_ports st p;
                 Some (set_port p (port\<lparr>ip_sorights := ip_sorights port + 1\<rparr>) st) }
          else if msgt_name = MACH_MSG_TYPE_MOVE_SEND_ONCE then Some st
          else None }"

definition ipc_object_copyout ::
  "space_id \<Rightarrow> ipc_object \<Rightarrow> nat \<Rightarrow> bool \<Rightarrow> kernel \<Rightarrow> (kern_return \<times> mach_port_name \<times> kernel) option" where
  "ipc_object_copyout space object msgt_name overflow st =
     do { kassert (IO_VALID object);
          p \<leftarrow> obj_port object;
          active \<leftarrow> space_active space st;
          if \<not> active then Some (KERN_INVALID_TASK, 0, st)
          else do {
            found \<leftarrow> (if msgt_name \<noteq> MACH_MSG_TYPE_PORT_SEND_ONCE
                      then ipc_right_reverse space object st else Some None);
            case found of
              Some (name, e) \<Rightarrow>
                do { entry \<leftarrow> entry_in space e st;
                     kassert (ie_bits entry AND MACH_PORT_TYPE_SEND_RECEIVE \<noteq> 0);
                     (kr, st) \<leftarrow> ipc_right_copyout space name e msgt_name overflow object st;
                     Some (kr, name, st) }
            | None \<Rightarrow>
                do { (kr, name, e, st) \<leftarrow> entry_alloc_in space st;
                     if kr \<noteq> KERN_SUCCESS then Some (kr, 0, st)
                     else do {
                       entry \<leftarrow> entry_in space e st;
                       kassert (IE_BITS_TYPE (ie_bits entry) = MACH_PORT_TYPE_NONE);
                       kassert (ie_object entry = IO_NULL);
                       port \<leftarrow> k_ports st p;
                       if \<not> ip_active port then
                         do { st \<leftarrow> dealloc_in space name e st; Some (KERN_INVALID_CAPABILITY, 0, st) }
                       else do {
                         st \<leftarrow> set_entry_in space e (\<lambda>en. en\<lparr>ie_object := object\<rparr>) st;
                         (kr, st) \<leftarrow> ipc_right_copyout space name e msgt_name overflow object st;
                         Some (kr, name, st) } } } } }"

definition ipc_object_copyout_name ::
  "space_id \<Rightarrow> ipc_object \<Rightarrow> nat \<Rightarrow> bool \<Rightarrow> mach_port_name \<Rightarrow> kernel \<Rightarrow> (kern_return \<times> kernel) option" where
  "ipc_object_copyout_name space object msgt_name overflow name st =
     do { kassert (IO_VALID object);
          p \<leftarrow> obj_port object;
          (kr, e, st) \<leftarrow> entry_alloc_name_in space name st;
          if kr \<noteq> KERN_SUCCESS then Some (kr, st)
          else do {
            found \<leftarrow> (if msgt_name \<noteq> MACH_MSG_TYPE_PORT_SEND_ONCE
                      then ipc_right_reverse space object st else Some None);
            entry \<leftarrow> entry_in space e st;
            case found of
              Some (oname, oe) \<Rightarrow>
                (if name \<noteq> oname then
                   do { st \<leftarrow> (if IE_BITS_TYPE (ie_bits entry) = MACH_PORT_TYPE_NONE
                               then dealloc_in space name e st else Some st);
                        Some (KERN_RIGHT_EXISTS, st) }
                 else do {
                   kassert (e = oe);
                   kassert (ie_bits entry AND MACH_PORT_TYPE_SEND_RECEIVE \<noteq> 0);
                   ipc_right_copyout space name e msgt_name overflow object st })
            | None \<Rightarrow>
                (if ipc_right_inuse entry then Some (KERN_NAME_EXISTS, st)
                 else do {
                   kassert (IE_BITS_TYPE (ie_bits entry) = MACH_PORT_TYPE_NONE);
                   kassert (ie_object entry = IO_NULL);
                   port \<leftarrow> k_ports st p;
                   if \<not> ip_active port then
                     do { st \<leftarrow> dealloc_in space name e st; Some (KERN_INVALID_CAPABILITY, st) }
                   else do {
                     st \<leftarrow> set_entry_in space e (\<lambda>en. en\<lparr>ie_object := object\<rparr>) st;
                     ipc_right_copyout space name e msgt_name overflow object st } }) } }"

definition ipc_object_copyout_dest ::
  "ipc_env \<Rightarrow> space_id \<Rightarrow> ipc_object \<Rightarrow> nat \<Rightarrow> kernel \<Rightarrow> (mach_port_name \<times> kernel) option" where
  "ipc_object_copyout_dest K space object msgt_name st =
     do { kassert (IO_VALID object);
          p \<leftarrow> obj_port object;
          port \<leftarrow> k_ports st p;
          kassert (ip_active port);
          st \<leftarrow> ip_release p st;
          if msgt_name = MACH_MSG_TYPE_PORT_SEND then
            do { (ns, st) \<leftarrow> drop_sright p st;
                 let name = (if ip_data port = D_receiver (Some space)
                             then ip_receiver_name port else MACH_PORT_NAME_NULL);
                 st \<leftarrow> notify_no_senders_if K ns st;
                 Some (name, st) }
          else if msgt_name = MACH_MSG_TYPE_PORT_SEND_ONCE then
            do { kassert (ip_sorights port > 0);
                 if ip_data port = D_receiver (Some space) then
                   do { port \<leftarrow> k_ports st p;
                        Some (ip_receiver_name port,
                              set_port p (port\<lparr>ip_sorights := ip_sorights port - 1\<rparr>) st) }
                 else do {
                   st \<leftarrow> ip_reference p st;
                   st \<leftarrow> ipc_notify_send_once K (ipc_kmsg_destroy K) p st;
                   Some (MACH_PORT_NAME_NULL, st) } }
          else None }"

definition ipc_object_rename ::
  "space_id \<Rightarrow> mach_port_name \<Rightarrow> mach_port_name \<Rightarrow> kernel \<Rightarrow> (kern_return \<times> kernel) option" where
  "ipc_object_rename space oname nname st =
     do { (kr, ne, st) \<leftarrow> entry_alloc_name_in space nname st;
          if kr \<noteq> KERN_SUCCESS then Some (kr, st)
          else do {
            nentry \<leftarrow> entry_in space ne st;
            if ipc_right_inuse nentry then Some (KERN_NAME_EXISTS, st)
            else do {
              sp \<leftarrow> k_spaces st space;
              oentry \<leftarrow> ipc_entry_lookup sp oname;
              if oname = nname \<or> oentry = None then
                do { st \<leftarrow> dealloc_in space nname ne st; Some (KERN_INVALID_NAME, st) }
              else ipc_right_rename space oname oname nname ne st } } }"

section \<open>Destruction of a space\<close>

text \<open>
  The loop over the entries, by key: the map keeps its keys while rights are cleaned.  An
  entry is freed after it is cleaned; the whole map goes with it afterwards.
\<close>

fun space_clean :: "ipc_env \<Rightarrow> space_id \<Rightarrow> nat list \<Rightarrow> kernel \<Rightarrow> kernel option" where
  "space_clean K space [] st = Some st"
| "space_clean K space (e # es) st =
     do { entry \<leftarrow> entry_in space e st;
          if ie_name entry = MACH_PORT_NAME_NULL then space_clean K space es st
          else do {
            st \<leftarrow> (if IE_BITS_TYPE (ie_bits entry) \<noteq> MACH_PORT_TYPE_NONE
                   then ipc_right_clean K space (ie_name entry) e st else Some st);
            space_clean K space es st } }"

definition ipc_space_destroy :: "ipc_env \<Rightarrow> space_id \<Rightarrow> kernel \<Rightarrow> kernel option" where
  "ipc_space_destroy K space st =
     do { sp \<leftarrow> k_spaces st space;
          if \<not> is_active sp then Some st
          else do {
            let st = set_space space (sp\<lparr>is_active := False\<rparr>) st;
            es \<leftarrow> rdxtree_for_each (is_map sp) rdxtree_iter_init;
            st \<leftarrow> space_clean K space (map fst es) st;
            sp \<leftarrow> k_spaces st space;
            t \<leftarrow> rdxtree_remove_all (is_map sp);
            r \<leftarrow> rdxtree_remove_all (is_reverse_map sp);
            is_release space (set_space space (sp\<lparr>is_map := t, is_reverse_map := r\<rparr>) st) } }"

end
