(* ===== verification/Mach_Port.thy ===== *)
theory Mach_Port
  imports Ipc_Space
begin

text \<open>
  The kernel calls on port names, \<^verbatim>\<open>ipc/mach_port.c\<close>.  A space argument may be null
  (\<open>None\<close>), a right is a number as the caller gives it.  Messages printed for bogus names,
  and the memory in which lists are returned, are not modelled; an allocation of that
  memory may fail.
\<close>

definition mach_port_right_of :: "nat \<Rightarrow> mach_port_right option" where
  "mach_port_right_of n =
     (if n = 0 then Some MACH_PORT_RIGHT_SEND
      else if n = 1 then Some MACH_PORT_RIGHT_RECEIVE
      else if n = 2 then Some MACH_PORT_RIGHT_SEND_ONCE
      else if n = 3 then Some MACH_PORT_RIGHT_PORT_SET
      else if n = 4 then Some MACH_PORT_RIGHT_DEAD_NAME
      else None)"

section \<open>Names\<close>

definition mach_port_names_helper :: "bits32 \<Rightarrow> ipc_entry \<Rightarrow> kernel \<Rightarrow> (mach_port_name \<times> bits32) option" where
  "mach_port_names_helper timestamp entry st =
     do { let bits = ie_bits entry;
          let request = ie_request entry;
          (bits, request) \<leftarrow>
            (if bits AND MACH_PORT_TYPE_SEND_RIGHTS \<noteq> 0 then
               do { p \<leftarrow> obj_port (ie_object entry);
                    port \<leftarrow> k_ports st p;
                    died \<leftarrow> (if ip_active port then Some False
                             else case ip_data port of
                                    D_timestamp ts \<Rightarrow> Some (IP_TIMESTAMP_ORDER ts timestamp)
                                  | _ \<Rightarrow> None);
                    if died then
                      do { let bits = (bits AND NOT (IE_BITS_TYPE_MASK OR IE_BITS_MAREQUEST))
                                      OR MACH_PORT_TYPE_DEAD_NAME;
                           Some (if request \<noteq> 0 then bits + 1 else bits, 0) }
                    else Some (bits, request) }
             else Some (bits, request));
          let type = IE_BITS_TYPE bits;
          let type = (if request \<noteq> 0 then type OR MACH_PORT_TYPE_DNREQUEST else type);
          let type = (if bits AND IE_BITS_MAREQUEST \<noteq> 0 then type OR MACH_PORT_TYPE_MAREQUEST else type);
          Some (ie_name entry, type) }"

fun names_loop :: "bits32 \<Rightarrow> ipc_entry list \<Rightarrow> kernel \<Rightarrow> (mach_port_name \<times> bits32) list option" where
  "names_loop timestamp [] st = Some []"
| "names_loop timestamp (entry # es) st =
     (if IE_BITS_TYPE (ie_bits entry) \<noteq> MACH_PORT_TYPE_NONE then
        do { x \<leftarrow> mach_port_names_helper timestamp entry st;
             xs \<leftarrow> names_loop timestamp es st;
             Some (x # xs) }
      else names_loop timestamp es st)"

definition round_page :: "nat \<Rightarrow> nat" where
  "round_page n = (n + PAGE_SIZE - 1) div PAGE_SIZE * PAGE_SIZE"

definition mach_port_names ::
  "space_id option \<Rightarrow> kernel \<Rightarrow> (kern_return \<times> (mach_port_name \<times> bits32) list \<times> kernel) option" where
  "mach_port_names space st =
     (case space of
        None \<Rightarrow> Some (KERN_INVALID_TASK, [], st)
      | Some space \<Rightarrow>
          do { sp \<leftarrow> k_spaces st space;
               if \<not> is_active sp then Some (KERN_INVALID_TASK, [], st)
               else do {
                 let bound = unat (is_size sp);
                 let (ok1, st1) = (if round_page (bound * 4) = 0 then (True, st) else k_alloc st);
                 if \<not> ok1 then Some (KERN_RESOURCE_SHORTAGE, [], st1)
                 else do {
                   let (ok2, st2) = (if round_page (bound * 4) = 0 then (True, st1) else k_alloc st1);
                   if \<not> ok2 then Some (KERN_RESOURCE_SHORTAGE, [], st2)
                   else do {
                     let (timestamp, st) = ipc_port_timestamp st2;
                     es \<leftarrow> rdxtree_for_each (is_map sp) rdxtree_iter_init;
                     names \<leftarrow> names_loop timestamp (map snd es) st;
                     kassert (length names < bound);
                     Some (KERN_SUCCESS, names, st) } } } })"

definition mach_port_type ::
  "space_id option \<Rightarrow> mach_port_name \<Rightarrow> kernel \<Rightarrow> (kern_return \<times> bits32 \<times> kernel) option" where
  "mach_port_type space name st =
     (case space of
        None \<Rightarrow> Some (KERN_INVALID_TASK, 0, st)
      | Some space \<Rightarrow>
          do { (kr, e) \<leftarrow> ipc_right_lookup_write space name st;
               if kr \<noteq> KERN_SUCCESS then Some (kr, 0, st)
               else do {
                 (kr, type, urefs, st) \<leftarrow> ipc_right_info space name e st;
                 Some (kr, type, st) } })"

definition mach_port_rename ::
  "space_id option \<Rightarrow> mach_port_name \<Rightarrow> mach_port_name \<Rightarrow> kernel \<Rightarrow> (kern_return \<times> kernel) option" where
  "mach_port_rename space oname nname st =
     (case space of
        None \<Rightarrow> Some (KERN_INVALID_TASK, st)
      | Some space \<Rightarrow>
          if \<not> MACH_PORT_NAME_VALID nname then Some (KERN_INVALID_VALUE, st)
          else ipc_object_rename space oname nname st)"

section \<open>Allocation\<close>

definition mach_port_allocate_name ::
  "space_id option \<Rightarrow> nat \<Rightarrow> mach_port_name \<Rightarrow> kernel \<Rightarrow> (kern_return \<times> kernel) option" where
  "mach_port_allocate_name space right name st =
     (case space of
        None \<Rightarrow> Some (KERN_INVALID_TASK, st)
      | Some space \<Rightarrow>
          if \<not> MACH_PORT_NAME_VALID name then Some (KERN_INVALID_VALUE, st)
          else (case mach_port_right_of right of
            Some MACH_PORT_RIGHT_RECEIVE \<Rightarrow>
              do { (kr, p, st) \<leftarrow> ipc_port_alloc_name space name st; Some (kr, st) }
          | Some MACH_PORT_RIGHT_PORT_SET \<Rightarrow>
              do { (kr, q, st) \<leftarrow> ipc_pset_alloc_name space name st; Some (kr, st) }
          | Some MACH_PORT_RIGHT_DEAD_NAME \<Rightarrow> ipc_object_alloc_dead_name space name st
          | _ \<Rightarrow> Some (KERN_INVALID_VALUE, st)))"

definition mach_port_allocate ::
  "space_id option \<Rightarrow> nat \<Rightarrow> kernel \<Rightarrow> (kern_return \<times> mach_port_name \<times> kernel) option" where
  "mach_port_allocate space right st =
     (case space of
        None \<Rightarrow> Some (KERN_INVALID_TASK, 0, st)
      | Some space \<Rightarrow>
          (case mach_port_right_of right of
            Some MACH_PORT_RIGHT_RECEIVE \<Rightarrow>
              do { (kr, name, p, st) \<leftarrow> ipc_port_alloc space st; Some (kr, name, st) }
          | Some MACH_PORT_RIGHT_PORT_SET \<Rightarrow>
              do { (kr, name, q, st) \<leftarrow> ipc_pset_alloc space st; Some (kr, name, st) }
          | Some MACH_PORT_RIGHT_DEAD_NAME \<Rightarrow> ipc_object_alloc_dead space st
          | _ \<Rightarrow> Some (KERN_INVALID_VALUE, 0, st)))"

section \<open>References\<close>

definition mach_port_destroy ::
  "ipc_env \<Rightarrow> space_id option \<Rightarrow> mach_port_name \<Rightarrow> kernel \<Rightarrow> (kern_return \<times> kernel) option" where
  "mach_port_destroy K space name st =
     (case space of
        None \<Rightarrow> Some (KERN_INVALID_TASK, st)
      | Some space \<Rightarrow>
          do { (kr, e) \<leftarrow> ipc_right_lookup_write space name st;
               if kr \<noteq> KERN_SUCCESS then Some (kr, st) else ipc_right_destroy K space name e st })"

definition mach_port_deallocate ::
  "ipc_env \<Rightarrow> space_id option \<Rightarrow> mach_port_name \<Rightarrow> kernel \<Rightarrow> (kern_return \<times> kernel) option" where
  "mach_port_deallocate K space name st =
     (case space of
        None \<Rightarrow> Some (KERN_INVALID_TASK, st)
      | Some space \<Rightarrow>
          do { (kr, e) \<leftarrow> ipc_right_lookup_write space name st;
               if kr \<noteq> KERN_SUCCESS then Some (kr, st) else ipc_right_dealloc K space name e st })"

definition mach_port_get_refs ::
  "space_id option \<Rightarrow> mach_port_name \<Rightarrow> nat \<Rightarrow> kernel \<Rightarrow> (kern_return \<times> bits32 \<times> kernel) option" where
  "mach_port_get_refs space name right st =
     (case space of
        None \<Rightarrow> Some (KERN_INVALID_TASK, 0, st)
      | Some space \<Rightarrow>
          (case mach_port_right_of right of
            None \<Rightarrow> Some (KERN_INVALID_VALUE, 0, st)
          | Some r \<Rightarrow>
              do { (kr, e) \<leftarrow> ipc_right_lookup_write space name st;
                   if kr \<noteq> KERN_SUCCESS then Some (kr, 0, st)
                   else do {
                     (kr, type, urefs, st) \<leftarrow> ipc_right_info space name e st;
                     if type AND MACH_PORT_TYPE right = 0 then Some (kr, 0, st)
                     else if r = MACH_PORT_RIGHT_SEND_ONCE then
                       do { kassert (urefs = 1); Some (kr, 1, st) }
                     else if r = MACH_PORT_RIGHT_PORT_SET \<or> r = MACH_PORT_RIGHT_RECEIVE then Some (kr, 1, st)
                     else do { kassert (urefs > 0); Some (kr, urefs, st) } } }))"

definition mach_port_mod_refs ::
  "ipc_env \<Rightarrow> space_id option \<Rightarrow> mach_port_name \<Rightarrow> nat \<Rightarrow> bits32 \<Rightarrow> kernel \<Rightarrow>
   (kern_return \<times> kernel) option" where
  "mach_port_mod_refs K space name right delta st =
     (case space of
        None \<Rightarrow> Some (KERN_INVALID_TASK, st)
      | Some space \<Rightarrow>
          (case mach_port_right_of right of
            None \<Rightarrow> Some (KERN_INVALID_VALUE, st)
          | Some r \<Rightarrow>
              do { (kr, e) \<leftarrow> ipc_right_lookup_write space name st;
                   if kr \<noteq> KERN_SUCCESS then Some (kr, st)
                   else ipc_right_delta K space name e r delta st }))"

section \<open>Attributes of a receive right\<close>

definition ipc_port_translate_receive ::
  "space_id \<Rightarrow> mach_port_name \<Rightarrow> kernel \<Rightarrow> (kern_return \<times> ipc_object) option" where
  "ipc_port_translate_receive space name st =
     ipc_object_translate space name MACH_PORT_RIGHT_RECEIVE st"

definition with_receive ::
  "space_id option \<Rightarrow> mach_port_name \<Rightarrow> (port_id \<Rightarrow> kernel \<Rightarrow> kernel option) \<Rightarrow> kernel \<Rightarrow>
   (kern_return \<times> kernel) option" where
  "with_receive space name f st =
     (case space of
        None \<Rightarrow> Some (KERN_INVALID_TASK, st)
      | Some space \<Rightarrow>
          do { (kr, object) \<leftarrow> ipc_port_translate_receive space name st;
               if kr \<noteq> KERN_SUCCESS then Some (kr, st)
               else do {
                 p \<leftarrow> obj_port object;
                 st \<leftarrow> f p st;
                 Some (KERN_SUCCESS, st) } })"

definition mach_port_set_qlimit ::
  "space_id option \<Rightarrow> mach_port_name \<Rightarrow> bits32 \<Rightarrow> kernel \<Rightarrow> (kern_return \<times> kernel) option" where
  "mach_port_set_qlimit space name qlimit st =
     (if space = None then Some (KERN_INVALID_TASK, st)
      else if qlimit > MACH_PORT_QLIMIT_MAX then Some (KERN_INVALID_VALUE, st)
      else with_receive space name (\<lambda>p. ipc_port_set_qlimit p qlimit) st)"

definition mach_port_set_mscount ::
  "space_id option \<Rightarrow> mach_port_name \<Rightarrow> bits32 \<Rightarrow> kernel \<Rightarrow> (kern_return \<times> kernel) option" where
  "mach_port_set_mscount space name mscount st =
     with_receive space name (\<lambda>p. ipc_port_set_mscount p mscount) st"

definition mach_port_set_seqno ::
  "space_id option \<Rightarrow> mach_port_name \<Rightarrow> bits32 \<Rightarrow> kernel \<Rightarrow> (kern_return \<times> kernel) option" where
  "mach_port_set_seqno space name seqno st =
     with_receive space name (\<lambda>p. ipc_port_set_seqno p seqno) st"

definition mach_port_set_protected_payload ::
  "space_id option \<Rightarrow> mach_port_name \<Rightarrow> 64 word \<Rightarrow> kernel \<Rightarrow> (kern_return \<times> kernel) option" where
  "mach_port_set_protected_payload space name payload st =
     with_receive space name (\<lambda>p. ipc_port_set_protected_payload p payload) st"

definition mach_port_clear_protected_payload ::
  "space_id option \<Rightarrow> mach_port_name \<Rightarrow> kernel \<Rightarrow> (kern_return \<times> kernel) option" where
  "mach_port_clear_protected_payload space name st =
     with_receive space name ipc_port_clear_protected_payload st"

section \<open>Port sets\<close>

definition mach_port_gst_helper ::
  "pset_id \<Rightarrow> port_id \<Rightarrow> kernel \<Rightarrow> mach_port_name list option" where
  "mach_port_gst_helper q p st =
     do { port \<leftarrow> k_ports st p;
          kassert (ip_active port);
          kassert (ip_receiver_name port \<noteq> MACH_PORT_NAME_NULL);
          Some (if ip_pset port = Some q then [ip_receiver_name port] else []) }"

fun gst_loop :: "pset_id \<Rightarrow> ipc_entry list \<Rightarrow> kernel \<Rightarrow> mach_port_name list option" where
  "gst_loop q [] st = Some []"
| "gst_loop q (entry # es) st =
     (if ie_bits entry AND MACH_PORT_TYPE_RECEIVE \<noteq> 0 then
        do { p \<leftarrow> obj_port (ie_object entry);
             xs \<leftarrow> mach_port_gst_helper q p st;
             rest \<leftarrow> gst_loop q es st;
             Some (xs @ rest) }
      else gst_loop q es st)"

text \<open>
  The members are collected in a buffer of one page, and a second time in a buffer that
  is large enough if there are more; each buffer may fail to be allocated.
\<close>

definition mach_port_get_set_status ::
  "space_id option \<Rightarrow> mach_port_name \<Rightarrow> kernel \<Rightarrow> (kern_return \<times> mach_port_name list \<times> kernel) option" where
  "mach_port_get_set_status space name st =
     (case space of
        None \<Rightarrow> Some (KERN_INVALID_TASK, [], st)
      | Some space \<Rightarrow>
          (let (ok, st) = k_alloc st in
           if \<not> ok then Some (KERN_RESOURCE_SHORTAGE, [], st)
           else do {
             (kr, e) \<leftarrow> ipc_right_lookup_write space name st;
             if kr \<noteq> KERN_SUCCESS then Some (kr, [], st)
             else do {
               sp \<leftarrow> k_spaces st space;
               entry \<leftarrow> is_entries sp e;
               if IE_BITS_TYPE (ie_bits entry) \<noteq> MACH_PORT_TYPE_PORT_SET then Some (KERN_INVALID_RIGHT, [], st)
               else do {
                 q \<leftarrow> obj_pset (ie_object entry);
                 es \<leftarrow> rdxtree_for_each (is_map sp) rdxtree_iter_init;
                 names \<leftarrow> gst_loop q (map snd es) st;
                 if length names \<le> PAGE_SIZE div 4 then Some (KERN_SUCCESS, names, st)
                 else do {
                   let (ok, st) = k_alloc st;
                   if \<not> ok then Some (KERN_RESOURCE_SHORTAGE, [], st)
                   else Some (KERN_SUCCESS, names, st) } } } }))"

definition mach_port_move_member ::
  "space_id option \<Rightarrow> mach_port_name \<Rightarrow> mach_port_name \<Rightarrow> kernel \<Rightarrow> (kern_return \<times> kernel) option" where
  "mach_port_move_member space member after st =
     (case space of
        None \<Rightarrow> Some (KERN_INVALID_TASK, st)
      | Some space \<Rightarrow>
          do { (kr, e) \<leftarrow> ipc_right_lookup_write space member st;
               if kr \<noteq> KERN_SUCCESS then Some (kr, st)
               else do {
                 sp \<leftarrow> k_spaces st space;
                 entry \<leftarrow> is_entries sp e;
                 if ie_bits entry AND MACH_PORT_TYPE_RECEIVE = 0 then Some (KERN_INVALID_RIGHT, st)
                 else do {
                   p \<leftarrow> obj_port (ie_object entry);
                   if after = MACH_PORT_NAME_NULL then ipc_pset_move p None st
                   else do {
                     found \<leftarrow> ipc_entry_lookup sp after;
                     case found of
                       None \<Rightarrow> Some (KERN_INVALID_NAME, st)
                     | Some entry \<Rightarrow>
                         (if ie_bits entry AND MACH_PORT_TYPE_PORT_SET = 0 then Some (KERN_INVALID_RIGHT, st)
                          else do {
                            q \<leftarrow> obj_pset (ie_object entry);
                            ipc_pset_move p (Some q) st }) } } } })"

section \<open>Notification requests and transfers\<close>

text \<open>The port to notify: none, dead, or a send-once right.\<close>

definition mach_port_request_notification ::
  "ipc_env \<Rightarrow> space_id option \<Rightarrow> mach_port_name \<Rightarrow> nat \<Rightarrow> bits32 \<Rightarrow> ipc_object \<Rightarrow> kernel \<Rightarrow>
   (kern_return \<times> port_id option \<times> kernel) option" where
  "mach_port_request_notification K space name mid sync notify st =
     (case space of
        None \<Rightarrow> Some (KERN_INVALID_TASK, None, st)
      | Some space \<Rightarrow>
          if notify = IO_DEAD then Some (KERN_INVALID_CAPABILITY, None, st)
          else if mid = MACH_NOTIFY_PORT_DESTROYED then
            (if sync \<noteq> 0 then Some (KERN_INVALID_VALUE, None, st)
             else do {
               (kr, object) \<leftarrow> ipc_port_translate_receive space name st;
               if kr \<noteq> KERN_SUCCESS then Some (kr, None, st)
               else do {
                 p \<leftarrow> obj_port object;
                 (previous, st) \<leftarrow> ipc_port_pdrequest p (obj_port notify) st;
                 Some (KERN_SUCCESS, previous, st) } })
          else if mid = MACH_NOTIFY_NO_SENDERS then
            do { (kr, object) \<leftarrow> ipc_port_translate_receive space name st;
                 if kr \<noteq> KERN_SUCCESS then Some (kr, None, st)
                 else do {
                   p \<leftarrow> obj_port object;
                   (previous, st) \<leftarrow> ipc_port_nsrequest K (ipc_kmsg_destroy K) p sync (obj_port notify) st;
                   Some (KERN_SUCCESS, previous, st) } }
          else if mid = MACH_NOTIFY_DEAD_NAME then
            ipc_right_dnrequest K space name (sync \<noteq> 0) (obj_port notify) st
          else Some (KERN_INVALID_VALUE, None, st))"

definition MACH_MSG_TYPE_PORT_ANY_RIGHT :: "nat \<Rightarrow> bool" where
  "MACH_MSG_TYPE_PORT_ANY_RIGHT x =
     (MACH_MSG_TYPE_MOVE_RECEIVE \<le> x \<and> x \<le> MACH_MSG_TYPE_MOVE_SEND_ONCE)"

definition MACH_MSG_TYPE_PORT_ANY :: "nat \<Rightarrow> bool" where
  "MACH_MSG_TYPE_PORT_ANY x =
     (MACH_MSG_TYPE_MOVE_RECEIVE \<le> x \<and> x \<le> MACH_MSG_TYPE_MAKE_SEND_ONCE)"

definition mach_port_insert_right ::
  "space_id option \<Rightarrow> mach_port_name \<Rightarrow> ipc_object \<Rightarrow> nat \<Rightarrow> kernel \<Rightarrow> (kern_return \<times> kernel) option" where
  "mach_port_insert_right space name poly polyPoly st =
     (case space of
        None \<Rightarrow> Some (KERN_INVALID_TASK, st)
      | Some space \<Rightarrow>
          if \<not> MACH_PORT_NAME_VALID name \<or> \<not> MACH_MSG_TYPE_PORT_ANY_RIGHT polyPoly then
            Some (KERN_INVALID_VALUE, st)
          else if \<not> IO_VALID poly then Some (KERN_INVALID_CAPABILITY, st)
          else ipc_object_copyout_name space poly polyPoly False name st)"

definition mach_port_extract_right ::
  "ipc_env \<Rightarrow> space_id option \<Rightarrow> mach_port_name \<Rightarrow> nat \<Rightarrow> kernel \<Rightarrow>
   (kern_return \<times> ipc_object \<times> nat \<times> kernel) option" where
  "mach_port_extract_right K space name msgt_name st =
     (case space of
        None \<Rightarrow> Some (KERN_INVALID_TASK, IO_NULL, 0, st)
      | Some space \<Rightarrow>
          if \<not> MACH_MSG_TYPE_PORT_ANY msgt_name then Some (KERN_INVALID_VALUE, IO_NULL, 0, st)
          else do {
            (kr, object, st) \<leftarrow> ipc_object_copyin K space name msgt_name st;
            if kr = KERN_SUCCESS then
              do { t \<leftarrow> ipc_object_copyin_type msgt_name; Some (kr, object, t, st) }
            else Some (kr, IO_NULL, 0, st) })"

record mach_port_status =
  mps_pset :: mach_port_name
  mps_seqno :: bits32
  mps_mscount :: bits32
  mps_qlimit :: bits32
  mps_msgcount :: bits32
  mps_sorights :: bits32
  mps_srights :: bool
  mps_pdrequest :: bool
  mps_nsrequest :: bool

definition mach_port_get_receive_status ::
  "space_id option \<Rightarrow> mach_port_name \<Rightarrow> kernel \<Rightarrow>
   (kern_return \<times> mach_port_status option \<times> kernel) option" where
  "mach_port_get_receive_status space name st =
     (case space of
        None \<Rightarrow> Some (KERN_INVALID_TASK, None, st)
      | Some space \<Rightarrow>
          do { (kr, object) \<leftarrow> ipc_port_translate_receive space name st;
               if kr \<noteq> KERN_SUCCESS then Some (kr, None, st)
               else do {
                 p \<leftarrow> obj_port object;
                 port \<leftarrow> k_ports st p;
                 (pname, st) \<leftarrow>
                   (case ip_pset port of
                      None \<Rightarrow> Some (MACH_PORT_NAME_NULL, st)
                    | Some q \<Rightarrow>
                        do { pset \<leftarrow> k_psets st q;
                             if \<not> ips_active pset then
                               do { st \<leftarrow> ipc_pset_remove q p st;
                                    st \<leftarrow> ips_check_unlock q st;
                                    Some (MACH_PORT_NAME_NULL, st) }
                             else do {
                               kassert (MACH_PORT_NAME_VALID (ips_local_name pset));
                               Some (ips_local_name pset, st) } });
                 port \<leftarrow> k_ports st p;
                 Some (KERN_SUCCESS, Some
                   \<lparr>mps_pset = pname, mps_seqno = ip_seqno port, mps_mscount = ip_mscount port,
                    mps_qlimit = ip_qlimit port, mps_msgcount = ip_msgcount port,
                    mps_sorights = ip_sorights port, mps_srights = (ip_srights port > 0),
                    mps_pdrequest = (ip_pdrequest port \<noteq> None),
                    mps_nsrequest = (ip_nsrequest port \<noteq> None)\<rparr>, st) } })"

end
