(* ===== verification/Ipc_Right_Inv.thy ===== *)
theory Ipc_Right_Inv
  imports Ipc_Right_Copy
begin

text \<open>
  What the rights layer \<^verbatim>\<open>ipc/ipc_right.c\<close> relies on: the fields of \<^verbatim>\<open>ie_bits\<close>, a space as a map
  from names to entries together with its reverse map, the holders of a port's rights, and the
  invariant \<open>right_ok\<close> of a right.  The last section shows that \<^verbatim>\<open>ipc_right_check\<close> turns
  a right whose port has died into a dead name.
\<close>

section \<open>The bits of an entry\<close>

text \<open>
  The word \<^verbatim>\<open>ie_bits\<close> has the user references in its low half and the types in the high
  half.  Each test of a type only reads the high half, so a change of the user references
  that stays within their field keeps the types, and the other way round.
\<close>

lemmas type_defs = MACH_PORT_TYPE_NONE_def MACH_PORT_TYPE_SEND_def MACH_PORT_TYPE_RECEIVE_def
  MACH_PORT_TYPE_SEND_ONCE_def MACH_PORT_TYPE_PORT_SET_def MACH_PORT_TYPE_DEAD_NAME_def
  MACH_PORT_TYPE_SEND_RECEIVE_def MACH_PORT_TYPE_SEND_RIGHTS_def MACH_PORT_TYPE_PORT_RIGHTS_def
  MACH_PORT_TYPE_PORT_OR_DEAD_def MACH_PORT_TYPE_ALL_RIGHTS_def MACH_PORT_TYPE_def

lemma type_values:
  "MACH_PORT_TYPE_NONE = 0" "MACH_PORT_TYPE_SEND = 0x10000" "MACH_PORT_TYPE_RECEIVE = 0x20000"
  "MACH_PORT_TYPE_SEND_ONCE = 0x40000" "MACH_PORT_TYPE_PORT_SET = 0x80000"
  "MACH_PORT_TYPE_DEAD_NAME = 0x100000" "MACH_PORT_TYPE_SEND_RECEIVE = 0x30000"
  "MACH_PORT_TYPE_SEND_RIGHTS = 0x50000" "MACH_PORT_TYPE_PORT_RIGHTS = 0x70000"
  "MACH_PORT_TYPE_PORT_OR_DEAD = 0x170000"
  by (simp_all add: type_defs)

lemmas bits_values = type_values IE_BITS_TYPE_MASK_def IE_BITS_UREFS_MASK_def IE_BITS_MAREQUEST_def
  IE_BITS_RIGHT_MASK_def MACH_PORT_UREFS_MAX_def

text \<open>A test of a type reads the type field.\<close>

lemma and_type:
  assumes "m AND IE_BITS_TYPE_MASK = m"
  shows "bits AND m = IE_BITS_TYPE bits AND m"
  using assms unfolding IE_BITS_TYPE_def by (metis and.assoc and.commute)

lemma and_types:
  "bits AND MACH_PORT_TYPE_SEND = IE_BITS_TYPE bits AND MACH_PORT_TYPE_SEND"
  "bits AND MACH_PORT_TYPE_RECEIVE = IE_BITS_TYPE bits AND MACH_PORT_TYPE_RECEIVE"
  "bits AND MACH_PORT_TYPE_SEND_ONCE = IE_BITS_TYPE bits AND MACH_PORT_TYPE_SEND_ONCE"
  "bits AND MACH_PORT_TYPE_PORT_SET = IE_BITS_TYPE bits AND MACH_PORT_TYPE_PORT_SET"
  "bits AND MACH_PORT_TYPE_DEAD_NAME = IE_BITS_TYPE bits AND MACH_PORT_TYPE_DEAD_NAME"
  "bits AND MACH_PORT_TYPE_SEND_RECEIVE = IE_BITS_TYPE bits AND MACH_PORT_TYPE_SEND_RECEIVE"
  "bits AND MACH_PORT_TYPE_SEND_RIGHTS = IE_BITS_TYPE bits AND MACH_PORT_TYPE_SEND_RIGHTS"
  "bits AND MACH_PORT_TYPE_PORT_RIGHTS = IE_BITS_TYPE bits AND MACH_PORT_TYPE_PORT_RIGHTS"
  by (rule and_type, simp add: bits_values)+

text \<open>The tests of the code for each type.\<close>

lemma none_tests:
  assumes "IE_BITS_TYPE bits = MACH_PORT_TYPE_NONE"
  shows "bits AND MACH_PORT_TYPE_SEND = 0" "bits AND MACH_PORT_TYPE_RECEIVE = 0"
    "bits AND MACH_PORT_TYPE_SEND_ONCE = 0" "bits AND MACH_PORT_TYPE_PORT_SET = 0"
    "bits AND MACH_PORT_TYPE_DEAD_NAME = 0" "bits AND MACH_PORT_TYPE_SEND_RECEIVE = 0"
    "bits AND MACH_PORT_TYPE_SEND_RIGHTS = 0" "bits AND MACH_PORT_TYPE_PORT_RIGHTS = 0"
  unfolding and_types [of bits] assms by (simp_all add: type_values)

lemma send_tests:
  assumes "IE_BITS_TYPE bits = MACH_PORT_TYPE_SEND"
  shows "bits AND MACH_PORT_TYPE_SEND \<noteq> 0" "bits AND MACH_PORT_TYPE_RECEIVE = 0"
    "bits AND MACH_PORT_TYPE_SEND_ONCE = 0" "bits AND MACH_PORT_TYPE_PORT_SET = 0"
    "bits AND MACH_PORT_TYPE_DEAD_NAME = 0" "bits AND MACH_PORT_TYPE_SEND_RECEIVE \<noteq> 0"
    "bits AND MACH_PORT_TYPE_SEND_RIGHTS \<noteq> 0" "bits AND MACH_PORT_TYPE_PORT_RIGHTS \<noteq> 0"
  unfolding and_types [of bits] assms by (simp_all add: type_values)

lemma receive_tests:
  assumes "IE_BITS_TYPE bits = MACH_PORT_TYPE_RECEIVE"
  shows "bits AND MACH_PORT_TYPE_SEND = 0" "bits AND MACH_PORT_TYPE_RECEIVE \<noteq> 0"
    "bits AND MACH_PORT_TYPE_SEND_ONCE = 0" "bits AND MACH_PORT_TYPE_PORT_SET = 0"
    "bits AND MACH_PORT_TYPE_DEAD_NAME = 0" "bits AND MACH_PORT_TYPE_SEND_RECEIVE \<noteq> 0"
    "bits AND MACH_PORT_TYPE_SEND_RIGHTS = 0" "bits AND MACH_PORT_TYPE_PORT_RIGHTS \<noteq> 0"
  unfolding and_types [of bits] assms by (simp_all add: type_values)

lemma send_receive_tests:
  assumes "IE_BITS_TYPE bits = MACH_PORT_TYPE_SEND_RECEIVE"
  shows "bits AND MACH_PORT_TYPE_SEND \<noteq> 0" "bits AND MACH_PORT_TYPE_RECEIVE \<noteq> 0"
    "bits AND MACH_PORT_TYPE_SEND_ONCE = 0" "bits AND MACH_PORT_TYPE_PORT_SET = 0"
    "bits AND MACH_PORT_TYPE_DEAD_NAME = 0" "bits AND MACH_PORT_TYPE_SEND_RECEIVE \<noteq> 0"
    "bits AND MACH_PORT_TYPE_SEND_RIGHTS \<noteq> 0" "bits AND MACH_PORT_TYPE_PORT_RIGHTS \<noteq> 0"
  unfolding and_types [of bits] assms by (simp_all add: type_values)

lemma send_once_tests:
  assumes "IE_BITS_TYPE bits = MACH_PORT_TYPE_SEND_ONCE"
  shows "bits AND MACH_PORT_TYPE_SEND = 0" "bits AND MACH_PORT_TYPE_RECEIVE = 0"
    "bits AND MACH_PORT_TYPE_SEND_ONCE \<noteq> 0" "bits AND MACH_PORT_TYPE_PORT_SET = 0"
    "bits AND MACH_PORT_TYPE_DEAD_NAME = 0" "bits AND MACH_PORT_TYPE_SEND_RECEIVE = 0"
    "bits AND MACH_PORT_TYPE_SEND_RIGHTS \<noteq> 0" "bits AND MACH_PORT_TYPE_PORT_RIGHTS \<noteq> 0"
  unfolding and_types [of bits] assms by (simp_all add: type_values)

lemma port_set_tests:
  assumes "IE_BITS_TYPE bits = MACH_PORT_TYPE_PORT_SET"
  shows "bits AND MACH_PORT_TYPE_SEND = 0" "bits AND MACH_PORT_TYPE_RECEIVE = 0"
    "bits AND MACH_PORT_TYPE_SEND_ONCE = 0" "bits AND MACH_PORT_TYPE_PORT_SET \<noteq> 0"
    "bits AND MACH_PORT_TYPE_DEAD_NAME = 0" "bits AND MACH_PORT_TYPE_SEND_RECEIVE = 0"
    "bits AND MACH_PORT_TYPE_SEND_RIGHTS = 0" "bits AND MACH_PORT_TYPE_PORT_RIGHTS = 0"
  unfolding and_types [of bits] assms by (simp_all add: type_values)

lemma dead_name_tests:
  assumes "IE_BITS_TYPE bits = MACH_PORT_TYPE_DEAD_NAME"
  shows "bits AND MACH_PORT_TYPE_SEND = 0" "bits AND MACH_PORT_TYPE_RECEIVE = 0"
    "bits AND MACH_PORT_TYPE_SEND_ONCE = 0" "bits AND MACH_PORT_TYPE_PORT_SET = 0"
    "bits AND MACH_PORT_TYPE_DEAD_NAME \<noteq> 0" "bits AND MACH_PORT_TYPE_SEND_RECEIVE = 0"
    "bits AND MACH_PORT_TYPE_SEND_RIGHTS = 0" "bits AND MACH_PORT_TYPE_PORT_RIGHTS = 0"
  unfolding and_types [of bits] assms by (simp_all add: type_values)

lemma type_distinct [simp]:
  "MACH_PORT_TYPE_NONE \<noteq> MACH_PORT_TYPE_SEND" "MACH_PORT_TYPE_NONE \<noteq> MACH_PORT_TYPE_RECEIVE"
  "MACH_PORT_TYPE_NONE \<noteq> MACH_PORT_TYPE_SEND_RECEIVE" "MACH_PORT_TYPE_NONE \<noteq> MACH_PORT_TYPE_SEND_ONCE"
  "MACH_PORT_TYPE_NONE \<noteq> MACH_PORT_TYPE_PORT_SET" "MACH_PORT_TYPE_NONE \<noteq> MACH_PORT_TYPE_DEAD_NAME"
  "MACH_PORT_TYPE_SEND \<noteq> MACH_PORT_TYPE_NONE" "MACH_PORT_TYPE_SEND \<noteq> MACH_PORT_TYPE_RECEIVE"
  "MACH_PORT_TYPE_SEND \<noteq> MACH_PORT_TYPE_SEND_RECEIVE" "MACH_PORT_TYPE_SEND \<noteq> MACH_PORT_TYPE_SEND_ONCE"
  "MACH_PORT_TYPE_SEND \<noteq> MACH_PORT_TYPE_PORT_SET" "MACH_PORT_TYPE_SEND \<noteq> MACH_PORT_TYPE_DEAD_NAME"
  "MACH_PORT_TYPE_RECEIVE \<noteq> MACH_PORT_TYPE_NONE" "MACH_PORT_TYPE_RECEIVE \<noteq> MACH_PORT_TYPE_SEND"
  "MACH_PORT_TYPE_RECEIVE \<noteq> MACH_PORT_TYPE_SEND_RECEIVE" "MACH_PORT_TYPE_RECEIVE \<noteq> MACH_PORT_TYPE_SEND_ONCE"
  "MACH_PORT_TYPE_RECEIVE \<noteq> MACH_PORT_TYPE_PORT_SET" "MACH_PORT_TYPE_RECEIVE \<noteq> MACH_PORT_TYPE_DEAD_NAME"
  "MACH_PORT_TYPE_SEND_RECEIVE \<noteq> MACH_PORT_TYPE_NONE" "MACH_PORT_TYPE_SEND_RECEIVE \<noteq> MACH_PORT_TYPE_SEND"
  "MACH_PORT_TYPE_SEND_RECEIVE \<noteq> MACH_PORT_TYPE_RECEIVE" "MACH_PORT_TYPE_SEND_RECEIVE \<noteq> MACH_PORT_TYPE_SEND_ONCE"
  "MACH_PORT_TYPE_SEND_RECEIVE \<noteq> MACH_PORT_TYPE_PORT_SET" "MACH_PORT_TYPE_SEND_RECEIVE \<noteq> MACH_PORT_TYPE_DEAD_NAME"
  "MACH_PORT_TYPE_SEND_ONCE \<noteq> MACH_PORT_TYPE_NONE" "MACH_PORT_TYPE_SEND_ONCE \<noteq> MACH_PORT_TYPE_SEND"
  "MACH_PORT_TYPE_SEND_ONCE \<noteq> MACH_PORT_TYPE_RECEIVE" "MACH_PORT_TYPE_SEND_ONCE \<noteq> MACH_PORT_TYPE_SEND_RECEIVE"
  "MACH_PORT_TYPE_SEND_ONCE \<noteq> MACH_PORT_TYPE_PORT_SET" "MACH_PORT_TYPE_SEND_ONCE \<noteq> MACH_PORT_TYPE_DEAD_NAME"
  "MACH_PORT_TYPE_PORT_SET \<noteq> MACH_PORT_TYPE_NONE" "MACH_PORT_TYPE_PORT_SET \<noteq> MACH_PORT_TYPE_SEND"
  "MACH_PORT_TYPE_PORT_SET \<noteq> MACH_PORT_TYPE_RECEIVE" "MACH_PORT_TYPE_PORT_SET \<noteq> MACH_PORT_TYPE_SEND_RECEIVE"
  "MACH_PORT_TYPE_PORT_SET \<noteq> MACH_PORT_TYPE_SEND_ONCE" "MACH_PORT_TYPE_PORT_SET \<noteq> MACH_PORT_TYPE_DEAD_NAME"
  "MACH_PORT_TYPE_DEAD_NAME \<noteq> MACH_PORT_TYPE_NONE" "MACH_PORT_TYPE_DEAD_NAME \<noteq> MACH_PORT_TYPE_SEND"
  "MACH_PORT_TYPE_DEAD_NAME \<noteq> MACH_PORT_TYPE_RECEIVE" "MACH_PORT_TYPE_DEAD_NAME \<noteq> MACH_PORT_TYPE_SEND_RECEIVE"
  "MACH_PORT_TYPE_DEAD_NAME \<noteq> MACH_PORT_TYPE_SEND_ONCE" "MACH_PORT_TYPE_DEAD_NAME \<noteq> MACH_PORT_TYPE_PORT_SET"
  by (simp_all add: type_values)

lemma type_nonzero [simp]:
  "MACH_PORT_TYPE_SEND \<noteq> 0" "MACH_PORT_TYPE_RECEIVE \<noteq> 0" "MACH_PORT_TYPE_SEND_RECEIVE \<noteq> 0"
  "MACH_PORT_TYPE_SEND_ONCE \<noteq> 0" "MACH_PORT_TYPE_PORT_SET \<noteq> 0" "MACH_PORT_TYPE_DEAD_NAME \<noteq> 0"
  by (simp_all add: type_values)

text \<open>The fields of a word whose user references change.\<close>

lemma urefs_mask: "IE_BITS_UREFS_MASK = mask 16"
  by (simp add: IE_BITS_UREFS_MASK_def mask_eq_exp_minus_1)

lemma urefs_take: "IE_BITS_UREFS bits = take_bit 16 bits"
  unfolding IE_BITS_UREFS_def urefs_mask by (rule take_bit_eq_mask [symmetric])

lemma high_fields:
  assumes "m AND IE_BITS_UREFS_MASK = 0" "bits AND NOT IE_BITS_UREFS_MASK = bits' AND NOT IE_BITS_UREFS_MASK"
  shows "bits AND m = bits' AND m"
proof (rule bit_word_eqI)
  fix n assume "n < LENGTH(32)"
  moreover have "\<not> (bit m n \<and> bit IE_BITS_UREFS_MASK n)"
    using arg_cong [OF assms(1), of "\<lambda>x. bit x n"] by (simp add: bit_and_iff)
  ultimately show "bit (bits AND m) n = bit (bits' AND m) n"
    using arg_cong [OF assms(2), of "\<lambda>x. bit x n"] by (auto simp: bit_and_iff bit_not_iff)
qed

lemma high_part: "bits AND NOT IE_BITS_UREFS_MASK = bits - take_bit 16 bits"
proof -
  have "(bits AND NOT (mask 16)) AND (bits AND mask 16) = 0"
    by (rule bit_word_eqI) (auto simp: bit_and_iff bit_not_iff)
  then have "(bits AND NOT (mask 16)) + (bits AND mask 16) = (bits AND NOT (mask 16)) OR (bits AND mask 16)"
    by (rule disjunctive_add_eq_or)
  also have "\<dots> = bits" by (rule bit_word_eqI) (auto simp: bit_and_iff bit_or_iff bit_not_iff)
  finally show ?thesis unfolding urefs_mask take_bit_eq_mask by (simp add: eq_diff_eq)
qed

lemma urefs_add:
  assumes "IE_BITS_UREFS bits + d \<le> IE_BITS_UREFS_MASK"
  shows "IE_BITS_UREFS (bits + d) = IE_BITS_UREFS bits + d"
    and "(bits + d) AND NOT IE_BITS_UREFS_MASK = bits AND NOT IE_BITS_UREFS_MASK"
proof -
  define v where "v = take_bit 16 bits + d"
  define h where "h = bits - take_bit 16 bits"
  have "unat v \<le> 0xffff"
    using assms unfolding urefs_take v_def [symmetric] by (simp add: IE_BITS_UREFS_MASK_def word_le_nat_alt)
  then have v: "take_bit 16 v = v"
    by (intro unsigned_word_eqI [where ?'a = nat]) (simp add: unsigned_take_bit_eq take_bit_nat_eq_self)
  have h: "take_bit 16 h = 0"
    unfolding h_def high_part [symmetric] urefs_mask
    by (rule bit_word_eqI) (auto simp: bit_take_bit_iff bit_and_iff bit_not_iff bit_mask_iff)
  have bd: "bits + d = h + v" by (simp add: h_def v_def)
  have "h AND v = 0"
  proof (rule bit_word_eqI)
    fix n
    show "bit (h AND v) n = bit 0 n"
      using arg_cong [OF v, of "\<lambda>x. bit x n"] arg_cong [OF h, of "\<lambda>x. bit x n"]
      by (auto simp: bit_take_bit_iff bit_and_iff)
  qed
  then have t: "take_bit 16 (bits + d) = v"
    unfolding bd by (simp add: disjunctive_add_eq_or v h)
  then show "IE_BITS_UREFS (bits + d) = IE_BITS_UREFS bits + d" by (simp add: urefs_take v_def)
  from t show "(bits + d) AND NOT IE_BITS_UREFS_MASK = bits AND NOT IE_BITS_UREFS_MASK"
    by (simp add: high_part bd h_def)
qed

lemma urefs_add_fields:
  assumes "IE_BITS_UREFS bits + d \<le> IE_BITS_UREFS_MASK"
  shows "IE_BITS_TYPE (bits + d) = IE_BITS_TYPE bits"
    and "(bits + d) AND IE_BITS_MAREQUEST = bits AND IE_BITS_MAREQUEST"
  unfolding IE_BITS_TYPE_def
  by (rule high_fields; use urefs_add [OF assms] in \<open>simp add: bits_values\<close>)+

lemma urefs_le: "IE_BITS_UREFS bits \<le> IE_BITS_UREFS_MASK"
  by (simp add: IE_BITS_UREFS_def word_and_le1)

lemma urefs_dec:
  assumes "0 < IE_BITS_UREFS bits"
  shows "IE_BITS_UREFS (bits - 1) = IE_BITS_UREFS bits - 1" "IE_BITS_TYPE (bits - 1) = IE_BITS_TYPE bits"
    "(bits - 1) AND IE_BITS_MAREQUEST = bits AND IE_BITS_MAREQUEST"
proof -
  have "IE_BITS_UREFS bits - 1 \<le> IE_BITS_UREFS bits" using assms
    by (simp add: word_le_nat_alt unat_minus_one)
  then have "IE_BITS_UREFS bits + - 1 \<le> IE_BITS_UREFS_MASK" using urefs_le [of bits] by simp
  from urefs_add(1) [OF this] urefs_add_fields [OF this]
  show "IE_BITS_UREFS (bits - 1) = IE_BITS_UREFS bits - 1" "IE_BITS_TYPE (bits - 1) = IE_BITS_TYPE bits"
    "(bits - 1) AND IE_BITS_MAREQUEST = bits AND IE_BITS_MAREQUEST" by simp_all
qed

lemma urefs_inc:
  assumes "IE_BITS_UREFS bits < MACH_PORT_UREFS_MAX"
  shows "IE_BITS_UREFS (bits + 1) = IE_BITS_UREFS bits + 1" "IE_BITS_TYPE (bits + 1) = IE_BITS_TYPE bits"
    "(bits + 1) AND IE_BITS_MAREQUEST = bits AND IE_BITS_MAREQUEST"
proof -
  have "IE_BITS_UREFS bits + 1 \<le> IE_BITS_UREFS_MASK"
    using word_less_succ(2) [OF assms] by (simp add: bits_values)
  from urefs_add(1) [OF this] urefs_add_fields [OF this]
  show "IE_BITS_UREFS (bits + 1) = IE_BITS_UREFS bits + 1" "IE_BITS_TYPE (bits + 1) = IE_BITS_TYPE bits"
    "(bits + 1) AND IE_BITS_MAREQUEST = bits AND IE_BITS_MAREQUEST" by simp_all
qed

text \<open>The fields of a word in which bits are set and cleared.\<close>

lemma field_and_not: "c AND m = 0 \<Longrightarrow> (bits AND NOT c) AND m = bits AND m" for bits :: bits32
proof (rule bit_word_eqI)
  fix n assume cm: "c AND m = 0" and "n < LENGTH(32)"
  have "\<not> (bit c n \<and> bit m n)" unfolding bit_and_iff [symmetric] cm by simp
  then show "bit ((bits AND NOT c) AND m) n = bit (bits AND m) n"
    using \<open>n < LENGTH(32)\<close> by (auto simp: bit_and_iff bit_not_iff)
qed

lemma field_or: "c AND m = 0 \<Longrightarrow> (bits OR c) AND m = bits AND m" for bits :: bits32
  by (simp add: bit.conj_disj_distrib2)

lemma type_and_not: "IE_BITS_TYPE (bits AND NOT c) = IE_BITS_TYPE bits AND NOT c"
  by (simp add: IE_BITS_TYPE_def ac_simps)

lemma type_or: "IE_BITS_TYPE (bits OR c) = IE_BITS_TYPE bits OR IE_BITS_TYPE c"
  by (simp add: IE_BITS_TYPE_def bit.conj_disj_distrib2)

lemma urefs_or: "IE_BITS_UREFS (bits OR c) = IE_BITS_UREFS bits OR IE_BITS_UREFS c"
  by (simp add: IE_BITS_UREFS_def bit.conj_disj_distrib2)

lemma clear_fields:
  "IE_BITS_UREFS (bits AND NOT (IE_BITS_UREFS_MASK OR MACH_PORT_TYPE_SEND)) = 0"
  "(bits AND NOT (IE_BITS_UREFS_MASK OR MACH_PORT_TYPE_SEND)) AND IE_BITS_MAREQUEST = bits AND IE_BITS_MAREQUEST"
  "IE_BITS_UREFS (bits AND NOT MACH_PORT_TYPE_RECEIVE) = IE_BITS_UREFS bits"
  "(bits AND NOT MACH_PORT_TYPE_RECEIVE) AND IE_BITS_MAREQUEST = bits AND IE_BITS_MAREQUEST"
  "IE_BITS_UREFS (bits AND NOT MACH_PORT_TYPE_SEND_ONCE) = IE_BITS_UREFS bits"
  "(bits AND NOT MACH_PORT_TYPE_SEND_ONCE) AND IE_BITS_MAREQUEST = bits AND IE_BITS_MAREQUEST"
  "IE_BITS_UREFS (bits AND NOT MACH_PORT_TYPE_DEAD_NAME) = IE_BITS_UREFS bits"
  "(bits AND NOT MACH_PORT_TYPE_DEAD_NAME) AND IE_BITS_MAREQUEST = bits AND IE_BITS_MAREQUEST"
  "IE_BITS_UREFS (bits AND NOT IE_BITS_MAREQUEST) = IE_BITS_UREFS bits"
  "(bits AND NOT IE_BITS_MAREQUEST) AND IE_BITS_MAREQUEST = 0"
  "IE_BITS_UREFS (bits AND NOT IE_BITS_TYPE_MASK) = IE_BITS_UREFS bits"
  "(bits AND NOT IE_BITS_TYPE_MASK) AND IE_BITS_MAREQUEST = bits AND IE_BITS_MAREQUEST"
  "IE_BITS_TYPE (bits AND NOT IE_BITS_MAREQUEST) = IE_BITS_TYPE bits"
  "IE_BITS_TYPE (bits AND NOT IE_BITS_TYPE_MASK) = 0"
  unfolding IE_BITS_UREFS_def IE_BITS_TYPE_def
  by (simp_all add: field_and_not bits_values) (simp_all add: and.assoc)

lemma set_fields:
  "IE_BITS_UREFS (bits OR MACH_PORT_TYPE_SEND) = IE_BITS_UREFS bits"
  "(bits OR MACH_PORT_TYPE_SEND) AND IE_BITS_MAREQUEST = bits AND IE_BITS_MAREQUEST"
  "IE_BITS_UREFS (bits OR MACH_PORT_TYPE_RECEIVE) = IE_BITS_UREFS bits"
  "(bits OR MACH_PORT_TYPE_RECEIVE) AND IE_BITS_MAREQUEST = bits AND IE_BITS_MAREQUEST"
  "IE_BITS_UREFS (bits OR MACH_PORT_TYPE_DEAD_NAME) = IE_BITS_UREFS bits"
  "(bits OR MACH_PORT_TYPE_DEAD_NAME) AND IE_BITS_MAREQUEST = bits AND IE_BITS_MAREQUEST"
  "(bits OR (MACH_PORT_TYPE_SEND_ONCE OR 1)) AND IE_BITS_MAREQUEST = bits AND IE_BITS_MAREQUEST"
  "IE_BITS_UREFS (bits OR (MACH_PORT_TYPE_SEND_ONCE OR 1)) = IE_BITS_UREFS bits OR 1"
  unfolding IE_BITS_UREFS_def
  by (simp_all add: field_or bits_values) (simp add: bit.conj_disj_distrib2)

section \<open>Spaces as maps\<close>

text \<open>
  The rights operations see a space through its entries and its reverse map.
  \<open>space_ok\<close> is the invariant of a space that may be used, \<open>used\<close> an entry that is not on the free
  list, and \<open>upd_entry\<close>, \<open>upd_rev\<close> and \<open>upd_mar\<close> are the states after the operations that write to the space
  and to the table of msg-accepted requests.
\<close>

definition space_ok :: "space_id \<Rightarrow> kernel \<Rightarrow> bool" where
  "space_ok s st = (\<exists>sp. k_spaces st s = Some sp \<and> space_wf sp \<and> is_active sp)"

definition used :: "space_id \<Rightarrow> nat \<Rightarrow> kernel \<Rightarrow> bool" where
  "used s e st =
     (\<exists>sp. k_spaces st s = Some sp \<and> is_entries sp e \<noteq> None \<and> e \<noteq> 0 \<and> e \<notin> set (is_free_list sp))"

definition rev_in :: "space_id \<Rightarrow> kernel \<Rightarrow> port_id \<rightharpoonup> nat" where
  "rev_in s st p = do { sp \<leftarrow> k_spaces st s; reverse sp p }"

definition upd_entry :: "space_id \<Rightarrow> nat \<Rightarrow> (ipc_entry \<Rightarrow> ipc_entry) \<Rightarrow> kernel \<Rightarrow> kernel" where
  "upd_entry s e f st = (case set_entry_in s e f st of None \<Rightarrow> st | Some st' \<Rightarrow> st')"

definition upd_rev_remove :: "space_id \<Rightarrow> port_id \<Rightarrow> kernel \<Rightarrow> kernel" where
  "upd_rev_remove s p st = (case reverse_remove_in s p st of None \<Rightarrow> st | Some st' \<Rightarrow> st')"

definition upd_rev_insert :: "space_id \<Rightarrow> port_id \<Rightarrow> nat \<Rightarrow> kernel \<Rightarrow> kernel" where
  "upd_rev_insert s p e st = (case reverse_insert_in s p e st of None \<Rightarrow> st | Some (kr, st') \<Rightarrow> st')"

definition upd_mar :: "space_id \<Rightarrow> mach_port_name \<Rightarrow> kernel \<Rightarrow> kernel" where
  "upd_mar s n st = (case ipc_marequest_cancel s n st of None \<Rightarrow> st | Some st' \<Rightarrow> st')"

lemma set_entry_in_shape: "set_entry_in s e f st = Some st' \<Longrightarrow> \<exists>sp. st' = set_space s sp st"
  by (auto simp: set_entry_in_def bind_eq_Some_conv)

lemma reverse_remove_shape: "reverse_remove_in s p st = Some st' \<Longrightarrow> \<exists>sp. st' = set_space s sp st"
  by (auto simp: reverse_remove_in_def bind_eq_Some_conv split: prod.splits)

lemma reverse_insert_shape: "reverse_insert_in s p e st = Some (kr, st') \<Longrightarrow> \<exists>sp m. st' = set_space s sp (st\<lparr>k_mem := m\<rparr>)"
  by (auto simp: reverse_insert_in_def bind_eq_Some_conv split: prod.splits)

lemma upd_entry_shape: "\<exists>sp. upd_entry s e f st = set_space s sp st \<or> upd_entry s e f st = st"
  using set_entry_in_shape by (fastforce simp: upd_entry_def split: option.splits)

lemma upd_rev_remove_shape: "\<exists>sp. upd_rev_remove s p st = set_space s sp st \<or> upd_rev_remove s p st = st"
  using reverse_remove_shape by (fastforce simp: upd_rev_remove_def split: option.splits)

lemma upd_rev_insert_shape:
  "\<exists>sp m. upd_rev_insert s p e st = set_space s sp (st\<lparr>k_mem := m\<rparr>) \<or> upd_rev_insert s p e st = st"
  using reverse_insert_shape by (fastforce simp: upd_rev_insert_def split: option.splits)

text \<open>Writing to a space leaves the other objects alone.\<close>

lemma upd_entry_frame [simp]:
  "k_ports (upd_entry s e f st) = k_ports st" "k_psets (upd_entry s e f st) = k_psets st"
  "k_threads (upd_entry s e f st) = k_threads st" "k_mem (upd_entry s e f st) = k_mem st"
  "k_marequests (upd_entry s e f st) = k_marequests st"
  "k_marequest_table (upd_entry s e f st) = k_marequest_table st"
  "k_messages (upd_entry s e f st) = k_messages st"
  "s' \<noteq> s \<Longrightarrow> k_spaces (upd_entry s e f st) s' = k_spaces st s'"
  using upd_entry_shape [of s e f st] by auto

lemma upd_rev_remove_frame [simp]:
  "k_ports (upd_rev_remove s p st) = k_ports st" "k_psets (upd_rev_remove s p st) = k_psets st"
  "k_threads (upd_rev_remove s p st) = k_threads st" "k_mem (upd_rev_remove s p st) = k_mem st"
  "k_marequests (upd_rev_remove s p st) = k_marequests st"
  "k_marequest_table (upd_rev_remove s p st) = k_marequest_table st"
  "k_messages (upd_rev_remove s p st) = k_messages st"
  "s' \<noteq> s \<Longrightarrow> k_spaces (upd_rev_remove s p st) s' = k_spaces st s'"
  using upd_rev_remove_shape [of s p st] by auto

lemma upd_rev_insert_frame [simp]:
  "k_ports (upd_rev_insert s p e st) = k_ports st" "k_psets (upd_rev_insert s p e st) = k_psets st"
  "k_threads (upd_rev_insert s p e st) = k_threads st"
  "k_marequests (upd_rev_insert s p e st) = k_marequests st"
  "k_marequest_table (upd_rev_insert s p e st) = k_marequest_table st"
  "k_messages (upd_rev_insert s p e st) = k_messages st"
  "s' \<noteq> s \<Longrightarrow> k_spaces (upd_rev_insert s p e st) s' = k_spaces st s'"
  using upd_rev_insert_shape [of s p e st] by auto

text \<open>Writing to other objects leaves the view of a space alone.\<close>

lemma view_cong:
  assumes "k_spaces st' s = k_spaces st s"
  shows "space_ok s st' = space_ok s st" "used s e st' = used s e st" "rev_in s st' = rev_in s st"
    "entry_in s e st' = entry_in s e st" "space_active s st' = space_active s st"
  using assms by (simp_all add: space_ok_def used_def rev_in_def entry_in_def space_active_def fun_eq_iff)

lemma view_set_port [simp]:
  "space_ok s (set_port p x st) = space_ok s st" "used s e (set_port p x st) = used s e st"
  "rev_in s (set_port p x st) = rev_in s st" "entry_in s e (set_port p x st) = entry_in s e st"
  "space_active s (set_port p x st) = space_active s st"
  by (rule view_cong, simp)+

lemma view_ports [simp]:
  "space_ok s (st\<lparr>k_ports := P\<rparr>) = space_ok s st" "used s e (st\<lparr>k_ports := P\<rparr>) = used s e st"
  "rev_in s (st\<lparr>k_ports := P\<rparr>) = rev_in s st" "entry_in s e (st\<lparr>k_ports := P\<rparr>) = entry_in s e st"
  "space_active s (st\<lparr>k_ports := P\<rparr>) = space_active s st"
  by (rule view_cong, simp)+

lemma space_active_ok [simp]: "space_ok s st \<Longrightarrow> space_active s st = Some True"
  by (auto simp: space_ok_def space_active_def)

section \<open>Writing to the entries\<close>

lemma upd_entry_ok:
  assumes "space_ok s st" "used s e st" "map_option (ie_name \<circ> f) (entry_in s e st) = Some e"
  shows "set_entry_in s e f st = Some (upd_entry s e f st)" (is ?A)
    and "space_ok s (upd_entry s e f st)" (is ?B)
    and "used s k (upd_entry s e f st) = used s k st" (is ?C)
    and "rev_in s (upd_entry s e f st) = rev_in s st" (is ?D)
    and "entry_in s k (upd_entry s e f st) = (if k = e then map_option f (entry_in s e st) else entry_in s k st)" (is ?E)
proof -
  obtain sp en where sp: "k_spaces st s = Some sp" "space_wf sp" "is_active sp" "is_entries sp e = Some en"
    "e \<noteq> 0" "e \<notin> set (is_free_list sp)"
    using assms(1,2) by (auto simp: space_ok_def used_def)
  then have n: "ie_name (f en) = e" using assms(3) by (simp add: entry_in_def)
  obtain t where t: "set_entry sp e (f en) = Some (sp\<lparr>is_map := t\<rparr>)" "space_wf (sp\<lparr>is_map := t\<rparr>)"
    "rdxtree_lookup t = (is_entries sp)(e \<mapsto> f en)"
    using set_entry_wf [OF sp(2) _ n sp(5)] sp by auto
  have u: "set_entry_in s e f st = Some (set_space s (sp\<lparr>is_map := t\<rparr>) st)"
    using sp t by (simp add: set_entry_in_def)
  then have v: "upd_entry s e f st = set_space s (sp\<lparr>is_map := t\<rparr>) st" by (simp add: upd_entry_def)
  show ?A using u v by simp
  show ?B ?C ?D ?E
    using sp t unfolding v by (auto simp: space_ok_def used_def rev_in_def entry_in_def fun_eq_iff)
qed

lemma upd_rev_remove_ok:
  assumes "space_ok s st"
  shows "reverse_remove_in s p st = Some (upd_rev_remove s p st)" (is ?A)
    and "space_ok s (upd_rev_remove s p st)" (is ?B)
    and "used s k (upd_rev_remove s p st) = used s k st" (is ?C)
    and "rev_in s (upd_rev_remove s p st) = (rev_in s st)(p := None)" (is ?D)
    and "entry_in s k (upd_rev_remove s p st) = entry_in s k st" (is ?E)
proof -
  obtain sp where sp: "k_spaces st s = Some sp" "space_wf sp" "is_active sp"
    using assms by (auto simp: space_ok_def)
  obtain t where t: "rdxtree_remove (is_reverse_map sp) p = Some (reverse sp p, t)" "rdxtree_wf t"
    "rdxtree_lookup t = (reverse sp)(p := None)"
    using rdx.rem_law [OF space_wfD(2) [OF sp(2)]] by blast
  have wf: "space_wf (sp\<lparr>is_reverse_map := t\<rparr>)" using sp(2) t(2) unfolding space_wf_def by simp
  have u: "reverse_remove_in s p st = Some (set_space s (sp\<lparr>is_reverse_map := t\<rparr>) st)"
    using sp t by (simp add: reverse_remove_in_def ipc_reverse_remove_def)
  then have v: "upd_rev_remove s p st = set_space s (sp\<lparr>is_reverse_map := t\<rparr>) st" by (simp add: upd_rev_remove_def)
  show ?A using u v by simp
  show ?B ?C ?D ?E
    using sp t wf unfolding v by (auto simp: space_ok_def used_def rev_in_def entry_in_def fun_eq_iff)
qed

lemma upd_rev_insert_ok:
  assumes "space_ok s st" "k_mem st = []" "rev_in s st p = None" "p < 2 ^ 64"
  shows "reverse_insert_in s p e st = Some (KERN_SUCCESS, upd_rev_insert s p e st)" (is ?A)
    and "space_ok s (upd_rev_insert s p e st)" (is ?B)
    and "used s k (upd_rev_insert s p e st) = used s k st" (is ?C)
    and "rev_in s (upd_rev_insert s p e st) = (rev_in s st)(p \<mapsto> e)" (is ?D)
    and "entry_in s k (upd_rev_insert s p e st) = entry_in s k st" (is ?E)
    and "k_mem (upd_rev_insert s p e st) = []" (is ?F)
proof -
  obtain sp where sp: "k_spaces st s = Some sp" "space_wf sp" "is_active sp"
    using assms by (auto simp: space_ok_def)
  have "reverse sp p = None" using assms(3) sp by (simp add: rev_in_def)
  then obtain t where t: "rdxtree_insert (is_reverse_map sp) p e [] = Some (KERN_SUCCESS, t, [])" "rdxtree_wf t"
    "rdxtree_lookup t = (reverse sp)(p \<mapsto> e)"
    using rdx.ins_law [OF space_wfD(2) [OF sp(2)] assms(4), of e "[]"] by (auto simp: insert_spec_def)
  have wf: "space_wf (sp\<lparr>is_reverse_map := t\<rparr>)" using sp(2) t(2) unfolding space_wf_def by simp
  have u: "reverse_insert_in s p e st = Some (KERN_SUCCESS, set_space s (sp\<lparr>is_reverse_map := t\<rparr>) (st\<lparr>k_mem := []\<rparr>))"
    using sp t assms(2) by (simp add: reverse_insert_in_def ipc_reverse_insert_def)
  then have v: "upd_rev_insert s p e st = set_space s (sp\<lparr>is_reverse_map := t\<rparr>) (st\<lparr>k_mem := []\<rparr>)"
    by (simp add: upd_rev_insert_def)
  show ?A using u v by simp
  show ?B ?C ?D ?E ?F
    using sp t wf unfolding v by (auto simp: space_ok_def used_def rev_in_def entry_in_def fun_eq_iff)
qed

lemma upd_mar_ok:
  assumes "marequest_wf st" "space_ok s st" "marequest_of st (s, n) \<noteq> None"
  shows "ipc_marequest_cancel s n st = Some (upd_mar s n st)" (is ?A)
    and "marequest_wf (upd_mar s n st)" (is ?B)
    and "marequest_of (upd_mar s n st) = (marequest_of st)((s, n) := None)" (is ?C)
    and "k_spaces (upd_mar s n st) = k_spaces st" "k_ports (upd_mar s n st) = k_ports st"
    "k_psets (upd_mar s n st) = k_psets st" "k_threads (upd_mar s n st) = k_threads st"
    "k_mem (upd_mar s n st) = k_mem st" "k_messages (upd_mar s n st) = k_messages st"
proof -
  obtain sp r where "k_spaces st s = Some sp" "is_active sp" "marequest_of st (s, n) = Some r"
    using assms by (auto simp: space_ok_def)
  from ipc_marequest_cancel_ok [OF assms(1) this]
  obtain st' where c: "ipc_marequest_cancel s n st = Some st'" "marequest_wf st'"
    "marequest_of st' = (marequest_of st)((s, n) := None)"
    "st' = st\<lparr>k_marequest_table := k_marequest_table st', k_marequests := k_marequests st'\<rparr>"
    by blast
  have v: "upd_mar s n st = st'" using c(1) by (simp add: upd_mar_def)
  show ?A ?B ?C using c v by simp_all
  have "k_spaces st' = k_spaces st \<and> k_ports st' = k_ports st \<and> k_psets st' = k_psets st \<and>
    k_threads st' = k_threads st \<and> k_mem st' = k_mem st \<and> k_messages st' = k_messages st"
    by (subst (1 2 3 4 5 6) c(4)) simp
  then show "k_spaces (upd_mar s n st) = k_spaces st" "k_ports (upd_mar s n st) = k_ports st"
    "k_psets (upd_mar s n st) = k_psets st" "k_threads (upd_mar s n st) = k_threads st"
    "k_mem (upd_mar s n st) = k_mem st" "k_messages (upd_mar s n st) = k_messages st"
    using v by simp_all
qed

section \<open>Rights and their holders\<close>

text \<open>
  \<open>right_of\<close> is what the active spaces of a state mean: the right that a name of a space denotes.
  \<open>holders t p\<close> are the names that denote a right of type \<open>t\<close> for the port \<open>p\<close>.  The counters of a port
  also count rights without a name, in messages and in the kernel; \<open>naked\<close> is their number, as
  a 32-bit word like the counters.
\<close>

definition right_of :: "kernel \<Rightarrow> space_id \<times> mach_port_name \<rightharpoonup> ipc_entry" where
  "right_of st = (\<lambda>(s, n). do { sp \<leftarrow> k_spaces st s; if is_active sp then rights sp n else None })"

definition holds :: "bits32 \<Rightarrow> port_id \<Rightarrow> ipc_entry \<Rightarrow> bool" where
  "holds t p en = (ie_object en = IO_PORT p \<and> ie_bits en AND t \<noteq> 0)"

definition holders :: "bits32 \<Rightarrow> port_id \<Rightarrow> kernel \<Rightarrow> (space_id \<times> mach_port_name) set" where
  "holders t p st = {x. \<exists>en. right_of st x = Some en \<and> holds t p en}"

definition references_of :: "kernel \<Rightarrow> port_id \<Rightarrow> bits32" where
  "references_of st p = (case k_ports st p of None \<Rightarrow> 0 | Some port \<Rightarrow> ip_references port)"

definition srights_of :: "kernel \<Rightarrow> port_id \<Rightarrow> bits32" where
  "srights_of st p = (case k_ports st p of None \<Rightarrow> 0 | Some port \<Rightarrow> ip_srights port)"

definition sorights_of :: "kernel \<Rightarrow> port_id \<Rightarrow> bits32" where
  "sorights_of st p = (case k_ports st p of None \<Rightarrow> 0 | Some port \<Rightarrow> ip_sorights port)"

definition naked_references :: "kernel \<Rightarrow> port_id \<Rightarrow> bits32" where
  "naked_references st p = references_of st p - of_nat (card (holders MACH_PORT_TYPE_PORT_RIGHTS p st))"

definition naked_send :: "kernel \<Rightarrow> port_id \<Rightarrow> bits32" where
  "naked_send st p = srights_of st p - of_nat (card (holders MACH_PORT_TYPE_SEND p st))"

definition naked_send_once :: "kernel \<Rightarrow> port_id \<Rightarrow> bits32" where
  "naked_send_once st p = sorights_of st p - of_nat (card (holders MACH_PORT_TYPE_SEND_ONCE p st))"

definition spaces_ok :: "kernel \<Rightarrow> bool" where
  "spaces_ok st = (finite (dom (k_spaces st)) \<and> (\<forall>s sp. k_spaces st s = Some sp \<longrightarrow> is_active sp \<longrightarrow> space_wf sp))"

text \<open>The number that a statement counts for.\<close>

definition ind :: "bool \<Rightarrow> bits32" where
  "ind b = (if b then 1 else 0)"

lemma ind_simps [simp]: "ind True = 1" "ind False = 0"
  by (simp_all add: ind_def)

lemma right_of_entry:
  assumes "space_ok s st"
  shows "right_of st (s, n) =
    (case entry_in s n st of None \<Rightarrow> None | Some en \<Rightarrow> if IE_BITS_TYPE (ie_bits en) = 0 then None else Some en)"
  using assms by (auto simp: right_of_def entry_in_def space_ok_def rights_def split: option.splits)

lemma right_of_other: "k_spaces st' s = k_spaces st s \<Longrightarrow> right_of st' (s, n) = right_of st (s, n)"
  by (simp add: right_of_def)

lemma finite_rights:
  assumes "spaces_ok st"
  shows "finite (dom (right_of st))"
proof -
  have "finite {n. right_of st (s, n) \<noteq> None}" for s
  proof (cases "k_spaces st s")
    case (Some sp)
    show ?thesis
    proof (cases "is_active sp")
      case True
      then have "finite (dom (is_entries sp))"
        using assms Some by (intro rdx.look_finite space_wfD) (auto simp: spaces_ok_def)
      moreover have "{n. right_of st (s, n) \<noteq> None} \<subseteq> dom (is_entries sp)"
        using Some True by (auto simp: right_of_def rights_def split: option.splits)
      ultimately show ?thesis by (rule finite_subset [rotated])
    qed (simp add: right_of_def Some)
  qed (simp add: right_of_def)
  moreover have "dom (right_of st) = (\<Union>s \<in> dom (k_spaces st). Pair s ` {n. right_of st (s, n) \<noteq> None})"
  proof -
    have "k_spaces st s \<noteq> None" if "right_of st (s, n) = Some en" for s n en
      using that by (cases "k_spaces st s") (auto simp: right_of_def)
    then show ?thesis by force
  qed
  ultimately show ?thesis using assms by (simp add: spaces_ok_def)
qed

lemma finite_holders: "spaces_ok st \<Longrightarrow> finite (holders t p st)"
  by (rule finite_subset [OF _ finite_rights]) (auto simp: holders_def)

text \<open>The number of holders after a change of one entry.\<close>

lemma card_holders_upd:
  assumes "spaces_ok st" "right_of st' = (right_of st)(x := r')"
  shows "of_nat (card (holders t p st')) =
    of_nat (card (holders t p st)) + ind (\<exists>en. r' = Some en \<and> holds t p en)
      - ind (\<exists>en. right_of st x = Some en \<and> holds t p en)"
proof -
  let ?H = "holders t p st - {x}"
  have fin: "finite ?H" using finite_holders [OF assms(1)] by simp
  have 1: "holders t p st = (if \<exists>en. right_of st x = Some en \<and> holds t p en then insert x ?H else ?H)"
    by (auto simp: holders_def)
  have 2: "holders t p st' = (if \<exists>en. r' = Some en \<and> holds t p en then insert x ?H else ?H)"
    unfolding holders_def assms(2) by auto
  have "of_nat (card (insert x ?H)) = (of_nat (card ?H) + 1 :: bits32)"
    using card_insert_disjoint [OF fin, of x] by simp
  then show ?thesis by (subst 1, subst 2) (simp add: ind_def)
qed

lemma naked_upd:
  assumes "spaces_ok st" "right_of st' = (right_of st)(x := r')"
  shows "naked_references st' p = naked_references st p + (references_of st' p - references_of st p) -
      ind (\<exists>en. r' = Some en \<and> holds MACH_PORT_TYPE_PORT_RIGHTS p en) +
      ind (\<exists>en. right_of st x = Some en \<and> holds MACH_PORT_TYPE_PORT_RIGHTS p en)"
    and "naked_send st' p = naked_send st p + (srights_of st' p - srights_of st p) -
      ind (\<exists>en. r' = Some en \<and> holds MACH_PORT_TYPE_SEND p en) +
      ind (\<exists>en. right_of st x = Some en \<and> holds MACH_PORT_TYPE_SEND p en)"
    and "naked_send_once st' p = naked_send_once st p + (sorights_of st' p - sorights_of st p) -
      ind (\<exists>en. r' = Some en \<and> holds MACH_PORT_TYPE_SEND_ONCE p en) +
      ind (\<exists>en. right_of st x = Some en \<and> holds MACH_PORT_TYPE_SEND_ONCE p en)"
  unfolding naked_references_def naked_send_def naked_send_once_def card_holders_upd [OF assms]
  by (simp_all add: algebra_simps)

section \<open>The invariant of a right\<close>

text \<open>
  What the code relies on when it finds a right under a name: the user references fit the
  type, a dead name refers to nothing, a port right refers to a port that has not been
  freed, the port counts the right as long as it is alive, a pure send right is in the reverse map, a receive
  right belongs to a live port that knows its holder, and requests are registered.
\<close>

definition port_entry_ok :: "mach_port_name \<Rightarrow> kernel \<Rightarrow> ipc_entry \<Rightarrow> port_id \<Rightarrow> ipc_port \<Rightarrow> bool" where
  "port_entry_ok n st en p port =
     (ie_object en = IO_PORT p \<and> k_ports st p = Some port \<and> 0 < ip_references port \<and> p < 2 ^ 64 \<and>
      (ip_active port \<longrightarrow> dn_port_wf port \<and>
         (ie_request en \<noteq> 0 \<longrightarrow> (\<exists>so. dn_requests port (ie_request en) = Some (n, so)))))"

definition mar_ok :: "space_id \<Rightarrow> mach_port_name \<Rightarrow> kernel \<Rightarrow> ipc_entry \<Rightarrow> bool" where
  "mar_ok s n st en = (ie_bits en AND IE_BITS_MAREQUEST \<noteq> 0 \<longrightarrow> marequest_of st (s, n) \<noteq> None)"

definition receiver_ok :: "space_id \<Rightarrow> mach_port_name \<Rightarrow> ipc_port \<Rightarrow> bool" where
  "receiver_ok s n port =
     (ip_active port \<and> ip_receiver_name port = n \<and> ip_data port = D_receiver (Some s))"

inductive right_ok :: "space_id \<Rightarrow> mach_port_name \<Rightarrow> kernel \<Rightarrow> ipc_entry \<Rightarrow> bool" for s n st en where
  dead_name: "IE_BITS_TYPE (ie_bits en) = MACH_PORT_TYPE_DEAD_NAME \<Longrightarrow> 0 < IE_BITS_UREFS (ie_bits en) \<Longrightarrow>
    ie_object en = IO_NULL \<Longrightarrow> ie_request en = 0 \<Longrightarrow> ie_bits en AND IE_BITS_MAREQUEST = 0 \<Longrightarrow> right_ok s n st en"
| port_set: "IE_BITS_TYPE (ie_bits en) = MACH_PORT_TYPE_PORT_SET \<Longrightarrow> IE_BITS_UREFS (ie_bits en) = 0 \<Longrightarrow>
    ie_object en = IO_PSET q \<Longrightarrow> k_psets st q = Some pset \<Longrightarrow> ips_active pset \<Longrightarrow> ips_local_name pset = n \<Longrightarrow>
    ie_request en = 0 \<Longrightarrow> ie_bits en AND IE_BITS_MAREQUEST = 0 \<Longrightarrow> right_ok s n st en"
| send: "IE_BITS_TYPE (ie_bits en) = MACH_PORT_TYPE_SEND \<Longrightarrow> 0 < IE_BITS_UREFS (ie_bits en) \<Longrightarrow>
    IE_BITS_UREFS (ie_bits en) < MACH_PORT_UREFS_MAX \<Longrightarrow> port_entry_ok n st en p port \<Longrightarrow> mar_ok s n st en \<Longrightarrow>
    rev_in s st p = Some n \<Longrightarrow>
    (ip_active port \<Longrightarrow> 0 < ip_srights port \<and> ip_data port \<noteq> D_receiver (Some s)) \<Longrightarrow> right_ok s n st en"
| receive: "IE_BITS_TYPE (ie_bits en) = MACH_PORT_TYPE_RECEIVE \<Longrightarrow> IE_BITS_UREFS (ie_bits en) = 0 \<Longrightarrow>
    port_entry_ok n st en p port \<Longrightarrow> mar_ok s n st en \<Longrightarrow> receiver_ok s n port \<Longrightarrow> right_ok s n st en"
| send_receive: "IE_BITS_TYPE (ie_bits en) = MACH_PORT_TYPE_SEND_RECEIVE \<Longrightarrow> 0 < IE_BITS_UREFS (ie_bits en) \<Longrightarrow>
    IE_BITS_UREFS (ie_bits en) < MACH_PORT_UREFS_MAX \<Longrightarrow>
    port_entry_ok n st en p port \<Longrightarrow> mar_ok s n st en \<Longrightarrow> receiver_ok s n port \<Longrightarrow> 0 < ip_srights port \<Longrightarrow>
    right_ok s n st en"
| send_once: "IE_BITS_TYPE (ie_bits en) = MACH_PORT_TYPE_SEND_ONCE \<Longrightarrow> IE_BITS_UREFS (ie_bits en) = 1 \<Longrightarrow>
    ie_bits en AND IE_BITS_MAREQUEST = 0 \<Longrightarrow> port_entry_ok n st en p port \<Longrightarrow>
    (ip_active port \<Longrightarrow> 0 < ip_sorights port) \<Longrightarrow> right_ok s n st en"

text \<open>The state after a change of one entry of a space: everything else that the rights layer sees.\<close>

definition pset_view :: "kernel \<Rightarrow> pset_id \<rightharpoonup> bits32 \<times> mach_port_name" where
  "pset_view st q = map_option (\<lambda>pset. (ips_bits pset, ips_local_name pset)) (k_psets st q)"

definition entry_now :: "space_id \<Rightarrow> nat \<Rightarrow> ipc_entry \<Rightarrow> kernel \<Rightarrow> kernel \<Rightarrow> bool" where
  "entry_now s e en st st' =
     (space_ok s st' \<and> (\<forall>k. used s k st' = used s k st) \<and>
      (\<forall>k. entry_in s k st' = (if k = e then Some en else entry_in s k st)) \<and>
      (\<forall>s'. s' \<noteq> s \<longrightarrow> k_spaces st' s' = k_spaces st s') \<and>
      k_mem st' = k_mem st \<and> pset_view st' = pset_view st)"

lemma entry_nowD:
  assumes "entry_now s e en st st'"
  shows "space_ok s st'" "used s k st' = used s k st"
    "entry_in s k st' = (if k = e then Some en else entry_in s k st)"
    "s' \<noteq> s \<Longrightarrow> k_spaces st' s' = k_spaces st s'"
    "k_mem st' = k_mem st" "pset_view st' = pset_view st"
  using assms unfolding entry_now_def by blast+

lemma entry_now_refl: "space_ok s st \<Longrightarrow> entry_in s e st = Some en \<Longrightarrow> entry_now s e en st st"
  by (auto simp: entry_now_def)

lemma pset_view_cong: "k_psets st' = k_psets st \<Longrightarrow> pset_view st' = pset_view st"
  by (simp add: pset_view_def fun_eq_iff)

lemma entry_now_trans: "entry_now s e en st st' \<Longrightarrow> entry_now s e en' st' st'' \<Longrightarrow> entry_now s e en' st st''"
  by (auto simp: entry_now_def)

lemma entry_now_upd:
  assumes "space_ok s st" "used s e st" "entry_in s e st = Some en" "ie_name (f en) = e"
  shows "entry_now s e (f en) st (upd_entry s e f st)"
  using upd_entry_ok [of s st e f] assms by (auto simp: entry_now_def pset_view_def fun_eq_iff)

lemma entry_now_same:
  assumes "space_ok s st" "entry_in s e st = Some en" "k_spaces st' = k_spaces st" "k_mem st' = k_mem st"
    "k_psets st' = k_psets st"
  shows "entry_now s e en st st'"
  using assms view_cong [of st' s st] by (auto simp: entry_now_def pset_view_def fun_eq_iff)

lemma entry_now_right_of:
  assumes "space_ok s st" "entry_now s e en st st'"
  shows "right_of st' = (right_of st)((s, e) := if IE_BITS_TYPE (ie_bits en) = 0 then None else Some en)"
proof
  fix x :: "space_id \<times> mach_port_name"
  obtain s' n where x: "x = (s', n)" by (cases x)
  show "right_of st' x = ((right_of st)((s, e) := if IE_BITS_TYPE (ie_bits en) = 0 then None else Some en)) x"
  proof (cases "s' = s")
    case True
    then show ?thesis
      using right_of_entry [OF assms(1), of n] right_of_entry [OF entry_nowD(1) [OF assms(2)], of n]
        entry_nowD(3) [OF assms(2), of n] x by auto
  qed (use right_of_other [of st' s' st n] entry_nowD(4) [OF assms(2)] x in auto)
qed

text \<open>Cancelling the dead-name request of an entry, if there is one.\<close>

lemma dncancel_ok:
  assumes "space_ok s st" "used s n st" "entry_in s n st = Some en" "ie_name en = n"
    "port_entry_ok n st en p port" "ip_active port"
  shows "\<exists>so st' dn. ipc_right_dncancel_macro s p n n st = Some (so, st') \<and>
    entry_now s n (en\<lparr>ie_request := 0\<rparr>) st st' \<and> rev_in s st' = rev_in s st \<and>
    k_ports st' = (k_ports st)(p \<mapsto> port\<lparr>ip_dnrequests := dn\<rparr>) \<and>
    dn_port_wf (port\<lparr>ip_dnrequests := dn\<rparr>) \<and>
    dn_requests (port\<lparr>ip_dnrequests := dn\<rparr>) =
      (if ie_request en = 0 then dn_requests port else (dn_requests port)(ie_request en := None)) \<and>
    (so = None \<longleftrightarrow> ie_request en = 0) \<and>
    k_marequests st' = k_marequests st \<and> k_marequest_table st' = k_marequest_table st \<and>
    k_threads st' = k_threads st \<and> k_psets st' = k_psets st"
proof (cases "ie_request en = 0")
  case True
  then show ?thesis
    using assms by (intro exI [of _ None] exI [of _ st] exI [of _ "ip_dnrequests port"])
      (auto simp: ipc_right_dncancel_macro_def port_entry_ok_def entry_now_refl)
next
  case False
  note pe = assms(5) [unfolded port_entry_ok_def]
  obtain so where so: "dn_requests port (ie_request en) = Some (n, so)"
    using pe assms(6) False by auto
  obtain port' where c: "ipc_port_dncancel port n (ie_request en) = Some (so, port')" "dn_port_wf port'"
    "dn_requests port' = (dn_requests port)(ie_request en := None)"
    "port' = port\<lparr>ip_dnrequests := ip_dnrequests port'\<rparr>"
    using ipc_port_dncancel_ok [OF assms(6) _ so] pe assms(6) by blast
  let ?f = "\<lambda>en. en\<lparr>ie_request := 0\<rparr>"
  let ?st = "upd_entry s n ?f (set_port p port' st)"
  have u: "map_option (ie_name \<circ> ?f) (entry_in s n (set_port p port' st)) = Some n" using assms by simp
  have "ipc_right_dncancel_macro s p n n st = Some (Some so, ?st)"
    using pe assms False c(1) upd_entry_ok(1) [OF _ _ u]
    by (simp add: ipc_right_dncancel_macro_def ipc_right_dncancel_def)
  moreover have "entry_now s n (en\<lparr>ie_request := 0\<rparr>) st ?st" "rev_in s ?st = rev_in s st"
    using assms upd_entry_ok [OF _ _ u] by (auto simp: entry_now_def pset_view_def fun_eq_iff)
  ultimately show ?thesis
    using c False by (intro exI [of _ "Some so"] exI [of _ ?st] exI [of _ "ip_dnrequests port'"]) (simp flip: c(4))
qed

section \<open>Ports that have died\<close>

definition released :: "port_id \<Rightarrow> ipc_port \<Rightarrow> (port_id \<rightharpoonup> ipc_port) \<Rightarrow> port_id \<rightharpoonup> ipc_port" where
  "released p port ports =
     ports(p := if ip_references port = 1 then None
                else Some (port\<lparr>ip_references := ip_references port - 1\<rparr>))"

lemma ipc_port_release_ok:
  assumes "k_ports st p = Some port" "0 < ip_references port"
  shows "ipc_port_release p st = Some (st\<lparr>k_ports := released p port (k_ports st)\<rparr>)"
  using assms by (simp add: ipc_port_release_def ip_release_def ip_check_unlock_def released_def set_port_def)

lemma marequest_cong:
  assumes "k_marequests st' = k_marequests st" "k_marequest_table st' = k_marequest_table st"
  shows "marequest_of st' = marequest_of st" "marequest_wf st' = marequest_wf st"
proof -
  have "marequest_for st' r s n = marequest_for st r s n" for r s n
    using assms by (simp add: marequest_for_def)
  then show "marequest_wf st' = marequest_wf st"
    unfolding marequest_wf_def assms by presburger
  have "marequest_find st' s n rs = marequest_find st s n rs" for s n rs
  proof (induction rs)
    case (Cons r rs)
    then show ?case by (cases "k_marequests st r") (simp_all add: assms)
  qed simp
  then show "marequest_of st' = marequest_of st"
    by (simp add: marequest_of_def assms fun_eq_iff)
qed

text \<open>Cancelling the msg-accepted request of an entry, if there is one.\<close>

definition mar_cancelled :: "space_id \<Rightarrow> mach_port_name \<Rightarrow> ipc_entry \<Rightarrow> kernel \<Rightarrow> kernel" where
  "mar_cancelled s n en st = (if ie_bits en AND IE_BITS_MAREQUEST = 0 then st else upd_mar s n st)"

lemma mar_cancelled_ok:
  assumes "marequest_wf st" "space_ok s st" "mar_ok s n st en"
  shows "ie_bits en AND IE_BITS_MAREQUEST \<noteq> 0 \<Longrightarrow> ipc_marequest_cancel s n st = Some (mar_cancelled s n en st)"
    and "ie_bits en AND IE_BITS_MAREQUEST = 0 \<Longrightarrow> mar_cancelled s n en st = st"
    and "marequest_wf (mar_cancelled s n en st)"
    and "marequest_of (mar_cancelled s n en st) =
      (if ie_bits en AND IE_BITS_MAREQUEST = 0 then marequest_of st else (marequest_of st)((s, n) := None))"
    and "k_spaces (mar_cancelled s n en st) = k_spaces st" "k_ports (mar_cancelled s n en st) = k_ports st"
    and "k_mem (mar_cancelled s n en st) = k_mem st" "k_psets (mar_cancelled s n en st) = k_psets st"
    and "k_threads (mar_cancelled s n en st) = k_threads st"
  using assms upd_mar_ok [OF assms(1,2)] by (auto simp: mar_cancelled_def mar_ok_def)

text \<open>A right whose port has died turns into a dead name.\<close>

definition dead_bits :: "ipc_entry \<Rightarrow> bits32" where
  "dead_bits en =
     (let bits = ((ie_bits en AND NOT IE_BITS_MAREQUEST) AND NOT IE_BITS_TYPE_MASK) OR MACH_PORT_TYPE_DEAD_NAME
      in if ie_request en = 0 then bits else bits + 1)"

definition dead_entry :: "ipc_entry \<Rightarrow> ipc_entry" where
  "dead_entry en = en\<lparr>ie_request := 0, ie_bits := dead_bits en, ie_object := IO_NULL\<rparr>"

lemma dead_bits_fields:
  assumes "IE_BITS_UREFS (ie_bits en) < MACH_PORT_UREFS_MAX"
  shows "IE_BITS_TYPE (dead_bits en) = MACH_PORT_TYPE_DEAD_NAME"
    and "IE_BITS_UREFS (dead_bits en) = IE_BITS_UREFS (ie_bits en) + ind (ie_request en \<noteq> 0)"
    and "dead_bits en AND IE_BITS_MAREQUEST = 0"
proof -
  define b where "b = ((ie_bits en AND NOT IE_BITS_MAREQUEST) AND NOT IE_BITS_TYPE_MASK) OR MACH_PORT_TYPE_DEAD_NAME"
  have t: "IE_BITS_TYPE b = MACH_PORT_TYPE_DEAD_NAME"
    unfolding b_def by (simp add: type_or clear_fields) (simp add: IE_BITS_TYPE_def bits_values)
  have u: "IE_BITS_UREFS b = IE_BITS_UREFS (ie_bits en)"
    unfolding b_def by (simp add: set_fields clear_fields)
  have m: "b AND IE_BITS_MAREQUEST = 0"
    unfolding b_def by (simp add: set_fields clear_fields)
  show "IE_BITS_TYPE (dead_bits en) = MACH_PORT_TYPE_DEAD_NAME"
    "IE_BITS_UREFS (dead_bits en) = IE_BITS_UREFS (ie_bits en) + ind (ie_request en \<noteq> 0)"
    "dead_bits en AND IE_BITS_MAREQUEST = 0"
    unfolding dead_bits_def b_def [symmetric] using assms t u m urefs_inc [of b] by simp_all
qed

lemma and_not_unset: "bits AND m = 0 \<Longrightarrow> bits AND NOT m = bits" for bits :: bits32
proof (rule bit_word_eqI)
  fix n assume bm: "bits AND m = 0" and "n < LENGTH(32)"
  have "\<not> (bit bits n \<and> bit m n)" unfolding bit_and_iff [symmetric] bm by simp
  then show "bit (bits AND NOT m) n = bit bits n"
    using \<open>n < LENGTH(32)\<close> by (auto simp: bit_and_iff bit_not_iff)
qed

lemma right_of_names:
  assumes "space_ok s st" "entry_in s n st = Some en" "IE_BITS_TYPE (ie_bits en) \<noteq> 0"
  shows "used s n st" "ie_name en = n"
proof -
  obtain sp where sp: "k_spaces st s = Some sp" "space_wf sp" using assms(1) by (auto simp: space_ok_def)
  have e: "is_entries sp n = Some en" using assms(2) sp by (simp add: entry_in_def)
  then show "ie_name en = n" using space_wfD(3) [OF sp(2)] by blast
  have "n \<noteq> 0"
    using e space_wfD(4) [OF sp(2)] assms(3) by (metis IE_BITS_TYPE_0 option.inject zero_entry_def ipc_entry.select_convs(2))
  moreover have "n \<notin> set (is_free_list sp)"
    using e space_wfD(6) [OF sp(2), of n] assms(3) by auto
  ultimately show "used s n st" using sp e by (auto simp: used_def)
qed

lemma ipc_right_check_live:
  assumes "space_ok s st" "entry_in s n st = Some en" "port_entry_ok n st en p port" "ip_active port"
  shows "ipc_right_check s p n n st = Some (False, st)"
  using assms by (simp add: ipc_right_check_def port_entry_ok_def)

text \<open>The end of \<^verbatim>\<open>ipc_right_check\<close>: the reference is given up and the entry becomes a dead name.\<close>

definition buried :: "space_id \<Rightarrow> mach_port_name \<Rightarrow> ipc_entry \<Rightarrow> port_id \<Rightarrow> ipc_port \<Rightarrow> kernel \<Rightarrow> kernel" where
  "buried s n en p port st =
     upd_entry s n (\<lambda>e. e\<lparr>ie_request := 0, ie_bits := dead_bits en, ie_object := IO_NULL\<rparr>)
       (st\<lparr>k_ports := released p port (k_ports st)\<rparr>)"

lemma buried_ok:
  assumes "space_ok s st" "used s n st" "entry_in s n st = Some en" "ie_name en = n"
    "k_ports st p = Some port" "0 < ip_references port"
  shows "set_entry_in s n (\<lambda>e. e\<lparr>ie_request := 0, ie_bits := dead_bits en, ie_object := IO_NULL\<rparr>)
      (st\<lparr>k_ports := released p port (k_ports st)\<rparr>) = Some (buried s n en p port st)"
    and "entry_now s n (dead_entry en) st (buried s n en p port st)"
    and "rev_in s (buried s n en p port st) = rev_in s st"
    and "k_ports (buried s n en p port st) = released p port (k_ports st)"
    and "marequest_of (buried s n en p port st) = marequest_of st"
    and "marequest_wf (buried s n en p port st) = marequest_wf st"
proof -
  let ?d = "st\<lparr>k_ports := released p port (k_ports st)\<rparr>"
  let ?f = "\<lambda>e. e\<lparr>ie_request := 0, ie_bits := dead_bits en, ie_object := IO_NULL\<rparr>"
  have u: "map_option (ie_name \<circ> ?f) (entry_in s n ?d) = Some n" using assms by simp
  note ue = upd_entry_ok [OF _ _ u]
  show "set_entry_in s n ?f ?d = Some (buried s n en p port st)"
    using ue(1) assms by (simp add: buried_def)
  have "entry_now s n en st ?d" using assms by (intro entry_now_same) simp_all
  moreover have "entry_now s n (?f en) ?d (buried s n en p port st)"
    unfolding buried_def by (rule entry_now_upd) (use assms in simp_all)
  ultimately show "entry_now s n (dead_entry en) st (buried s n en p port st)"
    unfolding dead_entry_def by (rule entry_now_trans)
  show "rev_in s (buried s n en p port st) = rev_in s st"
    using ue(4) assms by (simp add: buried_def)
  show "k_ports (buried s n en p port st) = released p port (k_ports st)" by (simp add: buried_def)
  show "marequest_of (buried s n en p port st) = marequest_of st"
    "marequest_wf (buried s n en p port st) = marequest_wf st"
    by (rule marequest_cong; simp add: buried_def)+
qed

lemma ipc_right_check_dead:
  assumes st: "space_ok s st" "marequest_wf st" and en: "entry_in s n st = Some en" "right_ok s n st en"
    and p: "ie_object en = IO_PORT p" "k_ports st p = Some port" "\<not> ip_active port"
  shows "\<exists>st'. ipc_right_check s p n n st = Some (True, st') \<and> entry_now s n (dead_entry en) st st' \<and>
    k_ports st' = released p port (k_ports st) \<and> marequest_wf st' \<and>
    marequest_of st' =
      (if ie_bits en AND IE_BITS_MAREQUEST = 0 then marequest_of st else (marequest_of st)((s, n) := None)) \<and>
    rev_in s st' = (if IE_BITS_TYPE (ie_bits en) = MACH_PORT_TYPE_SEND then (rev_in s st)(p := None) else rev_in s st)"
  using en(2)
proof cases
  case (send p' port')
  have refs: "0 < ip_references port" using send p by (simp add: port_entry_ok_def)
  have nm: "used s n st" "ie_name en = n" using right_of_names [OF st(1) en(1)] send by simp_all
  let ?m = "mar_cancelled s n en st"
  note mc = mar_cancelled_ok [OF st(2,1) send(5)] and vm = view_cong [of ?m s st]
  have sm: "space_ok s ?m" using st(1) mc(5) vm by simp
  let ?r = "upd_rev_remove s p ?m"
  note rr = upd_rev_remove_ok [OF sm]
  have r: "space_ok s ?r" "used s n ?r" "entry_in s n ?r = Some en" "k_ports ?r p = Some port"
    "marequest_of ?r = marequest_of ?m" "marequest_wf ?r = marequest_wf ?m"
    using rr nm en(1) p mc(5,6) vm marequest_cong [of ?r ?m] by simp_all
  note b = buried_ok [OF r(1-3) nm(2) r(4) refs]
  have "ipc_right_check s p n n st = Some (True, buried s n en p port ?r)"
    using st(1) en(1) p send ipc_port_release_ok [OF r(4) refs] b(1) r(3) mc(1,2) rr(1) [of p]
      and_not_unset [of "ie_bits en" IE_BITS_MAREQUEST]
    by (cases "ie_request en = 0"; cases "ie_bits en AND IE_BITS_MAREQUEST = 0")
      (simp_all add: ipc_right_check_def send_tests dead_bits_def set_fields clear_fields)
  moreover have "entry_now s n en st ?r"
    using rr vm mc(5,7,8) en(1) by (auto simp: entry_now_def pset_view_def fun_eq_iff)
  then have "entry_now s n (dead_entry en) st (buried s n en p port ?r)"
    using b(2) by (rule entry_now_trans)
  ultimately show ?thesis using b(3-6) rr(4) vm mc(3-6) r(5,6) send by auto
next
  case (send_once p' port')
  have refs: "0 < ip_references port" using send_once p by (simp add: port_entry_ok_def)
  have nm: "used s n st" "ie_name en = n" using right_of_names [OF st(1) en(1)] send_once by simp_all
  note b = buried_ok [OF st(1) nm(1) en(1) nm(2) p(2) refs]
  have "ipc_right_check s p n n st = Some (True, buried s n en p port st)"
    using st(1) en(1) p send_once ipc_port_release_ok [OF p(2) refs] b(1) and_not_unset [of "ie_bits en" IE_BITS_MAREQUEST]
    by (cases "ie_request en = 0")
      (simp_all add: ipc_right_check_def send_once_tests dead_bits_def set_fields clear_fields MACH_PORT_UREFS_MAX_def)
  then show ?thesis using b(2-6) st(2) send_once by auto
qed (use p in \<open>auto simp: port_entry_ok_def receiver_ok_def\<close>)

end
