(* ===== verification/Ipc_Right_Move.thy ===== *)
theory Ipc_Right_Move
  imports Ipc_Right_Inv Ipc_Space
begin

text \<open>
  Rights on their way between spaces and messages.  \<open>balanced\<close> is the conservation law: an operation changes the number
  of rights that have no name, and of the references they hold, by exactly the rights that it takes from or gives to a
  message.  Each way to copy a right in is analysed on its own, on every branch, and the results are put together in
  \<open>copyin_ok\<close> and \<open>copyout_ok\<close>.
\<close>

section \<open>Conservation of rights\<close>

text \<open>
  \<open>balanced d t obj st st'\<close>: between the states, the rights without a name have changed by \<open>d\<close> rights of type
  \<open>t\<close> (\<^verbatim>\<open>MACH_MSG_TYPE_PORT_*\<close>) for the object \<open>obj\<close>, each with its reference, and by nothing else.  The counters of
  dead ports are not used any more; their references are.
\<close>

definition balanced :: "bits32 \<Rightarrow> nat \<Rightarrow> ipc_object \<Rightarrow> kernel \<Rightarrow> kernel \<Rightarrow> bool" where
  "balanced d t obj st st' =
     (\<forall>q. naked_references st' q = naked_references st q + d * ind (obj = IO_PORT q) \<and>
        (\<forall>port. k_ports st q = Some port \<longrightarrow> ip_active port \<longrightarrow>
           naked_send st' q = naked_send st q + d * ind (obj = IO_PORT q \<and> t = MACH_MSG_TYPE_PORT_SEND) \<and>
           naked_send_once st' q = naked_send_once st q + d * ind (obj = IO_PORT q \<and> t = MACH_MSG_TYPE_PORT_SEND_ONCE)))"

lemma holds_right:
  assumes "holds t q en" "t AND IE_BITS_TYPE_MASK = t"
  shows "IE_BITS_TYPE (ie_bits en) \<noteq> 0"
  using assms and_type [OF assms(2), of "ie_bits en"] by (auto simp: holds_def)

lemma type_masks:
  "MACH_PORT_TYPE_SEND AND IE_BITS_TYPE_MASK = MACH_PORT_TYPE_SEND"
  "MACH_PORT_TYPE_SEND_ONCE AND IE_BITS_TYPE_MASK = MACH_PORT_TYPE_SEND_ONCE"
  "MACH_PORT_TYPE_PORT_RIGHTS AND IE_BITS_TYPE_MASK = MACH_PORT_TYPE_PORT_RIGHTS"
  by (simp_all add: bits_values)

lemma balancedI:
  assumes st: "spaces_ok st" "space_ok s st" and en: "entry_in s n st = Some en"
    and now: "entry_now s n en' st st'"
    and r: "\<And>q. references_of st' q - ind (holds MACH_PORT_TYPE_PORT_RIGHTS q en') =
        references_of st q - ind (holds MACH_PORT_TYPE_PORT_RIGHTS q en) + d * ind (obj = IO_PORT q)"
    and sr: "\<And>q port. k_ports st q = Some port \<Longrightarrow> ip_active port \<Longrightarrow>
        srights_of st' q - ind (holds MACH_PORT_TYPE_SEND q en') =
        srights_of st q - ind (holds MACH_PORT_TYPE_SEND q en) + d * ind (obj = IO_PORT q \<and> t = MACH_MSG_TYPE_PORT_SEND)"
    and so: "\<And>q port. k_ports st q = Some port \<Longrightarrow> ip_active port \<Longrightarrow>
        sorights_of st' q - ind (holds MACH_PORT_TYPE_SEND_ONCE q en') =
        sorights_of st q - ind (holds MACH_PORT_TYPE_SEND_ONCE q en) +
          d * ind (obj = IO_PORT q \<and> t = MACH_MSG_TYPE_PORT_SEND_ONCE)"
  shows "balanced d t obj st st'"
proof -
  let ?r' = "if IE_BITS_TYPE (ie_bits en') = 0 then None else Some en'"
  have u: "right_of st' = (right_of st)((s, n) := ?r')" by (rule entry_now_right_of [OF st(2) now])
  have new: "(\<exists>e. ?r' = Some e \<and> holds t' q e) = holds t' q en'" if "t' AND IE_BITS_TYPE_MASK = t'" for t' q
    using holds_right [OF _ that] by auto
  have old: "(\<exists>e. right_of st (s, n) = Some e \<and> holds t' q e) = holds t' q en" if "t' AND IE_BITS_TYPE_MASK = t'" for t' q
    using holds_right [OF _ that] right_of_entry [OF st(2), of n] en by auto
  note nk = naked_upd [OF st(1) u, unfolded new [OF type_masks(1)] new [OF type_masks(2)] new [OF type_masks(3)]
      old [OF type_masks(1)] old [OF type_masks(2)] old [OF type_masks(3)]]
  have w: "a' - h' = a - h + x \<Longrightarrow> k + (a' - a) - h' + h = k + x" for a a' h h' x k :: bits32
  proof -
    assume "a' - h' = a - h + x"
    then have "a' = a - h + x + h'" by (simp add: diff_eq_eq)
    then show ?thesis by simp
  qed
  show ?thesis
    unfolding balanced_def nk using w [OF r] w [OF sr] w [OF so] by blast
qed

text \<open>Counters after an update of one port.\<close>

lemma counters_upd:
  assumes "k_ports st' = (k_ports st)(p := r)"
  shows "references_of st' q = (if q = p then (case r of None \<Rightarrow> 0 | Some port \<Rightarrow> ip_references port) else references_of st q)"
    and "srights_of st' q = (if q = p then (case r of None \<Rightarrow> 0 | Some port \<Rightarrow> ip_srights port) else srights_of st q)"
    and "sorights_of st' q = (if q = p then (case r of None \<Rightarrow> 0 | Some port \<Rightarrow> ip_sorights port) else sorights_of st q)"
  using assms by (simp_all add: references_of_def srights_of_def sorights_of_def)

lemma counters_at:
  assumes "k_ports st p = Some port"
  shows "references_of st p = ip_references port" "srights_of st p = ip_srights port"
    "sorights_of st p = ip_sorights port"
  using assms by (simp_all add: references_of_def srights_of_def sorights_of_def)

lemma balanced_refl: "balanced d t IO_NULL st st" "balanced d t IO_DEAD st st"
  by (simp_all add: balanced_def)

text \<open>A port that has died: the entry gives its reference back.\<close>

lemma balanced_dead:
  assumes "spaces_ok st" "space_ok s st" "entry_in s n st = Some en" "entry_now s n en' st st'"
    "ie_object en = IO_PORT p" "ie_bits en AND MACH_PORT_TYPE_PORT_RIGHTS \<noteq> 0"
    "k_ports st p = Some port" "\<not> ip_active port" "k_ports st' = released p port (k_ports st)"
    "ie_object en' = IO_NULL" "obj = IO_NULL \<or> obj = IO_DEAD"
  shows "balanced d t obj st st'"
proof (rule balancedI [OF assms(1-4)])
  note c = counters_upd [OF assms(9) [unfolded released_def]]
  fix q
  show "references_of st' q - ind (holds MACH_PORT_TYPE_PORT_RIGHTS q en') =
        references_of st q - ind (holds MACH_PORT_TYPE_PORT_RIGHTS q en) + d * ind (obj = IO_PORT q)"
    using assms(5-11) counters_at [OF assms(7)] c by (auto simp: holds_def)
  fix qp assume "k_ports st q = Some qp" "ip_active qp"
  then have "q \<noteq> p" using assms(7,8) by auto
  then show "srights_of st' q - ind (holds MACH_PORT_TYPE_SEND q en') =
        srights_of st q - ind (holds MACH_PORT_TYPE_SEND q en) + d * ind (obj = IO_PORT q \<and> t = MACH_MSG_TYPE_PORT_SEND)"
    "sorights_of st' q - ind (holds MACH_PORT_TYPE_SEND_ONCE q en') =
        sorights_of st q - ind (holds MACH_PORT_TYPE_SEND_ONCE q en) +
          d * ind (obj = IO_PORT q \<and> t = MACH_MSG_TYPE_PORT_SEND_ONCE)"
    using assms(5,10,11) c by (auto simp: holds_def)
qed

lemma balanced_live:
  assumes "spaces_ok st" "space_ok s st" "entry_in s n st = Some en" "entry_now s n en' st st'"
    "ie_object en = IO_PORT p" "k_ports st p = Some port" "k_ports st' = (k_ports st)(p \<mapsto> port')"
    "ie_object en' = IO_PORT p \<or> ie_object en' = IO_NULL" "obj = IO_PORT p"
    "ip_references port' - ind (holds MACH_PORT_TYPE_PORT_RIGHTS p en') =
       ip_references port - ind (holds MACH_PORT_TYPE_PORT_RIGHTS p en) + d"
    "ip_srights port' - ind (holds MACH_PORT_TYPE_SEND p en') =
       ip_srights port - ind (holds MACH_PORT_TYPE_SEND p en) + d * ind (t = MACH_MSG_TYPE_PORT_SEND)"
    "ip_sorights port' - ind (holds MACH_PORT_TYPE_SEND_ONCE p en') =
       ip_sorights port - ind (holds MACH_PORT_TYPE_SEND_ONCE p en) + d * ind (t = MACH_MSG_TYPE_PORT_SEND_ONCE)"
  shows "balanced d t obj st st'"
proof (rule balancedI [OF assms(1-4)])
  note c = counters_upd [OF assms(7)] and a = counters_at [OF assms(6)]
  have o: "q \<noteq> p \<Longrightarrow> \<not> holds t' q en \<and> \<not> holds t' q en'" for q t'
    using assms(5,8) by (auto simp: holds_def)
  show "references_of st' q - ind (holds MACH_PORT_TYPE_PORT_RIGHTS q en') =
      references_of st q - ind (holds MACH_PORT_TYPE_PORT_RIGHTS q en) + d * ind (obj = IO_PORT q)"
    "srights_of st' q - ind (holds MACH_PORT_TYPE_SEND q en') =
      srights_of st q - ind (holds MACH_PORT_TYPE_SEND q en) + d * ind (obj = IO_PORT q \<and> t = MACH_MSG_TYPE_PORT_SEND)"
    "sorights_of st' q - ind (holds MACH_PORT_TYPE_SEND_ONCE q en') =
      sorights_of st q - ind (holds MACH_PORT_TYPE_SEND_ONCE q en) +
        d * ind (obj = IO_PORT q \<and> t = MACH_MSG_TYPE_PORT_SEND_ONCE)" for q
    using assms(9-12) c a o [of q] by (cases "q = p"; simp)+
qed

section \<open>Copyin of each type of right\<close>

lemma receive_port:
  assumes "right_ok s n st en" "ie_bits en AND MACH_PORT_TYPE_RECEIVE \<noteq> 0"
  obtains p port where "ie_object en = IO_PORT p" "k_ports st p = Some port" "receiver_ok s n port"
    "port_entry_ok n st en p port"
    "IE_BITS_TYPE (ie_bits en) = MACH_PORT_TYPE_RECEIVE \<and> IE_BITS_UREFS (ie_bits en) = 0 \<or>
     IE_BITS_TYPE (ie_bits en) = MACH_PORT_TYPE_SEND_RECEIVE \<and> 0 < IE_BITS_UREFS (ie_bits en) \<and>
       IE_BITS_UREFS (ie_bits en) < MACH_PORT_UREFS_MAX \<and> 0 < ip_srights port"
    "mar_ok s n st en"
  using assms(1)
  by cases (use assms(2) that in \<open>auto simp: dead_name_tests port_set_tests send_tests send_once_tests port_entry_ok_def\<close>)

lemma copyin_make_send_ok:
  assumes "space_ok s st" "spaces_ok st" "entry_in s n st = Some en" "right_ok s n st en"
    "ie_bits en AND MACH_PORT_TYPE_RECEIVE \<noteq> 0"
  obtains p port st' where "copyin_make_send s n n st = Some (KERN_SUCCESS, IO_PORT p, None, st')"
    "ie_object en = IO_PORT p" "k_ports st p = Some port"
    "st' = set_port p (port\<lparr>ip_mscount := ip_mscount port + 1, ip_srights := ip_srights port + 1,
             ip_references := ip_references port + 1\<rparr>) st"
    "balanced 1 MACH_MSG_TYPE_PORT_SEND (IO_PORT p) st st'"
proof -
  obtain p port where p: "ie_object en = IO_PORT p" "k_ports st p = Some port" "receiver_ok s n port"
    using receive_port [OF assms(4,5)] by blast
  let ?port = "port\<lparr>ip_mscount := ip_mscount port + 1, ip_srights := ip_srights port + 1, ip_references := ip_references port + 1\<rparr>"
  have "balanced 1 MACH_MSG_TYPE_PORT_SEND (IO_PORT p) st (set_port p ?port st)"
    using assms p by (intro balanced_live [where en' = en and p = p and port' = ?port] entry_now_same)
      (simp_all add: MACH_MSG_TYPE_PORT_SEND_def MACH_MSG_TYPE_PORT_SEND_ONCE_def MACH_MSG_TYPE_MOVE_SEND_def MACH_MSG_TYPE_MOVE_SEND_ONCE_def)
  moreover have "copyin_make_send s n n st = Some (KERN_SUCCESS, IO_PORT p, None, set_port p ?port st)"
    using assms p by (simp add: copyin_make_send_def assert_receiver_def receiver_ok_def obj_port_def ip_reference_def)
  ultimately show thesis using that p by blast
qed

lemma copyin_make_send_once_ok:
  assumes "space_ok s st" "spaces_ok st" "entry_in s n st = Some en" "right_ok s n st en"
    "ie_bits en AND MACH_PORT_TYPE_RECEIVE \<noteq> 0"
  obtains p port st' where "copyin_make_send_once s n n st = Some (KERN_SUCCESS, IO_PORT p, None, st')"
    "ie_object en = IO_PORT p" "k_ports st p = Some port"
    "st' = set_port p (port\<lparr>ip_sorights := ip_sorights port + 1, ip_references := ip_references port + 1\<rparr>) st"
    "balanced 1 MACH_MSG_TYPE_PORT_SEND_ONCE (IO_PORT p) st st'"
proof -
  obtain p port where p: "ie_object en = IO_PORT p" "k_ports st p = Some port" "receiver_ok s n port"
    using receive_port [OF assms(4,5)] by blast
  let ?port = "port\<lparr>ip_sorights := ip_sorights port + 1, ip_references := ip_references port + 1\<rparr>"
  have "balanced 1 MACH_MSG_TYPE_PORT_SEND_ONCE (IO_PORT p) st (set_port p ?port st)"
    using assms p by (intro balanced_live [where en' = en and p = p and port' = ?port] entry_now_same)
      (simp_all add: MACH_MSG_TYPE_PORT_SEND_def MACH_MSG_TYPE_PORT_SEND_ONCE_def MACH_MSG_TYPE_MOVE_SEND_def MACH_MSG_TYPE_MOVE_SEND_ONCE_def)
  moreover have "copyin_make_send_once s n n st = Some (KERN_SUCCESS, IO_PORT p, None, set_port p ?port st)"
    using assms p by (simp add: copyin_make_send_once_def assert_receiver_def receiver_ok_def obj_port_def ip_reference_def)
  ultimately show thesis using that p by blast
qed

lemmas msg_types = MACH_MSG_TYPE_PORT_SEND_def MACH_MSG_TYPE_PORT_SEND_ONCE_def MACH_MSG_TYPE_PORT_RECEIVE_def
  MACH_MSG_TYPE_MOVE_SEND_def MACH_MSG_TYPE_MOVE_SEND_ONCE_def MACH_MSG_TYPE_MOVE_RECEIVE_def
  MACH_MSG_TYPE_COPY_SEND_def MACH_MSG_TYPE_MAKE_SEND_def MACH_MSG_TYPE_MAKE_SEND_ONCE_def

text \<open>A right that can be used to send: a send right, with or without a receive right, or a send-once right.\<close>

lemma send_port:
  assumes "right_ok s n st en" "ie_bits en AND MACH_PORT_TYPE_SEND \<noteq> 0"
  obtains p port where "ie_object en = IO_PORT p" "k_ports st p = Some port" "port_entry_ok n st en p port"
    "mar_ok s n st en" "0 < IE_BITS_UREFS (ie_bits en)" "IE_BITS_UREFS (ie_bits en) < MACH_PORT_UREFS_MAX"
    "ip_active port \<Longrightarrow> 0 < ip_srights port"
    "IE_BITS_TYPE (ie_bits en) = MACH_PORT_TYPE_SEND \<and> rev_in s st p = Some n \<and>
       (ip_active port \<longrightarrow> ip_data port \<noteq> D_receiver (Some s)) \<or>
     IE_BITS_TYPE (ie_bits en) = MACH_PORT_TYPE_SEND_RECEIVE \<and> receiver_ok s n port"
  using assms(1)
  by cases (use assms(2) that in \<open>auto simp: dead_name_tests port_set_tests receive_tests send_once_tests port_entry_ok_def\<close>)

lemma send_or_send_receive_tests:
  assumes "IE_BITS_TYPE bits = MACH_PORT_TYPE_SEND \<or> IE_BITS_TYPE bits = MACH_PORT_TYPE_SEND_RECEIVE"
  shows "bits AND MACH_PORT_TYPE_SEND \<noteq> 0" "bits AND MACH_PORT_TYPE_SEND_ONCE = 0"
    "bits AND MACH_PORT_TYPE_DEAD_NAME = 0" "bits AND MACH_PORT_TYPE_SEND_RIGHTS \<noteq> 0"
    "bits AND MACH_PORT_TYPE_PORT_RIGHTS \<noteq> 0" "IE_BITS_TYPE bits \<noteq> 0"
  using assms send_tests send_receive_tests by (auto simp: MACH_PORT_TYPE_NONE_def)

lemma copyin_copy_send_live:
  assumes "space_ok s st" "spaces_ok st" "entry_in s n st = Some en" "right_ok s n st en"
    "ie_bits en AND MACH_PORT_TYPE_SEND \<noteq> 0" "ie_object en = IO_PORT p" "k_ports st p = Some port" "ip_active port"
  shows "copyin_copy_send s n n deadok st = Some (KERN_SUCCESS, IO_PORT p, None,
      set_port p (port\<lparr>ip_srights := ip_srights port + 1, ip_references := ip_references port + 1\<rparr>) st)"
    and "balanced 1 MACH_MSG_TYPE_PORT_SEND (IO_PORT p) st
      (set_port p (port\<lparr>ip_srights := ip_srights port + 1, ip_references := ip_references port + 1\<rparr>) st)"
proof -
  let ?port = "port\<lparr>ip_srights := ip_srights port + 1, ip_references := ip_references port + 1\<rparr>"
  obtain pe: "port_entry_ok n st en p port" "0 < IE_BITS_UREFS (ie_bits en)" "0 < ip_srights port"
    "IE_BITS_TYPE (ie_bits en) = MACH_PORT_TYPE_SEND \<or> IE_BITS_TYPE (ie_bits en) = MACH_PORT_TYPE_SEND_RECEIVE"
    using send_port [OF assms(4,5)] assms(6-8) by (metis ipc_object.inject(1) option.inject)
  show "copyin_copy_send s n n deadok st = Some (KERN_SUCCESS, IO_PORT p, None, set_port p ?port st)"
    using assms pe ipc_right_check_live [OF assms(1,3) pe(1) assms(8)] send_or_send_receive_tests [OF pe(4)]
    by (simp add: copyin_copy_send_def obj_port_def ip_reference_def)
  show "balanced 1 MACH_MSG_TYPE_PORT_SEND (IO_PORT p) st (set_port p ?port st)"
    using assms by (intro balanced_live [where en' = en and p = p and port' = ?port] entry_now_same)
      (simp_all add: msg_types)
qed

text \<open>The bits of an entry that has lost its send right.\<close>

abbreviation sendless :: "bits32 \<Rightarrow> bits32" where
  "sendless bits \<equiv> bits AND NOT (IE_BITS_UREFS_MASK OR MACH_PORT_TYPE_SEND)"

lemma sendless_type:
  "IE_BITS_TYPE bits = MACH_PORT_TYPE_SEND \<Longrightarrow> IE_BITS_TYPE (sendless bits) = 0"
  "IE_BITS_TYPE bits = MACH_PORT_TYPE_SEND_RECEIVE \<Longrightarrow> IE_BITS_TYPE (sendless bits) = MACH_PORT_TYPE_RECEIVE"
  by (simp_all only: type_and_not) (simp_all add: bits_values)

lemma no_holds: "ie_object en = IO_NULL \<Longrightarrow> \<not> holds t q en"
  by (simp add: holds_def)

lemma copyin_move_send_many:
  assumes "space_ok s st" "spaces_ok st" "entry_in s n st = Some en" "right_ok s n st en"
    "ie_bits en AND MACH_PORT_TYPE_SEND \<noteq> 0" "ie_object en = IO_PORT p" "k_ports st p = Some port" "ip_active port"
    "IE_BITS_UREFS (ie_bits en) \<noteq> 1"
  obtains st' where "copyin_move_send s n n deadok st = Some (KERN_SUCCESS, IO_PORT p, None, st')"
    "entry_now s n (en\<lparr>ie_bits := ie_bits en - 1\<rparr>) st st'" "rev_in s st' = rev_in s st"
    "k_ports st' = (k_ports st)(p \<mapsto> port\<lparr>ip_srights := ip_srights port + 1, ip_references := ip_references port + 1\<rparr>)"
    "marequest_of st' = marequest_of st" "marequest_wf st' = marequest_wf st"
    "balanced 1 MACH_MSG_TYPE_PORT_SEND (IO_PORT p) st st'"
proof -
  let ?port = "port\<lparr>ip_srights := ip_srights port + 1, ip_references := ip_references port + 1\<rparr>"
  let ?f = "\<lambda>e. e\<lparr>ie_bits := ie_bits en - 1\<rparr>"
  let ?st1 = "set_port p ?port st"
  let ?st2 = "upd_entry s n ?f ?st1"
  obtain pe: "port_entry_ok n st en p port" "0 < IE_BITS_UREFS (ie_bits en)" "0 < ip_srights port"
    "IE_BITS_TYPE (ie_bits en) = MACH_PORT_TYPE_SEND \<or> IE_BITS_TYPE (ie_bits en) = MACH_PORT_TYPE_SEND_RECEIVE"
    using send_port [OF assms(4,5)] assms(6-8) by (metis ipc_object.inject(1) option.inject)
  note tests = send_or_send_receive_tests [OF pe(4)]
  have nm: "used s n st" "ie_name en = n" using right_of_names [OF assms(1,3) tests(6)] by simp_all
  have u: "map_option (ie_name \<circ> ?f) (entry_in s n ?st1) = Some n" using assms nm by simp
  note ue = upd_entry_ok [OF _ _ u]
  have "copyin_move_send s n n deadok st = Some (KERN_SUCCESS, IO_PORT p, None, ?st2)"
    using assms pe ipc_right_check_live [OF assms(1,3) pe(1) assms(8)] tests ue(1) nm
    by (simp add: copyin_move_send_def obj_port_def ip_reference_def)
  moreover have now: "entry_now s n (?f en) st ?st2"
    using entry_now_same [OF assms(1,3), of ?st1] entry_now_upd [of s ?st1 n en ?f] assms nm
    by (simp add: entry_now_trans)
  moreover have "balanced 1 MACH_MSG_TYPE_PORT_SEND (IO_PORT p) st ?st2"
    using send_or_send_receive_tests [of "ie_bits en - 1"] tests pe urefs_dec(2) [OF pe(2)]
    by (intro balanced_live [where port' = ?port, OF assms(2,1,3) now assms(6,7)]) (use assms in \<open>simp_all add: holds_def msg_types\<close>)
  moreover have "marequest_of ?st2 = marequest_of st" "marequest_wf ?st2 = marequest_wf st"
    by (rule marequest_cong; simp)+
  ultimately show thesis using that ue(4) assms nm by simp
qed

lemma copyin_move_send_last_receive:
  assumes "space_ok s st" "spaces_ok st" "entry_in s n st = Some en" "right_ok s n st en"
    "IE_BITS_TYPE (ie_bits en) = MACH_PORT_TYPE_SEND_RECEIVE" "ie_object en = IO_PORT p" "k_ports st p = Some port"
    "IE_BITS_UREFS (ie_bits en) = 1"
  obtains st' where "copyin_move_send s n n deadok st = Some (KERN_SUCCESS, IO_PORT p, None, st')"
    "entry_now s n (en\<lparr>ie_bits := sendless (ie_bits en)\<rparr>) st st'" "rev_in s st' = rev_in s st"
    "k_ports st' = (k_ports st)(p \<mapsto> port\<lparr>ip_references := ip_references port + 1\<rparr>)"
    "marequest_of st' = marequest_of st" "marequest_wf st' = marequest_wf st"
    "balanced 1 MACH_MSG_TYPE_PORT_SEND (IO_PORT p) st st'"
proof -
  let ?port = "port\<lparr>ip_references := ip_references port + 1\<rparr>"
  let ?f = "\<lambda>e. e\<lparr>ie_bits := sendless (ie_bits en)\<rparr>"
  let ?st1 = "set_port p ?port st"
  let ?st2 = "upd_entry s n ?f ?st1"
  note tests = send_receive_tests [OF assms(5)]
  obtain pe: "port_entry_ok n st en p port" "receiver_ok s n port" "0 < ip_srights port"
    using assms(4) by cases (use assms(5-7) in \<open>auto simp: port_entry_ok_def\<close>)
  have nm: "used s n st" "ie_name en = n" using right_of_names [OF assms(1,3)] assms(5) by simp_all
  have u: "map_option (ie_name \<circ> ?f) (entry_in s n ?st1) = Some n" using assms nm by simp
  note ue = upd_entry_ok [OF _ _ u]
  have act: "ip_active port" using pe(2) by (simp add: receiver_ok_def)
  have "copyin_move_send s n n deadok st = Some (KERN_SUCCESS, IO_PORT p, None, ?st2)"
    using assms pe ipc_right_check_live [OF assms(1,3) pe(1) act] tests ue(1) nm
    by (simp add: copyin_move_send_def obj_port_def ip_reference_def receiver_ok_def)
  moreover have now: "entry_now s n (?f en) st ?st2"
    using entry_now_same [OF assms(1,3), of ?st1] entry_now_upd [of s ?st1 n en ?f] assms nm
    by (simp add: entry_now_trans)
  moreover have "balanced 1 MACH_MSG_TYPE_PORT_SEND (IO_PORT p) st ?st2"
    using receive_tests [OF sendless_type(2) [OF assms(5)]] tests
    by (intro balanced_live [where port' = ?port, OF assms(2,1,3) now assms(6,7)]) (use assms in \<open>simp_all add: holds_def msg_types\<close>)
  moreover have "marequest_of ?st2 = marequest_of st" "marequest_wf ?st2 = marequest_wf st"
    by (rule marequest_cong; simp)+
  ultimately show thesis using that ue(4) assms nm by simp
qed

text \<open>A pure send right leaves the space with its last user reference.\<close>

lemma copyin_last_send_ok:
  assumes "space_ok s st" "marequest_wf st" "entry_in s n st = Some en" "mar_ok s n st en"
    "IE_BITS_TYPE (ie_bits en) = MACH_PORT_TYPE_SEND" "port_entry_ok n st en p port" "ip_active port"
  obtains so st' dn where "copyin_last_send s n n p (ie_bits en) st = Some (so, st')"
    "entry_now s n (en\<lparr>ie_request := 0\<rparr>) st st'" "rev_in s st' = (rev_in s st)(p := None)"
    "k_ports st' = (k_ports st)(p \<mapsto> port\<lparr>ip_dnrequests := dn\<rparr>)" "dn_port_wf (port\<lparr>ip_dnrequests := dn\<rparr>)"
    "dn_requests (port\<lparr>ip_dnrequests := dn\<rparr>) =
      (if ie_request en = 0 then dn_requests port else (dn_requests port)(ie_request en := None))"
    "so = None \<longleftrightarrow> ie_request en = 0" "marequest_wf st'"
    "marequest_of st' =
      (if ie_bits en AND IE_BITS_MAREQUEST = 0 then marequest_of st else (marequest_of st)((s, n) := None))"
proof -
  have nm: "used s n st" "ie_name en = n" using right_of_names [OF assms(1,3)] assms(5) by simp_all
  obtain so st1 dn where c: "ipc_right_dncancel_macro s p n n st = Some (so, st1)"
    "entry_now s n (en\<lparr>ie_request := 0\<rparr>) st st1" "rev_in s st1 = rev_in s st"
    "k_ports st1 = (k_ports st)(p \<mapsto> port\<lparr>ip_dnrequests := dn\<rparr>)" "dn_port_wf (port\<lparr>ip_dnrequests := dn\<rparr>)"
    "dn_requests (port\<lparr>ip_dnrequests := dn\<rparr>) =
      (if ie_request en = 0 then dn_requests port else (dn_requests port)(ie_request en := None))"
    "so = None \<longleftrightarrow> ie_request en = 0"
    "k_marequests st1 = k_marequests st" "k_marequest_table st1 = k_marequest_table st"
    using dncancel_ok [OF assms(1) nm(1) assms(3) nm(2) assms(6,7)] by (elim exE conjE) (rule that)
  note now = entry_nowD [OF c(2)] and ma = marequest_cong [OF c(8,9)]
  let ?r = "upd_rev_remove s p st1"
  note rr = upd_rev_remove_ok [OF now(1), where p = p]
  have ma2: "marequest_of ?r = marequest_of st" "marequest_wf ?r = marequest_wf st"
    using ma marequest_cong [of ?r st1] by simp_all
  let ?m = "mar_cancelled s n en ?r"
  have "mar_ok s n ?r en" using assms(4) ma2 by (simp add: mar_ok_def)
  note mc = mar_cancelled_ok [OF _ rr(2) this]
  have mw: "marequest_wf ?r" using ma2 assms(2) by simp
  have e: "copyin_last_send s n n p (ie_bits en) st = Some (so, ?m)"
    using assms(5) c(1) rr(1) mc(1,2) [OF mw] by (simp add: copyin_last_send_def)
  have "entry_now s n (en\<lparr>ie_request := 0\<rparr>) st1 ?m"
    using rr now(3) mc(5,7,8) [OF mw] view_cong [of ?m s ?r]
    by (auto simp: entry_now_def pset_view_def fun_eq_iff)
  with c(2) have "entry_now s n (en\<lparr>ie_request := 0\<rparr>) st ?m" by (rule entry_now_trans)
  with e show thesis
    using that [of so ?m dn] c mc(3-6) [OF mw] rr(4) ma2 view_cong(3) [of ?m s ?r] by simp
qed

lemma copyin_move_send_last:
  assumes "space_ok s st" "spaces_ok st" "marequest_wf st" "entry_in s n st = Some en" "right_ok s n st en"
    "IE_BITS_TYPE (ie_bits en) = MACH_PORT_TYPE_SEND" "ie_object en = IO_PORT p" "k_ports st p = Some port"
    "ip_active port" "IE_BITS_UREFS (ie_bits en) = 1"
  obtains so st' dn where "copyin_move_send s n n deadok st = Some (KERN_SUCCESS, IO_PORT p, so, st')"
    "entry_now s n (en\<lparr>ie_request := 0, ie_object := IO_NULL, ie_bits := sendless (ie_bits en)\<rparr>) st st'"
    "rev_in s st' = (rev_in s st)(p := None)"
    "k_ports st' = (k_ports st)(p \<mapsto> port\<lparr>ip_dnrequests := dn\<rparr>)" "dn_port_wf (port\<lparr>ip_dnrequests := dn\<rparr>)"
    "dn_requests (port\<lparr>ip_dnrequests := dn\<rparr>) =
      (if ie_request en = 0 then dn_requests port else (dn_requests port)(ie_request en := None))"
    "so = None \<longleftrightarrow> ie_request en = 0" "marequest_wf st'"
    "marequest_of st' =
      (if ie_bits en AND IE_BITS_MAREQUEST = 0 then marequest_of st else (marequest_of st)((s, n) := None))"
    "balanced 1 MACH_MSG_TYPE_PORT_SEND (IO_PORT p) st st'"
proof -
  obtain pe: "port_entry_ok n st en p port" "mar_ok s n st en" "0 < ip_srights port"
    using assms(5) by cases (use assms(6-9) in \<open>auto simp: port_entry_ok_def\<close>)
  have nm: "used s n st" "ie_name en = n" using right_of_names [OF assms(1,4)] assms(6) by simp_all
  obtain so st1 dn where c: "copyin_last_send s n n p (ie_bits en) st = Some (so, st1)"
    "entry_now s n (en\<lparr>ie_request := 0\<rparr>) st st1" "rev_in s st1 = (rev_in s st)(p := None)"
    "k_ports st1 = (k_ports st)(p \<mapsto> port\<lparr>ip_dnrequests := dn\<rparr>)" "dn_port_wf (port\<lparr>ip_dnrequests := dn\<rparr>)"
    "dn_requests (port\<lparr>ip_dnrequests := dn\<rparr>) =
      (if ie_request en = 0 then dn_requests port else (dn_requests port)(ie_request en := None))"
    "so = None \<longleftrightarrow> ie_request en = 0" "marequest_wf st1"
    "marequest_of st1 =
      (if ie_bits en AND IE_BITS_MAREQUEST = 0 then marequest_of st else (marequest_of st)((s, n) := None))"
    using copyin_last_send_ok [OF assms(1,3,4) pe(2) assms(6) pe(1) assms(9)] that by blast
  note n1 = entry_nowD [OF c(2)]
  let ?f = "\<lambda>e. e\<lparr>ie_object := IO_NULL\<rparr>" and ?g = "\<lambda>e. e\<lparr>ie_bits := sendless (ie_bits en)\<rparr>"
  let ?st2 = "upd_entry s n ?f st1"
  let ?st3 = "upd_entry s n ?g ?st2"
  have u: "map_option (ie_name \<circ> ?f) (entry_in s n st1) = Some n" using n1(3) nm by simp
  note uf = upd_entry_ok [OF n1(1) _ u]
  have used1: "used s n st1" using n1(2) nm by simp
  have u2: "map_option (ie_name \<circ> ?g) (entry_in s n ?st2) = Some n" using n1(3) nm uf(5) [OF used1] by simp
  note ug = upd_entry_ok [OF uf(2) [OF used1] _ u2]
  have used2: "used s n ?st2" using used1 uf(3) by simp
  let ?en = "en\<lparr>ie_request := 0, ie_object := IO_NULL, ie_bits := sendless (ie_bits en)\<rparr>"
  have e: "copyin_move_send s n n deadok st = Some (KERN_SUCCESS, IO_PORT p, so, ?st3)"
    using assms pe ipc_right_check_live [OF assms(1,4) pe(1) assms(9)] send_tests [OF assms(6)] c(1)
      uf(1) [OF used1] ug(1) [OF used2]
    by (simp add: copyin_move_send_def obj_port_def)
  have "entry_now s n (?f (en\<lparr>ie_request := 0\<rparr>)) st1 ?st2" "entry_now s n (?g (?f (en\<lparr>ie_request := 0\<rparr>))) ?st2 ?st3"
    using entry_now_upd [OF n1(1) used1, of "en\<lparr>ie_request := 0\<rparr>" ?f] n1(3) nm
      entry_now_upd [OF uf(2) [OF used1] used2, of "?f (en\<lparr>ie_request := 0\<rparr>)" ?g] uf(5) [OF used1] by simp_all
  then have now: "entry_now s n ?en st ?st3"
    using entry_now_trans [OF c(2)] entry_now_trans by (metis (no_types, lifting))
  have b: "balanced 1 MACH_MSG_TYPE_PORT_SEND (IO_PORT p) st ?st3"
    using send_tests [OF assms(6)] c(4)
    by (intro balanced_live [where port' = "port\<lparr>ip_dnrequests := dn\<rparr>", OF assms(2,1,4) now assms(7,8)])
      (use assms in \<open>simp_all add: holds_def msg_types\<close>)
  have "marequest_of ?st3 = marequest_of st1" "marequest_wf ?st3 = marequest_wf st1"
    by (rule marequest_cong; simp)+
  with e now b show thesis
    using that [of so ?st3 dn] c uf(4) [OF used1] ug(4) [OF used2] by simp
qed

lemma copyin_move_send_once_live:
  assumes "space_ok s st" "spaces_ok st" "entry_in s n st = Some en" "right_ok s n st en"
    "IE_BITS_TYPE (ie_bits en) = MACH_PORT_TYPE_SEND_ONCE" "ie_object en = IO_PORT p" "k_ports st p = Some port"
    "ip_active port"
  obtains so st' dn where "copyin_move_send_once s n n deadok st = Some (KERN_SUCCESS, IO_PORT p, so, st')"
    "entry_now s n (en\<lparr>ie_request := 0, ie_object := IO_NULL,
        ie_bits := ie_bits en AND NOT MACH_PORT_TYPE_SEND_ONCE\<rparr>) st st'"
    "rev_in s st' = rev_in s st"
    "k_ports st' = (k_ports st)(p \<mapsto> port\<lparr>ip_dnrequests := dn\<rparr>)" "dn_port_wf (port\<lparr>ip_dnrequests := dn\<rparr>)"
    "dn_requests (port\<lparr>ip_dnrequests := dn\<rparr>) =
      (if ie_request en = 0 then dn_requests port else (dn_requests port)(ie_request en := None))"
    "so = None \<longleftrightarrow> ie_request en = 0" "marequest_of st' = marequest_of st" "marequest_wf st' = marequest_wf st"
    "balanced 1 MACH_MSG_TYPE_PORT_SEND_ONCE (IO_PORT p) st st'"
proof -
  note tests = send_once_tests [OF assms(5)]
  obtain pe: "port_entry_ok n st en p port" "0 < ip_sorights port" "IE_BITS_UREFS (ie_bits en) = 1"
    "ie_bits en AND IE_BITS_MAREQUEST = 0"
    using assms(4) by cases (use assms(5-8) in \<open>auto simp: port_entry_ok_def\<close>)
  have nm: "used s n st" "ie_name en = n" using right_of_names [OF assms(1,3)] assms(5) by simp_all
  obtain so st1 dn where c: "ipc_right_dncancel_macro s p n n st = Some (so, st1)"
    "entry_now s n (en\<lparr>ie_request := 0\<rparr>) st st1" "rev_in s st1 = rev_in s st"
    "k_ports st1 = (k_ports st)(p \<mapsto> port\<lparr>ip_dnrequests := dn\<rparr>)" "dn_port_wf (port\<lparr>ip_dnrequests := dn\<rparr>)"
    "dn_requests (port\<lparr>ip_dnrequests := dn\<rparr>) =
      (if ie_request en = 0 then dn_requests port else (dn_requests port)(ie_request en := None))"
    "so = None \<longleftrightarrow> ie_request en = 0"
    "k_marequests st1 = k_marequests st" "k_marequest_table st1 = k_marequest_table st"
    using dncancel_ok [OF assms(1) nm(1) assms(3) nm(2) pe(1) assms(8)] by (elim exE conjE) (rule that)
  note n1 = entry_nowD [OF c(2)]
  let ?f = "\<lambda>e. e\<lparr>ie_object := IO_NULL, ie_bits := ie_bits en AND NOT MACH_PORT_TYPE_SEND_ONCE\<rparr>"
  let ?st2 = "upd_entry s n ?f st1"
  have used1: "used s n st1" using n1(2) nm by simp
  have u: "map_option (ie_name \<circ> ?f) (entry_in s n st1) = Some n" using n1(3) nm by simp
  note uf = upd_entry_ok [OF n1(1) used1 u]
  have e: "copyin_move_send_once s n n deadok st = Some (KERN_SUCCESS, IO_PORT p, so, ?st2)"
    using assms pe ipc_right_check_live [OF assms(1,3) pe(1) assms(8)] tests c(1) uf(1)
    by (simp add: copyin_move_send_once_def obj_port_def)
  have "entry_now s n (?f (en\<lparr>ie_request := 0\<rparr>)) st1 ?st2"
    using entry_now_upd [OF n1(1) used1, of "en\<lparr>ie_request := 0\<rparr>" ?f] n1(3) nm by simp
  with c(2) have now: "entry_now s n (en\<lparr>ie_request := 0, ie_object := IO_NULL,
      ie_bits := ie_bits en AND NOT MACH_PORT_TYPE_SEND_ONCE\<rparr>) st ?st2"
    using entry_now_trans by fastforce
  have b: "balanced 1 MACH_MSG_TYPE_PORT_SEND_ONCE (IO_PORT p) st ?st2"
    using tests c(4)
    by (intro balanced_live [where port' = "port\<lparr>ip_dnrequests := dn\<rparr>", OF assms(2,1,3) now assms(6,7)])
      (use assms in \<open>simp_all add: holds_def msg_types\<close>)
  have "marequest_of ?st2 = marequest_of st" "marequest_wf ?st2 = marequest_wf st"
    using c(8,9) by (intro marequest_cong; simp)+
  with e now b show thesis
    using that [of so ?st2 dn] c uf(4) by simp
qed

section \<open>Copyin of dead names\<close>

text \<open>The entry after one user reference of a dead name was moved out.\<close>

definition moved_dead :: "ipc_entry \<Rightarrow> ipc_entry" where
  "moved_dead en = en\<lparr>ie_bits := if IE_BITS_UREFS (ie_bits en) = 1 then ie_bits en AND NOT MACH_PORT_TYPE_DEAD_NAME
                                 else ie_bits en - 1\<rparr>"

definition dead_right :: "ipc_entry \<Rightarrow> bool" where
  "dead_right en = (IE_BITS_TYPE (ie_bits en) = MACH_PORT_TYPE_DEAD_NAME \<and> 0 < IE_BITS_UREFS (ie_bits en) \<and>
     ie_object en = IO_NULL \<and> ie_request en = 0 \<and> ie_bits en AND IE_BITS_MAREQUEST = 0)"

lemma copyin_copy_dead_ok:
  assumes "entry_in s n st = Some en" "dead_right en"
  shows "copyin_copy_dead s n deadok st =
    Some (if deadok then (KERN_SUCCESS, IO_DEAD, None, st) else (KERN_INVALID_RIGHT, IO_NULL, None, st))"
  using assms by (simp add: copyin_copy_dead_def copyin_assert_dead_def dead_right_def)

lemma copyin_move_dead_ok:
  assumes "space_ok s st" "entry_in s n st = Some en" "dead_right en"
  obtains st' where "copyin_move_dead s n deadok st =
      Some (if deadok then (KERN_SUCCESS, IO_DEAD, None, st') else (KERN_INVALID_RIGHT, IO_NULL, None, st))"
    "entry_now s n (moved_dead en) st st'" "rev_in s st' = rev_in s st" "k_ports st' = k_ports st"
    "marequest_of st' = marequest_of st" "marequest_wf st' = marequest_wf st"
proof -
  have nm: "used s n st" "ie_name en = n"
    using right_of_names [OF assms(1,2)] assms(3) by (simp_all add: dead_right_def)
  let ?f = "\<lambda>e. e\<lparr>ie_bits := if IE_BITS_UREFS (ie_bits en) = 1 then ie_bits en AND NOT MACH_PORT_TYPE_DEAD_NAME
                                 else ie_bits en - 1\<rparr>"
  have u: "map_option (ie_name \<circ> ?f) (entry_in s n st) = Some n" using assms nm by simp
  note uf = upd_entry_ok [OF assms(1) nm(1) u]
  have "entry_now s n (moved_dead en) st (upd_entry s n ?f st)"
    using entry_now_upd [OF assms(1) nm(1) assms(2), of ?f] nm unfolding moved_dead_def by simp
  moreover have "copyin_move_dead s n deadok st =
      Some (if deadok then (KERN_SUCCESS, IO_DEAD, None, upd_entry s n ?f st) else (KERN_INVALID_RIGHT, IO_NULL, None, st))"
    using assms uf(1) by (simp add: copyin_move_dead_def copyin_assert_dead_def dead_right_def Let_def)
  moreover have "marequest_of (upd_entry s n ?f st) = marequest_of st" "marequest_wf (upd_entry s n ?f st) = marequest_wf st"
    by (rule marequest_cong; simp)+
  ultimately show thesis using that uf(4) by simp
qed

lemma dead_entry_dead:
  assumes "IE_BITS_UREFS (ie_bits en) < MACH_PORT_UREFS_MAX" "0 < IE_BITS_UREFS (ie_bits en)"
  shows "dead_right (dead_entry en)"
proof -
  have "0 < IE_BITS_UREFS (ie_bits en) + ind (ie_request en \<noteq> 0)"
    using assms word_less_succ(1) [OF assms(1)] by (simp add: ind_def word_gt_0)
  then show ?thesis
    using dead_bits_fields [OF assms(1)] by (simp add: dead_right_def dead_entry_def)
qed

section \<open>Copyin of a receive right\<close>

definition clear_ok :: "kernel \<Rightarrow> ipc_port \<Rightarrow> bool" where
  "clear_ok st port =
     (case ip_pset port of
        None \<Rightarrow> set (imq_threads (ip_messages port)) \<subseteq> dom (k_threads st)
      | Some q \<Rightarrow> imq_threads (ip_messages port) = [] \<and> (\<exists>pset. k_psets st q = Some pset \<and> ips_references pset \<noteq> 1))"

lemma pset_view_set_port [simp]: "pset_view (set_port p port st) = pset_view st"
  by (rule pset_view_cong) simp

lemma clear_ok_cong:
  "k_threads st' = k_threads st \<Longrightarrow> k_psets st' = k_psets st \<Longrightarrow> ip_pset port' = ip_pset port \<Longrightarrow>
   ip_messages port' = ip_messages port \<Longrightarrow> clear_ok st' port' = clear_ok st port"
  by (simp add: clear_ok_def split: option.splits)

lemma ipc_port_clear_receiver_ok:
  assumes "k_ports st p = Some port" "ip_active port" "clear_ok st port"
  obtains st' port' where "ipc_port_clear_receiver p st = Some st'" "k_ports st' = (k_ports st)(p \<mapsto> port')"
    "ip_references port' = ip_references port" "ip_bits port' = ip_bits port" "ip_srights port' = ip_srights port"
    "ip_sorights port' = ip_sorights port" "ip_dnrequests port' = ip_dnrequests port" "ip_mscount port' = 0"
    "ip_pset port' = None"
    "k_spaces st' = k_spaces st" "k_mem st' = k_mem st" "pset_view st' = pset_view st"
    "k_marequests st' = k_marequests st" "k_marequest_table st' = k_marequest_table st"
proof (cases "ip_pset port")
  case None
  let ?port = "port\<lparr>ip_messages := (ip_messages port)\<lparr>imq_threads := []\<rparr>, ip_mscount := 0, ip_seqno := 0\<rparr>"
  let ?T = "woken MACH_RCV_PORT_DIED (imq_threads (ip_messages port)) (k_threads st)"
  have "set (imq_threads (ip_messages port)) \<subseteq> dom (k_threads st)" using assms(3) None by (simp add: clear_ok_def)
  then have c: "ipc_mqueue_changed (MQ_port p) MACH_RCV_PORT_DIED st =
      Some (set_port p (port\<lparr>ip_messages := (ip_messages port)\<lparr>imq_threads := []\<rparr>\<rparr>) (st\<lparr>k_threads := ?T\<rparr>))"
    using assms(1) by (subst ipc_mqueue_changed_eq [where mqueue = "ip_messages port"]) simp_all
  show thesis
    by (rule that [of "set_port p ?port (st\<lparr>k_threads := ?T\<rparr>)" ?port])
      (use assms None c in \<open>simp_all add: ipc_port_clear_receiver_def ipc_port_set_mscount_def pset_view_def fun_eq_iff\<close>)
next
  case (Some q)
  then obtain pset where q: "k_psets st q = Some pset" "ips_references pset \<noteq> 1" "imq_threads (ip_messages port) = []"
    using assms(3) by (auto simp: clear_ok_def)
  note r = ipc_pset_remove_ok [OF assms(1,2) Some q(1,3)]
  let ?port = "port\<lparr>ip_pset := None, ip_cur_target := T_port, ip_messages :=
      \<lparr>imq_messages = imq_messages (ip_messages port) @ filter (for_port p) (imq_messages (ips_messages pset)),
       imq_threads = []\<rparr>, ip_mscount := 0, ip_seqno := 0\<rparr>"
  let ?pset = "pset\<lparr>ips_references := ips_references pset - 1, ips_messages := (ips_messages pset)
      \<lparr>imq_messages := filter (\<lambda>m. \<not> for_port p m) (imq_messages (ips_messages pset))\<rparr>\<rparr>"
  show thesis
    by (rule that [of "set_port p ?port (set_pset q ?pset st)" ?port])
      (use assms Some q r in \<open>simp_all add: ipc_port_clear_receiver_def ipc_port_set_mscount_def ips_check_unlock_def
        pset_view_def fun_eq_iff\<close>)
qed

text \<open>The end of the copyin of a receive right: the entry loses the type, the port its receiver.\<close>

lemma copyin_receive_end:
  assumes "space_ok s st" "used s n st" "entry_in s n st = Some en" "ie_name en = n"
    "k_ports st p = Some port" "ip_active port" "clear_ok st port"
  obtains st' port' where
    "do { st \<leftarrow> set_entry_in s n (\<lambda>en. en\<lparr>ie_bits := bits AND NOT MACH_PORT_TYPE_RECEIVE\<rparr>) st;
          st \<leftarrow> ipc_port_clear_receiver p st;
          port \<leftarrow> k_ports st p;
          let port = port\<lparr>ip_receiver_name := MACH_PORT_NAME_NULL, ip_data := D_destination None\<rparr>;
          Some (KERN_SUCCESS, IO_PORT p, so, set_port p (ipc_port_flag_protected_payload_clear port) st) } =
     Some (KERN_SUCCESS, IO_PORT p, so, st')"
    "entry_now s n (en\<lparr>ie_bits := bits AND NOT MACH_PORT_TYPE_RECEIVE\<rparr>) st st'" "rev_in s st' = rev_in s st"
    "k_ports st' = (k_ports st)(p \<mapsto> port')" "ip_active port'"
    "ip_references port' = ip_references port" "ip_srights port' = ip_srights port"
    "ip_sorights port' = ip_sorights port" "ip_dnrequests port' = ip_dnrequests port"
    "ip_data port' = D_destination None" "ip_receiver_name port' = MACH_PORT_NAME_NULL" "ip_mscount port' = 0"
    "marequest_of st' = marequest_of st" "marequest_wf st' = marequest_wf st"
proof -
  let ?f = "\<lambda>e. e\<lparr>ie_bits := bits AND NOT MACH_PORT_TYPE_RECEIVE\<rparr>"
  let ?st1 = "upd_entry s n ?f st"
  have u: "map_option (ie_name \<circ> ?f) (entry_in s n st) = Some n" using assms by simp
  note uf = upd_entry_ok [OF assms(1,2) u]
  have "k_ports ?st1 p = Some port" "clear_ok ?st1 port" using assms clear_ok_cong [of ?st1 st port port] by simp_all
  from ipc_port_clear_receiver_ok [OF this(1) assms(6) this(2)]
  obtain st2 port2 where c: "ipc_port_clear_receiver p ?st1 = Some st2" "k_ports st2 = (k_ports ?st1)(p \<mapsto> port2)"
    "ip_references port2 = ip_references port" "ip_bits port2 = ip_bits port" "ip_srights port2 = ip_srights port"
    "ip_sorights port2 = ip_sorights port" "ip_dnrequests port2 = ip_dnrequests port" "ip_mscount port2 = 0"
    "k_spaces st2 = k_spaces ?st1" "k_mem st2 = k_mem ?st1" "pset_view st2 = pset_view ?st1"
    "k_marequests st2 = k_marequests ?st1" "k_marequest_table st2 = k_marequest_table ?st1" by blast
  let ?port = "ipc_port_flag_protected_payload_clear
      (port2\<lparr>ip_receiver_name := MACH_PORT_NAME_NULL, ip_data := D_destination None\<rparr>)"
  let ?st3 = "set_port p ?port st2"
  note v = view_cong [of st2 s ?st1, unfolded c(9)]
  have "entry_now s n (?f en) st ?st1" by (rule entry_now_upd [OF assms(1-3)]) (simp add: assms)
  then have now: "entry_now s n (?f en) st ?st3"
    using c(9-11) v by (simp add: entry_now_def)
  have ma: "marequest_of ?st3 = marequest_of st" "marequest_wf ?st3 = marequest_wf st"
    using c(12,13) by (intro marequest_cong; simp)+
  have act: "ip_active ?port" using c(4) assms(6) by (simp add: ipc_port_flag_protected_payload_clear_def)
  show thesis
    by (rule that [of ?st3 ?port]) (use uf(1,4) c now v ma act in simp_all)
qed

lemma copyin_move_receive_ok:
  assumes "space_ok s st" "spaces_ok st" "marequest_wf st" "entry_in s n st = Some en" "right_ok s n st en"
    "ie_bits en AND MACH_PORT_TYPE_RECEIVE \<noteq> 0" "ie_object en = IO_PORT p" "k_ports st p = Some port"
    "k_mem st = []" "rev_in s st p = None" "clear_ok st port"
  defines "both \<equiv> IE_BITS_TYPE (ie_bits en) = MACH_PORT_TYPE_SEND_RECEIVE"
  obtains so st' port' where "copyin_move_receive s n n st = Some (KERN_SUCCESS, IO_PORT p, so, st')"
    "entry_now s n (if both then en\<lparr>ie_bits := ie_bits en AND NOT MACH_PORT_TYPE_RECEIVE\<rparr>
       else en\<lparr>ie_request := 0, ie_object := IO_NULL, ie_bits := ie_bits en AND NOT MACH_PORT_TYPE_RECEIVE\<rparr>) st st'"
    "rev_in s st' = (if both then (rev_in s st)(p \<mapsto> n) else rev_in s st)"
    "k_ports st' = (k_ports st)(p \<mapsto> port')" "ip_active port'"
    "ip_references port' = (if both then ip_references port + 1 else ip_references port)"
    "ip_srights port' = ip_srights port" "ip_sorights port' = ip_sorights port"
    "ip_data port' = D_destination None" "ip_receiver_name port' = MACH_PORT_NAME_NULL" "ip_mscount port' = 0"
    "dn_port_wf port'" "dn_requests port' =
      (if both \<or> ie_request en = 0 then dn_requests port else (dn_requests port)(ie_request en := None))"
    "so = None \<longleftrightarrow> both \<or> ie_request en = 0" "marequest_wf st'"
    "marequest_of st' =
      (if both \<or> ie_bits en AND IE_BITS_MAREQUEST = 0 then marequest_of st else (marequest_of st)((s, n) := None))"
proof (cases both)
  case True
  note both = True [unfolded both_def] and tests = send_receive_tests [OF True [unfolded both_def]]
  obtain pe: "port_entry_ok n st en p port" "receiver_ok s n port" "0 < ip_srights port" "0 < IE_BITS_UREFS (ie_bits en)"
    using assms(5) by cases (use both assms(7,8) in \<open>auto simp: port_entry_ok_def\<close>)
  have nm: "used s n st" "ie_name en = n" using right_of_names [OF assms(1,4)] both by simp_all
  let ?f = "\<lambda>e. e\<lparr>ie_name := n\<rparr>"
  let ?st1 = "upd_entry s n ?f st"
  have u: "map_option (ie_name \<circ> ?f) (entry_in s n st) = Some n" using assms(4) by simp
  note uf = upd_entry_ok [OF assms(1) nm(1) u]
  have en1: "entry_in s n ?st1 = Some en" using uf(5) assms(4) nm(2) by auto
  have p64: "p < 2 ^ 64" using pe(1) by (simp add: port_entry_ok_def)
  have "k_mem ?st1 = []" "rev_in s ?st1 p = None" using assms(9,10) uf(4) by simp_all
  note ri = upd_rev_insert_ok [OF uf(2) this p64, where e = n]
  let ?st2 = "upd_rev_insert s p n ?st1"
  let ?port3 = "port\<lparr>ip_references := ip_references port + 1\<rparr>"
  let ?st3 = "set_port p ?port3 ?st2"
  have "clear_ok ?st3 ?port3" using assms(11) clear_ok_cong [of ?st3 st ?port3 port] by simp
  moreover have s3: "space_ok s ?st3" "used s n ?st3" "entry_in s n ?st3 = Some en"
    using ri uf nm en1 by simp_all
  ultimately obtain st' port' where e:
    "do { st \<leftarrow> set_entry_in s n (\<lambda>e. e\<lparr>ie_bits := ie_bits en AND NOT MACH_PORT_TYPE_RECEIVE\<rparr>) ?st3;
          st \<leftarrow> ipc_port_clear_receiver p st;
          port \<leftarrow> k_ports st p;
          let port = port\<lparr>ip_receiver_name := MACH_PORT_NAME_NULL, ip_data := D_destination None\<rparr>;
          Some (KERN_SUCCESS, IO_PORT p, None, set_port p (ipc_port_flag_protected_payload_clear port) st) } =
     Some (KERN_SUCCESS, IO_PORT p, None :: port_id option, st')"
    "entry_now s n (en\<lparr>ie_bits := ie_bits en AND NOT MACH_PORT_TYPE_RECEIVE\<rparr>) ?st3 st'" "rev_in s st' = rev_in s ?st3"
    "k_ports st' = (k_ports ?st3)(p \<mapsto> port')" "ip_active port'"
    "ip_references port' = ip_references ?port3" "ip_srights port' = ip_srights ?port3"
    "ip_sorights port' = ip_sorights ?port3" "ip_dnrequests port' = ip_dnrequests ?port3"
    "ip_data port' = D_destination None" "ip_receiver_name port' = MACH_PORT_NAME_NULL" "ip_mscount port' = 0"
    "marequest_of st' = marequest_of ?st3" "marequest_wf st' = marequest_wf ?st3"
    using copyin_receive_end [OF s3 nm(2), of p ?port3 "ie_bits en" "None :: port_id option"] pe(2) assms(8)
    by (simp add: receiver_ok_def) blast
  have "entry_now s n en st ?st3"
    using ri uf en1 assms(4,9) nm(2) by (auto simp: entry_now_def pset_view_def fun_eq_iff)
  then have now: "entry_now s n (en\<lparr>ie_bits := ie_bits en AND NOT MACH_PORT_TYPE_RECEIVE\<rparr>) st st'"
    using e(2) by (rule entry_now_trans)
  have ma: "marequest_of ?st3 = marequest_of st" "marequest_wf ?st3 = marequest_wf st"
    by (rule marequest_cong; simp)+
  have c: "copyin_move_receive s n n st = Some (KERN_SUCCESS, IO_PORT p, None, st')"
    by (rule trans [OF _ e(1)]) (use assms(4,7,8) both tests pe uf(1) ri(1) in
      \<open>simp add: copyin_move_receive_def obj_port_def assert_receiver_def receiver_ok_def ip_reference_def\<close>)
  have dn: "dn_port_wf port'" "dn_requests port' = dn_requests port"
    using e(9) pe(1,2) by (simp_all add: port_entry_ok_def receiver_ok_def dn_port_wf_def dn_requests_def)
  show thesis
    by (rule that [of None st' port']) (use True c now e dn ma ri(4) uf(4) assms(3) in simp_all)
next
  case False
  then have one: "IE_BITS_TYPE (ie_bits en) = MACH_PORT_TYPE_RECEIVE" "IE_BITS_UREFS (ie_bits en) = 0"
    using receive_port [OF assms(5,6)] both_def by metis+
  note tests = receive_tests [OF one(1)]
  obtain pe: "port_entry_ok n st en p port" "receiver_ok s n port" "mar_ok s n st en"
    using assms(5) by cases (use one assms(7,8) in \<open>auto simp: port_entry_ok_def\<close>)
  have nm: "used s n st" "ie_name en = n" using right_of_names [OF assms(1,4)] one by simp_all
  have act: "ip_active port" using pe(2) by (simp add: receiver_ok_def)
  obtain so st1 dn where c: "ipc_right_dncancel_macro s p n n st = Some (so, st1)"
    "entry_now s n (en\<lparr>ie_request := 0\<rparr>) st st1" "rev_in s st1 = rev_in s st"
    "k_ports st1 = (k_ports st)(p \<mapsto> port\<lparr>ip_dnrequests := dn\<rparr>)" "dn_port_wf (port\<lparr>ip_dnrequests := dn\<rparr>)"
    "dn_requests (port\<lparr>ip_dnrequests := dn\<rparr>) =
      (if ie_request en = 0 then dn_requests port else (dn_requests port)(ie_request en := None))"
    "so = None \<longleftrightarrow> ie_request en = 0"
    "k_marequests st1 = k_marequests st" "k_marequest_table st1 = k_marequest_table st"
    "k_threads st1 = k_threads st" "k_psets st1 = k_psets st"
    using dncancel_ok [OF assms(1) nm(1) assms(4) nm(2) pe(1) act] by (elim exE conjE) (rule that)
  note n1 = entry_nowD [OF c(2)] and ma1 = marequest_cong [OF c(8,9)]
  have "mar_ok s n st1 en" using pe(3) ma1 by (simp add: mar_ok_def)
  note mc = mar_cancelled_ok [OF _ n1(1) this]
  have mw: "marequest_wf st1" using ma1 assms(3) by simp
  let ?m = "mar_cancelled s n en st1"
  note vm = view_cong [of ?m s st1, unfolded mc(5) [OF mw]]
  have m: "space_ok s ?m" "used s n ?m" "entry_in s n ?m = Some (en\<lparr>ie_request := 0\<rparr>)"
    using vm n1 nm by simp_all
  let ?f = "\<lambda>e. e\<lparr>ie_object := IO_NULL\<rparr>"
  have u: "map_option (ie_name \<circ> ?f) (entry_in s n ?m) = Some n" using m(3) nm by simp
  note uf = upd_entry_ok [OF m(1,2) u]
  let ?st2 = "upd_entry s n ?f ?m"
  let ?port2 = "port\<lparr>ip_dnrequests := dn\<rparr>"
  have "clear_ok ?st2 ?port2" using assms(11) c(10,11) mc(8,9) [OF mw] clear_ok_cong [of ?st2 st ?port2 port] by simp
  moreover have s2: "space_ok s ?st2" "used s n ?st2" "entry_in s n ?st2 = Some (en\<lparr>ie_request := 0, ie_object := IO_NULL\<rparr>)"
    using uf m by simp_all
  moreover have p2: "k_ports ?st2 p = Some ?port2" using c(4) mc(6) [OF mw] by simp
  ultimately obtain st' port' where e:
    "do { st \<leftarrow> set_entry_in s n (\<lambda>e. e\<lparr>ie_bits := ie_bits en AND NOT MACH_PORT_TYPE_RECEIVE\<rparr>) ?st2;
          st \<leftarrow> ipc_port_clear_receiver p st;
          port \<leftarrow> k_ports st p;
          let port = port\<lparr>ip_receiver_name := MACH_PORT_NAME_NULL, ip_data := D_destination None\<rparr>;
          Some (KERN_SUCCESS, IO_PORT p, so, set_port p (ipc_port_flag_protected_payload_clear port) st) } =
     Some (KERN_SUCCESS, IO_PORT p, so, st')"
    "entry_now s n (en\<lparr>ie_request := 0, ie_object := IO_NULL, ie_bits := ie_bits en AND NOT MACH_PORT_TYPE_RECEIVE\<rparr>) ?st2 st'"
    "rev_in s st' = rev_in s ?st2"
    "k_ports st' = (k_ports ?st2)(p \<mapsto> port')" "ip_active port'"
    "ip_references port' = ip_references ?port2" "ip_srights port' = ip_srights ?port2"
    "ip_sorights port' = ip_sorights ?port2" "ip_dnrequests port' = ip_dnrequests ?port2"
    "ip_data port' = D_destination None" "ip_receiver_name port' = MACH_PORT_NAME_NULL" "ip_mscount port' = 0"
    "marequest_of st' = marequest_of ?st2" "marequest_wf st' = marequest_wf ?st2"
    using copyin_receive_end [OF s2 _ p2, of "ie_bits en" so] act nm(2)
    by simp blast
  have "entry_now s n (en\<lparr>ie_request := 0, ie_object := IO_NULL\<rparr>) ?m ?st2"
    using entry_now_upd [OF m, of ?f] nm(2) by simp
  moreover have "entry_now s n (en\<lparr>ie_request := 0\<rparr>) st1 ?m"
    using m(3) n1(3) by (intro entry_now_same n1(1)) (simp_all add: mc(5,7,8) [OF mw])
  ultimately have now: "entry_now s n (en\<lparr>ie_request := 0, ie_object := IO_NULL,
      ie_bits := ie_bits en AND NOT MACH_PORT_TYPE_RECEIVE\<rparr>) st st'"
    using c(2) e(2) entry_now_trans by (metis (no_types, lifting))
  have ma: "marequest_of ?st2 = marequest_of ?m" "marequest_wf ?st2 = marequest_wf ?m"
    by (rule marequest_cong; simp)+
  have cr: "copyin_move_receive s n n st = Some (KERN_SUCCESS, IO_PORT p, so, st')"
    by (rule trans [OF _ e(1)], cases "ie_bits en AND IE_BITS_MAREQUEST = 0")
      (use assms(4,7,8) one tests pe c(1) mc(1,2) [OF mw] uf(1) in
        \<open>simp_all add: copyin_move_receive_def obj_port_def assert_receiver_def receiver_ok_def Let_def\<close>)
  have dn: "dn_port_wf port'" "dn_requests port' = dn_requests ?port2"
    using e(9) c(5) by (simp_all add: dn_port_wf_def dn_requests_def)
  show thesis
    by (rule that [of so st' port'])
      (use False cr now e dn c(3,4,6,7) ma ma1 mc(3,4,6) [OF mw] uf(4) vm in \<open>simp_all\<close>)
qed

section \<open>Copyin as a whole\<close>

text \<open>A right is dead if it is a dead name, or will be one as soon as its port is looked at.\<close>

definition right_dead :: "kernel \<Rightarrow> ipc_entry \<Rightarrow> bool" where
  "right_dead st en =
     (case ie_object en of
        IO_PORT p \<Rightarrow> (case k_ports st p of None \<Rightarrow> False | Some port \<Rightarrow> \<not> ip_active port)
      | _ \<Rightarrow> IE_BITS_TYPE (ie_bits en) = MACH_PORT_TYPE_DEAD_NAME)"

lemma balanced_null:
  assumes "spaces_ok st" "space_ok s st" "entry_in s n st = Some en" "entry_now s n en' st st'"
    "ie_object en = IO_NULL" "ie_object en' = IO_NULL" "k_ports st' = k_ports st" "obj = IO_NULL \<or> obj = IO_DEAD"
  shows "balanced d t obj st st'"
  by (rule balancedI [OF assms(1-4)])
    (use assms(5-8) in \<open>auto simp: no_holds references_of_def srights_of_def sorights_of_def\<close>)

text \<open>What the three ways to use a send right do if the right is dead, given \<^verbatim>\<open>copy_dead\<close> or \<^verbatim>\<open>move_dead\<close>.\<close>

definition use_dead :: "nat \<Rightarrow> space_id \<Rightarrow> nat \<Rightarrow> bool \<Rightarrow> kernel \<Rightarrow> copyin_result" where
  "use_dead msgt_name s n deadok st =
     (if msgt_name = MACH_MSG_TYPE_COPY_SEND then copyin_copy_dead s n deadok st else copyin_move_dead s n deadok st)"

lemma use_dead_ok:
  assumes "space_ok s st" "entry_in s n st = Some en" "dead_right en"
  obtains st' en' where "use_dead msgt_name s n deadok st =
      Some (if deadok then (KERN_SUCCESS, IO_DEAD, None, st') else (KERN_INVALID_RIGHT, IO_NULL, None, st'))"
    "entry_now s n en' st st'" "ie_object en' = IO_NULL" "k_ports st' = k_ports st"
    "en' = en \<or> en' = moved_dead en" "rev_in s st' = rev_in s st"
    "marequest_of st' = marequest_of st" "marequest_wf st' = marequest_wf st"
proof (cases "msgt_name = MACH_MSG_TYPE_COPY_SEND \<or> \<not> deadok")
  case True
  have "\<exists>st'. copyin_move_dead s n False st = Some (KERN_INVALID_RIGHT, IO_NULL, None, st)"
    using copyin_move_dead_ok [OF assms, of False] by auto
  then show thesis
    using True that [of st en] assms copyin_copy_dead_ok [OF assms(2,3)]
    by (auto simp: use_dead_def dead_right_def entry_now_refl)
next
  case False
  obtain st' where "copyin_move_dead s n deadok st =
      Some (if deadok then (KERN_SUCCESS, IO_DEAD, None, st') else (KERN_INVALID_RIGHT, IO_NULL, None, st))"
    "entry_now s n (moved_dead en) st st'" "rev_in s st' = rev_in s st" "k_ports st' = k_ports st"
    "marequest_of st' = marequest_of st" "marequest_wf st' = marequest_wf st"
    using copyin_move_dead_ok [OF assms] by blast
  then show thesis
    using False that [of st' "moved_dead en"] assms(3) by (simp add: use_dead_def dead_right_def moved_dead_def)
qed

definition send_use :: "nat \<Rightarrow> bool" where
  "send_use msgt_name = (msgt_name = MACH_MSG_TYPE_COPY_SEND \<or> msgt_name = MACH_MSG_TYPE_MOVE_SEND \<or>
     msgt_name = MACH_MSG_TYPE_MOVE_SEND_ONCE)"

definition receive_use :: "nat \<Rightarrow> bool" where
  "receive_use msgt_name = (msgt_name = MACH_MSG_TYPE_MAKE_SEND \<or> msgt_name = MACH_MSG_TYPE_MAKE_SEND_ONCE \<or>
     msgt_name = MACH_MSG_TYPE_MOVE_RECEIVE)"

lemma send_use_eqs:
  assumes "space_ok s st" "entry_in s n st = Some en" "send_use msgt_name"
  shows "ie_bits en AND MACH_PORT_TYPE_DEAD_NAME \<noteq> 0 \<Longrightarrow>
      ipc_right_copyin s n n msgt_name deadok st = use_dead msgt_name s n deadok st"
    and "ie_bits en AND MACH_PORT_TYPE_DEAD_NAME = 0 \<Longrightarrow> ie_bits en AND MACH_PORT_TYPE_SEND_RIGHTS = 0 \<Longrightarrow>
      ipc_right_copyin s n n msgt_name deadok st = Some (KERN_INVALID_RIGHT, IO_NULL, None, st)"
    and "ie_bits en AND MACH_PORT_TYPE_DEAD_NAME = 0 \<Longrightarrow> ie_bits en AND MACH_PORT_TYPE_SEND_RIGHTS \<noteq> 0 \<Longrightarrow>
      IE_BITS_UREFS (ie_bits en) > 0 \<Longrightarrow> ie_object en = IO_PORT p \<Longrightarrow> ipc_right_check s p n n st = Some (True, st1) \<Longrightarrow>
      ipc_right_copyin s n n msgt_name deadok st = use_dead msgt_name s n deadok st1"
  using assms by (auto simp: ipc_right_copyin_def send_use_def use_dead_def copyin_copy_send_def copyin_move_send_def
    copyin_move_send_once_def msg_types obj_port_def)

text \<open>A right whose port is dead.\<close>

lemma copyin_dead_port:
  assumes st: "space_ok s st" "spaces_ok st" "marequest_wf st" and en: "entry_in s n st = Some en" "right_ok s n st en"
    and p: "ie_object en = IO_PORT p" "k_ports st p = Some port" "\<not> ip_active port" and use: "send_use msgt_name"
  obtains kr obj st' en' where "ipc_right_copyin s n n msgt_name deadok st = Some (kr, obj, None, st')"
    "kr = (if deadok then KERN_SUCCESS else KERN_INVALID_RIGHT)" "obj = (if deadok then IO_DEAD else IO_NULL)"
    "entry_now s n en' st st'" "ie_object en' = IO_NULL" "en' = dead_entry en \<or> en' = moved_dead (dead_entry en)"
    "k_ports st' = released p port (k_ports st)" "marequest_wf st'"
    "rev_in s st' = (if IE_BITS_TYPE (ie_bits en) = MACH_PORT_TYPE_SEND then (rev_in s st)(p := None) else rev_in s st)"
    "marequest_of st' =
      (if ie_bits en AND IE_BITS_MAREQUEST = 0 then marequest_of st else (marequest_of st)((s, n) := None))"
    "balanced d t obj st st'"
proof -
  have ty: "(IE_BITS_TYPE (ie_bits en) = MACH_PORT_TYPE_SEND \<or> IE_BITS_TYPE (ie_bits en) = MACH_PORT_TYPE_SEND_ONCE) \<and>
      0 < IE_BITS_UREFS (ie_bits en) \<and> IE_BITS_UREFS (ie_bits en) < MACH_PORT_UREFS_MAX"
    using en(2) by cases (use p in \<open>auto simp: port_entry_ok_def receiver_ok_def MACH_PORT_UREFS_MAX_def\<close>)
  have tests: "ie_bits en AND MACH_PORT_TYPE_DEAD_NAME = 0" "ie_bits en AND MACH_PORT_TYPE_SEND_RIGHTS \<noteq> 0"
    "ie_bits en AND MACH_PORT_TYPE_PORT_RIGHTS \<noteq> 0"
    using ty send_tests send_once_tests by blast+
  obtain st1 where c: "ipc_right_check s p n n st = Some (True, st1)" "entry_now s n (dead_entry en) st st1"
    "k_ports st1 = released p port (k_ports st)" "marequest_wf st1"
    "marequest_of st1 =
      (if ie_bits en AND IE_BITS_MAREQUEST = 0 then marequest_of st else (marequest_of st)((s, n) := None))"
    "rev_in s st1 = (if IE_BITS_TYPE (ie_bits en) = MACH_PORT_TYPE_SEND then (rev_in s st)(p := None) else rev_in s st)"
    using ipc_right_check_dead [OF st(1,3) en p] by blast
  note n1 = entry_nowD [OF c(2)]
  have "entry_in s n st1 = Some (dead_entry en)" using n1(3) by simp
  then obtain st' en' where u: "use_dead msgt_name s n deadok st1 =
      Some (if deadok then (KERN_SUCCESS, IO_DEAD, None, st') else (KERN_INVALID_RIGHT, IO_NULL, None, st'))"
    "entry_now s n en' st1 st'" "ie_object en' = IO_NULL" "k_ports st' = k_ports st1"
    "en' = dead_entry en \<or> en' = moved_dead (dead_entry en)" "rev_in s st' = rev_in s st1"
    "marequest_of st' = marequest_of st1" "marequest_wf st' = marequest_wf st1"
    using use_dead_ok [OF n1(1) _ dead_entry_dead] ty by blast
  have now: "entry_now s n en' st st'" using c(2) u(2) by (rule entry_now_trans)
  let ?kr = "if deadok then KERN_SUCCESS else KERN_INVALID_RIGHT" and ?obj = "if deadok then IO_DEAD else IO_NULL"
  have b: "balanced d t ?obj st st'"
    by (rule balanced_dead [OF st(2,1) en(1) now p(1) tests(3) p(2,3)]) (use u c in simp_all)
  have e: "ipc_right_copyin s n n msgt_name deadok st = Some (?kr, ?obj, None, st')"
    using send_use_eqs(3) [OF st(1) en(1) use tests(1,2) _ p(1) c(1)] ty u(1) by simp
  show thesis
    by (rule that [OF e refl refl now u(3,5)]) (use u c b in simp_all)
qed

text \<open>
  The states in which the right \<open>en\<close>, that the name \<open>n\<close> denotes in space \<open>s\<close>, may be copied in: the
  invariants hold, and for a receive right the threads or the port set that the port is
  attached to exist, and the space has no separate send right for the port.
\<close>

definition copyin_pre :: "space_id \<Rightarrow> mach_port_name \<Rightarrow> ipc_entry \<Rightarrow> kernel \<Rightarrow> bool" where
  "copyin_pre s n en st =
     (space_ok s st \<and> spaces_ok st \<and> marequest_wf st \<and> k_mem st = [] \<and>
      right_of st (s, n) = Some en \<and> right_ok s n st en \<and>
      (\<forall>p port. ie_object en = IO_PORT p \<longrightarrow> k_ports st p = Some port \<longrightarrow> receiver_ok s n port \<longrightarrow>
         clear_ok st port \<and> rev_in s st p = None))"

lemma copyin_preD:
  assumes "copyin_pre s n en st"
  shows "space_ok s st" "spaces_ok st" "marequest_wf st" "k_mem st = []" "entry_in s n st = Some en"
    "right_ok s n st en" "IE_BITS_TYPE (ie_bits en) \<noteq> 0"
proof -
  show "space_ok s st" "spaces_ok st" "marequest_wf st" "k_mem st = []" "right_ok s n st en"
    using assms by (simp_all add: copyin_pre_def)
  with assms show "entry_in s n st = Some en" "IE_BITS_TYPE (ie_bits en) \<noteq> 0"
    using right_of_entry [of s st n] by (auto simp: copyin_pre_def split: option.splits if_splits)
qed

definition copyin_result :: "bool \<Rightarrow> bool \<Rightarrow> bool \<Rightarrow> kern_return \<Rightarrow> ipc_object \<Rightarrow> bool" where
  "copyin_result possible dead deadok kr obj =
     (if possible \<and> (dead \<longrightarrow> deadok) then kr = KERN_SUCCESS \<and> (if dead then obj = IO_DEAD else \<exists>p. obj = IO_PORT p)
      else kr = KERN_INVALID_RIGHT \<and> obj = IO_NULL)"

lemma receiveless_type:
  "IE_BITS_TYPE bits = MACH_PORT_TYPE_SEND_RECEIVE \<Longrightarrow>
   IE_BITS_TYPE (bits AND NOT MACH_PORT_TYPE_RECEIVE) = MACH_PORT_TYPE_SEND"
  by (simp only: type_and_not) (simp add: bits_values)

lemma balanced_move_receive:
  assumes "spaces_ok st" "space_ok s st" "entry_in s n st = Some en" "right_ok s n st en"
    "ie_bits en AND MACH_PORT_TYPE_RECEIVE \<noteq> 0" "ie_object en = IO_PORT p" "k_ports st p = Some port"
    "entry_now s n (if both then en\<lparr>ie_bits := ie_bits en AND NOT MACH_PORT_TYPE_RECEIVE\<rparr>
       else en\<lparr>ie_request := 0, ie_object := IO_NULL, ie_bits := ie_bits en AND NOT MACH_PORT_TYPE_RECEIVE\<rparr>) st st'"
    "k_ports st' = (k_ports st)(p \<mapsto> port')"
    "ip_references port' = (if both then ip_references port + 1 else ip_references port)"
    "ip_srights port' = ip_srights port" "ip_sorights port' = ip_sorights port"
    and both: "both \<longleftrightarrow> IE_BITS_TYPE (ie_bits en) = MACH_PORT_TYPE_SEND_RECEIVE"
  shows "balanced 1 MACH_MSG_TYPE_PORT_RECEIVE (IO_PORT p) st st'"
proof -
  have "IE_BITS_TYPE (ie_bits en) = (if both then MACH_PORT_TYPE_SEND_RECEIVE else MACH_PORT_TYPE_RECEIVE)"
    using receive_port [OF assms(4,5)] both by (metis (full_types))
  then show ?thesis
    using send_receive_tests [of "ie_bits en"] receive_tests [of "ie_bits en"]
      send_tests [OF receiveless_type [of "ie_bits en"]]
    by (intro balanced_live [where port' = port', OF assms(1-3,8,6,7,9)])
      (use assms(6,10-12) in \<open>cases both; simp add: holds_def msg_types\<close>)+
qed

lemma copyin_receive_use:
  assumes pre: "copyin_pre s n en st" and use: "receive_use msgt_name"
  obtains b kr obj so st' where "ipc_right_copyin_check s n n msgt_name st = Some b"
    "ipc_right_copyin s n n msgt_name deadok st = Some (kr, obj, so, st')"
    "copyin_result b (right_dead st en) deadok kr obj"
    "\<And>q. obj = IO_PORT q \<Longrightarrow> ie_object en = IO_PORT q"
    "balanced 1 (the (ipc_object_copyin_type msgt_name)) obj st st'"
proof -
  note st = copyin_preD [OF pre]
  have chk: "ipc_right_copyin_check s n n msgt_name st = Some (ie_bits en AND MACH_PORT_TYPE_RECEIVE \<noteq> 0)"
    using st use by (simp add: ipc_right_copyin_check_def receive_use_def)
  show thesis
  proof (cases "ie_bits en AND MACH_PORT_TYPE_RECEIVE = 0")
    case True
    then have "ipc_right_copyin s n n msgt_name deadok st = Some (KERN_INVALID_RIGHT, IO_NULL, None, st)"
      using st use by (auto simp: ipc_right_copyin_def receive_use_def copyin_make_send_def copyin_make_send_once_def
        copyin_move_receive_def)
    from that [OF chk this] True show thesis by (simp add: copyin_result_def balanced_refl)
  next
    case False
    obtain p port where p: "ie_object en = IO_PORT p" "k_ports st p = Some port" "receiver_ok s n port"
      using receive_port [OF st(6) False] by blast
    have live: "\<not> right_dead st en" using p by (simp add: right_dead_def receiver_ok_def)
    consider "msgt_name = MACH_MSG_TYPE_MAKE_SEND" | "msgt_name = MACH_MSG_TYPE_MAKE_SEND_ONCE"
      | "msgt_name = MACH_MSG_TYPE_MOVE_RECEIVE" using use by (auto simp: receive_use_def)
    then obtain so st' where r: "ipc_right_copyin s n n msgt_name deadok st = Some (KERN_SUCCESS, IO_PORT p, so, st')"
      "balanced 1 (the (ipc_object_copyin_type msgt_name)) (IO_PORT p) st st'"
    proof cases
      case 1
      then show thesis
        using copyin_make_send_ok [OF st(1,2,5,6) False] st(1) p that
        by (auto simp: ipc_right_copyin_def ipc_object_copyin_type_def msg_types)
    next
      case 2
      then show thesis
        using copyin_make_send_once_ok [OF st(1,2,5,6) False] st(1) p that
        by (auto simp: ipc_right_copyin_def ipc_object_copyin_type_def msg_types)
    next
      case 3
      have cl: "clear_ok st port" "rev_in s st p = None" using pre p by (simp_all add: copyin_pre_def)
      define both where "both \<longleftrightarrow> IE_BITS_TYPE (ie_bits en) = MACH_PORT_TYPE_SEND_RECEIVE"
      obtain so st' port' where r: "copyin_move_receive s n n st = Some (KERN_SUCCESS, IO_PORT p, so, st')"
        "entry_now s n (if both then en\<lparr>ie_bits := ie_bits en AND NOT MACH_PORT_TYPE_RECEIVE\<rparr>
          else en\<lparr>ie_request := 0, ie_object := IO_NULL, ie_bits := ie_bits en AND NOT MACH_PORT_TYPE_RECEIVE\<rparr>) st st'"
        "k_ports st' = (k_ports st)(p \<mapsto> port')"
        "ip_references port' = (if both then ip_references port + 1 else ip_references port)"
        "ip_srights port' = ip_srights port" "ip_sorights port' = ip_sorights port"
        by (rule copyin_move_receive_ok [OF st(1,2,3,5,6) False p(1,2) st(4) cl(2,1), folded both_def]) (rule that)
      have "balanced 1 MACH_MSG_TYPE_PORT_RECEIVE (IO_PORT p) st st'"
        by (rule balanced_move_receive [OF st(2,1,5,6) False p(1,2) r(2-6) both_def])
      then show thesis using 3 that r(1) st(1) by (simp add: ipc_right_copyin_def ipc_object_copyin_type_def msg_types)
    qed
    from that [OF chk r(1) _ _ r(2)] False p live show thesis by (simp add: copyin_result_def)
  qed
qed

lemma copyin_live_port:
  assumes pre: "copyin_pre s n en st" and p: "ie_object en = IO_PORT p" "k_ports st p = Some port" "ip_active port"
    and use: "send_use msgt_name"
  obtains b kr obj so st' where "ipc_right_copyin_check s n n msgt_name st = Some b"
    "ipc_right_copyin s n n msgt_name deadok st = Some (kr, obj, so, st')"
    "copyin_result b False deadok kr obj"
    "\<And>q. obj = IO_PORT q \<Longrightarrow> ie_object en = IO_PORT q"
    "balanced 1 (the (ipc_object_copyin_type msgt_name)) obj st st'"
proof -
  note st = copyin_preD [OF pre]
  obtain pe: "port_entry_ok n st en p port"
    using st(6) by cases (use p in \<open>auto simp: port_entry_ok_def\<close>)
  note check = ipc_right_check_live [OF st(1,5) pe p(3)]
  show thesis
  proof (cases "ie_bits en AND MACH_PORT_TYPE_SEND = 0 \<and> msgt_name \<noteq> MACH_MSG_TYPE_MOVE_SEND_ONCE \<or>
      ie_bits en AND MACH_PORT_TYPE_SEND_ONCE = 0 \<and> msgt_name = MACH_MSG_TYPE_MOVE_SEND_ONCE")
    case True
    have chk: "ipc_right_copyin_check s n n msgt_name st = Some False"
      using st(6) by cases (use st(1,5) p use True in
        \<open>auto simp: ipc_right_copyin_check_def send_use_def msg_types obj_port_def port_entry_ok_def
          send_tests receive_tests send_receive_tests send_once_tests\<close>)
    have "ipc_right_copyin s n n msgt_name deadok st = Some (KERN_INVALID_RIGHT, IO_NULL, None, st)"
      using st(6) by cases (use st(1,5) p use True check in
        \<open>auto simp: ipc_right_copyin_def copyin_copy_send_def copyin_move_send_def copyin_move_send_once_def send_use_def
          msg_types obj_port_def port_entry_ok_def send_tests receive_tests send_receive_tests send_once_tests\<close>)
    from that [OF chk this] show thesis by (simp add: copyin_result_def balanced_refl)
  next
    case False
    have chk: "ipc_right_copyin_check s n n msgt_name st = Some True"
      using st(6) by cases (use st(1,5) p use False in
        \<open>auto simp: ipc_right_copyin_check_def send_use_def msg_types obj_port_def port_entry_ok_def
          send_tests receive_tests send_receive_tests send_once_tests\<close>)
    obtain so st' where r: "ipc_right_copyin s n n msgt_name deadok st = Some (KERN_SUCCESS, IO_PORT p, so, st')"
      "balanced 1 (the (ipc_object_copyin_type msgt_name)) (IO_PORT p) st st'"
    proof (cases "msgt_name = MACH_MSG_TYPE_MOVE_SEND_ONCE")
      case True
      have "IE_BITS_TYPE (ie_bits en) = MACH_PORT_TYPE_SEND_ONCE"
        using st(6) by cases (use False True in \<open>auto simp: send_tests receive_tests send_receive_tests port_set_tests
          dead_name_tests\<close>)
      from copyin_move_send_once_live [OF st(1,2,5,6) this p] show thesis
        using that True st(1) by (auto simp: ipc_right_copyin_def ipc_object_copyin_type_def msg_types)
    next
      case other: False
      then have send: "ie_bits en AND MACH_PORT_TYPE_SEND \<noteq> 0" using False by blast
      then have ty: "IE_BITS_TYPE (ie_bits en) = MACH_PORT_TYPE_SEND \<or> IE_BITS_TYPE (ie_bits en) = MACH_PORT_TYPE_SEND_RECEIVE"
        using send_port [OF st(6)] by metis
      show thesis
      proof (cases "msgt_name = MACH_MSG_TYPE_COPY_SEND")
        case True
        with copyin_copy_send_live [OF st(1,2,5,6) send p] show thesis
          using that st(1) by (simp add: ipc_right_copyin_def ipc_object_copyin_type_def msg_types)
      next
        case False
        then have mv: "msgt_name = MACH_MSG_TYPE_MOVE_SEND" using use other by (simp add: send_use_def)
        obtain so st' where "copyin_move_send s n n deadok st = Some (KERN_SUCCESS, IO_PORT p, so, st')"
          "balanced 1 MACH_MSG_TYPE_PORT_SEND (IO_PORT p) st st'"
          using copyin_move_send_many [OF st(1,2,5,6) send p] copyin_move_send_last [OF st(1,2,3,5,6) _ p]
            copyin_move_send_last_receive [OF st(1,2,5,6) _ p(1,2)] ty by metis
        then show thesis
          using that st(1) mv by (simp add: ipc_right_copyin_def ipc_object_copyin_type_def msg_types)
      qed
    qed
    from that [OF chk r(1) _ _ r(2)] p show thesis by (simp add: copyin_result_def)
  qed
qed

lemma copyin_ok:
  assumes pre: "copyin_pre s n en st" and use: "send_use msgt_name \<or> receive_use msgt_name"
  obtains b kr obj so st' where "ipc_right_copyin_check s n n msgt_name st = Some b"
    "ipc_right_copyin s n n msgt_name deadok st = Some (kr, obj, so, st')"
    "copyin_result b (right_dead st en) deadok kr obj"
    "\<And>q. obj = IO_PORT q \<Longrightarrow> ie_object en = IO_PORT q"
    "balanced 1 (the (ipc_object_copyin_type msgt_name)) obj st st'"
proof (cases "receive_use msgt_name")
  case True
  then show thesis by (rule copyin_receive_use [OF pre]) (rule that)
next
  case False
  then have use: "send_use msgt_name" using use by blast
  note st = copyin_preD [OF pre]
  have chk: "ipc_right_copyin_check s n n msgt_name st = Some b"
    if "b = (ie_bits en AND MACH_PORT_TYPE_DEAD_NAME \<noteq> 0)" "ie_bits en AND MACH_PORT_TYPE_SEND_RIGHTS = 0" for b
    using that st(1,5) use by (auto simp: ipc_right_copyin_check_def send_use_def msg_types)
  show thesis
  proof (cases "\<exists>p. ie_object en = IO_PORT p")
    case True
    then obtain p where p: "ie_object en = IO_PORT p" by blast
    obtain port where port: "k_ports st p = Some port"
      using st(6) by cases (use p in \<open>auto simp: port_entry_ok_def\<close>)
    show thesis
    proof (cases "ip_active port")
      case True
      then have d: "right_dead st en = False" using p port by (simp add: right_dead_def)
      show thesis by (rule copyin_live_port [OF pre p port True use, folded d]) (rule that)
    next
      case dead: False
      then have d: "right_dead st en" using p port by (simp add: right_dead_def)
      have "ipc_right_copyin_check s n n msgt_name st = Some True"
        using st(6) by cases (use st(1,5) p port dead use in
          \<open>auto simp: ipc_right_copyin_check_def send_use_def msg_types obj_port_def port_entry_ok_def receiver_ok_def
            send_tests receive_tests send_receive_tests send_once_tests\<close>)
      moreover obtain kr obj st' where "ipc_right_copyin s n n msgt_name deadok st = Some (kr, obj, None, st')"
        "kr = (if deadok then KERN_SUCCESS else KERN_INVALID_RIGHT)" "obj = (if deadok then IO_DEAD else IO_NULL)"
        "balanced 1 (the (ipc_object_copyin_type msgt_name)) obj st st'"
        by (rule copyin_dead_port [OF st(1-3,5,6) p port dead use]) (rule that)
      ultimately show thesis using that [of True kr obj None st'] d
        by (simp add: copyin_result_def split: if_splits)
    qed
  next
    case np: False
    show thesis
    proof (cases "IE_BITS_TYPE (ie_bits en) = MACH_PORT_TYPE_DEAD_NAME")
      case True
      have dr: "dead_right en" using st(6) by cases (use True in \<open>auto simp: dead_right_def\<close>)
      then have d: "right_dead st en" by (simp add: right_dead_def dead_right_def)
      obtain st' en' where u: "use_dead msgt_name s n deadok st =
        Some (if deadok then (KERN_SUCCESS, IO_DEAD, None, st') else (KERN_INVALID_RIGHT, IO_NULL, None, st'))"
        "entry_now s n en' st st'" "ie_object en' = IO_NULL" "k_ports st' = k_ports st"
        by (rule use_dead_ok [OF st(1,5) dr]) (rule that)
      have b: "balanced 1 t (if deadok then IO_DEAD else IO_NULL) st st'" for t
        using dr by (intro balanced_null [OF st(2,1,5) u(2)]) (use u in \<open>simp_all add: dead_right_def\<close>)
      show thesis
        using that [OF chk [of True] trans [OF send_use_eqs(1) [OF st(1,5) use]], unfolded u(1)] dead_name_tests [OF True] d b
        by (cases deadok) (force simp: copyin_result_def)+
    next
      case False
      have "IE_BITS_TYPE (ie_bits en) = MACH_PORT_TYPE_PORT_SET"
        using st(6) by cases (use np False in \<open>auto simp: port_entry_ok_def\<close>)
      note t = port_set_tests [OF this]
      have nd: "\<not> right_dead st en" using np False by (auto simp: right_dead_def split: ipc_object.splits)
      show thesis
        using that [OF chk [of False] send_use_eqs(2) [OF st(1,5) use]] t nd balanced_refl
        by (simp add: copyin_result_def)
    qed
  qed
qed

section \<open>Copyout\<close>

text \<open>
  The states in which a right of type \<open>t\<close> for port \<open>p\<close> may be copied out to entry \<open>n\<close> of space \<open>s\<close>: the entry is blank or
  holds rights for the same port, and the port counts a right of that type that has no name.  A
  receive right has no name at all.
\<close>

definition blank :: "ipc_entry \<Rightarrow> bool" where
  "blank en = (IE_BITS_TYPE (ie_bits en) = MACH_PORT_TYPE_NONE \<and> IE_BITS_UREFS (ie_bits en) = 0 \<and>
     ie_bits en AND IE_BITS_MAREQUEST = 0 \<and> ie_request en = 0)"

definition copyout_pre :: "space_id \<Rightarrow> mach_port_name \<Rightarrow> nat \<Rightarrow> ipc_entry \<Rightarrow> port_id \<Rightarrow> ipc_port \<Rightarrow> kernel \<Rightarrow> bool" where
  "copyout_pre s n t en p port st =
     (space_ok s st \<and> spaces_ok st \<and> k_mem st = [] \<and> used s n st \<and> entry_in s n st = Some en \<and>
      ie_name en = n \<and> ie_object en = IO_PORT p \<and> k_ports st p = Some port \<and> ip_active port \<and> p < 2 ^ 64 \<and>
      (if blank en then rev_in s st p = None else right_ok s n st en) \<and>
      (t = MACH_MSG_TYPE_PORT_SEND \<and> ie_bits en AND MACH_PORT_TYPE_SEND_ONCE = 0 \<and> card (holders MACH_PORT_TYPE_SEND p st) < unat (ip_srights port) \<or>
       t = MACH_MSG_TYPE_PORT_SEND_ONCE \<and> blank en \<and> card (holders MACH_PORT_TYPE_SEND_ONCE p st) < unat (ip_sorights port) \<or>
       t = MACH_MSG_TYPE_PORT_RECEIVE \<and> ip_mscount port = 0 \<and> ip_receiver_name port = MACH_PORT_NAME_NULL \<and>
         ie_bits en AND MACH_PORT_TYPE_SEND_ONCE = 0 \<and> \<not> receiver_ok s n port \<and> ip_destination port \<noteq> None))"

lemma copyout_preD:
  assumes "copyout_pre s n t en p port st"
  shows "space_ok s st" "spaces_ok st" "k_mem st = []" "used s n st" "entry_in s n st = Some en" "ie_name en = n"
    "ie_object en = IO_PORT p" "k_ports st p = Some port" "ip_active port" "p < 2 ^ 64"
    "blank en \<Longrightarrow> rev_in s st p = None" "\<not> blank en \<Longrightarrow> right_ok s n st en"
  using assms by (simp_all add: copyout_pre_def)

lemma blank_tests:
  assumes "blank en"
  shows "ie_bits en AND MACH_PORT_TYPE_SEND = 0" "ie_bits en AND MACH_PORT_TYPE_RECEIVE = 0"
    "ie_bits en AND MACH_PORT_TYPE_SEND_ONCE = 0" "ie_bits en AND MACH_PORT_TYPE_PORT_RIGHTS = 0"
    "IE_BITS_TYPE (ie_bits en) = MACH_PORT_TYPE_NONE" "IE_BITS_UREFS (ie_bits en) = 0"
  using assms none_tests [of "ie_bits en"] by (simp_all add: blank_def)

lemma copyout_send_once_ok:
  assumes pre: "copyout_pre s n MACH_MSG_TYPE_PORT_SEND_ONCE en p port st"
  obtains st' where "copyout_send_once s n p st = Some (KERN_SUCCESS, st')"
    "entry_now s n (en\<lparr>ie_bits := ie_bits en OR (MACH_PORT_TYPE_SEND_ONCE OR 1)\<rparr>) st st'"
    "k_ports st' = k_ports st" "balanced (- 1) MACH_MSG_TYPE_PORT_SEND_ONCE (IO_PORT p) st st'"
proof -
  note st = copyout_preD [OF pre]
  have b: "blank en" and so: "0 < unat (ip_sorights port)" using pre by (auto simp: copyout_pre_def msg_types)
  then have so: "0 < ip_sorights port" by (simp add: word_gt_0 unat_gt_0)
  note t = blank_tests [OF b]
  let ?f = "\<lambda>e. e\<lparr>ie_bits := ie_bits en OR (MACH_PORT_TYPE_SEND_ONCE OR 1)\<rparr>"
  have u: "map_option (ie_name \<circ> ?f) (entry_in s n st) = Some n" using st by simp
  note uf = upd_entry_ok [OF st(1,4) u]
  have now: "entry_now s n (?f en) st (upd_entry s n ?f st)" by (rule entry_now_upd [OF st(1,4,5)]) (simp add: st)
  have ty: "IE_BITS_TYPE (ie_bits en OR (MACH_PORT_TYPE_SEND_ONCE OR 1)) = MACH_PORT_TYPE_SEND_ONCE"
    using t(5) by (simp only: type_or) (simp add: IE_BITS_TYPE_def bits_values)
  have "balanced (- 1) MACH_MSG_TYPE_PORT_SEND_ONCE (IO_PORT p) st (upd_entry s n ?f st)"
    by (rule balanced_live [OF st(2,1,5) now st(7,8), where port' = port])
      (use st(7,8) t send_once_tests [OF ty] in \<open>simp_all add: holds_def msg_types fun_upd_idem\<close>)
  moreover have "copyout_send_once s n p st = Some (KERN_SUCCESS, upd_entry s n ?f st)"
    using st t so uf(1) by (simp add: copyout_send_once_def)
  ultimately show thesis using that now by simp
qed

lemma naked_exists:
  assumes "spaces_ok st" "space_ok s st" "entry_in s n st = Some en" "ie_object en = IO_PORT p"
    "card (holders MACH_PORT_TYPE_SEND p st) < unat (srights :: bits32)"
  shows "0 < srights" "ie_bits en AND MACH_PORT_TYPE_SEND \<noteq> 0 \<Longrightarrow> 1 < srights"
proof -
  show "0 < srights" using assms(5) by (cases "srights = 0") (auto simp: word_gt_0)
  assume a: "ie_bits en AND MACH_PORT_TYPE_SEND \<noteq> 0"
  then have "holds MACH_PORT_TYPE_SEND p en" using assms(4) by (simp add: holds_def)
  then have "(s, n) \<in> holders MACH_PORT_TYPE_SEND p st"
    using holds_right [OF _ type_masks(1)] right_of_entry [OF assms(2), of n] assms(3) by (auto simp: holders_def)
  then have "0 < card (holders MACH_PORT_TYPE_SEND p st)"
    using finite_holders [OF assms(1)] by (auto simp: card_gt_0_iff)
  then show "1 < srights" using assms(5) by (simp add: word_less_nat_alt)
qed

lemma or_send_idem:
  assumes "bits AND MACH_PORT_TYPE_SEND \<noteq> 0"
  shows "bits OR MACH_PORT_TYPE_SEND = bits"
proof -
  have b: "bit MACH_PORT_TYPE_SEND i = (i = 16)" for i
  proof -
    have e: "MACH_PORT_TYPE_SEND = 2 ^ 16" by (simp add: type_values)
    show ?thesis unfolding e bit_exp_iff by auto
  qed
  have "bits AND MACH_PORT_TYPE_SEND = 0" if "\<not> bit bits 16"
    using that by (intro bit_word_eqI) (auto simp: bit_and_iff b)
  then have "bit bits 16" using assms by blast
  then show ?thesis by (intro bit_word_eqI) (auto simp: bit_or_iff b)
qed

text \<open>A send right joins the send right that the entry already has.\<close>

lemma copyout_send_more:
  assumes pre: "copyout_pre s n MACH_MSG_TYPE_PORT_SEND en p port st"
    and send: "ie_bits en AND MACH_PORT_TYPE_SEND \<noteq> 0"
  defines "full \<equiv> IE_BITS_UREFS (ie_bits en) + 1 = MACH_PORT_UREFS_MAX"
  obtains st' where "copyout_send s n n overflow p st =
      Some (if full \<and> \<not> overflow then (KERN_UREFS_OVERFLOW, st) else (KERN_SUCCESS, st'))"
    "entry_now s n (if full then en else en\<lparr>ie_bits := (ie_bits en OR MACH_PORT_TYPE_SEND) + 1\<rparr>) st st'"
    "k_ports st' = (k_ports st)(p \<mapsto> port\<lparr>ip_srights := ip_srights port - 1, ip_references := ip_references port - 1\<rparr>)"
    "rev_in s st' = rev_in s st"
    "balanced (- 1) MACH_MSG_TYPE_PORT_SEND (IO_PORT p) st st'"
proof -
  note st = copyout_preD [OF pre]
  have nb: "\<not> blank en" using send blank_tests(1) by blast
  have card: "card (holders MACH_PORT_TYPE_SEND p st) < unat (ip_srights port)"
    using pre by (auto simp: copyout_pre_def msg_types)
  note sr = naked_exists [OF st(2,1,5,7) card]
  obtain ty: "IE_BITS_TYPE (ie_bits en) = MACH_PORT_TYPE_SEND \<or> IE_BITS_TYPE (ie_bits en) = MACH_PORT_TYPE_SEND_RECEIVE"
    and ur: "0 < IE_BITS_UREFS (ie_bits en)" "IE_BITS_UREFS (ie_bits en) < MACH_PORT_UREFS_MAX"
    using send_port [OF st(12) [OF nb] send] by metis
  let ?port = "port\<lparr>ip_srights := ip_srights port - 1, ip_references := ip_references port - 1\<rparr>"
  let ?f = "\<lambda>e. e\<lparr>ie_bits := (ie_bits en OR MACH_PORT_TYPE_SEND) + 1\<rparr>"
  let ?st1 = "set_port p ?port st"
  let ?st2 = "if full then ?st1 else upd_entry s n ?f ?st1"
  let ?en = "if full then en else ?f en"
  have u: "map_option (ie_name \<circ> ?f) (entry_in s n ?st1) = Some n" using st by simp
  note uf = upd_entry_ok [OF _ _ u]
  have now1: "entry_now s n en st ?st1" by (rule entry_now_same [OF st(1,5)]) simp_all
  have "entry_now s n (?f en) ?st1 (upd_entry s n ?f ?st1)" by (rule entry_now_upd) (use st in simp_all)
  with now1 have now: "entry_now s n ?en st ?st2" using entry_now_trans by auto
  have e: "copyout_send s n n overflow p st =
      Some (if full \<and> \<not> overflow then (KERN_UREFS_OVERFLOW, st) else (KERN_SUCCESS, ?st2))"
    using st send ur sr uf(1) by (auto simp: copyout_send_def full_def ip_release_def)
  note or = or_send_idem [OF send]
  have ty': "IE_BITS_TYPE (ie_bits en + 1) = MACH_PORT_TYPE_SEND \<or> IE_BITS_TYPE (ie_bits en + 1) = MACH_PORT_TYPE_SEND_RECEIVE"
    using urefs_inc(2) [OF ur(2)] ty by simp
  have "balanced (- 1) MACH_MSG_TYPE_PORT_SEND (IO_PORT p) st ?st2"
    by (rule balanced_live [OF st(2,1,5) now st(7,8), where port' = ?port])
      (use st(7,8) send_or_send_receive_tests [OF ty] send_or_send_receive_tests [OF ty'] or in
        \<open>simp_all add: holds_def msg_types\<close>)
  with e now show thesis using that uf(4) st by simp
qed

lemma send_added_type:
  "IE_BITS_TYPE bits = MACH_PORT_TYPE_NONE \<Longrightarrow> IE_BITS_TYPE (bits OR MACH_PORT_TYPE_SEND) = MACH_PORT_TYPE_SEND"
  "IE_BITS_TYPE bits = MACH_PORT_TYPE_RECEIVE \<Longrightarrow> IE_BITS_TYPE (bits OR MACH_PORT_TYPE_SEND) = MACH_PORT_TYPE_SEND_RECEIVE"
  "IE_BITS_TYPE bits = MACH_PORT_TYPE_NONE \<Longrightarrow> IE_BITS_TYPE (bits OR MACH_PORT_TYPE_RECEIVE) = MACH_PORT_TYPE_RECEIVE"
  "IE_BITS_TYPE bits = MACH_PORT_TYPE_SEND \<Longrightarrow> IE_BITS_TYPE (bits OR MACH_PORT_TYPE_RECEIVE) = MACH_PORT_TYPE_SEND_RECEIVE"
  by (simp_all only: type_or) (simp_all add: IE_BITS_TYPE_def bits_values)

text \<open>The first send right of an entry: the entry is blank, or holds the receive right.\<close>

lemma copyout_send_first:
  assumes pre: "copyout_pre s n MACH_MSG_TYPE_PORT_SEND en p port st"
    and send: "ie_bits en AND MACH_PORT_TYPE_SEND = 0"
  obtains st' where "copyout_send s n n overflow p st = Some (KERN_SUCCESS, st')"
    "entry_now s n (en\<lparr>ie_bits := (ie_bits en OR MACH_PORT_TYPE_SEND) + 1\<rparr>) st st'"
    "k_ports st' = (if blank en then k_ports st
       else (k_ports st)(p \<mapsto> port\<lparr>ip_references := ip_references port - 1\<rparr>))"
    "rev_in s st' = (if blank en then (rev_in s st)(p \<mapsto> n) else rev_in s st)"
    "balanced (- 1) MACH_MSG_TYPE_PORT_SEND (IO_PORT p) st st'"
proof -
  note st = copyout_preD [OF pre]
  have card: "card (holders MACH_PORT_TYPE_SEND p st) < unat (ip_srights port)"
    and once: "ie_bits en AND MACH_PORT_TYPE_SEND_ONCE = 0"
    using pre by (auto simp: copyout_pre_def msg_types)
  note sr = naked_exists(1) [OF st(2,1,5,7) card]
  let ?b = "(ie_bits en OR MACH_PORT_TYPE_SEND) + 1"
  let ?g = "\<lambda>e. e\<lparr>ie_bits := ?b\<rparr>"
  have u0: "IE_BITS_UREFS (ie_bits en) = 0" and ty: "\<not> blank en \<Longrightarrow> IE_BITS_TYPE (ie_bits en) = MACH_PORT_TYPE_RECEIVE"
  proof -
    have "IE_BITS_TYPE (ie_bits en) = MACH_PORT_TYPE_RECEIVE \<and> IE_BITS_UREFS (ie_bits en) = 0" if "\<not> blank en"
      using st(12) [OF that] by cases (use send once st(7) in \<open>auto simp: send_tests send_receive_tests send_once_tests\<close>)
    then show "IE_BITS_UREFS (ie_bits en) = 0" "\<not> blank en \<Longrightarrow> IE_BITS_TYPE (ie_bits en) = MACH_PORT_TYPE_RECEIVE"
      using blank_tests(6) by blast+
  qed
  have tb: "IE_BITS_TYPE ?b = (if blank en then MACH_PORT_TYPE_SEND else MACH_PORT_TYPE_SEND_RECEIVE)"
    using urefs_inc(2) [of "ie_bits en OR MACH_PORT_TYPE_SEND"] u0 ty blank_tests(5) send_added_type
    by (simp add: set_fields MACH_PORT_UREFS_MAX_def)
  obtain st1 where s1: "space_ok s st1" "used s n st1" "entry_in s n st1 = Some en" "entry_now s n en st st1"
    and k1: "k_ports st1 = (if blank en then k_ports st else (k_ports st)(p \<mapsto> port\<lparr>ip_references := ip_references port - 1\<rparr>))"
    and r1: "rev_in s st1 = (if blank en then (rev_in s st)(p \<mapsto> n) else rev_in s st)"
    and e1: "copyout_send s n n overflow p st = do { st \<leftarrow> set_entry_in s n ?g st1; Some (KERN_SUCCESS, st) }"
  proof (cases "blank en")
    case True
    let ?f = "\<lambda>e. e\<lparr>ie_name := n\<rparr>"
    have u: "map_option (ie_name \<circ> ?f) (entry_in s n st) = Some n" using st by simp
    note uf = upd_entry_ok [OF st(1,4) u]
    have en1: "entry_in s n (upd_entry s n ?f st) = Some en" using uf(5) st(5,6) by auto
    have "k_mem (upd_entry s n ?f st) = []" "rev_in s (upd_entry s n ?f st) p = None" using st(3,11) True uf(4) by simp_all
    note ri = upd_rev_insert_ok [OF uf(2) this st(10), where e = n]
    have "entry_now s n en st (upd_rev_insert s p n (upd_entry s n ?f st))"
      using ri uf en1 st(3,5,6) by (auto simp: entry_now_def pset_view_def fun_eq_iff)
    then show thesis
      using that [of "upd_rev_insert s p n (upd_entry s n ?f st)"] True ri uf en1 st send sr blank_tests [OF True]
      by (simp add: copyout_send_def)
  next
    case False
    note t = receive_tests [OF ty [OF False]]
    show thesis
      by (rule that [of "set_port p (port\<lparr>ip_references := ip_references port - 1\<rparr>) st"])
        (use False st send sr ty [OF False] t u0 in \<open>simp_all add: copyout_send_def ip_release_def entry_now_same\<close>)
  qed
  have u: "map_option (ie_name \<circ> ?g) (entry_in s n st1) = Some n" using s1 st by simp
  note ug = upd_entry_ok [OF s1(1,2) u]
  let ?st2 = "upd_entry s n ?g st1"
  have "entry_now s n (?g en) st1 ?st2" by (rule entry_now_upd [OF s1(1-3)]) (simp add: st)
  with s1(4) have now: "entry_now s n (?g en) st ?st2" by (rule entry_now_trans)
  have tests: "?b AND MACH_PORT_TYPE_SEND \<noteq> 0" "?b AND MACH_PORT_TYPE_PORT_RIGHTS \<noteq> 0" "?b AND MACH_PORT_TYPE_SEND_ONCE = 0"
    using tb send_or_send_receive_tests [of ?b] by (auto split: if_splits)
  let ?port = "if blank en then port else port\<lparr>ip_references := ip_references port - 1\<rparr>"
  have "balanced (- 1) MACH_MSG_TYPE_PORT_SEND (IO_PORT p) st ?st2"
    by (rule balanced_live [OF st(2,1,5) now st(7,8), where port' = ?port])
      (use st(7,8) k1 tests send blank_tests [of en] ty receive_tests [of "ie_bits en"] once in
        \<open>cases "blank en"; simp add: holds_def msg_types fun_upd_idem\<close>)+
  with e1 now k1 r1 ug(1,4) show thesis using that by simp
qed

text \<open>The receive right: the entry is blank, or holds the send right.  What remains to be done for a port that was in
  transit is to give up the reference to its destination.\<close>

definition leave_transit :: "port_id option \<Rightarrow> kernel \<Rightarrow> kernel option" where
  "leave_transit dest st = (case dest of None \<Rightarrow> Some st | Some d \<Rightarrow> ipc_port_release d st)"

lemma copyout_receive_ok:
  assumes pre: "copyout_pre s n MACH_MSG_TYPE_PORT_RECEIVE en p port st"
  defines "has_send \<equiv> ie_bits en AND MACH_PORT_TYPE_SEND \<noteq> 0"
  obtains st' port' where "copyout_receive s n n p st =
      do { st \<leftarrow> leave_transit (the (ip_destination port)) st'; Some (KERN_SUCCESS, st) }"
    "entry_now s n (en\<lparr>ie_bits := ie_bits en OR MACH_PORT_TYPE_RECEIVE\<rparr>) st st'"
    "k_ports st' = (k_ports st)(p \<mapsto> port')" "receiver_ok s n port'" "ip_srights port' = ip_srights port"
    "ip_dnrequests port' = ip_dnrequests port"
    "rev_in s st' = (if has_send then (rev_in s st)(p := None) else rev_in s st)"
    "balanced (- 1) MACH_MSG_TYPE_PORT_RECEIVE (IO_PORT p) st st'"
proof -
  note st = copyout_preD [OF pre]
  have po: "ip_mscount port = 0" "ip_receiver_name port = MACH_PORT_NAME_NULL"
    "ie_bits en AND MACH_PORT_TYPE_SEND_ONCE = 0" "\<not> receiver_ok s n port"
    using pre by (auto simp: copyout_pre_def msg_types)
  obtain dest where dest: "ip_destination port = Some dest" using pre by (auto simp: copyout_pre_def msg_types)
  have ty: "if has_send then IE_BITS_TYPE (ie_bits en) = MACH_PORT_TYPE_SEND \<and> 0 < IE_BITS_UREFS (ie_bits en) \<and> 0 < ip_srights port
      else blank en"
  proof (cases "blank en")
    case True
    then show ?thesis using blank_tests(1) by (auto simp: has_send_def)
  next
    case False
    from st(12) [OF this] show ?thesis
      by cases (use po(3,4) st(7-9) in \<open>auto simp: has_send_def port_entry_ok_def send_tests receive_tests
        send_receive_tests send_once_tests\<close>)
  qed
  let ?b = "ie_bits en OR MACH_PORT_TYPE_RECEIVE"
  let ?g = "\<lambda>e. e\<lparr>ie_bits := ?b\<rparr>"
  define port0 where "port0 = ipc_port_flag_protected_payload_clear (port\<lparr>ip_receiver_name := n, ip_data := D_receiver (Some s)\<rparr>)"
  define port1 where "port1 = (if has_send then port0\<lparr>ip_references := ip_references port0 - 1\<rparr> else port0)"
  have p1: "ip_references port1 = (if has_send then ip_references port - 1 else ip_references port)"
    "ip_srights port1 = ip_srights port" "ip_sorights port1 = ip_sorights port" "ip_dnrequests port1 = ip_dnrequests port"
    "receiver_ok s n port1"
    using st(9) by (simp_all add: port1_def port0_def receiver_ok_def ipc_port_flag_protected_payload_clear_def)
  obtain st1 where s1: "space_ok s st1" "used s n st1" "entry_in s n st1 = Some en" "entry_now s n en st st1"
    and k1: "k_ports st1 = (k_ports st)(p \<mapsto> port1)"
    and r1: "rev_in s st1 = (if has_send then (rev_in s st)(p := None) else rev_in s st)"
    and e1: "copyout_receive s n n p st = do { st \<leftarrow> set_entry_in s n ?g st1;
       st \<leftarrow> leave_transit (the (ip_destination port)) st; Some (KERN_SUCCESS, st) }"
  proof (cases has_send)
    case True
    have sp: "space_ok s (set_port p port1 st)" using st by simp
    note rr = upd_rev_remove_ok [OF sp]
    have t: "IE_BITS_TYPE (ie_bits en) = MACH_PORT_TYPE_SEND" "0 < IE_BITS_UREFS (ie_bits en)" "0 < ip_srights port"
      using ty True by simp_all
    have "copyout_receive s n n p st = do { st \<leftarrow> set_entry_in s n ?g (upd_rev_remove s p (set_port p port1 st));
       st \<leftarrow> leave_transit (the (ip_destination port)) st; Some (KERN_SUCCESS, st) }"
      using True st po dest t rr(1) send_tests [OF t(1)]
      by (cases dest) (simp_all add: copyout_receive_def leave_transit_def ip_release_def port1_def port0_def)
    then show thesis
      using that [of "upd_rev_remove s p (set_port p port1 st)"] True rr st
      by (auto simp: entry_now_def pset_view_def fun_eq_iff)
  next
    case False
    then have b: "blank en" using ty by simp
    have "copyout_receive s n n p st = do { st \<leftarrow> set_entry_in s n ?g (set_port p port1 st);
       st \<leftarrow> leave_transit (the (ip_destination port)) st; Some (KERN_SUCCESS, st) }"
      using False st po dest blank_tests [OF b]
      by (cases dest) (simp_all add: copyout_receive_def leave_transit_def port1_def port0_def)
    then show thesis
      using that [of "set_port p port1 st"] False st by (simp add: entry_now_same)
  qed
  have u: "map_option (ie_name \<circ> ?g) (entry_in s n st1) = Some n" using s1(3) st(6) by simp
  note ug = upd_entry_ok [OF s1(1,2) u]
  let ?st2 = "upd_entry s n ?g st1"
  have e: "copyout_receive s n n p st = do { st \<leftarrow> leave_transit (the (ip_destination port)) ?st2; Some (KERN_SUCCESS, st) }"
    using e1 ug(1) by simp
  have "entry_now s n (?g en) st1 ?st2" by (rule entry_now_upd [OF s1(1-3)]) (simp add: st)
  with s1(4) have now: "entry_now s n (?g en) st ?st2" by (rule entry_now_trans)
  have tb: "IE_BITS_TYPE ?b = (if has_send then MACH_PORT_TYPE_SEND_RECEIVE else MACH_PORT_TYPE_RECEIVE)"
    using ty blank_tests(5) send_added_type(3,4) by auto
  have "balanced (- 1) MACH_MSG_TYPE_PORT_RECEIVE (IO_PORT p) st ?st2"
    by (rule balanced_live [OF st(2,1,5) now st(7,8), where port' = port1])
      (use st(7,8) k1 p1 ty tb blank_tests [of en] send_tests [of "ie_bits en"] receive_tests [of ?b] send_receive_tests [of ?b] in
        \<open>cases has_send; simp add: holds_def msg_types\<close>)+
  then show thesis using that [OF e now] k1 r1 ug(4) p1 by simp
qed

lemma copyout_ok:
  assumes pre: "copyout_pre s n t en p port st"
  defines "dest \<equiv> if t = MACH_MSG_TYPE_PORT_RECEIVE then the (ip_destination port) else None"
  obtains kr st' where "ipc_right_copyout s n n t overflow (IO_PORT p) st =
      do { st \<leftarrow> leave_transit dest st'; Some (kr, st) }"
    "kr = KERN_SUCCESS \<and> balanced (- 1) t (IO_PORT p) st st' \<or>
     kr = KERN_UREFS_OVERFLOW \<and> \<not> overflow \<and> st' = st \<and> t = MACH_MSG_TYPE_PORT_SEND \<and>
       IE_BITS_UREFS (ie_bits en) + 1 = MACH_PORT_UREFS_MAX"
proof -
  note st = copyout_preD [OF pre]
  have c: "ipc_right_copyout s n n t overflow (IO_PORT p) st =
      (if t = MACH_MSG_TYPE_PORT_SEND_ONCE then copyout_send_once s n p st
       else if t = MACH_MSG_TYPE_PORT_SEND then copyout_send s n n overflow p st
       else if t = MACH_MSG_TYPE_PORT_RECEIVE then copyout_receive s n n p st else None)"
    using st by (simp add: ipc_right_copyout_def IO_VALID_def obj_port_def)
  consider "t = MACH_MSG_TYPE_PORT_SEND" "ie_bits en AND MACH_PORT_TYPE_SEND = 0"
    | "t = MACH_MSG_TYPE_PORT_SEND" "ie_bits en AND MACH_PORT_TYPE_SEND \<noteq> 0"
    | "t = MACH_MSG_TYPE_PORT_SEND_ONCE" | "t = MACH_MSG_TYPE_PORT_RECEIVE"
    using pre by (auto simp: copyout_pre_def)
  then show thesis
  proof cases
    case 1
    with copyout_send_first [OF pre [unfolded 1(1)] 1(2), of overflow] c that show thesis
      by (auto simp: dest_def leave_transit_def msg_types)
  next
    case 2
    obtain st' where "copyout_send s n n overflow p st =
      Some (if IE_BITS_UREFS (ie_bits en) + 1 = MACH_PORT_UREFS_MAX \<and> \<not> overflow then (KERN_UREFS_OVERFLOW, st)
            else (KERN_SUCCESS, st'))" "balanced (- 1) MACH_MSG_TYPE_PORT_SEND (IO_PORT p) st st'"
      by (rule copyout_send_more [OF pre [unfolded 2(1)] 2(2)]) (rule that)
    then show thesis
      using 2 c that by (auto simp: dest_def leave_transit_def msg_types split: if_splits)
  next
    case 3
    with copyout_send_once_ok [OF pre [unfolded 3]] c that show thesis
      by (auto simp: dest_def leave_transit_def msg_types)
  next
    case 4
    obtain st' where "copyout_receive s n n p st =
        do { st \<leftarrow> leave_transit (the (ip_destination port)) st'; Some (KERN_SUCCESS, st) }"
      "balanced (- 1) MACH_MSG_TYPE_PORT_RECEIVE (IO_PORT p) st st'"
      by (rule copyout_receive_ok [OF pre [unfolded 4]]) (rule that)
    then show thesis using 4 c that by (simp add: dest_def msg_types)
  qed
qed

section \<open>Properties\<close>

text \<open>A space in which the name 5 has a given entry, and a kernel in which it denotes a receive right.\<close>

lemma space_with_entry:
  assumes "ie_name en = 5"
  obtains sp where "space_wf sp" "is_active sp" "is_entries sp 5 = Some en" "reverse sp = Map.empty"
    "5 \<notin> set (is_free_list sp)" "\<And>k. k \<noteq> 5 \<Longrightarrow> rights sp k = None"
proof -
  obtain sp where sp: "entry_allocated space_new 5 sp"
    using ipc_entry_alloc_name_ok [of space_new 5 "[]"] by auto
  obtain t where t: "space_wf (sp\<lparr>is_map := t\<rparr>)" "rdxtree_lookup t = (is_entries sp)(5 \<mapsto> en)"
    using set_entry_wf [of sp 5 en] sp assms by (auto simp: entry_allocated_def)
  have "is_reverse_map sp = is_reverse_map space_new" using sp by (simp add: entry_allocated_def)
  then have "reverse sp = Map.empty" using space_new_ok(3) by simp
  moreover have "rights (sp\<lparr>is_map := t\<rparr>) k = None" if "k \<noteq> 5" for k
  proof -
    have "is_entries sp k = is_entries space_new k" using sp that by (simp add: entry_allocated_def)
    then show ?thesis using t(2) that by (simp add: rights_def zero_entry_def)
  qed
  ultimately show thesis using that [of "sp\<lparr>is_map := t\<rparr>"] t sp by (simp add: entry_allocated_def)
qed

definition kernel_with :: "ipc_space \<Rightarrow> ipc_port \<Rightarrow> kernel" where
  "kernel_with sp port = set_port 7 port (set_space 2 sp kernel_empty)"

lemma kernel_with_simps [simp]:
  "k_ports (kernel_with sp port) = [7 \<mapsto> port]" "k_mem (kernel_with sp port) = []"
  "rev_in 2 (kernel_with sp port) = reverse sp" "entry_in 2 n (kernel_with sp port) = is_entries sp n"
  "marequest_wf (kernel_with sp port)"
  "space_wf sp \<Longrightarrow> is_active sp \<Longrightarrow> space_ok 2 (kernel_with sp port)"
  "space_wf sp \<Longrightarrow> spaces_ok (kernel_with sp port)"
  by (auto simp: kernel_with_def rev_in_def entry_in_def space_ok_def spaces_ok_def marequest_wf_def marequest_for_def fun_eq_iff)

definition example_receive :: ipc_entry where
  "example_receive = \<lparr>ie_name = 5, ie_bits = 0x20000, ie_object = IO_PORT 7, ie_request = 0\<rparr>"

definition example_port :: ipc_port where
  "example_port = new_port\<lparr>ip_receiver_name := 5, ip_data := D_receiver (Some 2)\<rparr>"

lemma example_receive_type:
  "IE_BITS_TYPE (ie_bits example_receive) = MACH_PORT_TYPE_RECEIVE" "IE_BITS_UREFS (ie_bits example_receive) = 0"
  by (simp_all add: example_receive_def IE_BITS_TYPE_def IE_BITS_UREFS_def bits_values)

lemma example_copyin_pre:
  obtains sp where "copyin_pre 2 5 example_receive (kernel_with sp example_port)"
proof -
  obtain sp where sp: "space_wf sp" "is_active sp" "is_entries sp 5 = Some example_receive" "reverse sp = Map.empty"
    using space_with_entry [of example_receive] by (auto simp: example_receive_def)
  let ?st = "kernel_with sp example_port"
  have "receiver_ok 2 5 example_port" by (simp add: receiver_ok_def example_port_def)
  moreover have "port_entry_ok 5 ?st example_receive 7 example_port"
    by (simp add: port_entry_ok_def example_receive_def example_port_def dn_port_wf_def new_port_def zero_port_def)
  moreover have "mar_ok 2 5 ?st example_receive"
    by (simp add: mar_ok_def example_receive_def IE_BITS_MAREQUEST_def)
  ultimately have "right_ok 2 5 ?st example_receive"
    using example_receive_type by (intro receive)
  moreover have "right_of ?st (2, 5) = Some example_receive"
    using sp right_of_entry [of 2 ?st 5] example_receive_type by simp
  moreover have "clear_ok ?st example_port"
    by (simp add: clear_ok_def example_port_def new_port_def zero_port_def)
  ultimately have "copyin_pre 2 5 example_receive ?st"
    using sp by (simp add: copyin_pre_def)
  then show thesis by (rule that)
qed

text \<open>
  C17: \<^verbatim>\<open>ipc_right_copyin_check\<close> foretells \<^verbatim>\<open>ipc_right_copyin\<close>, for all six types of transfer: no
  assertion of either fails, the copyin succeeds exactly if the check said so (and dead rights are welcome, if the
  right is dead), the result is the port of the entry, or the dead object for a dead right, and otherwise
  the error is \<^verbatim>\<open>KERN_INVALID_RIGHT\<close>.
\<close>

theorem ipc_right_copyin_correct:
  assumes "copyin_pre s n en st" "send_use msgt_name \<or> receive_use msgt_name"
  shows "\<exists>b kr obj so st'. ipc_right_copyin_check s n n msgt_name st = Some b \<and>
    ipc_right_copyin s n n msgt_name deadok st = Some (kr, obj, so, st') \<and>
    copyin_result b (right_dead st en) deadok kr obj \<and> (obj = ie_object en \<or> obj = IO_DEAD \<or> obj = IO_NULL)"
proof -
  obtain b kr obj so st' where "ipc_right_copyin_check s n n msgt_name st = Some b"
    "ipc_right_copyin s n n msgt_name deadok st = Some (kr, obj, so, st')"
    "copyin_result b (right_dead st en) deadok kr obj" "\<And>q. obj = IO_PORT q \<Longrightarrow> ie_object en = IO_PORT q"
    by (rule copyin_ok [OF assms]) (rule that)
  then show ?thesis by (auto simp: copyin_result_def split: if_splits)
qed

theorem ipc_right_copyin_correct_witness:
  "\<exists>sp so st'. ipc_right_copyin 2 5 5 MACH_MSG_TYPE_MAKE_SEND True (kernel_with sp example_port) =
     Some (KERN_SUCCESS, IO_PORT 7, so, st')"
proof -
  obtain sp where pre: "copyin_pre 2 5 example_receive (kernel_with sp example_port)" by (rule example_copyin_pre)
  have "ipc_right_copyin_check 2 5 5 MACH_MSG_TYPE_MAKE_SEND (kernel_with sp example_port) = Some True"
    using copyin_preD [OF pre] receive_tests [OF example_receive_type(1)] by (simp add: ipc_right_copyin_check_def)
  moreover have "\<not> right_dead (kernel_with sp example_port) example_receive"
    by (simp add: right_dead_def example_receive_def example_port_def)
  ultimately have "\<exists>so st'. ipc_right_copyin 2 5 5 MACH_MSG_TYPE_MAKE_SEND True (kernel_with sp example_port) =
     Some (KERN_SUCCESS, IO_PORT 7, so, st')"
    using ipc_right_copyin_correct [OF pre, of MACH_MSG_TYPE_MAKE_SEND True]
    by (auto simp: receive_use_def copyin_result_def example_receive_def)
  then show ?thesis by blast
qed

text \<open>
  C18: Rights are conserved when they are copied in: for each live port, the rights without a name grow by exactly
  the right that the message now carries, with one reference, and for no other port or type does their number change.
  A right that turns out to be dead gives its reference back.
\<close>

theorem ipc_right_copyin_conserves:
  assumes "copyin_pre s n en st" "send_use msgt_name \<or> receive_use msgt_name"
    "ipc_right_copyin s n n msgt_name deadok st = Some (kr, obj, so, st')"
  shows "balanced 1 (the (ipc_object_copyin_type msgt_name)) obj st st'"
proof -
  obtain b kr obj so st' where "ipc_right_copyin s n n msgt_name deadok st = Some (kr, obj, so, st')"
    "balanced 1 (the (ipc_object_copyin_type msgt_name)) obj st st'"
    by (rule copyin_ok [OF assms(1,2)]) (rule that)
  with assms(3) show ?thesis by simp
qed

theorem ipc_right_copyin_conserves_witness:
  "\<exists>sp so st'. ipc_right_copyin 2 5 5 MACH_MSG_TYPE_MAKE_SEND True (kernel_with sp example_port) =
     Some (KERN_SUCCESS, IO_PORT 7, so, st') \<and> naked_send st' 7 = naked_send (kernel_with sp example_port) 7 + 1"
proof -
  obtain sp where pre: "copyin_pre 2 5 example_receive (kernel_with sp example_port)" by (rule example_copyin_pre)
  note st = copyin_preD [OF pre]
  have r: "ie_bits example_receive AND MACH_PORT_TYPE_RECEIVE \<noteq> 0" using receive_tests [OF example_receive_type(1)] by simp
  obtain st' where c: "ipc_right_copyin 2 5 5 MACH_MSG_TYPE_MAKE_SEND True (kernel_with sp example_port) =
      Some (KERN_SUCCESS, IO_PORT 7, None, st')"
    using copyin_make_send_ok [OF st(1,2,5,6) r] st(1) by (auto simp: ipc_right_copyin_def example_receive_def)
  have "ip_active example_port" by (simp add: example_port_def)
  then have "naked_send st' 7 = naked_send (kernel_with sp example_port) 7 + 1"
    using ipc_right_copyin_conserves [OF pre _ c]
    by (simp add: receive_use_def balanced_def ipc_object_copyin_type_def msg_types)
  with c show ?thesis by blast
qed

text \<open>
  C19: Copying a right out of a message is the converse: the name that receives the right takes exactly one right
  without a name, and its reference, out of the count.  The only error is that of a full count of user references; then
  nothing has changed.  A port that was in transit then gives up the reference to its destination.
\<close>

theorem ipc_right_copyout_conserves:
  assumes "copyout_pre s n t en p port st"
  shows "\<exists>kr st'. ipc_right_copyout s n n t overflow (IO_PORT p) st =
      do { st \<leftarrow> leave_transit (if t = MACH_MSG_TYPE_PORT_RECEIVE then the (ip_destination port) else None) st';
           Some (kr, st) } \<and>
    (kr = KERN_SUCCESS \<and> balanced (- 1) t (IO_PORT p) st st' \<or>
     kr = KERN_UREFS_OVERFLOW \<and> \<not> overflow \<and> st' = st \<and> t = MACH_MSG_TYPE_PORT_SEND \<and>
       IE_BITS_UREFS (ie_bits en) + 1 = MACH_PORT_UREFS_MAX)"
  using copyout_ok [OF assms, of overflow] by metis

theorem ipc_right_copyout_conserves_witness:
  "\<exists>sp st'. ipc_right_copyout 2 5 5 MACH_MSG_TYPE_PORT_SEND False (IO_PORT 7)
       (kernel_with sp (example_port\<lparr>ip_srights := 1, ip_references := 2\<rparr>)) = Some (KERN_SUCCESS, st') \<and>
     naked_send st' 7 = naked_send (kernel_with sp (example_port\<lparr>ip_srights := 1, ip_references := 2\<rparr>)) 7 - 1"
proof -
  let ?port = "example_port\<lparr>ip_srights := 1, ip_references := 2\<rparr>"
  obtain sp where sp: "space_wf sp" "is_active sp" "is_entries sp 5 = Some example_receive" "reverse sp = Map.empty"
    "5 \<notin> set (is_free_list sp)" "\<And>k. k \<noteq> 5 \<Longrightarrow> rights sp k = None"
    by (rule space_with_entry [of example_receive]) (simp add: example_receive_def, rule that)
  let ?st = "kernel_with sp ?port"
  have t: "\<not> blank example_receive" using example_receive_type by (simp add: blank_def)
  have right: "right_ok 2 5 ?st example_receive"
  proof (rule receive [OF example_receive_type, where port = ?port])
    show "receiver_ok 2 5 ?port" by (simp add: receiver_ok_def example_port_def)
    show "port_entry_ok 5 ?st example_receive 7 ?port"
      by (simp add: port_entry_ok_def example_receive_def example_port_def dn_port_wf_def new_port_def zero_port_def)
    show "mar_ok 2 5 ?st example_receive" by (simp add: mar_ok_def example_receive_def IE_BITS_MAREQUEST_def)
  qed
  have "right_of ?st (s, k) = (if s = 2 \<and> k = 5 then Some example_receive else None)" for s k
    using sp(2,3,6) example_receive_type by (auto simp: right_of_def kernel_with_def rights_def)
  then have "holders MACH_PORT_TYPE_SEND 7 ?st = {}"
    using receive_tests [OF example_receive_type(1)] by (auto simp: holders_def holds_def)
  moreover have "used 2 5 ?st" using sp by (simp add: used_def kernel_with_def)
  ultimately have "copyout_pre 2 5 MACH_MSG_TYPE_PORT_SEND example_receive 7 ?port ?st"
    using sp t right receive_tests [OF example_receive_type(1)]
    by (simp add: copyout_pre_def) (simp add: example_receive_def example_port_def)
  from ipc_right_copyout_conserves [OF this, of False]
  obtain st' where "ipc_right_copyout 2 5 5 MACH_MSG_TYPE_PORT_SEND False (IO_PORT 7) ?st = Some (KERN_SUCCESS, st')"
    "balanced (- 1) MACH_MSG_TYPE_PORT_SEND (IO_PORT 7) ?st st'"
    using example_receive_type(2) by (auto simp: leave_transit_def msg_types MACH_PORT_UREFS_MAX_def)
  moreover have "ip_active ?port" by (simp add: example_port_def)
  ultimately show ?thesis unfolding balanced_def by (intro exI [of _ sp] exI [of _ st']) simp
qed

end
