(* ===== verification/Ipc_Right_Urefs.thy ===== *)
theory Ipc_Right_Urefs
  imports Ipc_Right_Move
begin

text \<open>
  User references: the signed arithmetic of \<^verbatim>\<open>ipc_right_delta\<close> on the 16-bit count in \<^verbatim>\<open>ie_bits\<close>, and the equivalence of
  \<^verbatim>\<open>ipc_right_dealloc\<close> with a change by minus one.
\<close>

section \<open>Arithmetic of user references\<close>

text \<open>
  \<^verbatim>\<open>delta\<close> is signed and \<^verbatim>\<open>urefs\<close> unsigned.  The macros of \<^verbatim>\<open>ipc/port.h\<close> decide with wrapping unsigned
  arithmetic whether the sum leaves its range.
\<close>

lemma uint_sint_mod: "uint (w :: bits32) = sint w mod 2 ^ 32"
  by (simp add: uint_sint take_bit_eq_mod)

lemma sint_range: "- (2 ^ 31) \<le> sint (w :: bits32)" "sint (w :: bits32) < 2 ^ 31"
  using sint_greater_eq [of w] sint_less [of w] by simp_all

lemma uint_add_sint:
  fixes u d :: bits32
  assumes "0 \<le> uint u + sint d" "uint u + sint d < 2 ^ 32"
  shows "uint (u + d) = uint u + sint d"
proof -
  have "uint (u + d) = (uint u + uint d) mod 2 ^ 32" by (simp add: uint_word_ariths)
  also have "\<dots> = (uint u + sint d) mod 2 ^ 32" by (simp add: uint_sint_mod [of d] mod_add_right_eq)
  finally show ?thesis using assms by simp
qed

lemma underflow_iff: "MACH_PORT_UREFS_UNDERFLOW urefs delta \<longleftrightarrow> uint urefs + sint delta < 0"
proof (cases "sint delta < 0")
  case True
  have "uint (- delta) = (- uint delta) mod 2 ^ 32" by (simp add: uint_word_ariths)
  also have "\<dots> = (- sint delta) mod 2 ^ 32" by (simp add: uint_sint_mod [of delta] mod_minus_eq)
  finally have "uint (- delta) = - sint delta" using True sint_range [of delta] by simp
  then show ?thesis using True by (auto simp: MACH_PORT_UREFS_UNDERFLOW_def word_less_def)
next
  case False
  then show ?thesis unfolding MACH_PORT_UREFS_UNDERFLOW_def using uint_ge_0 [of urefs] by linarith
qed

lemma overflow_iff:
  assumes "urefs \<le> MACH_PORT_UREFS_MAX" "0 \<le> uint urefs + sint delta"
  shows "MACH_PORT_UREFS_OVERFLOW urefs delta \<longleftrightarrow> 0xffff < uint urefs + sint delta"
proof -
  have u: "uint urefs \<le> 0xffff" using assms(1) by (simp add: word_le_def MACH_PORT_UREFS_MAX_def)
  then have "uint (urefs + delta) = uint urefs + sint delta"
    using assms(2) sint_range [of delta] by (intro uint_add_sint) simp_all
  then show ?thesis
    using u by (auto simp: MACH_PORT_UREFS_OVERFLOW_def word_less_def word_le_def MACH_PORT_UREFS_MAX_def)
qed

section \<open>Giving up a user reference\<close>

text \<open>The kind of right that a release of the name concerns.\<close>

definition dealloc_right :: "kernel \<Rightarrow> ipc_entry \<Rightarrow> mach_port_right" where
  "dealloc_right st en =
     (if right_dead st en then MACH_PORT_RIGHT_DEAD_NAME
      else if IE_BITS_TYPE (ie_bits en) = MACH_PORT_TYPE_SEND_ONCE then MACH_PORT_RIGHT_SEND_ONCE
      else MACH_PORT_RIGHT_SEND)"

lemma minus_one_sint [simp]: "sint (- 1 :: bits32) = - 1"
  by simp

lemma urefs_minus_one:
  assumes "0 < (urefs :: bits32)"
  shows "\<not> MACH_PORT_UREFS_UNDERFLOW urefs (- 1)" "\<not> MACH_PORT_UREFS_OVERFLOW urefs (- 1)"
    "\<not> MACH_PORT_UREFS_OVERFLOW (urefs + 1) (- 1)" "urefs + - 1 = 0 \<longleftrightarrow> urefs = 1"
proof -
  have "0 < uint urefs" using assms by (simp add: word_less_def)
  then show "\<not> MACH_PORT_UREFS_UNDERFLOW urefs (- 1)" by (simp add: underflow_iff)
  show "\<not> MACH_PORT_UREFS_OVERFLOW urefs (- 1)" "\<not> MACH_PORT_UREFS_OVERFLOW (urefs + 1) (- 1)" by (simp_all add: MACH_PORT_UREFS_OVERFLOW_def)
  show "urefs + - 1 = 0 \<longleftrightarrow> urefs = 1" by simp
qed

lemma dead_name_dealloc_delta:
  assumes "entry_in s n st = Some en" "dead_right en"
  shows "dealloc_dead_name s n n st =
    (let urefs = IE_BITS_UREFS (ie_bits en) in
     do { st \<leftarrow> (if urefs + - 1 = 0 then dealloc_in s n n st
               else set_entry_in s n (\<lambda>e. e\<lparr>ie_bits := ie_bits en + - 1\<rparr>) st);
          Some (KERN_SUCCESS, st) })"
  using assms urefs_minus_one(4) [of "IE_BITS_UREFS (ie_bits en)"]
  by (auto simp: dealloc_dead_name_def dead_right_def)

lemma dealloc_delta_dead:
  assumes st: "space_ok s st" "marequest_wf st" and en: "entry_in s n st = Some en" "right_ok s n st en"
    and p: "ie_object en = IO_PORT p" "k_ports st p = Some port" "\<not> ip_active port"
  shows "ipc_right_dealloc K s n n st = ipc_right_delta K s n n MACH_PORT_RIGHT_DEAD_NAME (- 1) st"
proof -
  obtain ty: "IE_BITS_TYPE (ie_bits en) = MACH_PORT_TYPE_SEND \<or>
      IE_BITS_TYPE (ie_bits en) = MACH_PORT_TYPE_SEND_ONCE \<and> IE_BITS_UREFS (ie_bits en) = 1 \<and> ie_bits en AND IE_BITS_MAREQUEST = 0"
    and ur: "0 < IE_BITS_UREFS (ie_bits en)" "IE_BITS_UREFS (ie_bits en) < MACH_PORT_UREFS_MAX"
    using en(2) by cases (use p in \<open>auto simp: port_entry_ok_def receiver_ok_def MACH_PORT_UREFS_MAX_def\<close>)
  have tests: "ie_bits en AND MACH_PORT_TYPE_SEND_RIGHTS \<noteq> 0" using ty send_tests send_once_tests by blast
  obtain st1 where c: "ipc_right_check s p n n st = Some (True, st1)" "entry_now s n (dead_entry en) st st1"
    using ipc_right_check_dead [OF st en p] by blast
  note n1 = entry_nowD [OF c(2)] and dr = dead_entry_dead [OF ur(2,1)]
  have e1: "entry_in s n st1 = Some (dead_entry en)" using n1(3) by simp
  have "ipc_right_dealloc K s n n st = dealloc_dead_name s n n st1"
    using ty st(1) en(1) p c(1) e1 dr ur(1)
    by (auto simp: ipc_right_dealloc_def obj_port_def dead_right_def)
  moreover have "ipc_right_delta K s n n MACH_PORT_RIGHT_DEAD_NAME (- 1) st = dealloc_dead_name s n n st1"
    using st(1) en(1) p c(1) e1 dr tests dead_name_dealloc_delta [OF e1 dr]
      urefs_minus_one [of "IE_BITS_UREFS (ie_bits (dead_entry en))"]
    by (simp add: ipc_right_delta_def right_delta_dead_name_def obj_port_def dead_right_def Let_def)
  ultimately show ?thesis by simp
qed

lemma dealloc_delta_live:
  assumes st: "space_ok s st" and en: "entry_in s n st = Some en" "right_ok s n st en"
    and p: "ie_object en = IO_PORT p" "k_ports st p = Some port" "ip_active port"
    and type: "ie_bits en AND MACH_PORT_TYPE_SEND_RIGHTS \<noteq> 0"
  shows "ipc_right_dealloc K s n n st =
    ipc_right_delta K s n n (if IE_BITS_TYPE (ie_bits en) = MACH_PORT_TYPE_SEND_ONCE then MACH_PORT_RIGHT_SEND_ONCE
      else MACH_PORT_RIGHT_SEND) (- 1) st"
  using en(2)
proof cases
  case (send p' port')
  then have s: "p' = p" "port' = port" "port_entry_ok n st en p port" using p by (auto simp: port_entry_ok_def)
  show ?thesis
    using st en(1) p send s send_tests [OF send(1)] ipc_right_check_live [OF st(1) en(1) s(3) p(3)]
      urefs_minus_one [OF send(2)]
    by (simp add: ipc_right_dealloc_def ipc_right_delta_def right_delta_send_def obj_port_def Let_def)
next
  case (send_receive p' port')
  then have s: "p' = p" "port' = port" "port_entry_ok n st en p port" using p by (auto simp: port_entry_ok_def)
  show ?thesis
    using st en(1) p send_receive s send_receive_tests [OF send_receive(1)] ipc_right_check_live [OF st(1) en(1) s(3) p(3)]
      urefs_minus_one [OF send_receive(2)]
    by (simp add: ipc_right_dealloc_def ipc_right_delta_def right_delta_send_def obj_port_def Let_def assert_receiver_def
      receiver_ok_def notify_port_deleted_if_def)
next
  case (send_once p' port')
  then have s: "p' = p" "port' = port" "port_entry_ok n st en p port" using p by (auto simp: port_entry_ok_def)
  show ?thesis
    using st en(1) p send_once s send_once_tests [OF send_once(1)] ipc_right_check_live [OF st(1) en(1) s(3) p(3)]
    by (simp add: ipc_right_dealloc_def ipc_right_delta_def right_delta_send_once_def obj_port_def Let_def)
qed (use type p in \<open>simp_all add: receive_tests\<close>)

lemma dealloc_delta:
  assumes st: "space_ok s st" "marequest_wf st" and en: "entry_in s n st = Some en" "right_ok s n st en"
    and type: "ie_bits en AND MACH_PORT_TYPE_SEND_RIGHTS \<noteq> 0 \<or> ie_bits en AND MACH_PORT_TYPE_DEAD_NAME \<noteq> 0"
  shows "ipc_right_dealloc K s n n st = ipc_right_delta K s n n (dealloc_right st en) (- 1) st"
proof (cases "\<exists>p. ie_object en = IO_PORT p")
  case True
  then obtain p where p: "ie_object en = IO_PORT p" by blast
  obtain port where port: "k_ports st p = Some port" and t: "ie_bits en AND MACH_PORT_TYPE_DEAD_NAME = 0"
    using en(2) by cases (use p in \<open>auto simp: port_entry_ok_def send_tests receive_tests send_receive_tests send_once_tests\<close>)
  have d: "right_dead st en = (\<not> ip_active port)" using p port by (simp add: right_dead_def)
  show ?thesis
    using dealloc_delta_dead [OF st en p port] dealloc_delta_live [OF st(1) en p port] type t
    by (simp add: dealloc_right_def d)
next
  case False
  from en(2) show ?thesis
  proof cases
    case dead_name
    then have dr: "dead_right en" by (simp add: dead_right_def)
    then have "right_dead st en" by (simp add: right_dead_def dead_right_def)
    then show ?thesis
      using st en dead_name dead_name_tests [OF dead_name(1)] dead_name_dealloc_delta [OF en(1) dr] urefs_minus_one [OF dead_name(2)]
      by (simp add: ipc_right_dealloc_def ipc_right_delta_def right_delta_dead_name_def dealloc_right_def)
  qed (use False type in \<open>auto simp: port_entry_ok_def port_set_tests\<close>)
qed

lemma uint_urefs: "uint (IE_BITS_UREFS bits) \<le> 0xffff"
  using urefs_le [of bits] by (simp add: word_le_def IE_BITS_UREFS_MASK_def)

lemma send_urefs_range:
  assumes "IE_BITS_UREFS bits < MACH_PORT_UREFS_MAX"
  shows "uint (IE_BITS_UREFS bits + 1) = uint (IE_BITS_UREFS bits) + 1" "IE_BITS_UREFS bits + 1 \<le> MACH_PORT_UREFS_MAX"
proof -
  show "IE_BITS_UREFS bits + 1 \<le> MACH_PORT_UREFS_MAX" using word_less_succ(2) [OF assms] .
  have "uint (IE_BITS_UREFS bits + 1) = uint (IE_BITS_UREFS bits) + sint (1 :: bits32)"
    using uint_urefs [of bits] by (intro uint_add_sint) simp_all
  then show "uint (IE_BITS_UREFS bits + 1) = uint (IE_BITS_UREFS bits) + 1" by simp
qed

lemma right_delta_send_ok:
  fixes delta :: bits32
  assumes st: "space_ok s st" and en: "entry_in s n st = Some en" "right_ok s n st en"
    and p: "ie_object en = IO_PORT p" "k_ports st p = Some port" "ip_active port"
    and send: "ie_bits en AND MACH_PORT_TYPE_SEND \<noteq> 0"
  defines "newrefs \<equiv> uint (IE_BITS_UREFS (ie_bits en)) + sint delta"
  shows "newrefs < 0 \<Longrightarrow> ipc_right_delta K s n n MACH_PORT_RIGHT_SEND delta st = Some (KERN_INVALID_VALUE, st)"
    and "0xffff \<le> newrefs \<Longrightarrow> ipc_right_delta K s n n MACH_PORT_RIGHT_SEND delta st = Some (KERN_UREFS_OVERFLOW, st)"
    and "0 < newrefs \<Longrightarrow> newrefs < 0xffff \<Longrightarrow>
      ipc_right_delta K s n n MACH_PORT_RIGHT_SEND delta st =
        Some (KERN_SUCCESS, upd_entry s n (\<lambda>e. e\<lparr>ie_bits := ie_bits en + delta\<rparr>) st) \<and>
      entry_now s n (en\<lparr>ie_bits := ie_bits en + delta\<rparr>) st (upd_entry s n (\<lambda>e. e\<lparr>ie_bits := ie_bits en + delta\<rparr>) st) \<and>
      uint (IE_BITS_UREFS (ie_bits en + delta)) = newrefs \<and> IE_BITS_TYPE (ie_bits en + delta) = IE_BITS_TYPE (ie_bits en) \<and>
      (ie_bits en + delta) AND IE_BITS_MAREQUEST = ie_bits en AND IE_BITS_MAREQUEST"
proof -
  obtain pe: "port_entry_ok n st en p port" "0 < ip_srights port"
    and ur: "0 < IE_BITS_UREFS (ie_bits en)" "IE_BITS_UREFS (ie_bits en) < MACH_PORT_UREFS_MAX"
    and ty: "IE_BITS_TYPE (ie_bits en) = MACH_PORT_TYPE_SEND \<or> IE_BITS_TYPE (ie_bits en) = MACH_PORT_TYPE_SEND_RECEIVE"
    using send_port [OF en(2) send] p by (metis ipc_object.inject(1) option.inject)
  note chk = ipc_right_check_live [OF st en(1) pe(1) p(3)] and u1 = send_urefs_range [OF ur(2)]
  let ?u = "IE_BITS_UREFS (ie_bits en)"
  have under: "MACH_PORT_UREFS_UNDERFLOW ?u delta \<longleftrightarrow> newrefs < 0" by (simp add: underflow_iff newrefs_def)
  have over: "0 \<le> newrefs \<Longrightarrow> MACH_PORT_UREFS_OVERFLOW (?u + 1) delta \<longleftrightarrow> 0xffff \<le> newrefs"
    using overflow_iff [of "?u + 1" delta] u1 by (auto simp: newrefs_def)
  show "newrefs < 0 \<Longrightarrow> ipc_right_delta K s n n MACH_PORT_RIGHT_SEND delta st = Some (KERN_INVALID_VALUE, st)"
    using st en(1) send under by (simp add: ipc_right_delta_def right_delta_send_def)
  show "0xffff \<le> newrefs \<Longrightarrow> ipc_right_delta K s n n MACH_PORT_RIGHT_SEND delta st = Some (KERN_UREFS_OVERFLOW, st)"
    using st en(1) send under over by (simp add: ipc_right_delta_def right_delta_send_def)
  assume t: "0 < newrefs" "newrefs < 0xffff"
  have sum: "uint (?u + delta) = newrefs" using t by (subst uint_add_sint) (simp_all add: newrefs_def)
  then have nz: "?u + delta \<noteq> 0" using t by auto
  have le: "?u + delta \<le> IE_BITS_UREFS_MASK" using sum t by (simp add: word_le_def IE_BITS_UREFS_MASK_def)
  have nm: "used s n st" "ie_name en = n"
    using right_of_names [OF st en(1)] ty by auto
  let ?f = "\<lambda>e. e\<lparr>ie_bits := ie_bits en + delta\<rparr>"
  have "map_option (ie_name \<circ> ?f) (entry_in s n st) = Some n" using en(1) nm by simp
  note uf = upd_entry_ok [OF st nm(1) this]
  have "ipc_right_delta K s n n MACH_PORT_RIGHT_SEND delta st = Some (KERN_SUCCESS, upd_entry s n ?f st)"
    using st en(1) send under over t chk p pe nz uf(1)
    by (simp add: ipc_right_delta_def right_delta_send_def obj_port_def Let_def)
  moreover have "entry_now s n (?f en) st (upd_entry s n ?f st)" by (rule entry_now_upd [OF st nm(1) en(1)]) (simp add: nm)
  ultimately show "ipc_right_delta K s n n MACH_PORT_RIGHT_SEND delta st = Some (KERN_SUCCESS, upd_entry s n ?f st) \<and>
      entry_now s n (?f en) st (upd_entry s n ?f st) \<and>
      uint (IE_BITS_UREFS (ie_bits en + delta)) = newrefs \<and> IE_BITS_TYPE (ie_bits en + delta) = IE_BITS_TYPE (ie_bits en) \<and>
      (ie_bits en + delta) AND IE_BITS_MAREQUEST = ie_bits en AND IE_BITS_MAREQUEST"
    using urefs_add(1) [OF le] urefs_add_fields [OF le] sum by simp
qed

section \<open>Properties\<close>

text \<open>
  C20: Releasing a name (\<^verbatim>\<open>ipc_right_dealloc\<close>) is the same as lowering its user references by one
  (\<^verbatim>\<open>ipc_right_delta\<close>) for the kind of right that the name denotes, in every state, with all notifications: a
  send right, a send-once right, a dead name, and a right that becomes a dead name because its port has died.
\<close>

theorem ipc_right_dealloc_delta:
  assumes "space_ok s st" "marequest_wf st" "entry_in s n st = Some en" "right_ok s n st en"
    "ie_bits en AND MACH_PORT_TYPE_SEND_RIGHTS \<noteq> 0 \<or> ie_bits en AND MACH_PORT_TYPE_DEAD_NAME \<noteq> 0"
  shows "ipc_right_dealloc K s n n st = ipc_right_delta K s n n (dealloc_right st en) (- 1) st"
  using assms by (rule dealloc_delta)

text \<open>A dead name with two user references.\<close>

definition example_dead :: ipc_entry where
  "example_dead = \<lparr>ie_name = 5, ie_bits = 0x100002, ie_object = IO_NULL, ie_request = 0\<rparr>"

lemma example_dead_ok:
  "right_ok s n st example_dead" "dealloc_right st example_dead = MACH_PORT_RIGHT_DEAD_NAME"
  "ie_bits example_dead AND MACH_PORT_TYPE_DEAD_NAME \<noteq> 0"
  by (auto intro!: right_ok.dead_name
    simp: example_dead_def IE_BITS_TYPE_def IE_BITS_UREFS_def bits_values dealloc_right_def right_dead_def)

theorem ipc_right_dealloc_delta_witness:
  "\<exists>sp. is_entries sp 5 = Some example_dead \<and>
     ipc_right_dealloc no_kobjects 2 5 5 (kernel_with sp new_port) =
     ipc_right_delta no_kobjects 2 5 5 MACH_PORT_RIGHT_DEAD_NAME (- 1) (kernel_with sp new_port)"
proof -
  obtain sp where sp: "space_wf sp" "is_active sp" "is_entries sp 5 = Some example_dead"
    using space_with_entry [of example_dead] by (auto simp: example_dead_def)
  then show ?thesis
    using ipc_right_dealloc_delta [of 2 "kernel_with sp new_port" 5 example_dead no_kobjects] example_dead_ok by auto
qed

text \<open>
  C21: Changing the user references of a send right by a signed \<^verbatim>\<open>delta\<close> is exact, for all 32-bit deltas: the sum, as integers, is refused as
  invalid if it is negative, and as an overflow if it is 65535 or more, both without effect; otherwise, while a reference remains, the sum
  is stored, and neither the type of the right nor its request flag changes.
\<close>

theorem ipc_right_delta_send_exact:
  assumes "space_ok s st" "entry_in s n st = Some en" "right_ok s n st en"
    "ie_object en = IO_PORT p" "k_ports st p = Some port" "ip_active port" "ie_bits en AND MACH_PORT_TYPE_SEND \<noteq> 0"
    "newrefs = uint (IE_BITS_UREFS (ie_bits en)) + sint delta" "newrefs \<noteq> 0"
  shows "if newrefs < 0 then ipc_right_delta K s n n MACH_PORT_RIGHT_SEND delta st = Some (KERN_INVALID_VALUE, st)
    else if 0xffff \<le> newrefs then ipc_right_delta K s n n MACH_PORT_RIGHT_SEND delta st = Some (KERN_UREFS_OVERFLOW, st)
    else \<exists>st' bits. ipc_right_delta K s n n MACH_PORT_RIGHT_SEND delta st = Some (KERN_SUCCESS, st') \<and>
      entry_now s n (en\<lparr>ie_bits := bits\<rparr>) st st' \<and> k_ports st' = k_ports st \<and> uint (IE_BITS_UREFS bits) = newrefs \<and>
      IE_BITS_TYPE bits = IE_BITS_TYPE (ie_bits en) \<and> bits AND IE_BITS_MAREQUEST = ie_bits en AND IE_BITS_MAREQUEST"
  using right_delta_send_ok [OF assms(1-7), of delta K, folded assms(8)] assms(9)
  by (auto intro!: exI [of _ "upd_entry s n (\<lambda>e. e\<lparr>ie_bits := ie_bits en + delta\<rparr>) st"] exI [of _ "ie_bits en + delta"])

text \<open>A receive right together with a send right that has three user references.\<close>

definition example_send_receive :: ipc_entry where
  "example_send_receive = \<lparr>ie_name = 5, ie_bits = 0x30003, ie_object = IO_PORT 7, ie_request = 0\<rparr>"

theorem ipc_right_delta_send_exact_witness:
  "\<exists>sp st' bits. is_entries sp 5 = Some example_send_receive \<and>
     ipc_right_delta no_kobjects 2 5 5 MACH_PORT_RIGHT_SEND 4 (kernel_with sp (example_port\<lparr>ip_srights := 1\<rparr>)) =
       Some (KERN_SUCCESS, st') \<and> entry_in 2 5 st' = Some (example_send_receive\<lparr>ie_bits := bits\<rparr>) \<and> uint (IE_BITS_UREFS bits) = 7"
proof -
  obtain sp where sp: "space_wf sp" "is_active sp" "is_entries sp 5 = Some example_send_receive"
    using space_with_entry [of example_send_receive] by (auto simp: example_send_receive_def)
  let ?port = "example_port\<lparr>ip_srights := 1\<rparr>"
  let ?st = "kernel_with sp ?port"
  have t: "IE_BITS_TYPE (ie_bits example_send_receive) = MACH_PORT_TYPE_SEND_RECEIVE" "IE_BITS_UREFS (ie_bits example_send_receive) = 3"
    by (simp_all add: example_send_receive_def IE_BITS_TYPE_def IE_BITS_UREFS_def bits_values)
  have "right_ok 2 5 ?st example_send_receive"
    by (rule send_receive [OF t(1), where p = 7 and port = ?port])
      (simp_all add: IE_BITS_UREFS_def IE_BITS_UREFS_MASK_def MACH_PORT_UREFS_MAX_def port_entry_ok_def example_send_receive_def example_port_def dn_port_wf_def
        new_port_def zero_port_def mar_ok_def IE_BITS_MAREQUEST_def receiver_ok_def io_active_bit io_makebits_def IO_BITS_ACTIVE_def
        IOT_PORT_def bit_or_iff)
  then have "\<exists>st' bits. ipc_right_delta no_kobjects 2 5 5 MACH_PORT_RIGHT_SEND 4 ?st = Some (KERN_SUCCESS, st') \<and>
      entry_now 2 5 (example_send_receive\<lparr>ie_bits := bits\<rparr>) ?st st' \<and> uint (IE_BITS_UREFS bits) = 7"
    using ipc_right_delta_send_exact [of 2 ?st 5 example_send_receive 7 ?port 7 4 no_kobjects] sp t send_receive_tests [OF t(1)]
    by (simp add: example_send_receive_def example_port_def) blast
  then show ?thesis using sp(3) entry_nowD(3) by fastforce
qed

end
