(* ===== verification/Net_Filter.thy ===== *)
theory Net_Filter
  imports Mach_Prelude
begin

text \<open>
  The native packet filters of \<^verbatim>\<open>device/net_io.c\<close>: the interpreter \<open>net_do_filter\<close>
  and the check \<open>parse_net_filter\<close> a filter passes before it is installed.

  A filter is a list of 16-bit words; word 0 holds flags.  The interpreter works on
  \<^verbatim>\<open>int stack[NET_FILTER_STACK_DEPTH+1]\<close>, which grows downwards, and indexes it without
  any check.  The model keeps the array and the index \<open>sp\<close>; a read or a write outside the
  array, the packet, the header or the filter is the value \<open>Fault\<close>.

  The contents of the array on entry are a parameter, and so is the result of a shift by
  32 or more (\<open>oshift\<close>), which C leaves open.
\<close>

unbundle bit_operations_syntax

type_synonym filter_t = "16 word"
type_synonym byte = "8 word"

abbreviation NET_MAX_FILTER :: nat where "NET_MAX_FILTER \<equiv> 128"
abbreviation NET_FILTER_STACK_DEPTH :: nat where "NET_FILTER_STACK_DEPTH \<equiv> 32"
abbreviation NET_RCV_MAX :: nat where "NET_RCV_MAX \<equiv> 4095"
abbreviation NET_HDW_HDR_MAX :: nat where "NET_HDW_HDR_MAX \<equiv> 64"

definition NETF_ARG :: "filter_t \<Rightarrow> 32 word" where
  "NETF_ARG word = ucast (word AND 0x3ff)"

definition NETF_OP :: "filter_t \<Rightarrow> 32 word" where
  "NETF_OP word = ucast (drop_bit 10 word AND 0x3f)"

text \<open>Operators, as \<open>NETF_OP\<close> extracts them.\<close>

abbreviation NETF_NOP :: "32 word" where "NETF_NOP \<equiv> 0"
abbreviation NETF_EQ :: "32 word" where "NETF_EQ \<equiv> 1"
abbreviation NETF_LT :: "32 word" where "NETF_LT \<equiv> 2"
abbreviation NETF_LE :: "32 word" where "NETF_LE \<equiv> 3"
abbreviation NETF_GT :: "32 word" where "NETF_GT \<equiv> 4"
abbreviation NETF_GE :: "32 word" where "NETF_GE \<equiv> 5"
abbreviation NETF_AND :: "32 word" where "NETF_AND \<equiv> 6"
abbreviation NETF_OR :: "32 word" where "NETF_OR \<equiv> 7"
abbreviation NETF_XOR :: "32 word" where "NETF_XOR \<equiv> 8"
abbreviation NETF_COR :: "32 word" where "NETF_COR \<equiv> 9"
abbreviation NETF_CAND :: "32 word" where "NETF_CAND \<equiv> 10"
abbreviation NETF_CNOR :: "32 word" where "NETF_CNOR \<equiv> 11"
abbreviation NETF_CNAND :: "32 word" where "NETF_CNAND \<equiv> 12"
abbreviation NETF_NEQ :: "32 word" where "NETF_NEQ \<equiv> 13"
abbreviation NETF_LSH :: "32 word" where "NETF_LSH \<equiv> 14"
abbreviation NETF_RSH :: "32 word" where "NETF_RSH \<equiv> 15"
abbreviation NETF_ADD :: "32 word" where "NETF_ADD \<equiv> 16"
abbreviation NETF_SUB :: "32 word" where "NETF_SUB \<equiv> 17"

text \<open>Arguments.\<close>

abbreviation NETF_NOPUSH :: "32 word" where "NETF_NOPUSH \<equiv> 0"
abbreviation NETF_PUSHLIT :: "32 word" where "NETF_PUSHLIT \<equiv> 1"
abbreviation NETF_PUSHZERO :: "32 word" where "NETF_PUSHZERO \<equiv> 2"
abbreviation NETF_PUSHIND :: "32 word" where "NETF_PUSHIND \<equiv> 14"
abbreviation NETF_PUSHHDRIND :: "32 word" where "NETF_PUSHHDRIND \<equiv> 15"
abbreviation NETF_PUSHWORD :: "32 word" where "NETF_PUSHWORD \<equiv> 16"
abbreviation NETF_PUSHHDR :: "32 word" where "NETF_PUSHHDR \<equiv> 960"
abbreviation NETF_PUSHSTK :: "32 word" where "NETF_PUSHSTK \<equiv> 992"

subsection \<open>The interpreter\<close>

text \<open>A step of an interpreter: an access outside the objects it works on, a
  \<^verbatim>\<open>return\<close>, or the values the next statement works with.\<close>

datatype ('a, 'r) step = Fault | Return 'r | Next 'a

definition step_bind :: "('a, 'r) step \<Rightarrow> ('a \<Rightarrow> ('b, 'r) step) \<Rightarrow> ('b, 'r) step" where
  "step_bind s f = (case s of Fault \<Rightarrow> Fault | Return r \<Rightarrow> Return r | Next a \<Rightarrow> f a)"

lemma step_bind_simps [simp]:
  "step_bind Fault f = Fault" "step_bind (Return r) f = Return r" "step_bind (Next a) f = f a"
  by (simp_all add: step_bind_def)

text \<open>\<^verbatim>\<open>((unsigned short * )buf)[i]\<close>, on a little-endian machine.\<close>

definition ushort_at :: "byte list \<Rightarrow> nat \<Rightarrow> (32 word, 'r) step" where
  "ushort_at buf i =
     (if 2 * i + 1 < length buf
      then Next (ucast (buf ! (2 * i)) OR push_bit 8 (ucast (buf ! (2 * i + 1)))) else Fault)"

definition stack_at :: "32 word list \<Rightarrow> nat \<Rightarrow> (32 word, 'r) step" where
  "stack_at stack i = (if i < length stack then Next (stack ! i) else Fault)"

definition stack_put :: "32 word list \<Rightarrow> nat \<Rightarrow> 32 word \<Rightarrow> (32 word list, 'r) step" where
  "stack_put stack i v = (if i < length stack then Next (stack[i := v]) else Fault)"

text \<open>The first switch: the value of the argument, the stack pointer after it, and the
  number of words it takes from the filter.\<close>

definition net_filter_arg ::
  "byte list \<Rightarrow> 32 word \<Rightarrow> byte list \<Rightarrow> filter_t list \<Rightarrow> 32 word list \<Rightarrow> nat \<Rightarrow> 32 word \<Rightarrow>
   (32 word \<times> nat \<times> nat, bool) step" where
  "net_filter_arg data data_count header fp stack sp arg =
     (if arg = NETF_NOPUSH then step_bind (stack_at stack sp) (\<lambda>v. Next (v, sp + 1, 0))
      else if arg = NETF_PUSHZERO then Next (0, sp, 0)
      else if arg = NETF_PUSHLIT then
        (case fp of [] \<Rightarrow> Fault | lit # _ \<Rightarrow> Next (ucast lit, sp, 1))
      else if arg = NETF_PUSHIND then
        step_bind (stack_at stack sp) (\<lambda>v.
        if v \<ge> data_count then Return False
        else step_bind (ushort_at data (unat v)) (\<lambda>w. Next (w, sp + 1, 0)))
      else if arg = NETF_PUSHHDRIND then
        step_bind (stack_at stack sp) (\<lambda>v.
        if v \<ge> of_nat (NET_HDW_HDR_MAX div 2) then Return False
        else step_bind (ushort_at header (unat v)) (\<lambda>w. Next (w, sp + 1, 0)))
      else if arg \<ge> NETF_PUSHSTK then
        step_bind (stack_at stack (sp + unat (arg - NETF_PUSHSTK))) (\<lambda>v. Next (v, sp, 0))
      else if arg \<ge> NETF_PUSHHDR then
        step_bind (ushort_at header (unat (arg - NETF_PUSHHDR))) (\<lambda>w. Next (w, sp, 0))
      else if arg - NETF_PUSHWORD \<ge> data_count then Return False
      else step_bind (ushort_at data (unat (arg - NETF_PUSHWORD))) (\<lambda>w. Next (w, sp, 0)))"

text \<open>The operators both switches list.\<close>

definition net_operators :: "32 word list" where
  "net_operators =
     [NETF_AND, NETF_OR, NETF_XOR, NETF_EQ, NETF_NEQ, NETF_LT, NETF_LE, NETF_GT, NETF_GE,
      NETF_COR, NETF_CAND, NETF_CNOR, NETF_CNAND, NETF_LSH, NETF_RSH, NETF_ADD, NETF_SUB]"

definition boolean :: "bool \<Rightarrow> 32 word" where
  "boolean b = (if b then 1 else 0)"

text \<open>The result of the operators that replace the top of the stack.  The comparisons are
  unsigned, since one side is, and the right shift keeps the sign of the stack word.\<close>

definition net_filter_binary ::
  "(bool \<Rightarrow> 32 word \<Rightarrow> 32 word \<Rightarrow> 32 word) \<Rightarrow> 32 word \<Rightarrow> 32 word \<Rightarrow> 32 word \<Rightarrow> 32 word" where
  "net_filter_binary oshift op v arg =
     (if op = NETF_AND then v AND arg
      else if op = NETF_OR then v OR arg
      else if op = NETF_XOR then v XOR arg
      else if op = NETF_EQ then boolean (v = arg)
      else if op = NETF_NEQ then boolean (v \<noteq> arg)
      else if op = NETF_LT then boolean (v < arg)
      else if op = NETF_LE then boolean (v \<le> arg)
      else if op = NETF_GT then boolean (v > arg)
      else if op = NETF_GE then boolean (v \<ge> arg)
      else if op = NETF_LSH then (if arg < 32 then push_bit (unat arg) v else oshift True v arg)
      else if op = NETF_RSH then
        (if arg < 32 then signed_drop_bit (unat arg) v else oshift False v arg)
      else if op = NETF_ADD then v + arg
      else v - arg)"

definition net_filter_op ::
  "(bool \<Rightarrow> 32 word \<Rightarrow> 32 word \<Rightarrow> 32 word) \<Rightarrow> 32 word \<Rightarrow> 32 word \<Rightarrow> 32 word list \<Rightarrow> nat \<Rightarrow>
   (32 word list \<times> nat, bool) step" where
  "net_filter_op oshift op arg stack sp =
     (if op = NETF_NOP then
        (if sp = 0 then Fault
         else step_bind (stack_put stack (sp - 1) arg) (\<lambda>stack. Next (stack, sp - 1)))
      else if op = NETF_COR then
        step_bind (stack_at stack sp) (\<lambda>v. if v = arg then Return True else Next (stack, sp + 1))
      else if op = NETF_CAND then
        step_bind (stack_at stack sp) (\<lambda>v. if v \<noteq> arg then Return False else Next (stack, sp + 1))
      else if op = NETF_CNOR then
        step_bind (stack_at stack sp) (\<lambda>v. if v = arg then Return False else Next (stack, sp + 1))
      else if op = NETF_CNAND then
        step_bind (stack_at stack sp) (\<lambda>v. if v \<noteq> arg then Return True else Next (stack, sp + 1))
      else if op \<in> set net_operators then
        step_bind (stack_at stack sp) (\<lambda>v.
        step_bind (stack_put stack sp (net_filter_binary oshift op v arg)) (\<lambda>stack.
        Next (stack, sp)))
      else Next (stack, sp))"

fun net_filter_loop ::
  "(bool \<Rightarrow> 32 word \<Rightarrow> 32 word \<Rightarrow> 32 word) \<Rightarrow> byte list \<Rightarrow> 32 word \<Rightarrow> byte list \<Rightarrow>
   filter_t list \<Rightarrow> 32 word list \<Rightarrow> nat \<Rightarrow> bool option" where
  "net_filter_loop oshift data data_count header [] stack sp =
     (case stack_at stack sp of Next v \<Rightarrow> Some (v \<noteq> 0) | Return b \<Rightarrow> Some b | Fault \<Rightarrow> None)"
| "net_filter_loop oshift data data_count header (word # fp) stack sp =
     (case net_filter_arg data data_count header fp stack sp (NETF_ARG word) of
        Fault \<Rightarrow> None
      | Return b \<Rightarrow> Some b
      | Next (arg, sp, taken) \<Rightarrow>
          (case net_filter_op oshift (NETF_OP word) arg stack sp of
             Fault \<Rightarrow> None
           | Return b \<Rightarrow> Some b
           | Next (stack, sp) \<Rightarrow>
               net_filter_loop oshift data data_count header (drop taken fp) stack sp))"

definition net_do_filter ::
  "(bool \<Rightarrow> 32 word \<Rightarrow> 32 word \<Rightarrow> 32 word) \<Rightarrow> 32 word list \<Rightarrow> filter_t list \<Rightarrow> byte list \<Rightarrow> 32 word \<Rightarrow>
   byte list \<Rightarrow> bool option" where
  "net_do_filter oshift stack fil data data_count header =
     net_filter_loop oshift data (data_count div 2) header (tl fil)
       (stack[NET_FILTER_STACK_DEPTH := 1]) NET_FILTER_STACK_DEPTH"

subsection \<open>The check\<close>

text \<open>The stack pointer after the argument of a word, and the number of words the
  argument takes; \<open>None\<close> is \<^verbatim>\<open>return (FALSE)\<close>.\<close>

definition parse_net_arg :: "32 word \<Rightarrow> filter_t list \<Rightarrow> int \<Rightarrow> (int \<times> nat) option" where
  "parse_net_arg arg fp sp =
     (if arg = NETF_NOPUSH then Some (sp, 0)
      else if arg = NETF_PUSHZERO then Some (sp - 1, 0)
      else if arg = NETF_PUSHLIT then (if fp = [] then None else Some (sp - 1, 1))
      else if arg = NETF_PUSHIND \<or> arg = NETF_PUSHHDRIND then Some (sp, 0)
      else if arg \<ge> NETF_PUSHSTK then
        (if uint (arg - NETF_PUSHSTK) + sp > int NET_FILTER_STACK_DEPTH then None
         else Some (sp - 1, 0))
      else if arg \<ge> NETF_PUSHHDR then
        (if unat (arg - NETF_PUSHHDR) \<ge> NET_HDW_HDR_MAX div 2 then None else Some (sp - 1, 0))
      else Some (sp - 1, 0))"

fun parse_net_loop :: "filter_t list \<Rightarrow> int \<Rightarrow> bool" where
  "parse_net_loop [] sp = True"
| "parse_net_loop (word # fp) sp =
     (case parse_net_arg (NETF_ARG word) fp sp of
        None \<Rightarrow> False
      | Some (sp, taken) \<Rightarrow>
          if sp < 2 then False
          else if NETF_OP word = NETF_NOP then parse_net_loop (drop taken fp) sp
          else if sp > int NET_MAX_FILTER - 2 then False
          else if NETF_OP word \<notin> set net_operators then False
          else parse_net_loop (drop taken fp) (sp + 1))"

definition parse_net_filter :: "filter_t list \<Rightarrow> bool" where
  "parse_net_filter fil = parse_net_loop (tl fil) (int NET_FILTER_STACK_DEPTH)"

subsection \<open>Safety of accepted filters\<close>

text \<open>The depth the operators need.  \<open>net_stack_ok fp sp\<close> follows the stack pointer of the
  interpreter through the filter and asks that nothing above the array is read; it is the
  condition the check means to establish with its tests against \<^verbatim>\<open>NET_MAX_FILTER\<close> and
  \<^verbatim>\<open>NET_FILTER_STACK_DEPTH\<close>.\<close>

definition net_arg_pops :: "32 word \<Rightarrow> bool" where
  "net_arg_pops arg = (arg = NETF_NOPUSH \<or> arg = NETF_PUSHIND \<or> arg = NETF_PUSHHDRIND)"

definition net_arg_taken :: "32 word \<Rightarrow> nat" where
  "net_arg_taken arg = (if arg = NETF_PUSHLIT then 1 else 0)"

definition short_circuit :: "32 word \<Rightarrow> bool" where
  "short_circuit op = (op = NETF_COR \<or> op = NETF_CAND \<or> op = NETF_CNOR \<or> op = NETF_CNAND)"

fun net_stack_ok :: "filter_t list \<Rightarrow> nat \<Rightarrow> bool" where
  "net_stack_ok [] sp = (sp \<le> NET_FILTER_STACK_DEPTH)"
| "net_stack_ok (word # fp) sp =
     (let arg = NETF_ARG word; op = NETF_OP word;
          sp1 = (if net_arg_pops arg then sp + 1 else sp);
          rest = drop (net_arg_taken arg) fp in
      (net_arg_pops arg \<longrightarrow> sp \<le> NET_FILTER_STACK_DEPTH) \<and>
      (arg \<ge> NETF_PUSHSTK \<longrightarrow> sp + unat (arg - NETF_PUSHSTK) \<le> NET_FILTER_STACK_DEPTH) \<and>
      (if op = NETF_NOP then net_stack_ok rest (sp1 - 1)
       else sp1 \<le> NET_FILTER_STACK_DEPTH \<and>
            net_stack_ok rest (if short_circuit op then sp1 + 1 else sp1)))"

definition step_ok :: "('r \<Rightarrow> bool) \<Rightarrow> ('a \<Rightarrow> bool) \<Rightarrow> ('a, 'r) step \<Rightarrow> bool" where
  "step_ok R Q s = (case s of Fault \<Rightarrow> False | Return r \<Rightarrow> R r | Next a \<Rightarrow> Q a)"

lemma step_ok_simps [simp]:
  "\<not> step_ok R Q Fault" "step_ok R Q (Return r) = R r" "step_ok R Q (Next a) = Q a"
  by (simp_all add: step_ok_def)

lemma step_ok_cases [consumes 1]:
  assumes "step_ok R Q s"
  obtains (returns) r where "s = Return r" "R r" | (proceeds) a where "s = Next a" "Q a"
  using assms by (cases s) auto

lemma step_ok_bind:
  assumes "step_ok R P s" "\<And>a. P a \<Longrightarrow> step_ok R Q (f a)"
  shows "step_ok R Q (step_bind s f)"
  using assms by (cases s) auto

lemma stack_at_in: "i < length stack \<Longrightarrow> stack_at stack i = Next (stack ! i)"
  by (simp add: stack_at_def)

lemma stack_put_in: "i < length stack \<Longrightarrow> stack_put stack i v = Next (stack[i := v])"
  by (simp add: stack_put_def)

lemma data_word_in:
  assumes "v < n" "2 * unat n \<le> length data"
  shows "2 * unat v + 1 < length data"
  using assms by (simp add: word_less_nat_alt)

lemma header_word_in:
  assumes "\<not> NETF_PUSHSTK \<le> arg" "NETF_PUSHHDR \<le> arg" 
  shows "unat (arg - NETF_PUSHHDR) < 32"
proof -
  have "unat (arg - NETF_PUSHHDR) = unat arg - 960"
    using assms(2) unat_sub [OF assms(2)] by simp
  moreover have "unat arg < 992" using assms(1) by (simp add: word_le_nat_alt)
  ultimately show ?thesis by simp
qed

text \<open>The two switches agree with the check about the stack pointer.\<close>

lemma net_filter_arg_ok:
  assumes "parse_net_arg arg fp psp = Some (psp', taken)"
    and "net_arg_pops arg \<longrightarrow> sp \<le> 32"
    and "arg \<ge> NETF_PUSHSTK \<longrightarrow> sp + unat (arg - NETF_PUSHSTK) \<le> 32"
    and "length stack = 33" "length header = 64" "2 * unat data_count \<le> length data"
  shows "step_ok (\<lambda>_. True) (\<lambda>(v, sp', n). sp' = (if net_arg_pops arg then sp + 1 else sp) \<and> n = taken)
           (net_filter_arg data data_count header fp stack sp arg)"
proof -
  have hi: "2 * unat v + 1 < length header" if "v < 32" for v :: "32 word"
    using that assms(5) by (simp add: word_less_nat_alt)
  show ?thesis
    using assms data_word_in [OF _ assms(6)] hi header_word_in [of arg]
    by (auto simp: net_filter_arg_def parse_net_arg_def net_arg_pops_def stack_at_in
        ushort_at_def not_le split: if_splits list.splits)
qed

lemma parse_net_arg_values:
  assumes "parse_net_arg arg fp psp = Some (psp', taken)"
  shows "taken = net_arg_taken arg" "psp' = (if net_arg_pops arg then psp else psp - 1)"
  using assms by (auto simp: parse_net_arg_def net_arg_pops_def net_arg_taken_def split: if_splits)

lemma net_filter_op_ok:
  assumes "length stack = 33" "op = NETF_NOP \<or> op \<in> set net_operators"
    and "op = NETF_NOP \<longrightarrow> 1 \<le> sp \<and> sp \<le> 33" "op \<noteq> NETF_NOP \<longrightarrow> sp \<le> 32"
  shows "step_ok (\<lambda>_. True) (\<lambda>(stack', sp'). length stack' = 33 \<and>
             sp' = (if op = NETF_NOP then sp - 1 else if short_circuit op then sp + 1 else sp))
           (net_filter_op oshift op arg stack sp)"
proof (cases "op = NETF_NOP")
  case True
  then show ?thesis
    using assms by (auto simp: net_filter_op_def stack_put_def)
next
  case False
  then show ?thesis
    using assms by (auto simp: net_filter_op_def short_circuit_def stack_at_in stack_put_in)
qed

lemma net_filter_loop_ok:
  assumes "parse_net_loop fp psp" "net_stack_ok fp sp" "psp \<le> int sp" "sp \<le> 33"
    and "length stack = 33" "length header = 64" "2 * unat data_count \<le> length data"
  shows "\<exists>b. net_filter_loop oshift data data_count header fp stack sp = Some b"
  using assms(1-5)
proof (induction fp psp arbitrary: sp stack rule: parse_net_loop.induct)
  case (1 psp)
  then show ?case by (simp add: stack_at_in)
next
  case (2 word fp psp)
  define arg where "arg = NETF_ARG word"
  define op where "op = NETF_OP word"
  define sp1 where "sp1 = (if net_arg_pops arg then sp + 1 else sp)"
  obtain psp' taken where p: "parse_net_arg arg fp psp = Some (psp', taken)"
    and pl: "2 \<le> psp'" and opv: "op = NETF_NOP \<or> op \<in> set net_operators"
    and rest: "parse_net_loop (drop taken fp) (if op = NETF_NOP then psp' else psp' + 1)"
    using 2(3) by (auto simp: arg_def op_def split: option.splits if_splits)
  have s: "net_arg_pops arg \<longrightarrow> sp \<le> 32"
      "arg \<ge> NETF_PUSHSTK \<longrightarrow> sp + unat (arg - NETF_PUSHSTK) \<le> 32"
      "op \<noteq> NETF_NOP \<longrightarrow> sp1 \<le> 32"
      "net_stack_ok (drop (net_arg_taken arg) fp)
         (if op = NETF_NOP then sp1 - 1 else if short_circuit op then sp1 + 1 else sp1)"
    using 2(4) by (auto simp: Let_def arg_def op_def sp1_def)
  have low: "psp \<le> int sp" and high: "sp \<le> 33" and len: "length stack = 33"
    using 2(5-7) by auto
  have IH: "\<exists>b. net_filter_loop oshift data data_count header (drop taken fp) stack' sp' = Some b"
    if "net_stack_ok (drop taken fp) sp'" "(if op = NETF_NOP then psp' else psp' + 1) \<le> int sp'" 
      "sp' \<le> 33" "length stack' = 33" for sp' stack'
    using 2(1) [OF p [unfolded arg_def] refl _ _ _ that(1) _ that(3,4)]
      2(2) [OF p [unfolded arg_def] refl _ _ _ _ _ that(1) _ that(3,4)] 2(3) p pl that(2)
    by (auto simp: arg_def op_def split: if_splits)
  note tk = parse_net_arg_values [OF p]
  from net_filter_arg_ok [OF p s(1,2) 2(7) assms(6,7)] show ?case
  proof (cases rule: step_ok_cases)
    case (returns r)
    then show ?thesis by (simp add: arg_def)
  next
    case (proceeds a)
    then obtain v where got: "net_filter_arg data data_count header fp stack sp arg = Next (v, sp1, taken)"
      by (cases a) (auto simp: sp1_def)
    have b: "op = NETF_NOP \<longrightarrow> 1 \<le> sp1 \<and> sp1 \<le> 33"
      using tk pl low high s(1) by (auto simp: sp1_def split: if_splits)
    let ?sp = "if op = NETF_NOP then sp1 - 1 else if short_circuit op then sp1 + 1 else sp1"
    from net_filter_op_ok [OF len opv b s(3), where arg = v and oshift = oshift]
    show ?thesis
    proof (cases rule: step_ok_cases)
      case (returns r)
      then show ?thesis using got by (simp add: arg_def op_def)
    next
      case (proceeds c)
      then obtain stack' where l: "length stack' = 33"
        and n: "net_filter_op oshift op v stack sp1 = Next (stack', ?sp)"
        by (cases c) auto
      have "(if op = NETF_NOP then psp' else psp' + 1) \<le> int ?sp" "?sp \<le> 33"
        using tk low b s(3) by (auto simp: sp1_def split: if_splits)
      from IH [OF s(4) [folded tk(1)] this l]
      show ?thesis using got n by (simp add: arg_def op_def)
    qed
  qed
qed

text \<open>Where every operator brings its own operand and none is a short-circuit operator, the
  stack pointer of the check is that of the interpreter and never rises above the array.\<close>

fun net_own_operands :: "filter_t list \<Rightarrow> bool" where
  "net_own_operands [] = True"
| "net_own_operands (word # fp) =
     ((NETF_OP word = NETF_NOP \<or> \<not> net_arg_pops (NETF_ARG word) \<and> \<not> short_circuit (NETF_OP word)) \<and>
      net_own_operands (drop (net_arg_taken (NETF_ARG word)) fp))"

lemma parse_net_arg_stack:
  assumes "parse_net_arg arg fp (int sp) = Some (psp', taken)" "arg \<ge> NETF_PUSHSTK"
  shows "sp + unat (arg - NETF_PUSHSTK) \<le> 32"
proof -
  have "uint (arg - NETF_PUSHSTK) + int sp \<le> 32"
    using assms by (auto simp: parse_net_arg_def word_le_nat_alt split: if_splits)
  then show ?thesis using uint_nat [of "arg - NETF_PUSHSTK"] by linarith
qed

lemma parse_net_stack_ok:
  assumes "parse_net_loop fp psp" "psp = int sp" "net_own_operands fp" "sp \<le> 32"
  shows "net_stack_ok fp sp"
  using assms
proof (induction fp psp arbitrary: sp rule: parse_net_loop.induct)
  case (1 psp)
  then show ?case by simp
next
  case (2 word fp psp)
  define arg where "arg = NETF_ARG word"
  define op where "op = NETF_OP word"
  obtain psp' taken where p: "parse_net_arg arg fp (int sp) = Some (psp', taken)"
    and pl: "2 \<le> psp'"
    and rest: "parse_net_loop (drop taken fp) (if op = NETF_NOP then psp' else psp' + 1)"
    using 2(3,4) by (auto simp: arg_def op_def split: option.splits if_splits)
  note tk = parse_net_arg_values [OF p]
  have own: "op = NETF_NOP \<or> \<not> net_arg_pops arg \<and> \<not> short_circuit op"
      "net_own_operands (drop taken fp)"
    using 2(5) tk(1) by (auto simp: arg_def op_def)
  define sp' where "sp' = (if op = NETF_NOP \<and> \<not> net_arg_pops arg then sp - 1 else sp)"
  have sp': "(if op = NETF_NOP then psp' else psp' + 1) = int sp'" "sp' \<le> 32"
    using tk(2) pl own(1) 2(6) by (auto simp: sp'_def split: if_splits)
  have "net_stack_ok (drop taken fp) sp'"
    using 2(1) [OF p [folded 2(4), unfolded arg_def] refl, of sp']
      2(2) [OF p [folded 2(4), unfolded arg_def] refl, of sp'] 2(3,4) p pl sp' own(2)
    by (auto simp: arg_def op_def split: if_splits)
  then show ?case
    using own(1) tk(1) 2(6) parse_net_arg_stack [OF p]
    by (auto simp: Let_def sp'_def short_circuit_def simp flip: arg_def op_def split: if_splits)
qed

text \<open>
  C13: A filter the check accepts, whose operators never reach above the stack
  (\<open>net_stack_ok\<close>), runs to a verdict on every packet: the interpreter stays within its
  stack, the filter, the packet and the header, whatever they hold.  The check itself rules
  out overflow of the stack, missing literals, header words out of range and unknown
  operators.\<close>

theorem net_do_filter_safe:
  assumes "parse_net_filter fil" "net_stack_ok (tl fil) NET_FILTER_STACK_DEPTH"
    and "length stack = NET_FILTER_STACK_DEPTH + 1" "length header = NET_HDW_HDR_MAX"
    and "unat data_count \<le> length data"
  shows "\<exists>verdict. net_do_filter oshift stack fil data data_count header = Some verdict"
proof -
  have "2 * unat (data_count div 2) \<le> length data"
    using assms(5) by (simp add: unat_div)
  then show ?thesis
    using assms(1-4) unfolding net_do_filter_def parse_net_filter_def
    by (intro net_filter_loop_ok) auto
qed

theorem net_do_filter_safe_witness:
  "\<exists>verdict. net_do_filter (\<lambda>_ _ _. 0) (replicate 33 7) [1, 0x16, 0x401, 8] (replicate 60 0) 60
     (replicate 64 0) = Some verdict"
  by (rule net_do_filter_safe)
     (simp_all add: parse_net_filter_def parse_net_arg_def NETF_ARG_def NETF_OP_def net_operators_def
        net_arg_pops_def net_arg_taken_def short_circuit_def word_le_nat_alt)

text \<open>
  The check does not establish \<open>net_stack_ok\<close>.  Its test for underflow compares the stack
  pointer with \<^verbatim>\<open>NET_MAX_FILTER-2\<close>, the bound on the length of a filter, and a word with an
  operator but no operand of its own reads the word above the stack.\<close>

lemma parse_net_filter_underflow:
  "parse_net_filter [1, 0x1800] \<and>
   net_do_filter oshift (replicate 33 v) [1, 0x1800] data n header = None"
  by (simp add: parse_net_filter_def parse_net_arg_def net_do_filter_def NETF_ARG_def NETF_OP_def
      net_operators_def net_filter_arg_def net_filter_op_def stack_at_def)

text \<open>The check takes the short-circuit operators for operators that leave a result; the
  interpreter pops their operand and leaves none.\<close>

lemma parse_net_filter_short_circuit:
  "parse_net_filter [1, 0x2801, 1] \<and>
   net_do_filter oshift (replicate 33 v) [1, 0x2801, 1] data n header = None"
  by (simp add: parse_net_filter_def parse_net_arg_def net_do_filter_def NETF_ARG_def NETF_OP_def
      net_operators_def net_filter_arg_def net_filter_op_def stack_at_def)


end
