(* ===== verification/Bpf_Filter.thy ===== *)
theory Bpf_Filter
  imports Net_Filter
begin

text \<open>
  The BPF packet filters of \<^verbatim>\<open>device/net_io.c\<close> and \<^verbatim>\<open>device/bpf.h\<close>: the interpreter
  \<open>bpf_do_filter\<close>, the check \<open>bpf_validate\<close> a program passes before it is installed, and
  the hash tables of the programs with a match instruction.

  A program is a list of instructions; instruction 0 holds flags.  The program counter is an
  integer index into that list, since the jumps are not all forward.  The interpreter reads
  and writes \<^verbatim>\<open>mem\<close>, the header, the packet and the program without checks of its own; an
  access outside of them is \<open>Fault\<close>.  The length of an installed program is taken to be a
  multiple of the size of an instruction.

  The main loop need not end, so \<open>bpf_loop\<close> is given the number of instructions it may
  execute, and \<open>None\<close> says that it has not returned by then.
\<close>

record bpf_insn =
  code :: "16 word"
  jt :: "8 word"
  jf :: "8 word"
  k :: "32 word"

abbreviation BPF_LD :: "16 word" where "BPF_LD \<equiv> 0"
abbreviation BPF_LDX :: "16 word" where "BPF_LDX \<equiv> 0x01"
abbreviation BPF_ST :: "16 word" where "BPF_ST \<equiv> 0x02"
abbreviation BPF_STX :: "16 word" where "BPF_STX \<equiv> 0x03"
abbreviation BPF_ALU :: "16 word" where "BPF_ALU \<equiv> 0x04"
abbreviation BPF_JMP :: "16 word" where "BPF_JMP \<equiv> 0x05"
abbreviation BPF_RET :: "16 word" where "BPF_RET \<equiv> 0x06"
abbreviation BPF_MISC :: "16 word" where "BPF_MISC \<equiv> 0x07"
abbreviation BPF_W :: "16 word" where "BPF_W \<equiv> 0"
abbreviation BPF_H :: "16 word" where "BPF_H \<equiv> 0x08"
abbreviation BPF_B :: "16 word" where "BPF_B \<equiv> 0x10"
abbreviation BPF_IMM :: "16 word" where "BPF_IMM \<equiv> 0"
abbreviation BPF_ABS :: "16 word" where "BPF_ABS \<equiv> 0x20"
abbreviation BPF_IND :: "16 word" where "BPF_IND \<equiv> 0x40"
abbreviation BPF_MEM :: "16 word" where "BPF_MEM \<equiv> 0x60"
abbreviation BPF_LEN :: "16 word" where "BPF_LEN \<equiv> 0x80"
abbreviation BPF_MSH :: "16 word" where "BPF_MSH \<equiv> 0xa0"
abbreviation BPF_ADD :: "16 word" where "BPF_ADD \<equiv> 0"
abbreviation BPF_SUB :: "16 word" where "BPF_SUB \<equiv> 0x10"
abbreviation BPF_MUL :: "16 word" where "BPF_MUL \<equiv> 0x20"
abbreviation BPF_DIV :: "16 word" where "BPF_DIV \<equiv> 0x30"
abbreviation BPF_OR :: "16 word" where "BPF_OR \<equiv> 0x40"
abbreviation BPF_AND :: "16 word" where "BPF_AND \<equiv> 0x50"
abbreviation BPF_LSH :: "16 word" where "BPF_LSH \<equiv> 0x60"
abbreviation BPF_RSH :: "16 word" where "BPF_RSH \<equiv> 0x70"
abbreviation BPF_NEG :: "16 word" where "BPF_NEG \<equiv> 0x80"
abbreviation BPF_JA :: "16 word" where "BPF_JA \<equiv> 0"
abbreviation BPF_JEQ :: "16 word" where "BPF_JEQ \<equiv> 0x10"
abbreviation BPF_JGT :: "16 word" where "BPF_JGT \<equiv> 0x20"
abbreviation BPF_JGE :: "16 word" where "BPF_JGE \<equiv> 0x30"
abbreviation BPF_JSET :: "16 word" where "BPF_JSET \<equiv> 0x40"
abbreviation BPF_K :: "16 word" where "BPF_K \<equiv> 0"
abbreviation BPF_X :: "16 word" where "BPF_X \<equiv> 0x08"
abbreviation BPF_A :: "16 word" where "BPF_A \<equiv> 0x10"
abbreviation BPF_MATCH_IMM :: "16 word" where "BPF_MATCH_IMM \<equiv> 0x18"
abbreviation BPF_TAX :: "16 word" where "BPF_TAX \<equiv> 0"
abbreviation BPF_TXA :: "16 word" where "BPF_TXA \<equiv> 0x80"
abbreviation BPF_KEY :: "16 word" where "BPF_KEY \<equiv> 0x10"

abbreviation BPF_MEMWORDS :: nat where "BPF_MEMWORDS \<equiv> 16"
abbreviation NET_HASH_SIZE :: nat where "NET_HASH_SIZE \<equiv> 256"
abbreviation N_NET_HASH_KEYS :: nat where "N_NET_HASH_KEYS \<equiv> 4"

definition BPF_CLASS :: "16 word \<Rightarrow> 16 word" where "BPF_CLASS c = c AND 0x07"

definition BPF_OP :: "16 word \<Rightarrow> 16 word" where "BPF_OP c = c AND 0xf0"

definition BPF_MODE :: "16 word \<Rightarrow> 16 word" where "BPF_MODE c = c AND 0xe0"

definition BPF_BYTES2LEN :: "nat \<Rightarrow> nat" where "BPF_BYTES2LEN n = n div 8"

subsection \<open>Hash tables\<close>

text \<open>A bucket is the circular queue its head is part of, as a list from the head on; the
  empty list is the null pointer.\<close>

record net_hash_entry =
  he_rcv_port :: "nat option"
  he_rcv_qlimit :: "32 word"
  he_keys :: "32 word list"

record net_hash_header =
  hh_n_keys :: nat
  hh_ref_count :: int
  hh_table :: "net_hash_entry list list"

definition bpf_hash :: "nat \<Rightarrow> 32 word list \<Rightarrow> 32 word" where
  "bpf_hash n keys = sum_list (take n keys) mod of_nat NET_HASH_SIZE"

text \<open>\<open>bpf_match\<close> returns the bucket it looked at and the entry found.\<close>

definition bpf_match :: "net_hash_header \<Rightarrow> nat \<Rightarrow> 32 word list \<Rightarrow> (32 word \<times> net_hash_entry) option" where
  "bpf_match hash n_keys keys =
     (if n_keys \<noteq> hh_n_keys hash then None
      else let b = bpf_hash n_keys keys in
        map_option (Pair b)
          (find (\<lambda>entp. take n_keys keys = take n_keys (he_keys entp)) (hh_table hash ! unat b)))"

subsection \<open>The interpreter\<close>

text \<open>What the filter runs on.  \<open>net_rcv_port\<close> is the part of the structure the interpreter
  reads; the programs with a match instruction live in a \<^verbatim>\<open>struct net_hash_header\<close>, whose first
  member it is.  The packet starts with its \<^verbatim>\<open>struct packet_header\<close> of 4 bytes, which
  \<open>net_filter\<close> steps over: \<^verbatim>\<open>p\<close> points to byte 4.\<close>

record net_rcv_port =
  rcv_port :: "nat option"
  rcv_hash :: "net_hash_header option"
  rcv_filter :: "bpf_insn list"

record net_rcv_msg =
  nm_header :: "byte list"
  nm_packet :: "byte list"

abbreviation sizeof_packet_header :: int where "sizeof_packet_header \<equiv> 4"

record bpf_state =
  bs_A :: "32 word"
  bs_X :: "32 word"
  bs_mem :: "32 word list"

text \<open>The value returned, and the entry a match has found.\<close>

type_synonym bpf_verdict = "32 word \<times> net_hash_entry option"

definition bytes_at :: "byte list \<Rightarrow> int \<Rightarrow> nat \<Rightarrow> (byte list, 'r) step" where
  "bytes_at buf i n =
     (if 0 \<le> i \<and> i + int n \<le> int (length buf) then Next (take n (drop (nat i) buf)) else Fault)"

text \<open>Network byte order.\<close>

definition ntoh :: "byte list \<Rightarrow> 32 word" where
  "ntoh bs = foldl (\<lambda>acc b. push_bit 8 acc OR ucast b) 0 bs"

text \<open>The bytes an offset \<open>k\<close> of the program stands for: the header, then the packet from
  \<^verbatim>\<open>p\<close> on.  Offsets whose bytes do not fit in the header are taken to be in the packet.\<close>

definition bpf_data :: "net_rcv_msg \<Rightarrow> 32 word \<Rightarrow> 32 word \<Rightarrow> nat \<Rightarrow> (byte list, bpf_verdict) step" where
  "bpf_data msg hlen kk n =
     (if unat kk + n \<le> unat hlen then bytes_at (nm_header msg) (sint kk) n
      else if unat kk + n \<le> NET_RCV_MAX
      then bytes_at (nm_packet msg) (sizeof_packet_header + sint (kk - hlen)) n
      else Return (0, None))"

definition load_word :: "net_rcv_msg \<Rightarrow> 32 word \<Rightarrow> 32 word \<Rightarrow> (32 word, bpf_verdict) step" where
  "load_word msg hlen kk = step_bind (bpf_data msg hlen kk 4) (\<lambda>bs. Next (ntoh bs))"

definition load_half :: "net_rcv_msg \<Rightarrow> 32 word \<Rightarrow> 32 word \<Rightarrow> (32 word, bpf_verdict) step" where
  "load_half msg hlen kk = step_bind (bpf_data msg hlen kk 2) (\<lambda>bs. Next (ntoh bs))"

text \<open>\<^verbatim>\<open>data\<close> points to \<^verbatim>\<open>char\<close>, which is signed.\<close>

definition load_byte :: "net_rcv_msg \<Rightarrow> 32 word \<Rightarrow> 32 word \<Rightarrow> (32 word, bpf_verdict) step" where
  "load_byte msg hlen kk = step_bind (bpf_data msg hlen kk 1) (\<lambda>bs. Next (scast (hd bs)))"

definition mem_get :: "32 word list \<Rightarrow> 32 word \<Rightarrow> (32 word, 'r) step" where
  "mem_get mem i = (if 0 \<le> sint i \<and> nat (sint i) < length mem then Next (mem ! nat (sint i)) else Fault)"

definition mem_put :: "32 word list \<Rightarrow> 32 word \<Rightarrow> 32 word \<Rightarrow> (32 word list, 'r) step" where
  "mem_put mem i v = (if 0 \<le> sint i \<and> nat (sint i) < length mem then Next (mem[nat (sint i) := v]) else Fault)"

text \<open>The cases of the switch, a group of case labels each.  \<^verbatim>\<open>*entpp\<close> is null wherever it is
  tested, since only a match sets it and that returns.  A group that has no label for
  the code is \<open>None\<close>; the labels are distinct, and a code without a label makes the filter
  return 0.\<close>

definition bpf_clamp :: "32 word \<Rightarrow> 32 word \<Rightarrow> 32 word" where
  "bpf_clamp n wirelen = (if n \<le> wirelen then n else wirelen)"

definition bpf_ret ::
  "net_rcv_port \<Rightarrow> 32 word \<Rightarrow> bpf_insn \<Rightarrow> bpf_state \<Rightarrow> (int \<times> bpf_state, bpf_verdict) step option" where
  "bpf_ret infp wirelen p st =
     (if code p = BPF_RET OR BPF_K then
        Some (if rcv_port infp = None then Return (0, None) else Return (bpf_clamp (k p) wirelen, None))
      else if code p = BPF_RET OR BPF_A then
        Some (if rcv_port infp = None then Return (0, None) else Return (bpf_clamp (bs_A st) wirelen, None))
      else if code p = BPF_RET OR BPF_MATCH_IMM then
        Some (case rcv_hash infp of
                None \<Rightarrow> Fault
              | Some hash \<Rightarrow>
                  if length (bs_mem st) < unat (jt p) then Fault
                  else (case bpf_match hash (unat (jt p)) (bs_mem st) of
                          None \<Rightarrow> Return (0, None)
                        | Some (b, entp) \<Rightarrow> Return (bpf_clamp (k p) wirelen, Some entp)))
      else None)"

definition set_A :: "bpf_state \<Rightarrow> (32 word, bpf_verdict) step \<Rightarrow> (int \<times> bpf_state, bpf_verdict) step" where
  "set_A st s = step_bind s (\<lambda>v. Next (0, st\<lparr>bs_A := v\<rparr>))"

definition set_X :: "bpf_state \<Rightarrow> (32 word, bpf_verdict) step \<Rightarrow> (int \<times> bpf_state, bpf_verdict) step" where
  "set_X st s = step_bind s (\<lambda>v. Next (0, st\<lparr>bs_X := v\<rparr>))"

definition set_mem :: "bpf_state \<Rightarrow> (32 word list, bpf_verdict) step \<Rightarrow> (int \<times> bpf_state, bpf_verdict) step" where
  "set_mem st s = step_bind s (\<lambda>m. Next (0, st\<lparr>bs_mem := m\<rparr>))"

definition bpf_ld ::
  "net_rcv_msg \<Rightarrow> 32 word \<Rightarrow> 32 word \<Rightarrow> bpf_insn \<Rightarrow> bpf_state \<Rightarrow> (int \<times> bpf_state, bpf_verdict) step option" where
  "bpf_ld msg wirelen hlen p st =
     (if code p = BPF_LD OR BPF_W OR BPF_ABS then Some (set_A st (load_word msg hlen (k p)))
      else if code p = BPF_LD OR BPF_H OR BPF_ABS then Some (set_A st (load_half msg hlen (k p)))
      else if code p = BPF_LD OR BPF_B OR BPF_ABS then Some (set_A st (load_byte msg hlen (k p)))
      else if code p = BPF_LD OR BPF_W OR BPF_LEN then Some (set_A st (Next wirelen))
      else if code p = BPF_LDX OR BPF_W OR BPF_LEN then Some (set_X st (Next wirelen))
      else if code p = BPF_LD OR BPF_W OR BPF_IND then Some (set_A st (load_word msg hlen (bs_X st + k p)))
      else if code p = BPF_LD OR BPF_H OR BPF_IND then Some (set_A st (load_half msg hlen (bs_X st + k p)))
      else if code p = BPF_LD OR BPF_B OR BPF_IND then Some (set_A st (load_byte msg hlen (bs_X st + k p)))
      else if code p = BPF_LDX OR BPF_MSH OR BPF_B then
        Some (set_X st (step_bind (bpf_data msg hlen (k p) 1)
                (\<lambda>bs. Next (push_bit 2 (scast (hd bs) AND 0xf)))))
      else if code p = BPF_LD OR BPF_IMM then Some (set_A st (Next (k p)))
      else if code p = BPF_LDX OR BPF_IMM then Some (set_X st (Next (k p)))
      else if code p = BPF_LD OR BPF_MEM then Some (set_A st (mem_get (bs_mem st) (k p)))
      else if code p = BPF_LDX OR BPF_MEM then Some (set_X st (mem_get (bs_mem st) (k p)))
      else if code p = BPF_ST then Some (set_mem st (mem_put (bs_mem st) (k p) (bs_A st)))
      else if code p = BPF_STX then Some (set_mem st (mem_put (bs_mem st) (k p) (bs_X st)))
      else None)"

text \<open>A jump adds to the program counter; the operands compare unsigned.\<close>

definition branch :: "bpf_insn \<Rightarrow> bpf_state \<Rightarrow> bool \<Rightarrow> (int \<times> bpf_state, bpf_verdict) step option" where
  "branch p st b = Some (Next (if b then uint (jt p) else uint (jf p), st))"

definition bpf_jmp ::
  "bpf_insn \<Rightarrow> bpf_state \<Rightarrow> (int \<times> bpf_state, bpf_verdict) step option" where
  "bpf_jmp p st =
     (if code p = BPF_JMP OR BPF_JA then Some (Next (sint (k p), st))
      else if code p = BPF_JMP OR BPF_JGT OR BPF_K then branch p st (bs_A st > k p)
      else if code p = BPF_JMP OR BPF_JGE OR BPF_K then branch p st (bs_A st \<ge> k p)
      else if code p = BPF_JMP OR BPF_JEQ OR BPF_K then branch p st (bs_A st = k p)
      else if code p = BPF_JMP OR BPF_JSET OR BPF_K then branch p st (bs_A st AND k p \<noteq> 0)
      else if code p = BPF_JMP OR BPF_JGT OR BPF_X then branch p st (bs_A st > bs_X st)
      else if code p = BPF_JMP OR BPF_JGE OR BPF_X then branch p st (bs_A st \<ge> bs_X st)
      else if code p = BPF_JMP OR BPF_JEQ OR BPF_X then branch p st (bs_A st = bs_X st)
      else if code p = BPF_JMP OR BPF_JSET OR BPF_X then branch p st (bs_A st AND bs_X st \<noteq> 0)
      else None)"

text \<open>Division by zero is a fault of the processor.\<close>

definition divide :: "32 word \<Rightarrow> 32 word \<Rightarrow> (32 word, 'r) step" where
  "divide a b = (if b = 0 then Fault else Next (a div b))"

definition shl :: "(bool \<Rightarrow> 32 word \<Rightarrow> 32 word \<Rightarrow> 32 word) \<Rightarrow> 32 word \<Rightarrow> 32 word \<Rightarrow> 32 word" where
  "shl oshift a b = (if b < 32 then push_bit (unat b) a else oshift True a b)"

definition shr :: "(bool \<Rightarrow> 32 word \<Rightarrow> 32 word \<Rightarrow> 32 word) \<Rightarrow> 32 word \<Rightarrow> 32 word \<Rightarrow> 32 word" where
  "shr oshift a b = (if b < 32 then drop_bit (unat b) a else oshift False a b)"

definition bpf_alu ::
  "(bool \<Rightarrow> 32 word \<Rightarrow> 32 word \<Rightarrow> 32 word) \<Rightarrow> bpf_insn \<Rightarrow> bpf_state \<Rightarrow>
   (int \<times> bpf_state, bpf_verdict) step option" where
  "bpf_alu oshift p st =
     (let A = bs_A st; X = bs_X st in
      if code p = BPF_ALU OR BPF_ADD OR BPF_X then Some (set_A st (Next (A + X)))
      else if code p = BPF_ALU OR BPF_SUB OR BPF_X then Some (set_A st (Next (A - X)))
      else if code p = BPF_ALU OR BPF_MUL OR BPF_X then Some (set_A st (Next (A * X)))
      else if code p = BPF_ALU OR BPF_DIV OR BPF_X then
        Some (if X = 0 then Return (0, None) else set_A st (divide A X))
      else if code p = BPF_ALU OR BPF_AND OR BPF_X then Some (set_A st (Next (A AND X)))
      else if code p = BPF_ALU OR BPF_OR OR BPF_X then Some (set_A st (Next (A OR X)))
      else if code p = BPF_ALU OR BPF_LSH OR BPF_X then Some (set_A st (Next (shl oshift A X)))
      else if code p = BPF_ALU OR BPF_RSH OR BPF_X then Some (set_A st (Next (shr oshift A X)))
      else if code p = BPF_ALU OR BPF_ADD OR BPF_K then Some (set_A st (Next (A + k p)))
      else if code p = BPF_ALU OR BPF_SUB OR BPF_K then Some (set_A st (Next (A - k p)))
      else if code p = BPF_ALU OR BPF_MUL OR BPF_K then Some (set_A st (Next (A * k p)))
      else if code p = BPF_ALU OR BPF_DIV OR BPF_K then Some (set_A st (divide A (k p)))
      else if code p = BPF_ALU OR BPF_AND OR BPF_K then Some (set_A st (Next (A AND k p)))
      else if code p = BPF_ALU OR BPF_OR OR BPF_K then Some (set_A st (Next (A OR k p)))
      else if code p = BPF_ALU OR BPF_LSH OR BPF_K then Some (set_A st (Next (shl oshift A (k p))))
      else if code p = BPF_ALU OR BPF_RSH OR BPF_K then Some (set_A st (Next (shr oshift A (k p))))
      else if code p = BPF_ALU OR BPF_NEG then Some (set_A st (Next (- A)))
      else if code p = BPF_MISC OR BPF_TAX then Some (set_X st (Next A))
      else if code p = BPF_MISC OR BPF_TXA then Some (set_A st (Next X))
      else None)"

definition bpf_insn_step ::
  "(bool \<Rightarrow> 32 word \<Rightarrow> 32 word \<Rightarrow> 32 word) \<Rightarrow> net_rcv_port \<Rightarrow> net_rcv_msg \<Rightarrow> 32 word \<Rightarrow> 32 word \<Rightarrow>
   bpf_insn \<Rightarrow> bpf_state \<Rightarrow> (int \<times> bpf_state, bpf_verdict) step" where
  "bpf_insn_step oshift infp msg wirelen hlen p st =
     (case bpf_ret infp wirelen p st of Some s \<Rightarrow> s | None \<Rightarrow>
     (case bpf_ld msg wirelen hlen p st of Some s \<Rightarrow> s | None \<Rightarrow>
     (case bpf_jmp p st of Some s \<Rightarrow> s | None \<Rightarrow>
     (case bpf_alu oshift p st of Some s \<Rightarrow> s | None \<Rightarrow> Return (0, None)))))"

text \<open>How the filter ends.\<close>

datatype bpf_end = Verdict bpf_verdict | Crash

fun bpf_loop ::
  "(bool \<Rightarrow> 32 word \<Rightarrow> 32 word \<Rightarrow> 32 word) \<Rightarrow> net_rcv_port \<Rightarrow> net_rcv_msg \<Rightarrow> 32 word \<Rightarrow> 32 word \<Rightarrow>
   nat \<Rightarrow> int \<Rightarrow> bpf_state \<Rightarrow> bpf_end option" where
  "bpf_loop oshift infp msg wirelen hlen 0 pc st = None"
| "bpf_loop oshift infp msg wirelen hlen (Suc n) pc st =
     (if \<not> pc < int (length (rcv_filter infp)) then Some (Verdict (0, None))
      else if pc < 0 then Some Crash
      else case bpf_insn_step oshift infp msg wirelen hlen (rcv_filter infp ! nat pc) st of
             Fault \<Rightarrow> Some Crash
           | Return v \<Rightarrow> Some (Verdict v)
           | Next (d, st) \<Rightarrow> bpf_loop oshift infp msg wirelen hlen n (pc + d + 1) st)"

definition bpf_do_filter ::
  "(bool \<Rightarrow> 32 word \<Rightarrow> 32 word \<Rightarrow> 32 word) \<Rightarrow> 32 word list \<Rightarrow> nat \<Rightarrow> net_rcv_port \<Rightarrow> net_rcv_msg \<Rightarrow>
   32 word \<Rightarrow> 32 word \<Rightarrow> bpf_end option" where
  "bpf_do_filter oshift mem n infp msg wirelen hlen =
     bpf_loop oshift infp msg wirelen hlen n 1 \<lparr>bs_A = 0, bs_X = 0, bs_mem = mem\<rparr>"

subsection \<open>The check\<close>

text \<open>The tests on one instruction before the one for a match; \<^verbatim>\<open>int\<close> sums wrap.\<close>

definition bpf_jump_ok :: "bpf_insn \<Rightarrow> nat \<Rightarrow> nat \<Rightarrow> bool" where
  "bpf_jump_ok p from len =
     (BPF_CLASS (code p) = BPF_JMP \<longrightarrow>
      (if BPF_OP (code p) = BPF_JA then \<not> int len \<le> sint (of_nat from + k p)
       else \<not> (len \<le> from + unat (jt p) \<or> len \<le> from + unat (jf p))))"

definition bpf_mem_ok :: "bpf_insn \<Rightarrow> bool" where
  "bpf_mem_ok p =
     (\<not> ((BPF_CLASS (code p) = BPF_ST \<or> BPF_CLASS (code p) = BPF_LD \<and> BPF_MODE (code p) = BPF_MEM) \<and>
         (int BPF_MEMWORDS \<le> sint (k p) \<or> sint (k p) < 0)))"

definition bpf_div_ok :: "bpf_insn \<Rightarrow> bool" where
  "bpf_div_ok p = (\<not> (code p = BPF_ALU OR BPF_DIV OR BPF_K \<and> k p = 0))"

text \<open>The loop.  The result is \<open>None\<close> for \<^verbatim>\<open>return 0\<close>, and otherwise the index of the
  match instruction, if there is one.\<close>

function bpf_validate_loop :: "bpf_insn list \<Rightarrow> nat \<Rightarrow> nat \<Rightarrow> nat option \<Rightarrow> nat option option" where
  "bpf_validate_loop f len i match =
     (if \<not> i < len then Some match
      else let p = f ! i in
        if \<not> bpf_jump_ok p (i + 1) len then None
        else if \<not> bpf_mem_ok p then None
        else if \<not> bpf_div_ok p then None
        else if code p = BPF_RET OR BPF_MATCH_IMM then
          (if match \<noteq> None \<or> jt p = 0 \<or> N_NET_HASH_KEYS < unat (jt p) then None
           else if len < i + unat (jt p) + 1 then None
           else if \<not> list_all (\<lambda>j. code (f ! (i + j)) = BPF_MISC OR BPF_KEY) [1 ..< Suc (unat (jt p))]
           then None
           else bpf_validate_loop f len (i + unat (jt p) + 1) (Some i))
        else bpf_validate_loop f len (i + 1) match)"
  by pat_completeness auto
termination by (relation "measure (\<lambda>(f, len, i, match). len - i)") auto

declare bpf_validate_loop.simps [simp del]

text \<open>The result and the match instruction; \<open>None\<close> where the last instruction of an empty
  program is read.\<close>

definition bpf_validate :: "bpf_insn list \<Rightarrow> nat \<Rightarrow> (nat \<times> nat option) option" where
  "bpf_validate f bytes =
     (let len = BPF_BYTES2LEN bytes in
      case bpf_validate_loop f len 1 None of
        None \<Rightarrow> Some (0, None)
      | Some match \<Rightarrow>
          if len = 0 then None
          else if BPF_CLASS (code (f ! (len - 1))) = BPF_RET
          then Some (if match = None then 1 else 2, match)
          else Some (0, match))"

text \<open>Equality of programs up to their keys.\<close>

fun bpf_eq :: "bpf_insn list \<Rightarrow> bpf_insn list \<Rightarrow> bool" where
  "bpf_eq (p # f1) (q # f2) =
     (if p \<noteq> q then
        (if code p = BPF_MISC OR BPF_KEY \<and> code q = BPF_MISC OR BPF_KEY then bpf_eq f1 f2 else False)
      else bpf_eq f1 f2)"
| "bpf_eq _ _ = True"

subsection \<open>Safety of validated programs\<close>

text \<open>What the interpreter needs of an instruction.\<close>

definition bpf_insn_ok :: "bpf_insn \<Rightarrow> nat option \<Rightarrow> bool" where
  "bpf_insn_ok p match =
     (bpf_mem_ok p \<and> bpf_div_ok p \<and>
      (code p = BPF_RET OR BPF_MATCH_IMM \<longrightarrow> match \<noteq> None \<and> unat (jt p) \<le> N_NET_HASH_KEYS))"

text \<open>What \<open>bpf_validate\<close> leaves out: the index registers's loads from and stores to memory,
  and unconditional jumps backward.\<close>

definition bpf_unchecked_ok :: "bpf_insn \<Rightarrow> bool" where
  "bpf_unchecked_ok p =
     ((code p = BPF_STX \<or> code p = BPF_LDX OR BPF_MEM \<longrightarrow> 0 \<le> sint (k p) \<and> sint (k p) < int BPF_MEMWORDS) \<and>
      (code p = BPF_JMP OR BPF_JA \<longrightarrow> 0 \<le> sint (k p)))"

lemma bpf_validate_loop_cases [consumes 1]:
  assumes "bpf_validate_loop f len i match = Some m"
  obtains (stop) "len \<le> i" "m = match"
    | (insn) "i < len" "bpf_mem_ok (f ! i)" "bpf_div_ok (f ! i)" "bpf_jump_ok (f ! i) (i + 1) len"
        "code (f ! i) \<noteq> BPF_RET OR BPF_MATCH_IMM" "bpf_validate_loop f len (i + 1) match = Some m"
    | (matching) "i < len" "bpf_mem_ok (f ! i)" "bpf_div_ok (f ! i)"
        "code (f ! i) = BPF_RET OR BPF_MATCH_IMM" "unat (jt (f ! i)) \<le> N_NET_HASH_KEYS"
        "\<And>j. 1 \<le> j \<Longrightarrow> j \<le> unat (jt (f ! i)) \<Longrightarrow> code (f ! (i + j)) = BPF_MISC OR BPF_KEY"
        "bpf_validate_loop f len (i + unat (jt (f ! i)) + 1) (Some i) = Some m"
  using assms
  by (auto simp: bpf_validate_loop.simps [of f len i match] Let_def list_all_iff not_less
      simp del: upt_Suc split: if_splits)

lemma bpf_validate_loop_match:
  "bpf_validate_loop f len i match = Some m \<Longrightarrow> match \<noteq> None \<Longrightarrow> m \<noteq> None"
proof (induction "len - i" arbitrary: i match rule: less_induct)
  case less
  from less(2) show ?case
  proof (cases rule: bpf_validate_loop_cases)
    case stop
    then show ?thesis using less(3) by simp
  next
    case insn
    then show ?thesis using less(1) [OF _ insn(6) less(3)] by simp
  next
    case matching
    then show ?thesis using less(1) [OF _ matching(7)] by simp
  qed
qed

lemma bpf_validate_loop_insns:
  assumes "bpf_validate_loop f len i match = Some m" "i \<le> j" "j < len"
  shows "bpf_insn_ok (f ! j) m \<or> code (f ! j) = BPF_MISC OR BPF_KEY"
  using assms
proof (induction "len - i" arbitrary: i match rule: less_induct)
  case less
  from less(2) show ?case
  proof (cases rule: bpf_validate_loop_cases)
    case stop
    then show ?thesis using less(3,4) by simp
  next
    case insn
    then show ?thesis
      using less(1) [OF _ insn(6)] less(3,4) by (cases "j = i") (auto simp: bpf_insn_ok_def)
  next
    case matching
    have "m \<noteq> None" using bpf_validate_loop_match [OF matching(7)] by simp
    consider "j = i" | "i < j" "j \<le> i + unat (jt (f ! i))" | "i + unat (jt (f ! i)) + 1 \<le> j"
      using less(3) by linarith
    then show ?thesis
      using matching \<open>m \<noteq> None\<close> less(1) [OF _ matching(7)] less(4) matching(6) [of "j - i"]
      by cases (auto simp: bpf_insn_ok_def)
  qed
qed

text \<open>Each group of the switch keeps the memory's size and does not step back.\<close>

definition bpf_next_ok :: "int \<times> bpf_state \<Rightarrow> bool" where
  "bpf_next_ok r = (0 \<le> fst r \<and> length (bs_mem (snd r)) = BPF_MEMWORDS)"

abbreviation bpf_step_ok :: "32 word \<Rightarrow> (int \<times> bpf_state, bpf_verdict) step \<Rightarrow> bool" where
  "bpf_step_ok wirelen \<equiv> step_ok (\<lambda>v. fst v \<le> wirelen) bpf_next_ok"

lemma sint_diff_small:
  fixes x y :: "32 word"
  assumes "unat x \<le> NET_RCV_MAX" "unat y \<le> NET_RCV_MAX"
  shows "sint (x - y) = int (unat x) - int (unat y)"
proof -
  have b: "0 \<le> uint x" "uint x \<le> 4095" "0 \<le> uint y" "uint y \<le> 4095"
    using assms uint_nat [of x] uint_nat [of y] by linarith+
  have "(2 :: int) ^ 31 = 2147483648" by simp
  with b have "- (2 ^ 31) \<le> uint x - uint y" "uint x - uint y < 2 ^ 31" by linarith+
  have "sint (x - y) = sint (word_of_int (uint x - uint y) :: 32 word)"
    by simp
  also have "\<dots> = signed_take_bit 31 (uint x - uint y)"
    by (simp only: signed_of_int) simp
  also have "\<dots> = uint x - uint y"
    by (rule signed_take_bit_int_eq_self) fact+
  finally show ?thesis by simp
qed

lemma bpf_data_ok:
  assumes "length (nm_header msg) = NET_HDW_HDR_MAX" "length (nm_packet msg) = NET_RCV_MAX"
    and "4 \<le> unat hlen" "unat hlen \<le> NET_HDW_HDR_MAX" "1 \<le> n" "n \<le> 4"
  shows "step_ok (\<lambda>v. fst v = 0) (\<lambda>_. True) (bpf_data msg hlen kk n)"
proof -
  have s: "sint kk = int (unat kk)" if "unat kk \<le> NET_RCV_MAX"
    using that sint_diff_small [of kk 0] by simp
  consider (header) "unat kk + n \<le> unat hlen" | (packet) "unat hlen < unat kk + n" "unat kk + n \<le> NET_RCV_MAX"
    | (out) "NET_RCV_MAX < unat kk + n" "unat hlen < unat kk + n"
    by linarith
  then show ?thesis
  proof cases
    case header
    then have "0 \<le> sint kk" "sint kk + int n \<le> 64" using s assms(4) by linarith+
    then show ?thesis using header assms(1) by (simp add: bpf_data_def bytes_at_def)
  next
    case packet
    have "sint (kk - hlen) = int (unat kk) - int (unat hlen)"
      using packet assms(4) by (intro sint_diff_small) auto
    then have "0 \<le> 4 + sint (kk - hlen)" "4 + sint (kk - hlen) + int n \<le> 4095"
      using assms packet by linarith+
    then show ?thesis using assms(2) packet by (simp add: bpf_data_def bytes_at_def)
  next
    case out
    then show ?thesis by (simp add: bpf_data_def)
  qed
qed

lemma mem_ok:
  assumes "length mem = BPF_MEMWORDS" "0 \<le> sint i" "sint i < int BPF_MEMWORDS"
  shows "step_ok R (\<lambda>_. True) (mem_get mem i)" "step_ok R (\<lambda>m. length m = BPF_MEMWORDS) (mem_put mem i v)"
  using assms by (auto simp: mem_get_def mem_put_def)

lemma bpf_clamp_le: "bpf_clamp n wirelen \<le> wirelen"
  by (simp add: bpf_clamp_def)

text \<open>A group of the switch, label by label.\<close>

definition group_ok :: "('a \<Rightarrow> bool) \<Rightarrow> 'a option \<Rightarrow> bool" where
  "group_ok P c = (\<forall>s. c = Some s \<longrightarrow> P s)"

lemma group_ok_intros:
  "group_ok P None"
  "P s \<Longrightarrow> group_ok P (Some s)"
  "(b \<Longrightarrow> group_ok P c) \<Longrightarrow> group_ok P d \<Longrightarrow> group_ok P (if b then c else d)"
  by (auto simp: group_ok_def)

lemma bpf_ret_ok:
  assumes "bpf_insn_ok p match" "match = None \<or> rcv_hash infp \<noteq> None" "length (bs_mem st) = BPF_MEMWORDS"
  shows "group_ok (bpf_step_ok wirelen) (bpf_ret infp wirelen p st)"
  unfolding bpf_ret_def using assms
  by (intro group_ok_intros) (auto simp: bpf_insn_ok_def bpf_clamp_le split: option.splits)

lemma bpf_jmp_ok:
  assumes "bpf_unchecked_ok p" "length (bs_mem st) = BPF_MEMWORDS"
  shows "group_ok (bpf_step_ok wirelen) (bpf_jmp p st)"
  unfolding bpf_jmp_def branch_def using assms
  by (intro group_ok_intros) (simp_all add: bpf_unchecked_ok_def bpf_next_ok_def)

lemma bpf_alu_ok:
  assumes "bpf_insn_ok p match" "length (bs_mem st) = BPF_MEMWORDS"
  shows "group_ok (bpf_step_ok wirelen) (bpf_alu oshift p st)"
  unfolding bpf_alu_def Let_def set_A_def set_X_def using assms
  by (intro group_ok_intros)
     (simp_all add: divide_def bpf_insn_ok_def bpf_div_ok_def bpf_next_ok_def)

lemma set_ok:
  assumes "length (bs_mem st) = BPF_MEMWORDS"
  shows "step_ok (\<lambda>v. fst v = 0) (\<lambda>_. True) s \<Longrightarrow> bpf_step_ok wirelen (set_A st s)"
    and "step_ok (\<lambda>v. fst v = 0) (\<lambda>_. True) s \<Longrightarrow> bpf_step_ok wirelen (set_X st s)"
    and "step_ok (\<lambda>v. fst v = 0) (\<lambda>m. length m = BPF_MEMWORDS) t \<Longrightarrow> bpf_step_ok wirelen (set_mem st t)"
  using assms
  by (auto simp: set_A_def set_X_def set_mem_def bpf_next_ok_def step_ok_def split: step.splits)

lemma bpf_ld_ok:
  assumes "bpf_insn_ok p match" "bpf_unchecked_ok p" "length (bs_mem st) = BPF_MEMWORDS"
    and d: "\<And>kk n. 1 \<le> n \<Longrightarrow> n \<le> 4 \<Longrightarrow> step_ok (\<lambda>v. fst v = 0) (\<lambda>_. True) (bpf_data msg hlen kk n)"
  shows "group_ok (bpf_step_ok wirelen) (bpf_ld msg wirelen hlen p st)"
proof -
  have l: "step_ok (\<lambda>v. fst v = 0) (\<lambda>_. True) (load_word msg hlen kk)"
    "step_ok (\<lambda>v. fst v = 0) (\<lambda>_. True) (load_half msg hlen kk)"
    "step_ok (\<lambda>v. fst v = 0) (\<lambda>_. True) (load_byte msg hlen kk)"
    "step_ok (\<lambda>v. fst v = 0) (\<lambda>_. True) (step_bind (bpf_data msg hlen kk 1) (\<lambda>bs. Next (f bs :: 32 word)))"
    for kk f
    unfolding load_word_def load_half_def load_byte_def by (rule step_ok_bind [OF d]; simp)+
  show ?thesis
    unfolding bpf_ld_def using assms(1,2)
    by (intro group_ok_intros set_ok mem_ok assms(3) l)
       (simp_all add: bpf_insn_ok_def bpf_mem_ok_def bpf_unchecked_ok_def BPF_CLASS_def BPF_MODE_def)
qed

lemma bpf_insn_step_ok:
  assumes "bpf_insn_ok p match \<or> code p = BPF_MISC OR BPF_KEY" "bpf_unchecked_ok p"
    and "length (bs_mem st) = BPF_MEMWORDS" "match = None \<or> rcv_hash infp \<noteq> None"
    and "\<And>kk n. 1 \<le> n \<Longrightarrow> n \<le> 4 \<Longrightarrow> step_ok (\<lambda>v. fst v = 0) (\<lambda>_. True) (bpf_data msg hlen kk n)"
  shows "bpf_step_ok wirelen (bpf_insn_step oshift infp msg wirelen hlen p st)"
proof -
  have i: "bpf_insn_ok p match"
    using assms(1) by (auto simp: bpf_insn_ok_def bpf_mem_ok_def bpf_div_ok_def BPF_CLASS_def)
  show ?thesis
    using bpf_ret_ok [OF i assms(4,3), of wirelen] bpf_ld_ok [OF i assms(2,3,5), of wirelen]
      bpf_jmp_ok [OF assms(2,3), of wirelen] bpf_alu_ok [OF i assms(3), of wirelen oshift]
    by (simp add: bpf_insn_step_def group_ok_def split: option.splits)
qed

lemma bpf_loop_ok:
  assumes "\<And>j. 1 \<le> j \<Longrightarrow> j < length f \<Longrightarrow> bpf_insn_ok (f ! j) match \<or> code (f ! j) = BPF_MISC OR BPF_KEY"
    and "\<And>j. 1 \<le> j \<Longrightarrow> j < length f \<Longrightarrow> bpf_unchecked_ok (f ! j)"
    and "rcv_filter infp = f" "match = None \<or> rcv_hash infp \<noteq> None"
    and "\<And>kk n. 1 \<le> n \<Longrightarrow> n \<le> 4 \<Longrightarrow> step_ok (\<lambda>v. fst v = 0) (\<lambda>_. True) (bpf_data msg hlen kk n)"
    and "length (bs_mem st) = BPF_MEMWORDS" "1 \<le> pc" "0 < n" "int (length f) - pc < int n"
  shows "\<exists>v. bpf_loop oshift infp msg wirelen hlen n pc st = Some (Verdict v) \<and> fst v \<le> wirelen"
  using assms(6-9)
proof (induction n arbitrary: pc st)
  case 0
  then show ?case by simp
next
  case (Suc n)
  show ?case
  proof (cases "pc < int (length f)")
    case False
    then show ?thesis using assms(3) by simp
  next
    case True
    then have pc: "1 \<le> nat pc" "nat pc < length f" using Suc.prems(2) by auto
    have s: "bpf_step_ok wirelen (bpf_insn_step oshift infp msg wirelen hlen (f ! nat pc) st)"
      using pc assms(1,2) Suc.prems(1) assms(4,5) by (intro bpf_insn_step_ok)
    then show ?thesis
    proof (cases rule: step_ok_cases)
      case (returns r)
      then show ?thesis using True Suc.prems(2) assms(3) by simp
    next
      case (proceeds a)
      then show ?thesis
        using True Suc assms(3) by (cases a) (auto simp: bpf_next_ok_def)
    qed
  qed
qed

text \<open>
  C12: A program that \<open>bpf_validate\<close> accepts, whose stores and loads of the index register
  stay within the scratch memory and whose unconditional jumps go forward, returns after at
  most as many instructions as it has, on every packet and whatever the scratch memory holds.
  It never leaves its memory, the header, the packet or the program, never divides by zero,
  and the number of bytes it accepts is at most the length of the packet.  A program with a
  match instruction must have its hash table, and the interface a header of 4 to 64 bytes.\<close>

theorem bpf_do_filter_safe:
  assumes "bpf_validate f (8 * length f) = Some (ret, match)" "ret \<noteq> 0"
    and "list_all bpf_unchecked_ok (tl f)"
    and "rcv_filter infp = f" "match = None \<or> rcv_hash infp \<noteq> None"
    and "length mem = BPF_MEMWORDS"
    and "length (nm_header msg) = NET_HDW_HDR_MAX" "length (nm_packet msg) = NET_RCV_MAX"
    and "4 \<le> unat hlen" "unat hlen \<le> NET_HDW_HDR_MAX"
  shows "\<exists>count entp. bpf_do_filter oshift mem (length f) infp msg wirelen hlen = Some (Verdict (count, entp)) \<and>
           count \<le> wirelen"
proof -
  have v: "bpf_validate_loop f (length f) 1 None = Some match" "0 < length f"
    using assms(1,2)
    by (auto simp: bpf_validate_def Let_def BPF_BYTES2LEN_def split: option.splits if_splits)
  have u: "bpf_unchecked_ok (f ! j)" if "1 \<le> j" "j < length f" for j
    using assms(3) that by (cases f; cases j) (auto simp: list_all_length)
  have "\<exists>v. bpf_loop oshift infp msg wirelen hlen (length f) 1 \<lparr>bs_A = 0, bs_X = 0, bs_mem = mem\<rparr> =
            Some (Verdict v) \<and> fst v \<le> wirelen"
    using bpf_validate_loop_insns [OF v(1)] u bpf_data_ok [OF assms(7-10)] assms(4-6) v(2)
    by (intro bpf_loop_ok [where f = f and match = match]) simp_all
  then show ?thesis by (simp add: bpf_do_filter_def)
qed

text \<open>An ethernet filter: take the packets of type 8.\<close>

definition example_bpf :: "bpf_insn list" where
  "example_bpf =
     [\<lparr>code = 0x401, jt = 0, jf = 0, k = 0\<rparr>,
      \<lparr>code = BPF_LD OR BPF_H OR BPF_ABS, jt = 0, jf = 0, k = 12\<rparr>,
      \<lparr>code = BPF_JMP OR BPF_JEQ OR BPF_K, jt = 0, jf = 1, k = 8\<rparr>,
      \<lparr>code = BPF_RET OR BPF_K, jt = 0, jf = 0, k = 100\<rparr>,
      \<lparr>code = BPF_RET OR BPF_K, jt = 0, jf = 0, k = 0\<rparr>]"

definition plain_port :: "bpf_insn list \<Rightarrow> net_rcv_port" where
  "plain_port f = \<lparr>rcv_port = Some 0, rcv_hash = None, rcv_filter = f\<rparr>"

theorem bpf_do_filter_safe_witness:
  "\<exists>count entp. bpf_do_filter (\<lambda>_ _ _. 0) (replicate 16 0) (length example_bpf) (plain_port example_bpf)
       \<lparr>nm_header = replicate 64 0, nm_packet = replicate 4095 0\<rparr> 60 14 = Some (Verdict (count, entp)) \<and>
     count \<le> 60"
proof (rule bpf_do_filter_safe [where ret = 1 and match = None])
  show "bpf_validate example_bpf (8 * length example_bpf) = Some (1, None)"
    by (simp add: example_bpf_def bpf_validate_def BPF_BYTES2LEN_def bpf_validate_loop.simps Let_def
        bpf_jump_ok_def bpf_mem_ok_def bpf_div_ok_def BPF_CLASS_def BPF_OP_def BPF_MODE_def)
  show "list_all bpf_unchecked_ok (tl example_bpf)"
    by (simp add: example_bpf_def bpf_unchecked_ok_def)
qed (simp_all add: plain_port_def)

text \<open>
  The conditions \<open>bpf_validate\<close> leaves out are needed.  A store of the index register is
  accepted at any index and leaves the scratch memory.\<close>

definition stx_program :: "bpf_insn list" where
  "stx_program =
     [\<lparr>code = 0x401, jt = 0, jf = 0, k = 0\<rparr>, \<lparr>code = BPF_STX, jt = 0, jf = 0, k = 1000\<rparr>,
      \<lparr>code = BPF_RET OR BPF_K, jt = 0, jf = 0, k = 0\<rparr>]"

lemma bpf_validate_stx:
  "bpf_validate stx_program (8 * length stx_program) = Some (1, None) \<and>
   bpf_do_filter oshift (replicate 16 v) 1 (plain_port stx_program) msg wirelen hlen = Some Crash"
  by (simp add: stx_program_def bpf_validate_def BPF_BYTES2LEN_def bpf_validate_loop.simps Let_def
      bpf_jump_ok_def bpf_mem_ok_def bpf_div_ok_def BPF_CLASS_def BPF_OP_def BPF_MODE_def
      bpf_do_filter_def plain_port_def bpf_insn_step_def bpf_ret_def bpf_ld_def set_mem_def mem_put_def)

text \<open>An unconditional jump to itself is accepted, and the filter never returns.\<close>

definition ja_program :: "bpf_insn list" where
  "ja_program =
     [\<lparr>code = 0x401, jt = 0, jf = 0, k = 0\<rparr>, \<lparr>code = BPF_JMP OR BPF_JA, jt = 0, jf = 0, k = - 1\<rparr>,
      \<lparr>code = BPF_RET OR BPF_K, jt = 0, jf = 0, k = 0\<rparr>]"

lemma bpf_validate_ja:
  "bpf_validate ja_program (8 * length ja_program) = Some (1, None) \<and>
   bpf_do_filter oshift mem n (plain_port ja_program) msg wirelen hlen = None"
proof -
  have "bpf_loop oshift (plain_port ja_program) msg wirelen hlen n 1 st = None" for st
    by (induction n)
       (simp_all add: ja_program_def plain_port_def bpf_insn_step_def bpf_ret_def bpf_ld_def bpf_jmp_def)
  then show ?thesis
    by (simp add: ja_program_def bpf_validate_def BPF_BYTES2LEN_def bpf_validate_loop.simps Let_def
        bpf_jump_ok_def bpf_mem_ok_def bpf_div_ok_def BPF_CLASS_def BPF_OP_def BPF_MODE_def
        bpf_do_filter_def)
qed

text \<open>
  C39: \<open>bpf_validate\<close> accepts programs that are not safe.  It accepts a store of the index
  register outside the scratch memory, which the interpreter executes on whatever lies there,
  and a jump backward, with which the interpreter never returns, however many instructions it
  executes.\<close>

theorem bpf_validate_gaps:
  "bpf_validate stx_program (8 * length stx_program) = Some (1, None) \<and>
   bpf_do_filter oshift (replicate 16 v) 1 (plain_port stx_program) msg wirelen hlen = Some Crash \<and>
   bpf_validate ja_program (8 * length ja_program) = Some (1, None) \<and>
   bpf_do_filter oshift mem n (plain_port ja_program) msg wirelen hlen = None"
  using bpf_validate_stx bpf_validate_ja by blast

text \<open>A filter shorter than one instruction makes the check read the instruction before it.\<close>

lemma bpf_validate_short: "bytes < 8 \<Longrightarrow> bpf_validate f bytes = None"
  by (simp add: bpf_validate_def BPF_BYTES2LEN_def bpf_validate_loop.simps [of f 0])

text \<open>A byte with its top bit set is loaded as a negative number.\<close>

lemma load_byte_sign:
  "load_byte \<lparr>nm_header = 0xff # hs, nm_packet = ps\<rparr> 14 0 = Next 0xffffffff"
  by (simp add: load_byte_def bpf_data_def bytes_at_def)

end
