(* ===== verification/Kern_Lock.thy ===== *)
theory Kern_Lock
  imports Mach_Prelude
begin

text \<open>
  The read/write locks of \<^verbatim>\<open>kern/lock.c\<close>.

  Every routine works on the lock between \<^verbatim>\<open>simple_lock(&l->interlock)\<close> and
  \<^verbatim>\<open>simple_unlock\<close>, and gives the interlock up only to wait.  The model has one function for
  each of these critical sections.  A section that ends because the lock must be waited for
  returns the place where its loop tests again (\<open>wait_point\<close>).

  A state of the system is the lock and what each thread does about it.  A step runs one
  critical section of one thread, so the executions of \<open>lock_step\<close> are the interleavings of
  the routines.  A waiting thread spins or sleeps; \<^verbatim>\<open>thread_wakeup\<close> wakes all the threads asleep
  on the lock.

  The callers keep to the protocol of the locks: a thread acquires a lock it does not hold
  (or holds for writing and has declared recursive), releases what it holds, and gives
  recursion up before the write lock.  Executions in which \<^verbatim>\<open>read_count\<close> or
  \<^verbatim>\<open>recursion_depth\<close> leave their bit fields are excluded.
\<close>

type_synonym tid = nat

record lock =
  thread :: "tid option"
  read_count :: "16 word"
  want_upgrade :: bool
  want_write :: bool
  waiting :: bool
  can_sleep :: bool
  recursion_depth :: "12 word"

definition lock_init :: "bool \<Rightarrow> lock" where
  "lock_init sleepable = \<lparr>thread = None, read_count = 0, want_upgrade = False, want_write = False,
     waiting = False, can_sleep = sleepable, recursion_depth = 0\<rparr>"

definition lock_sleepable :: "lock \<Rightarrow> bool \<Rightarrow> lock" where
  "lock_sleepable l b = l\<lparr>can_sleep := b\<rparr>"

subsection \<open>Critical sections\<close>

text \<open>The loops in which a routine waits: for \<^verbatim>\<open>want_write\<close> and for the readers in
  \<open>lock_write\<close>, for the writers in \<open>lock_read\<close>, for the readers in \<open>lock_read_to_write\<close>
  and in \<open>lock_try_read_to_write\<close>.\<close>

datatype wait_point = At_want_write | At_drain | At_read | At_upgrade | At_try_upgrade

datatype hold = Reads | Writes | Upgraded | Recursive

text \<open>How a critical section ends: with the lock, with the loop's next test to come, or with
  the attempt given up.\<close>

datatype attempt = Holds hold | Waits wait_point | Refused

definition must_wait :: "wait_point \<Rightarrow> lock \<Rightarrow> bool" where
  "must_wait pt l = (case pt of
     At_want_write \<Rightarrow> want_write l
   | At_drain \<Rightarrow> read_count l \<noteq> 0 \<or> want_upgrade l
   | At_read \<Rightarrow> want_write l \<or> want_upgrade l
   | At_upgrade \<Rightarrow> read_count l \<noteq> 0
   | At_try_upgrade \<Rightarrow> read_count l \<noteq> 0)"

definition lock_write_drain :: "lock \<Rightarrow> lock \<times> attempt" where
  "lock_write_drain l = (l, if must_wait At_drain l then Waits At_drain else Holds Writes)"

definition lock_write_loop :: "lock \<Rightarrow> lock \<times> attempt" where
  "lock_write_loop l =
     (if must_wait At_want_write l then (l, Waits At_want_write)
      else lock_write_drain (l\<lparr>want_write := True\<rparr>))"

definition lock_write :: "tid \<Rightarrow> lock \<Rightarrow> lock \<times> attempt" where
  "lock_write me l =
     (if thread l = Some me then (l\<lparr>recursion_depth := recursion_depth l + 1\<rparr>, Holds Recursive)
      else lock_write_loop l)"

definition lock_read_loop :: "lock \<Rightarrow> lock \<times> attempt" where
  "lock_read_loop l =
     (if must_wait At_read l then (l, Waits At_read)
      else (l\<lparr>read_count := read_count l + 1\<rparr>, Holds Reads))"

definition lock_read :: "tid \<Rightarrow> lock \<Rightarrow> lock \<times> attempt" where
  "lock_read me l =
     (if thread l = Some me then (l\<lparr>read_count := read_count l + 1\<rparr>, Holds Recursive)
      else lock_read_loop l)"

definition lock_upgrade_loop :: "wait_point \<Rightarrow> lock \<Rightarrow> lock \<times> attempt" where
  "lock_upgrade_loop pt l = (l, if must_wait pt l then Waits pt else Holds Upgraded)"

text \<open>The end of a release wakes the sleepers if there are any; the flag returned is the call of
  \<^verbatim>\<open>thread_wakeup\<close>.\<close>

definition lock_wakeup :: "bool \<Rightarrow> lock \<Rightarrow> lock \<times> bool" where
  "lock_wakeup b l = (if waiting l \<and> b then (l\<lparr>waiting := False\<rparr>, True) else (l, False))"

definition lock_done :: "lock \<Rightarrow> lock \<times> bool" where
  "lock_done l =
     (let l = (if read_count l \<noteq> 0 then l\<lparr>read_count := read_count l - 1\<rparr>
               else if recursion_depth l \<noteq> 0 then l\<lparr>recursion_depth := recursion_depth l - 1\<rparr>
               else if want_upgrade l then l\<lparr>want_upgrade := False\<rparr>
               else l\<lparr>want_write := False\<rparr>)
      in lock_wakeup (read_count l = 0) l)"

text \<open>The flag is again the call of \<^verbatim>\<open>thread_wakeup\<close>.\<close>

definition lock_read_to_write :: "tid \<Rightarrow> lock \<Rightarrow> lock \<times> attempt \<times> bool" where
  "lock_read_to_write me l =
     (let l = l\<lparr>read_count := read_count l - 1\<rparr> in
      if thread l = Some me then (l\<lparr>recursion_depth := recursion_depth l + 1\<rparr>, Holds Recursive, False)
      else if want_upgrade l then (case lock_wakeup (read_count l = 0) l of (l, w) \<Rightarrow> (l, Refused, w))
      else (case lock_upgrade_loop At_upgrade (l\<lparr>want_upgrade := True\<rparr>) of (l, a) \<Rightarrow> (l, a, False)))"

definition lock_write_to_read :: "lock \<Rightarrow> lock \<times> bool" where
  "lock_write_to_read l =
     (let l = l\<lparr>read_count := read_count l + 1\<rparr>;
          l = (if recursion_depth l \<noteq> 0 then l\<lparr>recursion_depth := recursion_depth l - 1\<rparr>
               else if want_upgrade l then l\<lparr>want_upgrade := False\<rparr>
               else l\<lparr>want_write := False\<rparr>)
      in lock_wakeup True l)"

definition lock_try_write :: "tid \<Rightarrow> lock \<Rightarrow> lock \<times> attempt" where
  "lock_try_write me l =
     (if thread l = Some me then (l\<lparr>recursion_depth := recursion_depth l + 1\<rparr>, Holds Recursive)
      else if want_write l \<or> want_upgrade l \<or> read_count l \<noteq> 0 then (l, Refused)
      else (l\<lparr>want_write := True\<rparr>, Holds Writes))"

definition lock_try_read :: "tid \<Rightarrow> lock \<Rightarrow> lock \<times> attempt" where
  "lock_try_read me l =
     (if thread l = Some me then (l\<lparr>read_count := read_count l + 1\<rparr>, Holds Recursive)
      else if want_write l \<or> want_upgrade l then (l, Refused)
      else (l\<lparr>read_count := read_count l + 1\<rparr>, Holds Reads))"

definition lock_try_read_to_write :: "tid \<Rightarrow> lock \<Rightarrow> lock \<times> attempt" where
  "lock_try_read_to_write me l =
     (if thread l = Some me
      then (l\<lparr>read_count := read_count l - 1, recursion_depth := recursion_depth l + 1\<rparr>, Holds Recursive)
      else if want_upgrade l then (l, Refused)
      else lock_upgrade_loop At_try_upgrade (l\<lparr>want_upgrade := True, read_count := read_count l - 1\<rparr>))"

text \<open>\<open>None\<close> is the \<^verbatim>\<open>panic\<close>.\<close>

definition lock_set_recursive :: "tid \<Rightarrow> lock \<Rightarrow> lock option" where
  "lock_set_recursive me l = (if \<not> want_write l then None else Some (l\<lparr>thread := Some me\<rparr>))"

definition lock_clear_recursive :: "tid \<Rightarrow> lock \<Rightarrow> lock option" where
  "lock_clear_recursive me l =
     (if thread l \<noteq> Some me then None
      else Some (if recursion_depth l = 0 then l\<lparr>thread := None\<rparr> else l))"

text \<open>The next test of a loop, and going to sleep in it.\<close>

definition lock_resume :: "wait_point \<Rightarrow> lock \<Rightarrow> lock \<times> attempt" where
  "lock_resume pt l = (case pt of
     At_want_write \<Rightarrow> lock_write_loop l
   | At_drain \<Rightarrow> lock_write_drain l
   | At_read \<Rightarrow> lock_read_loop l
   | At_upgrade \<Rightarrow> lock_upgrade_loop At_upgrade l
   | At_try_upgrade \<Rightarrow> lock_upgrade_loop At_try_upgrade l)"

definition may_sleep :: "wait_point \<Rightarrow> lock \<Rightarrow> bool" where
  "may_sleep pt l = ((can_sleep l \<or> pt = At_try_upgrade) \<and> must_wait pt l)"

definition lock_sleep :: "lock \<Rightarrow> lock" where
  "lock_sleep l = l\<lparr>waiting := True\<rparr>"

subsection \<open>Executions\<close>

text \<open>What a thread does about the lock.  A writer carries the numbers of read and write
  locks it has acquired recursively.\<close>

datatype phase =
    Out
  | Reading
  | Writing nat nat
  | Upgrading
  | Waiting wait_point bool

record system =
  lk :: lock
  ph :: "tid \<Rightarrow> phase"

definition start :: "bool \<Rightarrow> system" where
  "start sleepable = \<lparr>lk = lock_init sleepable, ph = (\<lambda>_. Out)\<rparr>"

fun phase_of :: "attempt \<Rightarrow> phase \<Rightarrow> phase" where
  "phase_of (Holds Reads) p = Reading"
| "phase_of (Holds Writes) p = Writing 0 0"
| "phase_of (Holds Upgraded) p = Upgrading"
| "phase_of (Holds Recursive) p = p"
| "phase_of (Waits pt) p = Waiting pt False"
| "phase_of Refused p = p"

fun awake :: "phase \<Rightarrow> phase" where
  "awake (Waiting pt _) = Waiting pt False"
| "awake p = p"

definition move :: "system \<Rightarrow> tid \<Rightarrow> phase \<Rightarrow> lock \<Rightarrow> bool \<Rightarrow> system" where
  "move s t p l woken =
     \<lparr>lk = l, ph = (\<lambda>u. if u = t then p else if woken then awake (ph s u) else ph s u)\<rparr>"

definition room_read :: "system \<Rightarrow> bool" where
  "room_read s = (unat (read_count (lk s)) + 1 < 2 ^ 16)"

definition room_depth :: "system \<Rightarrow> bool" where
  "room_depth s = (unat (recursion_depth (lk s)) + 1 < 2 ^ 12)"

inductive lock_step :: "system \<Rightarrow> system \<Rightarrow> bool" where
  acquire_write: "ph s t = Out \<Longrightarrow> lock_write t (lk s) = (l, a) \<Longrightarrow>
    lock_step s (move s t (phase_of a Out) l False)"
| write_again: "ph s t = Writing r d \<Longrightarrow> thread (lk s) = Some t \<Longrightarrow> room_depth s \<Longrightarrow>
    lock_write t (lk s) = (l, a) \<Longrightarrow> lock_step s (move s t (phase_of a (Writing r (Suc d))) l False)"
| acquire_read: "ph s t = Out \<Longrightarrow> room_read s \<Longrightarrow> lock_read t (lk s) = (l, a) \<Longrightarrow>
    lock_step s (move s t (phase_of a Out) l False)"
| read_again: "ph s t = Writing r d \<Longrightarrow> thread (lk s) = Some t \<Longrightarrow> room_read s \<Longrightarrow>
    lock_read t (lk s) = (l, a) \<Longrightarrow> lock_step s (move s t (phase_of a (Writing (Suc r) d)) l False)"
| try_write: "ph s t = Out \<Longrightarrow> lock_try_write t (lk s) = (l, a) \<Longrightarrow>
    lock_step s (move s t (phase_of a Out) l False)"
| try_read: "ph s t = Out \<Longrightarrow> room_read s \<Longrightarrow> lock_try_read t (lk s) = (l, a) \<Longrightarrow>
    lock_step s (move s t (phase_of a Out) l False)"
| upgrade: "ph s t = Reading \<Longrightarrow> lock_read_to_write t (lk s) = (l, a, w) \<Longrightarrow>
    lock_step s (move s t (phase_of a Out) l w)"
| upgrade_again: "ph s t = Writing (Suc r) d \<Longrightarrow> thread (lk s) = Some t \<Longrightarrow> room_depth s \<Longrightarrow>
    lock_read_to_write t (lk s) = (l, a, w) \<Longrightarrow>
    lock_step s (move s t (phase_of a (Writing r (Suc d))) l w)"
| try_upgrade: "ph s t = Reading \<Longrightarrow> lock_try_read_to_write t (lk s) = (l, a) \<Longrightarrow>
    lock_step s (move s t (phase_of a Reading) l False)"
| downgrade: "ph s t = Writing 0 0 \<or> ph s t = Upgrading \<Longrightarrow> thread (lk s) \<noteq> Some t \<Longrightarrow>
    lock_write_to_read (lk s) = (l, w) \<Longrightarrow> lock_step s (move s t Reading l w)"
| downgrade_again: "ph s t = Writing r (Suc d) \<Longrightarrow> room_read s \<Longrightarrow>
    lock_write_to_read (lk s) = (l, w) \<Longrightarrow> lock_step s (move s t (Writing (Suc r) d) l w)"
| release: "ph s t = Reading \<or> ph s t = Upgrading \<or> ph s t = Writing 0 0 \<and> thread (lk s) \<noteq> Some t \<Longrightarrow>
    lock_done (lk s) = (l, w) \<Longrightarrow> lock_step s (move s t Out l w)"
| release_read: "ph s t = Writing (Suc r) d \<Longrightarrow> lock_done (lk s) = (l, w) \<Longrightarrow>
    lock_step s (move s t (Writing r d) l w)"
| release_again: "ph s t = Writing 0 (Suc d) \<Longrightarrow> lock_done (lk s) = (l, w) \<Longrightarrow>
    lock_step s (move s t (Writing 0 d) l w)"
| set_recursive: "ph s t = Writing r d \<Longrightarrow> lock_set_recursive t (lk s) = Some l \<Longrightarrow>
    lock_step s (move s t (Writing r d) l False)"
| clear_recursive: "ph s t = Writing 0 d \<Longrightarrow> lock_clear_recursive t (lk s) = Some l \<Longrightarrow>
    lock_step s (move s t (Writing 0 d) l False)"
| sleepable: "lock_step s (s\<lparr>lk := lock_sleepable (lk s) b\<rparr>)"
| resume: "ph s t = Waiting pt False \<Longrightarrow> pt = At_read \<longrightarrow> room_read s \<Longrightarrow> lock_resume pt (lk s) = (l, a) \<Longrightarrow>
    lock_step s (move s t (phase_of a Out) l False)"
| sleep: "ph s t = Waiting pt False \<Longrightarrow> may_sleep pt (lk s) \<Longrightarrow>
    lock_step s (move s t (Waiting pt True) (lock_sleep (lk s)) False)"

inductive reachable :: "system \<Rightarrow> bool" where
  start: "reachable (start sleepable)"
| step: "reachable s \<Longrightarrow> lock_step s s' \<Longrightarrow> reachable s'"

subsection \<open>The invariant\<close>

text \<open>The threads that own \<^verbatim>\<open>want_write\<close>, and those that own \<^verbatim>\<open>want_upgrade\<close>.\<close>

fun owns_write :: "phase \<Rightarrow> bool" where
  "owns_write (Writing _ _) = True"
| "owns_write (Waiting pt _) = (pt = At_drain)"
| "owns_write _ = False"

fun owns_upgrade :: "phase \<Rightarrow> bool" where
  "owns_upgrade Upgrading = True"
| "owns_upgrade (Waiting pt _) = (pt = At_upgrade \<or> pt = At_try_upgrade)"
| "owns_upgrade _ = False"

definition readers :: "(tid \<Rightarrow> phase) \<Rightarrow> tid set" where
  "readers p = {t. p t = Reading}"

fun exclusive :: "phase \<Rightarrow> bool" where
  "exclusive Upgrading = True"
| "exclusive (Writing _ _) = True"
| "exclusive _ = False"

text \<open>A flag that is set while a thread is in certain phases, one thread at a time.\<close>

definition flag_owner :: "(phase \<Rightarrow> bool) \<Rightarrow> bool \<Rightarrow> (tid \<Rightarrow> phase) \<Rightarrow> bool" where
  "flag_owner P b p \<longleftrightarrow> (b \<longleftrightarrow> (\<exists>t. P (p t))) \<and> (\<forall>t u. P (p t) \<longrightarrow> P (p u) \<longrightarrow> t = u)"

text \<open>A writer is alone and its recursion is in the counters; without a writer the counter
  counts the readers.\<close>

definition count_inv :: "lock \<Rightarrow> (tid \<Rightarrow> phase) \<Rightarrow> bool" where
  "count_inv l p \<longleftrightarrow>
     finite (readers p) \<and>
     (\<forall>t r d. p t = Writing r d \<longrightarrow>
        readers p = {} \<and> \<not> want_upgrade l \<and>
        unat (read_count l) = r \<and> unat (recursion_depth l) = d \<and>
        (r \<noteq> 0 \<or> d \<noteq> 0 \<longrightarrow> thread l = Some t)) \<and>
     ((\<forall>t r d. p t \<noteq> Writing r d) \<longrightarrow>
        unat (read_count l) = card (readers p) \<and> recursion_depth l = 0) \<and>
     (\<forall>t. p t = Upgrading \<longrightarrow> readers p = {}) \<and>
     (\<forall>t. thread l = Some t \<longrightarrow> (\<exists>r d. p t = Writing r d))"

text \<open>A thread asleep has a reason to be, and the lock knows that there are sleepers.\<close>

definition sleep_inv :: "lock \<Rightarrow> (tid \<Rightarrow> phase) \<Rightarrow> bool" where
  "sleep_inv l p \<longleftrightarrow> (\<forall>t pt. p t = Waiting pt True \<longrightarrow> waiting l \<and> must_wait pt l)"

definition lock_inv :: "system \<Rightarrow> bool" where
  "lock_inv s \<longleftrightarrow>
     flag_owner owns_write (want_write (lk s)) (ph s) \<and>
     flag_owner owns_upgrade (want_upgrade (lk s)) (ph s) \<and>
     count_inv (lk s) (ph s) \<and> sleep_inv (lk s) (ph s)"

lemma awake_simps [simp]:
  "owns_write (awake p) = owns_write p" "owns_upgrade (awake p) = owns_upgrade p"
  "awake p = Reading \<longleftrightarrow> p = Reading" "awake p = Writing r d \<longleftrightarrow> p = Writing r d"
  "awake p = Upgrading \<longleftrightarrow> p = Upgrading" "awake p \<noteq> Waiting pt True"
  by (cases p; simp)+

lemma lk_move [simp]: "lk (move s t p l w) = l"
  by (simp add: move_def)

lemma ph_move: "ph (move s t p l w) u = (if u = t then p else if w then awake (ph s u) else ph s u)"
  by (simp add: move_def)

lemma flag_owner_move:
  assumes "flag_owner P b (ph s)" "\<And>p. P (awake p) = P p"
    and "b' = b \<and> P p = P (ph s t) \<or> b' \<and> P p \<and> \<not> b \<or> \<not> b' \<and> \<not> P p \<and> P (ph s t)"
  shows "flag_owner P b' (ph (move s t p l w))"
proof -
  have "P (ph (move s t p l w) u) = (if u = t then P p else P (ph s u))" for u
    using assms(2) by (simp add: ph_move)
  then show ?thesis using assms(1,3) unfolding flag_owner_def by metis
qed

lemma readers_move:
  "readers (ph (move s t p l w)) =
     (if p = Reading then insert t (readers (ph s)) else readers (ph s) - {t})"
  by (auto simp: readers_def ph_move)

lemma sleep_inv_move:
  assumes "sleep_inv (lk s) (ph s)" "\<And>pt. p \<noteq> Waiting pt True"
    and "w \<or> (waiting (lk s) \<longrightarrow> waiting l) \<and>
         (\<forall>u pt. u \<noteq> t \<longrightarrow> ph s u = Waiting pt True \<longrightarrow> must_wait pt (lk s) \<longrightarrow> must_wait pt l)"
  shows "sleep_inv l (ph (move s t p l w))"
  using assms unfolding sleep_inv_def ph_move by (auto split: if_splits)

definition no_writer :: "(tid \<Rightarrow> phase) \<Rightarrow> bool" where
  "no_writer p \<longleftrightarrow> (\<forall>u r d. p u \<noteq> Writing r d)"

definition alone :: "(tid \<Rightarrow> phase) \<Rightarrow> tid \<Rightarrow> bool" where
  "alone p t \<longleftrightarrow> (\<forall>u r d. u \<noteq> t \<longrightarrow> p u \<noteq> Writing r d)"

text \<open>What the counters must be after a step of a thread: it becomes or stays the writer,
  there is no writer, or another thread is the writer.\<close>

lemma count_inv_writer:
  assumes "alone (ph s) t" "readers (ph s) \<subseteq> {t}" "\<not> want_upgrade l"
    and "unat (read_count l) = r" "unat (recursion_depth l) = d"
    and "thread l = None \<and> r = 0 \<and> d = 0 \<or> thread l = Some t"
  shows "count_inv l (ph (move s t (Writing r d) l w))"
  using assms unfolding count_inv_def readers_move alone_def ph_move by (auto simp: subset_singleton_iff)

lemma count_inv_no_writer:
  assumes "alone (ph s) t" "\<And>r d. p \<noteq> Writing r d" "finite (readers (ph s))"
    and "unat (read_count l) = card (if p = Reading then insert t (readers (ph s)) else readers (ph s) - {t})"
    and "recursion_depth l = 0" "thread l = None"
    and "p = Upgrading \<longrightarrow> readers (ph s) \<subseteq> {t}"
    and "\<And>u. u \<noteq> t \<Longrightarrow> ph s u = Upgrading \<Longrightarrow> p \<noteq> Reading \<and> readers (ph s) \<subseteq> {t}"
  shows "count_inv l (ph (move s t p l w))"
  using assms unfolding count_inv_def readers_move alone_def ph_move
  by (auto simp: subset_singleton_iff split: if_splits)

lemma count_inv_other:
  assumes "count_inv (lk s) (ph s)" "\<And>r d. p \<noteq> Writing r d" "p \<noteq> Reading" "p \<noteq> Upgrading"
    and "\<And>r d. ph s t \<noteq> Writing r d" "ph s t \<noteq> Reading"
    and "read_count l = read_count (lk s)" "recursion_depth l = recursion_depth (lk s)"
    and "thread l = thread (lk s)" "want_upgrade l = want_upgrade (lk s) \<or> no_writer (ph s)"
  shows "count_inv l (ph (move s t p l w))"
proof -
  have r: "readers (ph (move s t p l w)) = readers (ph s)"
    unfolding readers_move using assms(3,6) by (auto simp: readers_def)
  have v: "ph (move s t p l w) u = Writing r d \<longleftrightarrow> ph s u = Writing r d" for u r d
    using assms(2,5) by (auto simp: ph_move)
  have g: "ph (move s t p l w) u = Upgrading \<Longrightarrow> ph s u = Upgrading" for u
    using assms(4) by (auto simp: ph_move split: if_splits)
  show ?thesis
    using assms(1,7-10) g unfolding count_inv_def r v no_writer_def by metis
qed

lemma inv_facts:
  assumes "lock_inv s"
  shows "\<not> want_write (lk s) \<Longrightarrow> no_writer (ph s)"
    and "owns_write (ph s t) \<Longrightarrow> alone (ph s) t"
    and "want_upgrade (lk s) \<Longrightarrow> no_writer (ph s)"
    and "ph s t = Reading \<Longrightarrow> no_writer (ph s)"
    and "\<not> want_upgrade (lk s) \<Longrightarrow> \<not> owns_upgrade (ph s t)"
    and "owns_upgrade (ph s t) \<Longrightarrow> want_upgrade (lk s)"
    and "owns_write (ph s t) \<Longrightarrow> want_write (lk s)"
    and "no_writer (ph s) \<Longrightarrow> unat (read_count (lk s)) = card (readers (ph s)) \<and>
           recursion_depth (lk s) = 0 \<and> thread (lk s) = None"
    and "finite (readers (ph s))"
    and "ph s t = Writing r d \<Longrightarrow> readers (ph s) = {} \<and> \<not> want_upgrade (lk s) \<and>
           unat (read_count (lk s)) = r \<and> unat (recursion_depth (lk s)) = d \<and>
           (thread (lk s) = None \<and> r = 0 \<and> d = 0 \<or> thread (lk s) = Some t)"
    and "ph s t = Upgrading \<Longrightarrow> readers (ph s) = {}"
    and "thread (lk s) = Some t \<Longrightarrow> \<exists>r d. ph s t = Writing r d"
proof -
  have w: "flag_owner owns_write (want_write (lk s)) (ph s)"
    and u: "flag_owner owns_upgrade (want_upgrade (lk s)) (ph s)"
    and c: "count_inv (lk s) (ph s)"
    using assms by (simp_all add: lock_inv_def)
  show "\<not> want_write (lk s) \<Longrightarrow> no_writer (ph s)"
    using w unfolding flag_owner_def no_writer_def by (metis owns_write.simps(1))
  show "owns_write (ph s t) \<Longrightarrow> alone (ph s) t"
    using w unfolding flag_owner_def alone_def by (metis owns_write.simps(1))
  show "want_upgrade (lk s) \<Longrightarrow> no_writer (ph s)"
    using c unfolding count_inv_def no_writer_def by metis
  show "ph s t = Reading \<Longrightarrow> no_writer (ph s)"
    using c unfolding count_inv_def no_writer_def readers_def by blast
  show "\<not> want_upgrade (lk s) \<Longrightarrow> \<not> owns_upgrade (ph s t)"
    "owns_upgrade (ph s t) \<Longrightarrow> want_upgrade (lk s)"
    using u unfolding flag_owner_def by metis+
  show "owns_write (ph s t) \<Longrightarrow> want_write (lk s)"
    using w unfolding flag_owner_def by metis
  show "no_writer (ph s) \<Longrightarrow> unat (read_count (lk s)) = card (readers (ph s)) \<and>
           recursion_depth (lk s) = 0 \<and> thread (lk s) = None"
    using c unfolding count_inv_def no_writer_def by (metis not_Some_eq)
  show "finite (readers (ph s))" using c by (simp add: count_inv_def)
  show "ph s t = Upgrading \<Longrightarrow> readers (ph s) = {}" using c by (auto simp: count_inv_def)
  show t: "thread (lk s) = Some t \<Longrightarrow> \<exists>r d. ph s t = Writing r d" for t
    using c by (auto simp: count_inv_def)
  show "readers (ph s) = {} \<and> \<not> want_upgrade (lk s) \<and>
           unat (read_count (lk s)) = r \<and> unat (recursion_depth (lk s)) = d \<and>
           (thread (lk s) = None \<and> r = 0 \<and> d = 0 \<or> thread (lk s) = Some t)"
    if p: "ph s t = Writing r d"
  proof -
    have "thread (lk s) = None \<or> thread (lk s) = Some t"
    proof (cases "thread (lk s)")
      case (Some v)
      then obtain r' d' where "ph s v = Writing r' d'" using t by blast
      then have "v = t" using w p unfolding flag_owner_def by (metis owns_write.simps(1))
      then show ?thesis using Some by simp
    qed simp
    then show ?thesis using c p unfolding count_inv_def by metis
  qed
qed

lemma lock_inv_moveI:
  assumes "lock_inv s" "count_inv l (ph (move s t p l w))" "\<And>pt. p \<noteq> Waiting pt True"
    and "want_write l = want_write (lk s) \<and> owns_write p = owns_write (ph s t) \<or>
         want_write l \<and> owns_write p \<and> \<not> want_write (lk s) \<or>
         \<not> want_write l \<and> \<not> owns_write p \<and> owns_write (ph s t)"
    and "want_upgrade l = want_upgrade (lk s) \<and> owns_upgrade p = owns_upgrade (ph s t) \<or>
         want_upgrade l \<and> owns_upgrade p \<and> \<not> want_upgrade (lk s) \<or>
         \<not> want_upgrade l \<and> \<not> owns_upgrade p \<and> owns_upgrade (ph s t)"
    and "w \<or> (waiting (lk s) \<longrightarrow> waiting l) \<and>
         (\<forall>u pt. u \<noteq> t \<longrightarrow> ph s u = Waiting pt True \<longrightarrow> must_wait pt (lk s) \<longrightarrow> must_wait pt l)"
  shows "lock_inv (move s t p l w)"
  using assms unfolding lock_inv_def lk_move
  by (intro conjI flag_owner_move sleep_inv_move) auto

text \<open>A thread that holds nothing and owns no flag: its tests change nothing, or give it the
  lock or a flag.\<close>

definition outside :: "phase \<Rightarrow> bool" where
  "outside p \<longleftrightarrow> p = Out \<or> (\<exists>b. p = Waiting At_want_write b \<or> p = Waiting At_read b)"

lemma outside_facts [simp]:
  assumes "outside p"
  shows "\<not> owns_write p" "\<not> owns_upgrade p" "p \<noteq> Writing r d" "p \<noteq> Reading" "p \<noteq> Upgrading"
  using assms by (auto simp: outside_def)

lemma alone_no_writer: "no_writer p \<Longrightarrow> alone p t"
  by (simp add: no_writer_def alone_def)

lemma outside_not_recursive:
  "lock_inv s \<Longrightarrow> outside (ph s t) \<Longrightarrow> thread (lk s) \<noteq> Some t"
  using inv_facts(12) [of s t] by auto

lemma outside_stays:
  assumes "lock_inv s" "outside (ph s t)" "outside p" "\<And>pt. p \<noteq> Waiting pt True"
  shows "lock_inv (move s t p (lk s) False)"
proof (rule lock_inv_moveI [OF assms(1)])
  show "count_inv (lk s) (ph (move s t p (lk s) False))"
    using assms by (intro count_inv_other) (auto simp: lock_inv_def)
qed (use assms in auto)

lemma write_loop_inv:
  assumes "lock_inv s" "outside (ph s t)" "lock_write_loop (lk s) = (l, a)"
  shows "lock_inv (move s t (phase_of a Out) l False)"
proof (cases "want_write (lk s)")
  case True
  then have "l = lk s" "a = Waits At_want_write"
    using assms(3) by (auto simp: lock_write_loop_def must_wait_def)
  then show ?thesis
    using outside_stays [OF assms(1,2), of "Waiting At_want_write False"] by (auto simp: outside_def)
next
  case False
  define l' where "l' = lk s\<lparr>want_write := True\<rparr>"
  have l: "l = l'" "a = (if read_count (lk s) \<noteq> 0 \<or> want_upgrade (lk s) then Waits At_drain else Holds Writes)"
    using assms(3) False by (auto simp: lock_write_loop_def lock_write_drain_def must_wait_def l'_def)
  have n: "no_writer (ph s)" using inv_facts(1) [OF assms(1)] False by blast
  note c = inv_facts(8) [OF assms(1) n] and f = inv_facts(9) [OF assms(1)]
  have "lock_inv (move s t (phase_of a Out) l' False)"
  proof (rule lock_inv_moveI [OF assms(1)])
    show "count_inv l' (ph (move s t (phase_of a Out) l' False))"
    proof (cases "read_count (lk s) \<noteq> 0 \<or> want_upgrade (lk s)")
      case True
      then show ?thesis
        using assms(1,2) l(2) by (intro count_inv_other) (auto simp: lock_inv_def l'_def)
    next
      case False
      then have "readers (ph s) = {}" using c f by auto
      moreover have "phase_of a Out = Writing 0 0" using False l(2) by simp
      ultimately show ?thesis
        using False c alone_no_writer [OF n] by (auto intro!: count_inv_writer simp: l'_def)
    qed
  qed (use assms(2) l(2) False in \<open>auto simp: l'_def must_wait_def split: wait_point.splits\<close>)
  then show ?thesis by (simp add: l(1))
qed

lemma read_loop_inv:
  assumes "lock_inv s" "outside (ph s t)" "room_read s" "lock_read_loop (lk s) = (l, a)"
  shows "lock_inv (move s t (phase_of a Out) l False)"
proof (cases "must_wait At_read (lk s)")
  case True
  then have "l = lk s" "a = Waits At_read"
    using assms(4) by (auto simp: lock_read_loop_def)
  then show ?thesis
    using outside_stays [OF assms(1,2), of "Waiting At_read False"] by (auto simp: outside_def)
next
  case False
  then have w: "\<not> want_write (lk s)" "\<not> want_upgrade (lk s)" by (auto simp: must_wait_def)
  define l' where "l' = lk s\<lparr>read_count := read_count (lk s) + 1\<rparr>"
  have l: "l = l'" "a = Holds Reads" using assms(4) False by (auto simp: lock_read_loop_def l'_def)
  have n: "no_writer (ph s)" using inv_facts(1) [OF assms(1)] w by blast
  note c = inv_facts(8) [OF assms(1) n] and f = inv_facts(9) [OF assms(1)]
  have t: "t \<notin> readers (ph s)" using assms(2) by (auto simp: readers_def)
  have u: "unat (read_count (lk s) + 1) = Suc (unat (read_count (lk s)))"
    using assms(3) by (intro unat_succ) (simp add: room_read_def)
  have g: "ph s u \<noteq> Upgrading" for u using inv_facts(5) [OF assms(1) w(2), of u] by auto
  have "lock_inv (move s t Reading l' False)"
  proof (rule lock_inv_moveI [OF assms(1)])
    show "count_inv l' (ph (move s t Reading l' False))"
      using alone_no_writer [OF n] c f t u g by (auto intro!: count_inv_no_writer simp: l'_def)
  next
    have "read_count (lk s) + 1 \<noteq> 0" using u by auto
    then show "False \<or> (waiting (lk s) \<longrightarrow> waiting l') \<and>
        (\<forall>u pt. u \<noteq> t \<longrightarrow> ph s u = Waiting pt True \<longrightarrow> must_wait pt (lk s) \<longrightarrow> must_wait pt l')"
      by (auto simp: l'_def must_wait_def split: wait_point.splits)
  qed (use assms(2) in \<open>auto simp: l'_def\<close>)
  then show ?thesis by (simp add: l)
qed

text \<open>The owner of a flag, waiting for the readers.\<close>

lemma waits_stays:
  assumes "lock_inv s" "ph s t = Waiting pt b"
  shows "lock_inv (move s t (Waiting pt False) (lk s) False)"
proof (rule lock_inv_moveI [OF assms(1)])
  show "count_inv (lk s) (ph (move s t (Waiting pt False) (lk s) False))"
    using assms by (intro count_inv_other) (auto simp: lock_inv_def)
qed (use assms in auto)

lemma write_drain_inv:
  assumes "lock_inv s" "ph s t = Waiting At_drain False" "lock_write_drain (lk s) = (l, a)"
  shows "lock_inv (move s t (phase_of a Out) l False)"
proof (cases "must_wait At_drain (lk s)")
  case True
  then show ?thesis
    using waits_stays [OF assms(1,2)] assms(3) by (auto simp: lock_write_drain_def)
next
  case False
  then have w: "read_count (lk s) = 0" "\<not> want_upgrade (lk s)" and l: "l = lk s" "a = Holds Writes"
    using assms(3) by (auto simp: must_wait_def lock_write_drain_def)
  have al: "alone (ph s) t" using inv_facts(2) [OF assms(1), of t] assms(2) by simp
  have n: "no_writer (ph s)"
    unfolding no_writer_def
  proof (intro allI)
    show "ph s u \<noteq> Writing r d" for u r d
      using al assms(2) by (cases "u = t") (auto simp: alone_def)
  qed
  note c = inv_facts(8) [OF assms(1) n] and f = inv_facts(9) [OF assms(1)]
  have "readers (ph s) = {}" using c f w by auto
  then have "lock_inv (move s t (Writing 0 0) (lk s) False)"
    using c w al assms(2) by (intro lock_inv_moveI [OF assms(1)] count_inv_writer) auto
  then show ?thesis by (simp add: l)
qed

lemma upgrade_loop_inv:
  assumes "lock_inv s" "ph s t = Waiting pt False" "pt = At_upgrade \<or> pt = At_try_upgrade"
    and "lock_upgrade_loop pt (lk s) = (l, a)"
  shows "lock_inv (move s t (phase_of a Out) l False)"
proof (cases "must_wait pt (lk s)")
  case True
  then show ?thesis
    using waits_stays [OF assms(1,2)] assms(4) by (auto simp: lock_upgrade_loop_def)
next
  case False
  then have w: "read_count (lk s) = 0" and l: "l = lk s" "a = Holds Upgraded"
    using assms(3,4) by (auto simp: must_wait_def lock_upgrade_loop_def)
  have n: "no_writer (ph s)"
    using inv_facts(3,6) [OF assms(1)] assms(2,3) by (metis owns_upgrade.simps(2))
  note c = inv_facts(8) [OF assms(1) n] and f = inv_facts(9) [OF assms(1)]
  have "readers (ph s) = {}" using c f w by auto
  then have "lock_inv (move s t Upgrading (lk s) False)"
    using c w alone_no_writer [OF n] assms(2,3)
    by (intro lock_inv_moveI [OF assms(1)] count_inv_no_writer) auto
  then show ?thesis by (simp add: l)
qed

text \<open>A reader that asks for the write lock.\<close>

lemma reader_facts:
  assumes "lock_inv s" "ph s t = Reading"
  shows "no_writer (ph s)" "t \<in> readers (ph s)" "thread (lk s) = None" "recursion_depth (lk s) = 0"
    and "unat (read_count (lk s) - 1) = card (readers (ph s) - {t})" "read_count (lk s) \<noteq> 0"
    and "\<And>u. ph s u \<noteq> Upgrading"
proof -
  show n: "no_writer (ph s)" and t: "t \<in> readers (ph s)"
    using inv_facts(4) [OF assms] assms(2) by (simp_all add: readers_def)
  note c = inv_facts(8) [OF assms(1) n] and f = inv_facts(9) [OF assms(1)]
  show "thread (lk s) = None" "recursion_depth (lk s) = 0" using c by auto
  have "card (readers (ph s)) = Suc (card (readers (ph s) - {t}))"
    using f t by (metis card.remove)
  then show "unat (read_count (lk s) - 1) = card (readers (ph s) - {t})" "read_count (lk s) \<noteq> 0"
    using c by (auto intro!: unat_pred)
  show "ph s u \<noteq> Upgrading" for u using inv_facts(11) [OF assms(1), of u] t by auto
qed

lemma reader_leaves:
  assumes "lock_inv s" "ph s t = Reading" "l = lk s\<lparr>read_count := read_count (lk s) - 1\<rparr>"
    and "lock_wakeup (read_count l = 0) l = (l', w)"
  shows "lock_inv (move s t Out l' w)"
proof (rule lock_inv_moveI [OF assms(1)])
  note r = reader_facts [OF assms(1,2)]
  have l': "l' = l\<lparr>waiting := waiting l \<and> read_count l \<noteq> 0\<rparr>" "w = (waiting l \<and> read_count l = 0)"
    using assms(4) by (auto simp: lock_wakeup_def split: if_splits)
  show "count_inv l' (ph (move s t Out l' w))"
    using r alone_no_writer [OF r(1)] inv_facts(9) [OF assms(1)]
    by (intro count_inv_no_writer) (simp_all add: l' assms(3))
  show "w \<or> (waiting (lk s) \<longrightarrow> waiting l') \<and>
      (\<forall>u pt. u \<noteq> t \<longrightarrow> ph s u = Waiting pt True \<longrightarrow> must_wait pt (lk s) \<longrightarrow> must_wait pt l')"
    using assms(1) by (auto simp: l' assms(3) must_wait_def lock_inv_def sleep_inv_def split: wait_point.splits)
qed (use assms in \<open>auto simp: lock_wakeup_def split: if_splits\<close>)

lemma reader_upgrades:
  assumes "lock_inv s" "ph s t = Reading" "\<not> want_upgrade (lk s)" "pt = At_upgrade \<or> pt = At_try_upgrade"
    and e: "read_count l = read_count (lk s) - 1" "want_upgrade l" "want_write l = want_write (lk s)"
      "thread l = thread (lk s)" "recursion_depth l = recursion_depth (lk s)" "waiting l = waiting (lk s)"
    and "lock_upgrade_loop pt l = (l', a)"
  shows "lock_inv (move s t (phase_of a p) l' False)"
proof -
  note r = reader_facts [OF assms(1,2)]
  have l': "l' = l" "a = (if read_count (lk s) - 1 \<noteq> 0 then Waits pt else Holds Upgraded)"
    using assms(4,11) e(1) by (auto simp: lock_upgrade_loop_def must_wait_def)
  have rd: "readers (ph s) \<subseteq> {t}" if "read_count (lk s) - 1 = 0"
    using r(5) that inv_facts(9) [OF assms(1)] by auto
  have o: "\<not> owns_upgrade (ph s u)" for u using inv_facts(5) [OF assms(1,3)] .
  have "lock_inv (move s t (phase_of a p) l False)"
  proof (rule lock_inv_moveI [OF assms(1)])
    show "count_inv l (ph (move s t (phase_of a p) l False))"
      using r alone_no_writer [OF r(1)] inv_facts(9) [OF assms(1)] rd l'(2)
      by (intro count_inv_no_writer) (auto simp: e)
    show "False \<or> (waiting (lk s) \<longrightarrow> waiting l) \<and>
        (\<forall>u pt. u \<noteq> t \<longrightarrow> ph s u = Waiting pt True \<longrightarrow> must_wait pt (lk s) \<longrightarrow> must_wait pt l)"
      using o by (auto simp: e must_wait_def split: wait_point.splits)
        (metis owns_upgrade.simps(2))+
  qed (use assms(2-4) l'(2) in \<open>auto simp: e\<close>)
  then show ?thesis by (simp add: l'(1))
qed

text \<open>The writer, and its recursive use of the lock.\<close>

lemma no_sleepers:
  assumes "lock_inv s" "\<not> waiting (lk s)"
  shows "ph s u \<noteq> Waiting pt True"
  using assms by (auto simp: lock_inv_def sleep_inv_def)

lemma writer_sleepers:
  assumes "lock_inv s" "ph s t = Writing r d" "u \<noteq> t" "ph s u = Waiting pt b"
  shows "pt = At_want_write \<or> pt = At_read"
proof -
  have "\<not> owns_upgrade (ph s u)"
    using inv_facts(5,10) [OF assms(1)] assms(2) by blast
  moreover have "\<not> owns_write (ph s u)"
    using assms(1-3) unfolding lock_inv_def flag_owner_def by (metis owns_write.simps(1))
  ultimately show ?thesis using assms(4) by (cases pt) auto
qed

lemma writer_stays:
  assumes "lock_inv s" "ph s t = Writing r d"
    and "want_write l = want_write (lk s)" "want_upgrade l = want_upgrade (lk s)"
    and "unat (read_count l) = r'" "unat (recursion_depth l) = d'"
    and "thread l = None \<and> r' = 0 \<and> d' = 0 \<or> thread l = Some t"
    and "w \<or> waiting l = waiting (lk s) \<or> \<not> waiting (lk s)"
  shows "lock_inv (move s t (Writing r' d') l w)"
proof (rule lock_inv_moveI [OF assms(1)])
  have "alone (ph s) t" using inv_facts(2) [OF assms(1), of t] assms(2) by simp
  then show "count_inv l (ph (move s t (Writing r' d') l w))"
    using inv_facts(10) [OF assms(1,2)] assms(4-7) by (intro count_inv_writer) auto
  have "must_wait pt l = must_wait pt (lk s)" if "u \<noteq> t" "ph s u = Waiting pt True" for u pt
    using writer_sleepers [OF assms(1,2) that] assms(3,4) by (auto simp: must_wait_def)
  then show "w \<or> (waiting (lk s) \<longrightarrow> waiting l) \<and>
      (\<forall>u pt. u \<noteq> t \<longrightarrow> ph s u = Waiting pt True \<longrightarrow> must_wait pt (lk s) \<longrightarrow> must_wait pt l)"
    using assms(8) by blast
qed (use assms in auto)

lemma writer_releases:
  assumes "lock_inv s" "ph s t = Writing 0 0" "thread (lk s) \<noteq> Some t"
    and "p = Out \<and> read_count l = 0 \<or> p = Reading \<and> read_count l = 1"
    and e: "want_upgrade l = want_upgrade (lk s)" "recursion_depth l = recursion_depth (lk s)"
      "thread l = thread (lk s)" "waiting l = waiting (lk s)" "\<not> want_write l"
    and "lock_wakeup True l = (l', w)"
  shows "lock_inv (move s t p l' w)"
proof (rule lock_inv_moveI [OF assms(1)])
  note i = inv_facts(10) [OF assms(1,2)]
  have al: "alone (ph s) t" using inv_facts(2) [OF assms(1), of t] assms(2) by simp
  have l': "l' = l\<lparr>waiting := False\<rparr>" "w = waiting l"
    using assms(10) by (auto simp: lock_wakeup_def split: if_splits)
  show "count_inv l' (ph (move s t p l' w))"
    using i al assms(3,4) inv_facts(11) [OF assms(1)] inv_facts(5) [OF assms(1)]
    by (intro count_inv_no_writer) (auto simp: l' e unat_eq_0, (metis owns_upgrade.simps(1))+)
  show "w \<or> (waiting (lk s) \<longrightarrow> waiting l') \<and>
      (\<forall>u pt. u \<noteq> t \<longrightarrow> ph s u = Waiting pt True \<longrightarrow> must_wait pt (lk s) \<longrightarrow> must_wait pt l')"
    using no_sleepers [OF assms(1)] by (auto simp: l' e)
  show "want_write l' = want_write (lk s) \<and> owns_write p = owns_write (ph s t) \<or>
         want_write l' \<and> owns_write p \<and> \<not> want_write (lk s) \<or>
         \<not> want_write l' \<and> \<not> owns_write p \<and> owns_write (ph s t)"
    using assms(2,4) by (auto simp: l' e)
  show "want_upgrade l' = want_upgrade (lk s) \<and> owns_upgrade p = owns_upgrade (ph s t) \<or>
         want_upgrade l' \<and> owns_upgrade p \<and> \<not> want_upgrade (lk s) \<or>
         \<not> want_upgrade l' \<and> \<not> owns_upgrade p \<and> owns_upgrade (ph s t)"
    using assms(2,4) by (auto simp: l' e)
qed (use assms(4) in auto)

lemma upgraded_facts:
  assumes "lock_inv s" "ph s t = Upgrading"
  shows "no_writer (ph s)" "readers (ph s) = {}" "read_count (lk s) = 0" "recursion_depth (lk s) = 0"
    and "thread (lk s) = None" "want_upgrade (lk s)" "\<And>u. ph s u = Upgrading \<Longrightarrow> u = t"
proof -
  show w: "want_upgrade (lk s)" using inv_facts(6) [OF assms(1), of t] assms(2) by simp
  show n: "no_writer (ph s)" using inv_facts(3) [OF assms(1) w] .
  show r: "readers (ph s) = {}" using inv_facts(11) [OF assms] .
  show "read_count (lk s) = 0" "recursion_depth (lk s) = 0" "thread (lk s) = None"
    using inv_facts(8) [OF assms(1) n] r by (auto simp: unat_eq_0)
  show "u = t" if "ph s u = Upgrading" for u
    using assms that unfolding lock_inv_def flag_owner_def by (metis owns_upgrade.simps(1))
qed

lemma upgraded_releases:
  assumes "lock_inv s" "ph s t = Upgrading"
    and "p = Out \<and> read_count l = 0 \<or> p = Reading \<and> read_count l = 1"
    and e: "want_write l = want_write (lk s)" "recursion_depth l = recursion_depth (lk s)"
      "thread l = thread (lk s)" "waiting l = waiting (lk s)" "\<not> want_upgrade l"
    and "lock_wakeup True l = (l', w)"
  shows "lock_inv (move s t p l' w)"
proof (rule lock_inv_moveI [OF assms(1)])
  note i = upgraded_facts [OF assms(1,2)]
  have l': "l' = l\<lparr>waiting := False\<rparr>" "w = waiting l"
    using assms(9) by (auto simp: lock_wakeup_def split: if_splits)
  show "count_inv l' (ph (move s t p l' w))"
    using i alone_no_writer [OF i(1)] assms(3)
    by (intro count_inv_no_writer) (auto simp: l' e)
  show "w \<or> (waiting (lk s) \<longrightarrow> waiting l') \<and>
      (\<forall>u pt. u \<noteq> t \<longrightarrow> ph s u = Waiting pt True \<longrightarrow> must_wait pt (lk s) \<longrightarrow> must_wait pt l')"
    using no_sleepers [OF assms(1)] by (auto simp: l' e)
  show "want_write l' = want_write (lk s) \<and> owns_write p = owns_write (ph s t) \<or>
         want_write l' \<and> owns_write p \<and> \<not> want_write (lk s) \<or>
         \<not> want_write l' \<and> \<not> owns_write p \<and> owns_write (ph s t)"
    using assms(2,3) by (auto simp: l' e)
  show "want_upgrade l' = want_upgrade (lk s) \<and> owns_upgrade p = owns_upgrade (ph s t) \<or>
         want_upgrade l' \<and> owns_upgrade p \<and> \<not> want_upgrade (lk s) \<or>
         \<not> want_upgrade l' \<and> \<not> owns_upgrade p \<and> owns_upgrade (ph s t)"
    using assms(2,3) by (auto simp: l' e)
qed (use assms(3) in auto)

lemma sleep_step_inv:
  assumes "lock_inv s" "ph s t = Waiting pt False" "must_wait pt (lk s)"
  shows "lock_inv (move s t (Waiting pt True) (lock_sleep (lk s)) False)"
proof -
  define l where "l = lock_sleep (lk s)"
  have m: "must_wait q l = must_wait q (lk s)" for q
    by (simp add: l_def lock_sleep_def must_wait_def split: wait_point.splits)
  have c: "count_inv l (ph (move s t (Waiting pt True) l False))"
    using assms by (intro count_inv_other) (auto simp: lock_inv_def l_def lock_sleep_def)
  have f: "flag_owner P b (ph (move s t (Waiting pt True) l False))"
    if "flag_owner P b (ph s)" "P (Waiting pt True) = P (Waiting pt False)" "\<And>p. P (awake p) = P p" for P b
    using that assms(2) by (intro flag_owner_move [OF that(1)]) auto
  have "sleep_inv l (ph (move s t (Waiting pt True) l False))"
    using assms(1,3) m unfolding sleep_inv_def lock_inv_def ph_move
    by (auto simp: l_def lock_sleep_def split: if_splits)
  moreover have "want_write l = want_write (lk s)" "want_upgrade l = want_upgrade (lk s)"
    by (simp_all add: l_def lock_sleep_def)
  ultimately show ?thesis
    using assms(1) c f unfolding lock_inv_def l_def [symmetric] lk_move by simp
qed

lemma reader_not_recursive:
  "lock_inv s \<Longrightarrow> ph s t = Reading \<Longrightarrow> thread (lk s) \<noteq> Some t"
  using reader_facts(3) by fastforce

text \<open>Now the routines, one by one.\<close>

lemma outside_Out [simp]: "outside Out"
  by (simp add: outside_def)

lemma lock_write_inv:
  assumes "lock_inv s" "ph s t = Out" "lock_write t (lk s) = (l, a)"
  shows "lock_inv (move s t (phase_of a Out) l False)"
  using assms write_loop_inv [OF assms(1), of t] outside_not_recursive [OF assms(1), of t]
  by (simp add: lock_write_def)

lemma lock_read_inv:
  assumes "lock_inv s" "ph s t = Out" "room_read s" "lock_read t (lk s) = (l, a)"
  shows "lock_inv (move s t (phase_of a Out) l False)"
  using assms read_loop_inv [OF assms(1), of t] outside_not_recursive [OF assms(1), of t]
  by (simp add: lock_read_def)

lemma lock_try_write_inv:
  assumes "lock_inv s" "ph s t = Out" "lock_try_write t (lk s) = (l, a)"
  shows "lock_inv (move s t (phase_of a Out) l False)"
proof -
  have o: "outside (ph s t)" using assms(2) by simp
  note n = outside_not_recursive [OF assms(1) o]
  show ?thesis
  proof (cases "want_write (lk s) \<or> want_upgrade (lk s) \<or> read_count (lk s) \<noteq> 0")
    case True
    then show ?thesis
      using outside_stays [OF assms(1) o, of Out] assms(3) n by (auto simp: lock_try_write_def)
  next
    case False
    then have "lock_write_loop (lk s) = (l, a)"
      using assms(3) n by (auto simp: lock_try_write_def lock_write_loop_def lock_write_drain_def must_wait_def)
    then show ?thesis using write_loop_inv [OF assms(1) o] by simp
  qed
qed

lemma lock_try_read_inv:
  assumes "lock_inv s" "ph s t = Out" "room_read s" "lock_try_read t (lk s) = (l, a)"
  shows "lock_inv (move s t (phase_of a Out) l False)"
proof -
  have o: "outside (ph s t)" using assms(2) by simp
  note n = outside_not_recursive [OF assms(1) o]
  show ?thesis
  proof (cases "want_write (lk s) \<or> want_upgrade (lk s)")
    case True
    then show ?thesis
      using outside_stays [OF assms(1) o, of Out] assms(4) n by (auto simp: lock_try_read_def)
  next
    case False
    then have "lock_read_loop (lk s) = (l, a)"
      using assms(4) n by (auto simp: lock_try_read_def lock_read_loop_def must_wait_def)
    then show ?thesis using read_loop_inv [OF assms(1) o assms(3)] by simp
  qed
qed

lemma lock_read_to_write_inv:
  assumes "lock_inv s" "ph s t = Reading" "lock_read_to_write t (lk s) = (l, a, w)"
  shows "lock_inv (move s t (phase_of a Out) l w)"
proof (cases "want_upgrade (lk s)")
  note n = reader_not_recursive [OF assms(1,2)]
  case True
  then have "a = Refused" "lock_wakeup (read_count (lk s) - 1 = 0) (lk s\<lparr>read_count := read_count (lk s) - 1\<rparr>) = (l, w)"
    using assms(3) n by (auto simp: lock_read_to_write_def Let_def split: prod.splits)
  then show ?thesis using reader_leaves [OF assms(1,2) refl] by simp
next
  note n = reader_not_recursive [OF assms(1,2)]
  case False
  then have u: "lock_upgrade_loop At_upgrade
      (lk s\<lparr>read_count := read_count (lk s) - 1, want_upgrade := True\<rparr>) = (l, a)" and "\<not> w"
    using assms(3) n by (auto simp: lock_read_to_write_def Let_def split: prod.splits)
  then show ?thesis using reader_upgrades [OF assms(1,2) False _ _ _ _ _ _ _ u, of Out] by simp
qed

lemma lock_try_read_to_write_inv:
  assumes "lock_inv s" "ph s t = Reading" "lock_try_read_to_write t (lk s) = (l, a)"
  shows "lock_inv (move s t (phase_of a Reading) l False)"
proof (cases "want_upgrade (lk s)")
  note n = reader_not_recursive [OF assms(1,2)]
  case True
  then have "a = Refused" "l = lk s" using assms(3) n by (auto simp: lock_try_read_to_write_def)
  then have "move s t (phase_of a Reading) l False = s"
    using assms(2) by (auto simp: move_def fun_eq_iff)
  then show ?thesis using assms(1) by simp
next
  note n = reader_not_recursive [OF assms(1,2)]
  case False
  then have u: "lock_upgrade_loop At_try_upgrade
      (lk s\<lparr>want_upgrade := True, read_count := read_count (lk s) - 1\<rparr>) = (l, a)"
    using assms(3) n by (auto simp: lock_try_read_to_write_def)
  then show ?thesis using reader_upgrades [OF assms(1,2) False _ _ _ _ _ _ _ u, of Reading] by simp
qed

lemma lock_write_to_read_inv:
  assumes "lock_inv s" "ph s t = Writing 0 0 \<or> ph s t = Upgrading" "thread (lk s) \<noteq> Some t"
    and "lock_write_to_read (lk s) = (l, w)"
  shows "lock_inv (move s t Reading l w)"
  using assms(2)
proof
  assume p: "ph s t = Writing 0 0"
  note i = inv_facts(10) [OF assms(1) p]
  have "lock_wakeup True (lk s\<lparr>read_count := 1, want_write := False\<rparr>) = (l, w)"
    using assms(4) i by (auto simp: lock_write_to_read_def Let_def unat_eq_0)
  then show ?thesis
    using writer_releases [OF assms(1) p assms(3), of Reading "lk s\<lparr>read_count := 1, want_write := False\<rparr>"]
    by simp
next
  assume p: "ph s t = Upgrading"
  note i = upgraded_facts [OF assms(1) p]
  have "lock_wakeup True (lk s\<lparr>read_count := 1, want_upgrade := False\<rparr>) = (l, w)"
    using assms(4) i by (auto simp: lock_write_to_read_def Let_def)
  then show ?thesis
    using upgraded_releases [OF assms(1) p, of Reading "lk s\<lparr>read_count := 1, want_upgrade := False\<rparr>"]
    by simp
qed

lemma lock_done_inv:
  assumes "lock_inv s" "lock_done (lk s) = (l, w)"
    and "ph s t = Reading \<or> ph s t = Upgrading \<or> ph s t = Writing 0 0 \<and> thread (lk s) \<noteq> Some t"
  shows "lock_inv (move s t Out l w)"
  using assms(3)
proof (elim disjE conjE)
  assume p: "ph s t = Reading"
  have "lock_wakeup (read_count (lk s) - 1 = 0) (lk s\<lparr>read_count := read_count (lk s) - 1\<rparr>) = (l, w)"
    using assms(2) reader_facts(6) [OF assms(1) p] by (simp add: lock_done_def)
  then show ?thesis using reader_leaves [OF assms(1) p refl] by simp
next
  assume p: "ph s t = Upgrading"
  note i = upgraded_facts [OF assms(1) p]
  have "lock_wakeup True (lk s\<lparr>want_upgrade := False\<rparr>) = (l, w)"
    using assms(2) i by (simp add: lock_done_def)
  then show ?thesis
    using upgraded_releases [OF assms(1) p, of Out "lk s\<lparr>want_upgrade := False\<rparr>"] i(3) by simp
next
  assume p: "ph s t = Writing 0 0" and r: "thread (lk s) \<noteq> Some t"
  note i = inv_facts(10) [OF assms(1) p]
  have "lock_wakeup True (lk s\<lparr>want_write := False\<rparr>) = (l, w)"
    using assms(2) i by (auto simp: lock_done_def Let_def unat_eq_0)
  then show ?thesis
    using writer_releases [OF assms(1) p r, of Out "lk s\<lparr>want_write := False\<rparr>"] i by (simp add: unat_eq_0)
qed

lemma lock_done_again_inv:
  assumes "lock_inv s" "lock_done (lk s) = (l, w)"
  shows "ph s t = Writing (Suc r) d \<Longrightarrow> lock_inv (move s t (Writing r d) l w)"
    and "ph s t = Writing 0 (Suc d) \<Longrightarrow> lock_inv (move s t (Writing 0 d) l w)"
proof -
  assume p: "ph s t = Writing (Suc r) d"
  note i = inv_facts(10) [OF assms(1) p]
  then have "l = lk s\<lparr>read_count := read_count (lk s) - 1,
      waiting := waiting (lk s) \<and> read_count (lk s) - 1 \<noteq> 0\<rparr>"
      "w = (waiting (lk s) \<and> read_count (lk s) - 1 = 0)"
    using assms(2) by (auto simp: lock_done_def lock_wakeup_def Let_def split: if_splits)
  then show "lock_inv (move s t (Writing r d) l w)"
    using i by (auto intro!: writer_stays [OF assms(1) p] unat_pred)
next
  assume p: "ph s t = Writing 0 (Suc d)"
  note i = inv_facts(10) [OF assms(1) p]
  then have "l = lk s\<lparr>recursion_depth := recursion_depth (lk s) - 1, waiting := False\<rparr>"
      "w = waiting (lk s)"
    using assms(2) by (auto simp: lock_done_def lock_wakeup_def Let_def unat_eq_0 split: if_splits)
  then show "lock_inv (move s t (Writing 0 d) l w)"
    using i by (auto intro!: writer_stays [OF assms(1) p] unat_pred)
qed

lemma lock_again_inv:
  assumes "lock_inv s" "ph s t = Writing r d" "thread (lk s) = Some t"
  shows "room_depth s \<Longrightarrow> lock_write t (lk s) = (l, a) \<Longrightarrow>
      lock_inv (move s t (phase_of a (Writing r (Suc d))) l False)"
    and "room_read s \<Longrightarrow> lock_read t (lk s) = (l, a) \<Longrightarrow>
      lock_inv (move s t (phase_of a (Writing (Suc r) d)) l False)"
proof -
  note i = inv_facts(10) [OF assms(1,2)]
  assume "room_depth s" "lock_write t (lk s) = (l, a)"
  then show "lock_inv (move s t (phase_of a (Writing r (Suc d))) l False)"
    using i assms(3) unat_succ [of "recursion_depth (lk s)"]
    by (auto intro!: writer_stays [OF assms(1,2)] simp: lock_write_def room_depth_def)
next
  note i = inv_facts(10) [OF assms(1,2)]
  assume "room_read s" "lock_read t (lk s) = (l, a)"
  then show "lock_inv (move s t (phase_of a (Writing (Suc r) d)) l False)"
    using i assms(3) unat_succ [of "read_count (lk s)"]
    by (auto intro!: writer_stays [OF assms(1,2)] simp: lock_read_def room_read_def)
qed

lemma lock_convert_again_inv:
  assumes "lock_inv s"
  shows "ph s t = Writing (Suc r) d \<Longrightarrow> thread (lk s) = Some t \<Longrightarrow> room_depth s \<Longrightarrow>
      lock_read_to_write t (lk s) = (l, a, w) \<Longrightarrow> lock_inv (move s t (phase_of a (Writing r (Suc d))) l w)"
    and "ph s t = Writing r (Suc d) \<Longrightarrow> room_read s \<Longrightarrow>
      lock_write_to_read (lk s) = (l, w) \<Longrightarrow> lock_inv (move s t (Writing (Suc r) d) l w)"
proof -
  assume p: "ph s t = Writing (Suc r) d" and "thread (lk s) = Some t" "room_depth s"
    and r: "lock_read_to_write t (lk s) = (l, a, w)"
  then have "l = lk s\<lparr>read_count := read_count (lk s) - 1, recursion_depth := recursion_depth (lk s) + 1\<rparr>"
      "a = Holds Recursive" "\<not> w"
    by (auto simp: lock_read_to_write_def Let_def)
  then show "lock_inv (move s t (phase_of a (Writing r (Suc d))) l w)"
    using inv_facts(10) [OF assms p] \<open>room_depth s\<close>
    by (auto intro!: writer_stays [OF assms p] unat_succ unat_pred simp: room_depth_def)
next
  assume p: "ph s t = Writing r (Suc d)" and "room_read s" and r: "lock_write_to_read (lk s) = (l, w)"
  note i = inv_facts(10) [OF assms p]
  then have "l = lk s\<lparr>read_count := read_count (lk s) + 1, recursion_depth := recursion_depth (lk s) - 1,
      waiting := False\<rparr>" "w = waiting (lk s)"
    using r by (auto simp: lock_write_to_read_def lock_wakeup_def Let_def split: if_splits)
  then show "lock_inv (move s t (Writing (Suc r) d) l w)"
    using i \<open>room_read s\<close>
    by (auto intro!: writer_stays [OF assms p] unat_succ unat_pred simp: room_read_def)
qed

lemma lock_recursive_inv:
  assumes "lock_inv s" "ph s t = Writing r d"
  shows "lock_set_recursive t (lk s) = Some l \<Longrightarrow> lock_inv (move s t (Writing r d) l False)"
    and "r = 0 \<Longrightarrow> lock_clear_recursive t (lk s) = Some l \<Longrightarrow> lock_inv (move s t (Writing r d) l False)"
proof -
  note i = inv_facts(10) [OF assms]
  show "lock_set_recursive t (lk s) = Some l \<Longrightarrow> lock_inv (move s t (Writing r d) l False)"
    using i by (auto intro!: writer_stays [OF assms] simp: lock_set_recursive_def split: if_splits)
  show "r = 0 \<Longrightarrow> lock_clear_recursive t (lk s) = Some l \<Longrightarrow> lock_inv (move s t (Writing r d) l False)"
    using i by (auto intro!: writer_stays [OF assms] simp: lock_clear_recursive_def split: if_splits)
qed

lemma lock_resume_inv:
  assumes "lock_inv s" "ph s t = Waiting pt False" "pt = At_read \<longrightarrow> room_read s"
    and "lock_resume pt (lk s) = (l, a)"
  shows "lock_inv (move s t (phase_of a Out) l False)"
  using assms write_loop_inv [OF assms(1), of t] write_drain_inv [OF assms(1), of t]
    read_loop_inv [OF assms(1), of t] upgrade_loop_inv [OF assms(1,2)]
  by (cases pt) (auto simp: lock_resume_def outside_def)

lemma lock_sleepable_inv:
  "lock_inv s \<Longrightarrow> lock_inv (s\<lparr>lk := lock_sleepable (lk s) b\<rparr>)"
  by (simp add: lock_inv_def lock_sleepable_def count_inv_def sleep_inv_def must_wait_def cong: wait_point.case_cong)

lemmas lock_routines_inv =
  lock_write_inv lock_read_inv lock_try_write_inv lock_try_read_inv lock_again_inv
  lock_read_to_write_inv lock_try_read_to_write_inv lock_convert_again_inv lock_write_to_read_inv
  lock_done_inv lock_done_again_inv lock_recursive_inv lock_resume_inv lock_sleepable_inv

lemma lock_step_inv:
  assumes "lock_step s s'" "lock_inv s"
  shows "lock_inv s'"
  using assms
  by cases (simp_all add: lock_routines_inv sleep_step_inv may_sleep_def)

lemma lock_inv_start: "lock_inv (start b)"
  by (simp add: lock_inv_def start_def lock_init_def flag_owner_def count_inv_def sleep_inv_def readers_def)

lemma reachable_inv: "reachable s \<Longrightarrow> lock_inv s"
  by (induction rule: reachable.induct) (simp_all add: lock_inv_start lock_step_inv)

subsection \<open>Exclusion and progress\<close>

definition holds_lock :: "phase \<Rightarrow> bool" where
  "holds_lock p = (p = Reading \<or> exclusive p)"

text \<open>
  C4: Readers and writers exclude each other.  In every interleaving of the routines, while a
  thread holds the lock for writing, by \<open>lock_write\<close>, by an upgrade or recursively, no other
  thread holds it for reading or writing.\<close>

theorem lock_mutual_exclusion:
  assumes "reachable s" "exclusive (ph s t)" "holds_lock (ph s u)"
  shows "u = t"
proof -
  note i = reachable_inv [OF assms(1)]
  consider (writing) r d where "ph s t = Writing r d" | (upgrading) "ph s t = Upgrading"
    using assms(2) by (cases "ph s t") auto
  then show ?thesis
  proof cases
    case writing
    then have "readers (ph s) = {}" "\<not> want_upgrade (lk s)" "alone (ph s) t"
      using inv_facts(10) [OF i writing] inv_facts(2) [OF i, of t] by auto
    then show ?thesis
      using assms(3) inv_facts(5) [OF i, of u]
      by (cases "ph s u") (auto simp: holds_lock_def readers_def alone_def)
  next
    case upgrading
    note u = upgraded_facts [OF i upgrading]
    show ?thesis
      using assms(3) u by (cases "ph s u") (auto simp: holds_lock_def readers_def no_writer_def)
  qed
qed

text \<open>An execution: thread 0 takes the lock for writing, thread 1 asks for it and goes to
  sleep, thread 0 releases it.\<close>

definition written :: system where
  "written = move (start True) 0 (Writing 0 0) ((lock_init True)\<lparr>want_write := True\<rparr>) False"

definition contended :: system where
  "contended = move written 1 (Waiting At_want_write True) ((lk written)\<lparr>waiting := True\<rparr>) False"

definition released :: system where
  "released = move contended 0 Out (lock_init True) True"

lemma reachable_written: "reachable written"
proof -
  have "lock_step (start True) (move (start True) 0 (phase_of (Holds Writes) Out)
      ((lock_init True)\<lparr>want_write := True\<rparr>) False)"
    by (rule lock_step.acquire_write)
       (simp_all add: start_def lock_init_def lock_write_def lock_write_loop_def lock_write_drain_def must_wait_def)
  then show ?thesis using reachable.intros by (auto simp: written_def)
qed

lemma reachable_contended: "reachable contended"
proof -
  define s where "s = move written 1 (Waiting At_want_write False) (lk written) False"
  have "lock_step written (move written 1 (phase_of (Waits At_want_write) Out) (lk written) False)"
    by (rule lock_step.acquire_write)
       (simp_all add: written_def ph_move start_def lock_init_def lock_write_def lock_write_loop_def must_wait_def)
  then have "reachable s" using reachable_written reachable.intros by (auto simp: s_def)
  moreover have "lock_step s (move s 1 (Waiting At_want_write True) (lock_sleep (lk s)) False)"
    by (rule lock_step.sleep)
       (simp_all add: s_def written_def ph_move may_sleep_def must_wait_def start_def lock_init_def)
  moreover have "move s 1 (Waiting At_want_write True) (lock_sleep (lk s)) False = contended"
    by (auto simp: s_def contended_def lock_sleep_def move_def fun_eq_iff)
  ultimately show ?thesis using reachable.intros by metis
qed

lemma reachable_released: "reachable released"
proof -
  have "lock_step contended (move contended 0 Out (lock_init True) True)"
    by (rule lock_step.release)
       (simp_all add: contended_def written_def ph_move start_def lock_init_def lock_done_def lock_wakeup_def)
  then show ?thesis using reachable_contended reachable.intros by (auto simp: released_def)
qed

theorem lock_mutual_exclusion_witness:
  "exclusive (ph contended 0) \<and> \<not> holds_lock (ph contended 1)"
  using lock_mutual_exclusion [OF reachable_contended, of 0 1]
  by (auto simp: contended_def written_def ph_move)

text \<open>
  C5: No wakeup is lost and nobody waits for a free lock.  In every reachable state in which
  some thread waits for the lock, asleep or spinning, and no thread holds it, there is a thread
  that is awake and whose next test of its loop gives it the lock.\<close>

theorem lock_progress:
  assumes "reachable s" "ph s t = Waiting pt b" "\<And>u. \<not> holds_lock (ph s u)"
  shows "\<exists>u q l h. ph s u = Waiting q False \<and> lock_resume q (lk s) = (l, Holds h) \<and>
           lock_step s (move s u (phase_of (Holds h) Out) l False)"
proof -
  note i = reachable_inv [OF assms(1)]
  have n: "no_writer (ph s)" "readers (ph s) = {}"
    using assms(3) unfolding no_writer_def readers_def holds_lock_def
    by (metis exclusive.simps(2)) (use assms(3) in \<open>auto simp: holds_lock_def\<close>)
  have rc: "read_count (lk s) = 0" using inv_facts(8) [OF i n(1)] n(2) by (simp add: unat_eq_0)
  then have room: "room_read s" by (simp add: room_read_def)
  have go: ?thesis if "ph s u = Waiting q c" "\<not> must_wait q (lk s)" "lock_resume q (lk s) = (l, Holds h)" for u q c l h
  proof -
    have "\<not> c" using i that(1,2) by (cases c) (auto simp: lock_inv_def sleep_inv_def)
    then show ?thesis using that lock_step.resume [of s u q] room by auto
  qed
  consider (upgrade) u q c where "ph s u = Waiting q c" "q = At_upgrade \<or> q = At_try_upgrade"
    | (drain) u c where "ph s u = Waiting At_drain c" "\<not> want_upgrade (lk s)"
    | (free) "\<not> want_write (lk s)" "\<not> want_upgrade (lk s)"
  proof -
    have "owns_upgrade (ph s u) \<Longrightarrow> \<exists>q c. ph s u = Waiting q c \<and> (q = At_upgrade \<or> q = At_try_upgrade)"
      "owns_write (ph s u) \<Longrightarrow> \<exists>c. ph s u = Waiting At_drain c" for u
      using assms(3) [of u] by (cases "ph s u"; auto simp: holds_lock_def)+
    then show ?thesis using i that unfolding lock_inv_def flag_owner_def by metis
  qed
  then show ?thesis
  proof cases
    case upgrade
    then show ?thesis
      using rc by (intro go [OF upgrade(1)]) (auto simp: lock_resume_def lock_upgrade_loop_def must_wait_def)
  next
    case drain
    then show ?thesis
      using rc by (intro go [OF drain(1)]) (auto simp: lock_resume_def lock_write_drain_def must_wait_def)
  next
    case free
    then have "pt = At_want_write \<or> pt = At_read"
      using inv_facts(6,7) [OF i, of t] assms(2) by (cases pt) auto
    then have "\<not> must_wait pt (lk s)" "\<exists>l h. lock_resume pt (lk s) = (l, Holds h)"
      using rc free by (auto simp: lock_resume_def lock_write_loop_def lock_write_drain_def
          lock_read_loop_def must_wait_def)
    then show ?thesis using go [OF assms(2)] by blast
  qed
qed

theorem lock_progress_witness:
  "\<exists>u q l h. ph released u = Waiting q False \<and> lock_resume q (lk released) = (l, Holds h) \<and>
     lock_step released (move released u (phase_of (Holds h) Out) l False)"
  by (rule lock_progress [OF reachable_released, of 1 At_want_write False])
     (auto simp: released_def contended_def written_def start_def ph_move holds_lock_def)

text \<open>A thread that got the write lock by an upgrade has it for writing, but cannot make it
  recursive: \<open>lock_set_recursive\<close> looks at \<^verbatim>\<open>want_write\<close> only.\<close>

lemma lock_set_recursive_upgraded:
  "\<exists>l. lock_read_to_write 0 (fst (lock_read 0 (lock_init b))) = (l, Holds Upgraded, False) \<and>
       lock_set_recursive 0 l = None"
  by (simp add: lock_read_to_write_def lock_read_def lock_read_loop_def lock_upgrade_loop_def
      must_wait_def lock_init_def lock_set_recursive_def)

end
