(* ===== verification/Cirbuf.thy ===== *)
theory Cirbuf
  imports Mach_Prelude
begin

text \<open>
  The circular buffers of \<^verbatim>\<open>device/cirbuf.c\<close>.  Pointers into the buffer are offsets from
  \<^verbatim>\<open>c_start\<close>, and \<^verbatim>\<open>c_end\<close> is the length of the list \<open>c_data\<close>.  One slot always stays empty.

  The copying loops move a chunk per iteration.  A chunk of length 0 would leave everything
  as it is, and the loop would run for ever; that is the value \<open>None\<close>.

  \<open>contents\<close> is the list of characters in the buffer, in the order they are read.  The laws of
  the operations on it are the locale \<open>char_queue\<close>.
\<close>

type_synonym uchar = "8 word"

record cirbuf =
  c_data :: "uchar list"
  c_cf :: nat
  c_cl :: nat
  c_cc :: "16 word"
  c_hog :: "16 word"

abbreviation c_end :: "cirbuf \<Rightarrow> nat" where "c_end cb \<equiv> length (c_data cb)"

subsection \<open>Operations\<close>

definition putc :: "int \<Rightarrow> cirbuf \<Rightarrow> int \<times> cirbuf" where
  "putc c cb =
     (let ow = c_cl cb; nw = (if ow + 1 = c_end cb then 0 else ow + 1) in
      if nw = c_cf cb then (1, cb)
      else (0, cb\<lparr>c_data := (c_data cb)[ow := word_of_int c], c_cl := nw, c_cc := c_cc cb + 1\<rparr>))"

definition getc :: "cirbuf \<Rightarrow> int \<times> cirbuf" where
  "getc cb =
     (let nr = c_cf cb in
      if nr = c_cl cb then (-1, cb)
      else (uint (c_data cb ! nr),
            cb\<lparr>c_cf := (if nr + 1 = c_end cb then 0 else nr + 1), c_cc := c_cc cb - 1\<rparr>))"

text \<open>The chunk that can be read without passing the end of the buffer.\<close>

definition read_chunk :: "cirbuf \<Rightarrow> nat \<Rightarrow> nat" where
  "read_chunk cb count =
     min count (if c_cl cb < c_cf cb then c_end cb - c_cf cb else c_cl cb - c_cf cb)"

definition advance_read :: "cirbuf \<Rightarrow> nat \<Rightarrow> cirbuf" where
  "advance_read cb i =
     (let cf = c_cf cb + i in
      cb\<lparr>c_cf := (if cf = c_end cb then 0 else cf), c_cc := c_cc cb - of_nat i\<rparr>)"

function q_to_b :: "cirbuf \<Rightarrow> nat \<Rightarrow> (uchar list \<times> cirbuf) option" where
  "q_to_b cb count =
     (if count = 0 then Some ([], cb)
      else if c_cl cb = c_cf cb then Some ([], cb)
      else let i = read_chunk cb count in
        if i = 0 then None
        else map_option (\<lambda>(cp, cb'). (take i (drop (c_cf cb) (c_data cb)) @ cp, cb'))
               (q_to_b (advance_read cb i) (count - i)))"
  by pat_completeness auto
termination by (relation "measure snd") auto

definition write_chunk :: "cirbuf \<Rightarrow> nat \<Rightarrow> nat \<Rightarrow> nat" where
  "write_chunk cb lim count = min count (if c_cl cb < lim then lim - c_cl cb else c_end cb - c_cl cb)"

definition store :: "cirbuf \<Rightarrow> uchar list \<Rightarrow> cirbuf" where
  "store cb cp =
     (let cl = c_cl cb + length cp in
      cb\<lparr>c_data := take (c_cl cb) (c_data cb) @ cp @ drop cl (c_data cb),
         c_cl := (if cl = c_end cb then 0 else cl), c_cc := c_cc cb + of_nat (length cp)\<rparr>)"

text \<open>The number of characters not entered.\<close>

function b_to_q :: "uchar list \<Rightarrow> cirbuf \<Rightarrow> (nat \<times> cirbuf) option" where
  "b_to_q cp cb =
     (let count = length cp in
      if count = 0 then Some (0, cb)
      else let lim = (if c_cf cb = 0 then c_end cb - 1 else c_cf cb - 1) in
        if c_cl cb = lim then Some (count, cb)
        else let i = write_chunk cb lim count in
          if i = 0 then None else b_to_q (drop i cp) (store cb (take i cp)))"
  by pat_completeness auto
termination by (relation "measure (\<lambda>(cp, cb). length cp)") auto

function ndflush :: "cirbuf \<Rightarrow> nat \<Rightarrow> cirbuf option" where
  "ndflush cb count =
     (if count = 0 then Some cb
      else if c_cl cb = c_cf cb then Some cb
      else let i = read_chunk cb count in
        if i = 0 then None else ndflush (advance_read cb i) (count - i))"
  by pat_completeness auto
termination by (relation "measure snd") auto

declare q_to_b.simps [simp del] b_to_q.simps [simp del] ndflush.simps [simp del]

definition cb_clear :: "cirbuf \<Rightarrow> cirbuf" where
  "cb_clear cb = cb\<lparr>c_cf := 0, c_cl := 0, c_cc := 0\<rparr>"

text \<open>\<open>buf\<close> is the memory \<^verbatim>\<open>kalloc\<close> returns.\<close>

definition cb_alloc :: "uchar list \<Rightarrow> cirbuf" where
  "cb_alloc buf = \<lparr>c_data = buf, c_cf = 0, c_cl = 0, c_cc = 0, c_hog = of_nat (length buf - 1)\<rparr>"

text \<open>The consistency check of debugging kernels.\<close>

definition cb_check :: "cirbuf \<Rightarrow> bool" where
  "cb_check cb =
     (c_cf cb < c_end cb \<and> c_cl cb < c_end cb \<and>
      c_cc cb = (if c_cf cb \<le> c_cl cb then of_nat (c_cl cb - c_cf cb)
                 else of_nat (c_end cb - c_cf cb + c_cl cb)))"

subsection \<open>Contents\<close>

definition contents :: "cirbuf \<Rightarrow> uchar list" where
  "contents cb =
     (if c_cf cb \<le> c_cl cb then take (c_cl cb - c_cf cb) (drop (c_cf cb) (c_data cb))
      else drop (c_cf cb) (c_data cb) @ take (c_cl cb) (c_data cb))"

definition capacity :: "cirbuf \<Rightarrow> nat" where
  "capacity cb = c_end cb - 1"

lemma contents_length:
  "cb_check cb \<Longrightarrow> length (contents cb) =
     (if c_cf cb \<le> c_cl cb then c_cl cb - c_cf cb else c_end cb - c_cf cb + c_cl cb)"
  by (auto simp: cb_check_def contents_def)

lemma contents_bounded: "cb_check cb \<Longrightarrow> length (contents cb) \<le> capacity cb"
  by (auto simp: contents_length capacity_def cb_check_def)

lemma cc_contents: "cb_check cb \<Longrightarrow> c_cc cb = of_nat (length (contents cb))"
  by (auto simp: contents_length) (auto simp: cb_check_def)

lemma contents_empty: "cb_check cb \<Longrightarrow> contents cb = [] \<longleftrightarrow> c_cl cb = c_cf cb"
  by (subst length_0_conv [symmetric], subst contents_length) (auto simp: cb_check_def)

text \<open>A chunk read is a prefix of the contents.\<close>

lemma read_chunk_pos: "cb_check cb \<Longrightarrow> c_cl cb \<noteq> c_cf cb \<Longrightarrow> count \<noteq> 0 \<Longrightarrow> read_chunk cb count \<noteq> 0"
  by (auto simp: read_chunk_def cb_check_def)

lemma advance_read_straight:
  assumes "cb_check cb" "c_cl cb = c_cf cb + i + j"
  shows "cb_check (advance_read cb i)"
    and "contents cb = take i (drop (c_cf cb) (c_data cb)) @ contents (advance_read cb i)"
proof -
  have a: "advance_read cb i = cb\<lparr>c_cf := c_cf cb + i, c_cc := c_cc cb - of_nat i\<rparr>"
    using assms by (simp add: advance_read_def cb_check_def)
  have c: "c_cc cb = of_nat i + of_nat j" using assms by (simp add: cb_check_def)
  show "cb_check (advance_read cb i)" using assms c by (simp add: a cb_check_def)
  show "contents cb = take i (drop (c_cf cb) (c_data cb)) @ contents (advance_read cb i)"
    using assms(2) by (simp add: a contents_def take_add add.commute)
qed

lemma advance_read_wrapped:
  assumes "cb_check cb" "c_cl cb < c_cf cb" "c_end cb = c_cf cb + i + j"
  shows "cb_check (advance_read cb i)"
    and "contents cb = take i (drop (c_cf cb) (c_data cb)) @ contents (advance_read cb i)"
proof -
  have a: "advance_read cb i = cb\<lparr>c_cf := (if j = 0 then 0 else c_cf cb + i), c_cc := c_cc cb - of_nat i\<rparr>"
    using assms(3) by (simp add: advance_read_def)
  have c: "c_cc cb = of_nat i + of_nat j + of_nat (c_cl cb)" using assms by (simp add: cb_check_def)
  have d: "drop (c_cf cb) (c_data cb) = take i (drop (c_cf cb) (c_data cb)) @ drop (c_cf cb + i) (c_data cb)"
    by (metis append_take_drop_id drop_drop add.commute)
  show "cb_check (advance_read cb i)"
    using assms c by (cases "j = 0") (simp_all add: a cb_check_def)
  have "contents (advance_read cb i) = drop (c_cf cb + i) (c_data cb) @ take (c_cl cb) (c_data cb)"
    using assms(2,3) by (cases "j = 0") (simp_all add: a contents_def)
  then show "contents cb = take i (drop (c_cf cb) (c_data cb)) @ contents (advance_read cb i)"
    using assms(2) d by (simp add: contents_def)
qed

lemma advance_read:
  assumes "cb_check cb" "i = read_chunk cb count"
  shows "cb_check (advance_read cb i)"
    and "contents cb = take i (drop (c_cf cb) (c_data cb)) @ contents (advance_read cb i)"
    and "c_end (advance_read cb i) = c_end cb"
    and "length (take i (drop (c_cf cb) (c_data cb))) = i"
proof -
  have b: "c_cf cb < c_end cb" "c_cl cb < c_end cb" using assms(1) by (auto simp: cb_check_def)
  have i: "i \<le> (if c_cl cb < c_cf cb then c_end cb - c_cf cb else c_cl cb - c_cf cb)"
    using assms(2) by (simp add: read_chunk_def)
  show "c_end (advance_read cb i) = c_end cb" by (simp add: advance_read_def Let_def)
  show "length (take i (drop (c_cf cb) (c_data cb))) = i" using i b by (auto split: if_splits)
  have "c_cl cb = c_cf cb + i + (c_cl cb - c_cf cb - i)" if "\<not> c_cl cb < c_cf cb" using i that by simp
  moreover have "c_end cb = c_cf cb + i + (c_end cb - c_cf cb - i)" if "c_cl cb < c_cf cb" using i that b by simp
  ultimately show "cb_check (advance_read cb i)"
    "contents cb = take i (drop (c_cf cb) (c_data cb)) @ contents (advance_read cb i)"
    using advance_read_straight [OF assms(1)] advance_read_wrapped [OF assms(1)] by blast+
qed

lemma q_to_b_contents:
  assumes "cb_check cb"
  shows "\<exists>cb'. q_to_b cb count = Some (take count (contents cb), cb') \<and> cb_check cb' \<and>
           contents cb' = drop count (contents cb) \<and> c_end cb' = c_end cb"
  using assms
proof (induction cb count rule: q_to_b.induct)
  case (1 cb count)
  show ?case
  proof (cases "count = 0 \<or> c_cl cb = c_cf cb")
    case True
    then show ?thesis
      using 1(2) contents_empty [OF 1(2)] by (auto simp: q_to_b.simps [of cb count])
  next
    case False
    define i where "i = read_chunk cb count"
    have i: "i \<noteq> 0" "i \<le> count" using read_chunk_pos [OF 1(2)] False by (auto simp: i_def read_chunk_def)
    note a = advance_read [OF 1(2) i_def]
    let ?t = "take i (drop (c_cf cb) (c_data cb))"
    obtain cb' where r: "q_to_b (advance_read cb i) (count - i) = Some (take (count - i) (contents (advance_read cb i)), cb')"
        "cb_check cb'" "contents cb' = drop (count - i) (contents (advance_read cb i))"
        "c_end cb' = c_end (advance_read cb i)"
      using 1(1) [OF _ _ i_def i(1) a(1)] False by auto
    have "take count (contents cb) = ?t @ take (count - i) (contents (advance_read cb i))"
      "drop count (contents cb) = drop (count - i) (contents (advance_read cb i))"
      using a(4) i(2) by (subst a(2); simp)+
    then show ?thesis
      using r a(3) False i by (auto simp: q_to_b.simps [of cb count] Let_def i_def [symmetric])
  qed
qed

lemma ndflush_q_to_b: "ndflush cb count = map_option snd (q_to_b cb count)"
proof (induction cb count rule: ndflush.induct)
  case (1 cb count)
  then show ?case
    by (auto simp: ndflush.simps [of cb count] q_to_b.simps [of cb count] Let_def option.map_comp comp_def
        case_prod_beta)
qed

text \<open>Room in the buffer, in the two ways the code computes it.\<close>

definition write_limit :: "cirbuf \<Rightarrow> nat" where
  "write_limit cb = (if c_cf cb = 0 then c_end cb - 1 else c_cf cb - 1)"

lemma full_iff:
  assumes "cb_check cb"
  shows "c_cl cb = write_limit cb \<longleftrightarrow> length (contents cb) = capacity cb"
    and "(if c_cl cb + 1 = c_end cb then 0 else c_cl cb + 1) = c_cf cb \<longleftrightarrow> length (contents cb) = capacity cb"
  using assms unfolding contents_length [OF assms] capacity_def write_limit_def cb_check_def by auto

text \<open>What fits before the limit or the end of the buffer is appended.\<close>

lemma store_wrapped:
  assumes "cb_check cb" "c_cl cb < c_cf cb" "c_cl cb + length cp < c_cf cb"
  shows "cb_check (store cb cp)" "contents (store cb cp) = contents cb @ cp" "c_end (store cb cp) = c_end cb"
  using assms by (auto simp: store_def contents_def cb_check_def Let_def)

lemma store_straight:
  assumes "cb_check cb" "c_cf cb \<le> c_cl cb" "c_cl cb + length cp \<le> c_end cb"
    and "c_cl cb + length cp = c_end cb \<longrightarrow> 0 < c_cf cb"
  shows "cb_check (store cb cp)" "contents (store cb cp) = contents cb @ cp" "c_end (store cb cp) = c_end cb"
proof -
  have c: "c_cc cb = of_nat (c_cl cb - c_cf cb)" using assms(1,2) by (simp add: cb_check_def)
  then show "cb_check (store cb cp)"
    using assms by (auto simp: store_def cb_check_def Let_def simp flip: of_nat_add)
  show "c_end (store cb cp) = c_end cb" using assms(1,3) by (auto simp: store_def Let_def cb_check_def)
  show "contents (store cb cp) = contents cb @ cp"
    using assms by (auto simp: store_def contents_def cb_check_def Let_def drop_take)
qed

lemma store_chunk:
  assumes "cb_check cb" "c_cl cb \<noteq> write_limit cb" "length cp \<le> write_chunk cb (write_limit cb) count"
  shows "cb_check (store cb cp)" "contents (store cb cp) = contents cb @ cp" "c_end (store cb cp) = c_end cb"
proof -
  have b: "c_cf cb < c_end cb" "c_cl cb < c_end cb" using assms(1) by (auto simp: cb_check_def)
  show "cb_check (store cb cp)" "contents (store cb cp) = contents cb @ cp" "c_end (store cb cp) = c_end cb"
    using store_wrapped [OF assms(1), of cp] store_straight [OF assms(1), of cp] b assms(2,3)
    by (cases "c_cl cb < c_cf cb"; auto simp: write_chunk_def write_limit_def min_def split: if_splits)+
qed

lemma write_chunk_pos:
  "cb_check cb \<Longrightarrow> c_cl cb \<noteq> write_limit cb \<Longrightarrow> count \<noteq> 0 \<Longrightarrow> write_chunk cb (write_limit cb) count \<noteq> 0"
  by (auto simp: write_chunk_def cb_check_def)

lemma b_to_q_contents:
  assumes "cb_check cb"
  shows "\<exists>cb'. b_to_q cp cb = Some (length cp - (capacity cb - length (contents cb)), cb') \<and> cb_check cb' \<and>
           contents cb' = contents cb @ take (capacity cb - length (contents cb)) cp \<and> c_end cb' = c_end cb"
  using assms
proof (induction cp cb rule: b_to_q.induct)
  case (1 cp cb)
  show ?case
  proof (cases "cp = [] \<or> c_cl cb = write_limit cb")
    case True
    then show ?thesis
      using 1(2) full_iff(1) [OF 1(2)] by (auto simp: b_to_q.simps [of cp cb] write_limit_def Let_def)
  next
    case False
    define i where "i = write_chunk cb (write_limit cb) (length cp)"
    have i: "i \<noteq> 0" "i \<le> length cp"
      using write_chunk_pos [OF 1(2), of "length cp"] False by (auto simp: i_def write_chunk_def)
    have c: "length (take i cp) \<le> write_chunk cb (write_limit cb) (length cp)" by (simp add: i_def)
    note s = store_chunk [OF 1(2) _ c] and b = contents_bounded [OF 1(2)]
    let ?cb = "store cb (take i cp)"
    have k: "capacity ?cb - length (contents ?cb) = capacity cb - length (contents cb) - i"
      "i \<le> capacity cb - length (contents cb)"
      using s False i(2) contents_bounded [OF s(1)] by (auto simp: capacity_def)
    obtain cb' where r: "b_to_q (drop i cp) ?cb = Some (length cp - i - (capacity ?cb - length (contents ?cb)), cb')"
        "cb_check cb'" "contents cb' = contents ?cb @ take (capacity ?cb - length (contents ?cb)) (drop i cp)"
        "c_end cb' = c_end ?cb"
      using 1(1) [OF refl _ refl _ i_def [unfolded write_limit_def] i(1)] s(1) False by (auto simp: write_limit_def)
    have "take (capacity cb - length (contents cb)) cp =
          take i cp @ take (capacity cb - length (contents cb) - i) (drop i cp)"
      using k(2) by (metis le_add_diff_inverse take_add)
    then show ?thesis
      using r s False i k by (auto simp: b_to_q.simps [of cp cb] Let_def i_def [symmetric] write_limit_def [symmetric])
  qed
qed

lemma putc_contents:
  assumes "cb_check cb"
  shows "putc c cb = (if length (contents cb) = capacity cb then (1, cb) else (0, store cb [word_of_int c]))"
    and "length (contents cb) \<noteq> capacity cb \<Longrightarrow>
           cb_check (store cb [word_of_int c]) \<and> contents (store cb [word_of_int c]) = contents cb @ [word_of_int c] \<and>
           c_end (store cb [word_of_int c]) = c_end cb"
proof -
  have b: "c_cl cb < c_end cb" using assms by (simp add: cb_check_def)
  then show "putc c cb = (if length (contents cb) = capacity cb then (1, cb) else (0, store cb [word_of_int c]))"
    using full_iff(2) [OF assms] by (auto simp: putc_def store_def Let_def upd_conv_take_nth_drop)
  assume "length (contents cb) \<noteq> capacity cb"
  then have n: "c_cl cb \<noteq> write_limit cb" using full_iff(1) [OF assms] by simp
  have "length [word_of_int c :: uchar] \<le> write_chunk cb (write_limit cb) 1"
    using write_chunk_pos [OF assms n, of 1] by simp
  then show "cb_check (store cb [word_of_int c]) \<and> contents (store cb [word_of_int c]) = contents cb @ [word_of_int c] \<and>
           c_end (store cb [word_of_int c]) = c_end cb"
    using store_chunk [OF assms n] by blast
qed

lemma getc_contents:
  assumes "cb_check cb"
  shows "contents cb = [] \<Longrightarrow> getc cb = (-1, cb)"
    and "contents cb = c # cs \<Longrightarrow> \<exists>cb'. getc cb = (uint c, cb') \<and> cb_check cb' \<and> contents cb' = cs \<and> c_end cb' = c_end cb"
proof -
  show "contents cb = [] \<Longrightarrow> getc cb = (-1, cb)"
    using contents_empty [OF assms] by (simp add: getc_def)
  assume c: "contents cb = c # cs"
  then have n: "c_cl cb \<noteq> c_cf cb" using contents_empty [OF assms] by auto
  then have r: "1 = read_chunk cb 1" using assms by (auto simp: read_chunk_def cb_check_def)
  note a = advance_read [OF assms r]
  have "c_cf cb < c_end cb" using assms by (simp add: cb_check_def)
  then have "take 1 (drop (c_cf cb) (c_data cb)) = [c_data cb ! c_cf cb]"
    by (simp add: take_Suc hd_drop_conv_nth)
  then have "c = c_data cb ! c_cf cb" "contents (advance_read cb 1) = cs" using a(2) c by auto
  moreover have "getc cb = (uint (c_data cb ! c_cf cb), advance_read cb 1)"
    using n by (simp add: getc_def advance_read_def Let_def)
  ultimately show "\<exists>cb'. getc cb = (uint c, cb') \<and> cb_check cb' \<and> contents cb' = cs \<and> c_end cb' = c_end cb"
    using a by auto
qed

subsection \<open>The contract of a character queue\<close>

text \<open>What the terminal drivers rely on: a queue of bounded length, written and read a
  character or a block at a time.\<close>

locale char_queue =
  fixes ok :: "'q \<Rightarrow> bool"
    and chars :: "'q \<Rightarrow> uchar list"
    and limit :: "'q \<Rightarrow> nat"
    and put :: "int \<Rightarrow> 'q \<Rightarrow> int \<times> 'q"
    and get :: "'q \<Rightarrow> int \<times> 'q"
    and put_block :: "uchar list \<Rightarrow> 'q \<Rightarrow> (nat \<times> 'q) option"
    and get_block :: "'q \<Rightarrow> nat \<Rightarrow> (uchar list \<times> 'q) option"
    and flush :: "'q \<Rightarrow> nat \<Rightarrow> 'q option"
    and clear :: "'q \<Rightarrow> 'q"
  assumes bounded: "ok q \<Longrightarrow> length (chars q) \<le> limit q"
    and put_full: "ok q \<Longrightarrow> length (chars q) = limit q \<Longrightarrow> put c q = (1, q)"
    and put_room: "ok q \<Longrightarrow> length (chars q) \<noteq> limit q \<Longrightarrow>
      \<exists>q'. put c q = (0, q') \<and> ok q' \<and> chars q' = chars q @ [word_of_int c] \<and> limit q' = limit q"
    and get_empty: "ok q \<Longrightarrow> chars q = [] \<Longrightarrow> get q = (-1, q)"
    and get_char: "ok q \<Longrightarrow> chars q = x # xs \<Longrightarrow>
      \<exists>q'. get q = (uint x, q') \<and> ok q' \<and> chars q' = xs \<and> limit q' = limit q"
    and put_block: "ok q \<Longrightarrow>
      \<exists>q'. put_block cp q = Some (length cp - (limit q - length (chars q)), q') \<and> ok q' \<and>
           chars q' = chars q @ take (limit q - length (chars q)) cp \<and> limit q' = limit q"
    and get_block: "ok q \<Longrightarrow>
      \<exists>q'. get_block q n = Some (take n (chars q), q') \<and> ok q' \<and> chars q' = drop n (chars q) \<and> limit q' = limit q"
    and flush: "ok q \<Longrightarrow>
      \<exists>q'. flush q n = Some q' \<and> ok q' \<and> chars q' = drop n (chars q) \<and> limit q' = limit q"
    and clear: "ok q \<Longrightarrow> ok (clear q) \<and> chars (clear q) = [] \<and> limit (clear q) = limit q"
begin

text \<open>A block that fits is read back behind what was there before.\<close>

lemma block_roundtrip:
  assumes "ok q" "length (chars q) + length cp \<le> limit q"
  shows "\<exists>q' q''. put_block cp q = Some (0, q') \<and>
           get_block q' (length (chars q) + length cp) = Some (chars q @ cp, q'') \<and> chars q'' = []"
proof -
  obtain q' where "put_block cp q = Some (0, q')" "ok q'" "chars q' = chars q @ cp"
    using put_block [OF assms(1), of cp] assms(2) by auto
  then show ?thesis using get_block [of q' "length (chars q) + length cp"] by auto
qed

end

text \<open>The operations as commands, on a queue of the specification and on a buffer.\<close>

datatype queue_op = Putc int | Getc | B_to_q "uchar list" | Q_to_b nat | Ndflush nat | Cb_clear

datatype queue_result = Code int | Chars "uchar list" | Left nat | Done

fun spec_op :: "nat \<Rightarrow> queue_op \<Rightarrow> uchar list \<Rightarrow> queue_result \<times> uchar list" where
  "spec_op n (Putc c) xs = (if length xs = n then (Code 1, xs) else (Code 0, xs @ [word_of_int c]))"
| "spec_op n Getc xs = (case xs of [] \<Rightarrow> (Code (-1), []) | x # xs \<Rightarrow> (Code (uint x), xs))"
| "spec_op n (B_to_q cp) xs = (Left (length cp - (n - length xs)), xs @ take (n - length xs) cp)"
| "spec_op n (Q_to_b c) xs = (Chars (take c xs), drop c xs)"
| "spec_op n (Ndflush c) xs = (Done, drop c xs)"
| "spec_op n Cb_clear xs = (Done, [])"

fun spec_run :: "nat \<Rightarrow> queue_op list \<Rightarrow> uchar list \<Rightarrow> queue_result list" where
  "spec_run n [] xs = []"
| "spec_run n (op # ops) xs = (case spec_op n op xs of (r, xs') \<Rightarrow> r # spec_run n ops xs')"

fun buf_op :: "queue_op \<Rightarrow> cirbuf \<Rightarrow> (queue_result \<times> cirbuf) option" where
  "buf_op (Putc c) cb = Some (map_prod Code id (putc c cb))"
| "buf_op Getc cb = Some (map_prod Code id (getc cb))"
| "buf_op (B_to_q cp) cb = map_option (map_prod Left id) (b_to_q cp cb)"
| "buf_op (Q_to_b c) cb = map_option (map_prod Chars id) (q_to_b cb c)"
| "buf_op (Ndflush c) cb = map_option (Pair Done) (ndflush cb c)"
| "buf_op Cb_clear cb = Some (Done, cb_clear cb)"

fun buf_run :: "queue_op list \<Rightarrow> cirbuf \<Rightarrow> queue_result list option" where
  "buf_run [] cb = Some []"
| "buf_run (op # ops) cb =
     (case buf_op op cb of None \<Rightarrow> None | Some (r, cb') \<Rightarrow> map_option ((#) r) (buf_run ops cb'))"

lemma capacity_cong: "c_end cb' = c_end cb \<Longrightarrow> capacity cb' = capacity cb"
  by (simp add: capacity_def)

interpretation cb: char_queue cb_check contents capacity putc getc b_to_q q_to_b ndflush cb_clear
proof
  fix q :: cirbuf and n c cp x xs
  assume q: "cb_check q"
  show "length (contents q) \<le> capacity q" by (rule contents_bounded [OF q])
  show "length (contents q) = capacity q \<Longrightarrow> putc c q = (1, q)"
    and "length (contents q) \<noteq> capacity q \<Longrightarrow> \<exists>q'. putc c q = (0, q') \<and> cb_check q' \<and>
      contents q' = contents q @ [word_of_int c] \<and> capacity q' = capacity q"
    using putc_contents [OF q, of c] by (auto intro: capacity_cong)
  show "contents q = [] \<Longrightarrow> getc q = (-1, q)" by (rule getc_contents(1) [OF q])
  show "contents q = x # xs \<Longrightarrow>
      \<exists>q'. getc q = (uint x, q') \<and> cb_check q' \<and> contents q' = xs \<and> capacity q' = capacity q"
    using getc_contents(2) [OF q] capacity_cong by metis
  show "\<exists>q'. b_to_q cp q = Some (length cp - (capacity q - length (contents q)), q') \<and> cb_check q' \<and>
      contents q' = contents q @ take (capacity q - length (contents q)) cp \<and> capacity q' = capacity q"
    using b_to_q_contents [OF q] capacity_cong by metis
  show "\<exists>q'. q_to_b q n = Some (take n (contents q), q') \<and> cb_check q' \<and>
      contents q' = drop n (contents q) \<and> capacity q' = capacity q"
    and "\<exists>q'. ndflush q n = Some q' \<and> cb_check q' \<and> contents q' = drop n (contents q) \<and> capacity q' = capacity q"
    using q_to_b_contents [OF q, of n] by (auto simp: ndflush_q_to_b intro: capacity_cong)
  show "cb_check (cb_clear q) \<and> contents (cb_clear q) = [] \<and> capacity (cb_clear q) = capacity q"
    using q by (auto simp: cb_clear_def cb_check_def contents_def capacity_def)
qed

lemma buf_op_refines:
  assumes "cb_check cb"
  shows "\<exists>r cb'. buf_op op cb = Some (r, cb') \<and> cb_check cb' \<and> capacity cb' = capacity cb \<and>
           spec_op (capacity cb) op (contents cb) = (r, contents cb')"
proof (cases op)
  case (Putc c)
  then show ?thesis
    using cb.put_full [OF assms, of c] cb.put_room [OF assms, of c] assms
    by (cases "length (contents cb) = capacity cb") auto
next
  case Getc
  then show ?thesis
    using cb.get_empty [OF assms] cb.get_char [OF assms] assms by (cases "contents cb") fastforce+
qed (use assms cb.put_block [OF assms] cb.get_block [OF assms] cb.flush [OF assms] cb.clear [OF assms] in
     \<open>fastforce\<close>)+

lemma buf_run_refines:
  "cb_check cb \<Longrightarrow> buf_run ops cb = Some (spec_run (capacity cb) ops (contents cb))"
proof (induction ops arbitrary: cb)
  case Nil
  then show ?case by simp
next
  case (Cons op ops)
  obtain r cb' where "buf_op op cb = Some (r, cb')" "cb_check cb'" "capacity cb' = capacity cb"
      "spec_op (capacity cb) op (contents cb) = (r, contents cb')"
    using buf_op_refines [OF Cons.prems] by blast
  then show ?case using Cons.IH [of cb'] by simp
qed

text \<open>
  C14: A circular buffer is a bounded queue.  On a buffer freshly allocated in \<open>n + 1\<close> bytes, any
  sequence of reads, writes and flushes, of single characters and of blocks, terminates and
  returns what it returns on a queue that holds at most \<open>n\<close> characters, whatever the bytes of
  the buffer were.\<close>

theorem cirbuf_refines_queue:
  "buf_run ops (cb_alloc (x # buf)) = Some (spec_run (length buf) ops [])"
proof -
  have "cb_check (cb_alloc (x # buf))" "contents (cb_alloc (x # buf)) = []"
    "capacity (cb_alloc (x # buf)) = length buf"
    by (simp_all add: cb_check_def cb_alloc_def contents_def capacity_def)
  then show ?thesis using buf_run_refines by metis
qed

end
