(* ===== verification/Sched_Prim.thy ===== *)
theory Sched_Prim
  imports Mach_Prelude
begin

text \<open>
  Waiting, waking and choosing threads: \<^verbatim>\<open>kern/sched_prim.c\<close>, \<^verbatim>\<open>kern/sched.h\<close> and
  \<^verbatim>\<open>kern/thread_swap.c\<close>, for one processor (\<^verbatim>\<open>NCPUS == 1\<close>) in the default processor set, with
  fixed priorities configured (\<^verbatim>\<open>MACH_FIXPRI\<close>).

  A thread waits for an event in a queue chosen by hashing the event, is made runnable by
  putting it on a run queue or handing it to the idle processor, and is chosen from the run
  queue of lowest number.  The queues of a thread are all linked through \<^verbatim>\<open>thread->links\<close>, so a
  thread must never be in two of them.

  Interrupts are off in these routines; they run one after the other.  \<open>None\<close> is a
  \<^verbatim>\<open>panic\<close> or a failed \<^verbatim>\<open>assert\<close>.  The time a thread has used since its timers were last read is
  the field \<open>t_elapsed\<close>; a kernel stack is there or not as the state bits say.
\<close>

unbundle bit_operations_syntax

type_synonym tid = nat
type_synonym event = int

abbreviation NRQS :: nat where "NRQS \<equiv> 64"
abbreviation NUMQUEUES :: nat where "NUMQUEUES \<equiv> 1031"
abbreviation SCHED_CPU_USAGE_RESET_TICKS :: "32 word" where "SCHED_CPU_USAGE_RESET_TICKS \<equiv> 30"
abbreviation PRI_SHIFT :: nat where "PRI_SHIFT \<equiv> 17"
abbreviation SCHED_SHIFT :: nat where "SCHED_SHIFT \<equiv> 7"

abbreviation TH_WAIT :: "32 word" where "TH_WAIT \<equiv> 0x01"
abbreviation TH_SUSP :: "32 word" where "TH_SUSP \<equiv> 0x02"
abbreviation TH_RUN :: "32 word" where "TH_RUN \<equiv> 0x04"
abbreviation TH_UNINT :: "32 word" where "TH_UNINT \<equiv> 0x08"
abbreviation TH_HALTED :: "32 word" where "TH_HALTED \<equiv> 0x10"
abbreviation TH_IDLE :: "32 word" where "TH_IDLE \<equiv> 0x80"
abbreviation TH_SCHED_STATE :: "32 word" where "TH_SCHED_STATE \<equiv> 0x0f"
abbreviation TH_SWAPPED :: "32 word" where "TH_SWAPPED \<equiv> 0x100"
abbreviation TH_SW_COMING_IN :: "32 word" where "TH_SW_COMING_IN \<equiv> 0x200"
abbreviation TH_SWAP_STATE :: "32 word" where "TH_SWAP_STATE \<equiv> 0x300"

abbreviation THREAD_AWAKENED :: int where "THREAD_AWAKENED \<equiv> 0"
abbreviation THREAD_TIMED_OUT :: int where "THREAD_TIMED_OUT \<equiv> 1"

datatype policy = POLICY_TIMESHARE | POLICY_FIXEDPRI

datatype rqid = Pset_runq | Master_runq

datatype processor_state = PROCESSOR_RUNNING | PROCESSOR_IDLE | PROCESSOR_DISPATCHING

record sthread =
  t_state :: "32 word"
  t_wait_event :: event
  t_wait_result :: int
  t_timer_set :: bool
  t_priority :: int
  t_sched_pri :: int
  t_depress_priority :: int
  t_policy :: policy
  t_sched_data :: int
  t_cpu_usage :: "32 word"
  t_sched_usage :: "32 word"
  t_sched_stamp :: "32 word"
  t_cpu_delta :: "32 word"
  t_sched_delta :: "32 word"
  t_elapsed :: "32 word"
  t_runq :: "rqid option"
  t_bound :: bool
  t_wake_active :: bool
  t_swap_func :: "nat option"
  t_kernel_stack :: "nat option"
  t_stack_privilege :: "nat option"

record run_queue =
  rq_runq :: "tid list list"
  rq_low :: nat
  rq_count :: int

record sched =
  s_thread :: "tid \<Rightarrow> sthread"
  s_wait_queue :: "nat \<Rightarrow> tid list"
  s_runq :: "rqid \<Rightarrow> run_queue"
  s_fixedpri :: bool
  s_set_quantum :: int
  s_sched_load :: "32 word"
  s_state :: processor_state
  s_idle_queue :: bool
  s_next_thread :: "tid option"
  s_idle_thread :: tid
  s_current :: tid
  s_first_quantum :: bool
  s_quantum :: int
  s_min_quantum :: int
  s_ast_block :: bool
  s_swapin_queue :: "tid list"
  s_stack_free_list :: "nat list"
  s_sched_tick :: "32 word"

abbreviation th :: "sched \<Rightarrow> tid \<Rightarrow> sthread" where "th s t \<equiv> s_thread s t"

definition upd_thread :: "tid \<Rightarrow> (sthread \<Rightarrow> sthread) \<Rightarrow> sched \<Rightarrow> sched" where
  "upd_thread t f s = s\<lparr>s_thread := (s_thread s)(t := f (s_thread s t))\<rparr>"

definition upd_runq :: "rqid \<Rightarrow> (run_queue \<Rightarrow> run_queue) \<Rightarrow> sched \<Rightarrow> sched" where
  "upd_runq r f s = s\<lparr>s_runq := (s_runq s)(r := f (s_runq s r))\<rparr>"

definition upd_waitq :: "nat \<Rightarrow> (tid list \<Rightarrow> tid list) \<Rightarrow> sched \<Rightarrow> sched" where
  "upd_waitq i f s = s\<lparr>s_wait_queue := (s_wait_queue s)(i := f (s_wait_queue s i))\<rparr>"

subsection \<open>Priorities\<close>

text \<open>Shifts that approximate multiplication by \<open>(5/8)^n\<close>.\<close>

definition wait_shift :: "(nat \<times> int) list" where
  "wait_shift =
     [(1,1),(1,3),(1,-3),(2,-7),(3,5),(3,-5),(4,-8),(5,7),
      (5,-7),(6,-10),(7,10),(7,-9),(8,-11),(9,12),(9,-11),(10,-13),
      (11,14),(11,-13),(12,-15),(13,17),(13,-15),(14,-17),(15,19),(16,18),
      (16,-19),(17,22),(18,20),(18,-20),(19,26),(20,22),(20,-22),(21,-27)]"

definition age_usage :: "nat \<times> int \<Rightarrow> 32 word \<Rightarrow> 32 word" where
  "age_usage sh u =
     (if snd sh > 0 then drop_bit (fst sh) u + drop_bit (nat (snd sh)) u
      else drop_bit (fst sh) u - drop_bit (nat (- snd sh)) u)"

definition do_priority_computation :: "sthread \<Rightarrow> int" where
  "do_priority_computation t =
     (let pri = t_priority t + uint (drop_bit (PRI_SHIFT + SCHED_SHIFT) (t_sched_usage t)) in
      if pri > int NRQS - 1 then int NRQS - 1 else pri)"

definition compute_my_priority :: "sthread \<Rightarrow> sthread" where
  "compute_my_priority t = t\<lparr>t_sched_pri := do_priority_computation t\<rparr>"

definition thread_timer_delta :: "32 word \<Rightarrow> sthread \<Rightarrow> sthread" where
  "thread_timer_delta load t =
     t\<lparr>t_cpu_delta := t_cpu_delta t + t_elapsed t,
       t_sched_delta := t_sched_delta t + t_elapsed t * load,
       t_elapsed := 0\<rparr>"

definition update_priority :: "32 word \<Rightarrow> 32 word \<Rightarrow> sthread \<Rightarrow> sthread option" where
  "update_priority tick load t = do {
     let ticks = tick - t_sched_stamp t;
     kassert (ticks \<noteq> 0);
     let t = thread_timer_delta load (t\<lparr>t_sched_stamp := t_sched_stamp t + ticks\<rparr>);
     let t = (if ticks > SCHED_CPU_USAGE_RESET_TICKS
              then t\<lparr>t_cpu_usage := 0, t_sched_usage := 0\<rparr>
              else t\<lparr>t_cpu_usage := age_usage (wait_shift ! unat ticks) (t_cpu_usage t + t_cpu_delta t),
                     t_sched_usage := age_usage (wait_shift ! unat ticks) (t_sched_usage t + t_sched_delta t)\<rparr>);
     let t = t\<lparr>t_cpu_delta := 0, t_sched_delta := 0\<rparr>;
     Some (if t_policy t = POLICY_TIMESHARE \<and> t_depress_priority t < 0
           then t\<lparr>t_sched_pri := do_priority_computation t\<rparr> else t) }"

subsection \<open>Run queues\<close>

definition whichq :: "int \<Rightarrow> nat" where
  "whichq pri = (if pri < 0 \<or> int NRQS \<le> pri then NRQS - 1 else nat pri)"

definition run_queue_enqueue :: "rqid \<Rightarrow> tid \<Rightarrow> sched \<Rightarrow> sched" where
  "run_queue_enqueue r t s =
     (let q = whichq (t_sched_pri (th s t)) in
      upd_thread t (\<lambda>x. x\<lparr>t_runq := Some r\<rparr>)
        (upd_runq r (\<lambda>rq. rq\<lparr>rq_runq := (rq_runq rq)[q := rq_runq rq ! q @ [t]],
                            rq_low := (if q < rq_low rq \<or> rq_count rq = 0 then q else rq_low rq),
                            rq_count := rq_count rq + 1\<rparr>) s))"

text \<open>\<open>thread_setrun\<close> of a uniprocessor: an idle processor is given the thread.\<close>

definition update_stamp :: "tid \<Rightarrow> sched \<Rightarrow> sched option" where
  "update_stamp t s =
     (if t_sched_stamp (th s t) \<noteq> s_sched_tick s
      then map_option (\<lambda>x. upd_thread t (\<lambda>_. x) s)
             (update_priority (s_sched_tick s) (s_sched_load s) (th s t))
      else Some s)"

definition thread_setrun :: "tid \<Rightarrow> bool \<Rightarrow> sched \<Rightarrow> sched option" where
  "thread_setrun t may_preempt s = do {
     s \<leftarrow> update_stamp t s;
     kassert (t_runq (th s t) = None);
     if s_idle_queue s
     then Some (s\<lparr>s_idle_queue := False, s_next_thread := Some t, s_state := PROCESSOR_DISPATCHING\<rparr>)
     else do {
       let (r, s) = (if \<not> t_bound (th s t) then (Pset_runq, s) else (Master_runq, s\<lparr>s_ast_block := True\<rparr>));
       let s = run_queue_enqueue r t s;
       Some (if may_preempt \<and> t_sched_pri (th s (s_current s)) > t_sched_pri (th s t)
             then s\<lparr>s_first_quantum := False, s_ast_block := True\<rparr> else s) } }"

text \<open>\<^verbatim>\<open>remqueue\<close> unlinks the thread from whichever list of the run queue it is in.\<close>

definition rem_runq :: "tid \<Rightarrow> sched \<Rightarrow> rqid option \<times> sched" where
  "rem_runq t s =
     (case t_runq (th s t) of
        None \<Rightarrow> (None, s)
      | Some r \<Rightarrow>
          (Some r, upd_thread t (\<lambda>x. x\<lparr>t_runq := None\<rparr>)
             (upd_runq r (\<lambda>rq. rq\<lparr>rq_runq := map (remove1 t) (rq_runq rq), rq_count := rq_count rq - 1\<rparr>) s)))"

definition set_pri :: "tid \<Rightarrow> int \<Rightarrow> bool \<Rightarrow> sched \<Rightarrow> sched option" where
  "set_pri t pri resched s =
     (let (rq, s) = rem_runq t s; s = upd_thread t (\<lambda>x. x\<lparr>t_sched_pri := pri\<rparr>) s in
      case rq of
        None \<Rightarrow> Some s
      | Some r \<Rightarrow> if resched then thread_setrun t True s else Some (run_queue_enqueue r t s))"

definition compute_priority :: "tid \<Rightarrow> bool \<Rightarrow> sched \<Rightarrow> sched option" where
  "compute_priority t resched s =
     (if t_policy (th s t) = POLICY_TIMESHARE then
        (let pri = do_priority_computation (th s t) in
         if t_depress_priority (th s t) < 0 then set_pri t pri resched s
         else Some (upd_thread t (\<lambda>x. x\<lparr>t_depress_priority := pri\<rparr>) s))
      else set_pri t (t_priority (th s t)) resched s)"

text \<open>The scan for a queue that is not empty, from a given one on.\<close>

definition first_queue :: "run_queue \<Rightarrow> nat \<Rightarrow> nat option" where
  "first_queue rq low = find (\<lambda>i. rq_runq rq ! i \<noteq> []) [low ..< NRQS]"

definition take_from :: "rqid \<Rightarrow> nat \<Rightarrow> sched \<Rightarrow> tid \<times> sched" where
  "take_from r i s =
     (let t = hd (rq_runq (s_runq s r) ! i) in
      (t, upd_thread t (\<lambda>x. x\<lparr>t_runq := None\<rparr>)
            (upd_runq r (\<lambda>rq. rq\<lparr>rq_runq := (rq_runq rq)[i := tl (rq_runq rq ! i)],
                                rq_count := rq_count rq - 1\<rparr>) s)))"

text \<open>With fixed priorities \<^verbatim>\<open>low\<close> is made exact after a thread is taken.\<close>

definition settle_low :: "nat \<Rightarrow> sched \<Rightarrow> sched option" where
  "settle_low i s =
     (let rq = s_runq s Pset_runq in
      if rq_count rq > 0 \<and> s_fixedpri s
      then map_option (\<lambda>j. upd_runq Pset_runq (\<lambda>rq. rq\<lparr>rq_low := j\<rparr>) s) (first_queue rq i)
      else Some (upd_runq Pset_runq (\<lambda>rq. rq\<lparr>rq_low := i\<rparr>) s))"

definition set_idle :: "sched \<Rightarrow> sched" where
  "set_idle s =
     (if s_state s = PROCESSOR_RUNNING then s\<lparr>s_state := PROCESSOR_IDLE, s_idle_queue := True\<rparr> else s)"

definition choose_pset_thread :: "sched \<Rightarrow> (tid \<times> sched) option" where
  "choose_pset_thread s =
     (let rq = s_runq s Pset_runq in
      if rq_count rq > 0 then do {
        i \<leftarrow> first_queue rq (rq_low rq);
        let (t, s) = take_from Pset_runq i s;
        s \<leftarrow> settle_low i s;
        Some (t, s) }
      else Some (s_idle_thread s, set_idle s))"

definition choose_thread :: "sched \<Rightarrow> (tid \<times> sched) option" where
  "choose_thread s =
     (let rq = s_runq s Master_runq in
      if rq_count rq > 0 then do {
        i \<leftarrow> first_queue rq (rq_low rq);
        let (t, s) = take_from Master_runq i s;
        Some (t, upd_runq Master_runq (\<lambda>rq. rq\<lparr>rq_low := i\<rparr>) s) }
      else choose_pset_thread s)"

definition set_select_quantum :: "tid \<Rightarrow> sched \<Rightarrow> sched" where
  "set_select_quantum t s =
     s\<lparr>s_quantum := (if t_policy (th s t) = POLICY_TIMESHARE then s_set_quantum s else t_sched_data (th s t))\<rparr>"

text \<open>\<open>thread_select\<close>: threads bound to the processor come first, then the run queue of the
  set, whose queue \<^verbatim>\<open>low\<close> is tried before the search.\<close>

definition select_pset :: "sched \<Rightarrow> (tid \<times> sched) option" where
  "select_pset s =
     (let rq = s_runq s Pset_runq in
      if rq_count rq = 0 then
        (let t = s_current s in
         if t_state (th s t) = TH_RUN then map_option (Pair t) (update_stamp t s)
         else choose_pset_thread s)
      else if rq_runq rq ! rq_low rq = [] then
        choose_pset_thread (upd_runq Pset_runq (\<lambda>rq. rq\<lparr>rq_low := rq_low rq + 1\<rparr>) s)
      else (let (t, s) = take_from Pset_runq (rq_low rq) s in
            if rq_count (s_runq s Pset_runq) > 0 \<and> s_fixedpri s
            then map_option (Pair t) (settle_low (rq_low rq) s) else Some (t, s)))"

definition thread_select :: "sched \<Rightarrow> (tid \<times> sched) option" where
  "thread_select s =
     (let s = s\<lparr>s_first_quantum := True\<rparr> in
      if rq_count (s_runq s Master_runq) > 0 then do {
        (t, s) \<leftarrow> choose_thread s;
        Some (t, s\<lparr>s_quantum := s_min_quantum s\<rparr>) }
      else do {
        (t, s) \<leftarrow> select_pset s;
        Some (t, set_select_quantum t s) })"

subsection \<open>Waiting and waking\<close>

definition wait_hash :: "event \<Rightarrow> nat" where
  "wait_hash event = nat ((if event < 0 then NOT event else event) mod int NUMQUEUES)"

definition assert_wait :: "event \<Rightarrow> bool \<Rightarrow> sched \<Rightarrow> sched option" where
  "assert_wait event interruptible s =
     (let t = s_current s;
          bits = (if interruptible then TH_WAIT else TH_WAIT OR TH_UNINT) in
      if t_wait_event (th s t) \<noteq> 0 then None
      else if event \<noteq> 0 then
        Some (upd_thread t (\<lambda>x. x\<lparr>t_wait_event := event, t_state := t_state x OR bits\<rparr>)
               (upd_waitq (wait_hash event) (\<lambda>q. q @ [t]) s))
      else Some (upd_thread t (\<lambda>x. x\<lparr>t_state := t_state x OR bits\<rparr>) s))"

text \<open>The switch on the state of a thread whose wait is over.  The first group of cases is a
  thread asleep that is to run, the second one that is still running or is suspended;
  \<open>other\<close> is the default.\<close>

definition end_wait :: "tid \<Rightarrow> int \<Rightarrow> sched option \<Rightarrow> sched \<Rightarrow> sched option" where
  "end_wait t result other s =
     (let state = t_state (th s t); c = state AND TH_SCHED_STATE in
      if c = TH_WAIT OR TH_SUSP OR TH_UNINT \<or> c = TH_WAIT OR TH_UNINT \<or> c = TH_WAIT then
        thread_setrun t True
          (upd_thread t (\<lambda>x. x\<lparr>t_state := (state AND NOT TH_WAIT) OR TH_RUN, t_wait_result := result\<rparr>) s)
      else if c = TH_WAIT OR TH_SUSP \<or> c = TH_RUN OR TH_WAIT \<or> c = TH_RUN OR TH_WAIT OR TH_SUSP \<or>
              c = TH_RUN OR TH_WAIT OR TH_UNINT \<or> c = TH_RUN OR TH_WAIT OR TH_SUSP OR TH_UNINT then
        Some (upd_thread t (\<lambda>x. x\<lparr>t_state := state AND NOT TH_WAIT, t_wait_result := result\<rparr>) s)
      else other)"

definition reset_timeout_check :: "tid \<Rightarrow> sched \<Rightarrow> sched" where
  "reset_timeout_check t s = upd_thread t (\<lambda>x. x\<lparr>t_timer_set := False\<rparr>) s"

definition leave_event :: "tid \<Rightarrow> sched \<Rightarrow> sched" where
  "leave_event t s =
     upd_thread t (\<lambda>x. x\<lparr>t_wait_event := 0\<rparr>) (upd_waitq (wait_hash (t_wait_event (th s t))) (remove1 t) s)"

definition clear_wait :: "tid \<Rightarrow> int \<Rightarrow> bool \<Rightarrow> sched \<Rightarrow> sched option" where
  "clear_wait t result interrupt_only s =
     (if interrupt_only \<and> t_state (th s t) AND TH_UNINT \<noteq> 0 then Some s
      else
        let s = (if t_wait_event (th s t) \<noteq> 0 then leave_event t s else s);
            s = reset_timeout_check t s in
        end_wait t result (Some s) s)"

fun wakeup_loop :: "event \<Rightarrow> bool \<Rightarrow> int \<Rightarrow> tid list \<Rightarrow> bool \<Rightarrow> sched \<Rightarrow> (bool \<times> sched) option" where
  "wakeup_loop event one_thread result [] woke s = Some (woke, s)"
| "wakeup_loop event one_thread result (t # ts) woke s =
     (if t_wait_event (th s t) = event then do {
        s \<leftarrow> end_wait t result None (reset_timeout_check t (leave_event t s));
        if one_thread then Some (True, s) else wakeup_loop event one_thread result ts True s }
      else wakeup_loop event one_thread result ts woke s)"

definition thread_wakeup_prim :: "event \<Rightarrow> bool \<Rightarrow> int \<Rightarrow> sched \<Rightarrow> (bool \<times> sched) option" where
  "thread_wakeup_prim event one_thread result s =
     wakeup_loop event one_thread result (s_wait_queue s (wait_hash event)) False s"

definition thread_wakeup :: "event \<Rightarrow> sched \<Rightarrow> sched option" where
  "thread_wakeup event s = map_option snd (thread_wakeup_prim event False THREAD_AWAKENED s)"

definition thread_timeout :: "tid \<Rightarrow> sched \<Rightarrow> sched option" where
  "thread_timeout t s = do {
     kassert (\<not> t_timer_set (th s t));
     clear_wait t THREAD_TIMED_OUT False s }"

definition thread_set_timeout :: "sched \<Rightarrow> sched" where
  "thread_set_timeout s =
     (if t_state (th s (s_current s)) AND TH_WAIT \<noteq> 0
      then upd_thread (s_current s) (\<lambda>x. x\<lparr>t_timer_set := True\<rparr>) s else s)"

definition thread_bind :: "tid \<Rightarrow> bool \<Rightarrow> sched \<Rightarrow> sched" where
  "thread_bind t b s = upd_thread t (\<lambda>x. x\<lparr>t_bound := b\<rparr>) s"

subsection \<open>The invariant\<close>

lemma upd_sel [simp]:
  "th (upd_thread t f s) u = (if u = t then f (th s t) else th s u)"
  "s_wait_queue (upd_thread t f s) = s_wait_queue s" "s_runq (upd_thread t f s) = s_runq s"
  "s_current (upd_thread t f s) = s_current s" "s_next_thread (upd_thread t f s) = s_next_thread s"
  "s_swapin_queue (upd_thread t f s) = s_swapin_queue s" "s_idle_thread (upd_thread t f s) = s_idle_thread s"
  "s_idle_queue (upd_thread t f s) = s_idle_queue s" "s_sched_tick (upd_thread t f s) = s_sched_tick s"
  "th (upd_runq r g s) u = th s u" "s_wait_queue (upd_runq r g s) = s_wait_queue s"
  "s_runq (upd_runq r g s) r' = (if r' = r then g (s_runq s r) else s_runq s r')"
  "s_current (upd_runq r g s) = s_current s" "s_next_thread (upd_runq r g s) = s_next_thread s"
  "s_swapin_queue (upd_runq r g s) = s_swapin_queue s" "s_idle_thread (upd_runq r g s) = s_idle_thread s"
  "s_idle_queue (upd_runq r g s) = s_idle_queue s" "s_sched_tick (upd_runq r g s) = s_sched_tick s"
  "th (upd_waitq i h s) u = th s u" "s_runq (upd_waitq i h s) = s_runq s"
  "s_wait_queue (upd_waitq i h s) j = (if j = i then h (s_wait_queue s i) else s_wait_queue s j)"
  "s_current (upd_waitq i h s) = s_current s" "s_next_thread (upd_waitq i h s) = s_next_thread s"
  "s_swapin_queue (upd_waitq i h s) = s_swapin_queue s" "s_idle_thread (upd_waitq i h s) = s_idle_thread s"
  "s_idle_queue (upd_waitq i h s) = s_idle_queue s" "s_sched_tick (upd_waitq i h s) = s_sched_tick s"
  "s_state (upd_thread t f s) = s_state s" "s_state (upd_runq r g s) = s_state s" "s_state (upd_waitq i h s) = s_state s"
  by (simp_all add: upd_thread_def upd_runq_def upd_waitq_def)

text \<open>The wait queues hold the threads that wait for an event, by the hash of the event.\<close>

definition wait_ok :: "sched \<Rightarrow> bool" where
  "wait_ok s \<longleftrightarrow> (\<forall>i. distinct (s_wait_queue s i) \<and>
     (\<forall>t. t \<in> set (s_wait_queue s i) \<longleftrightarrow> t_wait_event (th s t) \<noteq> 0 \<and> wait_hash (t_wait_event (th s t)) = i))"

text \<open>A run queue holds its threads by their priorities, counts them, and has none below
  \<^verbatim>\<open>low\<close>.\<close>

definition queued :: "sched \<Rightarrow> rqid \<Rightarrow> nat \<Rightarrow> tid \<Rightarrow> bool" where
  "queued s r i t \<longleftrightarrow> t_runq (th s t) = Some r \<and> whichq (t_sched_pri (th s t)) = i"

definition rq_shape :: "run_queue \<Rightarrow> bool" where
  "rq_shape rq \<longleftrightarrow> length (rq_runq rq) = NRQS \<and> rq_low rq < NRQS \<and>
     rq_count rq = int (sum_list (map length (rq_runq rq))) \<and>
     (\<forall>i < rq_low rq. rq_count rq = 0 \<or> rq_runq rq ! i = [])"

definition runq_ok :: "sched \<Rightarrow> rqid \<Rightarrow> bool" where
  "runq_ok s r \<longleftrightarrow> rq_shape (s_runq s r) \<and>
     (\<forall>i < NRQS. distinct (rq_runq (s_runq s r) ! i) \<and>
        (\<forall>t. t \<in> set (rq_runq (s_runq s r) ! i) \<longleftrightarrow> queued s r i t))"

text \<open>A thread is in at most one queue, and a thread that can run is current, on a run queue,
  handed to the processor or waiting for a stack.  The threads in \<open>X\<close> are exempt from the
  latter: they are between two places.\<close>

definition runs :: "sched \<Rightarrow> tid \<Rightarrow> bool" where
  "runs s t \<longleftrightarrow> t_state (th s t) AND TH_RUN \<noteq> 0"

definition waits :: "sched \<Rightarrow> tid \<Rightarrow> bool" where
  "waits s t \<longleftrightarrow> t_state (th s t) AND TH_WAIT \<noteq> 0"

definition placed :: "sched \<Rightarrow> tid \<Rightarrow> bool" where
  "placed s t \<longleftrightarrow> t = s_current s \<or> t_runq (th s t) \<noteq> None \<or> s_next_thread s = Some t \<or>
     t \<in> set (s_swapin_queue s) \<or> t = s_idle_thread s"

definition thread_ok :: "sched \<Rightarrow> tid \<Rightarrow> bool" where
  "thread_ok s t \<longleftrightarrow>
     (t_wait_event (th s t) \<noteq> 0 \<longrightarrow> waits s t) \<and>
     (t_runq (th s t) \<noteq> None \<longrightarrow> runs s t \<and> \<not> waits s t \<and> t \<noteq> s_current s \<and>
        t \<notin> set (s_swapin_queue s) \<and> s_next_thread s \<noteq> Some t) \<and>
     (s_next_thread s = Some t \<longrightarrow> runs s t \<and> \<not> waits s t \<and> t \<noteq> s_current s \<and> t \<notin> set (s_swapin_queue s)) \<and>
     (t \<in> set (s_swapin_queue s) \<longrightarrow> runs s t \<and> \<not> waits s t \<and> t \<noteq> s_current s)"

definition sched_inv :: "tid set \<Rightarrow> sched \<Rightarrow> bool" where
  "sched_inv X s \<longleftrightarrow> wait_ok s \<and> runq_ok s Pset_runq \<and> runq_ok s Master_runq \<and>
     (\<forall>t. thread_ok s t \<and> (runs s t \<longrightarrow> t \<in> X \<or> placed s t)) \<and>
     (s_idle_queue s \<longrightarrow> s_next_thread s = None) \<and>
     (s_next_thread s \<noteq> None \<longrightarrow> s_state s \<noteq> PROCESSOR_RUNNING) \<and> runs s (s_current s)"

subsection \<open>Run queues\<close>

lemma runq_ok_cong:
  assumes "s_runq s' r = s_runq s r" "\<And>t. t_runq (th s' t) = t_runq (th s t)"
    and "\<And>t. t_runq (th s t) \<noteq> None \<Longrightarrow> t_sched_pri (th s' t) = t_sched_pri (th s t)"
  shows "runq_ok s' r = runq_ok s r"
proof -
  have "queued s' r i t = queued s r i t" for i t using assms(2,3) [of t] by (auto simp: queued_def)
  then show ?thesis by (simp add: runq_ok_def assms(1))
qed

lemma wait_ok_cong:
  assumes "s_wait_queue s' = s_wait_queue s" "\<And>t. t_wait_event (th s' t) = t_wait_event (th s t)"
  shows "wait_ok s' = wait_ok s"
  by (simp add: wait_ok_def assms)

lemma sum_list_update_length:
  assumes "i < length qs"
  shows "sum_list (map length (qs[i := xs])) + length (qs ! i) = sum_list (map length qs) + length xs"
  using assms
proof (induction qs arbitrary: i)
  case Nil
  then show ?case by simp
next
  case (Cons q qs)
  then show ?case by (cases i) auto
qed

lemma whichq_less [simp]: "whichq pri < NRQS"
  by (auto simp: whichq_def)

lemma rq_count_0:
  assumes "rq_shape rq"
  shows "rq_count rq = 0 \<longleftrightarrow> (\<forall>i < NRQS. rq_runq rq ! i = [])" "0 \<le> rq_count rq"
proof -
  have l: "length (rq_runq rq) = NRQS" and c: "rq_count rq = int (sum_list (map length (rq_runq rq)))"
    using assms by (auto simp: rq_shape_def)
  show "0 \<le> rq_count rq" by (simp add: c)
  have "sum_list (map length (rq_runq rq)) = 0 \<longleftrightarrow> (\<forall>q \<in> set (rq_runq rq). q = [])" by simp
  then show "rq_count rq = 0 \<longleftrightarrow> (\<forall>i < NRQS. rq_runq rq ! i = [])"
    using l by (auto simp: c all_set_conv_all_nth)
qed

lemma rq_below_low: "rq_shape rq \<Longrightarrow> i < rq_low rq \<Longrightarrow> rq_runq rq ! i = []"
  using rq_count_0(1) [of rq] by (auto simp: rq_shape_def)

lemma run_queue_enqueue_ok:
  assumes "runq_ok s r'" "t_runq (th s t) = None"
  shows "runq_ok (run_queue_enqueue r t s) r'"
proof (cases "r' = r")
  case False
  have "queued (run_queue_enqueue r t s) r' i u = queued s r' i u" for i u
    using False assms(2) by (auto simp: queued_def run_queue_enqueue_def Let_def)
  then show ?thesis using assms(1) False by (simp add: runq_ok_def run_queue_enqueue_def Let_def)
next
  case True
  define rq where "rq = s_runq s r"
  define q where "q = whichq (t_sched_pri (th s t))"
  define s' where "s' = run_queue_enqueue r t s"
  have rq': "s_runq s' r = rq\<lparr>rq_runq := (rq_runq rq)[q := rq_runq rq ! q @ [t]],
      rq_low := (if q < rq_low rq \<or> rq_count rq = 0 then q else rq_low rq), rq_count := rq_count rq + 1\<rparr>"
    by (simp add: s'_def run_queue_enqueue_def Let_def rq_def q_def)
  have ok: "rq_shape rq" "\<And>i. i < NRQS \<Longrightarrow> distinct (rq_runq rq ! i)"
      "\<And>i u. i < NRQS \<Longrightarrow> u \<in> set (rq_runq rq ! i) \<longleftrightarrow> queued s r i u"
    using assms(1) True by (auto simp: runq_ok_def rq_def)
  have l: "length (rq_runq rq) = NRQS" and q: "q < NRQS" using ok(1) by (auto simp: rq_shape_def q_def)
  have "sum_list (map length ((rq_runq rq)[q := rq_runq rq ! q @ [t]])) = sum_list (map length (rq_runq rq)) + 1"
    using sum_list_update_length [of q "rq_runq rq" "rq_runq rq ! q @ [t]"] l q by simp
  moreover have "rq_count rq = 0 \<Longrightarrow> i < NRQS \<Longrightarrow> rq_runq rq ! i = []" for i
    using rq_count_0 [OF ok(1)] by blast
  ultimately have sh: "rq_shape (s_runq s' r)"
    using ok(1) q l rq_below_low [OF ok(1)] unfolding rq' rq_shape_def by (auto simp: nth_list_update)
  have nt: "t \<notin> set (rq_runq rq ! i)" if "i < NRQS" for i using ok(3) [OF that] assms(2) by (simp add: queued_def)
  have qd: "queued s' r i u \<longleftrightarrow> queued s r i u \<or> u = t \<and> i = q" for i u
    using assms(2) by (auto simp: queued_def s'_def run_queue_enqueue_def Let_def q_def)
  have "distinct (rq_runq (s_runq s' r) ! i) \<and> (\<forall>u. u \<in> set (rq_runq (s_runq s' r) ! i) \<longleftrightarrow> queued s' r i u)"
    if "i < NRQS" for i
    using that ok(2,3) [OF that] nt [OF that] l q by (auto simp: rq' nth_list_update qd)
  then show ?thesis using sh True by (simp add: runq_ok_def s'_def)
qed

lemma update_priority_frame:
  assumes "update_priority tick load x = Some y"
  shows "t_state y = t_state x" "t_wait_event y = t_wait_event x" "t_runq y = t_runq x"
    "t_wait_result y = t_wait_result x" "t_bound y = t_bound x" "t_timer_set y = t_timer_set x"
  using assms by (auto simp: update_priority_def thread_timer_delta_def Let_def split: if_splits)

lemma update_stamp_total: "\<exists>s'. update_stamp t s = Some s'"
  by (auto simp: update_stamp_def update_priority_def Let_def)

text \<open>What \<open>thread_setrun\<close> leaves alone.\<close>

definition same_thread :: "sthread \<Rightarrow> sthread \<Rightarrow> bool" where
  "same_thread x y \<longleftrightarrow> t_state y = t_state x \<and> t_wait_event y = t_wait_event x \<and> t_wait_result y = t_wait_result x"

lemma update_stamp_frame:
  assumes "update_stamp t s = Some s'"
  shows "s_wait_queue s' = s_wait_queue s" "s_runq s' = s_runq s" "s_current s' = s_current s"
    "s_next_thread s' = s_next_thread s" "s_swapin_queue s' = s_swapin_queue s"
    "s_idle_thread s' = s_idle_thread s" "s_idle_queue s' = s_idle_queue s"
    "t_runq (th s' u) = t_runq (th s u)" "same_thread (th s u) (th s' u)" "u \<noteq> t \<Longrightarrow> th s' u = th s u"
    "s_state s' = s_state s"
  using assms
  by (auto simp: update_stamp_def same_thread_def dest: update_priority_frame split: if_splits)

text \<open>A thread on its way to a run queue: it runs and is nowhere yet.\<close>

definition in_transit_thread :: "sched \<Rightarrow> tid \<Rightarrow> bool" where
  "in_transit_thread s t \<longleftrightarrow> runs s t \<and> \<not> waits s t \<and> t_wait_event (th s t) = 0 \<and> t_runq (th s t) = None \<and>
     t \<noteq> s_current s \<and> s_next_thread s \<noteq> Some t \<and> t \<notin> set (s_swapin_queue s)"

lemma sched_inv_runq: "sched_inv X s \<Longrightarrow> runq_ok s r"
  by (cases r) (auto simp: sched_inv_def)

lemma sched_inv_frame [simp]:
  "sched_inv X (s\<lparr>s_ast_block := b\<rparr>) = sched_inv X s"
  "sched_inv X (s\<lparr>s_first_quantum := c\<rparr>) = sched_inv X s"
  "sched_inv X (s\<lparr>s_quantum := n\<rparr>) = sched_inv X s"
  by (simp_all add: sched_inv_def wait_ok_def runq_ok_def queued_def thread_ok_def runs_def waits_def placed_def)

text \<open>The steps of \<open>thread_setrun\<close>: catching up with the clock, handing the thread to the idle
  processor, entering a run queue.\<close>

lemma update_stamp_inv:
  assumes "update_stamp t s = Some s'" "t_runq (th s t) = None" "sched_inv X s"
  shows "sched_inv X s'"
proof -
  note f = update_stamp_frame [OF assms(1)]
  have same: "t_state (th s' u) = t_state (th s u)" "t_wait_event (th s' u) = t_wait_event (th s u)" for u
    using f(9) [of u] by (simp_all add: same_thread_def)
  have "t_sched_pri (th s' u) = t_sched_pri (th s u)" if "t_runq (th s u) \<noteq> None" for u
    using that assms(2) f(10) [of u] by (cases "u = t") auto
  then have rq: "runq_ok s' r = runq_ok s r" for r
    using runq_ok_cong [of s' r s] f by simp
  have w: "wait_ok s' = wait_ok s" using wait_ok_cong [of s' s] f same by simp
  have "runs s' u = runs s u" "waits s' u = waits s u" for u using same by (simp_all add: runs_def waits_def)
  then have "thread_ok s' u = thread_ok s u" "placed s' u = placed s u" "runs s' u = runs s u" for u
    using f same by (simp_all add: thread_ok_def placed_def)
  then show ?thesis using assms(3) f by (simp add: sched_inv_def w rq)
qed

lemma dispatch_idle_inv:
  assumes "sched_inv (insert t X) s" "in_transit_thread s t" "s_idle_queue s"
  shows "sched_inv X (s\<lparr>s_idle_queue := False, s_next_thread := Some t, s_state := PROCESSOR_DISPATCHING\<rparr>)"
    (is "sched_inv X ?s")
  unfolding sched_inv_def
proof (intro conjI allI impI)
  have nn: "s_next_thread s = None" using assms(1,3) by (simp add: sched_inv_def)
  have ok: "thread_ok s u" and pl: "runs s u \<Longrightarrow> u = t \<or> u \<in> X \<or> placed s u" for u
    using assms(1) by (auto simp: sched_inv_def)
  show "wait_ok ?s" using assms(1) by (simp add: sched_inv_def wait_ok_def)
  show "runq_ok ?s Pset_runq" "runq_ok ?s Master_runq"
    using assms(1) by (simp_all add: sched_inv_def runq_ok_def queued_def)
  show "thread_ok ?s u" for u
    using ok [of u] assms(2) nn by (auto simp: thread_ok_def runs_def waits_def in_transit_thread_def)
  show "u \<in> X \<or> placed ?s u" if "runs ?s u" for u
    using pl [of u] that nn by (auto simp: placed_def runs_def)
  show "runs ?s (s_current ?s)" using assms(1) by (simp add: sched_inv_def runs_def)
qed simp_all

lemma enqueue_inv:
  assumes "sched_inv (insert t X) s" "in_transit_thread s t"
  shows "sched_inv X (run_queue_enqueue r t s)"
  unfolding sched_inv_def
proof (intro conjI allI impI)
  have n: "t_runq (th s t) = None" using assms(2) by (simp add: in_transit_thread_def)
  have ok: "thread_ok s u" and pl: "runs s u \<Longrightarrow> u = t \<or> u \<in> X \<or> placed s u" for u
    using assms(1) by (auto simp: sched_inv_def)
  show "wait_ok (run_queue_enqueue r t s)"
    using assms(1) by (simp add: sched_inv_def wait_ok_def run_queue_enqueue_def Let_def)
  show "runq_ok (run_queue_enqueue r t s) Pset_runq" "runq_ok (run_queue_enqueue r t s) Master_runq"
    using run_queue_enqueue_ok [OF _ n] assms(1) by (simp_all add: sched_inv_def)
  show "thread_ok (run_queue_enqueue r t s) u" for u
    using ok [of u] assms(2)
    by (auto simp: thread_ok_def runs_def waits_def in_transit_thread_def run_queue_enqueue_def Let_def)
  show "u \<in> X \<or> placed (run_queue_enqueue r t s) u" if "runs (run_queue_enqueue r t s) u" for u
    using pl [of u] that by (auto simp: placed_def runs_def run_queue_enqueue_def Let_def split: if_splits)
  show "s_next_thread (run_queue_enqueue r t s) = None" if "s_idle_queue (run_queue_enqueue r t s)"
    using assms(1) that by (simp add: sched_inv_def run_queue_enqueue_def Let_def)
  show "s_state (run_queue_enqueue r t s) \<noteq> PROCESSOR_RUNNING" if "s_next_thread (run_queue_enqueue r t s) \<noteq> None"
    using assms(1) that by (simp add: sched_inv_def run_queue_enqueue_def Let_def)
  show "runs (run_queue_enqueue r t s) (s_current (run_queue_enqueue r t s))"
    using assms(1) by (auto simp: sched_inv_def run_queue_enqueue_def Let_def runs_def)
qed

lemma in_transit_frame [simp]:
  "in_transit_thread (s\<lparr>s_ast_block := b\<rparr>) t = in_transit_thread s t"
  by (simp add: in_transit_thread_def runs_def waits_def)

lemma thread_setrun_ok:
  assumes "sched_inv (insert t X) s" "in_transit_thread s t"
  shows "\<exists>s'. thread_setrun t b s = Some s' \<and> sched_inv X s' \<and> placed s' t \<and>
           (\<forall>u. same_thread (th s u) (th s' u)) \<and> s_wait_queue s' = s_wait_queue s \<and> s_current s' = s_current s"
proof -
  obtain s1 where s1: "update_stamp t s = Some s1" using update_stamp_total by blast
  note f = update_stamp_frame [OF s1]
  have n: "t_runq (th s1 t) = None" using assms(2) f by (simp add: in_transit_thread_def)
  have i1: "sched_inv (insert t X) s1"
    using update_stamp_inv [OF s1 _ assms(1)] assms(2) by (simp add: in_transit_thread_def)
  have t1: "in_transit_thread s1 t"
    using assms(2) f f(9) [of t] by (simp add: in_transit_thread_def runs_def waits_def same_thread_def)
  show ?thesis
  proof (cases "s_idle_queue s1")
    case True
    then show ?thesis
      using s1 n dispatch_idle_inv [OF i1 t1 True] f by (simp add: thread_setrun_def placed_def)
  next
    case False
    define r where "r = (if t_bound (th s1 t) then Master_runq else Pset_runq)"
    define s2 where "s2 = run_queue_enqueue r t (if t_bound (th s1 t) then s1\<lparr>s_ast_block := True\<rparr> else s1)"
    have i2: "sched_inv X s2"
      using enqueue_inv [of t X s1 r] enqueue_inv [of t X "s1\<lparr>s_ast_block := True\<rparr>" r] i1 t1 by (simp add: s2_def)
    have e2: "placed s2 t" "same_thread (th s1 u) (th s2 u)" "s_wait_queue s2 = s_wait_queue s1"
        "s_current s2 = s_current s1" for u
      by (simp_all add: s2_def run_queue_enqueue_def Let_def placed_def same_thread_def)
    have "thread_setrun t b s = Some (if b \<and> t_sched_pri (th s2 (s_current s2)) > t_sched_pri (th s2 t)
        then s2\<lparr>s_first_quantum := False, s_ast_block := True\<rparr> else s2)"
      using s1 n False by (simp add: thread_setrun_def s2_def r_def Let_def)
    moreover have "placed (s2\<lparr>s_first_quantum := False, s_ast_block := True\<rparr>) t" using e2(1) by (simp add: placed_def)
    moreover have "same_thread (th s u) (th s2 u)" for u
      using e2(2) [of u] f(9) [of u] by (simp add: same_thread_def)
    ultimately show ?thesis using i2 e2 f by simp
  qed
qed

subsection \<open>Waking\<close>

lemma and_bit:
  fixes w :: "32 word"
  shows "w AND 1 \<noteq> 0 \<longleftrightarrow> bit w 0" "w AND 2 \<noteq> 0 \<longleftrightarrow> bit w 1" "w AND 4 \<noteq> 0 \<longleftrightarrow> bit w 2" "w AND 8 \<noteq> 0 \<longleftrightarrow> bit w 3"
proof -
  have "w AND 2 ^ n \<noteq> 0 \<longleftrightarrow> bit w n" if "n < 32" for n
  proof
    show "bit w n" if "w AND 2 ^ n \<noteq> 0"
      using that by (rule contrapos_np) (auto intro!: bit_word_eqI simp: bit_simps)
    show "w AND 2 ^ n \<noteq> 0" if "bit w n"
    proof
      assume "w AND 2 ^ n = 0"
      then have "\<not> bit (w AND 2 ^ n) n" by simp
      then show False using that \<open>n < 32\<close> by (simp add: bit_simps)
    qed
  qed
  from this [of 0] this [of 1] this [of 2] this [of 3]
  show "w AND 1 \<noteq> 0 \<longleftrightarrow> bit w 0" "w AND 2 \<noteq> 0 \<longleftrightarrow> bit w 1" "w AND 4 \<noteq> 0 \<longleftrightarrow> bit w 2" "w AND 8 \<noteq> 0 \<longleftrightarrow> bit w 3"
    by simp_all
qed

lemma and_sched_state:
  fixes w :: "32 word"
  shows "w AND TH_SCHED_STATE =
    (if bit w 0 then 1 else 0) OR (if bit w 1 then 2 else 0) OR (if bit w 2 then 4 else 0) OR (if bit w 3 then 8 else 0)"
proof (rule bit_word_eqI)
  fix n
  assume "n < LENGTH(32)"
  consider "n = 0" | "n = 1" | "n = 2" | "n = 3" | "4 \<le> n" by linarith
  then show "bit (w AND TH_SCHED_STATE) n = bit ((if bit w 0 then 1 else 0) OR (if bit w 1 then 2 else 0) OR
      (if bit w 2 then 4 else 0) OR (if bit w 3 then 8 else (0 :: 32 word))) n"
  proof cases
    case 5
    then obtain m where "n = 4 + m" using le_Suc_ex by blast
    then have "n = Suc (Suc (Suc (Suc m)))" by simp
    then show ?thesis by (simp add: bit_simps)
  qed (auto simp: bit_simps)
qed

lemma runs_bit: "runs s t \<longleftrightarrow> bit (t_state (th s t)) 2"
  by (simp add: runs_def and_bit)

lemma waits_bit: "waits s t \<longleftrightarrow> bit (t_state (th s t)) 0"
  by (simp add: waits_def and_bit)

text \<open>A thread whose wait ends is to be put on a run queue if it does not run and is not
  suspended, or cannot be suspended yet.\<close>

definition to_run :: "32 word \<Rightarrow> bool" where
  "to_run state \<longleftrightarrow> \<not> bit state 2 \<and> (bit state 1 \<longrightarrow> bit state 3)"

lemma sched_state_groups:
  fixes w :: "32 word"
  assumes "bit w 0"
  shows "w AND TH_SCHED_STATE = TH_WAIT OR TH_SUSP OR TH_UNINT \<or> w AND TH_SCHED_STATE = TH_WAIT OR TH_UNINT \<or>
      w AND TH_SCHED_STATE = TH_WAIT \<longleftrightarrow> to_run w"
    and "w AND TH_SCHED_STATE = TH_WAIT OR TH_SUSP \<or> w AND TH_SCHED_STATE = TH_RUN OR TH_WAIT \<or>
      w AND TH_SCHED_STATE = TH_RUN OR TH_WAIT OR TH_SUSP \<or> w AND TH_SCHED_STATE = TH_RUN OR TH_WAIT OR TH_UNINT \<or>
      w AND TH_SCHED_STATE = TH_RUN OR TH_WAIT OR TH_SUSP OR TH_UNINT \<longleftrightarrow> \<not> to_run w"
  unfolding and_sched_state to_run_def using assms
  by (cases "bit w 1"; cases "bit w 2"; cases "bit w 3"; simp)+

lemma end_wait_eq:
  assumes "waits s t"
  shows "end_wait t result other s =
     (let state = t_state (th s t) in
      if to_run state
      then thread_setrun t True
             (upd_thread t (\<lambda>x. x\<lparr>t_state := (state AND NOT TH_WAIT) OR TH_RUN, t_wait_result := result\<rparr>) s)
      else Some (upd_thread t (\<lambda>x. x\<lparr>t_state := state AND NOT TH_WAIT, t_wait_result := result\<rparr>) s))"
proof -
  have b: "bit (t_state (th s t)) 0" using assms by (simp add: waits_bit)
  show ?thesis unfolding end_wait_def Let_def sched_state_groups [OF b] by simp
qed

lemma state_bits:
  "bit ((w AND NOT TH_WAIT) OR TH_RUN) 0 \<longleftrightarrow> False" "bit ((w AND NOT TH_WAIT) OR TH_RUN) 2 \<longleftrightarrow> True"
  "bit (w AND NOT TH_WAIT) 0 \<longleftrightarrow> False" "bit (w AND NOT TH_WAIT) 2 \<longleftrightarrow> bit w 2"
  for w :: "32 word"
  by (simp_all add: bit_simps)

text \<open>The thread keeps its place if only its state and result change.\<close>

lemma runq_ok_state:
  "runq_ok (upd_thread t (\<lambda>x. x\<lparr>t_state := st, t_wait_result := res\<rparr>) s) r = runq_ok s r"
  by (rule runq_ok_cong) simp_all

lemma wait_ok_state:
  "wait_ok (upd_thread t (\<lambda>x. x\<lparr>t_state := st, t_wait_result := res\<rparr>) s) = wait_ok s"
  by (rule wait_ok_cong) simp_all

lemma end_wait_free:
  assumes "sched_inv X s" "waits s t"
  shows "t_runq (th s t) = None" "s_next_thread s \<noteq> Some t" "t \<notin> set (s_swapin_queue s)"
  using assms by (auto simp: sched_inv_def thread_ok_def)

text \<open>The invariant after a change of the state and result of a thread that is in no queue.\<close>

lemma state_change_inv:
  assumes "sched_inv Y s" "Y \<subseteq> X" "waits s t" "t_wait_event (th s t) = 0" "\<not> bit st 0"
    and "bit st 2 \<longrightarrow> t \<in> X \<or> runs s t" "t = s_current s \<longrightarrow> bit st 2"
  shows "sched_inv X (upd_thread t (\<lambda>x. x\<lparr>t_state := st, t_wait_result := res\<rparr>) s)" (is "sched_inv X ?s")
  unfolding sched_inv_def
proof (intro conjI allI impI)
  have ok: "thread_ok s u" and pl: "runs s u \<Longrightarrow> u \<in> X \<or> placed s u" for u
    using assms(1,2) by (auto simp: sched_inv_def)
  note free = end_wait_free [OF assms(1,3)]
  have o: "u \<noteq> t \<Longrightarrow> runs ?s u = runs s u \<and> waits ?s u = waits s u" for u by (simp add: runs_def waits_def)
  have t: "runs ?s t = bit st 2" "\<not> waits ?s t" using assms(5) by (simp_all add: runs_bit waits_bit)
  show "wait_ok ?s" "runq_ok ?s Pset_runq" "runq_ok ?s Master_runq"
    using assms(1) by (simp_all add: sched_inv_def wait_ok_state runq_ok_state)
  show "thread_ok ?s u" for u
    using ok [of u] o [of u] free assms(4) t by (cases "u = t") (auto simp: thread_ok_def)
  show "u \<in> X \<or> placed ?s u" if "runs ?s u" for u
    using pl [of u] o [of u] that t assms(6) by (cases "u = t") (auto simp: placed_def)
  show "runs ?s (s_current ?s)" using assms(1,7) o [of "s_current s"] t by (cases "t = s_current s") (auto simp: sched_inv_def)
qed (use assms(1) in \<open>simp_all add: sched_inv_def\<close>)

text \<open>What it means for a thread to have been woken: its wait is over, and it is on its way if it
  was asleep and nothing keeps it.\<close>

definition after_wait :: "32 word \<Rightarrow> 32 word" where
  "after_wait state = (if to_run state then (state AND NOT TH_WAIT) OR TH_RUN else state AND NOT TH_WAIT)"

lemma after_wait_bits:
  "\<not> bit (after_wait w) 0" "bit (after_wait w) 2 \<longleftrightarrow> to_run w \<or> bit w 2"
  unfolding after_wait_def by (cases "to_run w"; simp only: if_True if_False state_bits simp_thms)+

definition woken :: "sched \<Rightarrow> sched \<Rightarrow> int \<Rightarrow> tid \<Rightarrow> bool" where
  "woken s s' result t \<longleftrightarrow>
     t_wait_event (th s' t) = 0 \<and> t_wait_result (th s' t) = result \<and>
     t_state (th s' t) = after_wait (t_state (th s t)) \<and>
     (to_run (t_state (th s t)) \<longrightarrow> placed s' t)"

lemma end_wait_ok:
  assumes "sched_inv X s" "waits s t" "t_wait_event (th s t) = 0"
  shows "\<exists>s'. end_wait t result other s = Some s' \<and> sched_inv X s' \<and> woken s s' result t \<and>
           (\<forall>u. u \<noteq> t \<longrightarrow> same_thread (th s u) (th s' u)) \<and>
           s_wait_queue s' = s_wait_queue s \<and> s_current s' = s_current s"
proof (cases "to_run (t_state (th s t))")
  case True
  define w1 where "w1 = after_wait (t_state (th s t))"
  define s1 where "s1 = upd_thread t (\<lambda>x. x\<lparr>t_state := w1, t_wait_result := result\<rparr>) s"
  have b: "\<not> bit w1 0" "bit w1 2" unfolding w1_def using True by (simp_all add: after_wait_bits)
  have cur: "t \<noteq> s_current s" using assms(1) True by (auto simp: sched_inv_def runs_bit to_run_def)
  have "sched_inv (insert t X) s1" unfolding s1_def using assms b cur by (intro state_change_inv) auto
  moreover have "in_transit_thread s1 t"
    using b end_wait_free [OF assms(1,2)] cur assms(3) by (simp add: in_transit_thread_def s1_def runs_bit waits_bit)
  ultimately obtain s' where s': "thread_setrun t True s1 = Some s'" "sched_inv X s'" "placed s' t"
      "\<And>u. same_thread (th s1 u) (th s' u)" "s_wait_queue s' = s_wait_queue s1" "s_current s' = s_current s1"
    using thread_setrun_ok by blast
  have "end_wait t result other s = Some s'"
    using end_wait_eq [OF assms(2)] True s'(1) by (simp add: s1_def w1_def Let_def after_wait_def)
  moreover have "woken s s' result t"
    using s'(3) s'(4) [of t] assms(3) by (auto simp: woken_def same_thread_def s1_def w1_def)
  moreover have "same_thread (th s u) (th s' u)" if "u \<noteq> t" for u using s'(4) [of u] that by (simp add: s1_def)
  ultimately show ?thesis using s' by (auto simp: s1_def)
next
  case False
  define w1 where "w1 = after_wait (t_state (th s t))"
  define s1 where "s1 = upd_thread t (\<lambda>x. x\<lparr>t_state := w1, t_wait_result := result\<rparr>) s"
  have b: "\<not> bit w1 0" "bit w1 2 = runs s t" unfolding w1_def runs_bit using False by (simp_all add: after_wait_bits)
  have "sched_inv X s1"
    unfolding s1_def using assms b by (intro state_change_inv [OF assms(1) subset_refl]) (auto simp: sched_inv_def)
  moreover have "end_wait t result other s = Some s1"
    using end_wait_eq [OF assms(2)] False by (simp add: s1_def w1_def Let_def after_wait_def)
  ultimately show ?thesis
    using False assms(3) by (auto simp: s1_def w1_def same_thread_def woken_def)
qed

lemma leave_event_inv:
  assumes "sched_inv X s" "t_wait_event (th s t) \<noteq> 0"
  shows "sched_inv X (leave_event t s)"
  unfolding sched_inv_def
proof (intro conjI allI impI)
  have ok: "thread_ok s u" and pl: "runs s u \<Longrightarrow> u \<in> X \<or> placed s u" for u using assms(1) by (auto simp: sched_inv_def)
  have o: "runs (leave_event t s) u = runs s u" "waits (leave_event t s) u = waits s u" for u
    by (simp_all add: leave_event_def runs_def waits_def)
  show "wait_ok (leave_event t s)"
    using assms by (auto simp: sched_inv_def wait_ok_def leave_event_def)
  show "runq_ok (leave_event t s) Pset_runq" "runq_ok (leave_event t s) Master_runq"
    using assms(1) runq_ok_cong [of "leave_event t s" _ s] by (auto simp: sched_inv_def leave_event_def)
  show "thread_ok (leave_event t s) u" for u
    using ok [of u] unfolding thread_ok_def o by (auto simp: leave_event_def)
  show "u \<in> X \<or> placed (leave_event t s) u" if "runs (leave_event t s) u" for u
    using pl [of u] that unfolding o by (auto simp: placed_def leave_event_def)
  show "runs (leave_event t s) (s_current (leave_event t s))"
    using assms(1) unfolding o by (simp add: sched_inv_def leave_event_def)
qed (use assms(1) in \<open>simp_all add: sched_inv_def leave_event_def\<close>)

lemma reset_timeout_inv [simp]: "sched_inv X (reset_timeout_check t s) = sched_inv X s"
proof -
  have o: "runs (reset_timeout_check t s) u = runs s u" "waits (reset_timeout_check t s) u = waits s u" for u
    by (simp_all add: reset_timeout_check_def runs_def waits_def)
  have "thread_ok (reset_timeout_check t s) u = thread_ok s u" "placed (reset_timeout_check t s) u = placed s u" for u
    unfolding thread_ok_def placed_def o by (simp_all add: reset_timeout_check_def)
  moreover have "wait_ok (reset_timeout_check t s) = wait_ok s"
    "runq_ok (reset_timeout_check t s) r = runq_ok s r" for r
    using wait_ok_cong [of "reset_timeout_check t s" s] runq_ok_cong [of "reset_timeout_check t s" r s]
    by (simp_all add: reset_timeout_check_def)
  ultimately show ?thesis unfolding sched_inv_def o by (simp add: reset_timeout_check_def)
qed

lemma wake_one:
  assumes "sched_inv X s" "t_wait_event (th s t) \<noteq> 0"
  shows "\<exists>s'. end_wait t result other (reset_timeout_check t (leave_event t s)) = Some s' \<and> sched_inv X s' \<and>
           woken s s' result t \<and> (\<forall>u. u \<noteq> t \<longrightarrow> same_thread (th s u) (th s' u)) \<and> s_current s' = s_current s"
proof -
  let ?s = "reset_timeout_check t (leave_event t s)"
  have "waits s t" using assms by (auto simp: sched_inv_def thread_ok_def)
  then have "waits ?s t" by (simp add: waits_def reset_timeout_check_def leave_event_def)
  moreover have "t_wait_event (th ?s t) = 0" "s_current ?s = s_current s" "t_state (th ?s t) = t_state (th s t)"
    "\<And>u. u \<noteq> t \<Longrightarrow> th ?s u = th s u"
    by (simp_all add: reset_timeout_check_def leave_event_def)
  moreover have "sched_inv X ?s" using leave_event_inv [OF assms] by simp
  ultimately show ?thesis using end_wait_ok [of X ?s t result other] by (auto simp: woken_def)
qed

text \<open>A woken thread stays so while others are.\<close>

lemma woken_keep:
  assumes "woken s s1 result t" "same_thread (th s1 t) (th s2 t)" "sched_inv X s2" "t \<notin> X"
  shows "woken s s2 result t"
proof -
  have "to_run (t_state (th s t)) \<longrightarrow> runs s2 t"
    using assms(1,2) by (simp add: woken_def same_thread_def runs_bit after_wait_bits)
  then show ?thesis using assms by (auto simp: woken_def same_thread_def sched_inv_def)
qed

lemma wakeup_loop_ok:
  assumes "sched_inv X s" "\<forall>x \<in> X. t_wait_event (th s x) = 0" "event \<noteq> 0"
  shows "\<exists>woke' s'. wakeup_loop event False result ts woke s = Some (woke', s') \<and> sched_inv X s' \<and>
           (\<forall>t. if t \<in> set ts \<and> t_wait_event (th s t) = event then woken s s' result t
                else same_thread (th s t) (th s' t)) \<and>
           (woke' \<longleftrightarrow> woke \<or> (\<exists>t \<in> set ts. t_wait_event (th s t) = event))"
  using assms(1,2)
proof (induction ts arbitrary: woke s)
  case Nil
  then show ?case by (simp add: same_thread_def)
next
  case (Cons t ts)
  show ?case
  proof (cases "t_wait_event (th s t) = event")
    case False
    then show ?thesis using Cons.IH [OF Cons.prems, of woke] by auto
  next
    case True
    obtain s1 where s1: "end_wait t result None (reset_timeout_check t (leave_event t s)) = Some s1" "sched_inv X s1"
        "woken s s1 result t" "\<And>u. u \<noteq> t \<Longrightarrow> same_thread (th s u) (th s1 u)"
      using wake_one [OF Cons.prems(1)] True assms(3) by blast
    have X: "t \<notin> X" using True Cons.prems(2) assms(3) by auto
    have X1: "\<forall>x \<in> X. t_wait_event (th s1 x) = 0" using X s1(4) Cons.prems(2) by (force simp: same_thread_def)
    obtain s2 where s2: "wakeup_loop event False result ts True s1 = Some (True, s2)" "sched_inv X s2"
        "\<And>u. if u \<in> set ts \<and> t_wait_event (th s1 u) = event then woken s1 s2 result u
             else same_thread (th s1 u) (th s2 u)"
      using Cons.IH [OF s1(2) X1, of True] by auto
    have "same_thread (th s1 t) (th s2 t)"
      using s2(3) [of t] s1(3) assms(3) by (simp add: woken_def)
    then have "woken s s2 result t" using woken_keep [OF s1(3)] s2(2) X by blast
    moreover have "if u \<in> set ts \<and> t_wait_event (th s u) = event then woken s s2 result u
        else same_thread (th s u) (th s2 u)" if "u \<noteq> t" for u
      using s2(3) [of u] s1(4) [OF that] by (auto simp: same_thread_def woken_def)
    ultimately have "if u \<in> set (t # ts) \<and> t_wait_event (th s u) = event then woken s s2 result u
        else same_thread (th s u) (th s2 u)" for u
      using True by (cases "u = t") auto
    then show ?thesis using s1(1) s2(1,2) True by auto
  qed
qed

lemma wakeup_loop_one:
  assumes "sched_inv X s" "event \<noteq> 0"
  shows "\<exists>s'. wakeup_loop event True result ts woke s =
             Some (woke \<or> filter (\<lambda>t. t_wait_event (th s t) = event) ts \<noteq> [], s') \<and> sched_inv X s' \<and>
           (\<forall>t. if t \<in> set (take 1 (filter (\<lambda>t. t_wait_event (th s t) = event) ts)) then woken s s' result t
                else same_thread (th s t) (th s' t))"
  using assms(1)
proof (induction ts arbitrary: woke)
  case Nil
  then show ?case by (simp add: same_thread_def)
next
  case (Cons t ts)
  show ?case
  proof (cases "t_wait_event (th s t) = event")
    case False
    then show ?thesis using Cons.IH [OF Cons.prems, of woke] by simp
  next
    case True
    then show ?thesis using wake_one [OF Cons.prems, of t result None] assms(2) by auto
  qed
qed

text \<open>The threads that wait for an event, in the order of their queue.\<close>

definition waiters :: "event \<Rightarrow> sched \<Rightarrow> tid list" where
  "waiters event s = filter (\<lambda>t. t_wait_event (th s t) = event) (s_wait_queue s (wait_hash event))"

lemma set_waiters:
  assumes "sched_inv X s" "event \<noteq> 0"
  shows "set (waiters event s) = {t. t_wait_event (th s t) = event}"
  using assms by (auto simp: waiters_def sched_inv_def wait_ok_def)

text \<open>
  C7: in a scheduler whose queues and threads agree, waking the threads that wait for an event
  never fails.  Exactly the threads in waiters are those that wait for it, and the result
  says whether there was one.  All of them are woken (or only the first of the queue, when one
  thread is asked for): each waits no longer, has the result of the wakeup, and if it was
  asleep and is not kept suspended it runs and is on a run queue, or has been handed to the
  idle processor.  No other thread's state, event or result changes, and queues and threads
  agree again.
\<close>

theorem thread_wakeup_prim_correct:
  assumes "sched_inv {} s" "event \<noteq> 0"
  shows "set (waiters event s) = {t. t_wait_event (th s t) = event} \<and>
    (\<exists>s'. thread_wakeup_prim event one_thread result s = Some (waiters event s \<noteq> [], s') \<and> sched_inv {} s' \<and>
       (\<forall>t. if t \<in> set (if one_thread then take 1 (waiters event s) else waiters event s)
            then woken s s' result t else same_thread (th s t) (th s' t)))"
proof (cases one_thread)
  case True
  then show ?thesis
    using set_waiters [OF assms] wakeup_loop_one [OF assms, of result "s_wait_queue s (wait_hash event)" False]
    by (auto simp: thread_wakeup_prim_def waiters_def)
next
  case False
  obtain woke s' where s': "wakeup_loop event False result (s_wait_queue s (wait_hash event)) False s = Some (woke, s')"
      "sched_inv {} s'"
      "\<And>t. if t \<in> set (s_wait_queue s (wait_hash event)) \<and> t_wait_event (th s t) = event then woken s s' result t
           else same_thread (th s t) (th s' t)"
      "woke \<longleftrightarrow> (\<exists>t \<in> set (s_wait_queue s (wait_hash event)). t_wait_event (th s t) = event)"
    using wakeup_loop_ok [OF assms(1) _ assms(2), of result "s_wait_queue s (wait_hash event)" False] by auto
  have "woke \<longleftrightarrow> waiters event s \<noteq> []" using s'(4) by (auto simp: waiters_def filter_empty_conv)
  moreover have "if t \<in> set (waiters event s) then woken s s' result t else same_thread (th s t) (th s' t)" for t
    using s'(3) [of t] by (auto simp: waiters_def)
  ultimately show ?thesis using set_waiters [OF assms] s'(1,2) False by (simp add: thread_wakeup_prim_def)
qed

text \<open>A scheduler with a thread that runs (0), one that waits for event 5 (1), one on the run
  queue (2) and an idle thread (3).\<close>

definition new_thread :: "32 word \<Rightarrow> event \<Rightarrow> sthread" where
  "new_thread state event =
     \<lparr>t_state = state, t_wait_event = event, t_wait_result = 0, t_timer_set = False, t_priority = 10,
      t_sched_pri = 10, t_depress_priority = -1, t_policy = POLICY_TIMESHARE, t_sched_data = 0,
      t_cpu_usage = 0, t_sched_usage = 0, t_sched_stamp = 0, t_cpu_delta = 0, t_sched_delta = 0,
      t_elapsed = 0, t_runq = None, t_bound = False, t_wake_active = False, t_swap_func = None,
      t_kernel_stack = None, t_stack_privilege = None\<rparr>"

definition example_base :: sched where
  "example_base =
     \<lparr>s_thread = (\<lambda>_. new_thread 0 0)
        (0 := (new_thread TH_RUN 0)\<lparr>t_kernel_stack := Some 100\<rparr>, 1 := new_thread (TH_WAIT OR TH_SWAPPED) 5,
         2 := new_thread (TH_RUN OR TH_SWAPPED) 0,
         3 := (new_thread (TH_RUN OR TH_IDLE OR TH_SWAPPED) 0)\<lparr>t_stack_privilege := Some 103\<rparr>),
      s_wait_queue = (\<lambda>_. [])(5 := [1]),
      s_runq = (\<lambda>_. \<lparr>rq_runq = replicate NRQS [], rq_low = 0, rq_count = 0\<rparr>),
      s_fixedpri = False, s_set_quantum = 10, s_sched_load = 1, s_state = PROCESSOR_RUNNING,
      s_idle_queue = False, s_next_thread = None, s_idle_thread = 3, s_current = 0,
      s_first_quantum = True, s_quantum = 10, s_min_quantum = 10, s_ast_block = False,
      s_swapin_queue = [], s_stack_free_list = [], s_sched_tick = 0\<rparr>"

definition example_sched :: sched where
  "example_sched = run_queue_enqueue Pset_runq 2 example_base"

lemma example_base_inv: "sched_inv {2} example_base" "in_transit_thread example_base 2"
proof -
  have q: "runq_ok example_base r" for r
    by (auto simp: runq_ok_def rq_shape_def queued_def example_base_def new_thread_def sum_list_replicate map_replicate_const)
  have w: "wait_ok example_base" by (auto simp: wait_ok_def example_base_def new_thread_def wait_hash_def)
  have t: "thread_ok example_base t \<and> (runs example_base t \<longrightarrow> t \<in> {2} \<or> placed example_base t)" for t
    by (auto simp: thread_ok_def runs_def waits_def placed_def example_base_def new_thread_def)
  show "sched_inv {2} example_base"
    using q w t by (simp add: sched_inv_def) (simp add: example_base_def new_thread_def runs_def)
  show "in_transit_thread example_base 2"
    by (simp add: in_transit_thread_def runs_def waits_def example_base_def new_thread_def)
qed

lemma example_sched_inv: "sched_inv {} example_sched"
  unfolding example_sched_def using enqueue_inv example_base_inv by blast

lemma example_waiters: "waiters 5 example_sched = [1]"
  by (simp add: waiters_def example_sched_def example_base_def run_queue_enqueue_def Let_def wait_hash_def new_thread_def
      upd_thread_def upd_runq_def)

theorem thread_wakeup_prim_witness:
  "\<exists>s'. thread_wakeup_prim 5 False 7 example_sched = Some (True, s') \<and> woken example_sched s' 7 1"
  using thread_wakeup_prim_correct [OF example_sched_inv, of 5 False 7] by (auto simp: example_waiters)

subsection \<open>Choosing a thread\<close>

text \<open>The thread a run queue yields: the first of those whose priority is best.\<close>

definition best_of :: "sched \<Rightarrow> rqid \<Rightarrow> tid \<Rightarrow> bool" where
  "best_of s r t \<longleftrightarrow>
     t_runq (th s t) = Some r \<and>
     (\<forall>u. t_runq (th s u) = Some r \<longrightarrow> whichq (t_sched_pri (th s t)) \<le> whichq (t_sched_pri (th s u))) \<and>
     hd (rq_runq (s_runq s r) ! whichq (t_sched_pri (th s t))) = t"

text \<open>The queue a search may start from: nothing before it.\<close>

definition best_queue :: "run_queue \<Rightarrow> nat \<Rightarrow> bool" where
  "best_queue rq i \<longleftrightarrow> i < NRQS \<and> rq_runq rq ! i \<noteq> [] \<and> (\<forall>j < i. rq_runq rq ! j = [])"

lemma first_queue_ok:
  assumes "rq_shape rq" "rq_count rq > 0" "\<And>i. i < low \<Longrightarrow> rq_runq rq ! i = []"
  shows "\<exists>i. first_queue rq low = Some i \<and> best_queue rq i"
proof -
  have "\<not> (\<forall>i < NRQS. rq_runq rq ! i = [])" using rq_count_0(1) [OF assms(1)] assms(2) by auto
  then obtain k where "k < NRQS" "rq_runq rq ! k \<noteq> []" by blast
  moreover from this have "low \<le> k" using assms(3) by (meson not_le)
  ultimately have "first_queue rq low \<noteq> None" unfolding first_queue_def find_None_iff by auto
  then obtain i where i: "first_queue rq low = Some i" by blast
  then obtain n where n: "n < NRQS - low" "i = low + n" "rq_runq rq ! i \<noteq> []"
      "\<And>m. m < n \<Longrightarrow> rq_runq rq ! (low + m) = []"
    by (auto simp: first_queue_def find_Some_iff)
  have "rq_runq rq ! j = []" if "j < i" for j
    using that n assms(3) [of j] n(4) [of "j - low"] by (cases "j < low") auto
  then show ?thesis using i n by (auto simp: best_queue_def)
qed

lemma best_queue_head:
  assumes "runq_ok s r" "best_queue (s_runq s r) i" "t = hd (rq_runq (s_runq s r) ! i)"
  shows "best_of s r t" "whichq (t_sched_pri (th s t)) = i" "t_runq (th s t) = Some r"
proof -
  have q: "u \<in> set (rq_runq (s_runq s r) ! k) \<longleftrightarrow> queued s r k u" if "k < NRQS" for u k
    using assms(1) that by (simp add: runq_ok_def)
  have "queued s r i t" using q [of i t] assms(2,3) by (simp add: best_queue_def)
  then show w: "whichq (t_sched_pri (th s t)) = i" "t_runq (th s t) = Some r" by (simp_all add: queued_def)
  have "i \<le> whichq (t_sched_pri (th s u))" if "t_runq (th s u) = Some r" for u
    using q [of "whichq (t_sched_pri (th s u))" u] that assms(2)
    by (force simp: queued_def best_queue_def not_less [symmetric])
  then show "best_of s r t" using w assms(3) by (simp add: best_of_def)
qed

text \<open>Taking the head of a queue of a run queue.\<close>

lemma rq_shape_take:
  assumes "rq_shape rq" "best_queue rq i"
  shows "rq_shape (rq\<lparr>rq_runq := (rq_runq rq)[i := tl (rq_runq rq ! i)], rq_count := rq_count rq - 1\<rparr>)"
proof -
  have l: "length (rq_runq rq) = NRQS" and i: "i < NRQS" "rq_runq rq ! i \<noteq> []"
    using assms by (auto simp: rq_shape_def best_queue_def)
  have "sum_list (map length ((rq_runq rq)[i := tl (rq_runq rq ! i)])) + length (rq_runq rq ! i) =
      sum_list (map length (rq_runq rq)) + (length (rq_runq rq ! i) - 1)"
    using sum_list_update_length [of i "rq_runq rq" "tl (rq_runq rq ! i)"] l i by simp
  moreover have "length (rq_runq rq ! i) > 0" using i by simp
  ultimately have "int (sum_list (map length ((rq_runq rq)[i := tl (rq_runq rq ! i)]))) = rq_count rq - 1"
    using assms(1) unfolding rq_shape_def by linarith
  then show ?thesis
    using assms(1) i l rq_below_low [OF assms(1)] by (auto simp: rq_shape_def nth_list_update)
qed

lemma take_from_queued:
  assumes "runq_ok s r" "best_queue (s_runq s r) i"
  shows "queued (snd (take_from r i s)) p k u \<longleftrightarrow> queued s p k u \<and> u \<noteq> hd (rq_runq (s_runq s r) ! i)"
  by (auto simp: queued_def take_from_def Let_def)

lemma take_from_runq:
  assumes "runq_ok s r'" "runq_ok s r" "best_queue (s_runq s r) i"
  shows "runq_ok (snd (take_from r i s)) r'"
proof -
  define rq where "rq = s_runq s r"
  define t where "t = hd (rq_runq rq ! i)"
  define s' where "s' = snd (take_from r i s)"
  have t: "t_runq (th s t) = Some r" "whichq (t_sched_pri (th s t)) = i"
    using best_queue_head [OF assms(2,3), of t] by (simp_all add: t_def rq_def)
  have qd: "queued s' p k u \<longleftrightarrow> queued s p k u \<and> u \<noteq> t" for p k u
    using take_from_queued [OF assms(2,3)] by (simp add: s'_def t_def rq_def)
  show ?thesis
  proof (cases "r' = r")
    case False
    then have "queued s' r' k u = queued s r' k u" for k u using t qd [of r' k u] by (auto simp: queued_def [of s])
    moreover have "s_runq s' r' = s_runq s r'" using False by (simp add: s'_def take_from_def Let_def)
    ultimately show ?thesis using assms(1) by (simp add: runq_ok_def s'_def)
  next
    case True
    have ok: "rq_shape rq" "\<And>k. k < NRQS \<Longrightarrow> distinct (rq_runq rq ! k)"
        "\<And>k u. k < NRQS \<Longrightarrow> u \<in> set (rq_runq rq ! k) \<longleftrightarrow> queued s r k u"
      using assms(2) by (auto simp: runq_ok_def rq_def)
    have rq': "s_runq s' r = rq\<lparr>rq_runq := (rq_runq rq)[i := tl (rq_runq rq ! i)], rq_count := rq_count rq - 1\<rparr>"
      by (simp add: s'_def take_from_def Let_def rq_def)
    have l: "length (rq_runq rq) = NRQS" and i: "i < NRQS" and c: "rq_runq rq ! i = t # tl (rq_runq rq ! i)"
      using ok(1) assms(3) by (auto simp: rq_shape_def best_queue_def rq_def t_def)
    have d: "distinct (t # tl (rq_runq rq ! i))" "set (rq_runq rq ! i) = insert t (set (tl (rq_runq rq ! i)))"
      using ok(2) [OF i] c by (metis, metis list.simps(15))
    have "distinct (rq_runq (s_runq s' r) ! k) \<and> (\<forall>u. u \<in> set (rq_runq (s_runq s' r) ! k) \<longleftrightarrow> queued s' r k u)"
      if k: "k < NRQS" for k
    proof (cases "k = i")
      case True
      then show ?thesis using d ok(3) [OF i] l i by (auto simp: rq' qd)
    next
      case False
      then have "\<not> queued s r k t" using t by (simp add: queued_def)
      then show ?thesis using False ok(2,3) [OF k] l i by (auto simp: rq' qd)
    qed
    moreover have "rq_shape (s_runq s' r)"
      using rq_shape_take [OF ok(1)] assms(3) by (simp add: rq' rq_def)
    ultimately show ?thesis using True by (simp add: runq_ok_def s'_def)
  qed
qed

text \<open>A choice from a run queue: the best thread is in transit, every other thread is where it
  was, and the scheduler's invariant is kept.\<close>

definition took :: "sched \<Rightarrow> rqid \<Rightarrow> tid \<Rightarrow> sched \<Rightarrow> bool" where
  "took s r t s' \<longleftrightarrow> best_of s r t \<and> sched_inv {t} s' \<and> in_transit_thread s' t \<and>
     (\<forall>u. u \<noteq> t \<longrightarrow> th s' u = th s u) \<and> s_current s' = s_current s"

lemma take_from_took:
  assumes "sched_inv {} s" "best_queue (s_runq s r) i" "take_from r i s = (t, s')"
  shows "took s r t s'"
proof -
  have t: "t = hd (rq_runq (s_runq s r) ! i)" and s': "s' = snd (take_from r i s)"
    using assms(3) by (auto simp: take_from_def Let_def)
  note h = best_queue_head [OF sched_inv_runq [OF assms(1)] assms(2) t]
  have e: "th s' u = (if u = t then (th s t)\<lparr>t_runq := None\<rparr> else th s u)" "s_current s' = s_current s"
      "s_next_thread s' = s_next_thread s" "s_swapin_queue s' = s_swapin_queue s" "s_idle_thread s' = s_idle_thread s"
      "s_wait_queue s' = s_wait_queue s" "s_idle_queue s' = s_idle_queue s" "s_state s' = s_state s" for u
    using assms(3) by (auto simp: take_from_def Let_def)
  have r: "runs s' u = runs s u" "waits s' u = waits s u" for u by (simp_all add: runs_def waits_def e)
  have ok: "thread_ok s u" "runs s u \<longrightarrow> placed s u" for u using assms(1) by (simp_all add: sched_inv_def)
  have "runq_ok s' q" for q
    using take_from_runq [OF sched_inv_runq [OF assms(1)] sched_inv_runq [OF assms(1)] assms(2)] by (simp add: s')
  moreover have "wait_ok s'" using assms(1) by (auto simp: sched_inv_def wait_ok_def e)
  moreover have "thread_ok s' u" for u using ok(1) [of u] unfolding thread_ok_def r by (auto simp: e)
  moreover have "runs s' u \<longrightarrow> u \<in> {t} \<or> placed s' u" for u using ok(2) [of u] unfolding r by (auto simp: placed_def e)
  ultimately have "sched_inv {t} s'" using assms(1) unfolding sched_inv_def r e by blast
  moreover have "in_transit_thread s' t" using ok(1) [of t] h(3) unfolding in_transit_thread_def r thread_ok_def by (auto simp: e)
  ultimately show ?thesis using h(1) e by (simp add: took_def)
qed

text \<open>Moving \<^verbatim>\<open>low\<close> up to a queue with nothing before it.\<close>

lemma set_low_frame:
  "th (upd_runq r (\<lambda>rq. rq\<lparr>rq_low := j\<rparr>) s) = th s"
  "in_transit_thread (upd_runq r (\<lambda>rq. rq\<lparr>rq_low := j\<rparr>) s) t = in_transit_thread s t"
  "best_of (upd_runq r (\<lambda>rq. rq\<lparr>rq_low := j\<rparr>) s) q t = best_of s q t"
  by (auto simp: in_transit_thread_def best_of_def runs_def waits_def upd_runq_def)

lemma set_low_inv:
  assumes "sched_inv X s" "j < NRQS" "\<And>k. k < j \<Longrightarrow> rq_runq (s_runq s r) ! k = []"
  shows "sched_inv X (upd_runq r (\<lambda>rq. rq\<lparr>rq_low := j\<rparr>) s)" (is "sched_inv X ?s")
proof -
  have "runs ?s u = runs s u" "waits ?s u = waits s u" "queued ?s q k u = queued s q k u" for u q k
    by (simp_all add: runs_def waits_def queued_def)
  moreover from this have "runq_ok ?s q" for q
    using sched_inv_runq [OF assms(1), of q] assms(2,3) by (auto simp: runq_ok_def rq_shape_def)
  ultimately show ?thesis
    using assms(1) by (simp add: sched_inv_def wait_ok_def thread_ok_def placed_def)
qed

lemma set_low_took:
  assumes "took s0 r0 t s" "j < NRQS" "\<And>k. k < j \<Longrightarrow> rq_runq (s_runq s r) ! k = []"
  shows "took s0 r0 t (upd_runq r (\<lambda>rq. rq\<lparr>rq_low := j\<rparr>) s)"
  using assms set_low_inv [of "{t}" s j r] by (simp add: took_def set_low_frame(2))

lemma take_from_below:
  assumes "best_queue (s_runq s r) i" "take_from r i s = (t, s')" "k < i"
  shows "rq_runq (s_runq s' r) ! k = []"
  using assms by (auto simp: take_from_def Let_def best_queue_def)

lemma settle_low_took:
  assumes "sched_inv {} s" "best_queue (s_runq s Pset_runq) i" "take_from Pset_runq i s = (t, s')"
  shows "\<exists>s''. settle_low i s' = Some s'' \<and> took s Pset_runq t s''"
proof -
  have tk: "took s Pset_runq t s'" using take_from_took assms by blast
  then have sh: "rq_shape (s_runq s' Pset_runq)" using sched_inv_runq [of "{t}" s' Pset_runq] by (simp add: took_def runq_ok_def)
  note below = take_from_below [OF assms(2,3)]
  show ?thesis
  proof (cases "rq_count (s_runq s' Pset_runq) > 0 \<and> s_fixedpri s'")
    case True
    then obtain j where j: "first_queue (s_runq s' Pset_runq) i = Some j" "best_queue (s_runq s' Pset_runq) j"
      using first_queue_ok [OF sh _ below] by blast
    then have "took s Pset_runq t (upd_runq Pset_runq (\<lambda>rq. rq\<lparr>rq_low := j\<rparr>) s')"
      using set_low_took [OF tk] by (simp add: best_queue_def)
    then show ?thesis using True j by (simp add: settle_low_def Let_def)
  next
    case False
    then have "settle_low i s' = Some (upd_runq Pset_runq (\<lambda>rq. rq\<lparr>rq_low := i\<rparr>) s')"
      unfolding settle_low_def Let_def by (rule if_not_P)
    moreover have "took s Pset_runq t (upd_runq Pset_runq (\<lambda>rq. rq\<lparr>rq_low := i\<rparr>) s')"
      using set_low_took [OF tk _ below] assms(2) by (simp add: best_queue_def)
    ultimately show ?thesis by blast
  qed
qed

lemma choose_pset_thread_took:
  assumes "sched_inv {} s" "rq_count (s_runq s Pset_runq) > 0"
  shows "\<exists>t s'. choose_pset_thread s = Some (t, s') \<and> took s Pset_runq t s'"
proof -
  have sh: "rq_shape (s_runq s Pset_runq)" using sched_inv_runq [OF assms(1)] by (simp add: runq_ok_def)
  obtain i where i: "first_queue (s_runq s Pset_runq) (rq_low (s_runq s Pset_runq)) = Some i"
      "best_queue (s_runq s Pset_runq) i"
    using first_queue_ok [OF sh assms(2) rq_below_low [OF sh]] by blast
  obtain t s1 where t: "take_from Pset_runq i s = (t, s1)" by fastforce
  then show ?thesis
    using settle_low_took [OF assms(1) i(2) t] i(1) assms(2) by (auto simp: choose_pset_thread_def Let_def)
qed

lemma choose_thread_took:
  assumes "sched_inv {} s" "rq_count (s_runq s Master_runq) > 0"
  shows "\<exists>t s'. choose_thread s = Some (t, s') \<and> took s Master_runq t s'"
proof -
  have sh: "rq_shape (s_runq s Master_runq)" using sched_inv_runq [OF assms(1)] by (simp add: runq_ok_def)
  obtain i where i: "first_queue (s_runq s Master_runq) (rq_low (s_runq s Master_runq)) = Some i"
      "best_queue (s_runq s Master_runq) i"
    using first_queue_ok [OF sh assms(2) rq_below_low [OF sh]] by blast
  obtain t s1 where t: "take_from Master_runq i s = (t, s1)" by fastforce
  have "took s Master_runq t (upd_runq Master_runq (\<lambda>rq. rq\<lparr>rq_low := i\<rparr>) s1)"
    using set_low_took [OF take_from_took [OF assms(1) i(2) t] _ take_from_below [OF i(2) t]] i(2)
    by (simp add: best_queue_def)
  then show ?thesis using i(1) t assms(2) by (auto simp: choose_thread_def Let_def)
qed

lemma set_idle_inv:
  assumes "sched_inv X s"
  shows "sched_inv X (set_idle s)"
  using assms
  by (auto simp: set_idle_def sched_inv_def wait_ok_def runq_ok_def queued_def thread_ok_def runs_def waits_def placed_def)

lemma took_frame [simp]:
  "took s r t (s'\<lparr>s_quantum := n\<rparr>) = took s r t s'"
  "took (s\<lparr>s_first_quantum := b\<rparr>) r t s' = took s r t s'"
  by (simp_all add: took_def in_transit_thread_def runs_def waits_def best_of_def)

text \<open>Which thread runs next: one bound to the processor, else one of the set, else the current
  thread if it only runs, else the idle thread.\<close>

definition selected :: "sched \<Rightarrow> tid \<Rightarrow> sched \<Rightarrow> bool" where
  "selected s t s' \<longleftrightarrow>
     (if \<exists>u. t_runq (th s u) = Some Master_runq then took s Master_runq t s'
      else if \<exists>u. t_runq (th s u) = Some Pset_runq then took s Pset_runq t s'
      else sched_inv {} s' \<and> (\<forall>u. same_thread (th s u) (th s' u)) \<and> s_current s' = s_current s \<and>
           (if t_state (th s (s_current s)) = TH_RUN then t = s_current s
            else t = s_idle_thread s \<and> (s_state s = PROCESSOR_RUNNING \<longrightarrow> s_idle_queue s')))"

lemma runq_nonempty:
  assumes "sched_inv X s"
  shows "rq_count (s_runq s r) > 0 \<longleftrightarrow> (\<exists>u. t_runq (th s u) = Some r)"
proof -
  have ok: "runq_ok s r" using assms by (rule sched_inv_runq)
  then have sh: "rq_shape (s_runq s r)" by (simp add: runq_ok_def)
  have "rq_count (s_runq s r) > 0 \<longleftrightarrow> (\<exists>i < NRQS. rq_runq (s_runq s r) ! i \<noteq> [])"
    using rq_count_0 [OF sh] by auto
  also have "\<dots> \<longleftrightarrow> (\<exists>u. \<exists>i < NRQS. queued s r i u)"
    using ok unfolding runq_ok_def by (metis list.set_intros(1) list.exhaust empty_iff list.set(1))
  also have "\<dots> \<longleftrightarrow> (\<exists>u. t_runq (th s u) = Some r)" by (auto simp: queued_def)
  finally show ?thesis .
qed

lemma select_pset_low:
  assumes "sched_inv {} s" "rq_count (s_runq s Pset_runq) > 0"
    and "rq_runq (s_runq s Pset_runq) ! rq_low (s_runq s Pset_runq) = []"
  shows "\<exists>t s'. choose_pset_thread (upd_runq Pset_runq (\<lambda>rq. rq\<lparr>rq_low := rq_low rq + 1\<rparr>) s) = Some (t, s') \<and>
           took s Pset_runq t s'"
proof -
  define low where "low = rq_low (s_runq s Pset_runq)"
  have sh: "rq_shape (s_runq s Pset_runq)" using sched_inv_runq [OF assms(1)] by (simp add: runq_ok_def)
  have below: "rq_runq (s_runq s Pset_runq) ! k = []" if "k < low + 1" for k
    using rq_below_low [OF sh, of k] assms(3) that by (cases "k = low") (auto simp: low_def)
  have "low + 1 \<noteq> NRQS" using rq_count_0(1) [OF sh] below assms(2) by auto
  then have lt: "low + 1 < NRQS" using sh by (auto simp: rq_shape_def low_def)
  have eq: "upd_runq Pset_runq (\<lambda>rq. rq\<lparr>rq_low := rq_low rq + 1\<rparr>) s = upd_runq Pset_runq (\<lambda>rq. rq\<lparr>rq_low := low + 1\<rparr>) s"
    by (simp add: upd_runq_def low_def)
  have "sched_inv {} (upd_runq Pset_runq (\<lambda>rq. rq\<lparr>rq_low := low + 1\<rparr>) s)"
    using set_low_inv [OF assms(1) lt below] .
  from choose_pset_thread_took [OF this] obtain t s'
    where "choose_pset_thread (upd_runq Pset_runq (\<lambda>rq. rq\<lparr>rq_low := low + 1\<rparr>) s) = Some (t, s')"
      "took (upd_runq Pset_runq (\<lambda>rq. rq\<lparr>rq_low := low + 1\<rparr>) s) Pset_runq t s'"
    using assms(2) by auto
  then show ?thesis unfolding eq by (simp add: took_def set_low_frame)
qed

lemma select_pset_head:
  assumes "sched_inv {} s" "rq_runq (s_runq s Pset_runq) ! rq_low (s_runq s Pset_runq) \<noteq> []"
  shows "best_queue (s_runq s Pset_runq) (rq_low (s_runq s Pset_runq))"
  using sched_inv_runq [OF assms(1), of Pset_runq] assms(2) rq_below_low [of "s_runq s Pset_runq"]
  by (auto simp: runq_ok_def best_queue_def rq_shape_def)

lemma select_pset_took:
  assumes "sched_inv {} s" "rq_count (s_runq s Pset_runq) > 0"
  shows "\<exists>t s'. select_pset s = Some (t, s') \<and> took s Pset_runq t s'"
proof (cases "rq_runq (s_runq s Pset_runq) ! rq_low (s_runq s Pset_runq) = []")
  case True
  then show ?thesis using select_pset_low [OF assms True] assms(2) by (simp add: select_pset_def Let_def)
next
  case False
  note b = select_pset_head [OF assms(1) False]
  obtain t s' where t: "take_from Pset_runq (rq_low (s_runq s Pset_runq)) s = (t, s')" by fastforce
  show ?thesis
    using take_from_took [OF assms(1) b t] settle_low_took [OF assms(1) b t] False t assms(2)
    by (auto simp: select_pset_def Let_def)
qed

lemma select_pset_empty:
  assumes "sched_inv {} s" "rq_count (s_runq s Pset_runq) = 0"
  shows "\<exists>t s'. select_pset s = Some (t, s') \<and> sched_inv {} s' \<and> (\<forall>u. same_thread (th s u) (th s' u)) \<and>
           s_current s' = s_current s \<and>
           (if t_state (th s (s_current s)) = TH_RUN then t = s_current s
            else t = s_idle_thread s \<and> (s_state s = PROCESSOR_RUNNING \<longrightarrow> s_idle_queue s'))"
proof (cases "t_state (th s (s_current s)) = TH_RUN")
  case True
  obtain s' where s': "update_stamp (s_current s) s = Some s'" using update_stamp_total by blast
  have "t_runq (th s (s_current s)) = None" using assms(1) by (auto simp: sched_inv_def thread_ok_def)
  then have "sched_inv {} s'" using update_stamp_inv [OF s' _ assms(1)] by simp
  then show ?thesis
    using True assms(2) s' update_stamp_frame(3,9) [OF s'] by (simp add: select_pset_def Let_def)
next
  case False
  then show ?thesis
    using assms set_idle_inv [OF assms(1)]
    by (auto simp: select_pset_def choose_pset_thread_def Let_def set_idle_def same_thread_def)
qed

lemma select_total:
  assumes "sched_inv {} s"
  shows "\<exists>t s'. thread_select s = Some (t, s') \<and> selected s t s'"
proof -
  let ?s = "s\<lparr>s_first_quantum := True\<rparr>"
  have i: "sched_inv {} ?s" using assms by simp
  have ne: "rq_count (s_runq s r) > 0 \<longleftrightarrow> (\<exists>u. t_runq (th s u) = Some r)" for r
    using runq_nonempty [OF assms] .
  consider "rq_count (s_runq s Master_runq) > 0"
    | "\<not> rq_count (s_runq s Master_runq) > 0" "rq_count (s_runq s Pset_runq) > 0"
    | "\<not> rq_count (s_runq s Master_runq) > 0" "\<not> rq_count (s_runq s Pset_runq) > 0" by blast
  then show ?thesis
  proof cases
    case 1
    then show ?thesis
      using choose_thread_took [OF i] by (auto simp: thread_select_def Let_def selected_def ne [symmetric])
  next
    case 2
    then show ?thesis
      using select_pset_took [OF i]
      by (auto simp: thread_select_def Let_def selected_def ne [symmetric] set_select_quantum_def)
  next
    case 3
    have "rq_count (s_runq ?s Pset_runq) = 0"
      using 3(2) sched_inv_runq [OF i, of Pset_runq] rq_count_0(2) [of "s_runq s Pset_runq"]
      by (auto simp: runq_ok_def)
    from select_pset_empty [OF i this] obtain t s' where "select_pset ?s = Some (t, s')" "sched_inv {} s'"
        "\<And>u. same_thread (th s u) (th s' u)" "s_current s' = s_current s"
        "if t_state (th s (s_current s)) = TH_RUN then t = s_current s
         else t = s_idle_thread s \<and> (s_state s = PROCESSOR_RUNNING \<longrightarrow> s_idle_queue s')" by auto
    then show ?thesis
      using 3 by (auto simp: thread_select_def Let_def selected_def ne [symmetric] set_select_quantum_def)
  qed
qed

text \<open>
  C8: in a scheduler whose queues and threads agree, thread_select never fails, and it picks
  the next thread as the scheduler promises.  If a thread bound to the processor can run, the
  first of those with the best priority is taken; otherwise the first of those with the best
  priority in the run queue of the processor set; otherwise the current thread keeps running
  when it does nothing but run; otherwise the idle thread is chosen and a processor that was
  running is entered in the idle queue.  A thread that is taken is in no queue any more, every
  other thread is untouched and the queues agree with the threads again.
\<close>

theorem thread_select_correct:
  assumes "sched_inv {} s"
  shows "\<exists>t s'. thread_select s = Some (t, s') \<and> selected s t s'"
  using assms by (rule select_total)

lemma example_runq: "t_runq (th example_sched u) = (if u = 2 then Some Pset_runq else None)"
  by (simp add: example_sched_def example_base_def run_queue_enqueue_def Let_def new_thread_def upd_thread_def upd_runq_def)

theorem thread_select_witness:
  "\<exists>s'. thread_select example_sched = Some (2, s') \<and> took example_sched Pset_runq 2 s'"
proof -
  obtain t s' where s': "thread_select example_sched = Some (t, s')" "selected example_sched t s'"
    using thread_select_correct [OF example_sched_inv] by blast
  then have tk: "took example_sched Pset_runq t s'" by (simp add: selected_def example_runq)
  then have "t = 2" by (simp add: took_def best_of_def example_runq split: if_splits)
  then show ?thesis using s'(1) tk by simp
qed

end
