(* ===== verification/Sched_Switch.thy ===== *)
theory Sched_Switch
  imports Sched_Prim
begin

text \<open>
  Switching threads: \<open>thread_block\<close>, \<open>thread_run\<close>, \<open>thread_invoke\<close> and \<open>thread_dispatch\<close> of
  \<^verbatim>\<open>kern/sched_prim.c\<close>, the swapping in of kernel stacks of \<^verbatim>\<open>kern/thread_swap.c\<close>, the stacks
  of \<^verbatim>\<open>kern/thread.c\<close> and what \<^verbatim>\<open>i386/i386/pcb.c\<close> does to them.

  A thread that blocks may leave its stack to the thread that runs next, or give it back; a
  thread without a stack must get one before it runs.  Kernel stacks are numbers, a
  continuation is a number too.  The thread that is switched to dispatches the thread it was
  switched from as the first thing it does (\<open>thread_continue\<close>, or the end of its own
  \<open>thread_invoke\<close>), so both are one step here.

  \<open>A\<close> gives the addresses that serve as events.
\<close>

record addrs =
  a_event_key :: "tid \<Rightarrow> int"
  a_swapin_queue :: int

definition TH_EV_WAKE_ACTIVE :: "addrs \<Rightarrow> tid \<Rightarrow> event" where
  "TH_EV_WAKE_ACTIVE A t = a_event_key A t"

definition TH_EV_STATE :: "addrs \<Rightarrow> tid \<Rightarrow> event" where
  "TH_EV_STATE A t = a_event_key A t + 8"

text \<open>\<^verbatim>\<open>state & ~m\<close>\<close>

definition clr :: "32 word \<Rightarrow> 32 word \<Rightarrow> 32 word" where
  "clr m w = w AND NOT m"

definition upd_state :: "tid \<Rightarrow> (32 word \<Rightarrow> 32 word) \<Rightarrow> sched \<Rightarrow> sched" where
  "upd_state t f s = upd_thread t (\<lambda>x. x\<lparr>t_state := f (t_state x)\<rparr>) s"

subsection \<open>Kernel stacks\<close>

definition stack_attach :: "tid \<Rightarrow> nat \<Rightarrow> sched \<Rightarrow> sched" where
  "stack_attach t stack s = upd_thread t (\<lambda>x. x\<lparr>t_kernel_stack := Some stack\<rparr>) s"

definition stack_detach :: "tid \<Rightarrow> sched \<Rightarrow> nat option \<times> sched" where
  "stack_detach t s = (t_kernel_stack (th s t), upd_thread t (\<lambda>x. x\<lparr>t_kernel_stack := None\<rparr>) s)"

definition stack_alloc_try :: "tid \<Rightarrow> sched \<Rightarrow> bool \<times> sched" where
  "stack_alloc_try t s =
     (case s_stack_free_list s of
        stack # rest \<Rightarrow> (True, stack_attach t stack (s\<lparr>s_stack_free_list := rest\<rparr>))
      | [] \<Rightarrow> (case t_stack_privilege (th s t) of
                Some stack \<Rightarrow> (True, stack_attach t stack s)
              | None \<Rightarrow> (False, s)))"

text \<open>\<open>fresh\<close> is the stack that \<^verbatim>\<open>kmem_cache_alloc\<close> would return.\<close>

definition stack_alloc :: "nat \<Rightarrow> tid \<Rightarrow> sched \<Rightarrow> sched" where
  "stack_alloc fresh t s =
     (case s_stack_free_list s of
        stack # rest \<Rightarrow> stack_attach t stack (s\<lparr>s_stack_free_list := rest\<rparr>)
      | [] \<Rightarrow> stack_attach t fresh s)"

text \<open>Freeing the stack of a thread that has none would link address zero into the list.\<close>

definition stack_free :: "tid \<Rightarrow> sched \<Rightarrow> sched option" where
  "stack_free t s =
     (let (stack, s) = stack_detach t s in
      if stack \<noteq> t_stack_privilege (th s t)
      then map_option (\<lambda>k. s\<lparr>s_stack_free_list := k # s_stack_free_list s\<rparr>) stack
      else Some s)"

definition stack_privilege :: "tid \<Rightarrow> sched \<Rightarrow> sched option" where
  "stack_privilege t s =
     (if t \<noteq> s_current s then None
      else Some (if t_stack_privilege (th s t) = None
                 then upd_thread t (\<lambda>x. x\<lparr>t_stack_privilege := t_kernel_stack x\<rparr>) s else s))"

definition stack_handoff :: "tid \<Rightarrow> tid \<Rightarrow> sched \<Rightarrow> sched" where
  "stack_handoff old new s =
     (let stack = t_kernel_stack (th s (s_current s));
          s = upd_thread old (\<lambda>x. x\<lparr>t_kernel_stack := None\<rparr>) s;
          s = upd_thread new (\<lambda>x. x\<lparr>t_kernel_stack := stack\<rparr>) s in
      s\<lparr>s_current := new\<rparr>)"

definition switch_context :: "tid \<Rightarrow> nat option \<Rightarrow> tid \<Rightarrow> sched \<Rightarrow> sched" where
  "switch_context old continuation new s =
     (upd_thread old (\<lambda>x. x\<lparr>t_swap_func := continuation\<rparr>) s)\<lparr>s_current := new\<rparr>"

subsection \<open>Swapping in\<close>

definition thread_swapin :: "addrs \<Rightarrow> tid \<Rightarrow> sched \<Rightarrow> sched option" where
  "thread_swapin A t s =
     (let c = t_state (th s t) AND TH_SWAP_STATE in
      if c = TH_SWAPPED then
        thread_wakeup (a_swapin_queue A)
          ((upd_state t (\<lambda>w. clr TH_SWAP_STATE w OR TH_SW_COMING_IN) s)\<lparr>s_swapin_queue := s_swapin_queue s @ [t]\<rparr>)
      else if c = TH_SW_COMING_IN then Some s
      else None)"

definition thread_doswapin :: "nat \<Rightarrow> tid \<Rightarrow> sched \<Rightarrow> sched option" where
  "thread_doswapin fresh t s =
     (let s = stack_alloc fresh t s; s = upd_state t (clr (TH_SWAPPED OR TH_SW_COMING_IN)) s in
      if t_state (th s t) AND TH_RUN \<noteq> 0 then thread_setrun t True s else Some s)"

text \<open>The loop of \<open>swapin_thread_continue\<close> for the threads in the queue; \<open>thread_doswapin\<close>
  cannot fail.\<close>

fun swapin_loop :: "nat list \<Rightarrow> sched \<Rightarrow> sched option" where
  "swapin_loop fresh s =
     (case s_swapin_queue s of
        [] \<Rightarrow> Some s
      | t # q \<Rightarrow> (case fresh of
                    [] \<Rightarrow> None
                  | f # fs \<Rightarrow> Option.bind (thread_doswapin f t (s\<lparr>s_swapin_queue := q\<rparr>)) (swapin_loop fs)))"

subsection \<open>Dispatching\<close>

text \<open>The switch at the end of a thread's turn, on \<open>sel\<close>; \<open>swapped\<close> is what is added to the
  state of the thread.\<close>

definition dispatch_switch :: "addrs \<Rightarrow> tid \<Rightarrow> 32 word \<Rightarrow> 32 word \<Rightarrow> sched \<Rightarrow> sched option" where
  "dispatch_switch A t sel swapped s =
     (if sel = TH_RUN OR TH_SUSP \<or> sel = TH_RUN OR TH_SUSP OR TH_HALTED \<or> sel = TH_RUN OR TH_WAIT OR TH_SUSP then
        (let s = upd_state t (\<lambda>w. clr TH_RUN w OR swapped) s in
         if t_wake_active (th s t)
         then thread_wakeup (TH_EV_WAKE_ACTIVE A t) (upd_thread t (\<lambda>x. x\<lparr>t_wake_active := False\<rparr>) s)
         else Some s)
      else if sel = TH_RUN OR TH_SUSP OR TH_UNINT \<or> sel = TH_RUN OR TH_UNINT \<or> sel = TH_RUN then
        thread_setrun t False (upd_state t (\<lambda>w. w OR swapped) s)
      else if sel = TH_RUN OR TH_WAIT OR TH_SUSP OR TH_UNINT \<or> sel = TH_RUN OR TH_WAIT OR TH_UNINT \<or>
              sel = TH_RUN OR TH_WAIT then
        Some (upd_state t (\<lambda>w. clr TH_RUN w OR swapped) s)
      else if sel = TH_RUN OR TH_IDLE then Some (upd_state t (\<lambda>w. w OR swapped) s)
      else None)"

definition thread_dispatch :: "addrs \<Rightarrow> tid \<Rightarrow> sched \<Rightarrow> sched option" where
  "thread_dispatch A t s = do {
     s \<leftarrow> (if t_swap_func (th s t) \<noteq> None then do {
             kassert (t_state (th s t) AND TH_SWAP_STATE = 0);
             stack_free t (upd_state t (\<lambda>w. w OR TH_SWAPPED) s) }
           else Some s);
     dispatch_switch A t (clr TH_SWAP_STATE (t_state (th s t))) 0 s }"

subsection \<open>Invoking and blocking\<close>

definition miss :: "addrs \<Rightarrow> tid \<Rightarrow> sched \<Rightarrow> (bool \<times> sched) option" where
  "miss A new s = map_option (Pair False) (thread_swapin A new s)"

definition mark_running :: "addrs \<Rightarrow> tid \<Rightarrow> sched \<Rightarrow> sched option" where
  "mark_running A new s = thread_wakeup (TH_EV_STATE A new) (upd_state new (clr (TH_SWAPPED OR TH_UNINT)) s)"

definition run_new :: "addrs \<Rightarrow> tid \<Rightarrow> nat option \<Rightarrow> tid \<Rightarrow> sched \<Rightarrow> (bool \<times> sched) option" where
  "run_new A old continuation new s = do {
     s \<leftarrow> mark_running A new s;
     s \<leftarrow> thread_dispatch A old (switch_context old continuation new s);
     Some (True, s) }"

definition hand_off :: "addrs \<Rightarrow> tid \<Rightarrow> nat option \<Rightarrow> tid \<Rightarrow> sched \<Rightarrow> (bool \<times> sched) option" where
  "hand_off A old continuation new s = do {
     s \<leftarrow> mark_running A new s;
     let s = upd_thread old (\<lambda>x. x\<lparr>t_swap_func := continuation\<rparr>) (stack_handoff old new s);
     s \<leftarrow> dispatch_switch A old (t_state (th s old)) TH_SWAPPED s;
     Some (True, s) }"

definition thread_invoke :: "addrs \<Rightarrow> tid \<Rightarrow> nat option \<Rightarrow> tid \<Rightarrow> sched \<Rightarrow> (bool \<times> sched) option" where
  "thread_invoke A old continuation new s =
     (if old = new then
        map_option (Pair True) (thread_wakeup (TH_EV_STATE A new) (upd_state new (clr TH_UNINT) s))
      else if t_stack_privilege (th s old) \<noteq> t_kernel_stack (th s (s_current s)) \<and> continuation \<noteq> None then
        (let c = t_state (th s new) AND TH_SWAP_STATE in
         if c = TH_SWAPPED then hand_off A old continuation new s
         else if c = TH_SW_COMING_IN then miss A new s
         else run_new A old continuation new s)
      else if t_state (th s new) AND TH_SWAPPED \<noteq> 0 then
        (if t_state (th s new) AND TH_SW_COMING_IN \<noteq> 0 then miss A new s
         else let (ok, s) = stack_alloc_try new s in
           if ok then run_new A old continuation new s else miss A new s)
      else run_new A old continuation new s)"

fun block_loop :: "nat \<Rightarrow> addrs \<Rightarrow> nat option \<Rightarrow> sched \<Rightarrow> sched option" where
  "block_loop 0 A continuation s = None"
| "block_loop (Suc n) A continuation s = do {
     (new, s) \<leftarrow> thread_select s;
     (ok, s) \<leftarrow> thread_invoke A (s_current s) continuation new s;
     if ok then Some s else block_loop n A continuation s }"

definition thread_block :: "nat \<Rightarrow> addrs \<Rightarrow> nat option \<Rightarrow> sched \<Rightarrow> sched option" where
  "thread_block n A continuation s = block_loop n A continuation (s\<lparr>s_ast_block := False\<rparr>)"

definition thread_run :: "nat \<Rightarrow> addrs \<Rightarrow> nat option \<Rightarrow> tid \<Rightarrow> sched \<Rightarrow> sched option" where
  "thread_run n A continuation new s = do {
     (ok, s) \<leftarrow> thread_invoke A (s_current s) continuation new s;
     if ok then Some s else block_loop n A continuation s }"

subsection \<open>What a wakeup changes\<close>

text \<open>The number of threads that can still come onto a run queue or are there.\<close>

definition load :: "sched \<Rightarrow> nat" where
  "load s = (\<Sum>i < NUMQUEUES. length (s_wait_queue s i)) +
     nat (rq_count (s_runq s Pset_runq)) + nat (rq_count (s_runq s Master_runq))"

text \<open>The threads in \<open>W\<close> are woken, the others stay as and where they are, and nobody's stack
  changes.\<close>

definition wake_at :: "tid set \<Rightarrow> sched \<Rightarrow> sched \<Rightarrow> tid \<Rightarrow> bool" where
  "wake_at W s s' t \<longleftrightarrow>
     t_kernel_stack (th s' t) = t_kernel_stack (th s t) \<and> t_stack_privilege (th s' t) = t_stack_privilege (th s t) \<and>
     t_swap_func (th s' t) = t_swap_func (th s t) \<and>
     (if t \<in> W then t_state (th s' t) = after_wait (t_state (th s t))
      else same_thread (th s t) (th s' t) \<and> t_runq (th s' t) = t_runq (th s t) \<and>
           (s_next_thread s' = Some t \<longrightarrow> s_next_thread s = Some t))"

definition wake_frame :: "tid set \<Rightarrow> sched \<Rightarrow> sched \<Rightarrow> bool" where
  "wake_frame W s s' \<longleftrightarrow> (\<forall>t. wake_at W s s' t) \<and>
     s_current s' = s_current s \<and> s_idle_thread s' = s_idle_thread s \<and> s_swapin_queue s' = s_swapin_queue s \<and>
     s_stack_free_list s' = s_stack_free_list s \<and> load s' \<le> load s"

lemma wake_frame_trans:
  assumes "wake_frame V s s1" "wake_frame W s1 s'" "V \<inter> W = {}"
  shows "wake_frame (V \<union> W) s s'"
proof -
  have "wake_at (V \<union> W) s s' t" for t
  proof -
    have "wake_at V s s1 t" "wake_at W s1 s' t" "t \<notin> V \<or> t \<notin> W"
      using assms unfolding wake_frame_def by blast+
    then show ?thesis by (auto simp: wake_at_def same_thread_def split: if_splits)
  qed
  then show ?thesis using assms(1,2) unfolding wake_frame_def by auto
qed

lemma update_priority_stack:
  assumes "update_priority tick l x = Some y"
  shows "t_kernel_stack y = t_kernel_stack x" "t_stack_privilege y = t_stack_privilege x" "t_swap_func y = t_swap_func x"
  using assms by (auto simp: update_priority_def thread_timer_delta_def Let_def split: if_splits)

lemma update_stamp_stack:
  assumes "update_stamp t s = Some s'"
  shows "t_kernel_stack (th s' u) = t_kernel_stack (th s u)" "t_stack_privilege (th s' u) = t_stack_privilege (th s u)"
    "t_swap_func (th s' u) = t_swap_func (th s u)" "s_stack_free_list s' = s_stack_free_list s"
  using assms by (auto simp: update_stamp_def upd_thread_def dest: update_priority_stack split: if_splits)

lemma thread_setrun_frame:
  assumes "thread_setrun t b s = Some s'"
  shows "t_kernel_stack (th s' u) = t_kernel_stack (th s u)" "t_stack_privilege (th s' u) = t_stack_privilege (th s u)"
    "t_swap_func (th s' u) = t_swap_func (th s u)" "same_thread (th s u) (th s' u)"
    "u \<noteq> t \<Longrightarrow> t_runq (th s' u) = t_runq (th s u)"
    "u \<noteq> t \<Longrightarrow> s_next_thread s' = Some u \<Longrightarrow> s_next_thread s = Some u"
    "s_current s' = s_current s" "s_idle_thread s' = s_idle_thread s" "s_swapin_queue s' = s_swapin_queue s"
    "s_stack_free_list s' = s_stack_free_list s" "s_wait_queue s' = s_wait_queue s" "load s' \<le> load s + 1"
proof -
  obtain s1 where s1: "update_stamp t s = Some s1" using update_stamp_total by blast
  note f = update_stamp_frame [OF s1] update_stamp_stack [OF s1]
  have l: "nat (x + 1) \<le> nat x + 1" for x :: int by simp
  show "t_kernel_stack (th s' u) = t_kernel_stack (th s u)" "t_stack_privilege (th s' u) = t_stack_privilege (th s u)"
    "t_swap_func (th s' u) = t_swap_func (th s u)" "same_thread (th s u) (th s' u)"
    "u \<noteq> t \<Longrightarrow> t_runq (th s' u) = t_runq (th s u)"
    "u \<noteq> t \<Longrightarrow> s_next_thread s' = Some u \<Longrightarrow> s_next_thread s = Some u"
    "s_current s' = s_current s" "s_idle_thread s' = s_idle_thread s" "s_swapin_queue s' = s_swapin_queue s"
    "s_stack_free_list s' = s_stack_free_list s" "s_wait_queue s' = s_wait_queue s"
    using assms f f(8,9,12-14) [of u]
    by (auto simp: thread_setrun_def s1 run_queue_enqueue_def Let_def same_thread_def upd_thread_def upd_runq_def split: if_splits)
  show "load s' \<le> load s + 1"
    using assms f l [of "rq_count (s_runq s Pset_runq)"] l [of "rq_count (s_runq s Master_runq)"]
    by (auto simp: thread_setrun_def s1 run_queue_enqueue_def Let_def load_def split: if_splits)
qed

lemma wait_hash_less: "wait_hash event < NUMQUEUES"
  by (simp add: wait_hash_def)

lemma sum_less_upd:
  fixes f g :: "nat \<Rightarrow> nat"
  assumes "i < n" "f i + 1 = g i" "\<And>j. j \<noteq> i \<Longrightarrow> f j = g j"
  shows "(\<Sum>j < n. f j) + 1 = (\<Sum>j < n. g j)"
proof -
  have "(\<Sum>j < n. f j) = f i + (\<Sum>j \<in> {..<n} - {i}. f j)" "(\<Sum>j < n. g j) = g i + (\<Sum>j \<in> {..<n} - {i}. g j)"
    using assms(1) by (simp_all add: sum.remove)
  moreover have "(\<Sum>j \<in> {..<n} - {i}. f j) = (\<Sum>j \<in> {..<n} - {i}. g j)" using assms(3) by (intro sum.cong) auto
  ultimately show ?thesis using assms(2) by simp
qed

lemma leave_event_load:
  assumes "sched_inv X s" "t_wait_event (th s t) \<noteq> 0"
  shows "load (leave_event t s) + 1 = load s"
proof -
  let ?i = "wait_hash (t_wait_event (th s t))"
  have m: "t \<in> set (s_wait_queue s ?i)" using assms by (simp add: sched_inv_def wait_ok_def)
  have "(\<Sum>j < NUMQUEUES. length (s_wait_queue (leave_event t s) j)) + 1 = (\<Sum>j < NUMQUEUES. length (s_wait_queue s j))"
  proof (rule sum_less_upd [OF wait_hash_less [of "t_wait_event (th s t)"]])
    show "length (s_wait_queue (leave_event t s) ?i) + 1 = length (s_wait_queue s ?i)"
      using m length_pos_if_in_set [OF m] by (simp add: leave_event_def length_remove1)
  qed (simp add: leave_event_def)
  then show ?thesis by (simp add: load_def) (simp add: leave_event_def)
qed

lemma wake_one_frame:
  assumes "sched_inv X s" "t_wait_event (th s t) \<noteq> 0"
    and "end_wait t result other (reset_timeout_check t (leave_event t s)) = Some s'"
  shows "wake_frame {t} s s'"
proof -
  let ?s = "reset_timeout_check t (leave_event t s)"
  have e: "th ?s u = (if u = t then (th s t)\<lparr>t_wait_event := 0, t_timer_set := False\<rparr> else th s u)"
      "s_current ?s = s_current s" "s_idle_thread ?s = s_idle_thread s" "s_swapin_queue ?s = s_swapin_queue s"
      "s_stack_free_list ?s = s_stack_free_list s" "s_next_thread ?s = s_next_thread s" for u
    by (simp_all add: reset_timeout_check_def leave_event_def upd_thread_def upd_waitq_def)
  have l: "load ?s + 1 = load s"
    using leave_event_load [OF assms(1,2)] by (simp add: reset_timeout_check_def load_def)
  have w: "waits ?s t" using assms(1,2) by (auto simp: sched_inv_def thread_ok_def waits_def e)
  let ?s1 = "upd_thread t (\<lambda>x. x\<lparr>t_state := after_wait (t_state (th s t)), t_wait_result := result\<rparr>) ?s"
  have l1: "load ?s1 = load ?s" "s_stack_free_list ?s1 = s_stack_free_list ?s" by (simp_all add: load_def upd_thread_def)
  have s': "(if to_run (t_state (th s t)) then thread_setrun t True ?s1 else Some ?s1) = Some s'"
    using assms(3) end_wait_eq [OF w, of result other] by (simp add: Let_def e after_wait_def split: if_splits)
  show ?thesis
  proof (cases "to_run (t_state (th s t))")
    case False
    then have "s' = ?s1" using s' by simp
    then show ?thesis
      using l l1 e by (auto simp: wake_frame_def wake_at_def same_thread_def)
  next
    case True
    then have sr: "thread_setrun t True ?s1 = Some s'" using s' by simp
    note f = thread_setrun_frame [OF sr]
    have "wake_at {t} s s' u" for u
      using f(1-6) [of u] e by (auto simp: wake_at_def same_thread_def split: if_splits)
    moreover have "load s' \<le> load s" using f(12) l l1 by simp
    ultimately show ?thesis using f l1 e by (simp add: wake_frame_def)
  qed
qed

lemma wake_frame_refl: "wake_frame {} s s"
  by (simp add: wake_frame_def wake_at_def same_thread_def)

lemma wakeup_loop_frame:
  assumes "sched_inv X s" "event \<noteq> 0" "wakeup_loop event False result ts woke s = Some (woke', s')"
  shows "wake_frame {t \<in> set ts. t_wait_event (th s t) = event} s s'"
  using assms(1,3)
proof (induction ts arbitrary: woke s)
  case Nil
  then show ?case using wake_frame_refl by simp
next
  case (Cons t ts)
  show ?case
  proof (cases "t_wait_event (th s t) = event")
    case False
    then have "{u \<in> set (t # ts). t_wait_event (th s u) = event} = {u \<in> set ts. t_wait_event (th s u) = event}" by auto
    then show ?thesis using Cons.IH [OF Cons.prems(1)] Cons.prems(2) False by simp
  next
    case True
    then have ne: "t_wait_event (th s t) \<noteq> 0" using assms(2) by simp
    obtain s1 where s1: "end_wait t result None (reset_timeout_check t (leave_event t s)) = Some s1" "sched_inv X s1"
        "woken s s1 result t" "\<And>u. u \<noteq> t \<Longrightarrow> same_thread (th s u) (th s1 u)"
      using wake_one [OF Cons.prems(1) ne] by blast
    have "{u \<in> set ts. t_wait_event (th s1 u) = event} = {u \<in> set ts. t_wait_event (th s u) = event} - {t}"
    proof (intro set_eqI iffI)
      fix u
      show "u \<in> {u \<in> set ts. t_wait_event (th s u) = event} - {t}" if "u \<in> {u \<in> set ts. t_wait_event (th s1 u) = event}"
        using that s1(3) s1(4) [of u] assms(2) by (cases "u = t") (auto simp: woken_def same_thread_def)
      show "u \<in> {u \<in> set ts. t_wait_event (th s1 u) = event}" if "u \<in> {u \<in> set ts. t_wait_event (th s u) = event} - {t}"
        using that s1(4) [of u] by (auto simp: same_thread_def)
    qed
    moreover have "wake_frame {u \<in> set ts. t_wait_event (th s1 u) = event} s1 s'"
      using Cons.IH [OF s1(2)] Cons.prems(2) s1(1) True by simp
    ultimately have "wake_frame ({t} \<union> ({u \<in> set ts. t_wait_event (th s u) = event} - {t})) s s'"
      by (intro wake_frame_trans [OF wake_one_frame [OF Cons.prems(1) ne s1(1)]]) auto
    moreover have "{u \<in> set (t # ts). t_wait_event (th s u) = event} =
        {t} \<union> ({u \<in> set ts. t_wait_event (th s u) = event} - {t})" using True by auto
    ultimately show ?thesis by metis
  qed
qed

lemma thread_wakeup_frame:
  assumes "sched_inv X s" "\<forall>x \<in> X. t_wait_event (th s x) = 0" "event \<noteq> 0"
  shows "\<exists>s'. thread_wakeup event s = Some s' \<and> sched_inv X s' \<and> wake_frame {t. t_wait_event (th s t) = event} s s'"
proof -
  obtain woke s' where s': "wakeup_loop event False THREAD_AWAKENED (s_wait_queue s (wait_hash event)) False s = Some (woke, s')"
      "sched_inv X s'"
    using wakeup_loop_ok [OF assms] by blast
  have "{t \<in> set (s_wait_queue s (wait_hash event)). t_wait_event (th s t) = event} = {t. t_wait_event (th s t) = event}"
    using assms(1,3) by (auto simp: sched_inv_def wait_ok_def)
  then show ?thesis
    using s' wakeup_loop_frame [OF assms(1,3) s'(1)] by (simp add: thread_wakeup_def thread_wakeup_prim_def)
qed

subsection \<open>The invariant of stacks and states\<close>

text \<open>The states a thread may be in at the end of its turn.\<close>

definition legal_state :: "32 word \<Rightarrow> bool" where
  "legal_state w \<longleftrightarrow> w \<in> {0x04, 0x05, 0x06, 0x07, 0x0c, 0x0d, 0x0e, 0x0f, 0x16, 0x84}"

definition core :: "32 word \<Rightarrow> 32 word" where
  "core w = clr TH_SWAP_STATE (w OR TH_RUN)"

lemma bit_clr: "bit (clr m w) n \<longleftrightarrow> bit w n \<and> \<not> bit m n"
  by (auto simp: clr_def bit_simps dest: bit_imp_le_length)

lemma clr_join: "clr a (clr b w) = clr (a OR b) w"
  by (rule bit_word_eqI) (auto simp: bit_clr bit_simps)

lemma clr_or: "clr m (v OR w) = clr m v OR clr m w"
  by (rule bit_word_eqI) (auto simp: bit_clr bit_simps)

lemma clr_or_same: "clr m w OR m = w OR m"
  by (rule bit_word_eqI) (auto simp: bit_clr bit_simps)

lemma clr_0: "clr m 0 = 0"
  by (simp add: clr_def)

lemmas clr_num = clr_def [of "numeral m" "numeral n" for m n] clr_def [of 1 "numeral n" for n]

lemmas clr_simps = clr_join clr_or clr_0 clr_num or.assoc

lemma core_changes:
  "core (clr TH_WAIT w) = clr TH_WAIT (core w)" "core (w OR TH_RUN) = core w" "core (w OR TH_SWAPPED) = core w"
  "core (clr TH_UNINT w) = clr TH_UNINT (core w)"
  "core (clr (TH_SWAPPED OR TH_UNINT) w) = clr TH_UNINT (core w)"
  "core (clr TH_SWAP_STATE w OR TH_SW_COMING_IN) = core w"
  by (simp_all add: core_def clr_simps)

lemma core_stop: "core (clr TH_RUN w) = core w"
  by (simp add: core_def clr_or_same)

lemma legal_clr:
  "legal_state w \<Longrightarrow> legal_state (clr TH_WAIT w)" "legal_state w \<Longrightarrow> legal_state (clr TH_UNINT w)"
  unfolding legal_state_def by (auto simp: clr_num)

definition swapped :: "32 word \<Rightarrow> bool" where
  "swapped w \<longleftrightarrow> bit w 8 \<or> bit w 9"

text \<open>A thread in a legal state; it waits for a stack if it says so, and it has a stack if and
  only if it is not swapped.  The threads in \<open>Y\<close> are exempt from the latter.\<close>

definition thread_inv :: "tid set \<Rightarrow> sched \<Rightarrow> tid \<Rightarrow> bool" where
  "thread_inv Y s t \<longleftrightarrow>
     (runs s t \<or> waits s t \<longrightarrow> legal_state (core (t_state (th s t))) \<and>
        (core (t_state (th s t)) = TH_RUN OR TH_IDLE \<longrightarrow> t = s_idle_thread s)) \<and>
     (bit (t_state (th s t)) 9 \<longleftrightarrow> t \<in> set (s_swapin_queue s)) \<and>
     (t \<notin> Y \<longrightarrow> (if swapped (t_state (th s t)) then t_kernel_stack (th s t) = None
                 else runs s t \<or> waits s t \<longrightarrow> t_kernel_stack (th s t) \<noteq> None))"

text \<open>No stack has two owners, and a privileged stack is for its thread alone.\<close>

definition stacks_ok :: "(tid \<Rightarrow> nat option) \<Rightarrow> (tid \<Rightarrow> nat option) \<Rightarrow> nat list \<Rightarrow> bool" where
  "stacks_ok ks pr fl \<longleftrightarrow> distinct fl \<and>
     (\<forall>t u k. ks t = Some k \<and> ks u = Some k \<longrightarrow> t = u) \<and>
     (\<forall>t k. ks t = Some k \<or> pr t = Some k \<longrightarrow> k \<notin> set fl) \<and>
     (\<forall>t u k. pr t = Some k \<and> (ks u = Some k \<or> pr u = Some k) \<longrightarrow> u = t)"

abbreviation kstack :: "sched \<Rightarrow> tid \<Rightarrow> nat option" where
  "kstack s t \<equiv> t_kernel_stack (th s t)"

abbreviation stack_priv :: "sched \<Rightarrow> tid \<Rightarrow> nat option" where
  "stack_priv s t \<equiv> t_stack_privilege (th s t)"

text \<open>The idle thread is ready at any time.\<close>

definition idle_inv :: "sched \<Rightarrow> bool" where
  "idle_inv s \<longleftrightarrow> (let t = s_idle_thread s in
     core (t_state (th s t)) = TH_RUN OR TH_IDLE \<and> runs s t \<and> t_wait_event (th s t) = 0 \<and> t_runq (th s t) = None \<and>
     s_next_thread s \<noteq> Some t \<and> \<not> bit (t_state (th s t)) 9 \<and> stack_priv s t \<noteq> None)"

definition switch_inv :: "tid set \<Rightarrow> tid set \<Rightarrow> sched \<Rightarrow> bool" where
  "switch_inv X Y s \<longleftrightarrow> sched_inv X s \<and> (\<forall>t. thread_inv Y s t) \<and> stacks_ok (kstack s) (stack_priv s) (s_stack_free_list s) \<and>
     idle_inv s \<and> distinct (s_swapin_queue s) \<and> \<not> swapped (t_state (th s (s_current s)))"

lemma legal_idle:
  "legal_state w \<Longrightarrow> clr TH_WAIT w = TH_RUN OR TH_IDLE \<Longrightarrow> w = TH_RUN OR TH_IDLE"
  "legal_state w \<Longrightarrow> clr TH_UNINT w = TH_RUN OR TH_IDLE \<Longrightarrow> w = TH_RUN OR TH_IDLE"
  unfolding legal_state_def by (auto simp: clr_num)

lemma bit_core: "bit (core w) 0 \<longleftrightarrow> bit w 0" "bit (core w) 1 \<longleftrightarrow> bit w 1" "bit (core w) 3 \<longleftrightarrow> bit w 3"
  by (simp_all add: core_def bit_clr bit_simps)

lemma after_wait_clr: "after_wait w = (if to_run w then clr TH_WAIT w OR TH_RUN else clr TH_WAIT w)"
  by (simp only: after_wait_def clr_def)

lemma after_wait_core: "core (after_wait w) = clr TH_WAIT (core w)"
  by (simp only: after_wait_clr core_changes if_distrib [of core] if_cancel)

lemma after_wait_swap: "bit (after_wait w) 8 = bit w 8" "bit (after_wait w) 9 = bit w 9"
  by (simp_all add: after_wait_clr bit_clr bit_simps)

lemma wake_frame_inv:
  assumes "wake_frame W s s'" "switch_inv X Y s" "sched_inv X s'" "\<And>t. t \<in> W \<Longrightarrow> t_wait_event (th s t) \<noteq> 0"
  shows "switch_inv X Y s'"
proof -
  have fr: "wake_at W s s' t" for t using assms(1) by (simp add: wake_frame_def)
  have f: "s_current s' = s_current s" "s_idle_thread s' = s_idle_thread s" "s_swapin_queue s' = s_swapin_queue s"
      "s_stack_free_list s' = s_stack_free_list s"
    using assms(1) by (simp_all add: wake_frame_def)
  have ti: "thread_inv Y s t" for t using assms(2) by (simp add: switch_inv_def)
  have st: "t_state (th s' t) = (if t \<in> W then after_wait (t_state (th s t)) else t_state (th s t))" for t
    using fr [of t] by (auto simp: wake_at_def same_thread_def)
  have ks: "kstack s' = kstack s" "stack_priv s' = stack_priv s" using fr by (auto simp: wake_at_def)
  have sw: "bit (t_state (th s' t)) 9 = bit (t_state (th s t)) 9" "swapped (t_state (th s' t)) = swapped (t_state (th s t))" for t
    by (simp_all add: st swapped_def after_wait_swap)
  have ww: "waits s t" if "t \<in> W" for t
    using assms(2) assms(4) [OF that] by (auto simp: switch_inv_def sched_inv_def thread_ok_def)
  have "thread_inv Y s' t" for t
  proof (cases "t \<in> W")
    case True
    have "legal_state (core (t_state (th s t)))" "core (t_state (th s t)) = TH_RUN OR TH_IDLE \<longrightarrow> t = s_idle_thread s"
      using ti [of t] ww [OF True] by (simp_all add: thread_inv_def)
    then have "legal_state (core (t_state (th s' t)))" "core (t_state (th s' t)) = TH_RUN OR TH_IDLE \<longrightarrow> t = s_idle_thread s"
      using True legal_clr(1) legal_idle(1) by (simp_all add: st after_wait_core)
    then show ?thesis using ti [of t] ww [OF True] f fun_cong [OF ks(1), of t] sw [of t] unfolding thread_inv_def by simp
  next
    case False
    then have "runs s' t = runs s t" "waits s' t = waits s t" by (simp_all add: runs_def waits_def st)
    then show ?thesis using ti [of t] False f fun_cong [OF ks(1), of t] by (simp add: thread_inv_def st)
  qed
  moreover have "idle_inv s'"
  proof -
    have i: "idle_inv s" using assms(2) by (simp add: switch_inv_def)
    then have "s_idle_thread s \<notin> W" using assms(4) by (auto simp: idle_inv_def Let_def)
    then show ?thesis
      using i fr [of "s_idle_thread s"] f by (auto simp: idle_inv_def Let_def wake_at_def same_thread_def runs_def)
  qed
  ultimately show ?thesis using assms(2,3) f ks sw by (simp add: switch_inv_def)
qed

lemma thread_wakeup_inv:
  assumes "switch_inv X Y s" "\<forall>x \<in> X. t_wait_event (th s x) = 0" "event \<noteq> 0"
  shows "\<exists>s'. thread_wakeup event s = Some s' \<and> switch_inv X Y s' \<and> wake_frame {t. t_wait_event (th s t) = event} s s' \<and>
           (\<forall>t. \<not> waits s t \<longrightarrow> t_state (th s' t) = t_state (th s t))"
proof -
  have i: "sched_inv X s" using assms(1) by (simp add: switch_inv_def)
  then obtain s' where s': "thread_wakeup event s = Some s'" "sched_inv X s'"
      "wake_frame {t. t_wait_event (th s t) = event} s s'"
    using thread_wakeup_frame assms(2,3) by blast
  have "switch_inv X Y s'" using wake_frame_inv [OF s'(3) assms(1) s'(2)] assms(3) by simp
  moreover have "t_state (th s' t) = t_state (th s t)" if "\<not> waits s t" for t
  proof -
    have "thread_ok s t" using i by (simp add: sched_inv_def)
    then have "t_wait_event (th s t) \<noteq> event" using that assms(3) by (auto simp: thread_ok_def)
    moreover have "wake_at {t. t_wait_event (th s t) = event} s s' t" using s'(3) by (simp add: wake_frame_def)
    ultimately show ?thesis by (simp add: wake_at_def same_thread_def)
  qed
  ultimately show ?thesis using s' by blast
qed

text \<open>A thread that runs and that nothing asks to stop.\<close>

definition live :: "sched \<Rightarrow> tid \<Rightarrow> bool" where
  "live s t \<longleftrightarrow> (let w = t_state (th s t) in bit w 2 \<and> \<not> bit w 0 \<and> (bit w 1 \<longrightarrow> bit w 3))"

lemma live_runs: "live s t \<Longrightarrow> runs s t \<and> \<not> waits s t"
  by (simp add: live_def Let_def runs_bit waits_bit)

lemma live_cong: "t_state (th s' t) = t_state (th s t) \<Longrightarrow> live s' t = live s t"
  by (simp add: live_def)

subsection \<open>Changes of one thread\<close>

text \<open>A change of a thread that the queues do not see.\<close>

lemma neutral_inv:
  assumes "t_wait_event (f (th s t)) = t_wait_event (th s t)" "t_runq (f (th s t)) = t_runq (th s t)"
    and "t_sched_pri (f (th s t)) = t_sched_pri (th s t)"
    and "bit (t_state (f (th s t))) 0 = waits s t" "bit (t_state (f (th s t))) 2 = runs s t"
  shows "sched_inv X (upd_thread t f s) = sched_inv X s"
proof -
  let ?s = "upd_thread t f s"
  have r: "runs ?s u = runs s u" "waits ?s u = waits s u" for u using assms(4,5) by (simp_all add: runs_bit waits_bit)
  have "thread_ok ?s u = thread_ok s u" "placed ?s u = placed s u" for u
    unfolding thread_ok_def placed_def r using assms by simp_all
  moreover have "wait_ok ?s = wait_ok s" "runq_ok ?s q = runq_ok s q" for q
    using wait_ok_cong [of ?s s] runq_ok_cong [of ?s q s] assms by simp_all
  ultimately show ?thesis unfolding sched_inv_def r by simp
qed

text \<open>A thread that is in no queue and stops.\<close>

definition off_queue :: "sched \<Rightarrow> tid \<Rightarrow> bool" where
  "off_queue s t \<longleftrightarrow> t_runq (th s t) = None \<and> s_next_thread s \<noteq> Some t \<and> t \<notin> set (s_swapin_queue s) \<and> t \<noteq> s_current s"

lemma stop_inv:
  assumes "sched_inv {t} s" "off_queue s t" "bit st 0 = waits s t" "\<not> bit st 2"
  shows "sched_inv {} (upd_thread t (\<lambda>x. x\<lparr>t_state := st\<rparr>) s)" (is "sched_inv {} ?s")
proof -
  have r: "runs ?s u = (if u = t then False else runs s u)" "waits ?s u = waits s u" for u
    using assms(3,4) by (simp_all add: runs_bit waits_bit)
  have "thread_ok s u" for u using assms(1) by (simp add: sched_inv_def)
  then have "thread_ok ?s u" for u
    using assms(2) unfolding thread_ok_def r off_queue_def by (cases "u = t") auto
  moreover have "runs s u \<longrightarrow> u = t \<or> placed s u" for u using assms(1) by (auto simp: sched_inv_def)
  then have "runs ?s u \<longrightarrow> u \<in> {} \<or> placed ?s u" for u unfolding r placed_def by auto
  moreover have "wait_ok ?s = wait_ok s" "runq_ok ?s q = runq_ok s q" for q
    using wait_ok_cong [of ?s s] runq_ok_cong [of ?s q s] by simp_all
  ultimately show ?thesis using assms(1,2) unfolding sched_inv_def r by (simp add: off_queue_def)
qed

text \<open>A thread without a stack that is put in the swapin queue.\<close>

lemma swapin_inv:
  assumes "sched_inv {t} s" "in_transit_thread s t" "bit st 0 = waits s t" "bit st 2 = runs s t"
  shows "sched_inv {} ((upd_thread t (\<lambda>x. x\<lparr>t_state := st\<rparr>) s)\<lparr>s_swapin_queue := s_swapin_queue s @ [t]\<rparr>)"
    (is "sched_inv {} ?s")
proof -
  have r: "runs ?s u = runs s u" "waits ?s u = waits s u" for u
    using assms(3,4) by (simp_all add: runs_bit waits_bit)
  have "thread_ok s u" for u using assms(1) by (simp add: sched_inv_def)
  then have "thread_ok ?s u" for u
    using assms(2) unfolding thread_ok_def r in_transit_thread_def by (cases "u = t") auto
  moreover have "runs s u \<longrightarrow> u = t \<or> placed s u" for u using assms(1) by (auto simp: sched_inv_def)
  then have "runs ?s u \<longrightarrow> u \<in> {} \<or> placed ?s u" for u unfolding r placed_def by auto
  moreover have "wait_ok ?s = wait_ok s" "runq_ok ?s q = runq_ok s q" for q
    using wait_ok_cong [of ?s s] runq_ok_cong [of ?s q s] by simp_all
  ultimately show ?thesis using assms(1) unfolding sched_inv_def r by simp
qed

text \<open>Switching: the thread in transit becomes current and the thread that was is off the queues.\<close>

lemma switch_current_inv:
  assumes "sched_inv {new} s" "in_transit_thread s new"
  shows "sched_inv {s_current s} (s\<lparr>s_current := new\<rparr>)" "off_queue (s\<lparr>s_current := new\<rparr>) (s_current s)"
proof -
  let ?s = "s\<lparr>s_current := new\<rparr>"
  have r: "runs ?s u = runs s u" "waits ?s u = waits s u" for u by (simp_all add: runs_def waits_def)
  have ok: "thread_ok s u" for u using assms(1) by (simp add: sched_inv_def)
  then have "thread_ok ?s u" for u
    using assms(2) ok [of u] unfolding thread_ok_def r in_transit_thread_def by auto
  moreover have "runs s u \<longrightarrow> u = new \<or> placed s u" for u using assms(1) by (auto simp: sched_inv_def)
  then have "runs ?s u \<longrightarrow> u \<in> {s_current s} \<or> placed ?s u" for u unfolding r placed_def by auto
  moreover have "wait_ok ?s = wait_ok s" "runq_ok ?s q = runq_ok s q" for q
    using wait_ok_cong [of ?s s] runq_ok_cong [of ?s q s] by simp_all
  ultimately show "sched_inv {s_current s} ?s"
    using assms unfolding sched_inv_def r by (simp add: in_transit_thread_def)
  show "off_queue ?s (s_current s)"
    using ok [of "s_current s"] assms(2) unfolding off_queue_def thread_ok_def in_transit_thread_def by auto
qed

subsection \<open>Dispatching\<close>

lemma upd_state_sel [simp]:
  "th (upd_state t f s) u = (if u = t then (th s t)\<lparr>t_state := f (t_state (th s t))\<rparr> else th s u)"
  "s_current (upd_state t f s) = s_current s" "s_next_thread (upd_state t f s) = s_next_thread s"
  "s_swapin_queue (upd_state t f s) = s_swapin_queue s" "s_idle_thread (upd_state t f s) = s_idle_thread s"
  "s_stack_free_list (upd_state t f s) = s_stack_free_list s" "load (upd_state t f s) = load s"
  by (simp_all add: upd_state_def load_def) (simp add: upd_thread_def)

lemma upd_state_upd: "upd_state t f s = upd_thread t (\<lambda>x. x\<lparr>t_state := f (t_state (th s t))\<rparr>) s"
  by (simp add: upd_state_def upd_thread_def)

lemma upd_state_twice: "upd_state t f (upd_state t g s) = upd_state t (\<lambda>w. f (g w)) s"
  by (simp add: upd_state_def upd_thread_def)

lemma dispatch_extra:
  assumes "clr TH_RUN e = e"
  shows "dispatch_switch A t sel e s = dispatch_switch A t sel 0 (upd_state t (\<lambda>w. w OR e) s)"
  unfolding dispatch_switch_def upd_state_twice using assms by (simp add: clr_or)

lemma bit_clr_RUN: "bit (clr TH_RUN w) 0 = bit w 0" "\<not> bit (clr TH_RUN w) 2" "bit (clr TH_RUN w) 8 = bit w 8"
  "bit (clr TH_RUN w) 9 = bit w 9"
  by (simp_all add: bit_clr)

lemma idle_other:
  assumes "idle_inv s" "core (t_state (th s t)) \<noteq> TH_RUN OR TH_IDLE"
  shows "s_idle_thread s \<noteq> t"
  using assms by (auto simp: idle_inv_def Let_def)

lemma stop_switch_inv:
  assumes "switch_inv {t} {} s" "off_queue s t" "runs s t" "core (t_state (th s t)) \<noteq> TH_RUN OR TH_IDLE"
  shows "switch_inv {} {} (upd_state t (clr TH_RUN) s)" (is "switch_inv {} {} ?s")
proof -
  have i: "idle_inv s" and ti: "thread_inv {} s u" for u using assms(1) by (simp_all add: switch_inv_def)
  have si: "s_idle_thread s \<noteq> t" using idle_other [OF i assms(4)] .
  have "sched_inv {} ?s"
    unfolding upd_state_upd using assms(1,2) by (intro stop_inv) (auto simp: switch_inv_def bit_clr_RUN waits_bit)
  moreover have r: "runs ?s u = (if u = t then False else runs s u)" "waits ?s u = waits s u" for u
    by (simp_all add: runs_bit waits_bit bit_clr_RUN)
  have "thread_inv {} ?s u" for u
    using ti [of u] assms(3) unfolding thread_inv_def r by (cases "u = t") (auto simp: core_stop bit_clr_RUN swapped_def)
  moreover have "idle_inv ?s" using i si unfolding idle_inv_def Let_def upd_state_sel r by simp
  moreover have "kstack ?s = kstack s" "stack_priv ?s = stack_priv s" by auto
  ultimately show ?thesis using assms(1,2) by (auto simp: switch_inv_def off_queue_def)
qed

lemma setrun_switch_inv:
  assumes "switch_inv {t} {} s" "in_transit_thread s t" "core (t_state (th s t)) \<noteq> TH_RUN OR TH_IDLE"
  shows "\<exists>s'. thread_setrun t b s = Some s' \<and> switch_inv {} {} s' \<and> s_current s' = s_current s \<and>
           (\<forall>u. t_state (th s' u) = t_state (th s u))"
proof -
  obtain s' where s': "thread_setrun t b s = Some s'" "sched_inv {} s'"
    using thread_setrun_ok [of t "{}" s b] assms(1,2) by (auto simp: switch_inv_def)
  note f = thread_setrun_frame [OF s'(1)]
  have st: "t_state (th s' u) = t_state (th s u)" "t_wait_event (th s' u) = t_wait_event (th s u)" for u
    using f(4) [of u] by (simp_all add: same_thread_def)
  have r: "runs s' u = runs s u" "waits s' u = waits s u" for u by (simp_all add: runs_def waits_def st)
  have i: "idle_inv s" and ti: "thread_inv {} s u" for u using assms(1) by (simp_all add: switch_inv_def)
  have si: "s_idle_thread s \<noteq> t" using idle_other [OF i assms(3)] .
  have "\<forall>u. thread_inv {} s' u" using ti unfolding thread_inv_def r st f by simp
  moreover have "idle_inv s'"
    using i f(5,6) [OF si] unfolding idle_inv_def Let_def r st f(2,8) by auto
  moreover have "kstack s' = kstack s" "stack_priv s' = stack_priv s" using f by auto
  ultimately show ?thesis using assms(1) s' f st by (simp add: switch_inv_def)
qed

lemma idle_switch_inv:
  assumes "switch_inv {s_idle_thread s} Y s"
  shows "switch_inv {} Y s"
  using assms by (auto simp: switch_inv_def sched_inv_def placed_def)

lemma wake_active_inv:
  assumes "switch_inv X Y s"
  shows "switch_inv X Y (upd_thread t (\<lambda>x. x\<lparr>t_wake_active := b\<rparr>) s)" (is "switch_inv X Y ?s")
proof -
  have r: "runs ?s u = runs s u" "waits ?s u = waits s u" for u by (simp_all add: runs_def waits_def)
  have "sched_inv X ?s = sched_inv X s" by (rule neutral_inv) (simp_all add: runs_bit waits_bit)
  moreover have "thread_inv Y ?s u = thread_inv Y s u" for u unfolding thread_inv_def r by simp
  moreover have "idle_inv ?s = idle_inv s" unfolding idle_inv_def Let_def r by simp
  moreover have "kstack ?s = kstack s" "stack_priv ?s = stack_priv s" by auto
  moreover have "s_stack_free_list ?s = s_stack_free_list s" by (simp add: upd_thread_def)
  ultimately show ?thesis using assms by (auto simp: switch_inv_def)
qed

lemma dispatch_stop:
  assumes "switch_inv {t} {} s" "off_queue s t" "runs s t" "core (t_state (th s t)) \<noteq> TH_RUN OR TH_IDLE" "TH_EV_WAKE_ACTIVE A t \<noteq> 0"
  shows "\<exists>s'. (let s = upd_state t (\<lambda>w. clr TH_RUN w OR 0) s in
             if t_wake_active (th s t)
             then thread_wakeup (TH_EV_WAKE_ACTIVE A t) (upd_thread t (\<lambda>x. x\<lparr>t_wake_active := False\<rparr>) s) else Some s) = Some s' \<and>
           switch_inv {} {} s' \<and> s_current s' = s_current s \<and>
           (\<forall>u. u \<noteq> t \<longrightarrow> runs s u \<and> \<not> waits s u \<longrightarrow> runs s' u)"
proof -
  let ?s = "upd_state t (clr TH_RUN) s"
  let ?s1 = "upd_thread t (\<lambda>x. x\<lparr>t_wake_active := False\<rparr>) ?s"
  have i: "switch_inv {} {} ?s" using stop_switch_inv [OF assms(1-4)] .
  obtain s' where s': "thread_wakeup (TH_EV_WAKE_ACTIVE A t) ?s1 = Some s'" "switch_inv {} {} s'"
      "s_current s' = s_current s" "\<And>u. \<not> waits ?s1 u \<Longrightarrow> t_state (th s' u) = t_state (th ?s1 u)"
    using thread_wakeup_inv [OF wake_active_inv [OF i] _ assms(5)] by (fastforce simp: wake_frame_def)
  have "runs s' u" if "u \<noteq> t" "runs s u" "\<not> waits s u" for u
    using s'(4) [of u] that by (simp add: runs_def waits_def)
  moreover have "runs ?s u" if "u \<noteq> t" "runs s u" for u using that by (simp add: runs_def)
  ultimately show ?thesis using s'(1-3) i by (auto simp: Let_def)
qed

lemma dispatch_ok:
  assumes "switch_inv {t} {} s" "off_queue s t" "runs s t" "TH_EV_WAKE_ACTIVE A t \<noteq> 0"
  shows "\<exists>s'. dispatch_switch A t (core (t_state (th s t))) 0 s = Some s' \<and> switch_inv {} {} s' \<and> s_current s' = s_current s \<and>
           (\<forall>u. runs s u \<and> \<not> waits s u \<and> (u = t \<longrightarrow> live s t) \<longrightarrow> runs s' u)"
proof -
  define c where "c = core (t_state (th s t))"
  have ti: "thread_inv {} s t" and tk: "thread_ok s t" using assms(1) by (simp_all add: switch_inv_def sched_inv_def)
  have l: "legal_state c" "c = TH_RUN OR TH_IDLE \<longrightarrow> t = s_idle_thread s" using ti assms(3) by (simp_all add: thread_inv_def c_def)
  have b: "bit c 0 \<longleftrightarrow> waits s t" "bit c 1 \<longleftrightarrow> bit (t_state (th s t)) 1" "bit c 3 \<longleftrightarrow> bit (t_state (th s t)) 3"
    using bit_core [of "t_state (th s t)"] by (simp_all add: c_def waits_bit)
  have z: "upd_state t (\<lambda>w. w OR 0) s = s" by (simp add: upd_state_def upd_thread_def)
  consider "c = 0x06 \<or> c = 0x16 \<or> c = 0x07" | "c = 0x0e \<or> c = 0x0c \<or> c = 0x04" | "c = 0x0f \<or> c = 0x0d \<or> c = 0x05" | "c = 0x84"
    using l(1) by (auto simp: legal_state_def)
  then show ?thesis
  proof cases
    case 1
    then have "\<not> live s t" using b by (auto simp: live_def Let_def)
    moreover have "c \<noteq> TH_RUN OR TH_IDLE" using 1 by auto
    ultimately show ?thesis
      using 1 dispatch_stop [OF assms(1-3) _ assms(4)] by (auto simp: dispatch_switch_def c_def [symmetric])
  next
    case 2
    then have "\<not> waits s t" using b by auto
    then have "in_transit_thread s t"
      using assms(2,3) tk by (auto simp: in_transit_thread_def off_queue_def thread_ok_def)
    then obtain s' where "thread_setrun t False s = Some s'" "switch_inv {} {} s'" "s_current s' = s_current s"
        "\<And>u. t_state (th s' u) = t_state (th s u)"
      using setrun_switch_inv [OF assms(1), where b = False] 2 by (auto simp: c_def)
    then show ?thesis using 2 z by (auto simp: dispatch_switch_def c_def [symmetric] runs_def)
  next
    case 3
    then have "switch_inv {} {} (upd_state t (clr TH_RUN) s)" using stop_switch_inv [OF assms(1-3)] by (auto simp: c_def)
    moreover have "\<not> live s t" using 3 b by (auto simp: live_def Let_def waits_bit)
    ultimately show ?thesis using 3 by (auto simp: dispatch_switch_def c_def [symmetric] runs_def)
  next
    case 4
    then have "switch_inv {} {} s" using l(2) assms(1) idle_switch_inv by simp
    then show ?thesis using 4 z by (simp add: dispatch_switch_def c_def [symmetric])
  qed
qed

subsection \<open>Stacks\<close>

lemma stacks_free:
  assumes "stacks_ok ks pr fl"
  shows "stacks_ok (ks(t := None)) pr fl"
  using assms by (auto simp: stacks_ok_def)

lemma stacks_push:
  assumes "stacks_ok ks pr fl" "ks t = Some k" "pr t \<noteq> Some k"
  shows "stacks_ok (ks(t := None)) pr (k # fl)"
proof -
  have "pr u \<noteq> Some k" for u using assms by (metis stacks_ok_def)
  then show ?thesis using assms(1,2) unfolding stacks_ok_def by (auto split: if_splits)
qed

lemma stacks_move:
  assumes "stacks_ok ks pr fl" "ks old = Some k" "pr old \<noteq> Some k" "old \<noteq> new"
  shows "stacks_ok (ks(old := None, new := Some k)) pr fl"
proof -
  have "pr u \<noteq> Some k" for u using assms by (metis stacks_ok_def)
  then show ?thesis using assms unfolding stacks_ok_def by (auto split: if_splits)
qed

lemma stacks_pop:
  assumes "stacks_ok ks pr (k # fl)"
  shows "stacks_ok (ks(t := Some k)) pr fl"
  using assms unfolding stacks_ok_def by (auto split: if_splits)

lemma stacks_own:
  assumes "stacks_ok ks pr fl" "pr t = Some k"
  shows "stacks_ok (ks(t := Some k)) pr fl"
  using assms unfolding stacks_ok_def by (auto split: if_splits)

lemma bit_swap_state: "w AND TH_SWAP_STATE = 0 \<longleftrightarrow> \<not> swapped w"
  for w :: "32 word"
proof -
  have "w AND TH_SWAP_STATE = 0 \<longleftrightarrow> (\<forall>n. bit w n \<longrightarrow> \<not> bit TH_SWAP_STATE n)"
    by (auto simp: bit_eq_iff bit_simps dest: bit_imp_le_length)
  also have "\<dots> \<longleftrightarrow> \<not> swapped w"
  proof -
    have "TH_SWAP_STATE = 2 ^ 8 OR 2 ^ 9" by simp
    then have "bit TH_SWAP_STATE n \<longleftrightarrow> n = 8 \<or> n = 9" if "n < 32" for n
      using that by (simp only: bit_or_iff bit_exp_iff possible_bit_word) auto
    then show ?thesis by (auto simp: swapped_def dest: bit_imp_le_length)
  qed
  finally show ?thesis .
qed

text \<open>Changes the queues do not see, of all threads at once.\<close>

lemma neutral_all:
  assumes "s' = s\<lparr>s_thread := g, s_stack_free_list := fl\<rparr>"
    and "\<And>u. t_wait_event (g u) = t_wait_event (th s u)" "\<And>u. t_runq (g u) = t_runq (th s u)"
    and "\<And>u. t_sched_pri (g u) = t_sched_pri (th s u)"
    and "\<And>u. bit (t_state (g u)) 0 = waits s u" "\<And>u. bit (t_state (g u)) 2 = runs s u"
  shows "sched_inv X s' = sched_inv X s" "runs s' u = runs s u" "waits s' u = waits s u"
proof -
  show r: "runs s' u = runs s u" "waits s' u = waits s u" for u using assms by (simp_all add: runs_bit waits_bit)
  have "thread_ok s' u = thread_ok s u" "placed s' u = placed s u" for u
    unfolding thread_ok_def placed_def r using assms by simp_all
  moreover have "wait_ok s' = wait_ok s" "runq_ok s' q = runq_ok s q" for q
    using wait_ok_cong [of s' s] runq_ok_cong [of s' q s] assms by simp_all
  ultimately show "sched_inv X s' = sched_inv X s" unfolding sched_inv_def r using assms(1) by simp
qed

text \<open>A thread off the queues loses its stack, which may go to a thread in \<open>Y\<close>.\<close>

lemma swapout_inv:
  assumes "switch_inv {t} Y s" "off_queue s t" "t \<notin> Y"
    and "s' = s\<lparr>s_thread := \<lambda>u. (th s u)\<lparr>t_state := (if u = t then t_state (th s u) OR TH_SWAPPED else t_state (th s u)),
                                 t_kernel_stack := ks u, t_swap_func := sf u\<rparr>, s_stack_free_list := fl\<rparr>"
    and "ks t = None" "\<And>u. u \<notin> Y \<Longrightarrow> u \<noteq> t \<Longrightarrow> ks u = kstack s u"
    and "\<And>u. u \<in> Y \<Longrightarrow> ks u \<noteq> None \<and> \<not> swapped (t_state (th s u))" "stacks_ok ks (stack_priv s) fl"
  shows "switch_inv {t} {} s'"
proof -
  have "bit ((w :: 32 word) OR TH_SWAPPED) 0 = bit w 0" "bit (w OR TH_SWAPPED) 2 = bit w 2"
      "bit (w OR TH_SWAPPED) 9 = bit w 9" "bit (w OR TH_SWAPPED) 8" for w
    by (simp_all add: bit_simps)
  note b = this
  note n = neutral_all [where s' = s' and s = s, OF assms(4)]
  have r: "runs s' u = runs s u" "waits s' u = waits s u" for u
    by (rule n; simp add: b runs_bit waits_bit)+
  have si: "sched_inv {t} s' = sched_inv {t} s" by (rule n; simp add: b runs_bit waits_bit)
  have ti: "thread_inv Y s u" for u using assms(1) by (simp add: switch_inv_def)
  have th: "t_state (th s' u) = (if u = t then t_state (th s u) OR TH_SWAPPED else t_state (th s u))" "kstack s' u = ks u"
      "t_wait_event (th s' u) = t_wait_event (th s u)" "t_runq (th s' u) = t_runq (th s u)"
      "stack_priv s' u = stack_priv s u" for u by (simp_all add: assms(4))
  have f: "s_current s' = s_current s" "s_idle_thread s' = s_idle_thread s" "s_swapin_queue s' = s_swapin_queue s"
      "s_next_thread s' = s_next_thread s" "s_stack_free_list s' = fl" by (simp_all add: assms(4))
  have "thread_inv {} s' u" for u
    using ti [of u] assms(3) assms(5) assms(6) [of u] assms(7) [of u] unfolding thread_inv_def r th f
    by (cases "u = t"; cases "u \<in> Y") (auto simp: core_changes b swapped_def)
  moreover have "idle_inv s'"
    using assms(1) unfolding switch_inv_def idle_inv_def Let_def r th f by (auto simp: core_changes b)
  moreover have "stack_priv s' = stack_priv s" "kstack s' = ks" by (simp_all add: assms(4))
  ultimately show ?thesis using assms(1,2,8) si f th unfolding switch_inv_def off_queue_def by auto
qed

lemma has_stack:
  assumes "switch_inv X Y s" "runs s t" "\<not> swapped (t_state (th s t))" "t \<notin> Y"
  shows "\<exists>k. kstack s t = Some k"
proof -
  have "thread_inv Y s t" using assms(1) by (simp add: switch_inv_def)
  then show ?thesis using assms(2-4) by (simp add: thread_inv_def)
qed

lemma swap_state_value:
  assumes "swapped w" "\<not> bit w 9"
  shows "w AND TH_SWAP_STATE = TH_SWAPPED"
proof (rule bit_word_eqI)
  fix n
  have e: "TH_SWAP_STATE = 2 ^ 8 OR 2 ^ 9" "TH_SWAPPED = 2 ^ 8" by simp_all
  assume "n < LENGTH(32)"
  then show "bit (w AND TH_SWAP_STATE) n = bit TH_SWAPPED n"
    using assms unfolding e by (simp only: bit_and_iff bit_or_iff bit_exp_iff possible_bit_word swapped_def) auto
qed

lemma core_running: "bit w 2 \<Longrightarrow> core w = clr TH_SWAP_STATE w"
proof -
  assume w: "bit w 2"
  have "w OR TH_RUN = w"
  proof (rule bit_word_eqI)
    fix n
    show "bit (w OR TH_RUN) n = bit w n" using w bit_exp_iff [of 2 n, where 'a = "32 word"] by (auto simp: bit_or_iff)
  qed
  then show "core w = clr TH_SWAP_STATE w" by (simp add: core_def)
qed

lemma clr_not_swapped: "\<not> swapped w \<Longrightarrow> clr TH_SWAP_STATE w = w"
proof -
  assume "\<not> swapped w"
  then have z: "w AND TH_SWAP_STATE = 0" by (simp add: bit_swap_state)
  have "\<not> (bit w n \<and> bit TH_SWAP_STATE n)" for n
    using z by (metis bit_0_eq bit_and_iff bot_apply bot_bool_def)
  then show ?thesis by (intro bit_word_eqI) (auto simp: bit_clr)
qed

lemma stack_free_eq:
  assumes "kstack s t = Some k"
  shows "stack_free t s = Some (s\<lparr>s_thread := (s_thread s)(t := (th s t)\<lparr>t_kernel_stack := None\<rparr>),
     s_stack_free_list := (if stack_priv s t = Some k then s_stack_free_list s else k # s_stack_free_list s)\<rparr>)"
  using assms by (auto simp: stack_free_def stack_detach_def upd_thread_def)

lemma thread_dispatch_ok:
  assumes "switch_inv {t} {} s" "off_queue s t" "runs s t" "\<not> swapped (t_state (th s t))" "TH_EV_WAKE_ACTIVE A t \<noteq> 0"
  shows "\<exists>s'. thread_dispatch A t s = Some s' \<and> switch_inv {} {} s' \<and> s_current s' = s_current s \<and>
           (\<forall>u. runs s u \<and> \<not> waits s u \<and> (u = t \<longrightarrow> live s t) \<longrightarrow> runs s' u)"
proof -
  have b: "bit (t_state (th s t)) 2" using assms(3) by (simp add: runs_bit)
  show ?thesis
  proof (cases "t_swap_func (th s t)")
    case None
    then show ?thesis using dispatch_ok [OF assms(1-3,5)] core_running [OF b] by (simp add: thread_dispatch_def)
  next
    case (Some c)
    obtain k where k: "kstack s t = Some k" using has_stack [OF assms(1,3,4)] by blast
    define fl where "fl = (if stack_priv s t = Some k then s_stack_free_list s else k # s_stack_free_list s)"
    have so: "stacks_ok (kstack s) (stack_priv s) (s_stack_free_list s)" using assms(1) by (simp add: switch_inv_def)
    have so': "stacks_ok ((kstack s)(t := None)) (stack_priv s) fl"
      using stacks_free [OF so] stacks_push [OF so k] by (simp add: fl_def)
    define s1 where "s1 = s\<lparr>s_thread := (s_thread s)(t := (th s t)\<lparr>t_state := t_state (th s t) OR TH_SWAPPED, t_kernel_stack := None\<rparr>),
        s_stack_free_list := fl\<rparr>"
    have e: "stack_free t (upd_state t (\<lambda>w. w OR TH_SWAPPED) s) = Some s1"
      using k by (simp add: stack_free_eq s1_def fl_def) (simp add: upd_state_def upd_thread_def)
    have e1: "s1 = s\<lparr>s_thread := \<lambda>u. (th s u)\<lparr>t_state := (if u = t then t_state (th s u) OR TH_SWAPPED else t_state (th s u)),
        t_kernel_stack := ((kstack s)(t := None)) u, t_swap_func := t_swap_func (th s u)\<rparr>, s_stack_free_list := fl\<rparr>"
      unfolding s1_def by (intro arg_cong [where f = "\<lambda>g. s\<lparr>s_thread := g, s_stack_free_list := fl\<rparr>"] ext) simp
    have i1: "switch_inv {t} {} s1" by (rule swapout_inv [OF assms(1,2) _ e1]) (use so' in \<open>auto simp: fun_upd_def\<close>)
    have r1: "runs s1 t" using b by (simp add: runs_bit s1_def bit_simps)
    have o1: "off_queue s1 t" using assms(2) by (simp add: off_queue_def s1_def)
    have "clr TH_SWAP_STATE (t_state (th s1 t)) = core (t_state (th s1 t))"
      using core_running [of "t_state (th s1 t)"] r1 by (simp add: runs_bit)
    then obtain s' where "thread_dispatch A t s = Some s'" "switch_inv {} {} s'" "s_current s' = s_current s"
        "\<And>u. runs s1 u \<and> \<not> waits s1 u \<and> (u = t \<longrightarrow> live s1 t) \<Longrightarrow> runs s' u"
      using dispatch_ok [OF i1 o1 r1 assms(5)] Some e assms(4) by (auto simp: thread_dispatch_def bit_swap_state s1_def)
    moreover have "runs s1 u = runs s u" "waits s1 u = waits s u" "live s1 t = live s t" for u
      by (simp_all add: runs_bit waits_bit live_def Let_def s1_def bit_simps)
    ultimately show ?thesis by simp
  qed
qed

subsection \<open>Invoking\<close>

lemma bit_mark: "bit (clr (TH_SWAPPED OR TH_UNINT) w) 0 = bit w 0" "bit (clr (TH_SWAPPED OR TH_UNINT) w) 2 = bit w 2"
  "bit (clr (TH_SWAPPED OR TH_UNINT) w) 9 = bit w 9" "\<not> bit (clr (TH_SWAPPED OR TH_UNINT) w) 8"
  "bit (clr TH_UNINT w) 0 = bit w 0" "bit (clr TH_UNINT w) 2 = bit w 2"
  "bit (clr TH_UNINT w) 9 = bit w 9" "bit (clr TH_UNINT w) 8 = bit w 8"
  by (simp_all add: bit_clr bit_simps)

text \<open>A change of state that keeps whether the thread runs and waits, and its stack state up to
  \<open>Y\<close>.\<close>

lemma state_change_switch_inv:
  assumes "switch_inv X Y s" "bit st 0 = waits s t" "bit st 2 = runs s t" "bit st 9 = bit (t_state (th s t)) 9"
    and "t \<in> Y \<or> bit st 8 = bit (t_state (th s t)) 8" "t = s_current s \<longrightarrow> \<not> swapped st"
    and "core st = clr TH_UNINT (core (t_state (th s t)))"
  shows "switch_inv X Y (upd_thread t (\<lambda>x. x\<lparr>t_state := st\<rparr>) s)" (is "switch_inv X Y ?s")
proof -
  have r: "runs ?s u = runs s u" "waits ?s u = waits s u" for u using assms(2,3) by (simp_all add: runs_bit waits_bit)
  have ti: "thread_inv Y s u" for u using assms(1) by (simp add: switch_inv_def)
  have "legal_state (core st) \<and> (core st = TH_RUN OR TH_IDLE \<longrightarrow> core (t_state (th s t)) = TH_RUN OR TH_IDLE)"
    if "legal_state (core (t_state (th s t)))"
    using that legal_clr(2) legal_idle(2) by (simp add: assms(7))
  then have "thread_inv Y ?s u" for u
    using ti [of u] assms(4,5) unfolding thread_inv_def r by (cases "u = t") (auto simp: swapped_def)
  moreover have "idle_inv ?s"
    using assms(1,4,7) unfolding switch_inv_def idle_inv_def Let_def r by (auto simp: clr_num)
  moreover have "sched_inv X ?s = sched_inv X s" using assms(2,3) by (intro neutral_inv) simp_all
  moreover have "kstack ?s = kstack s" "stack_priv ?s = stack_priv s" by auto
  moreover have "s_stack_free_list ?s = s_stack_free_list s" by (simp add: upd_thread_def)
  ultimately show ?thesis using assms(1,6) by (auto simp: switch_inv_def)
qed

lemma in_transit_wake:
  assumes "wake_frame W s s'" "in_transit_thread s t" "t \<notin> W"
  shows "in_transit_thread s' t" "t_state (th s' t) = t_state (th s t)"
proof -
  have "wake_at W s s' t" using assms(1) by (simp add: wake_frame_def)
  then show "in_transit_thread s' t" "t_state (th s' t) = t_state (th s t)"
    using assms unfolding wake_frame_def by (auto simp: wake_at_def same_thread_def in_transit_thread_def runs_def waits_def)
qed

lemma mark_running_ok:
  assumes "switch_inv {new} Y s" "new \<in> Y" "in_transit_thread s new" "TH_EV_STATE A new \<noteq> 0"
  shows "\<exists>s'. mark_running A new s = Some s' \<and> switch_inv {new} Y s' \<and> in_transit_thread s' new \<and>
           \<not> swapped (t_state (th s' new)) \<and> kstack s' = kstack s \<and> stack_priv s' = stack_priv s \<and> s_current s' = s_current s \<and>
           (\<forall>u. u \<noteq> new \<longrightarrow> \<not> waits s u \<longrightarrow> t_state (th s' u) = t_state (th s u))"
proof -
  let ?s = "upd_state new (clr (TH_SWAPPED OR TH_UNINT)) s"
  have nc: "new \<noteq> s_current s" and nw: "t_wait_event (th s new) = 0" using assms(3) by (simp_all add: in_transit_thread_def)
  have i: "switch_inv {new} Y ?s"
    unfolding upd_state_upd using assms(1,2) nc
    by (intro state_change_switch_inv) (simp_all only: bit_mark runs_bit waits_bit core_changes simp_thms)
  have t: "in_transit_thread ?s new"
    using assms(3) unfolding in_transit_thread_def runs_bit waits_bit by (simp add: bit_clr)
  obtain s' where s': "thread_wakeup (TH_EV_STATE A new) ?s = Some s'" "switch_inv {new} Y s'"
      "wake_frame {t. t_wait_event (th ?s t) = TH_EV_STATE A new} ?s s'"
      "\<And>u. \<not> waits ?s u \<Longrightarrow> t_state (th s' u) = t_state (th ?s u)"
    using thread_wakeup_inv [OF i _ assms(4)] nw by auto
  have nW: "new \<notin> {t. t_wait_event (th ?s t) = TH_EV_STATE A new}" using nw assms(4) by simp
  have "thread_inv Y s new" using assms(1) by (simp add: switch_inv_def)
  then have "\<not> bit (t_state (th s new)) 9" using assms(3) by (simp add: thread_inv_def in_transit_thread_def)
  then have "\<not> swapped (t_state (th s' new))"
    unfolding in_transit_wake(2) [OF s'(3) t nW] swapped_def by (simp add: bit_clr)
  moreover have "kstack s' = kstack s" "stack_priv s' = stack_priv s"
    using s'(3) by (auto simp: wake_frame_def wake_at_def)
  moreover have "s_current s' = s_current s" using s'(3) by (simp add: wake_frame_def)
  moreover have "t_state (th s' u) = t_state (th s u)" if "u \<noteq> new" "\<not> waits s u" for u
    using s'(4) [of u] that by (simp add: waits_def)
  ultimately show ?thesis
    using s'(1,2) in_transit_wake(1) [OF s'(3) t nW] by (simp add: mark_running_def)
qed

lemma switch_inv_mono: "switch_inv X Y s \<Longrightarrow> Y \<subseteq> Y' \<Longrightarrow> switch_inv X Y' s"
  by (auto simp: switch_inv_def thread_inv_def)

lemma switch_inv_settle:
  assumes "switch_inv X {t} s" "\<not> swapped (t_state (th s t))" "kstack s t \<noteq> None"
  shows "switch_inv X {} s"
proof -
  have "thread_inv {} s u" for u
  proof -
    have "thread_inv {t} s u" using assms(1) by (simp add: switch_inv_def)
    then show ?thesis using assms(2,3) by (cases "u = t") (simp_all add: thread_inv_def)
  qed
  then show ?thesis using assms(1) by (simp add: switch_inv_def)
qed

lemma switch_current_switch_inv:
  assumes "switch_inv {new} Y s" "in_transit_thread s new" "\<not> swapped (t_state (th s new))"
  shows "switch_inv {s_current s} Y (s\<lparr>s_current := new\<rparr>)" (is "switch_inv _ Y ?s")
proof -
  have r: "runs ?s u = runs s u" "waits ?s u = waits s u" for u by (simp_all add: runs_def waits_def)
  have "thread_inv Y ?s u = thread_inv Y s u" for u unfolding thread_inv_def r by simp
  moreover have "idle_inv ?s = idle_inv s" unfolding idle_inv_def Let_def r by simp
  moreover have "sched_inv {s_current s} ?s" using switch_current_inv(1) assms(1,2) by (simp add: switch_inv_def)
  ultimately show ?thesis using assms(1,3) by (simp add: switch_inv_def)
qed

lemma swap_func_inv:
  assumes "switch_inv X Y s"
  shows "switch_inv X Y (upd_thread t (\<lambda>x. x\<lparr>t_swap_func := c\<rparr>) s)" (is "switch_inv X Y ?s")
proof -
  have r: "runs ?s u = runs s u" "waits ?s u = waits s u" for u by (simp_all add: runs_def waits_def)
  have "sched_inv X ?s = sched_inv X s" by (rule neutral_inv) (simp_all add: runs_bit waits_bit)
  moreover have "thread_inv Y ?s u = thread_inv Y s u" for u unfolding thread_inv_def r by simp
  moreover have "idle_inv ?s = idle_inv s" unfolding idle_inv_def Let_def r by simp
  moreover have "kstack ?s = kstack s" "stack_priv ?s = stack_priv s" by auto
  moreover have "s_stack_free_list ?s = s_stack_free_list s" by (simp add: upd_thread_def)
  ultimately show ?thesis using assms by (auto simp: switch_inv_def)
qed

text \<open>Events are addresses, and none is zero.\<close>

definition addrs_ok :: "addrs \<Rightarrow> bool" where
  "addrs_ok A \<longleftrightarrow> a_swapin_queue A > 0 \<and> (\<forall>t. a_event_key A t > 0)"

lemma addrs_okD:
  assumes "addrs_ok A"
  shows "TH_EV_STATE A t \<noteq> 0" "TH_EV_WAKE_ACTIVE A t \<noteq> 0" "a_swapin_queue A \<noteq> 0"
proof -
  have "a_event_key A t > 0" using assms by (simp add: addrs_ok_def)
  then show "TH_EV_STATE A t \<noteq> 0" "TH_EV_WAKE_ACTIVE A t \<noteq> 0" by (simp_all add: TH_EV_STATE_def TH_EV_WAKE_ACTIVE_def)
  show "a_swapin_queue A \<noteq> 0" using assms by (simp add: addrs_ok_def)
qed

lemma run_new_ok:
  assumes "switch_inv {new} {new} s" "in_transit_thread s new" "kstack s new \<noteq> None" "addrs_ok A"
  shows "\<exists>s'. run_new A (s_current s) continuation new s = Some (True, s') \<and> switch_inv {} {} s' \<and> s_current s' = new \<and>
           (\<forall>u. live s u \<longrightarrow> runs s' u)"
proof -
  let ?old = "s_current s"
  obtain s1 where s1: "mark_running A new s = Some s1" "switch_inv {new} {new} s1" "in_transit_thread s1 new"
      "\<not> swapped (t_state (th s1 new))" "kstack s1 = kstack s" "s_current s1 = ?old"
      "\<And>u. u \<noteq> new \<Longrightarrow> \<not> waits s u \<Longrightarrow> t_state (th s1 u) = t_state (th s u)"
    using mark_running_ok [OF assms(1) _ assms(2)] addrs_okD(1) [OF assms(4)] by blast
  have no: "new \<noteq> ?old" using assms(2) by (simp add: in_transit_thread_def)
  have "kstack s1 new \<noteq> None" using fun_cong [OF s1(5), of new] assms(3) by simp
  then have i1: "switch_inv {new} {} s1" using switch_inv_settle [OF s1(2,4)] by simp
  let ?s2 = "upd_thread ?old (\<lambda>x. x\<lparr>t_swap_func := continuation\<rparr>) (s1\<lparr>s_current := new\<rparr>)"
  have e: "switch_context ?old continuation new s1 = ?s2" by (simp add: switch_context_def upd_thread_def)
  have i2: "switch_inv {?old} {} ?s2"
    using swap_func_inv [OF switch_current_switch_inv [OF i1 s1(3,4)]] by (simp add: s1(6))
  have "off_queue (s1\<lparr>s_current := new\<rparr>) ?old"
    using switch_current_inv(2) [of new s1] s1(2,3,6) by (simp add: switch_inv_def)
  then have o2: "off_queue ?s2 ?old" by (simp add: off_queue_def)
  have "runs s1 ?old" "\<not> swapped (t_state (th s1 ?old))" using s1(2,6) by (auto simp: switch_inv_def sched_inv_def)
  then have "runs ?s2 ?old" "\<not> swapped (t_state (th ?s2 ?old))" by (simp_all add: runs_def)
  then obtain s' where s': "thread_dispatch A ?old ?s2 = Some s'" "switch_inv {} {} s'" "s_current s' = new"
      "\<And>u. runs ?s2 u \<Longrightarrow> \<not> waits ?s2 u \<Longrightarrow> (u = ?old \<longrightarrow> live ?s2 ?old) \<Longrightarrow> runs s' u"
    using thread_dispatch_ok [OF i2 o2 _ _ addrs_okD(2) [OF assms(4)]] by auto
  have "runs s' u" if "live s u" for u
  proof (cases "u = new")
    case True
    then show ?thesis using s'(2,3) by (auto simp: switch_inv_def sched_inv_def)
  next
    case False
    then have "t_state (th ?s2 u) = t_state (th s u)" using s1(7) [of u] live_runs [OF that] by auto
    then have "runs ?s2 u" "\<not> waits ?s2 u" "live ?s2 u"
      using that live_runs [OF that] unfolding runs_def waits_def live_def by metis+
    then show ?thesis using s'(4) [of u] by auto
  qed
  then show ?thesis using s'(1-3) s1(1) by (auto simp: run_new_def e)
qed

lemma handoff_eq:
  assumes "old \<noteq> new" "s_current s = old"
  shows "upd_state old (\<lambda>w. w OR TH_SWAPPED)
      (upd_thread old (\<lambda>x. x\<lparr>t_swap_func := c\<rparr>) (stack_handoff old new s)) =
    (s\<lparr>s_current := new\<rparr>)\<lparr>s_thread := \<lambda>u. (th s u)\<lparr>
        t_state := (if u = old then t_state (th s u) OR TH_SWAPPED else t_state (th s u)),
        t_kernel_stack := ((kstack s)(old := None, new := kstack s old)) u,
        t_swap_func := (if u = old then c else t_swap_func (th s u))\<rparr>,
      s_stack_free_list := s_stack_free_list s\<rparr>"
proof -
  have "(th s)(old := (th s old)\<lparr>t_kernel_stack := None, t_swap_func := c, t_state := t_state (th s old) OR TH_SWAPPED\<rparr>,
      new := (th s new)\<lparr>t_kernel_stack := kstack s old\<rparr>) =
    (\<lambda>u. (th s u)\<lparr>t_state := (if u = old then t_state (th s u) OR TH_SWAPPED else t_state (th s u)),
        t_kernel_stack := ((kstack s)(old := None, new := kstack s old)) u,
        t_swap_func := (if u = old then c else t_swap_func (th s u))\<rparr>)"
    using assms(1) by (intro ext) simp
  then show ?thesis
    using assms by (simp add: upd_state_def stack_handoff_def upd_thread_def Let_def fun_upd_twist)
qed

definition handed_off :: "tid \<Rightarrow> nat option \<Rightarrow> tid \<Rightarrow> sched \<Rightarrow> sched" where
  "handed_off old continuation new s = upd_state old (\<lambda>w. w OR TH_SWAPPED)
     (upd_thread old (\<lambda>x. x\<lparr>t_swap_func := continuation\<rparr>) (stack_handoff old new s))"

lemma handed_off_inv:
  assumes "switch_inv {new} {new} s" "in_transit_thread s new" "\<not> swapped (t_state (th s new))"
    and "stack_priv s old \<noteq> kstack s old" "old = s_current s" "s' = handed_off old continuation new s"
  shows "switch_inv {old} {} s'" "off_queue s' old" "runs s' old" "core (t_state (th s' old)) = t_state (th s old)"
    "s_current s' = new" "runs s' u = runs s u" "waits s' u = waits s u" "live s' u = live s u"
proof -
  have no: "old \<noteq> new" using assms(2,5) by (simp add: in_transit_thread_def)
  have run: "runs s old" "\<not> swapped (t_state (th s old))" using assms(1,5) by (auto simp: switch_inv_def sched_inv_def)
  then obtain k where k: "kstack s old = Some k" using has_stack [OF assms(1)] no by blast
  define s2 where "s2 = s\<lparr>s_current := new\<rparr>"
  have t2: "s_thread s2 = s_thread s" by (simp add: s2_def)
  have i2: "switch_inv {old} {new} s2"
    using switch_current_switch_inv [OF assms(1-3)] assms(5) by (simp add: s2_def)
  have o2: "off_queue s2 old"
    using switch_current_inv(2) [of new s] assms(1,2,5) by (simp add: switch_inv_def s2_def)
  have e: "s' = s2\<lparr>s_thread := \<lambda>u. (th s2 u)\<lparr>
        t_state := (if u = old then t_state (th s2 u) OR TH_SWAPPED else t_state (th s2 u)),
        t_kernel_stack := ((kstack s)(old := None, new := kstack s old)) u,
        t_swap_func := (if u = old then continuation else t_swap_func (th s u))\<rparr>,
      s_stack_free_list := s_stack_free_list s\<rparr>"
    unfolding assms(6) handed_off_def handoff_eq [OF no assms(5) [symmetric]] t2 by (simp add: s2_def)
  have "stacks_ok (kstack s) (stack_priv s) (s_stack_free_list s)" using assms(1) by (simp add: switch_inv_def)
  then have so: "stacks_ok ((kstack s)(old := None, new := kstack s old)) (stack_priv s2) (s_stack_free_list s)"
    using stacks_move [of "kstack s" "stack_priv s" _ old k new] k assms(4) no by (simp add: t2)
  show "switch_inv {old} {} s'"
    by (rule swapout_inv [OF i2 o2 _ e]) (use so no k assms(3) in \<open>auto simp: t2 fun_upd_def\<close>)
  show "off_queue s' old" "runs s' old" "s_current s' = new"
    using o2 run(1) unfolding e by (simp_all add: off_queue_def runs_bit t2 bit_simps s2_def)
  show "runs s' u = runs s u" "waits s' u = waits s u" "live s' u = live s u"
    unfolding e by (simp_all add: runs_bit waits_bit live_def Let_def t2 bit_simps)
  show "core (t_state (th s' old)) = t_state (th s old)"
    using run core_running clr_not_swapped unfolding e by (simp add: t2 core_changes runs_bit)
qed

lemma hand_off_ok:
  assumes "switch_inv {new} {} s" "in_transit_thread s new" "stack_priv s (s_current s) \<noteq> kstack s (s_current s)" "addrs_ok A"
  shows "\<exists>s'. hand_off A (s_current s) continuation new s = Some (True, s') \<and> switch_inv {} {} s' \<and> s_current s' = new \<and>
           (\<forall>u. live s u \<longrightarrow> runs s' u)"
proof -
  let ?old = "s_current s"
  obtain s1 where s1: "mark_running A new s = Some s1" "switch_inv {new} {new} s1" "in_transit_thread s1 new"
      "\<not> swapped (t_state (th s1 new))" "kstack s1 = kstack s" "stack_priv s1 = stack_priv s" "s_current s1 = ?old"
      "\<And>u. u \<noteq> new \<Longrightarrow> \<not> waits s u \<Longrightarrow> t_state (th s1 u) = t_state (th s u)"
    using mark_running_ok [OF switch_inv_mono [OF assms(1), of "{new}"] _ assms(2)] addrs_okD(1) [OF assms(4)] by blast
  have "stack_priv s1 ?old \<noteq> kstack s1 ?old"
    using assms(3) fun_cong [OF s1(5)] fun_cong [OF s1(6)] s1(7) by simp
  note h = handed_off_inv [OF s1(2-4) this s1(7) [symmetric] refl, of continuation]
  obtain s' where "dispatch_switch A ?old (t_state (th s1 ?old)) 0 (handed_off ?old continuation new s1) = Some s'"
      "switch_inv {} {} s'" "s_current s' = new"
      "\<And>u. runs s1 u \<Longrightarrow> \<not> waits s1 u \<Longrightarrow> (u = ?old \<longrightarrow> live s1 ?old) \<Longrightarrow> runs s' u"
    using dispatch_ok [OF h(1-3) addrs_okD(2) [OF assms(4)]] h(4-8) by auto
  moreover have "runs s' u" if "live s u" for u
  proof (cases "u = new")
    case True
    then show ?thesis using \<open>switch_inv {} {} s'\<close> \<open>s_current s' = new\<close> by (auto simp: switch_inv_def sched_inv_def)
  next
    case False
    then have "t_state (th s1 u) = t_state (th s u)" using s1(8) live_runs [OF that] by simp
    then have "runs s1 u" "\<not> waits s1 u" "live s1 u"
      using that live_runs [OF that] by (simp_all add: runs_def waits_def live_def)
    then show ?thesis using calculation(4) [of u] by auto
  qed
  moreover have "t_state (th (upd_thread ?old (\<lambda>x. x\<lparr>t_swap_func := continuation\<rparr>) (stack_handoff ?old new s1)) ?old) =
      t_state (th s1 ?old)"
    by (simp add: stack_handoff_def Let_def)
  ultimately show ?thesis
    using s1(1) dispatch_extra [of TH_SWAPPED A ?old] by (auto simp: hand_off_def handed_off_def clr_num Let_def)
qed

lemma bit_coming_in: "bit (clr TH_SWAP_STATE w OR TH_SW_COMING_IN) 0 = bit w 0" "bit (clr TH_SWAP_STATE w OR TH_SW_COMING_IN) 2 = bit w 2"
  "bit (clr TH_SWAP_STATE w OR TH_SW_COMING_IN) 9"
  by (simp_all add: bit_clr bit_simps)

lemma miss_ok:
  assumes "switch_inv {new} {} s" "in_transit_thread s new" "swapped (t_state (th s new))" "new \<noteq> s_idle_thread s" "addrs_ok A"
  shows "\<exists>s'. miss A new s = Some (False, s') \<and> switch_inv {} {} s' \<and> s_current s' = s_current s \<and> load s' \<le> load s \<and>
           (\<forall>u. live s u \<longrightarrow> live s' u)"
proof -
  define s1 where "s1 = (upd_state new (\<lambda>w. clr TH_SWAP_STATE w OR TH_SW_COMING_IN) s)\<lparr>s_swapin_queue := s_swapin_queue s @ [new]\<rparr>"
  have ti: "thread_inv {} s u" for u using assms(1) by (simp add: switch_inv_def)
  have nq: "new \<notin> set (s_swapin_queue s)" and nc: "new \<noteq> s_current s"
    using assms(2) by (simp_all add: in_transit_thread_def)
  have b9: "\<not> bit (t_state (th s new)) 9" using ti [of new] nq by (simp add: thread_inv_def)
  have r: "runs s1 u = runs s u" "waits s1 u = waits s u" for u
    by (simp_all add: runs_bit waits_bit s1_def bit_coming_in)
  have "sched_inv {} s1"
    using swapin_inv [OF _ assms(2)] assms(1) unfolding s1_def upd_state_upd
    by (simp add: switch_inv_def bit_coming_in runs_bit waits_bit)
  moreover have "thread_inv {} s1 u" for u
    using ti [of u] assms(3) unfolding thread_inv_def r
    by (cases "u = new") (auto simp: s1_def core_changes bit_coming_in swapped_def)
  moreover have "idle_inv s1"
    using assms(1,4) unfolding switch_inv_def idle_inv_def Let_def r by (simp add: s1_def)
  moreover have "kstack s1 = kstack s" "stack_priv s1 = stack_priv s" by (auto simp: s1_def)
  ultimately have i1: "switch_inv {} {} s1"
    using assms(1) nq nc by (auto simp: switch_inv_def s1_def)
  have "load s1 = load s" by (simp add: s1_def load_def) (simp add: load_def upd_state_def)
  then obtain s' where s': "thread_wakeup (a_swapin_queue A) s1 = Some s'" "switch_inv {} {} s'"
      "s_current s' = s_current s" "load s' \<le> load s" "\<And>u. \<not> waits s1 u \<Longrightarrow> t_state (th s' u) = t_state (th s1 u)"
    using thread_wakeup_inv [OF i1 _ addrs_okD(3) [OF assms(5)]] by (auto simp: wake_frame_def s1_def)
  have "live s1 u = live s u" for u
    by (simp add: live_def Let_def s1_def bit_coming_in) (simp add: bit_clr bit_simps)
  then have "live s' u" if "live s u" for u
    using s'(5) [of u] live_cong [of s' u s1] live_runs [of s1 u] that by auto
  moreover have "t_state (th s new) AND TH_SWAP_STATE = TH_SWAPPED" using b9 assms(3) swap_state_value by blast
  ultimately show ?thesis using s' by (simp add: miss_def thread_swapin_def s1_def Let_def)
qed

lemma stack_alloc_try_eq:
  assumes "stack_alloc_try new s = (True, s1)" "stacks_ok (kstack s) (stack_priv s) (s_stack_free_list s)"
  shows "\<exists>k fl. s1 = s\<lparr>s_thread := (s_thread s)(new := (th s new)\<lparr>t_kernel_stack := Some k\<rparr>), s_stack_free_list := fl\<rparr> \<and>
           stacks_ok ((kstack s)(new := Some k)) (stack_priv s) fl"
proof (cases "s_stack_free_list s")
  case Nil
  then obtain k where "stack_priv s new = Some k" using assms(1) by (auto simp: stack_alloc_try_def split: option.splits)
  then show ?thesis
    using assms stacks_own [OF assms(2), of new k] Nil
    by (intro exI [of _ k] exI [of _ "s_stack_free_list s"]) (auto simp: stack_alloc_try_def stack_attach_def upd_thread_def)
next
  case (Cons k fl)
  then have "stacks_ok ((kstack s)(new := Some k)) (stack_priv s) fl" using assms(2) stacks_pop by simp
  then show ?thesis
    using assms(1) Cons
    by (intro exI [of _ k] exI [of _ fl]) (auto simp: stack_alloc_try_def stack_attach_def upd_thread_def)
qed

lemma stack_alloc_try_inv:
  assumes "switch_inv {new} {} s" "in_transit_thread s new" "stack_alloc_try new s = (True, s1)"
  shows "switch_inv {new} {new} s1" "in_transit_thread s1 new" "kstack s1 new \<noteq> None" "s_current s1 = s_current s"
    "t_state (th s1 u) = t_state (th s u)"
proof -
  have so: "stacks_ok (kstack s) (stack_priv s) (s_stack_free_list s)" using assms(1) by (simp add: switch_inv_def)
  obtain k fl where k: "s1 = s\<lparr>s_thread := (s_thread s)(new := (th s new)\<lparr>t_kernel_stack := Some k\<rparr>), s_stack_free_list := fl\<rparr>"
      "stacks_ok ((kstack s)(new := Some k)) (stack_priv s) fl"
    using stack_alloc_try_eq [OF assms(3) so] by blast
  note n = neutral_all [OF k(1)]
  have r: "runs s1 u = runs s u" "waits s1 u = waits s u" for u
    by (rule n; simp add: runs_bit waits_bit)+
  have si: "sched_inv {new} s1 = sched_inv {new} s" by (rule n; simp add: runs_bit waits_bit)
  have ti: "thread_inv {} s u" for u using assms(1) by (simp add: switch_inv_def)
  have th: "t_state (th s1 u) = t_state (th s u)" "t_wait_event (th s1 u) = t_wait_event (th s u)"
      "t_runq (th s1 u) = t_runq (th s u)" "stack_priv s1 u = stack_priv s u" for u by (simp_all add: k(1))
  have f: "s_idle_thread s1 = s_idle_thread s" "s_swapin_queue s1 = s_swapin_queue s"
      "s_next_thread s1 = s_next_thread s" "s_stack_free_list s1 = fl" by (simp_all add: k(1))
  show c: "s_current s1 = s_current s" "kstack s1 new \<noteq> None" "t_state (th s1 u) = t_state (th s u)" by (simp_all add: k(1))
  show "in_transit_thread s1 new" using assms(2) unfolding in_transit_thread_def r by (simp add: th f c)
  have "thread_inv {new} s1 u" for u
    using ti [of u] unfolding thread_inv_def r th f by (cases "u = new") (simp_all add: k(1))
  moreover have "idle_inv s1" using assms(1) unfolding switch_inv_def idle_inv_def Let_def r th f by simp
  moreover have "kstack s1 = (kstack s)(new := Some k)" "stack_priv s1 = stack_priv s" by (auto simp: k(1))
  ultimately show "switch_inv {new} {new} s1" using assms(1) si k(2) f c th unfolding switch_inv_def by auto
qed

lemma stack_alloc_try_fails:
  assumes "stack_alloc_try t s = (False, s1)"
  shows "s1 = s" "stack_priv s t = None"
  using assms by (auto simp: stack_alloc_try_def split: list.splits option.splits)

lemma and_swap_bits: "w AND TH_SWAPPED = 0 \<longleftrightarrow> \<not> bit w 8" "w AND TH_SW_COMING_IN = 0 \<longleftrightarrow> \<not> bit w 9"
  for w :: "32 word"
  using and_exp_eq_0_iff_not_bit [of w 8] and_exp_eq_0_iff_not_bit [of w 9] by simp_all

lemma thread_invoke_ok:
  assumes "switch_inv {new} {} s" "in_transit_thread s new" "addrs_ok A"
  shows "\<exists>ok s'. thread_invoke A (s_current s) continuation new s = Some (ok, s') \<and> switch_inv {} {} s' \<and>
           (if ok then s_current s' = new \<and> (\<forall>u. live s u \<longrightarrow> runs s' u)
            else new \<noteq> s_idle_thread s \<and> s_current s' = s_current s \<and> load s' \<le> load s \<and> (\<forall>u. live s u \<longrightarrow> live s' u))"
proof -
  have nc: "s_current s \<noteq> new" and nq: "new \<notin> set (s_swapin_queue s)" and rn: "runs s new"
    using assms(2) by (auto simp: in_transit_thread_def)
  have ti: "thread_inv {} s new" using assms(1) by (simp add: switch_inv_def)
  then have b9: "\<not> bit (t_state (th s new)) 9" using nq by (simp add: thread_inv_def)
  have mono: "switch_inv {new} {new} s" using switch_inv_mono [OF assms(1)] by simp
  show ?thesis
  proof (cases "swapped (t_state (th s new))")
    case False
    then obtain s' where "run_new A (s_current s) continuation new s = Some (True, s')" "switch_inv {} {} s'" "s_current s' = new"
        "\<forall>u. live s u \<longrightarrow> runs s' u"
      using run_new_ok [OF mono assms(2) _ assms(3)] has_stack [OF assms(1) rn] by auto
    moreover have "t_state (th s new) AND TH_SWAP_STATE = 0" "t_state (th s new) AND TH_SWAPPED = 0"
      using False by (simp_all add: bit_swap_state and_swap_bits swapped_def)
    ultimately show ?thesis using nc by (auto simp: thread_invoke_def)
  next
    case True
    then have sw: "t_state (th s new) AND TH_SWAP_STATE = TH_SWAPPED" "t_state (th s new) AND TH_SWAPPED \<noteq> 0"
        "t_state (th s new) AND TH_SW_COMING_IN = 0"
      using b9 swap_state_value by (auto simp: and_swap_bits swapped_def)
    show ?thesis
    proof (cases "stack_priv s (s_current s) \<noteq> kstack s (s_current s) \<and> continuation \<noteq> None")
      case h: True
      obtain s' where "hand_off A (s_current s) continuation new s = Some (True, s')" "switch_inv {} {} s'" "s_current s' = new"
          "\<forall>u. live s u \<longrightarrow> runs s' u"
        using hand_off_ok [OF assms(1,2) _ assms(3)] h by blast
      then show ?thesis
        using nc sw h by (intro exI [of _ True] exI [of _ s']) (simp add: thread_invoke_def Let_def)
    next
      case h: False
      obtain ok s1 where t: "stack_alloc_try new s = (ok, s1)" by fastforce
      have e: "thread_invoke A (s_current s) continuation new s =
          (if ok then run_new A (s_current s) continuation new s1 else miss A new s1)"
        using nc h sw t by (auto simp: thread_invoke_def)
      show ?thesis
      proof (cases ok)
        case True
        then have t1: "stack_alloc_try new s = (True, s1)" using t by simp
        note a = stack_alloc_try_inv [OF assms(1,2) t1]
        obtain s' where "run_new A (s_current s) continuation new s1 = Some (True, s')" "switch_inv {} {} s'" "s_current s' = new"
            "\<forall>u. live s1 u \<longrightarrow> runs s' u"
          using run_new_ok [OF a(1-3) assms(3)] a(4) by auto
        then show ?thesis using True e a(5) by (intro exI [of _ True] exI [of _ s']) (simp add: live_def)
      next
        case False
        then have "s1 = s" "stack_priv s new = None" using stack_alloc_try_fails t by auto
        moreover from this have "new \<noteq> s_idle_thread s" using assms(1) by (auto simp: switch_inv_def idle_inv_def Let_def)
        ultimately show ?thesis using miss_ok [OF assms(1,2) True _ assms(3)] False e by auto
      qed
    qed
  qed
qed

subsection \<open>Blocking\<close>

text \<open>What choosing a thread leaves alone.\<close>

definition select_frame :: "sched \<Rightarrow> sched \<Rightarrow> bool" where
  "select_frame s s' \<longleftrightarrow>
     (\<forall>u. same_thread (th s u) (th s' u) \<and> kstack s' u = kstack s u \<and> stack_priv s' u = stack_priv s u \<and>
          (t_runq (th s u) = None \<longrightarrow> t_runq (th s' u) = None)) \<and>
     s_current s' = s_current s \<and> s_idle_thread s' = s_idle_thread s \<and> s_swapin_queue s' = s_swapin_queue s \<and>
     s_stack_free_list s' = s_stack_free_list s \<and> s_next_thread s' = s_next_thread s"

lemma select_frame_trans: "select_frame s s1 \<Longrightarrow> select_frame s1 s2 \<Longrightarrow> select_frame s s2"
  by (simp add: select_frame_def same_thread_def)

lemma select_frame_steps:
  "take_from r i s = (t, s') \<Longrightarrow> select_frame s s'" "settle_low i s = Some s' \<Longrightarrow> select_frame s s'"
  "select_frame s (upd_runq r g s)" "select_frame s (set_idle s)" "select_frame s (s\<lparr>s_quantum := n\<rparr>)"
  "select_frame s (s\<lparr>s_first_quantum := b\<rparr>)" "update_stamp t s = Some s' \<Longrightarrow> select_frame s s'"
proof -
  show "select_frame s s'" if "take_from r i s = (t, s')"
    using that by (auto simp: take_from_def Let_def select_frame_def same_thread_def) (simp add: upd_thread_def upd_runq_def)
  show u: "select_frame s (upd_runq r g s)" for r g by (simp add: select_frame_def same_thread_def) (simp add: upd_runq_def)
  show "select_frame s s'" if "settle_low i s = Some s'"
    using that u by (auto simp: settle_low_def Let_def split: if_splits)
  show "select_frame s (set_idle s)" "select_frame s (s\<lparr>s_quantum := n\<rparr>)" "select_frame s (s\<lparr>s_first_quantum := b\<rparr>)"
    by (simp_all add: set_idle_def select_frame_def same_thread_def)
  show "select_frame s s'" if "update_stamp t s = Some s'"
    using update_stamp_frame [OF that] update_stamp_stack [OF that] by (simp add: select_frame_def)
qed

lemma choose_pset_frame:
  assumes "choose_pset_thread s = Some (t, s')"
  shows "select_frame s s'"
proof (cases "rq_count (s_runq s Pset_runq) > 0")
  case True
  then obtain i s1 where "take_from Pset_runq i s = (t, s1)" "settle_low i s1 = Some s'"
    using assms by (auto simp: choose_pset_thread_def Let_def split: prod.splits Option.bind_splits)
  then show ?thesis by (rule select_frame_trans [OF select_frame_steps(1) select_frame_steps(2)])
next
  case False
  then show ?thesis using assms select_frame_steps(4) by (auto simp: choose_pset_thread_def Let_def)
qed

lemma choose_thread_frame:
  assumes "choose_thread s = Some (t, s')" "rq_count (s_runq s Master_runq) > 0"
  shows "select_frame s s'"
proof -
  obtain i s1 where "take_from Master_runq i s = (t, s1)" "s' = upd_runq Master_runq (\<lambda>rq. rq\<lparr>rq_low := i\<rparr>) s1"
    using assms by (auto simp: choose_thread_def Let_def split: prod.splits Option.bind_splits)
  then show ?thesis using select_frame_trans [OF select_frame_steps(1) select_frame_steps(3)] by simp
qed

lemma select_pset_frame:
  assumes "select_pset s = Some (t, s')"
  shows "select_frame s s'"
proof -
  consider "update_stamp (s_current s) s = Some s'" | "choose_pset_thread s = Some (t, s')"
    | "choose_pset_thread (upd_runq Pset_runq (\<lambda>rq. rq\<lparr>rq_low := rq_low rq + 1\<rparr>) s) = Some (t, s')"
    | s1 i where "take_from Pset_runq i s = (t, s1)" "s' = s1 \<or> settle_low i s1 = Some s'"
    using assms by (auto simp: select_pset_def Let_def split: prod.splits if_splits)
  then show ?thesis
  proof cases
    case 3
    then show ?thesis by (rule select_frame_trans [OF select_frame_steps(3) choose_pset_frame])
  next
    case 4
    then show ?thesis using select_frame_steps(1) [OF 4(1)] select_frame_trans select_frame_steps(2) by blast
  qed (auto intro: select_frame_steps choose_pset_frame)
qed

lemma thread_select_frame:
  assumes "thread_select s = Some (t, s')"
  shows "select_frame s s'"
proof -
  define s0 where "s0 = s\<lparr>s_first_quantum := True\<rparr>"
  have 0: "select_frame s s0" by (simp add: s0_def select_frame_steps)
  have "\<exists>s1 n. select_frame s0 s1 \<and> s' = s1\<lparr>s_quantum := n\<rparr>"
  proof (cases "rq_count (s_runq s0 Master_runq) > 0")
    case True
    then obtain s1 where "choose_thread s0 = Some (t, s1)" "s' = s1\<lparr>s_quantum := s_min_quantum s1\<rparr>"
      using assms by (auto simp: thread_select_def s0_def split: Option.bind_splits)
    then show ?thesis using choose_thread_frame True by blast
  next
    case False
    then obtain s1 where "select_pset s0 = Some (t, s1)" "s' = set_select_quantum t s1"
      using assms by (auto simp: thread_select_def s0_def split: Option.bind_splits)
    then show ?thesis using select_pset_frame unfolding set_select_quantum_def by blast
  qed
  then show ?thesis using 0 select_frame_steps(5) select_frame_trans by blast
qed

lemma load_frame [simp]:
  "load (s\<lparr>s_quantum := n\<rparr>) = load s" "load (s\<lparr>s_first_quantum := b\<rparr>) = load s" "load (s\<lparr>s_ast_block := b\<rparr>) = load s"
  "load (upd_runq r (\<lambda>rq. rq\<lparr>rq_low := h rq\<rparr>) s) = load s"
  by (simp_all add: load_def)

lemma take_from_load:
  assumes "take_from r i s = (t, s')" "rq_count (s_runq s r) > 0"
  shows "load s' < load s"
  using assms by (cases r) (auto simp: take_from_def Let_def load_def)

lemma settle_low_load: "settle_low i s = Some s' \<Longrightarrow> load s' = load s"
  by (auto simp: settle_low_def Let_def split: if_splits)

lemma choose_pset_load:
  assumes "choose_pset_thread s = Some (t, s')" "rq_count (s_runq s Pset_runq) > 0"
  shows "load s' < load s"
proof -
  obtain i s1 where "take_from Pset_runq i s = (t, s1)" "settle_low i s1 = Some s'"
    using assms by (auto simp: choose_pset_thread_def Let_def split: prod.splits Option.bind_splits)
  then show ?thesis using take_from_load [OF _ assms(2)] settle_low_load by fastforce
qed

lemma select_pset_load:
  assumes "select_pset s = Some (t, s')" "rq_count (s_runq s Pset_runq) > 0"
  shows "load s' < load s"
proof -
  consider "choose_pset_thread (upd_runq Pset_runq (\<lambda>rq. rq\<lparr>rq_low := rq_low rq + 1\<rparr>) s) = Some (t, s')"
    | s1 i where "take_from Pset_runq i s = (t, s1)" "s' = s1 \<or> settle_low i s1 = Some s'"
    using assms by (auto simp: select_pset_def Let_def split: prod.splits if_splits)
  then show ?thesis
  proof cases
    case 1
    show ?thesis using choose_pset_load [OF 1] assms(2) by simp
  next
    case 2
    then show ?thesis using take_from_load [OF 2(1) assms(2)] settle_low_load by auto
  qed
qed

lemma thread_select_load:
  assumes "thread_select s = Some (t, s')" "rq_count (s_runq s Master_runq) > 0 \<or> rq_count (s_runq s Pset_runq) > 0"
  shows "load s' < load s"
proof -
  define s0 where "s0 = s\<lparr>s_first_quantum := True\<rparr>"
  have l0: "load s0 = load s" by (simp add: s0_def)
  show ?thesis
  proof (cases "rq_count (s_runq s0 Master_runq) > 0")
    case True
    then obtain i s1 where "take_from Master_runq i s0 = (t, s1)" "load s' = load s1"
      using assms(1) by (auto simp: thread_select_def choose_thread_def Let_def s0_def split: prod.splits Option.bind_splits)
    then show ?thesis using take_from_load [OF _ True] l0 by auto
  next
    case False
    then obtain s1 where "select_pset s0 = Some (t, s1)" "load s' = load s1"
      using assms(1) by (auto simp: thread_select_def set_select_quantum_def s0_def split: Option.bind_splits)
    moreover have "rq_count (s_runq s0 Pset_runq) > 0" using False assms(2) by (simp add: s0_def)
    ultimately show ?thesis using select_pset_load l0 by fastforce
  qed
qed

lemma select_frame_inv:
  assumes "select_frame s s'" "switch_inv {} {} s" "sched_inv X s'"
  shows "switch_inv X {} s'"
proof -
  have st: "t_state (th s' u) = t_state (th s u)" "t_wait_event (th s' u) = t_wait_event (th s u)" "kstack s' u = kstack s u"
      "stack_priv s' u = stack_priv s u" "t_runq (th s u) = None \<longrightarrow> t_runq (th s' u) = None" for u
    using assms(1) by (simp_all add: select_frame_def same_thread_def)
  have f: "s_current s' = s_current s" "s_idle_thread s' = s_idle_thread s" "s_swapin_queue s' = s_swapin_queue s"
      "s_stack_free_list s' = s_stack_free_list s" "s_next_thread s' = s_next_thread s"
    using assms(1) by (simp_all add: select_frame_def)
  have r: "runs s' u = runs s u" "waits s' u = waits s u" for u by (simp_all add: runs_def waits_def st)
  have "thread_inv {} s' u = thread_inv {} s u" for u unfolding thread_inv_def r st f by simp
  moreover have "idle_inv s'"
    using assms(2) st(5) unfolding switch_inv_def idle_inv_def Let_def r st f by simp
  moreover have "kstack s' = kstack s" "stack_priv s' = stack_priv s" using st by auto
  ultimately show ?thesis using assms(2,3) f st by (simp add: switch_inv_def)
qed

lemma idle_transit:
  assumes "switch_inv {} {} s" "s_idle_thread s \<noteq> s_current s"
  shows "in_transit_thread s (s_idle_thread s)"
proof -
  have i: "idle_inv s" "thread_inv {} s (s_idle_thread s)" using assms(1) by (simp_all add: switch_inv_def)
  have "\<not> bit (core (t_state (th s (s_idle_thread s)))) 0" using i(1) by (simp add: idle_inv_def Let_def)
  then have "\<not> waits s (s_idle_thread s)" by (simp add: bit_core waits_bit)
  then show ?thesis using i assms(2) by (simp add: idle_inv_def Let_def thread_inv_def in_transit_thread_def)
qed

text \<open>The outcome of a choice: the current thread goes on, or there is a thread in transit.\<close>

lemma thread_select_switch:
  assumes "switch_inv {} {} s"
  shows "\<exists>t s'. thread_select s = Some (t, s') \<and> s_current s' = s_current s \<and> s_idle_thread s' = s_idle_thread s \<and>
           (t = s_current s \<and> switch_inv {} {} s' \<or>
            switch_inv {t} {} s' \<and> in_transit_thread s' t \<and> (t = s_idle_thread s \<or> load s' < load s))"
proof -
  have i: "sched_inv {} s" using assms by (simp add: switch_inv_def)
  obtain t s' where t: "thread_select s = Some (t, s')" "selected s t s'" using select_total [OF i] by blast
  have fr: "select_frame s s'" using thread_select_frame [OF t(1)] .
  then have f: "s_current s' = s_current s" "s_idle_thread s' = s_idle_thread s" by (simp_all add: select_frame_def)
  consider r where "took s r t s'" "\<exists>u. t_runq (th s u) = Some r"
    | "sched_inv {} s'" "t = s_current s \<or> t = s_idle_thread s"
    using t(2) by (auto simp: selected_def split: if_splits)
  then show ?thesis
  proof cases
    case 1
    then have "rq_count (s_runq s r) > 0" using runq_nonempty [OF i] by simp
    then have "load s' < load s" using thread_select_load [OF t(1)] by (cases r) auto
    moreover have "switch_inv {t} {} s'" "in_transit_thread s' t"
      using 1(1) select_frame_inv [OF fr assms] by (simp_all add: took_def)
    ultimately show ?thesis using t(1) f by blast
  next
    case 2
    have w: "switch_inv {} {} s'" using select_frame_inv [OF fr assms 2(1)] .
    show ?thesis
    proof (cases "t = s_current s")
      case False
      then have "in_transit_thread s' t" using idle_transit [OF w] 2(2) f by simp
      moreover have "switch_inv {t} {} s'" using w by (auto simp: switch_inv_def sched_inv_def)
      ultimately show ?thesis using t(1) f 2(2) False by auto
    qed (use t(1) f w in auto)
  qed
qed

lemma invoke_same:
  assumes "switch_inv {} {} s" "addrs_ok A"
  shows "\<exists>s'. thread_invoke A (s_current s) continuation (s_current s) s = Some (True, s') \<and> switch_inv {} {} s' \<and>
           (\<forall>u. live s u \<longrightarrow> runs s' u)"
proof -
  let ?c = "s_current s"
  let ?s = "upd_state ?c (clr TH_UNINT) s"
  have "\<not> swapped (t_state (th s ?c))" using assms(1) by (simp add: switch_inv_def)
  then have i: "switch_inv {} {} ?s"
    unfolding upd_state_upd using assms(1)
    by (intro state_change_switch_inv) (simp_all only: bit_mark runs_bit waits_bit core_changes swapped_def simp_thms)
  obtain s' where s': "thread_wakeup (TH_EV_STATE A ?c) ?s = Some s'" "switch_inv {} {} s'"
      "\<And>u. \<not> waits ?s u \<Longrightarrow> t_state (th s' u) = t_state (th ?s u)"
    using thread_wakeup_inv [OF i _ addrs_okD(1) [OF assms(2)]] by auto
  have "runs s' u" if "live s u" for u
  proof -
    have "waits ?s u = waits s u" "runs ?s u = runs s u" by (simp_all add: waits_bit runs_bit bit_clr)
    then show ?thesis using s'(3) [of u] live_runs [OF that] by (simp add: runs_def)
  qed
  then show ?thesis using s' by (auto simp: thread_invoke_def)
qed

lemma block_loop_ok:
  assumes "switch_inv {} {} s" "addrs_ok A" "load s < n"
  shows "\<exists>s'. block_loop n A continuation s = Some s' \<and> switch_inv {} {} s' \<and> (\<forall>u. live s u \<longrightarrow> runs s' u)"
  using assms(1,3)
proof (induction n arbitrary: s)
  case 0
  then show ?case by simp
next
  case (Suc n)
  obtain t s1 where t: "thread_select s = Some (t, s1)" "s_current s1 = s_current s" "s_idle_thread s1 = s_idle_thread s"
      "t = s_current s \<and> switch_inv {} {} s1 \<or>
       switch_inv {t} {} s1 \<and> in_transit_thread s1 t \<and> (t = s_idle_thread s \<or> load s1 < load s)"
    using thread_select_switch [OF Suc.prems(1)] by blast
  have lv: "live s1 u = live s u" for u
    using thread_select_frame [OF t(1)] by (simp add: select_frame_def same_thread_def live_def)
  from t(4) show ?case
  proof
    assume c: "t = s_current s \<and> switch_inv {} {} s1"
    then obtain s' where "thread_invoke A (s_current s1) continuation t s1 = Some (True, s')" "switch_inv {} {} s'"
        "\<forall>u. live s1 u \<longrightarrow> runs s' u"
      using invoke_same [OF _ assms(2), of s1 continuation] t(2) by auto
    then show ?thesis using t(1) lv by auto
  next
    assume c: "switch_inv {t} {} s1 \<and> in_transit_thread s1 t \<and> (t = s_idle_thread s \<or> load s1 < load s)"
    then obtain ok s2 where s2: "thread_invoke A (s_current s1) continuation t s1 = Some (ok, s2)" "switch_inv {} {} s2"
        "if ok then s_current s2 = t \<and> (\<forall>u. live s1 u \<longrightarrow> runs s2 u)
         else t \<noteq> s_idle_thread s1 \<and> s_current s2 = s_current s1 \<and> load s2 \<le> load s1 \<and> (\<forall>u. live s1 u \<longrightarrow> live s2 u)"
      using thread_invoke_ok [OF _ _ assms(2)] by blast
    show ?thesis
    proof (cases ok)
      case True
      then show ?thesis using t(1) s2 lv by auto
    next
      case False
      then have "load s2 < n" using s2(3) c t(3) Suc.prems(2) by auto
      then obtain s' where "block_loop n A continuation s2 = Some s'" "switch_inv {} {} s'" "\<forall>u. live s2 u \<longrightarrow> runs s' u"
        using Suc.IH [OF s2(2)] by blast
      then show ?thesis using t(1) s2 False lv by auto
    qed
  qed
qed

lemma switch_inv_ast [simp]: "switch_inv X Y (s\<lparr>s_ast_block := b\<rparr>) = switch_inv X Y s"
  by (simp add: switch_inv_def thread_inv_def idle_inv_def runs_def waits_def)

text \<open>
  C6: a thread can always give up the processor.  Let the queues, the states and the kernel
  stacks of the threads agree (switch_inv), and let no event address be zero.  Then
  thread_block returns after at most as many attempts as there are threads in the wait and run
  queues, and one more: the loop that looks for a thread to which the processor can be given
  ends, although threads without a kernel stack have to be put off.  Afterwards queues, states
  and stacks agree again; the thread that has the processor runs on a kernel stack, no two
  threads have the same kernel stack, none is in use and free, and every thread that ran and
  was not asked to wait or to stop is still able to run and is current, on a run queue, handed
  to the processor, or waiting for a stack.
\<close>

theorem thread_block_correct:
  assumes "switch_inv {} {} s" "addrs_ok A" "load s < n"
  shows "\<exists>s'. thread_block n A continuation s = Some s' \<and> switch_inv {} {} s' \<and>
           runs s' (s_current s') \<and> kstack s' (s_current s') \<noteq> None \<and>
           (\<forall>t u. t \<noteq> u \<and> kstack s' t = kstack s' u \<longrightarrow> kstack s' t = None) \<and>
           (\<forall>t k. kstack s' t = Some k \<longrightarrow> k \<notin> set (s_stack_free_list s')) \<and>
           (\<forall>t. live s t \<longrightarrow> runs s' t \<and> placed s' t)"
proof -
  obtain s' where s': "thread_block n A continuation s = Some s'" "switch_inv {} {} s'" "\<And>u. live s u \<Longrightarrow> runs s' u"
    using block_loop_ok [of "s\<lparr>s_ast_block := False\<rparr>" A n continuation] assms
    by (auto simp: thread_block_def live_def)
  have r: "runs s' (s_current s')" and p: "runs s' u \<longrightarrow> placed s' u" for u
    using s'(2) by (auto simp: switch_inv_def sched_inv_def)
  have so: "stacks_ok (kstack s') (stack_priv s') (s_stack_free_list s')" "\<not> swapped (t_state (th s' (s_current s')))"
    using s'(2) by (simp_all add: switch_inv_def)
  have "kstack s' (s_current s') \<noteq> None" using has_stack [OF s'(2) r so(2)] by auto
  moreover have "kstack s' t = None" if "t \<noteq> u" "kstack s' t = kstack s' u" for t u
    using so(1) that unfolding stacks_ok_def by (metis option.exhaust)
  moreover have "k \<notin> set (s_stack_free_list s')" if "kstack s' t = Some k" for t k
    using so(1) that unfolding stacks_ok_def by blast
  ultimately show ?thesis using s' r p by blast
qed

definition example_addrs :: addrs where
  "example_addrs = \<lparr>a_event_key = (\<lambda>t. 1000 + 100 * int t), a_swapin_queue = 500\<rparr>"

lemma example_sched_sel:
  "t_state (th example_sched t) =
     (if t = 0 then 0x004 else if t = 1 then 0x101 else if t = 2 then 0x104 else if t = 3 then 0x184 else 0)"
  "kstack example_sched t = (if t = 0 then Some 100 else None)"
  "stack_priv example_sched t = (if t = 3 then Some 103 else None)"
  "t_wait_event (th example_sched 3) = 0" "t_runq (th example_sched 3) = None"
  "s_current example_sched = 0" "s_idle_thread example_sched = 3" "s_swapin_queue example_sched = []"
  "s_stack_free_list example_sched = []" "s_next_thread example_sched = None"
  by (simp_all add: example_sched_def run_queue_enqueue_def Let_def upd_thread_def upd_runq_def)
    (simp_all add: example_base_def new_thread_def)

lemma example_switch_inv: "switch_inv {} {} example_sched"
proof -
  have "thread_inv {} example_sched t" for t
    by (auto simp: thread_inv_def runs_bit waits_bit example_sched_sel core_def clr_num legal_state_def swapped_def)
  moreover have "idle_inv example_sched"
    by (simp add: idle_inv_def runs_bit example_sched_sel core_def clr_num)
  moreover have "stacks_ok (kstack example_sched) (stack_priv example_sched) []"
    by (auto simp: stacks_ok_def example_sched_sel split: if_splits)
  ultimately show ?thesis
    using example_sched_inv by (simp add: switch_inv_def example_sched_sel swapped_def)
qed

theorem thread_block_witness:
  "\<exists>s'. thread_block (load example_sched + 1) example_addrs (Some 7) example_sched = Some s' \<and>
     kstack s' (s_current s') \<noteq> None \<and> runs s' 0 \<and> placed s' 0"
proof -
  have "addrs_ok example_addrs" by (simp add: addrs_ok_def example_addrs_def)
  moreover have "live example_sched 0"
    by (simp add: live_def example_sched_sel)
  ultimately show ?thesis
    using thread_block_correct [OF example_switch_inv, of example_addrs "load example_sched + 1" "Some 7"] by auto
qed

end
