(* ===== verification/Vm_Map.thy ===== *)
theory Vm_Map
  imports Mach_Prelude
begin

text \<open>
  Address maps: \<^verbatim>\<open>vm/vm_map.c\<close> and \<^verbatim>\<open>vm/vm_map.h\<close>, for 64-bit addresses.

  A map is a list of entries in the order of their addresses.  An entry is named by a number
  (its address in the kernel); \<open>None\<close> as an entry is the header of the map, which the C code
  uses as the end of the circular list.  The list stands for the doubly linked list and for
  the red-black tree, which have the same entries in the same order.  An entry that is not in
  the list any more has been freed: reading it is \<open>None\<close>, the kernel using memory that is not
  its own.

  The gap tree has, for each size of a hole after an entry, the entries with such a hole, the
  one that is the node of the tree first; it is a list sorted by the size.

  Addresses and sizes are numbers below \<open>2 ^ 64\<close>; sums and differences that can wrap are
  \<open>uadd\<close> and \<open>usub\<close>.  The locks are left out: an operation has the map for itself, except that
  it may wait with the map unlocked, and then goes on with a map of its script \<open>ws\<close>.
  Physical maps and the pages of objects are not part of the state; of the objects there are
  the fields that \<^verbatim>\<open>vm_object_coalesce\<close> tests.
\<close>

abbreviation (input) ADDRS :: nat where "ADDRS \<equiv> 2 ^ 64"
abbreviation (input) PAGE_SIZE :: nat where "PAGE_SIZE \<equiv> 4096"

definition uadd :: "nat \<Rightarrow> nat \<Rightarrow> nat" where
  "uadd a b = (a + b) mod ADDRS"

definition usub :: "nat \<Rightarrow> nat \<Rightarrow> nat" where
  "usub a b = (a + (ADDRS - b mod ADDRS)) mod ADDRS"

text \<open>\<^verbatim>\<open>(a + mask) & ~mask\<close>\<close>

definition align_up :: "nat \<Rightarrow> nat \<Rightarrow> nat" where
  "align_up msk a = (let b = uadd a msk in b - and b msk)"

subsection \<open>Entries and maps\<close>

record vm_map_entry =
  vme_start :: nat
  vme_end :: nat
  gap_size :: nat
  vme_object :: "nat option"
  vme_offset :: nat
  is_shared :: bool
  is_sub_map :: bool
  in_transition :: bool
  needs_wakeup :: bool
  needs_copy :: bool
  protection :: nat
  max_protection :: nat
  inheritance :: nat
  wired_count :: nat
  wired_access :: nat
  projected_on :: nat

text \<open>Of an object, what decides whether it can take in the range of a neighbour.\<close>

record vm_object =
  o_size :: nat
  o_ref_count :: int
  o_copy :: "nat option"
  o_shadow :: "nat option"
  paging_in_progress :: nat
  used_for_pageout :: bool
  pager_created :: bool

record vm_map =
  m_list :: "nat list"
  m_ent :: "nat \<Rightarrow> vm_map_entry"
  m_fresh :: nat
  m_objects :: "nat \<Rightarrow> vm_object"
  gap_tree :: "(nat \<times> nat list) list"
  min_offset :: nat
  max_offset :: nat
  m_size :: nat
  size_wired :: nat
  m_hint :: "nat option"
  first_free :: "nat option"
  wait_for_space :: bool
  wiring_required :: bool
  aslr_enabled :: bool
  prefer_high_addr :: bool
  aslr_entropy_bits :: nat

text \<open>What the map code takes from elsewhere: the entropy of one placement, the collapse of
  an object with its shadows, the wiring of pages, whether the map is the kernel's, and whether
  the kernel entry of a projected buffer is persistent.\<close>

record vm_env =
  ve_entropy :: nat
  ve_collapse :: "nat \<Rightarrow> (nat \<Rightarrow> vm_object) \<Rightarrow> (nat \<Rightarrow> vm_object)"
  ve_pageable :: "nat \<Rightarrow> nat \<Rightarrow> nat \<Rightarrow> vm_map \<Rightarrow> vm_map"
  ve_pageable_scan :: "nat option \<Rightarrow> nat \<Rightarrow> vm_map \<Rightarrow> vm_map option"
  ve_kernel_map :: bool
  ve_kernel_pmap :: bool
  ve_kernel_start :: nat
  ve_kernel_end :: nat
  ve_persistent :: "nat \<Rightarrow> bool"

abbreviation (input) VM_INHERIT_DEFAULT :: nat where "VM_INHERIT_DEFAULT \<equiv> 1"
abbreviation (input) VM_PROT_NONE :: nat where "VM_PROT_NONE \<equiv> 0"
abbreviation (input) VM_PROT_DEFAULT :: nat where "VM_PROT_DEFAULT \<equiv> 3"
abbreviation (input) VM_PROT_ALL :: nat where "VM_PROT_ALL \<equiv> 7"
abbreviation (input) VM_MAP_ASLR_DEFAULT_ENTROPY_BITS :: nat where "VM_MAP_ASLR_DEFAULT_ENTROPY_BITS \<equiv> 8"
abbreviation (input) VM_MAP_ASLR_MAX_ENTROPY_BITS :: nat where "VM_MAP_ASLR_MAX_ENTROPY_BITS \<equiv> 16"
abbreviation (input) VM_MAP_ASLR_MIN_ENTROPY_BITS :: nat where "VM_MAP_ASLR_MIN_ENTROPY_BITS \<equiv> 4"
abbreviation (input) VM_MAP_LARGE_PAGE_SIZE :: nat where "VM_MAP_LARGE_PAGE_SIZE \<equiv> 2 * 1024 * 1024"
abbreviation (input) VM_MAP_PREFER_HIGH_THRESHOLD :: nat where "VM_MAP_PREFER_HIGH_THRESHOLD \<equiv> 128 * 1024 * 1024"

definition vm_map_setup :: "nat \<Rightarrow> nat \<Rightarrow> vm_map_entry \<Rightarrow> (nat \<Rightarrow> vm_object) \<Rightarrow> vm_map" where
  "vm_map_setup mn mx none objs =
     \<lparr>m_list = [], m_ent = (\<lambda>_. none), m_fresh = 0, m_objects = objs, gap_tree = [],
      min_offset = mn, max_offset = mx, m_size = 0,
      size_wired = 0, m_hint = None, first_free = None, wait_for_space = False, wiring_required = False,
      aslr_enabled = True, prefer_high_addr = False, aslr_entropy_bits = VM_MAP_ASLR_DEFAULT_ENTROPY_BITS\<rparr>"

text \<open>The neighbours of an entry; \<open>None\<close> if it is not linked.\<close>

fun next_in :: "nat list \<Rightarrow> nat \<Rightarrow> nat option option" where
  "next_in [] e = None"
| "next_in (x # xs) e = (if x = e then Some (case xs of [] \<Rightarrow> None | y # _ \<Rightarrow> Some y) else next_in xs e)"

definition vme_next :: "vm_map \<Rightarrow> nat option \<Rightarrow> nat option option" where
  "vme_next m p = (case p of None \<Rightarrow> Some (case m_list m of [] \<Rightarrow> None | e # _ \<Rightarrow> Some e) | Some e \<Rightarrow> next_in (m_list m) e)"

definition vme_prev :: "vm_map \<Rightarrow> nat option \<Rightarrow> nat option option" where
  "vme_prev m p =
     (case p of None \<Rightarrow> Some (case rev (m_list m) of [] \<Rightarrow> None | e # _ \<Rightarrow> Some e) | Some e \<Rightarrow> next_in (rev (m_list m)) e)"

definition entry_at :: "vm_map \<Rightarrow> nat \<Rightarrow> vm_map_entry option" where
  "entry_at m e = (if e \<in> set (m_list m) then Some (m_ent m e) else None)"

definition upd_entry :: "nat \<Rightarrow> (vm_map_entry \<Rightarrow> vm_map_entry) \<Rightarrow> vm_map \<Rightarrow> vm_map" where
  "upd_entry e f m = m\<lparr>m_ent := (m_ent m)(e := f (m_ent m e))\<rparr>"

definition SAVE_HINT :: "nat option \<Rightarrow> vm_map \<Rightarrow> vm_map" where
  "SAVE_HINT p m = m\<lparr>m_hint := p\<rparr>"

subsection \<open>Gaps\<close>

fun gap_add :: "nat \<Rightarrow> nat \<Rightarrow> (nat \<times> nat list) list \<Rightarrow> (nat \<times> nat list) list" where
  "gap_add s e [] = [(s, [e])]"
| "gap_add s e ((t, es) # g) =
     (if s = t then (t, es @ [e]) # g else if s < t then (s, [e]) # (t, es) # g else (t, es) # gap_add s e g)"

fun gap_del :: "nat \<Rightarrow> nat \<Rightarrow> (nat \<times> nat list) list \<Rightarrow> (nat \<times> nat list) list" where
  "gap_del s e [] = []"
| "gap_del s e ((t, es) # g) =
     (if s = t then (if remove1 e es = [] then g else (t, remove1 e es) # g) else (t, es) # gap_del s e g)"

fun gap_nearest :: "nat \<Rightarrow> (nat \<times> nat list) list \<Rightarrow> nat list option" where
  "gap_nearest s [] = None"
| "gap_nearest s ((t, es) # g) = (if s \<le> t then Some es else gap_nearest s g)"

definition vm_map_gap_compute :: "nat \<Rightarrow> vm_map \<Rightarrow> vm_map option" where
  "vm_map_gap_compute e m = do {
     nx \<leftarrow> vme_next m (Some e);
     let lim = (case nx of Some n \<Rightarrow> vme_start (m_ent m n) | None \<Rightarrow> max_offset m);
     Some (upd_entry e (\<lambda>x. x\<lparr>gap_size := usub lim (vme_end x)\<rparr>) m) }"

definition vm_map_gap_insert_single :: "nat option \<Rightarrow> vm_map \<Rightarrow> vm_map option" where
  "vm_map_gap_insert_single p m =
     (case p of
        None \<Rightarrow> Some m
      | Some e \<Rightarrow> do {
          m \<leftarrow> vm_map_gap_compute e m;
          let s = gap_size (m_ent m e);
          Some (if s = 0 then m else m\<lparr>gap_tree := gap_add s e (gap_tree m)\<rparr>) })"

definition vm_map_gap_remove_single :: "nat option \<Rightarrow> vm_map \<Rightarrow> vm_map" where
  "vm_map_gap_remove_single p m =
     (case p of
        None \<Rightarrow> m
      | Some e \<Rightarrow>
          (let s = gap_size (m_ent m e) in
           if s = 0 then m else m\<lparr>gap_tree := gap_del s e (gap_tree m)\<rparr>))"

definition vm_map_gap_update :: "nat option \<Rightarrow> vm_map \<Rightarrow> vm_map option" where
  "vm_map_gap_update p m = vm_map_gap_insert_single p (vm_map_gap_remove_single p m)"

definition vm_map_gap_insert :: "nat \<Rightarrow> vm_map \<Rightarrow> vm_map option" where
  "vm_map_gap_insert e m = do {
     pv \<leftarrow> vme_prev m (Some e);
     m \<leftarrow> vm_map_gap_update pv m;
     vm_map_gap_insert_single (Some e) m }"

text \<open>An entry is unlinked before its gap is removed, but its own links still name its
  neighbours; \<open>pv\<close> is the one before it.\<close>

definition vm_map_gap_remove :: "nat \<Rightarrow> nat option \<Rightarrow> vm_map \<Rightarrow> vm_map option" where
  "vm_map_gap_remove e pv m = vm_map_gap_update pv (vm_map_gap_remove_single (Some e) m)"

fun insert_after :: "nat option \<Rightarrow> nat \<Rightarrow> nat list \<Rightarrow> nat list" where
  "insert_after None e xs = e # xs"
| "insert_after (Some a) e [] = []"
| "insert_after (Some a) e (x # xs) = (if x = a then x # e # xs else x # insert_after (Some a) e xs)"

definition vm_map_entry_link :: "nat option \<Rightarrow> nat \<Rightarrow> vm_map \<Rightarrow> vm_map option" where
  "vm_map_entry_link after e m = do {
     kassert (case after of None \<Rightarrow> True | Some a \<Rightarrow> a \<in> set (m_list m));
     vm_map_gap_insert e (m\<lparr>m_list := insert_after after e (m_list m)\<rparr>) }"

definition vm_map_entry_unlink :: "nat \<Rightarrow> vm_map \<Rightarrow> vm_map option" where
  "vm_map_entry_unlink e m = do {
     pv \<leftarrow> vme_prev m (Some e);
     vm_map_gap_remove e pv (m\<lparr>m_list := remove1 e (m_list m)\<rparr>) }"

text \<open>Allocation of an entry with given contents.\<close>

definition vm_map_entry_create :: "vm_map_entry \<Rightarrow> vm_map \<Rightarrow> nat \<times> vm_map" where
  "vm_map_entry_create x m = (m_fresh m, (upd_entry (m_fresh m) (\<lambda>_. x) m)\<lparr>m_fresh := m_fresh m + 1\<rparr>)"

subsection \<open>Look-up\<close>

text \<open>The nearest entry to the left in the tree: the one that contains the address, or the last
  one before it.\<close>

definition tree_nearest :: "vm_map \<Rightarrow> nat \<Rightarrow> nat option" where
  "tree_nearest m addr = find (\<lambda>e. vme_start (m_ent m e) \<le> addr) (rev (m_list m))"

definition vm_map_lookup_entry :: "nat \<Rightarrow> vm_map \<Rightarrow> (bool \<times> nat option \<times> vm_map) option" where
  "vm_map_lookup_entry addr m =
     (let search = (case tree_nearest m addr of
                      None \<Rightarrow> (False, None, SAVE_HINT None m)
                    | Some e \<Rightarrow> (addr < vme_end (m_ent m e), Some e, SAVE_HINT (Some e) m)) in
      case m_hint m of
        None \<Rightarrow> Some search
      | Some h \<Rightarrow> do {
          x \<leftarrow> entry_at m h;
          if vme_start x \<le> addr then
            (if addr < vme_end x then Some (True, Some h, m)
             else do {
               nx \<leftarrow> vme_next m (Some h);
               if (case nx of None \<Rightarrow> True | Some n \<Rightarrow> addr < vme_start (m_ent m n))
               then Some (False, Some h, m) else Some search })
          else Some search })"

subsection \<open>Space layout\<close>

definition vm_map_memory_pressure :: "vm_map \<Rightarrow> bool" where
  "vm_map_memory_pressure m = (m_size m > usub (max_offset m) (min_offset m) * 3 mod ADDRS div 4)"

definition vm_map_get_aslr_entropy :: "vm_env \<Rightarrow> nat \<Rightarrow> vm_map \<Rightarrow> nat" where
  "vm_map_get_aslr_entropy V sz m =
     (if \<not> aslr_enabled m \<or> sz = 0 then 0
      else
        let bits = (if aslr_entropy_bits m = 0 then VM_MAP_ASLR_DEFAULT_ENTROPY_BITS else aslr_entropy_bits m);
            bits = (if vm_map_memory_pressure m then max VM_MAP_ASLR_MIN_ENTROPY_BITS (bits div 2) else bits);
            most = 2 ^ bits * PAGE_SIZE mod ADDRS;
            quarter = usub (max_offset m) (min_offset m) div 4;
            most = (if most > quarter then quarter - quarter mod PAGE_SIZE else most)
        in if most = 0 then 0 else ve_entropy V mod (most div PAGE_SIZE) * PAGE_SIZE)"

definition vm_map_set_aslr :: "bool \<Rightarrow> nat \<Rightarrow> vm_map \<Rightarrow> vm_map" where
  "vm_map_set_aslr enabled bits m =
     m\<lparr>aslr_enabled := enabled,
       aslr_entropy_bits :=
         (if bits > VM_MAP_ASLR_MAX_ENTROPY_BITS then VM_MAP_ASLR_MAX_ENTROPY_BITS
          else if bits < VM_MAP_ASLR_MIN_ENTROPY_BITS \<and> bits \<noteq> 0 then VM_MAP_ASLR_MIN_ENTROPY_BITS
          else bits)\<rparr>"

definition vm_map_optimize_placement :: "nat \<Rightarrow> nat \<Rightarrow> vm_map \<Rightarrow> nat" where
  "vm_map_optimize_placement sz suggested m =
     (let large = align_up (VM_MAP_LARGE_PAGE_SIZE - 1);
          addr = (if sz \<ge> VM_MAP_LARGE_PAGE_SIZE \<and>
                     \<not> (large suggested < min_offset m \<or> uadd (large suggested) sz > max_offset m)
                  then large suggested else suggested);
          high = usub (max_offset m) (usub (max_offset m) (min_offset m) div 4);
          high_addr = (if sz \<ge> VM_MAP_LARGE_PAGE_SIZE then large high else high)
      in if sz = 0 then suggested
         else if prefer_high_addr m \<and> sz \<ge> VM_MAP_PREFER_HIGH_THRESHOLD \<and> addr < high \<and>
                 uadd high_addr sz \<le> max_offset m
         then high_addr else addr)"

text \<open>\<^verbatim>\<open>__builtin_ffs\<close> takes an \<^verbatim>\<open>int\<close>: it sees the low 32 bits only.\<close>

definition ffs :: "nat \<Rightarrow> nat" where
  "ffs x = (case find (bit (x mod 2 ^ 32)) [0 ..< 32] of None \<Rightarrow> 0 | Some i \<Rightarrow> i + 1)"

text \<open>The limit and the alignment that a mask stands for.  The outer \<open>None\<close> is a shift by a
  negative count, which is undefined; the inner one is an invalid mask.\<close>

definition mask_limit :: "nat \<Rightarrow> nat \<Rightarrow> (nat \<times> nat) option option" where
  "mask_limit mx msk =
     (if and (uadd msk 1) msk = 0 then Some (Some (mx, msk))
      else let first0 = ffs (ADDRS - 1 - msk) in
        if first0 = 0 then None
        else let lowmask = 2 ^ (first0 - 1) - 1; himask = msk - lowmask; second1 = ffs himask in
          if second1 = 0 then None
          else let mx = 2 ^ (second1 - 1) in
            Some (if uadd himask mx \<noteq> 0 then None else Some (mx, lowmask)))"

datatype place = Placed "nat option" nat | No_room | Wait_for_room

definition place_in_empty :: "vm_env \<Rightarrow> nat \<Rightarrow> nat \<Rightarrow> nat \<Rightarrow> vm_map \<Rightarrow> place" where
  "place_in_empty V sz mx msk m =
     (let start = align_up msk (min_offset m);
          rand = align_up msk (uadd start (vm_map_get_aslr_entropy V sz m));
          start = (if aslr_enabled m \<and> rand \<ge> min_offset m \<and> uadd rand sz \<le> mx \<and> uadd rand sz > rand
                   then rand else start);
          start = vm_map_optimize_placement sz start m;
          fin = uadd start sz
      in if start < min_offset m \<or> fin \<le> start \<or> fin > mx then No_room else Placed None start)"

text \<open>The start after the free space hint, and the test that it is in the hole there.\<close>

definition start_after_hint :: "vm_env \<Rightarrow> nat \<Rightarrow> nat \<Rightarrow> vm_map_entry \<Rightarrow> vm_map \<Rightarrow> nat" where
  "start_after_hint V sz msk x m =
     (let start = align_up msk (vme_end x);
          available = gap_size x - uadd sz msk;
          entropy = vm_map_get_aslr_entropy V sz m;
          most = available - available mod PAGE_SIZE
      in if aslr_enabled m \<and> gap_size x > uadd sz msk \<and> available > 0 \<and> entropy > 0 \<and> most > 0
         then align_up msk (uadd start (entropy mod (most div PAGE_SIZE + 1) * PAGE_SIZE)) else start)"

definition fits_after :: "nat \<Rightarrow> nat \<Rightarrow> nat \<Rightarrow> vm_map_entry \<Rightarrow> bool" where
  "fits_after sz mx start x =
     (let fin = uadd start sz in
      start \<ge> vme_end x \<and> fin > start \<and> fin \<le> mx \<and> fin \<le> uadd (vme_end x) (gap_size x))"

text \<open>The start in a hole that is large enough.\<close>

definition start_in_gap :: "vm_env \<Rightarrow> nat \<Rightarrow> nat \<Rightarrow> vm_map_entry \<Rightarrow> vm_map \<Rightarrow> nat" where
  "start_in_gap V sz msk x m =
     (let start = align_up msk (vme_end x);
          available = gap_size x - uadd sz msk;
          most = available - available mod PAGE_SIZE;
          entropy = vm_map_get_aslr_entropy V sz m;
          entropy = (if entropy > most then entropy mod (most div PAGE_SIZE + 1) * PAGE_SIZE else entropy);
          rand = align_up msk (uadd start entropy)
      in if aslr_enabled m \<and> gap_size x > uadd sz msk \<and> entropy > 0 \<and> entropy \<le> available \<and>
            rand \<ge> vme_end x \<and> uadd rand sz \<le> uadd (vme_end x) (gap_size x)
         then rand else start)"

definition place_in_gap :: "vm_env \<Rightarrow> nat \<Rightarrow> nat \<Rightarrow> nat \<Rightarrow> bool \<Rightarrow> vm_map \<Rightarrow> place option" where
  "place_in_gap V sz mx msk locked m =
     (if uadd sz msk < sz then Some No_room
      else case gap_nearest (uadd sz msk) (gap_tree m) of
        None \<Rightarrow> Some (if locked \<or> \<not> wait_for_space m then No_room else Wait_for_room)
      | Some es \<Rightarrow> do {
          let e = last es;
          x \<leftarrow> entry_at m e;
          kassert (gap_size x \<ge> uadd sz msk);
          let start = start_in_gap V sz msk x m;
          let fin = uadd start sz;
          kassert (start \<ge> vme_end x);
          kassert (fin > start);
          kassert (fin \<le> uadd (vme_end x) (gap_size x));
          Some (if fin > mx then No_room else Placed (Some e) start) })"

definition place_range :: "vm_env \<Rightarrow> nat \<Rightarrow> nat \<Rightarrow> nat \<Rightarrow> bool \<Rightarrow> vm_map \<Rightarrow> place option" where
  "place_range V sz mx msk locked m =
     (if m_list m = [] then Some (place_in_empty V sz mx msk m)
      else case first_free m of
        None \<Rightarrow> place_in_gap V sz mx msk locked m
      | Some e \<Rightarrow> do {
          x \<leftarrow> entry_at m e;
          let start = start_after_hint V sz msk x m;
          if fits_after sz mx start x then Some (Placed (Some e) start)
          else place_in_gap V sz mx msk locked m })"

text \<open>How an operation ends: with a result, asleep because the script of maps after a wait is
  used up, or (for loops with a bound) not yet.\<close>

datatype 'a run = Ended 'a | Asleep vm_map | Unfinished

fun place_loop ::
  "vm_env \<Rightarrow> nat \<Rightarrow> nat \<Rightarrow> nat \<Rightarrow> bool \<Rightarrow> vm_map list \<Rightarrow> vm_map \<Rightarrow> ((nat option \<times> nat) option \<times> vm_map) run option" where
  "place_loop V sz mx msk locked [] m = do {
     p \<leftarrow> place_range V sz mx msk locked m;
     Some (case p of Placed e start \<Rightarrow> Ended (Some (e, start), m) | No_room \<Rightarrow> Ended (None, m) | Wait_for_room \<Rightarrow> Asleep m) }"
| "place_loop V sz mx msk locked (w # ws) m = do {
     p \<leftarrow> place_range V sz mx msk locked m;
     case p of Placed e start \<Rightarrow> Some (Ended (Some (e, start), m))
     | No_room \<Rightarrow> Some (Ended (None, m))
     | Wait_for_room \<Rightarrow> place_loop V sz mx msk locked ws w }"

definition vm_map_find_entry_anywhere ::
  "vm_env \<Rightarrow> nat \<Rightarrow> nat \<Rightarrow> bool \<Rightarrow> vm_map list \<Rightarrow> vm_map \<Rightarrow> ((nat option \<times> nat) option \<times> vm_map) run option" where
  "vm_map_find_entry_anywhere V sz msk locked ws m = do {
     kassert (sz \<noteq> 0);
     lim \<leftarrow> mask_limit (max_offset m) msk;
     case lim of
       None \<Rightarrow> Some (Ended (None, m))
     | Some (mx, low) \<Rightarrow> place_loop V sz mx low locked ws m }"

subsection \<open>Objects\<close>

definition upd_object :: "nat \<Rightarrow> (vm_object \<Rightarrow> vm_object) \<Rightarrow> vm_map \<Rightarrow> vm_map" where
  "upd_object ob f m = m\<lparr>m_objects := (m_objects m)(ob := f (m_objects m ob))\<rparr>"

text \<open>References to an object.  An entry has a reference to its object, so the count that
  \<^verbatim>\<open>vm_object_reference\<close> asserts to be positive is so; what becomes of an object whose last
  reference goes is left out.\<close>

definition vm_object_reference :: "nat option \<Rightarrow> vm_map \<Rightarrow> vm_map" where
  "vm_object_reference p m =
     (case p of None \<Rightarrow> m | Some ob \<Rightarrow> upd_object ob (\<lambda>x. x\<lparr>o_ref_count := o_ref_count x + 1\<rparr>) m)"

definition vm_object_deallocate :: "nat option \<Rightarrow> vm_map \<Rightarrow> vm_map" where
  "vm_object_deallocate p m =
     (case p of None \<Rightarrow> m | Some ob \<Rightarrow> upd_object ob (\<lambda>x. x\<lparr>o_ref_count := o_ref_count x - 1\<rparr>) m)"

definition object_in_use :: "vm_object \<Rightarrow> bool" where
  "object_in_use x =
     (o_ref_count x > 1 \<or> pager_created x \<or> used_for_pageout x \<or> o_shadow x \<noteq> None \<or> o_copy x \<noteq> None \<or>
      paging_in_progress x \<noteq> 0)"

definition collapse :: "vm_env \<Rightarrow> nat \<Rightarrow> vm_map \<Rightarrow> vm_map" where
  "collapse V ob m = m\<lparr>m_objects := ve_collapse V ob (m_objects m)\<rparr>"

text \<open>The new object and offset, or \<open>None\<close> for \<^verbatim>\<open>FALSE\<close>.\<close>

definition vm_object_coalesce ::
  "vm_env \<Rightarrow> nat option \<Rightarrow> nat option \<Rightarrow> nat \<Rightarrow> nat \<Rightarrow> nat \<Rightarrow> nat \<Rightarrow> vm_map \<Rightarrow> (nat option \<times> nat) option \<times> vm_map" where
  "vm_object_coalesce V prev_object next_object prev_offset next_offset prev_size next_size m =
     (case (prev_object, next_object) of
        (None, None) \<Rightarrow> (Some (None, 0), m)
      | (Some p, Some n) \<Rightarrow>
          if p = n \<and> uadd prev_offset prev_size = next_offset
          then (Some (Some p, prev_offset), vm_object_deallocate (Some p) m) else (None, m)
      | (Some p, None) \<Rightarrow>
          (let m = collapse V p m; newsize = uadd (uadd prev_offset prev_size) next_size in
           if object_in_use (m_objects m p) then (None, m)
           else (Some (Some p, prev_offset), upd_object p (\<lambda>x. x\<lparr>o_size := max newsize (o_size x)\<rparr>) m))
      | (None, Some n) \<Rightarrow>
          (let m = collapse V n m in
           if object_in_use (m_objects m n) \<or> next_offset < prev_size then (None, m)
           else (Some (Some n, next_offset - prev_size), m)))"

text \<open>The reference that a copy of an entry takes; references to a submap are left out.\<close>

definition entry_reference :: "vm_map_entry \<Rightarrow> vm_map \<Rightarrow> vm_map" where
  "entry_reference x m = (if is_sub_map x then m else vm_object_reference (vme_object x) m)"

subsection \<open>Splitting and merging entries\<close>

definition split_start :: "nat \<Rightarrow> nat \<Rightarrow> vm_map \<Rightarrow> vm_map option" where
  "split_start e a m = do {
     x \<leftarrow> entry_at m e;
     let (n, m) = vm_map_entry_create (x\<lparr>vme_end := a\<rparr>) m;
     let m = upd_entry e (\<lambda>x. x\<lparr>vme_offset := uadd (vme_offset x) (usub a (vme_start x)), vme_start := a\<rparr>) m;
     pv \<leftarrow> vme_prev m (Some e);
     m \<leftarrow> vm_map_entry_link pv n m;
     Some (entry_reference x m) }"

definition vm_map_clip_start :: "nat \<Rightarrow> nat \<Rightarrow> vm_map \<Rightarrow> vm_map option" where
  "vm_map_clip_start e a m = do {
     x \<leftarrow> entry_at m e;
     if a > vme_start x then split_start e a m else Some m }"

definition split_end :: "nat \<Rightarrow> nat \<Rightarrow> vm_map \<Rightarrow> vm_map option" where
  "split_end e a m = do {
     x \<leftarrow> entry_at m e;
     let (n, m) = vm_map_entry_create
           (x\<lparr>vme_offset := uadd (vme_offset x) (usub a (vme_start x)), vme_start := a\<rparr>) m;
     let m = upd_entry e (\<lambda>x. x\<lparr>vme_end := a\<rparr>) m;
     m \<leftarrow> vm_map_entry_link (Some e) n m;
     Some (entry_reference x m) }"

definition vm_map_clip_end :: "nat \<Rightarrow> nat \<Rightarrow> vm_map \<Rightarrow> vm_map option" where
  "vm_map_clip_end e a m = do {
     x \<leftarrow> entry_at m e;
     if a < vme_end x then split_end e a m else Some m }"

definition coalescable :: "vm_map_entry \<Rightarrow> vm_map_entry \<Rightarrow> bool" where
  "coalescable x y =
     (vme_end x = vme_start y \<and> \<not> is_shared x \<and> \<not> is_shared y \<and> \<not> is_sub_map x \<and> \<not> is_sub_map y \<and>
      inheritance x = inheritance y \<and> protection x = protection y \<and> max_protection x = max_protection y \<and>
      needs_copy x = needs_copy y \<and> \<not> in_transition x \<and> \<not> in_transition y \<and>
      wired_count x = wired_count y \<and> projected_on x = 0 \<and> projected_on y = 0)"

text \<open>The common part of the two directions: \<open>b\<close>, which follows \<open>a\<close>, is made part of \<open>a\<close>.\<close>

definition merge_entries :: "nat \<Rightarrow> nat \<Rightarrow> nat option \<Rightarrow> nat \<Rightarrow> vm_map \<Rightarrow> vm_map option" where
  "merge_entries a b ob off m = do {
     let m = upd_entry a (\<lambda>x. x\<lparr>vme_object := ob, vme_offset := off\<rparr>) m;
     let m = (if m_hint m = Some b then SAVE_HINT (Some a) m else m);
     let m = (if first_free m = Some b then m\<lparr>first_free := Some a\<rparr> else m);
     let m = upd_entry a (\<lambda>x. x\<lparr>vme_end := vme_end (m_ent m b)\<rparr>) m;
     vm_map_entry_unlink b m }"

definition coalesce_pair :: "vm_env \<Rightarrow> nat \<Rightarrow> nat \<Rightarrow> vm_map \<Rightarrow> (bool \<times> vm_map) option" where
  "coalesce_pair V a b m = do {
     x \<leftarrow> entry_at m a;
     y \<leftarrow> entry_at m b;
     if \<not> coalescable x y then Some (False, m)
     else do {
       kassert (gap_size x = 0);
       case vm_object_coalesce V (vme_object x) (vme_object y) (vme_offset x) (vme_offset y)
              (usub (vme_end x) (vme_start x)) (usub (vme_end y) (vme_start y)) m of
         (None, m) \<Rightarrow> Some (False, m)
       | (Some (ob, off), m) \<Rightarrow> do { m \<leftarrow> merge_entries a b ob off m; Some (True, m) } } }"

definition vm_map_coalesce_entry :: "vm_env \<Rightarrow> nat option \<Rightarrow> vm_map \<Rightarrow> (bool \<times> vm_map) option" where
  "vm_map_coalesce_entry V p m = do {
     pv \<leftarrow> vme_prev m p;
     case (pv, p) of (Some a, Some e) \<Rightarrow> coalesce_pair V a e m | _ \<Rightarrow> Some (False, m) }"

definition vm_map_coalesce_entry_forward :: "vm_env \<Rightarrow> nat option \<Rightarrow> vm_map \<Rightarrow> (bool \<times> vm_map) option" where
  "vm_map_coalesce_entry_forward V p m = do {
     nx \<leftarrow> vme_next m p;
     case (p, nx) of (Some e, Some b) \<Rightarrow> coalesce_pair V e b m | _ \<Rightarrow> Some (False, m) }"

definition vm_map_coalesce_entries :: "vm_env \<Rightarrow> nat option \<Rightarrow> vm_map \<Rightarrow> (bool \<times> vm_map) option" where
  "vm_map_coalesce_entries V p m = do {
     (c1, m) \<leftarrow> vm_map_coalesce_entry_forward V p m;
     (c2, m) \<leftarrow> vm_map_coalesce_entry V p m;
     Some (c1 \<or> c2, m) }"

subsection \<open>Entering a range\<close>

definition fresh_entry :: "nat \<Rightarrow> nat \<Rightarrow> vm_map_entry" where
  "fresh_entry start fin =
     \<lparr>vme_start = start, vme_end = fin, gap_size = 0, vme_object = None, vme_offset = 0, is_shared = False,
      is_sub_map = False, in_transition = False, needs_wakeup = False, needs_copy = False,
      protection = VM_PROT_DEFAULT, max_protection = VM_PROT_ALL, inheritance = VM_INHERIT_DEFAULT,
      wired_count = 1, wired_access = VM_PROT_DEFAULT, projected_on = 0\<rparr>"

text \<open>\<^verbatim>\<open>vm_map_find_entry\<close>, for kernel memory: the map is locked, so nothing is waited for.\<close>

definition vm_map_find_entry ::
  "vm_env \<Rightarrow> nat \<Rightarrow> nat \<Rightarrow> nat option \<Rightarrow> vm_map \<Rightarrow> (kern_return \<times> (nat \<times> nat) option \<times> vm_map) run option" where
  "vm_map_find_entry V sz msk object m = do {
     r \<leftarrow> vm_map_find_entry_anywhere V sz msk True [] m;
     case r of
       Asleep m \<Rightarrow> Some (Asleep m)
     | Unfinished \<Rightarrow> Some Unfinished
     | Ended (None, m) \<Rightarrow> Some (Ended (KERN_NO_SPACE, None, m))
     | Ended (Some (p, start), m) \<Rightarrow> do {
         let fin = uadd start sz;
         (new, m) \<leftarrow>
           (case p of
              Some e \<Rightarrow>
                if object \<noteq> None \<and> vme_end (m_ent m e) = start \<and> \<not> is_shared (m_ent m e) \<and>
                   \<not> is_sub_map (m_ent m e) \<and> \<not> in_transition (m_ent m e) \<and> vme_object (m_ent m e) = object \<and>
                   \<not> needs_copy (m_ent m e) \<and> inheritance (m_ent m e) = VM_INHERIT_DEFAULT \<and>
                   protection (m_ent m e) = VM_PROT_DEFAULT \<and> max_protection (m_ent m e) = VM_PROT_ALL \<and>
                   wired_count (m_ent m e) \<noteq> 0 \<and> projected_on (m_ent m e) = 0
                then do { m \<leftarrow> vm_map_gap_update (Some e) (upd_entry e (\<lambda>x. x\<lparr>vme_end := fin\<rparr>) m); Some (e, m) }
                else do {
                  let (n, m) = vm_map_entry_create (fresh_entry start fin) m;
                  m \<leftarrow> vm_map_entry_link p n m; Some (n, m) }
            | None \<Rightarrow> do {
                let (n, m) = vm_map_entry_create (fresh_entry start fin) m;
                m \<leftarrow> vm_map_entry_link p n m; Some (n, m) });
         Some (Ended (KERN_SUCCESS, Some (start, new),
           SAVE_HINT (Some new) (m\<lparr>m_size := uadd (m_size m) sz, first_free := Some new\<rparr>))) } }"

text \<open>The arguments of \<^verbatim>\<open>vm_map_enter\<close> that describe the new range.\<close>

record enter_args =
  a_object :: "nat option"
  a_offset :: nat
  a_needs_copy :: bool
  a_cur_protection :: nat
  a_max_protection :: nat
  a_inheritance :: nat

definition extensible :: "enter_args \<Rightarrow> vm_map_entry \<Rightarrow> bool" where
  "extensible A x =
     (\<not> is_shared x \<and> \<not> is_sub_map x \<and> \<not> in_transition x \<and> inheritance x = a_inheritance A \<and>
      protection x = a_cur_protection A \<and> max_protection x = a_max_protection A \<and> wired_count x = 0 \<and>
      projected_on x = 0)"

text \<open>Whether a neighbour can take the range, and the map as its object is tried.\<close>

definition extend_below ::
  "vm_env \<Rightarrow> enter_args \<Rightarrow> nat \<Rightarrow> nat \<Rightarrow> nat option \<Rightarrow> vm_map \<Rightarrow> (nat option \<times> nat) option \<times> vm_map" where
  "extend_below V A start sz p m =
     (case p of
        None \<Rightarrow> (None, m)
      | Some e \<Rightarrow>
          (let x = m_ent m e in
           if vme_end x = start \<and> extensible A x
           then vm_object_coalesce V (vme_object x) (a_object A) (vme_offset x) (a_offset A)
                  (usub (vme_end x) (vme_start x)) sz m
           else (None, m)))"

definition extend_above ::
  "vm_env \<Rightarrow> enter_args \<Rightarrow> nat \<Rightarrow> nat \<Rightarrow> nat option \<Rightarrow> vm_map \<Rightarrow> (nat option \<times> nat) option \<times> vm_map" where
  "extend_above V A fin sz p m =
     (case p of
        None \<Rightarrow> (None, m)
      | Some e \<Rightarrow>
          (let x = m_ent m e in
           if vme_start x = fin \<and> extensible A x
           then vm_object_coalesce V (a_object A) (vme_object x) (a_offset A) (vme_offset x)
                  sz (usub (vme_end x) (vme_start x)) m
           else (None, m)))"

definition enter_below ::
  "vm_env \<Rightarrow> nat \<Rightarrow> nat option \<times> nat \<Rightarrow> nat option \<Rightarrow> nat \<Rightarrow> nat \<Rightarrow> vm_map \<Rightarrow> vm_map option" where
  "enter_below V sz q next_entry fin e m = do {
     let m = upd_entry e (\<lambda>x. x\<lparr>vme_object := fst q, vme_offset := snd q\<rparr>) m;
     let m = upd_entry e (\<lambda>x. x\<lparr>vme_end := fin\<rparr>) (m\<lparr>m_size := uadd (m_size m) sz\<rparr>);
     m \<leftarrow> vm_map_gap_update (Some e) m;
     (_, m) \<leftarrow> vm_map_coalesce_entries V next_entry m;
     Some m }"

definition enter_above ::
  "vm_env \<Rightarrow> nat \<Rightarrow> nat option \<times> nat \<Rightarrow> nat option \<Rightarrow> nat \<Rightarrow> nat \<Rightarrow> vm_map \<Rightarrow> vm_map option" where
  "enter_above V sz q p start n m = do {
     let m = upd_entry n (\<lambda>x. x\<lparr>vme_object := fst q, vme_offset := snd q\<rparr>) m;
     let m = upd_entry n (\<lambda>x. x\<lparr>vme_start := start\<rparr>) (m\<lparr>m_size := uadd (m_size m) sz\<rparr>);
     m \<leftarrow> vm_map_gap_update p m;
     (_, m) \<leftarrow> vm_map_coalesce_entries V (Some n) m;
     Some m }"

definition enter_entry :: "enter_args \<Rightarrow> nat \<Rightarrow> nat \<Rightarrow> vm_map_entry" where
  "enter_entry A start fin =
     (fresh_entry start fin)
       \<lparr>vme_object := a_object A, vme_offset := a_offset A, needs_copy := a_needs_copy A,
        protection := a_cur_protection A, max_protection := a_max_protection A, inheritance := a_inheritance A,
        wired_count := 0, wired_access := VM_PROT_NONE\<rparr>"

definition enter_new ::
  "vm_env \<Rightarrow> enter_args \<Rightarrow> nat \<Rightarrow> nat option \<Rightarrow> nat \<Rightarrow> nat \<Rightarrow> vm_map \<Rightarrow> vm_map option" where
  "enter_new V A sz p start fin m = do {
     let (n, m) = vm_map_entry_create (enter_entry A start fin) m;
     m \<leftarrow> vm_map_entry_link p n m;
     let m = m\<lparr>m_size := uadd (m_size m) sz\<rparr>;
     let before = (case p of None \<Rightarrow> min_offset m | Some e \<Rightarrow> vme_end (m_ent m e));
     let m = (if first_free m = p \<and> before \<ge> start then m\<lparr>first_free := Some n\<rparr> else m);
     let m = SAVE_HINT (Some n) m;
     Some (if wiring_required m then ve_pageable V start fin (a_cur_protection A) m else m) }"

text \<open>The part after the range is found: \<open>p\<close> is the entry before it.\<close>

definition enter_range :: "vm_env \<Rightarrow> enter_args \<Rightarrow> nat \<Rightarrow> nat option \<Rightarrow> nat option \<Rightarrow> nat \<Rightarrow> nat \<Rightarrow> vm_map \<Rightarrow> vm_map option" where
  "enter_range V A sz p next_entry start fin m =
     (case (p, extend_below V A start sz p m) of
        (Some e, Some q, m) \<Rightarrow> enter_below V sz q next_entry fin e m
      | (_, _, m) \<Rightarrow>
          (case (next_entry, extend_above V A fin sz next_entry m) of
             (Some n, Some q, m) \<Rightarrow> enter_above V sz q p start n m
           | (_, _, m) \<Rightarrow> enter_new V A sz p start fin m))"

definition enter_at ::
  "vm_env \<Rightarrow> enter_args \<Rightarrow> nat \<Rightarrow> nat \<Rightarrow> nat \<Rightarrow> vm_map \<Rightarrow> (kern_return \<times> nat \<times> vm_map) option" where
  "enter_at V A start sz msk m =
     (if and start msk \<noteq> 0 then Some (KERN_NO_SPACE, start, m)
      else let fin = uadd start sz in
        if start < min_offset m \<or> fin > max_offset m \<or> start \<ge> fin then Some (KERN_INVALID_ADDRESS, start, m)
        else do {
          (found, p, m) \<leftarrow> vm_map_lookup_entry start m;
          if found then Some (KERN_NO_SPACE, start, m)
          else do {
            next_entry \<leftarrow> vme_next m p;
            if (case next_entry of None \<Rightarrow> False | Some n \<Rightarrow> vme_start (m_ent m n) < fin)
            then Some (KERN_NO_SPACE, start, m)
            else do { m \<leftarrow> enter_range V A sz p next_entry start fin m; Some (KERN_SUCCESS, start, m) } } })"

definition enter_anywhere ::
  "vm_env \<Rightarrow> enter_args \<Rightarrow> nat \<Rightarrow> nat \<Rightarrow> nat \<Rightarrow> vm_map list \<Rightarrow> vm_map \<Rightarrow>
   (kern_return \<times> nat \<times> vm_map) run option" where
  "enter_anywhere V A address sz msk ws m = do {
     r \<leftarrow> vm_map_find_entry_anywhere V sz msk False ws m;
     case r of
       Asleep m \<Rightarrow> Some (Asleep m)
     | Unfinished \<Rightarrow> Some Unfinished
     | Ended (None, m) \<Rightarrow> Some (Ended (KERN_NO_SPACE, address, m))
     | Ended (Some (p, start), m) \<Rightarrow> do {
         next_entry \<leftarrow> vme_next m p;
         m \<leftarrow> enter_range V A sz p next_entry start (uadd start sz) m;
         Some (Ended (KERN_SUCCESS, start, m)) } }"

definition vm_map_enter ::
  "vm_env \<Rightarrow> enter_args \<Rightarrow> nat \<Rightarrow> nat \<Rightarrow> nat \<Rightarrow> bool \<Rightarrow> vm_map list \<Rightarrow> vm_map \<Rightarrow>
   (kern_return \<times> nat \<times> vm_map) run option" where
  "vm_map_enter V A address sz msk anywhere ws m =
     (if sz = 0 then Some (Ended (KERN_INVALID_ARGUMENT, address, m))
      else if anywhere then enter_anywhere V A address sz msk ws m
      else map_option Ended (enter_at V A address sz msk m))"

subsection \<open>Changing a range\<close>

definition VM_MAP_RANGE_CHECK :: "vm_map \<Rightarrow> nat \<Rightarrow> nat \<Rightarrow> nat \<times> nat" where
  "VM_MAP_RANGE_CHECK m start fin =
     (let start = (if start < min_offset m then min_offset m else start);
          fin = (if fin > max_offset m then max_offset m else fin)
      in (if start > fin then fin else start, fin))"

text \<open>The first entry at or after an address, split there: the beginning of
  \<^verbatim>\<open>vm_map_protect\<close> and \<^verbatim>\<open>vm_map_inherit\<close>.\<close>

definition first_from :: "nat \<Rightarrow> vm_map \<Rightarrow> (nat option \<times> vm_map) option" where
  "first_from start m = do {
     (found, p, m) \<leftarrow> vm_map_lookup_entry start m;
     case (found, p) of
       (True, Some e) \<Rightarrow> do { m \<leftarrow> vm_map_clip_start e start m; Some (p, m) }
     | _ \<Rightarrow> do { nx \<leftarrow> vme_next m p; Some (nx, m) } }"

fun inherit_loop :: "nat \<Rightarrow> vm_env \<Rightarrow> nat \<Rightarrow> nat \<Rightarrow> nat option \<Rightarrow> vm_map \<Rightarrow> (nat option \<times> vm_map) run option" where
  "inherit_loop 0 V fin new_inheritance p m = Some Unfinished"
| "inherit_loop (Suc n) V fin new_inheritance p m =
     (case p of
        None \<Rightarrow> Some (Ended (None, m))
      | Some e \<Rightarrow> do {
          x \<leftarrow> entry_at m e;
          if \<not> vme_start x < fin then Some (Ended (p, m))
          else do {
            m \<leftarrow> vm_map_clip_end e fin m;
            let m = upd_entry e (\<lambda>x. x\<lparr>inheritance := new_inheritance\<rparr>) m;
            nx \<leftarrow> vme_next m p;
            (_, m) \<leftarrow> vm_map_coalesce_entries V p m;
            inherit_loop n V fin new_inheritance nx m } })"

definition vm_map_inherit :: "nat \<Rightarrow> vm_env \<Rightarrow> nat \<Rightarrow> nat \<Rightarrow> nat \<Rightarrow> vm_map \<Rightarrow> (kern_return \<times> vm_map) run option" where
  "vm_map_inherit n V start fin new_inheritance m = do {
     let (start, fin) = VM_MAP_RANGE_CHECK m start fin;
     (p, m) \<leftarrow> first_from start m;
     r \<leftarrow> inherit_loop n V fin new_inheritance p m;
     case r of
       Ended (p, m) \<Rightarrow> do { (_, m) \<leftarrow> vm_map_coalesce_entries V p m; Some (Ended (KERN_SUCCESS, m)) }
     | Asleep m \<Rightarrow> Some (Asleep m)
     | Unfinished \<Rightarrow> Some Unfinished }"

abbreviation (input) VM_PROT_NOTIFY :: nat where "VM_PROT_NOTIFY \<equiv> 16"

text \<open>The first pass of \<^verbatim>\<open>vm_map_protect\<close> only reads: the entries from the first one on.\<close>

fun protect_check :: "nat \<Rightarrow> nat \<Rightarrow> (nat \<Rightarrow> vm_map_entry) \<Rightarrow> nat list \<Rightarrow> kern_return" where
  "protect_check fin new_prot ent [] = KERN_SUCCESS"
| "protect_check fin new_prot ent (e # es) =
     (if \<not> vme_start (ent e) < fin then KERN_SUCCESS
      else if is_sub_map (ent e) then KERN_INVALID_ARGUMENT
      else if and new_prot (or VM_PROT_NOTIFY (max_protection (ent e))) \<noteq> new_prot then KERN_PROTECTION_FAILURE
      else protect_check fin new_prot ent es)"

definition protect_entry :: "nat \<Rightarrow> bool \<Rightarrow> bool \<Rightarrow> vm_map_entry \<Rightarrow> vm_map_entry" where
  "protect_entry new_prot set_max wiring x =
     (let x = (if set_max then x\<lparr>max_protection := new_prot, protection := and new_prot (protection x)\<rparr>
               else x\<lparr>protection := new_prot\<rparr>)
      in if protection x \<noteq> VM_PROT_NONE \<and> (wired_access x \<noteq> VM_PROT_NONE \<or> wiring)
         then x\<lparr>wired_access := protection x\<rparr> else x)"

fun protect_loop ::
  "nat \<Rightarrow> vm_env \<Rightarrow> nat \<Rightarrow> nat \<Rightarrow> bool \<Rightarrow> nat option \<Rightarrow> vm_map \<Rightarrow> (nat option \<times> vm_map) run option" where
  "protect_loop 0 V fin new_prot set_max p m = Some Unfinished"
| "protect_loop (Suc n) V fin new_prot set_max p m =
     (case p of
        None \<Rightarrow> Some (Ended (None, m))
      | Some e \<Rightarrow> do {
          x \<leftarrow> entry_at m e;
          if \<not> vme_start x < fin then Some (Ended (p, m))
          else do {
            m \<leftarrow> vm_map_clip_end e fin m;
            let m = upd_entry e (protect_entry new_prot set_max (wiring_required m)) m;
            nx \<leftarrow> vme_next m p;
            (_, m) \<leftarrow> vm_map_coalesce_entries V p m;
            protect_loop n V fin new_prot set_max nx m } })"

definition vm_map_protect ::
  "nat \<Rightarrow> vm_env \<Rightarrow> nat \<Rightarrow> nat \<Rightarrow> nat \<Rightarrow> bool \<Rightarrow> vm_map \<Rightarrow> (kern_return \<times> vm_map) run option" where
  "vm_map_protect n V start fin new_prot set_max m = do {
     let (start, fin) = VM_MAP_RANGE_CHECK m start fin;
     (first, m) \<leftarrow> first_from start m;
     let result = protect_check fin new_prot (m_ent m)
                    (case first of None \<Rightarrow> [] | Some e \<Rightarrow> dropWhile (\<lambda>x. x \<noteq> e) (m_list m));
     if result \<noteq> KERN_SUCCESS then Some (Ended (result, m))
     else do {
       r \<leftarrow> protect_loop n V fin new_prot set_max first m;
       case r of
         Ended (p, m) \<Rightarrow> do {
           _ \<leftarrow> vme_next m p;
           (_, m) \<leftarrow> vm_map_coalesce_entries V p m;
           m \<leftarrow> ve_pageable_scan V first fin m;
           Some (Ended (KERN_SUCCESS, m)) }
       | Asleep m \<Rightarrow> Some (Asleep m)
       | Unfinished \<Rightarrow> Some Unfinished } }"

subsection \<open>Removing a range\<close>

definition vm_map_entry_inc_wired :: "nat \<Rightarrow> vm_map \<Rightarrow> vm_map" where
  "vm_map_entry_inc_wired e m =
     (let x = m_ent m e; len = usub (vme_end x) (vme_start x) in
      if wired_count x > 1 then m
      else upd_entry e (\<lambda>x. x\<lparr>wired_count := wired_count x + 1\<rparr>)
             (if wired_count x = 0 then m\<lparr>size_wired := uadd (size_wired m) len\<rparr> else m))"

definition vm_map_entry_reset_wired :: "nat \<Rightarrow> vm_map \<Rightarrow> vm_map" where
  "vm_map_entry_reset_wired e m =
     (let x = m_ent m e; len = usub (vme_end x) (vme_start x) in
      if wired_count x \<noteq> 0
      then upd_entry e (\<lambda>x. x\<lparr>wired_count := 0\<rparr>) (m\<lparr>size_wired := usub (size_wired m) len\<rparr>)
      else m)"

definition vm_map_entry_delete :: "vm_env \<Rightarrow> nat \<Rightarrow> vm_map \<Rightarrow> vm_map option" where
  "vm_map_entry_delete V e m = do {
     x \<leftarrow> entry_at m e;
     let len = usub (vme_end x) (vme_start x);
     let projected = (\<not> ve_kernel_map V \<and> projected_on x \<noteq> 0);
     if projected \<and> \<not> ve_persistent V (projected_on x) then Some m
     else do {
       let m = (if projected then upd_entry e (\<lambda>x. x\<lparr>wired_count := 0\<rparr>) m else m);
       let m = (if vme_object x \<noteq> None then vm_map_entry_reset_wired e m else m);
       let m = (if is_sub_map x then m else vm_object_deallocate (vme_object x) m);
       m \<leftarrow> vm_map_entry_unlink e m;
       Some (m\<lparr>m_size := usub (m_size m) len\<rparr>) } }"

fun delete_loop ::
  "nat \<Rightarrow> vm_env \<Rightarrow> nat \<Rightarrow> nat \<Rightarrow> vm_map list \<Rightarrow> nat option \<Rightarrow> vm_map \<Rightarrow> (nat option \<times> vm_map) run option" where
  "delete_loop 0 V start fin ws p m = Some Unfinished"
| "delete_loop (Suc n) V start fin ws p m =
     (case p of
        None \<Rightarrow> Some (Ended (None, m))
      | Some e \<Rightarrow> do {
          x \<leftarrow> entry_at m e;
          if \<not> vme_start x < fin then Some (Ended (p, m))
          else do {
            m \<leftarrow> vm_map_clip_end e fin m;
            if in_transition (m_ent m e) then
              (case ws of
                 [] \<Rightarrow> Some (Asleep (upd_entry e (\<lambda>x. x\<lparr>needs_wakeup := True\<rparr>) m))
               | w # ws \<Rightarrow> do {
                   (found, q, m) \<leftarrow> vm_map_lookup_entry start w;
                   q \<leftarrow> (if found then Some q else vme_next m q);
                   delete_loop n V start fin ws q m })
            else do {
              nx \<leftarrow> vme_next m p;
              m \<leftarrow> vm_map_entry_delete V e m;
              delete_loop n V start fin ws nx m } } })"

text \<open>The coalescing after the loop starts from the entry before \<^verbatim>\<open>first_entry\<close>.\<close>

definition coalesce_before :: "vm_env \<Rightarrow> nat option \<Rightarrow> vm_map \<Rightarrow> vm_map option" where
  "coalesce_before V first_entry m = do {
     pv \<leftarrow> vme_prev m first_entry;
     case pv of None \<Rightarrow> Some m | Some e \<Rightarrow> map_option snd (vm_map_coalesce_entries V pv m) }"

text \<open>The free space hint is moved before the range.\<close>

definition move_free :: "nat \<Rightarrow> nat option \<Rightarrow> vm_map \<Rightarrow> vm_map option" where
  "move_free start p m = do {
     free_start \<leftarrow> (case first_free m of None \<Rightarrow> Some (min_offset m) | Some e \<Rightarrow> map_option vme_start (entry_at m e));
     if free_start \<ge> start then do { pv \<leftarrow> vme_prev m p; Some (m\<lparr>first_free := pv\<rparr>) } else Some m }"

definition delete_prepare :: "nat \<Rightarrow> vm_map \<Rightarrow> (nat option \<times> nat option \<times> vm_map) option" where
  "delete_prepare start m = do {
     (found, first_entry, m) \<leftarrow> vm_map_lookup_entry start m;
     (p, m) \<leftarrow>
       (case (found, first_entry) of
          (True, Some e) \<Rightarrow> do {
            m \<leftarrow> vm_map_clip_start e start m;
            pv \<leftarrow> vme_prev m (Some e);
            Some (Some e, SAVE_HINT pv m) }
        | _ \<Rightarrow> do { nx \<leftarrow> vme_next m first_entry; Some (nx, m) });
     m \<leftarrow> move_free start p m;
     Some (first_entry, p, m) }"

definition vm_map_delete :: "nat \<Rightarrow> vm_env \<Rightarrow> nat \<Rightarrow> nat \<Rightarrow> vm_map list \<Rightarrow> vm_map \<Rightarrow> (kern_return \<times> vm_map) run option" where
  "vm_map_delete n V start fin ws m = do {
     kassert (\<not> (ve_kernel_pmap V \<and> (start < ve_kernel_start V \<or> fin > ve_kernel_end V)));
     (first_entry, p, m) \<leftarrow> delete_prepare start m;
     r \<leftarrow> delete_loop n V start fin ws p m;
     case r of
       Ended (p, m) \<Rightarrow> do {
         m \<leftarrow> coalesce_before V first_entry m;
         (_, m) \<leftarrow> vm_map_coalesce_entries V p m;
         Some (Ended (KERN_SUCCESS, m)) }
     | Asleep m \<Rightarrow> Some (Asleep m)
     | Unfinished \<Rightarrow> Some Unfinished }"

definition vm_map_remove :: "nat \<Rightarrow> vm_env \<Rightarrow> nat \<Rightarrow> nat \<Rightarrow> vm_map list \<Rightarrow> vm_map \<Rightarrow> (kern_return \<times> vm_map) run option" where
  "vm_map_remove n V start fin ws m =
     (let (start, fin) = VM_MAP_RANGE_CHECK m start fin in vm_map_delete n V start fin ws m)"

end
