(* ===== verification/Vm_Gaps.thy ===== *)
theory Vm_Gaps
  imports Vm_Map
begin

text \<open>
  The index of the holes in an address map, the gap tree of \<^verbatim>\<open>vm/vm_map.c\<close>.  The locale is what
  the placement of ranges relies on: entries can be added under a size and removed, and a
  search gives an entry with the smallest sufficient size.  Then the linking and unlinking of
  entries, which keep the index right.
\<close>

subsection \<open>The index as an interface\<close>

locale gap_index =
  fixes wf :: "'g \<Rightarrow> bool"
    and elems :: "'g \<Rightarrow> (nat \<times> nat) set"
    and add :: "nat \<Rightarrow> nat \<Rightarrow> 'g \<Rightarrow> 'g"
    and del :: "nat \<Rightarrow> nat \<Rightarrow> 'g \<Rightarrow> 'g"
    and nearest :: "nat \<Rightarrow> 'g \<Rightarrow> nat list option"
  assumes add_wf: "wf g \<Longrightarrow> (s, e) \<notin> elems g \<Longrightarrow> wf (add s e g)"
    and add_elems: "wf g \<Longrightarrow> elems (add s e g) = insert (s, e) (elems g)"
    and del_wf: "wf g \<Longrightarrow> wf (del s e g)"
    and del_elems: "wf g \<Longrightarrow> elems (del s e g) = elems g - {(s, e)}"
    and nearest_None: "wf g \<Longrightarrow> nearest s g = None \<Longrightarrow> (t, e) \<in> elems g \<Longrightarrow> t < s"
    and nearest_Some: "wf g \<Longrightarrow> nearest s g = Some es \<Longrightarrow>
          es \<noteq> [] \<and> (\<exists>t \<ge> s. (\<forall>e. e \<in> set es \<longrightarrow> (t, e) \<in> elems g) \<and>
                             (\<forall>u f. (u, f) \<in> elems g \<and> s \<le> u \<longrightarrow> t \<le> u))"
begin

lemma nearest_last:
  assumes "wf g" "nearest s g = Some es"
  obtains t where "s \<le> t" "(t, last es) \<in> elems g" "\<And>u f. (u, f) \<in> elems g \<Longrightarrow> s \<le> u \<Longrightarrow> t \<le> u"
  using nearest_Some [OF assms] last_in_set by blast

lemma nearest_ex:
  assumes "wf g" "(t, e) \<in> elems g" "s \<le> t"
  shows "\<exists>es. nearest s g = Some es"
  using nearest_None [OF assms(1) _ assms(2), of s] assms(3) by fastforce

lemma moved:
  assumes "wf g" "\<And>u. (u, e) \<in> elems g \<Longrightarrow> u = s"
  shows "wf (add t e (del s e g))" "elems (add t e (del s e g)) = insert (t, e) (elems g - {(s, e)})"
proof -
  have n: "(t, e) \<notin> elems (del s e g)" using assms(2) by (auto simp: del_elems [OF assms(1)])
  show "wf (add t e (del s e g))" by (rule add_wf [OF del_wf [OF assms(1)] n])
  show "elems (add t e (del s e g)) = insert (t, e) (elems g - {(s, e)})"
    by (simp add: add_elems [OF del_wf [OF assms(1)]] del_elems [OF assms(1)])
qed

end

subsection \<open>The model's index\<close>

fun gap_wf :: "(nat \<times> nat list) list \<Rightarrow> bool" where
  "gap_wf [] = True"
| "gap_wf ((t, es) # g) = (es \<noteq> [] \<and> distinct es \<and> (\<forall>u fs. (u, fs) \<in> set g \<longrightarrow> t < u) \<and> gap_wf g)"

fun gap_elems :: "(nat \<times> nat list) list \<Rightarrow> (nat \<times> nat) set" where
  "gap_elems [] = {}"
| "gap_elems ((t, es) # g) = Pair t ` set es \<union> gap_elems g"

lemma gap_elems_size: "(t, e) \<in> gap_elems g \<Longrightarrow> \<exists>es. (t, es) \<in> set g"
  by (induction g rule: gap_elems.induct) auto

lemma gap_add_elems: "gap_elems (gap_add s e g) = insert (s, e) (gap_elems g)"
  by (induction s e g rule: gap_add.induct) auto

lemma gap_add_later: "t < s \<Longrightarrow> (\<And>u fs. (u, fs) \<in> set g \<Longrightarrow> t < u) \<Longrightarrow> (u, fs) \<in> set (gap_add s e g) \<Longrightarrow> t < u"
  by (induction s e g rule: gap_add.induct) (auto split: if_splits)

lemma gap_add_wf: "gap_wf g \<Longrightarrow> (s, e) \<notin> gap_elems g \<Longrightarrow> gap_wf (gap_add s e g)"
proof (induction s e g rule: gap_add.induct)
  case (2 s e t es g)
  consider "s = t" | "s < t" | "t < s" by linarith
  then show ?case
  proof cases
    case 1
    then show ?thesis using 2 by auto
  next
    case 2
    then show ?thesis using \<open>gap_wf ((t, es) # g)\<close> by (auto intro: less_trans)
  next
    case 3
    have "gap_wf (gap_add s e g)" using 2 3 by auto
    moreover have "t < u" if "(u, fs) \<in> set (gap_add s e g)" for u fs
      using gap_add_later [OF 3 _ that] 2(2) by auto
    ultimately show ?thesis using 3 2(2) by auto
  qed
qed simp

lemma gap_del_keys: "set (gap_del s e g) \<subseteq> {p. fst p \<in> fst ` set g}"
  by (induction s e g rule: gap_del.induct) auto

lemma gap_del_wf: "gap_wf g \<Longrightarrow> gap_wf (gap_del s e g)"
proof (induction s e g rule: gap_del.induct)
  case (2 s e t es g)
  have "t < u" if "(u, fs) \<in> set (gap_del s e g)" for u fs
    using that gap_del_keys [of s e g] 2 by force
  then show ?case using 2 by auto
qed simp

lemma gap_wf_not_later: "gap_wf ((t, es) # g) \<Longrightarrow> (t, e) \<notin> gap_elems g"
  using gap_elems_size by force

lemma gap_del_elems: "gap_wf g \<Longrightarrow> gap_elems (gap_del s e g) = gap_elems g - {(s, e)}"
proof (induction s e g rule: gap_del.induct)
  case (2 s e t es g)
  show ?case
  proof (cases "s = t")
    case True
    then have n: "(s, e) \<notin> gap_elems g" using 2 gap_wf_not_later by blast
    have d: "set (remove1 e es) = set es - {e}" using 2 by simp
    then have "remove1 e es = [] \<Longrightarrow> set es \<subseteq> {e}" by (metis Diff_eq_empty_iff set_empty)
    then show ?thesis using True n d by (auto simp del: set_remove1_eq)
  qed (use 2 in auto)
qed simp

lemma gap_nearest_None: "gap_nearest s g = None \<Longrightarrow> (t, e) \<in> gap_elems g \<Longrightarrow> t < s"
  by (induction g rule: gap_elems.induct) (auto split: if_splits)

lemma gap_nearest_Some:
  "gap_wf g \<Longrightarrow> gap_nearest s g = Some es \<Longrightarrow>
     es \<noteq> [] \<and> (\<exists>t \<ge> s. (\<forall>e. e \<in> set es \<longrightarrow> (t, e) \<in> gap_elems g) \<and>
                        (\<forall>u f. (u, f) \<in> gap_elems g \<and> s \<le> u \<longrightarrow> t \<le> u))"
proof (induction g rule: gap_elems.induct)
  case (2 t fs g)
  show ?case
  proof (cases "s \<le> t")
    case True
    then have "es = fs" using 2 by simp
    moreover have "t \<le> u" if "(u, f) \<in> gap_elems ((t, fs) # g)" for u f
      using that 2(2) gap_elems_size [of u f g] by fastforce
    ultimately show ?thesis using 2 True by (intro conjI exI [of _ t]) auto
  next
    case False
    then have "es \<noteq> [] \<and> (\<exists>t \<ge> s. (\<forall>e. e \<in> set es \<longrightarrow> (t, e) \<in> gap_elems g) \<and>
        (\<forall>u f. (u, f) \<in> gap_elems g \<and> s \<le> u \<longrightarrow> t \<le> u))"
      using 2 by simp
    then obtain v where v: "es \<noteq> []" "s \<le> v" "\<forall>e. e \<in> set es \<longrightarrow> (v, e) \<in> gap_elems g"
        "\<forall>u f. (u, f) \<in> gap_elems g \<and> s \<le> u \<longrightarrow> v \<le> u"
      by blast
    then show ?thesis using False by (intro conjI exI [of _ v]) auto
  qed
qed simp

interpretation gaps: gap_index gap_wf gap_elems gap_add gap_del gap_nearest
proof (unfold_locales, goal_cases)
  case 1 then show ?case by (rule gap_add_wf)
next
  case 2 show ?case by (rule gap_add_elems)
next
  case 3 then show ?case by (rule gap_del_wf)
next
  case 4 then show ?case by (rule gap_del_elems)
next
  case 5 show ?case by (rule gap_nearest_None [OF 5(2,3)])
next
  case 6 then show ?case by (rule gap_nearest_Some)
qed

subsection \<open>Neighbours in the list\<close>

definition hd_opt :: "'a list \<Rightarrow> 'a option" where
  "hd_opt xs = (case xs of [] \<Rightarrow> None | x # _ \<Rightarrow> Some x)"

lemma hd_opt_simps [simp]: "hd_opt [] = None" "hd_opt (x # xs) = Some x"
  by (simp_all add: hd_opt_def)

lemma hd_opt_iff: "hd_opt xs = Some x \<longleftrightarrow> (\<exists>ys. xs = x # ys)" "hd_opt xs = None \<longleftrightarrow> xs = []"
  by (cases xs; simp)+

lemma next_in_split: "e \<notin> set xs \<Longrightarrow> next_in (xs @ e # ys) e = Some (hd_opt ys)"
  by (induction xs) (auto simp: hd_opt_def)

lemma next_in_None: "next_in xs e = None \<longleftrightarrow> e \<notin> set xs"
  by (induction xs) auto

lemma vme_next_split:
  "m_list m = xs @ e # ys \<Longrightarrow> distinct (m_list m) \<Longrightarrow> vme_next m (Some e) = Some (hd_opt ys)"
  by (simp add: vme_next_def next_in_split)

lemma vme_prev_split:
  "m_list m = xs @ e # ys \<Longrightarrow> distinct (m_list m) \<Longrightarrow> vme_prev m (Some e) = Some (hd_opt (rev xs))"
  by (simp add: vme_prev_def next_in_split)

lemma vme_header: "vme_next m None = Some (hd_opt (m_list m))" "vme_prev m None = Some (hd_opt (rev (m_list m)))"
  by (simp_all add: vme_next_def vme_prev_def hd_opt_def)

lemma insert_after_split:
  "distinct (xs @ ys) \<Longrightarrow> insert_after (hd_opt (rev xs)) e (xs @ ys) = xs @ e # ys"
proof (cases xs rule: rev_cases)
  case (snoc zs z)
  have "z \<notin> set zs \<Longrightarrow> insert_after (Some z) e (zs @ z # ys) = zs @ z # e # ys" for zs by (induction zs) auto
  then show "distinct (xs @ ys) \<Longrightarrow> ?thesis" using snoc by simp
qed simp

lemma entry_at_split [simp]: "e \<in> set (m_list m) \<Longrightarrow> entry_at m e = Some (m_ent m e)"
  by (simp add: entry_at_def)

subsection \<open>Maps up to their gaps\<close>

definition regap :: "(nat \<times> nat list) list \<Rightarrow> (nat \<Rightarrow> nat) \<Rightarrow> vm_map \<Rightarrow> vm_map" where
  "regap g h m = m\<lparr>gap_tree := g, m_ent := (\<lambda>e. (m_ent m e)\<lparr>gap_size := h e\<rparr>)\<rparr>"

abbreviation gaps_of :: "vm_map \<Rightarrow> nat \<Rightarrow> nat" where
  "gaps_of m \<equiv> \<lambda>e. gap_size (m_ent m e)"

lemma regap_sel [simp]:
  "m_list (regap g h m) = m_list m" "m_fresh (regap g h m) = m_fresh m" "m_objects (regap g h m) = m_objects m"
  "gap_tree (regap g h m) = g" "min_offset (regap g h m) = min_offset m" "max_offset (regap g h m) = max_offset m"
  "m_size (regap g h m) = m_size m" "size_wired (regap g h m) = size_wired m" "m_hint (regap g h m) = m_hint m"
  "first_free (regap g h m) = first_free m" "wait_for_space (regap g h m) = wait_for_space m"
  "wiring_required (regap g h m) = wiring_required m" "aslr_enabled (regap g h m) = aslr_enabled m"
  "prefer_high_addr (regap g h m) = prefer_high_addr m" "aslr_entropy_bits (regap g h m) = aslr_entropy_bits m"
  "m_ent (regap g h m) e = (m_ent m e)\<lparr>gap_size := h e\<rparr>"
  by (simp_all add: regap_def)

lemma regap_regap [simp]: "regap g h (regap g' h' m) = regap g h m"
  by (simp add: regap_def)

lemma regap_self: "regap (gap_tree m) (gaps_of m) m = m"
  by (simp add: regap_def)

definition indexed :: "nat set \<Rightarrow> (nat \<times> nat list) list \<Rightarrow> (nat \<Rightarrow> nat) \<Rightarrow> bool" where
  "indexed S g h \<longleftrightarrow> gap_wf g \<and> gap_elems g = {(h e, e) | e. e \<in> S \<and> h e \<noteq> 0}"

lemma indexed_del:
  assumes "indexed S g h" "e \<in> S"
  shows "indexed (S - {e}) (if h e = 0 then g else gap_del (h e) e g) h"
  using assms unfolding indexed_def by (auto simp: gaps.del_wf gaps.del_elems)

lemma indexed_add:
  assumes "indexed S g h" "e \<notin> S"
  shows "indexed (insert e S) (if v = 0 then g else gap_add v e g) (h(e := v))"
  using assms unfolding indexed_def by (auto simp: gaps.add_wf gaps.add_elems)

lemma indexed_cong: "indexed S g h \<Longrightarrow> (\<And>e. e \<in> S \<Longrightarrow> h' e = h e) \<Longrightarrow> indexed S g h'"
  unfolding indexed_def by auto

definition limit :: "(nat \<Rightarrow> vm_map_entry) \<Rightarrow> nat \<Rightarrow> nat list \<Rightarrow> nat" where
  "limit ent hi ys = (case ys of [] \<Rightarrow> hi | n # _ \<Rightarrow> vme_start (ent n))"

lemma limit_simps [simp]: "limit ent hi [] = hi" "limit ent hi (n # ys) = vme_start (ent n)"
  by (simp_all add: limit_def)

lemma gap_remove_single_eq:
  "vm_map_gap_remove_single (Some e) m =
     regap (if gaps_of m e = 0 then gap_tree m else gap_del (gaps_of m e) e (gap_tree m)) (gaps_of m) m"
  by (simp add: vm_map_gap_remove_single_def Let_def regap_def)

lemma gap_insert_single_eq:
  assumes "m_list m = xs @ e # ys" "distinct (m_list m)"
    and "v = usub (limit (m_ent m) (max_offset m) ys) (vme_end (m_ent m e))"
  shows "vm_map_gap_insert_single (Some e) m =
     Some (regap (if v = 0 then gap_tree m else gap_add v e (gap_tree m)) ((gaps_of m)(e := v)) m)"
proof -
  have e: "(\<lambda>x. (m_ent m x)\<lparr>gap_size := if x = e then v else gaps_of m x\<rparr>) = (m_ent m)(e := (m_ent m e)\<lparr>gap_size := v\<rparr>)"
    by (rule ext) simp
  have "vm_map_gap_compute e m = Some (upd_entry e (\<lambda>x. x\<lparr>gap_size := v\<rparr>) m)"
    using assms by (cases ys) (simp_all add: vm_map_gap_compute_def vme_next_split upd_entry_def)
  then show ?thesis
    by (simp add: vm_map_gap_insert_single_def upd_entry_def regap_def Let_def e)
qed

lemma gap_update_eq:
  assumes "m_list m = xs @ e # ys" "distinct (m_list m)" "indexed S (gap_tree m) (gaps_of m)" "e \<in> S"
    and "v = usub (limit (m_ent m) (max_offset m) ys) (vme_end (m_ent m e))"
  obtains g where "vm_map_gap_update (Some e) m = Some (regap g ((gaps_of m)(e := v)) m)"
    "indexed S g ((gaps_of m)(e := v))"
proof -
  let ?g = "if gaps_of m e = 0 then gap_tree m else gap_del (gaps_of m e) e (gap_tree m)"
  let ?m = "regap ?g (gaps_of m) m"
  have l: "limit (m_ent ?m) (max_offset ?m) ys = limit (m_ent m) (max_offset m) ys" by (cases ys) simp_all
  have "vm_map_gap_update (Some e) m = Some (regap (if v = 0 then ?g else gap_add v e ?g) ((gaps_of m)(e := v)) m)"
    using gap_insert_single_eq [of ?m xs e ys v] assms l
    by (simp add: vm_map_gap_update_def gap_remove_single_eq)
  moreover have "indexed (insert e (S - {e})) (if v = 0 then ?g else gap_add v e ?g) ((gaps_of m)(e := v))"
    by (rule indexed_add [OF indexed_del [OF assms(3,4)]]) simp
  ultimately show thesis using that assms(4) by (simp add: insert_absorb)
qed

subsection \<open>Entries laid out in order\<close>

lemma uadd_eq: "a + b < ADDRS \<Longrightarrow> uadd a b = a + b"
  by (simp add: uadd_def)

lemma usub_eq: "b \<le> a \<Longrightarrow> a < ADDRS \<Longrightarrow> usub a b = a - b"
proof -
  assume a: "b \<le> a" "a < ADDRS"
  have "a + (ADDRS - b mod ADDRS) = (a - b) + ADDRS" using a by simp
  then show ?thesis using a unfolding usub_def by (metis mod_add_self2 mod_less less_imp_diff_less)
qed

fun laid_out :: "(nat \<Rightarrow> vm_map_entry) \<Rightarrow> nat \<Rightarrow> nat \<Rightarrow> nat list \<Rightarrow> bool" where
  "laid_out ent lo hi [] = (lo \<le> hi)"
| "laid_out ent lo hi (e # es) =
     (lo \<le> vme_start (ent e) \<and> vme_start (ent e) < vme_end (ent e) \<and> laid_out ent (vme_end (ent e)) hi es)"

fun last_end :: "(nat \<Rightarrow> vm_map_entry) \<Rightarrow> nat \<Rightarrow> nat list \<Rightarrow> nat" where
  "last_end ent lo [] = lo"
| "last_end ent lo (e # es) = last_end ent (vme_end (ent e)) es"

fun gaps_right :: "(nat \<Rightarrow> vm_map_entry) \<Rightarrow> (nat \<Rightarrow> nat) \<Rightarrow> nat \<Rightarrow> nat list \<Rightarrow> bool" where
  "gaps_right ent h hi [] = True"
| "gaps_right ent h hi (e # es) = (h e = limit ent hi es - vme_end (ent e) \<and> gaps_right ent h hi es)"

lemma last_end_app [simp]: "last_end ent lo (xs @ ys) = last_end ent (last_end ent lo xs) ys"
  by (induction xs arbitrary: lo) auto

lemma laid_out_app:
  "laid_out ent lo hi (xs @ ys) \<longleftrightarrow>
     laid_out ent lo (last_end ent lo xs) xs \<and> laid_out ent (last_end ent lo xs) hi ys"
  by (induction xs arbitrary: lo) auto

lemma laid_out_le: "laid_out ent lo hi xs \<Longrightarrow> lo \<le> hi"
  by (induction xs arbitrary: lo) (auto intro: le_trans less_imp_le dest: order_trans)

lemma laid_out_limit: "laid_out ent lo hi xs \<Longrightarrow> lo \<le> limit ent hi xs \<and> limit ent hi xs \<le> hi"
  by (cases xs) (auto dest: laid_out_le)

lemma laid_out_last: "laid_out ent lo hi xs \<longleftrightarrow> laid_out ent lo (last_end ent lo xs) xs \<and> last_end ent lo xs \<le> hi"
  using laid_out_app [of ent lo hi xs "[]"] by simp

lemma laid_out_ent:
  "laid_out ent lo hi xs \<Longrightarrow> e \<in> set xs \<Longrightarrow> lo \<le> vme_start (ent e) \<and> vme_start (ent e) < vme_end (ent e) \<and> vme_end (ent e) \<le> hi"
proof (induction xs arbitrary: lo)
  case (Cons x xs)
  then show ?case using laid_out_le [of ent "vme_end (ent x)" hi xs] by fastforce
qed simp

lemma limit_app: "limit ent hi (xs @ ys) = limit ent (limit ent hi ys) xs"
  by (cases xs) auto

lemma gaps_right_app:
  "gaps_right ent h hi (xs @ ys) \<longleftrightarrow> gaps_right ent h (limit ent hi ys) xs \<and> gaps_right ent h hi ys"
  by (induction xs) (auto simp: limit_app)

definition same_bounds :: "(nat \<Rightarrow> vm_map_entry) \<Rightarrow> (nat \<Rightarrow> vm_map_entry) \<Rightarrow> nat list \<Rightarrow> bool" where
  "same_bounds ent ent' xs \<longleftrightarrow>
     (\<forall>e. e \<in> set xs \<longrightarrow> vme_start (ent' e) = vme_start (ent e) \<and> vme_end (ent' e) = vme_end (ent e))"

lemma same_bounds_simps [simp]:
  "same_bounds ent ent' []"
  "same_bounds ent ent' (e # es) \<longleftrightarrow>
     vme_start (ent' e) = vme_start (ent e) \<and> vme_end (ent' e) = vme_end (ent e) \<and> same_bounds ent ent' es"
  "same_bounds ent ent' (xs @ ys) \<longleftrightarrow> same_bounds ent ent' xs \<and> same_bounds ent ent' ys"
  by (auto simp: same_bounds_def)

lemma laid_out_same: "same_bounds ent ent' xs \<Longrightarrow> laid_out ent' lo hi xs = laid_out ent lo hi xs"
  by (induction xs arbitrary: lo) auto

lemma last_end_same: "same_bounds ent ent' xs \<Longrightarrow> last_end ent' lo xs = last_end ent lo xs"
  by (induction xs arbitrary: lo) auto

lemma limit_same: "same_bounds ent ent' xs \<Longrightarrow> limit ent' hi xs = limit ent hi xs"
  by (cases xs) auto

lemma gaps_right_same:
  "same_bounds ent ent' xs \<Longrightarrow> (\<And>e. e \<in> set xs \<Longrightarrow> h' e = h e) \<Longrightarrow> gaps_right ent' h' hi xs = gaps_right ent h hi xs"
  by (induction xs) (auto simp: limit_same)

lemma gaps_right_upd [simp]: "n \<notin> set xs \<Longrightarrow> gaps_right ent (h(n := v)) hi xs = gaps_right ent h hi xs"
  by (induction xs) auto

text \<open>The gaps of all entries but the last.\<close>

definition gaps_inner :: "(nat \<Rightarrow> vm_map_entry) \<Rightarrow> (nat \<Rightarrow> nat) \<Rightarrow> nat list \<Rightarrow> bool" where
  "gaps_inner ent h xs \<longleftrightarrow> (\<forall>zs z. xs = zs @ [z] \<longrightarrow> gaps_right ent h (vme_start (ent z)) zs)"

lemma gaps_inner_snoc [simp]: "gaps_inner ent h (zs @ [z]) \<longleftrightarrow> gaps_right ent h (vme_start (ent z)) zs"
  by (simp add: gaps_inner_def)

lemma gaps_inner_Nil [simp]: "gaps_inner ent h []"
  by (simp add: gaps_inner_def)

lemma gaps_right_inner: "gaps_right ent h hi xs \<Longrightarrow> gaps_inner ent h xs"
  by (auto simp: gaps_inner_def gaps_right_app)

subsection \<open>Linking and unlinking\<close>

lemma gap_update_None [simp]: "vm_map_gap_update None m = Some m"
  by (simp add: vm_map_gap_update_def vm_map_gap_remove_single_def vm_map_gap_insert_single_def)

lemma gap_update_ok:
  assumes l: "m_list m = xs @ ys" and d: "distinct (xs @ ys)"
    and i: "indexed (set (xs @ ys)) (gap_tree m) (gaps_of m)"
    and r: "gaps_inner (m_ent m) (gaps_of m) xs" "gaps_right (m_ent m) (gaps_of m) (max_offset m) ys"
    and lo: "laid_out (m_ent m) lo (max_offset m) (xs @ ys)" and mx: "max_offset m < ADDRS"
  obtains g h where "vm_map_gap_update (hd_opt (rev xs)) m = Some (regap g h m)"
    "indexed (set (xs @ ys)) g h" "gaps_right (m_ent m) h (max_offset m) (xs @ ys)"
proof (cases xs rule: rev_cases)
  case Nil
  show thesis by (rule that [of "gap_tree m" "gaps_of m"]) (use Nil i r in \<open>simp_all add: regap_self\<close>)
next
  case (snoc zs z)
  define u where "u = limit (m_ent m) (max_offset m) ys - vme_end (m_ent m z)"
  have "laid_out (m_ent m) (vme_end (m_ent m z)) (max_offset m) ys" using lo snoc by (auto simp: laid_out_app)
  from laid_out_limit [OF this]
  have u: "u = usub (limit (m_ent m) (max_offset m) ys) (vme_end (m_ent m z))" using mx by (simp add: usub_eq u_def)
  obtain g where g: "vm_map_gap_update (Some z) m = Some (regap g ((gaps_of m)(z := u)) m)"
    "indexed (set (xs @ ys)) g ((gaps_of m)(z := u))"
    using gap_update_eq [of m zs z ys "set (xs @ ys)", OF _ _ _ _ u] l snoc d i by auto
  have "gaps_right (m_ent m) ((gaps_of m)(z := u)) (vme_start (m_ent m z)) zs"
      "gaps_right (m_ent m) ((gaps_of m)(z := u)) (max_offset m) ys"
    using r d snoc by auto
  then have "gaps_right (m_ent m) ((gaps_of m)(z := u)) (max_offset m) (xs @ ys)"
    using snoc by (simp add: gaps_right_app u_def)
  then show thesis using that [OF _ g(2)] g(1) snoc by simp
qed

lemma entry_link_eq:
  assumes "m_list m = xs @ ys" "distinct (xs @ n # ys)"
  shows "vm_map_entry_link (hd_opt (rev xs)) n m =
    vm_map_gap_update (hd_opt (rev xs)) (m\<lparr>m_list := xs @ n # ys\<rparr>) \<bind> vm_map_gap_insert_single (Some n)"
proof -
  have "vme_prev (m\<lparr>m_list := xs @ n # ys\<rparr>) (Some n) = Some (hd_opt (rev xs))"
    by (rule vme_prev_split) (use assms in auto)
  moreover have "insert_after (hd_opt (rev xs)) n (m_list m) = xs @ n # ys"
    using assms insert_after_split [of xs ys n] by auto
  moreover have "case hd_opt (rev xs) of None \<Rightarrow> True | Some a \<Rightarrow> a \<in> set (m_list m)"
    using assms by (cases xs rule: rev_cases) auto
  ultimately show ?thesis by (simp add: vm_map_entry_link_def vm_map_gap_insert_def)
qed

lemma entry_link_ok:
  assumes l: "m_list m = xs @ ys" and d: "distinct (xs @ n # ys)"
    and i: "indexed (set (xs @ ys)) (gap_tree m) (gaps_of m)"
    and r: "gaps_inner (m_ent m) (gaps_of m) xs" "gaps_right (m_ent m) (gaps_of m) (max_offset m) ys"
    and lo: "laid_out (m_ent m) lo (max_offset m) (xs @ n # ys)" and mx: "max_offset m < ADDRS"
  obtains g h where "vm_map_entry_link (hd_opt (rev xs)) n m = Some (regap g h (m\<lparr>m_list := xs @ n # ys\<rparr>))"
    "indexed (set (xs @ n # ys)) g h" "gaps_right (m_ent m) h (max_offset m) (xs @ n # ys)"
proof -
  let ?m = "m\<lparr>m_list := xs @ n # ys\<rparr>"
  define v where "v = limit (m_ent m) (max_offset m) ys - vme_end (m_ent m n)"
  have ln: "vme_end (m_ent m n) \<le> limit (m_ent m) (max_offset m) ys" "limit (m_ent m) (max_offset m) ys < ADDRS"
    using lo laid_out_limit [of "m_ent m" "vme_end (m_ent m n)" "max_offset m" ys] mx by (auto simp: laid_out_app)
  then have vn: "v = usub (limit (m_ent m) (max_offset m) ys) (vme_end (m_ent m n))"
    by (simp add: usub_eq v_def)
  note eq = entry_link_eq [OF l d]
  show thesis
  proof (cases xs rule: rev_cases)
    case Nil
    have s: "vm_map_gap_insert_single (Some n) ?m =
        Some (regap (if v = 0 then gap_tree m else gap_add v n (gap_tree m)) ((gaps_of m)(n := v)) ?m)"
      using gap_insert_single_eq [of ?m "[]" n ys v] vn Nil d by simp
    have a: "indexed (set (xs @ n # ys)) (if v = 0 then gap_tree m else gap_add v n (gap_tree m)) ((gaps_of m)(n := v))"
      using indexed_add [of "set ys" "gap_tree m" "gaps_of m" n v] i d Nil by simp
    have b: "gaps_right (m_ent m) ((gaps_of m)(n := v)) (max_offset m) (xs @ n # ys)"
      using r(2) d Nil by (auto simp: v_def)
    have "vm_map_entry_link (hd_opt (rev xs)) n m =
        Some (regap (if v = 0 then gap_tree m else gap_add v n (gap_tree m)) ((gaps_of m)(n := v)) ?m)"
      using s Nil eq by simp
    then show thesis by (rule that [OF _ a b])
  next
    case (snoc zs z)
    define u where "u = vme_start (m_ent m n) - vme_end (m_ent m z)"
    have "vme_end (m_ent m z) \<le> vme_start (m_ent m n)" "vme_start (m_ent m n) < ADDRS"
      using lo snoc ln by (auto simp: laid_out_app)
    then have vz: "u = usub (vme_start (m_ent m n)) (vme_end (m_ent m z))" by (simp add: usub_eq u_def)
    obtain g where g: "vm_map_gap_update (Some z) ?m = Some (regap g ((gaps_of m)(z := u)) ?m)"
      "indexed (set (xs @ ys)) g ((gaps_of m)(z := u))"
      using gap_update_eq [of ?m zs z "n # ys" "set (xs @ ys)" u] snoc d i vz by auto
    let ?m2 = "regap g ((gaps_of m)(z := u)) ?m"
    have lim: "limit (m_ent ?m2) (max_offset ?m2) ys = limit (m_ent m) (max_offset m) ys" by (cases ys) simp_all
    let ?g = "if v = 0 then g else gap_add v n g" and ?h = "(gaps_of m)(z := u, n := v)"
    have v2: "v = usub (limit (m_ent ?m2) (max_offset ?m2) ys) (vme_end (m_ent ?m2 n))" using vn lim by simp
    have h2: "gaps_of ?m2 = (gaps_of m)(z := u)" by (rule ext) simp
    have s: "vm_map_gap_insert_single (Some n) ?m2 = Some (regap ?g ?h ?m)"
      using gap_insert_single_eq [of ?m2 xs n ys, OF _ _ v2, unfolded h2] d by (simp del: fun_upd_apply)
    have a: "indexed (set (xs @ n # ys)) ?g ?h"
      using indexed_add [OF g(2), of n v] d by simp
    have "gaps_right (m_ent m) ?h (vme_start (m_ent m z)) zs" "gaps_right (m_ent m) ?h (max_offset m) ys"
      using r d snoc by auto
    moreover have "?h n = v" "?h z = u" using snoc d by auto
    ultimately have b: "gaps_right (m_ent m) ?h (max_offset m) (xs @ n # ys)"
      using snoc by (simp add: gaps_right_app v_def u_def)
    have "vm_map_entry_link (hd_opt (rev xs)) n m = Some (regap ?g ?h ?m)"
      using s snoc eq g(1) by simp
    then show thesis by (rule that [OF _ a b])
  qed
qed

lemma entry_unlink_ok:
  assumes l: "m_list m = xs @ e # ys" and d: "distinct (xs @ e # ys)"
    and i: "indexed (set (xs @ e # ys)) (gap_tree m) (gaps_of m)"
    and r: "gaps_inner (m_ent m) (gaps_of m) xs" "gaps_right (m_ent m) (gaps_of m) (max_offset m) ys"
    and lo: "laid_out (m_ent m) lo (max_offset m) (xs @ ys)" and mx: "max_offset m < ADDRS"
  obtains g h where "vm_map_entry_unlink e m = Some (regap g h (m\<lparr>m_list := xs @ ys\<rparr>))"
    "indexed (set (xs @ ys)) g h" "gaps_right (m_ent m) h (max_offset m) (xs @ ys)"
proof -
  let ?g = "if gaps_of m e = 0 then gap_tree m else gap_del (gaps_of m e) e (gap_tree m)"
  let ?m = "m\<lparr>m_list := xs @ ys, gap_tree := ?g\<rparr>"
  have pv: "vme_prev m (Some e) = Some (hd_opt (rev xs))" by (rule vme_prev_split) (use l d in auto)
  have rm: "remove1 e (m_list m) = xs @ ys" using l d by (simp add: remove1_append)
  have "vm_map_gap_remove_single (Some e) (m\<lparr>m_list := xs @ ys\<rparr>) = ?m"
    by (simp add: vm_map_gap_remove_single_def Let_def)
  then have eq: "vm_map_entry_unlink e m = vm_map_gap_update (hd_opt (rev xs)) ?m"
    using pv by (simp only: vm_map_entry_unlink_def vm_map_gap_remove_def rm bind.bind_lunit)
  have i2: "indexed (set (xs @ ys)) ?g (gaps_of m)"
    using indexed_del [OF i, of e] d by (simp add: insert_Diff_if split: if_splits)
  obtain g h where gh: "vm_map_gap_update (hd_opt (rev xs)) ?m = Some (regap g h ?m)"
    "indexed (set (xs @ ys)) g h" "gaps_right (m_ent ?m) h (max_offset ?m) (xs @ ys)"
    by (rule gap_update_ok [of ?m xs ys lo]) (use d i2 r lo mx in auto)
  show thesis by (rule that [OF _ gh(2)]) (use eq gh in \<open>simp_all add: regap_def\<close>)
qed

end
