(* ===== verification/Vm_Inv.thy ===== *)
theory Vm_Inv
  imports Vm_Gaps
begin

text \<open>
  The invariant of an address map, what a map says of each address, and that splitting,
  merging, extending and deleting entries keep both.
\<close>

subsection \<open>The invariant\<close>

definition ptr_ok :: "nat list \<Rightarrow> nat option \<Rightarrow> bool" where
  "ptr_ok xs p = (case p of None \<Rightarrow> True | Some e \<Rightarrow> e \<in> set xs)"

lemma ptr_ok_simps [simp]: "ptr_ok xs None" "ptr_ok xs (Some e) = (e \<in> set xs)"
  by (simp_all add: ptr_ok_def)

definition total_size :: "(nat \<Rightarrow> vm_map_entry) \<Rightarrow> nat list \<Rightarrow> nat" where
  "total_size ent xs = (\<Sum>e\<leftarrow>xs. vme_end (ent e) - vme_start (ent e))"

lemma total_size_simps [simp]:
  "total_size ent [] = 0"
  "total_size ent (e # es) = vme_end (ent e) - vme_start (ent e) + total_size ent es"
  "total_size ent (xs @ ys) = total_size ent xs + total_size ent ys"
  by (simp_all add: total_size_def)

lemma total_size_same: "same_bounds ent ent' xs \<Longrightarrow> total_size ent' xs = total_size ent xs"
  by (induction xs) auto

lemma total_size_bound: "laid_out ent lo hi xs \<Longrightarrow> total_size ent xs \<le> hi - lo"
proof (induction xs arbitrary: lo)
  case (Cons x xs)
  then show ?case using laid_out_le [of ent "vme_end (ent x)" hi xs] by fastforce
qed simp

definition map_core :: "vm_map \<Rightarrow> bool" where
  "map_core m \<longleftrightarrow>
     distinct (m_list m) \<and> list_all (\<lambda>e. e < m_fresh m) (m_list m) \<and>
     laid_out (m_ent m) (min_offset m) (max_offset m) (m_list m) \<and> max_offset m < ADDRS \<and>
     ptr_ok (m_list m) (m_hint m) \<and> ptr_ok (m_list m) (first_free m) \<and>
     m_size m = total_size (m_ent m) (m_list m)"

definition map_inv :: "vm_map \<Rightarrow> bool" where
  "map_inv m \<longleftrightarrow>
     map_core m \<and> indexed (set (m_list m)) (gap_tree m) (gaps_of m) \<and>
     gaps_right (m_ent m) (gaps_of m) (max_offset m) (m_list m)"

lemma map_invD:
  assumes "map_inv m"
  shows "distinct (m_list m)" "laid_out (m_ent m) (min_offset m) (max_offset m) (m_list m)" "max_offset m < ADDRS"
    "ptr_ok (m_list m) (m_hint m)" "ptr_ok (m_list m) (first_free m)"
    "indexed (set (m_list m)) (gap_tree m) (gaps_of m)" "gaps_right (m_ent m) (gaps_of m) (max_offset m) (m_list m)"
    "m_size m = total_size (m_ent m) (m_list m)"
  using assms by (simp_all add: map_inv_def map_core_def)

lemma fresh_not_in: "map_inv m \<Longrightarrow> m_fresh m \<notin> set (m_list m)"
  by (auto simp: map_inv_def map_core_def list_all_iff)

lemma same_bounds_regap [simp]: "same_bounds ent (\<lambda>e. (ent e)\<lparr>gap_size := h e\<rparr>) xs"
  by (simp add: same_bounds_def)

lemma m_ent_regap: "m_ent (regap g h m) = (\<lambda>e. (m_ent m e)\<lparr>gap_size := h e\<rparr>)"
  by (simp add: regap_def)

lemma map_core_regap [simp]: "map_core (regap g h m) = map_core m"
  unfolding map_core_def m_ent_regap
  by (simp add: laid_out_same [OF same_bounds_regap] total_size_same [OF same_bounds_regap])

lemma map_inv_regap:
  "map_inv (regap g h m) \<longleftrightarrow>
     map_core m \<and> indexed (set (m_list m)) g h \<and> gaps_right (m_ent m) h (max_offset m) (m_list m)"
  unfolding map_inv_def map_core_regap
  by (simp add: m_ent_regap gaps_right_same [OF same_bounds_regap, of _ h h])

subsection \<open>What a map says of an address\<close>

type_synonym attributes = "nat \<times> nat \<times> nat \<times> bool \<times> bool \<times> bool \<times> nat \<times> nat"

definition attrs :: "vm_map_entry \<Rightarrow> attributes" where
  "attrs x = (protection x, max_protection x, inheritance x, is_shared x, is_sub_map x, in_transition x,
              wired_count x, projected_on x)"

text \<open>The object behind an address and the offset in it.\<close>

definition backing :: "vm_map_entry \<Rightarrow> nat \<Rightarrow> (nat \<times> nat) option" where
  "backing x a = map_option (\<lambda>ob. (ob, uadd (vme_offset x) (a - vme_start x))) (vme_object x)"

fun view_in :: "(nat \<Rightarrow> vm_map_entry) \<Rightarrow> nat list \<Rightarrow> nat \<Rightarrow> (attributes \<times> (nat \<times> nat) option) option" where
  "view_in ent [] a = None"
| "view_in ent (e # es) a =
     (if vme_start (ent e) \<le> a \<and> a < vme_end (ent e) then Some (attrs (ent e), backing (ent e) a)
      else view_in ent es a)"

definition mapped :: "vm_map \<Rightarrow> nat \<Rightarrow> (attributes \<times> (nat \<times> nat) option) option" where
  "mapped m a = view_in (m_ent m) (m_list m) a"

lemma view_in_app: "view_in ent (xs @ ys) a = (case view_in ent xs a of None \<Rightarrow> view_in ent ys a | Some v \<Rightarrow> Some v)"
  by (induction xs) auto

lemma view_in_range: "laid_out ent lo hi xs \<Longrightarrow> a < lo \<or> hi \<le> a \<Longrightarrow> view_in ent xs a = None"
proof (induction xs arbitrary: lo)
  case (Cons x xs)
  then show ?case using laid_out_le [of ent "vme_end (ent x)" hi xs] by fastforce
qed simp

lemma view_in_same:
  "(\<And>e. e \<in> set xs \<Longrightarrow> vme_start (ent' e) = vme_start (ent e) \<and> vme_end (ent' e) = vme_end (ent e) \<and>
      attrs (ent' e) = attrs (ent e) \<and> (\<forall>a. backing (ent' e) a = backing (ent e) a)) \<Longrightarrow>
   view_in ent' xs a = view_in ent xs a"
  by (induction xs) auto

lemma mapped_regap [simp]: "mapped (regap g h m) = mapped m"
proof
  show "mapped (regap g h m) a = mapped m a" for a
    unfolding mapped_def m_ent_regap regap_sel by (rule view_in_same) (simp add: attrs_def backing_def)
qed

text \<open>A change that keeps the attributes of all addresses, and the object behind an address
  that has one.\<close>

definition keeps :: "(attributes \<times> (nat \<times> nat) option) option \<Rightarrow> (attributes \<times> (nat \<times> nat) option) option \<Rightarrow> bool" where
  "keeps v w \<longleftrightarrow> map_option fst w = map_option fst v \<and> (\<forall>A b. v = Some (A, Some b) \<longrightarrow> w = v)"

lemma keeps_refl [simp]: "keeps v v"
  by (simp add: keeps_def)

lemma keeps_trans: "keeps u v \<Longrightarrow> keeps v w \<Longrightarrow> keeps u w"
  by (auto simp: keeps_def)

lemma keeps_None [simp]: "keeps None w \<longleftrightarrow> w = None" "keeps v None \<longleftrightarrow> v = None"
  by (auto simp: keeps_def)

subsection \<open>Objects do not matter to the invariant\<close>

lemma map_inv_objects [simp]: "map_inv (m\<lparr>m_objects := obs\<rparr>) = map_inv m"
  by (simp add: map_inv_def map_core_def)

lemma mapped_objects [simp]: "mapped (m\<lparr>m_objects := obs\<rparr>) = mapped m"
  by (simp add: mapped_def fun_eq_iff)

lemma entry_reference_eq: obtains obs where "entry_reference x m = m\<lparr>m_objects := obs\<rparr>"
proof
  show "entry_reference x m = m\<lparr>m_objects := m_objects (entry_reference x m)\<rparr>"
    by (cases "vme_object x") (simp_all add: entry_reference_def vm_object_reference_def upd_object_def)
qed

lemma deallocate_eq: obtains obs where "vm_object_deallocate p m = m\<lparr>m_objects := obs\<rparr>"
proof
  show "vm_object_deallocate p m = m\<lparr>m_objects := m_objects (vm_object_deallocate p m)\<rparr>"
    by (cases p) (simp_all add: vm_object_deallocate_def upd_object_def)
qed

lemma coalesce_eq:
  obtains r obs where "vm_object_coalesce V p q po qo ps qs m = (r, m\<lparr>m_objects := obs\<rparr>)"
proof -
  have "\<exists>r obs. vm_object_coalesce V p q po qo ps qs m = (r, m\<lparr>m_objects := obs\<rparr>)"
    by (cases p; cases q)
      (auto simp: vm_object_coalesce_def vm_object_deallocate_def upd_object_def collapse_def Let_def
            intro: exI [of _ "m_objects m"])
  then show thesis using that by blast
qed

subsection \<open>Splitting\<close>

lemma ent_upd [simp]:
  assumes "n \<notin> set xs"
  shows "laid_out (ent(n := x)) lo hi xs = laid_out ent lo hi xs"
    "last_end (ent(n := x)) lo xs = last_end ent lo xs"
    "limit (ent(n := x)) hi xs = limit ent hi xs"
    "gaps_right (ent(n := x)) h hi xs = gaps_right ent h hi xs"
    "total_size (ent(n := x)) xs = total_size ent xs"
    "view_in (ent(n := x)) xs a = view_in ent xs a"
proof -
  have b: "same_bounds ent (ent(n := x)) xs" using assms by (auto simp: same_bounds_def)
  show "laid_out (ent(n := x)) lo hi xs = laid_out ent lo hi xs" by (rule laid_out_same [OF b])
  show "last_end (ent(n := x)) lo xs = last_end ent lo xs" by (rule last_end_same [OF b])
  show "limit (ent(n := x)) hi xs = limit ent hi xs" by (rule limit_same [OF b])
  show "gaps_right (ent(n := x)) h hi xs = gaps_right ent h hi xs" by (rule gaps_right_same [OF b]) simp
  show "total_size (ent(n := x)) xs = total_size ent xs" by (rule total_size_same [OF b])
  show "view_in (ent(n := x)) xs a = view_in ent xs a" by (rule view_in_same) (use assms in auto)
qed

lemma gaps_inner_upd [simp]: "n \<notin> set xs \<Longrightarrow> gaps_inner (ent(n := x)) h xs = gaps_inner ent h xs"
  by (cases xs rule: rev_cases) auto

lemma gaps_inner_upd_h [simp]: "n \<notin> set xs \<Longrightarrow> gaps_inner ent (h(n := v)) xs = gaps_inner ent h xs"
  by (cases xs rule: rev_cases) auto

lemma indexed_upd [simp]: "n \<notin> S \<Longrightarrow> indexed S g (h(n := v)) = indexed S g h"
  by (auto intro: indexed_cong)

lemma gaps_of_upd: "(\<lambda>e. gap_size ((ent(n := x)) e)) = (\<lambda>e. gap_size (ent e))(n := gap_size x)"
  by (rule ext) simp

lemma uadd_uadd: "uadd (uadd x y) z = uadd x (y + z)"
  by (simp add: uadd_def mod_simps add.assoc)

lemma map_inv_ent:
  assumes "map_inv m" "m_list m = xs @ e # ys"
  shows "vme_start (m_ent m e) < vme_end (m_ent m e)" "vme_end (m_ent m e) < ADDRS"
    "vme_end (m_ent m e) \<le> max_offset m" "min_offset m \<le> vme_start (m_ent m e)"
  using laid_out_ent [OF map_invD(2) [OF assms(1)], of e] map_invD(3) [OF assms(1)] assms(2) by auto

lemma map_inv_fresh: "map_inv m \<Longrightarrow> e \<in> set (m_list m) \<Longrightarrow> e < m_fresh m"
  by (auto simp: map_inv_def map_core_def list_all_iff)

definition front :: "nat \<Rightarrow> vm_map_entry \<Rightarrow> vm_map_entry" where
  "front a x = x\<lparr>vme_end := a\<rparr>"

definition rear :: "nat \<Rightarrow> vm_map_entry \<Rightarrow> vm_map_entry" where
  "rear a x = x\<lparr>vme_offset := uadd (vme_offset x) (a - vme_start x), vme_start := a\<rparr>"

lemma front_rear_sel [simp]:
  "vme_start (front a x) = vme_start x" "vme_end (front a x) = a" "gap_size (front a x) = gap_size x"
  "attrs (front a x) = attrs x" "backing (front a x) = backing x"
  "vme_start (rear a x) = a" "vme_end (rear a x) = vme_end x" "gap_size (rear a x) = gap_size x"
  "attrs (rear a x) = attrs x"
  by (simp_all add: front_def rear_def attrs_def backing_def fun_eq_iff)

lemma backing_rear [simp]: "vme_start x \<le> a \<Longrightarrow> a \<le> b \<Longrightarrow> backing (rear a x) b = backing x b"
  by (simp add: backing_def rear_def uadd_uadd)

lemma view_in_split:
  assumes "vme_start (ent e) < a" "a < vme_end (ent e)" "u \<noteq> v" "e \<in> {u, v}" "u \<notin> set xs \<union> set ys" "v \<notin> set xs \<union> set ys"
  shows "view_in (ent(u := front a (ent e), v := rear a (ent e))) (xs @ u # v # ys) b = view_in ent (xs @ e # ys) b"
  using assms by (auto simp: view_in_app split: option.splits)

text \<open>The result of a split: \<open>u\<close> is the front and \<open>v\<close> the rear, one of them the old entry and
  the other a new one.\<close>

definition split_map :: "nat \<Rightarrow> nat \<Rightarrow> nat \<Rightarrow> nat \<Rightarrow> nat list \<Rightarrow> nat list \<Rightarrow> vm_map \<Rightarrow> vm_map" where
  "split_map u v e a xs ys m =
     m\<lparr>m_list := xs @ u # v # ys, m_ent := (m_ent m)(u := front a (m_ent m e), v := rear a (m_ent m e)),
       m_fresh := m_fresh m + 1\<rparr>"

lemma split_map_ok:
  assumes inv: "map_inv m" and l: "m_list m = xs @ e # ys" and a: "vme_start (m_ent m e) < a" "a < vme_end (m_ent m e)"
    and uv: "{u, v} = {e, m_fresh m}"
  shows "map_core (split_map u v e a xs ys m)" "mapped (split_map u v e a xs ys m) = mapped m"
proof -
  have f: "m_fresh m \<notin> set (m_list m)" by (rule fresh_not_in [OF inv])
  have d: "distinct (m_list m)" by (rule map_invD(1) [OF inv])
  then have n: "u \<noteq> v" "e \<in> {u, v}" "u \<notin> set xs \<union> set ys" "v \<notin> set xs \<union> set ys"
    using f l uv by (auto simp: doubleton_eq_iff)
  have fr: "list_all (\<lambda>x. x < m_fresh m) (m_list m)" using inv by (simp add: map_inv_def map_core_def)
  have p: "ptr_ok (xs @ e # ys) q \<Longrightarrow> ptr_ok (xs @ u # v # ys) q" for q
    using n(2) by (cases q) auto
  have "distinct (xs @ u # v # ys)" using d l n by auto
  moreover have "list_all (\<lambda>x. x < Suc (m_fresh m)) (xs @ u # v # ys)"
    using fr l uv by (auto simp: list_all_iff doubleton_eq_iff less_Suc_eq)
  ultimately show "map_core (split_map u v e a xs ys m)"
    using map_invD [OF inv] l n a p by (simp add: map_core_def split_map_def laid_out_app)
  show "mapped (split_map u v e a xs ys m) = mapped m"
    using view_in_split [of "m_ent m" e, OF a n] l by (simp add: mapped_def split_map_def fun_eq_iff)
qed

lemma split_start_ok:
  assumes inv: "map_inv m" and l: "m_list m = xs @ e # ys" and a: "vme_start (m_ent m e) < a" "a < vme_end (m_ent m e)"
  obtains g h obs where
    "split_start e a m = Some ((regap g h (split_map (m_fresh m) e e a xs ys m))\<lparr>m_objects := obs\<rparr>)"
    "map_inv (regap g h (split_map (m_fresh m) e e a xs ys m))"
proof -
  let ?n = "m_fresh m" and ?x = "m_ent m e"
  let ?S = "split_map ?n e e a xs ys m"
  let ?m = "?S\<lparr>m_list := m_list m\<rparr>"
  have f: "?n \<notin> set (xs @ e # ys)" using fresh_not_in [OF inv] l by simp
  have d: "distinct (xs @ e # ys)" using map_invD(1) [OF inv] l by simp
  have core: "map_core ?S" by (rule split_map_ok [OF inv l a]) auto
  note I = map_invD [OF inv]
  have u: "usub a (vme_start ?x) = a - vme_start ?x"
    using a map_inv_ent(2) [OF inv l] by (intro usub_eq) auto
  have h: "gaps_of ?m = (gaps_of m)(?n := gaps_of m e)" by (rule ext) (simp add: split_map_def)
  obtain g h where gh: "vm_map_entry_link (hd_opt (rev xs)) ?n ?m = Some (regap g h (?m\<lparr>m_list := xs @ ?n # e # ys\<rparr>))"
    "indexed (set (xs @ ?n # e # ys)) g h" "gaps_right (m_ent ?m) h (max_offset ?m) (xs @ ?n # e # ys)"
  proof (rule entry_link_ok [of ?m xs "e # ys" ?n "min_offset m"])
    show "m_list ?m = xs @ e # ys" using l by simp
    show "distinct (xs @ ?n # e # ys)" using d f by auto
    show "indexed (set (xs @ e # ys)) (gap_tree ?m) (gaps_of ?m)"
      unfolding h using I(6) l f by (simp add: split_map_def)
    show "gaps_inner (m_ent ?m) (gaps_of ?m) xs"
      unfolding h using gaps_right_inner I(7) l f d by (auto simp: split_map_def gaps_right_app)
    show "gaps_right (m_ent ?m) (gaps_of ?m) (max_offset ?m) (e # ys)"
      unfolding h using I(7) l f d by (auto simp: split_map_def gaps_right_app)
    show "laid_out (m_ent ?m) (min_offset m) (max_offset ?m) (xs @ ?n # e # ys)" "max_offset ?m < ADDRS"
      using core by (auto simp: map_core_def split_map_def)
  qed blast
  have m: "?m\<lparr>m_list := xs @ ?n # e # ys\<rparr> = ?S" by (simp add: split_map_def)
  have "map_inv (regap g h ?S)" using core gh(2,3) by (simp add: map_inv_regap split_map_def)
  moreover have c: "upd_entry e (\<lambda>x. x\<lparr>vme_offset := uadd (vme_offset x) (usub a (vme_start x)), vme_start := a\<rparr>)
      (snd (vm_map_entry_create (?x\<lparr>vme_end := a\<rparr>) m)) = ?m"
    using f u by (simp add: upd_entry_def vm_map_entry_create_def split_map_def front_def rear_def fun_upd_twist)
  moreover have "vme_prev ?m (Some e) = Some (hd_opt (rev xs))" by (rule vme_prev_split) (use l d in auto)
  moreover obtain obs where "entry_reference ?x (regap g h ?S) = (regap g h ?S)\<lparr>m_objects := obs\<rparr>"
    by (rule entry_reference_eq)
  ultimately show thesis
    using that gh(1) l unfolding m
    by (simp add: split_start_def vm_map_entry_create_def Let_def)
qed

lemma split_end_ok:
  assumes inv: "map_inv m" and l: "m_list m = xs @ e # ys" and a: "vme_start (m_ent m e) < a" "a < vme_end (m_ent m e)"
  obtains g h obs where
    "split_end e a m = Some ((regap g h (split_map e (m_fresh m) e a xs ys m))\<lparr>m_objects := obs\<rparr>)"
    "map_inv (regap g h (split_map e (m_fresh m) e a xs ys m))"
proof -
  let ?n = "m_fresh m" and ?x = "m_ent m e"
  let ?S = "split_map e ?n e a xs ys m"
  let ?m = "?S\<lparr>m_list := m_list m\<rparr>"
  have f: "?n \<notin> set (xs @ e # ys)" using fresh_not_in [OF inv] l by simp
  have d: "distinct (xs @ e # ys)" using map_invD(1) [OF inv] l by simp
  have core: "map_core ?S" by (rule split_map_ok [OF inv l a]) auto
  note I = map_invD [OF inv]
  have u: "usub a (vme_start ?x) = a - vme_start ?x"
    using a map_inv_ent(2) [OF inv l] by (intro usub_eq) auto
  have h: "gaps_of ?m = (gaps_of m)(?n := gaps_of m e)" by (rule ext) (simp add: split_map_def)
  obtain g h where gh: "vm_map_entry_link (hd_opt (rev (xs @ [e]))) ?n ?m =
      Some (regap g h (?m\<lparr>m_list := (xs @ [e]) @ ?n # ys\<rparr>))"
    "indexed (set ((xs @ [e]) @ ?n # ys)) g h" "gaps_right (m_ent ?m) h (max_offset ?m) ((xs @ [e]) @ ?n # ys)"
  proof (rule entry_link_ok [of ?m "xs @ [e]" ys ?n "min_offset m"])
    show "m_list ?m = (xs @ [e]) @ ys" using l by simp
    show "distinct ((xs @ [e]) @ ?n # ys)" using d f by auto
    show "indexed (set ((xs @ [e]) @ ys)) (gap_tree ?m) (gaps_of ?m)"
      unfolding h using I(6) l f by (simp add: split_map_def)
    show "gaps_inner (m_ent ?m) (gaps_of ?m) (xs @ [e])"
      unfolding h using I(7) l f d by (auto simp: split_map_def gaps_right_app)
    show "gaps_right (m_ent ?m) (gaps_of ?m) (max_offset ?m) ys"
      unfolding h using I(7) l f d by (auto simp: split_map_def gaps_right_app)
    show "laid_out (m_ent ?m) (min_offset m) (max_offset ?m) ((xs @ [e]) @ ?n # ys)" "max_offset ?m < ADDRS"
      using core by (auto simp: map_core_def split_map_def)
  qed blast
  have m: "?m\<lparr>m_list := (xs @ [e]) @ ?n # ys\<rparr> = ?S" by (simp add: split_map_def)
  have "map_inv (regap g h ?S)" using core gh(2,3) by (simp add: map_inv_regap split_map_def insert_commute)
  moreover have c: "upd_entry e (\<lambda>x. x\<lparr>vme_end := a\<rparr>) (snd (vm_map_entry_create
      (?x\<lparr>vme_offset := uadd (vme_offset ?x) (usub a (vme_start ?x)), vme_start := a\<rparr>) m)) = ?m"
    using f u by (simp add: upd_entry_def vm_map_entry_create_def split_map_def front_def rear_def fun_upd_twist)
  moreover obtain obs where "entry_reference ?x (regap g h ?S) = (regap g h ?S)\<lparr>m_objects := obs\<rparr>"
    by (rule entry_reference_eq)
  ultimately show thesis
    using that gh(1) l unfolding m
    by (simp add: split_end_def vm_map_entry_create_def Let_def)
qed

text \<open>What a call may do to the rest of the map's fields.\<close>

definition same_frame :: "vm_map \<Rightarrow> vm_map \<Rightarrow> bool" where
  "same_frame m m' \<longleftrightarrow>
     min_offset m' = min_offset m \<and> max_offset m' = max_offset m \<and> wait_for_space m' = wait_for_space m \<and>
     wiring_required m' = wiring_required m \<and> aslr_enabled m' = aslr_enabled m \<and>
     prefer_high_addr m' = prefer_high_addr m \<and> aslr_entropy_bits m' = aslr_entropy_bits m"

lemma same_frame_refl [simp]: "same_frame m m"
  by (simp add: same_frame_def)

lemma same_frame_trans: "same_frame m m' \<Longrightarrow> same_frame m' m'' \<Longrightarrow> same_frame m m''"
  by (simp add: same_frame_def)

lemma same_frame_ops [simp]:
  "same_frame m ((regap g h m')\<lparr>m_objects := obs\<rparr>) = same_frame m m'"
  "same_frame m (regap g h m') = same_frame m m'"
  "same_frame m (split_map u v e a xs ys m') = same_frame m m'"
  by (simp_all add: same_frame_def split_map_def)

subsection \<open>Merging\<close>

lemma coalesce_backing:
  assumes "vm_object_coalesce V p q po qo ps qs m = (Some (ob, off), m')"
  shows "p = Some k \<Longrightarrow> ob = Some k \<and> off = po" "q = Some k \<Longrightarrow> ob = Some k \<and> uadd off (ps + d) = uadd qo d"
proof -
  show "p = Some k \<Longrightarrow> ob = Some k \<and> off = po"
    using assms by (cases q) (auto simp: vm_object_coalesce_def Let_def split: if_splits)
  have "uadd (qo - ps) (ps + d) = uadd qo d" if "\<not> qo < ps" using that by (simp add: uadd_def)
  then show "q = Some k \<Longrightarrow> ob = Some k \<and> uadd off (ps + d) = uadd qo d"
    using assms by (cases p) (auto simp: vm_object_coalesce_def Let_def uadd_uadd [symmetric] split: if_splits)
qed

definition merged :: "nat option \<Rightarrow> nat \<Rightarrow> vm_map_entry \<Rightarrow> vm_map_entry \<Rightarrow> vm_map_entry" where
  "merged ob off x y = x\<lparr>vme_object := ob, vme_offset := off, vme_end := vme_end y\<rparr>"

lemma merged_sel [simp]:
  "vme_start (merged ob off x y) = vme_start x" "vme_end (merged ob off x y) = vme_end y"
  "gap_size (merged ob off x y) = gap_size x" "attrs (merged ob off x y) = attrs x"
  by (simp_all add: merged_def attrs_def)

lemma coalescable_attrs: "coalescable x y \<Longrightarrow> attrs y = attrs x"
  by (simp add: coalescable_def attrs_def)

lemma keeps_view: "b = None \<or> b' = b \<Longrightarrow> keeps (Some (A, b)) (Some (A, b'))"
  by (auto simp: keeps_def)

lemma view_in_merge:
  assumes co: "coalescable (ent a) (ent b)"
    and ob: "vm_object_coalesce V (vme_object (ent a)) (vme_object (ent b)) (vme_offset (ent a)) (vme_offset (ent b))
               (vme_end (ent a) - vme_start (ent a)) qs m = (Some (ob, off), m')"
    and n: "a \<notin> set xs \<union> set ys" "vme_start (ent a) < vme_end (ent a)" "vme_start (ent b) < vme_end (ent b)"
  shows "keeps (view_in ent (xs @ a # b # ys) z)
    (view_in (ent(a := merged ob off (ent a) (ent b))) (xs @ a # ys) z)"
proof -
  let ?x = "ent a" and ?y = "ent b"
  have e: "vme_end ?x = vme_start ?y" using co by (simp add: coalescable_def)
  have "keeps (Some (attrs ?x, backing ?x z)) (Some (attrs ?x, backing (merged ob off ?x ?y) z))"
    using coalesce_backing(1) [OF ob] by (intro keeps_view, cases "vme_object ?x") (auto simp: backing_def merged_def)
  moreover have "keeps (Some (attrs ?y, backing ?y z)) (Some (attrs ?x, backing (merged ob off ?x ?y) z))"
    if "vme_start ?y \<le> z" "z < vme_end ?y"
  proof -
    have "z - vme_start ?x = (vme_end ?x - vme_start ?x) + (z - vme_start ?y)" using that n e by simp
    then show ?thesis
      using coalesce_backing(2) [OF ob, where d = "z - vme_start ?y"] coalescable_attrs [OF co]
      by (cases "vme_object ?y") (auto simp: backing_def merged_def intro!: keeps_view)
  qed
  ultimately show ?thesis using n e by (auto simp: view_in_app split: option.splits)
qed

lemma merge_entries_ok:
  assumes inv: "map_inv m" and l: "m_list m = xs @ a # b # ys" and co: "coalescable (m_ent m a) (m_ent m b)"
  obtains g h hint free where
    "merge_entries a b ob off m = Some (regap g h (m\<lparr>m_list := xs @ a # ys, m_hint := hint, first_free := free,
       m_ent := (m_ent m)(a := merged ob off (m_ent m a) (m_ent m b))\<rparr>))"
    "map_inv (regap g h (m\<lparr>m_list := xs @ a # ys, m_hint := hint, first_free := free,
       m_ent := (m_ent m)(a := merged ob off (m_ent m a) (m_ent m b))\<rparr>))"
proof -
  define hint where "hint = (if m_hint m = Some b then Some a else m_hint m)"
  define free where "free = (if first_free m = Some b then Some a else first_free m)"
  let ?ent = "(m_ent m)(a := merged ob off (m_ent m a) (m_ent m b))"
  let ?m = "m\<lparr>m_hint := hint, first_free := free, m_ent := ?ent\<rparr>"
  let ?M = "m\<lparr>m_list := xs @ a # ys, m_hint := hint, first_free := free, m_ent := ?ent\<rparr>"
  note I = map_invD [OF inv]
  have d: "distinct ((xs @ [a]) @ b # ys)" using I(1) l by simp
  have e: "vme_end (m_ent m a) = vme_start (m_ent m b)" using co by (simp add: coalescable_def)
  have h: "gaps_of ?m = gaps_of m" by (rule ext) simp
  have p: "ptr_ok (xs @ a # ys) hint" "ptr_ok (xs @ a # ys) free"
    using I(4,5) l by (auto simp: hint_def free_def ptr_ok_def split: option.splits)
  have lo: "laid_out ?ent (min_offset m) (max_offset m) (xs @ a # ys)"
    using I(2) l d e by (auto simp: laid_out_app)
  have t: "total_size ?ent (xs @ a # ys) = m_size m"
    using I(2,8) l d e by (auto simp: laid_out_app)
  have core: "map_core ?M"
    using inv d p lo t l by (simp add: map_inv_def map_core_def)
  obtain g h where gh: "vm_map_entry_unlink b ?m = Some (regap g h (?m\<lparr>m_list := (xs @ [a]) @ ys\<rparr>))"
    "indexed (set ((xs @ [a]) @ ys)) g h" "gaps_right (m_ent ?m) h (max_offset ?m) ((xs @ [a]) @ ys)"
  proof (rule entry_unlink_ok [of ?m "xs @ [a]" b ys "min_offset m"])
    show "m_list ?m = (xs @ [a]) @ b # ys" using l by simp
    show "indexed (set ((xs @ [a]) @ b # ys)) (gap_tree ?m) (gaps_of ?m)" unfolding h using I(6) l by simp
    show "gaps_inner (m_ent ?m) (gaps_of ?m) (xs @ [a])"
      unfolding h using I(7) l d by (simp add: gaps_right_app)
    show "gaps_right (m_ent ?m) (gaps_of ?m) (max_offset ?m) ys"
      unfolding h using I(7) l d by (simp add: gaps_right_app)
  qed (use d lo I(3) in auto)
  have "merge_entries a b ob off m = vm_map_entry_unlink b ?m"
    using d by (simp add: merge_entries_def upd_entry_def SAVE_HINT_def hint_def free_def merged_def Let_def)
  moreover have "?m\<lparr>m_list := (xs @ [a]) @ ys\<rparr> = ?M" by simp
  ultimately have "merge_entries a b ob off m = Some (regap g h ?M)" using gh(1) by metis
  moreover have "map_inv (regap g h ?M)" using core gh(2,3) by (simp add: map_inv_regap)
  ultimately show thesis by (rule that)
qed

text \<open>A step that keeps the invariant and what the map says of every address.\<close>

definition keeps_map :: "vm_map \<Rightarrow> vm_map \<Rightarrow> bool" where
  "keeps_map m m' \<longleftrightarrow> map_inv m' \<and> same_frame m m' \<and> (\<forall>z. keeps (mapped m z) (mapped m' z))"

lemma keeps_map_refl: "map_inv m \<Longrightarrow> keeps_map m m"
  by (simp add: keeps_map_def)

lemma keeps_map_trans: "keeps_map m m' \<Longrightarrow> keeps_map m' m'' \<Longrightarrow> keeps_map m m''"
  by (auto simp: keeps_map_def intro: keeps_trans same_frame_trans)

lemma same_frame_objects [simp]: "same_frame m (m\<lparr>m_objects := obs\<rparr>)"
  by (simp add: same_frame_def)

lemma coalesce_pair_ok:
  assumes inv: "map_inv m" and l: "m_list m = xs @ a # b # ys"
  obtains c m' where "coalesce_pair V a b m = Some (c, m')" "keeps_map m m'"
    "m_list m' = (if c then xs @ a # ys else xs @ a # b # ys)"
proof (cases "coalescable (m_ent m a) (m_ent m b)")
  case False
  then show thesis using that [of False m] inv l by (simp add: coalesce_pair_def keeps_map_refl)
next
  case True
  let ?x = "m_ent m a" and ?y = "m_ent m b"
  have la: "m_list m = xs @ a # (b # ys)" and lb: "m_list m = (xs @ [a]) @ b # ys" using l by simp_all
  note A = map_inv_ent [OF inv la] and B = map_inv_ent [OF inv lb]
  have u: "usub (vme_end ?x) (vme_start ?x) = vme_end ?x - vme_start ?x" using A by (intro usub_eq) auto
  have g: "gap_size ?x = 0" using map_invD(7) [OF inv] True l by (simp add: gaps_right_app coalescable_def)
  obtain r obs where r: "vm_object_coalesce V (vme_object ?x) (vme_object ?y) (vme_offset ?x) (vme_offset ?y)
      (usub (vme_end ?x) (vme_start ?x)) (usub (vme_end ?y) (vme_start ?y)) m = (r, m\<lparr>m_objects := obs\<rparr>)"
    by (rule coalesce_eq)
  let ?m = "m\<lparr>m_objects := obs\<rparr>"
  have i: "map_inv ?m" using inv by simp
  show thesis
  proof (cases r)
    case None
    then show thesis
      using that [of False ?m] True g r l i by (simp add: coalesce_pair_def keeps_map_def)
  next
    case (Some q)
    obtain ob off where q: "q = (ob, off)" by force
    have lm: "m_list ?m = xs @ a # b # ys" and co: "coalescable (m_ent ?m a) (m_ent ?m b)" using l True by simp_all
    obtain g' h hint free where M: "merge_entries a b ob off ?m = Some (regap g' h (?m\<lparr>m_list := xs @ a # ys,
         m_hint := hint, first_free := free, m_ent := (m_ent ?m)(a := merged ob off (m_ent ?m a) (m_ent ?m b))\<rparr>))"
      "map_inv (regap g' h (?m\<lparr>m_list := xs @ a # ys, m_hint := hint, first_free := free,
         m_ent := (m_ent ?m)(a := merged ob off (m_ent ?m a) (m_ent ?m b))\<rparr>))"
      by (rule merge_entries_ok [OF i lm co])
    let ?M = "?m\<lparr>m_list := xs @ a # ys, m_hint := hint, first_free := free,
       m_ent := (m_ent ?m)(a := merged ob off (m_ent ?m a) (m_ent ?m b))\<rparr>"
    have n: "a \<notin> set xs \<union> set ys" using map_invD(1) [OF inv] l by auto
    have "keeps (mapped m z) (mapped (regap g' h ?M) z)" for z
      using view_in_merge [of "m_ent m" a b V "usub (vme_end ?y) (vme_start ?y)" m ob off ?m xs ys z]
        True r Some q u n A B l by (simp add: mapped_def)
    moreover have "same_frame m (regap g' h ?M)" by (simp add: same_frame_def)
    ultimately show thesis
      using that [of True "regap g' h ?M"] True g r Some q l M by (simp add: coalesce_pair_def keeps_map_def)
  qed
qed

lemma coalesce_forward_ok:
  assumes inv: "map_inv m" and p: "ptr_ok (m_list m) p"
  obtains c m' where "vm_map_coalesce_entry_forward V p m = Some (c, m')" "keeps_map m m'" "ptr_ok (m_list m') p"
    "set (m_list m) - {u. vme_next m p = Some (Some u)} \<subseteq> set (m_list m')"
proof (cases p)
  case None
  then show thesis using that [of False m] keeps_map_refl [OF inv]
    by (simp add: vm_map_coalesce_entry_forward_def vme_header)
next
  case (Some e)
  then obtain xs ys where l: "m_list m = xs @ e # ys" using p by (auto dest: split_list)
  have n: "vme_next m (Some e) = Some (hd_opt ys)" by (rule vme_next_split [OF l map_invD(1) [OF inv]])
  show thesis
  proof (cases ys)
    case Nil
    then show thesis using that [of False m] keeps_map_refl [OF inv] n Some p
      by (simp add: vm_map_coalesce_entry_forward_def)
  next
    case (Cons b zs)
    obtain c m' where c: "coalesce_pair V e b m = Some (c, m')" "keeps_map m m'"
        "m_list m' = (if c then xs @ e # zs else xs @ e # b # zs)"
      using coalesce_pair_ok [OF inv, of xs e b zs V] l Cons by auto
    show thesis by (rule that [OF _ c(2)]) (use c(1,3) n Some Cons l in \<open>auto simp: vm_map_coalesce_entry_forward_def\<close>)
  qed
qed

lemma coalesce_entry_ok:
  assumes inv: "map_inv m" and p: "ptr_ok (m_list m) p"
  obtains c m' where "vm_map_coalesce_entry V p m = Some (c, m')" "keeps_map m m'"
    "set (m_list m) - {e. p = Some e} \<subseteq> set (m_list m')"
proof (cases p)
  case None
  then show thesis using that [of False m] keeps_map_refl [OF inv]
    by (auto simp: vm_map_coalesce_entry_def vme_header split: option.splits)
next
  case (Some e)
  then obtain xs ys where l: "m_list m = xs @ e # ys" using p by (auto dest: split_list)
  have n: "vme_prev m (Some e) = Some (hd_opt (rev xs))" by (rule vme_prev_split [OF l map_invD(1) [OF inv]])
  show thesis
  proof (cases xs rule: rev_cases)
    case Nil
    then show thesis using that [of False m] keeps_map_refl [OF inv] n Some
      by (auto simp: vm_map_coalesce_entry_def)
  next
    case (snoc zs a)
    obtain c m' where c: "coalesce_pair V a e m = Some (c, m')" "keeps_map m m'"
        "m_list m' = (if c then zs @ a # ys else zs @ a # e # ys)"
      using coalesce_pair_ok [OF inv, of zs a e ys V] l snoc by auto
    show thesis by (rule that [OF _ c(2)]) (use c(1,3) n Some snoc l in \<open>auto simp: vm_map_coalesce_entry_def\<close>)
  qed
qed

lemma coalesce_entries_ok:
  assumes inv: "map_inv m" and p: "ptr_ok (m_list m) p"
  obtains c m' where "vm_map_coalesce_entries V p m = Some (c, m')" "keeps_map m m'"
    "set (m_list m) - {u. vme_next m p = Some (Some u)} - {u. p = Some u} \<subseteq> set (m_list m')"
proof -
  obtain c1 m1 where 1: "vm_map_coalesce_entry_forward V p m = Some (c1, m1)" "keeps_map m m1" "ptr_ok (m_list m1) p"
      "set (m_list m) - {u. vme_next m p = Some (Some u)} \<subseteq> set (m_list m1)"
    by (rule coalesce_forward_ok [OF inv p])
  have i1: "map_inv m1" using 1(2) by (simp add: keeps_map_def)
  obtain c2 m2 where 2: "vm_map_coalesce_entry V p m1 = Some (c2, m2)" "keeps_map m1 m2"
      "set (m_list m1) - {e. p = Some e} \<subseteq> set (m_list m2)"
    by (rule coalesce_entry_ok [OF i1 1(3)])
  show thesis
  proof (rule that [OF _ keeps_map_trans [OF 1(2) 2(2)]])
    show "vm_map_coalesce_entries V p m = Some (c1 \<or> c2, m2)" by (simp add: vm_map_coalesce_entries_def 1(1) 2(1))
    show "set (m_list m) - {u. vme_next m p = Some (Some u)} - {u. p = Some u} \<subseteq> set (m_list m2)" using 1(4) 2(3) by blast
  qed
qed

end
