(* ===== verification/Vm_Place.thy ===== *)
theory Vm_Place
  imports Vm_Inv
begin

text \<open>
  The search for free space: masks, alignment, the randomised start, and that the space found is
  free, aligned and within bounds.
\<close>

subsection \<open>Masks and alignment\<close>

lemma low_mask_Suc: "and (Suc m) m = 0 \<Longrightarrow> \<exists>k. m = 2 ^ k - 1"
proof (induction m rule: less_induct)
  case (less m)
  show ?case
  proof (cases "even m")
    case True
    then have "and (Suc m) m = 2 * and (m div 2) (m div 2)" by (subst and_rec) simp
    then have "m = 0" using less(2) True by auto
    then show ?thesis by (intro exI [of _ 0]) simp
  next
    case False
    define j where "j = m div 2"
    have m: "m = Suc (2 * j)" using False by (auto simp: j_def elim!: oddE)
    have "and (Suc m) m = 2 * and (Suc j) j" by (subst and_rec) (simp add: m)
    then have "and (Suc j) j = 0" using less(2) by simp
    then obtain k where k: "j = 2 ^ k - 1" using less(1) [of j] m by auto
    have "(1::nat) \<le> 2 ^ k" by simp
    then have "m = 2 ^ Suc k - 1" unfolding m k power_Suc by arith
    then show ?thesis by blast
  qed
qed

lemma low_mask:
  assumes "and (uadd msk 1) msk = 0" "msk < ADDRS"
  obtains k where "k \<le> 64" "msk = 2 ^ k - 1"
proof (cases "Suc msk = ADDRS")
  case True
  then show thesis using that [of 64] by simp
next
  case False
  then have "uadd msk 1 = Suc msk" using assms(2) by (simp add: uadd_def)
  then obtain k where k: "msk = 2 ^ k - 1" using low_mask_Suc [of msk] assms(1) by auto
  have "(2::nat) ^ k \<le> 2 ^ 64" using k assms(2) by simp
  then have "k \<le> 64" by (subst (asm) power_increasing_iff) auto
  then show thesis using that k by blast
qed

lemma low_bits_zero: "(\<And>j. j < i \<Longrightarrow> \<not> bit (x::nat) j) \<Longrightarrow> x mod 2 ^ i = 0"
  unfolding take_bit_eq_mod [symmetric] by (rule bit_eqI) (auto simp: bit_take_bit_iff)

lemma ffs_Suc:
  assumes "ffs x = Suc i"
  shows "i < 32" "bit x i" "x mod 2 ^ i = 0"
proof -
  let ?y = "x mod 2 ^ 32"
  have f: "find (bit ?y) [0..<32] = Some i" using assms by (simp add: ffs_def split: option.splits)
  then have y: "i < 32" "bit ?y i" "\<And>j. j < i \<Longrightarrow> \<not> bit ?y j"
    by (auto simp: find_Some_iff)
  have b: "j < 32 \<Longrightarrow> bit ?y j = bit x j" for j
    unfolding take_bit_eq_mod [symmetric] by (simp add: bit_take_bit_iff)
  show "i < 32" by (rule y(1))
  show "bit x i" using y b by blast
  show "x mod 2 ^ i = 0" by (rule low_bits_zero) (use y b in force)
qed

lemma low_ones:
  assumes a: "(2 ^ n - 1 - msk) mod 2 ^ i = 0" "msk < 2 ^ n" "i \<le> n"
  shows "msk mod 2 ^ i = 2 ^ i - (1::nat)"
proof -
  have "(2::nat) ^ i dvd 2 ^ n" using a(3) by (rule le_imp_power_dvd)
  moreover have "2 ^ i dvd 2 ^ n - 1 - msk" using a(1) by (rule mod_0_imp_dvd)
  ultimately have "2 ^ i dvd 2 ^ n - (2 ^ n - 1 - msk)" by (rule dvd_diff_nat)
  moreover have "2 ^ n - (2 ^ n - 1 - msk) = Suc msk" using a(2) by simp
  ultimately have "Suc msk mod 2 ^ i = 0" by (simp only: dvd_eq_mod_eq_0)
  then show ?thesis by (simp add: mod_Suc split: if_splits)
qed

lemma and_below:
  assumes "(s::nat) < 2 ^ j"
  shows "and s x = and s (x mod 2 ^ j)"
proof -
  have "take_bit j s = s" using assms by (simp add: take_bit_nat_eq_self)
  then have "bit s n \<Longrightarrow> n < j" for n by (metis bit_take_bit_iff)
  then show ?thesis
    unfolding take_bit_eq_mod [symmetric] by (intro bit_eqI) (auto simp: bit_and_iff bit_take_bit_iff)
qed

lemma mask_limit_ok:
  assumes "mask_limit mx msk = Some (Some (lim, low))" "msk < ADDRS"
  shows "\<exists>k \<le> 64. low = 2 ^ k - 1" "lim = mx \<or> lim \<le> 2 ^ 31"
    "and s low = 0 \<Longrightarrow> s < lim \<Longrightarrow> and s msk = 0"
proof -
  have "(\<exists>k \<le> 64. low = 2 ^ k - 1) \<and> (lim = mx \<or> lim \<le> 2 ^ 31) \<and>
      (and s low = 0 \<longrightarrow> s < lim \<longrightarrow> and s msk = 0)"
  proof (cases "and (uadd msk 1) msk = 0")
    case True
    then show ?thesis using assms low_mask [OF True assms(2)] by (auto simp: mask_limit_def)
  next
    case False
    let ?f = "ffs (ADDRS - 1 - msk)"
    obtain i where i: "?f = Suc i"
      using assms(1) False by (cases ?f) (simp_all add: mask_limit_def)
    define hi where "hi = msk - (2 ^ i - 1)"
    obtain j where j: "ffs hi = Suc j" "lim = 2 ^ j" "low = 2 ^ i - 1"
      using assms(1) False i by (cases "ffs hi") (auto simp: mask_limit_def hi_def Let_def split: if_splits)
    note F = ffs_Suc [OF i] and S = ffs_Suc [OF j(1)]
    have m: "msk mod 2 ^ i = 2 ^ i - 1" by (rule low_ones [OF F(3) assms(2)]) (use F(1) in simp)
    then have h: "hi = msk - msk mod 2 ^ i" by (simp add: hi_def)
    have ij: "i \<le> j"
    proof (rule ccontr)
      assume "\<not> i \<le> j"
      then have "bit hi j = bit (hi mod 2 ^ i) j"
        unfolding take_bit_eq_mod [symmetric] by (simp add: bit_take_bit_iff)
      moreover have "hi mod 2 ^ i = 0" using h by (simp add: minus_mod_eq_mult_div)
      ultimately show False using S(2) by simp
    qed
    have "2 ^ i - 1 \<le> msk" using m mod_less_eq_dividend [of msk "2 ^ i"] by simp
    then have "msk = hi + (2 ^ i - 1)" by (simp add: hi_def)
    moreover have "(2::nat) ^ i \<le> 2 ^ j" "(1::nat) \<le> 2 ^ i" using ij by (simp_all add: power_increasing)
    then have "(2::nat) ^ i - 1 < 2 ^ j" by arith
    ultimately have "msk mod 2 ^ j = 2 ^ i - 1" using S(3) by (metis add_0 mod_add_left_eq mod_less)
    then have "and s low = 0 \<longrightarrow> s < lim \<longrightarrow> and s msk = 0" using and_below [of s j msk] j by simp
    moreover have "lim \<le> 2 ^ 31" unfolding j(2) by (rule power_increasing) (use S(1) in simp_all)
    ultimately show ?thesis using j(3) F(1) by (intro conjI exI [of _ i]) auto
  qed
  then show "\<exists>k \<le> 64. low = 2 ^ k - 1" "lim = mx \<or> lim \<le> 2 ^ 31" "and s low = 0 \<Longrightarrow> s < lim \<Longrightarrow> and s msk = 0"
    by blast+
qed

lemma and_low_mask: "and a (2 ^ k - 1) = a mod 2 ^ k" for a :: nat
  by (simp add: take_bit_eq_mod [symmetric] take_bit_eq_mask mask_eq_exp_minus_1)

lemma align_up_eq: "align_up (2 ^ k - 1) a = uadd a (2 ^ k - 1) - uadd a (2 ^ k - 1) mod 2 ^ k"
  unfolding align_up_def Let_def and_low_mask by (rule refl)

lemma uadd_less: "uadd a b < ADDRS"
  by (simp add: uadd_def)

lemma align_up_less: "align_up msk a < ADDRS"
  using uadd_less [of a msk] by (simp add: align_up_def Let_def)

lemma align_up_aligned: "align_up (2 ^ k - 1) a mod 2 ^ k = 0"
  unfolding align_up_eq by (simp add: minus_mod_eq_mult_div)

lemma align_up_bounds:
  assumes "a + (2 ^ k - 1) < ADDRS"
  shows "a \<le> align_up (2 ^ k - 1) a" "align_up (2 ^ k - 1) a \<le> a + (2 ^ k - 1)"
proof -
  have "(a + (2 ^ k - 1)) mod 2 ^ k < 2 ^ k" by (rule mod_less_divisor) simp
  then show "a \<le> align_up (2 ^ k - 1) a" "align_up (2 ^ k - 1) a \<le> a + (2 ^ k - 1)"
    unfolding align_up_eq uadd_eq [OF assms] by linarith+
qed

lemma align_up_fix: "s mod 2 ^ k = 0 \<Longrightarrow> s + (2 ^ k - 1) < ADDRS \<Longrightarrow> align_up (2 ^ k - 1) s = s"
proof -
  assume a: "s mod 2 ^ k = 0" "s + (2 ^ k - 1) < ADDRS"
  have "(s + (2 ^ k - 1)) mod 2 ^ k = (s mod 2 ^ k + (2 ^ k - 1)) mod 2 ^ k" by (rule mod_add_left_eq [symmetric])
  also have "\<dots> = 2 ^ k - 1" unfolding a(1) by simp
  finally have "(s + (2 ^ k - 1)) mod 2 ^ k = 2 ^ k - 1" .
  then show ?thesis unfolding align_up_eq uadd_eq [OF a(2)] by simp
qed

lemma large_aligned:
  assumes "s mod 2 ^ k = 0" "s < ADDRS" "k \<le> 64"
  shows "align_up (2 ^ 21 - 1) s mod 2 ^ k = 0"
proof (cases "k \<le> 21")
  case True
  then have "(2::nat) ^ k dvd 2 ^ 21" by (rule le_imp_power_dvd)
  moreover have "(2::nat) ^ 21 dvd align_up (2 ^ 21 - 1) s" using align_up_aligned [of 21 s] by (rule mod_0_imp_dvd)
  ultimately have "2 ^ k dvd align_up (2 ^ 21 - 1) s" by (rule dvd_trans)
  then show ?thesis by (simp only: dvd_eq_mod_eq_0)
next
  case False
  have "(2::nat) ^ 21 dvd 2 ^ k" using False by (intro le_imp_power_dvd) simp
  moreover have "2 ^ k dvd s" using assms(1) by (rule mod_0_imp_dvd)
  ultimately have d: "2 ^ 21 dvd s" by (rule dvd_trans)
  then obtain q where q: "s = 2 ^ 21 * q" by (rule dvdE)
  then have "q < 2 ^ 43" using assms(2) by simp
  then have "s + (2 ^ 21 - 1) < ADDRS" using q by simp
  moreover have "s mod 2 ^ 21 = 0" using d by (simp only: dvd_eq_mod_eq_0)
  ultimately have "align_up (2 ^ 21 - 1) s = s" by (intro align_up_fix)
  then show ?thesis using assms(1) by simp
qed

lemma optimize_aligned:
  assumes "s mod 2 ^ k = 0" "s < ADDRS" "k \<le> 64" "\<not> prefer_high_addr m"
  shows "vm_map_optimize_placement sz s m mod 2 ^ k = 0"
proof -
  have "VM_MAP_LARGE_PAGE_SIZE - 1 = 2 ^ 21 - 1" by simp
  then have "align_up (VM_MAP_LARGE_PAGE_SIZE - 1) s mod 2 ^ k = 0" using large_aligned [OF assms(1-3)] by simp
  then show ?thesis using assms by (simp add: vm_map_optimize_placement_def Let_def)
qed

subsection \<open>Where a range is placed\<close>

definition free_range :: "vm_map \<Rightarrow> nat option \<Rightarrow> nat \<Rightarrow> nat \<Rightarrow> bool" where
  "free_range m p start sz \<longleftrightarrow>
     (\<exists>xs ys. m_list m = xs @ ys \<and> p = hd_opt (rev xs) \<and>
        last_end (m_ent m) (min_offset m) xs \<le> start \<and> start + sz \<le> limit (m_ent m) (max_offset m) ys)"

lemma no_wrap: "uadd a b > a \<Longrightarrow> a < ADDRS \<Longrightarrow> b < ADDRS \<Longrightarrow> uadd a b = a + b"
proof -
  assume "uadd a b > a" "a < ADDRS" "b < ADDRS"
  moreover have "a + b \<ge> ADDRS \<Longrightarrow> uadd a b = a + b - ADDRS"
    using \<open>a < ADDRS\<close> \<open>b < ADDRS\<close> unfolding uadd_def by (subst mod_if) simp
  ultimately show ?thesis by (cases "a + b < ADDRS") (simp_all add: uadd_eq)
qed

lemma no_wrap_le: "uadd a b \<ge> a \<Longrightarrow> a < ADDRS \<Longrightarrow> b < ADDRS \<Longrightarrow> uadd a b = a + b"
proof -
  assume "uadd a b \<ge> a" "a < ADDRS" "b < ADDRS"
  moreover have "a + b \<ge> ADDRS \<Longrightarrow> uadd a b = a + b - ADDRS"
    using \<open>a < ADDRS\<close> \<open>b < ADDRS\<close> unfolding uadd_def by (subst mod_if) simp
  ultimately show ?thesis by (cases "a + b < ADDRS") (simp_all add: uadd_eq)
qed

lemma wraps: "uadd a b < a \<Longrightarrow> \<not> a + b < ADDRS"
  using uadd_eq [of a b] by auto

lemma place_in_empty_ok:
  assumes "m_list m = []" "\<not> prefer_high_addr m" "k \<le> 64" "sz < ADDRS" "mx \<le> max_offset m" "mx < ADDRS"
    and "place_in_empty V sz mx (2 ^ k - 1) m = Placed p start"
  shows "free_range m p start sz" "start mod 2 ^ k = 0" "start + sz \<le> mx"
proof -
  let ?a = "align_up (2 ^ k - 1)"
  define rand where "rand = ?a (uadd (?a (min_offset m)) (vm_map_get_aslr_entropy V sz m))"
  define s where "s = (if aslr_enabled m \<and> rand \<ge> min_offset m \<and> uadd rand sz \<le> mx \<and> uadd rand sz > rand
    then rand else ?a (min_offset m))"
  have s: "s mod 2 ^ k = 0" "s < ADDRS"
  proof -
    have "s = rand \<or> s = ?a (min_offset m)" by (simp add: s_def)
    then obtain b where "s = ?a b" unfolding rand_def by blast
    then show "s mod 2 ^ k = 0" "s < ADDRS" using align_up_aligned align_up_less by (simp_all only:)
  qed
  have "(if vm_map_optimize_placement sz s m < min_offset m \<or>
        uadd (vm_map_optimize_placement sz s m) sz \<le> vm_map_optimize_placement sz s m \<or>
        uadd (vm_map_optimize_placement sz s m) sz > mx
      then No_room else Placed None (vm_map_optimize_placement sz s m)) = Placed p start"
    using assms(7) unfolding place_in_empty_def Let_def rand_def [symmetric] s_def .
  then have r: "p = None" "start = vm_map_optimize_placement sz s m" "min_offset m \<le> start"
      "start < uadd start sz" "uadd start sz \<le> mx"
    by (auto split: if_splits)
  have "uadd start sz = start + sz" by (rule no_wrap [OF r(4)]) (use r assms in simp_all)
  then show "free_range m p start sz" "start + sz \<le> mx" using r assms by (auto simp: free_range_def)
  show "start mod 2 ^ k = 0" using optimize_aligned [OF s assms(3,2)] r(2) by simp
qed

lemma entry_gap:
  assumes inv: "map_inv m" and l: "m_list m = xs @ e # ys"
  shows "vme_end (m_ent m e) + gap_size (m_ent m e) = limit (m_ent m) (max_offset m) ys"
    "limit (m_ent m) (max_offset m) ys \<le> max_offset m"
    "uadd (vme_end (m_ent m e)) (gap_size (m_ent m e)) = limit (m_ent m) (max_offset m) ys"
proof -
  have "laid_out (m_ent m) (vme_end (m_ent m e)) (max_offset m) ys"
    using map_invD(2) [OF inv] l by (simp add: laid_out_app)
  note L = laid_out_limit [OF this]
  have "gap_size (m_ent m e) = limit (m_ent m) (max_offset m) ys - vme_end (m_ent m e)"
    using map_invD(7) [OF inv] l by (simp add: gaps_right_app)
  then show g: "vme_end (m_ent m e) + gap_size (m_ent m e) = limit (m_ent m) (max_offset m) ys" using L by simp
  show "limit (m_ent m) (max_offset m) ys \<le> max_offset m" using L by simp
  then show "uadd (vme_end (m_ent m e)) (gap_size (m_ent m e)) = limit (m_ent m) (max_offset m) ys"
    using g map_invD(3) [OF inv] by (simp add: uadd_eq)
qed

lemma free_after:
  assumes "m_list m = xs @ e # ys" "vme_end (m_ent m e) \<le> start" "start + sz \<le> limit (m_ent m) (max_offset m) ys"
  shows "free_range m (Some e) start sz"
  unfolding free_range_def using assms by (intro exI [of _ "xs @ [e]"] exI [of _ ys]) simp

lemma start_after_hint_aligned: "start_after_hint V sz (2 ^ k - 1) x m mod 2 ^ k = 0" "start_after_hint V sz msk x m < ADDRS"
proof -
  have b: "\<exists>b. start_after_hint V sz msk x m = align_up msk b" for msk
    unfolding start_after_hint_def Let_def by metis
  show "start_after_hint V sz (2 ^ k - 1) x m mod 2 ^ k = 0" using b [of "2 ^ k - 1"] align_up_aligned by metis
  show "start_after_hint V sz msk x m < ADDRS" using b [of msk] align_up_less by metis
qed

lemma start_in_gap_aligned: "start_in_gap V sz (2 ^ k - 1) x m mod 2 ^ k = 0"
proof -
  obtain b where b: "start_in_gap V sz (2 ^ k - 1) x m = align_up (2 ^ k - 1) b"
    unfolding start_in_gap_def Let_def by metis
  show ?thesis unfolding b by (rule align_up_aligned)
qed

lemma hint_ok:
  assumes inv: "map_inv m" and l: "m_list m = xs @ e # ys" and sz: "sz < ADDRS"
    and f: "fits_after sz mx start (m_ent m e)" and s: "start < ADDRS"
  shows "free_range m (Some e) start sz" "start + sz \<le> mx"
proof -
  have F: "vme_end (m_ent m e) \<le> start" "start < uadd start sz" "uadd start sz \<le> mx"
      "uadd start sz \<le> limit (m_ent m) (max_offset m) ys"
    using f entry_gap(3) [OF inv l] by (simp_all add: fits_after_def Let_def)
  have "uadd start sz = start + sz" by (rule no_wrap [OF F(2) s sz])
  then show "free_range m (Some e) start sz" "start + sz \<le> mx" using F free_after [OF l] by simp_all
qed

lemma start_in_gap_ok:
  assumes inv: "map_inv m" and l: "m_list m = xs @ e # ys" and sz: "0 < sz"
    and mx: "max_offset m \<le> 2 ^ 63" and g: "sz + (2 ^ k - 1) \<le> gap_size (m_ent m e)"
    and st: "start = start_in_gap V sz (2 ^ k - 1) (m_ent m e) m"
  shows "vme_end (m_ent m e) \<le> start" "start + sz \<le> limit (m_ent m) (max_offset m) ys"
proof -
  let ?x = "m_ent m e" and ?M = "2 ^ k - 1 :: nat" and ?L = "limit (m_ent m) (max_offset m) ys"
  let ?a = "align_up ?M"
  note G = entry_gap [OF inv l]
  have L: "?L \<le> 2 ^ 63" using G(2) mx by linarith
  have M: "uadd sz ?M = sz + ?M" using g G(1) L by (intro uadd_eq) simp
  have "vme_end ?x + ?M < ADDRS" using g G(1) L by simp
  note S = align_up_bounds [OF this]
  have s0: "vme_end ?x \<le> ?a (vme_end ?x) \<and> ?a (vme_end ?x) + sz \<le> ?L" using S g G(1) by linarith
  define avail where "avail = gap_size ?x - uadd sz ?M"
  have rand: "uadd (?a (uadd (?a (vme_end ?x)) en)) sz = ?a (uadd (?a (vme_end ?x)) en) + sz" if "en \<le> avail" for en
  proof -
    have b: "?a (vme_end ?x) + en + sz \<le> ?L" using that S(2) g G(1) unfolding avail_def M by linarith
    have u: "uadd (?a (vme_end ?x)) en = ?a (vme_end ?x) + en" using b L by (intro uadd_eq) simp
    have "?M < 2 ^ 63" using g G(1) L sz by linarith
    then have "?a (vme_end ?x) + en + ?M < ADDRS" using b L sz by simp
    from align_up_bounds(2) [OF this] have "?a (uadd (?a (vme_end ?x)) en) \<le> ?a (vme_end ?x) + en + ?M" unfolding u .
    then show ?thesis using b L \<open>?M < 2 ^ 63\<close> by (intro uadd_eq) simp
  qed
  have "start = ?a (vme_end ?x) \<or> (\<exists>en \<le> avail. start = ?a (uadd (?a (vme_end ?x)) en) \<and> vme_end ?x \<le> start \<and>
      uadd start sz \<le> ?L)"
    unfolding st start_in_gap_def Let_def avail_def [symmetric] G(3) by (simp only: split: if_split) blast
  then show "vme_end ?x \<le> start" "start + sz \<le> ?L" using s0 rand by auto
qed

text \<open>Maps as tasks have them: no preference for high addresses, and a limit that leaves room
  for a mask.\<close>

definition user_map :: "vm_map \<Rightarrow> bool" where
  "user_map m \<longleftrightarrow> map_inv m \<and> \<not> prefer_high_addr m \<and> 2 ^ 31 \<le> max_offset m \<and> max_offset m \<le> 2 ^ 63"

definition no_hole :: "vm_map \<Rightarrow> nat \<Rightarrow> bool" where
  "no_hole m len \<longleftrightarrow> list_all (\<lambda>e. gap_size (m_ent m e) < len) (m_list m)"

definition place_good :: "vm_map \<Rightarrow> nat \<Rightarrow> nat \<Rightarrow> nat \<Rightarrow> place \<Rightarrow> bool" where
  "place_good m sz mx k r =
     (case r of
        Placed p start \<Rightarrow> free_range m p start sz \<and> start mod 2 ^ k = 0 \<and> start + sz \<le> mx
      | _ \<Rightarrow> m_list m \<noteq> [] \<longrightarrow> mx = max_offset m \<longrightarrow> no_hole m (sz + (2 ^ k - 1)))"

lemma in_gap_tree:
  assumes "map_inv m" "(t, e) \<in> gap_elems (gap_tree m)"
  shows "e \<in> set (m_list m)" "gap_size (m_ent m e) = t"
  using map_invD(6) [OF assms(1)] assms(2) by (auto simp: indexed_def)

lemma gap_in_tree:
  assumes "map_inv m" "e \<in> set (m_list m)" "gap_size (m_ent m e) \<noteq> 0"
  shows "(gap_size (m_ent m e), e) \<in> gap_elems (gap_tree m)"
  using map_invD(6) [OF assms(1)] assms(2,3) by (auto simp: indexed_def)

lemma nearest_no_hole:
  assumes inv: "map_inv m" and n: "gap_nearest len (gap_tree m) = None" and p: "0 < len"
  shows "no_hole m len"
  unfolding no_hole_def list_all_iff
proof
  fix e assume e: "e \<in> set (m_list m)"
  show "gap_size (m_ent m e) < len"
  proof (cases "gap_size (m_ent m e) = 0")
    case False
    then show ?thesis using gap_nearest_None [OF n gap_in_tree [OF inv e]] by simp
  qed (use p in simp)
qed

lemma gap_bound: "map_inv m \<Longrightarrow> e \<in> set (m_list m) \<Longrightarrow> gap_size (m_ent m e) < ADDRS"
proof -
  assume i: "map_inv m" and e: "e \<in> set (m_list m)"
  obtain xs ys where "m_list m = xs @ e # ys" using e by (auto dest: split_list)
  from entry_gap(1,2) [OF i this] show ?thesis using map_invD(3) [OF i] by linarith
qed

lemma low_mask_less: "k \<le> n \<Longrightarrow> 2 ^ k - 1 < (2::nat) ^ n"
proof -
  assume "k \<le> n"
  then have "(2::nat) ^ k \<le> 2 ^ n" "(0::nat) < 2 ^ k" by (simp_all add: power_increasing)
  then show ?thesis by linarith
qed

lemma place_in_gap_ok:
  assumes u: "user_map m" and sz: "0 < sz" "sz < ADDRS" and k: "k \<le> 64" and mx: "mx \<le> max_offset m"
  obtains r where "place_in_gap V sz mx (2 ^ k - 1) locked m = Some r" "place_good m sz mx k r"
    "r = Wait_for_room \<longrightarrow> \<not> locked \<and> wait_for_space m"
proof -
  let ?M = "2 ^ k - 1 :: nat"
  have inv: "map_inv m" and mo: "max_offset m \<le> 2 ^ 63" using u by (simp_all add: user_map_def)
  have M: "?M < ADDRS" by (rule low_mask_less [OF k])
  show thesis
  proof (cases "uadd sz ?M < sz")
    case True
    then have "\<not> sz + ?M < ADDRS" by (rule wraps)
    then have "no_hole m (sz + ?M)" using gap_bound [OF inv] by (fastforce simp: no_hole_def list_all_iff)
    then show thesis using that [of No_room] True by (simp add: place_in_gap_def place_good_def)
  next
    case False
    then have S: "uadd sz ?M = sz + ?M" using sz M by (intro no_wrap_le) auto
    show thesis
    proof (cases "gap_nearest (sz + ?M) (gap_tree m)")
      case None
      then have "no_hole m (sz + ?M)" by (rule nearest_no_hole [OF inv]) (use sz(1) in linarith)
      then show thesis
        using that [of "if locked \<or> \<not> wait_for_space m then No_room else Wait_for_room"] False None
        unfolding place_in_gap_def S by (simp add: place_good_def)
    next
      case (Some es)
      have wf: "gap_wf (gap_tree m)" using map_invD(6) [OF inv] by (simp add: indexed_def)
      obtain t where t: "sz + ?M \<le> t" "(t, last es) \<in> gap_elems (gap_tree m)"
        by (rule gaps.nearest_last [OF wf Some])
      let ?e = "last es" and ?s = "start_in_gap V sz ?M (m_ent m (last es)) m"
      note E = in_gap_tree [OF inv t(2)]
      obtain xs ys where l: "m_list m = xs @ ?e # ys" using E(1) by (auto dest: split_list)
      have g: "sz + ?M \<le> gap_size (m_ent m ?e)" using t(1) E(2) by simp
      note B = start_in_gap_ok [OF inv l sz(1) mo g refl, of V] and G = entry_gap [OF inv l]
      have us: "uadd ?s sz = ?s + sz" using B(2) G(2) mo by (intro uadd_eq) simp
      have le: "?s + sz \<le> max_offset m" using B(2) G(2) by linarith
      have "place_in_gap V sz mx ?M locked m = Some (if ?s + sz > mx then No_room else Placed (Some ?e) ?s)"
        using False Some E(1) g B G(3) sz us unfolding place_in_gap_def S by (simp add: Let_def)
      moreover have "place_good m sz mx k (if ?s + sz > mx then No_room else Placed (Some ?e) ?s)"
        using free_after [OF l B] start_in_gap_aligned [of V sz k] le by (simp add: place_good_def)
      ultimately show thesis by (rule that) simp
    qed
  qed
qed

lemma place_range_ok:
  assumes u: "user_map m" and sz: "0 < sz" "sz < ADDRS" and k: "k \<le> 64" and mx: "mx \<le> max_offset m"
  obtains r where "place_range V sz mx (2 ^ k - 1) locked m = Some r" "place_good m sz mx k r"
    "r = Wait_for_room \<longrightarrow> \<not> locked \<and> wait_for_space m"
proof -
  have inv: "map_inv m" and ph: "\<not> prefer_high_addr m" and mo: "max_offset m < ADDRS"
    using u map_invD(3) [of m] by (simp_all add: user_map_def)
  obtain r where r: "place_in_gap V sz mx (2 ^ k - 1) locked m = Some r" "place_good m sz mx k r"
    "r = Wait_for_room \<longrightarrow> \<not> locked \<and> wait_for_space m"
    by (rule place_in_gap_ok [OF u sz k mx])
  show thesis
  proof (cases "m_list m = []")
    case True
    let ?r = "place_in_empty V sz mx (2 ^ k - 1) m"
    have "mx < ADDRS" using mx mo by linarith
    note E = place_in_empty_ok [OF True ph k sz(2) mx this, of V]
    have "?r \<noteq> Wait_for_room" by (simp add: place_in_empty_def Let_def)
    moreover have "place_good m sz mx k ?r" using E True by (cases ?r) (simp_all add: place_good_def)
    ultimately show thesis using that [of ?r] True by (simp add: place_range_def)
  next
    case False
    show thesis
    proof (cases "first_free m")
      case None
      then show thesis using that [OF _ r(2,3)] r(1) False by (simp add: place_range_def)
    next
      case (Some e)
      then have e: "e \<in> set (m_list m)" using map_invD(5) [OF inv] by simp
      then obtain xs ys where l: "m_list m = xs @ e # ys" by (auto dest: split_list)
      let ?s = "start_after_hint V sz (2 ^ k - 1) (m_ent m e) m"
      note H = hint_ok [OF inv l sz(2) _ start_after_hint_aligned(2), of mx V sz "2 ^ k - 1" "m_ent m e" m]
      show thesis
      proof (cases "fits_after sz mx ?s (m_ent m e)")
        case True
        have "place_good m sz mx k (Placed (Some e) ?s)"
          using H [OF True] start_after_hint_aligned(1) [of V sz k] by (simp add: place_good_def)
        then show thesis using that [of "Placed (Some e) ?s"] True False Some e by (simp add: place_range_def)
      next
        case no: False
        then show thesis using that [OF _ r(2,3)] r(1) no False Some e by (simp add: place_range_def)
      qed
    qed
  qed
qed

lemma place_loop_ok:
  assumes "user_map m" "list_all user_map ws" "list_all (\<lambda>w. max_offset w = max_offset m) ws"
    and sz: "0 < sz" "sz < ADDRS" and k: "k \<le> 64" and mx: "mx \<le> max_offset m"
  shows "(\<exists>w r. w \<in> set (m # ws) \<and> place_good w sz mx k r \<and>
      place_loop V sz mx (2 ^ k - 1) locked ws m =
        Some (Ended (case r of Placed p start \<Rightarrow> Some (p, start) | _ \<Rightarrow> None, w)) \<and> r \<noteq> Wait_for_room) \<or>
    (\<exists>w. w \<in> set (m # ws) \<and> \<not> locked \<and> wait_for_space w \<and>
      place_loop V sz mx (2 ^ k - 1) locked ws m = Some (Asleep w))"
  using assms
proof (induction ws arbitrary: m)
  case Nil
  obtain r where "place_range V sz mx (2 ^ k - 1) locked m = Some r" "place_good m sz mx k r"
    "r = Wait_for_room \<longrightarrow> \<not> locked \<and> wait_for_space m"
    by (rule place_range_ok [OF Nil(1,4-7)])
  then show ?case by (cases r) auto
next
  case (Cons w ws)
  obtain r where r: "place_range V sz mx (2 ^ k - 1) locked m = Some r" "place_good m sz mx k r"
    "r = Wait_for_room \<longrightarrow> \<not> locked \<and> wait_for_space m"
    by (rule place_range_ok [OF Cons(2,5-8)])
  show ?case
  proof (cases "r = Wait_for_room")
    case True
    then have "place_loop V sz mx (2 ^ k - 1) locked (w # ws) m = place_loop V sz mx (2 ^ k - 1) locked ws w"
      using r(1) by simp
    moreover have "user_map w" "list_all user_map ws" "list_all (\<lambda>v. max_offset v = max_offset w) ws" "mx \<le> max_offset w"
      using Cons(3,4,8) by simp_all
    ultimately show ?thesis using Cons.IH [of w] sz k by (metis list.set_intros(2))
  next
    case False
    then have "place_loop V sz mx (2 ^ k - 1) locked (w # ws) m =
        Some (Ended (case r of Placed p start \<Rightarrow> Some (p, start) | _ \<Rightarrow> None, m))"
      using r(1) by (cases r) simp_all
    then show ?thesis using False r(2) by auto
  qed
qed

subsection \<open>Masks whose high bits lie above bit 31\<close>

text \<open>
  \<^verbatim>\<open>__builtin_ffs\<close> sees the low 32 bits of its argument. A mask that keeps the
  high addresses of a 64-bit space free has its high bits beyond them, and the shift that
  computes the new limit is then by \<open>-1\<close>.
\<close>

lemma ffs_zero: "x mod 2 ^ 32 = 0 \<Longrightarrow> ffs x = 0"
proof -
  assume "x mod 2 ^ 32 = 0"
  then have "find (bit (x mod 2 ^ 32)) [0..<32] = None"
    by (auto simp: find_None_iff)
  then show ?thesis by (simp add: ffs_def)
qed

lemma ffs_eq:
  assumes "i < 32" "x mod 2 ^ Suc i = 2 ^ i"
  shows "ffs x = Suc i"
proof -
  have b: "bit (x mod 2 ^ 32) j = bit (x mod 2 ^ Suc i) j" if "j \<le> i" for j
    using that assms(1) unfolding take_bit_eq_mod [symmetric] by (simp add: bit_take_bit_iff)
  have "bit (x mod 2 ^ 32) j \<longleftrightarrow> j = i" if "j \<le> i" for j
    unfolding b [OF that] assms(2) using that by (auto simp: bit_exp_iff)
  then have "find (bit (x mod 2 ^ 32)) [0..<32] = Some i"
    using assms(1) by (auto simp: find_Some_iff intro!: exI [of _ i])
  then show ?thesis by (simp add: ffs_def)
qed

lemma mask_limit_high: "mask_limit mx 0xFFFF000000000FFF = None"
proof -
  have "ffs (ADDRS - 1 - 0xFFFF000000000FFF) = Suc 12" by (rule ffs_eq) simp_all
  moreover have "ffs (0xFFFF000000000FFF - (2 ^ 12 - 1)) = 0" by (rule ffs_zero) simp
  moreover have "and (uadd 0xFFFF000000000FFF 1) 0xFFFF000000000FFF \<noteq> 0" by (simp add: uadd_def)
  ultimately show ?thesis by (simp add: mask_limit_def Let_def)
qed

end
