(* ===== verification/Vm_Enter.thy ===== *)
theory Vm_Enter
  imports Vm_Place
begin

text \<open>
  Look-up, placement and entry of ranges in an address map.
\<close>

subsection \<open>Look-up\<close>

lemma laid_out_starts:
  assumes "laid_out ent lo hi xs" "e \<in> set xs" shows "limit ent hi xs \<le> vme_start (ent e)"
proof (cases xs)
  case (Cons x zs)
  then have "laid_out ent (vme_end (ent x)) hi zs" "vme_start (ent x) < vme_end (ent x)" using assms by auto
  then show ?thesis using laid_out_ent [of ent "vme_end (ent x)" hi zs e] assms(2) Cons by fastforce
qed (use assms in simp)

lemma find_append: "find P (xs @ ys) = (case find P xs of None \<Rightarrow> find P ys | Some x \<Rightarrow> Some x)"
  by (induction xs) auto

lemma nearest_split:
  assumes inv: "map_inv m" and l: "m_list m = xs @ ys"
    and x: "\<forall>zs e. xs = zs @ [e] \<longrightarrow> vme_start (m_ent m e) \<le> a"
    and y: "\<forall>n zs. ys = n # zs \<longrightarrow> a < vme_start (m_ent m n)"
  shows "tree_nearest m a = hd_opt (rev xs)"
    "mapped m a \<noteq> None \<longleftrightarrow> (\<exists>zs e. xs = zs @ [e] \<and> a < vme_end (m_ent m e))"
proof -
  let ?lo = "last_end (m_ent m) (min_offset m) xs"
  have lo: "laid_out (m_ent m) (min_offset m) ?lo xs" "laid_out (m_ent m) ?lo (max_offset m) ys"
    using map_invD(2) [OF inv] l by (simp_all add: laid_out_app)
  have ys: "a < vme_start (m_ent m e)" if "e \<in> set ys" for e
    using laid_out_starts [OF lo(2) that] y that by (cases ys) auto
  then have f: "find (\<lambda>e. vme_start (m_ent m e) \<le> a) (rev ys) = None" by (fastforce simp: find_None_iff)
  show "tree_nearest m a = hd_opt (rev xs)"
    using x by (cases xs rule: rev_cases) (auto simp: tree_nearest_def l find_append f)
  have vy: "view_in (m_ent m) ys a = None"
  proof -
    have "(\<And>e. e \<in> set ys \<Longrightarrow> a < vme_start (m_ent m e)) \<Longrightarrow> view_in (m_ent m) ys a = None" by (induction ys) fastforce+
    then show ?thesis using ys by blast
  qed
  show "mapped m a \<noteq> None \<longleftrightarrow> (\<exists>zs e. xs = zs @ [e] \<and> a < vme_end (m_ent m e))"
  proof (cases xs rule: rev_cases)
    case Nil
    then show ?thesis using vy l by (simp add: mapped_def)
  next
    case (snoc zs e)
    have "laid_out (m_ent m) (min_offset m) (last_end (m_ent m) (min_offset m) zs) zs"
         "last_end (m_ent m) (min_offset m) zs \<le> vme_start (m_ent m e)"
      using lo(1) snoc by (simp_all add: laid_out_app)
    moreover have "vme_start (m_ent m e) \<le> a" using x snoc by blast
    ultimately have "view_in (m_ent m) zs a = None" by (intro view_in_range) auto
    then show ?thesis using vy l snoc \<open>vme_start (m_ent m e) \<le> a\<close> by (simp add: mapped_def view_in_app del: not_None_eq)
  qed
qed

lemma nearest_exists:
  assumes inv: "map_inv m"
  obtains xs ys where "m_list m = xs @ ys" "tree_nearest m a = hd_opt (rev xs)"
    "\<forall>zs e. xs = zs @ [e] \<longrightarrow> vme_start (m_ent m e) \<le> a" "\<forall>n zs. ys = n # zs \<longrightarrow> a < vme_start (m_ent m n)"
proof -
  let ?P = "\<lambda>e. vme_start (m_ent m e) \<le> a"
  let ?xs = "takeWhile ?P (m_list m)" and ?ys = "dropWhile ?P (m_list m)"
  have l: "m_list m = ?xs @ ?ys" by simp
  have x: "\<forall>zs e. ?xs = zs @ [e] \<longrightarrow> ?P e" using set_takeWhileD [of _ ?P "m_list m"] by fastforce
  have y: "\<forall>n zs. ?ys = n # zs \<longrightarrow> a < vme_start (m_ent m n)"
    by (auto simp: dropWhile_eq_Cons_conv)
  show thesis by (rule that [OF l nearest_split(1) [OF inv l x y] x y])
qed

lemma lookup_entry_eq:
  assumes inv: "map_inv m"
  shows "vm_map_lookup_entry a m = Some (mapped m a \<noteq> None, tree_nearest m a, m\<lparr>m_hint := tree_nearest m a\<rparr>)"
proof -
  obtain xs ys where X: "m_list m = xs @ ys" "tree_nearest m a = hd_opt (rev xs)"
    "\<forall>zs e. xs = zs @ [e] \<longrightarrow> vme_start (m_ent m e) \<le> a" "\<forall>n zs. ys = n # zs \<longrightarrow> a < vme_start (m_ent m n)"
    by (rule nearest_exists [OF inv, of a])
  have search: "(case tree_nearest m a of None \<Rightarrow> (False, None, SAVE_HINT None m)
      | Some e \<Rightarrow> (a < vme_end (m_ent m e), Some e, SAVE_HINT (Some e) m)) =
      (mapped m a \<noteq> None, tree_nearest m a, m\<lparr>m_hint := tree_nearest m a\<rparr>)"
    using X(2) nearest_split(2) [OF inv X(1,3,4)] by (cases xs rule: rev_cases) (auto simp: SAVE_HINT_def)
  show ?thesis
  proof (cases "m_hint m")
    case None
    then show ?thesis using search by (simp add: vm_map_lookup_entry_def)
  next
    case (Some h)
    then have "h \<in> set (m_list m)" using map_invD(4) [OF inv] by simp
    then obtain zs ws where h: "m_list m = zs @ h # ws" by (auto dest: split_list)
    then have l: "m_list m = (zs @ [h]) @ ws" by simp
    have n: "vme_next m (Some h) = Some (hd_opt ws)" by (rule vme_next_split [OF h map_invD(1) [OF inv]])
    have lo: "laid_out (m_ent m) (vme_end (m_ent m h)) (max_offset m) ws"
      using map_invD(2) [OF inv] h by (simp add: laid_out_app)
    have direct: "tree_nearest m a = Some h \<and> (mapped m a \<noteq> None) = (a < vme_end (m_ent m h))"
      if st: "vme_start (m_ent m h) \<le> a" and nx: "\<forall>k vs. ws = k # vs \<longrightarrow> a < vme_start (m_ent m k)"
    proof
      have x: "\<forall>vs e. zs @ [h] = vs @ [e] \<longrightarrow> vme_start (m_ent m e) \<le> a" using st by simp
      show "tree_nearest m a = Some h" using nearest_split(1) [OF inv l x nx] by simp
      show "(mapped m a \<noteq> None) = (a < vme_end (m_ent m h))" unfolding nearest_split(2) [OF inv l x nx] by blast
    qed
    have same: "m\<lparr>m_hint := Some h\<rparr> = m" using Some by simp
    have "tree_nearest m a = Some h \<and> mapped m a \<noteq> None"
      if st: "vme_start (m_ent m h) \<le> a" and en: "a < vme_end (m_ent m h)"
    proof -
      have "\<forall>k vs. ws = k # vs \<longrightarrow> a < vme_start (m_ent m k)" using lo en by auto
      then show ?thesis using direct [OF st] en by simp
    qed
    moreover have "tree_nearest m a = Some h \<and> mapped m a = None"
      if "vme_start (m_ent m h) \<le> a" "\<not> a < vme_end (m_ent m h)"
        "case hd_opt ws of None \<Rightarrow> True | Some k \<Rightarrow> a < vme_start (m_ent m k)"
      using direct [OF that(1)] that(2,3) by (cases ws) (auto simp del: not_None_eq)
    ultimately show ?thesis
      unfolding vm_map_lookup_entry_def search Let_def
      using Some h n
      by (cases "vme_start (m_ent m h) \<le> a"; cases "a < vme_end (m_ent m h)";
          cases "case hd_opt ws of None \<Rightarrow> True | Some k \<Rightarrow> a < vme_start (m_ent m k)")
        (simp_all add: same del: not_None_eq)
  qed
qed

subsection \<open>What entering a range does\<close>

definition new_attrs :: "enter_args \<Rightarrow> attributes" where
  "new_attrs A = (a_cur_protection A, a_max_protection A, a_inheritance A, False, False, False, 0, 0)"

text \<open>The new range was free; it now has the attributes asked for, and the object, if one is
  given, from the given offset on.  Everything else is kept.\<close>

definition new_view :: "enter_args \<Rightarrow> nat \<Rightarrow> nat \<Rightarrow> (attributes \<times> (nat \<times> nat) option) option \<Rightarrow> bool" where
  "new_view A start z v \<longleftrightarrow>
     (\<exists>B. v = Some (new_attrs A, B) \<and> (\<forall>ob. a_object A = Some ob \<longrightarrow> B = Some (ob, uadd (a_offset A) (z - start))))"

definition entered :: "enter_args \<Rightarrow> nat \<Rightarrow> nat \<Rightarrow> vm_map \<Rightarrow> vm_map \<Rightarrow> bool" where
  "entered A start sz m m' \<longleftrightarrow>
     map_inv m' \<and> same_frame m m' \<and>
     (\<forall>z. if start \<le> z \<and> z < start + sz then mapped m z = None \<and> new_view A start z (mapped m' z)
          else keeps (mapped m z) (mapped m' z))"

lemma new_view_keeps: "new_view A start z v \<Longrightarrow> keeps v w \<Longrightarrow> new_view A start z w"
  unfolding new_view_def keeps_def by (cases w) (force simp del: split_paired_All split_paired_Ex)+

lemma entered_keeps: "entered A start sz m m1 \<Longrightarrow> keeps_map m1 m2 \<Longrightarrow> entered A start sz m m2"
  unfolding entered_def keeps_map_def by (metis new_view_keeps keeps_trans same_frame_trans)

lemma entered_objects [simp]: "entered A start sz (m\<lparr>m_objects := obs\<rparr>) m' = entered A start sz m m'"
  by (simp add: entered_def same_frame_def)

lemma regap_upd [simp]:
  "(regap g h m)\<lparr>m_size := v\<rparr> = regap g h (m\<lparr>m_size := v\<rparr>)"
  "(regap g h m)\<lparr>m_hint := p\<rparr> = regap g h (m\<lparr>m_hint := p\<rparr>)"
  "(regap g h m)\<lparr>first_free := p\<rparr> = regap g h (m\<lparr>first_free := p\<rparr>)"
  by (simp_all add: regap_def)

lemma laid_out_from_limit: "laid_out ent lo hi ys \<Longrightarrow> laid_out ent (limit ent hi ys) hi ys"
  by (cases ys) auto

text \<open>A hole of the map: the entries before and after it.\<close>

definition hole :: "vm_map \<Rightarrow> nat list \<Rightarrow> nat list \<Rightarrow> nat \<Rightarrow> nat \<Rightarrow> bool" where
  "hole m xs ys start sz \<longleftrightarrow>
     map_inv m \<and> m_list m = xs @ ys \<and> last_end (m_ent m) (min_offset m) xs \<le> start \<and>
     start + sz \<le> limit (m_ent m) (max_offset m) ys \<and> 0 < sz"

lemma holeD:
  assumes "hole m xs ys start sz"
  shows "map_inv m" "m_list m = xs @ ys" "last_end (m_ent m) (min_offset m) xs \<le> start"
    "start + sz \<le> limit (m_ent m) (max_offset m) ys" "0 < sz"
    "laid_out (m_ent m) (min_offset m) (last_end (m_ent m) (min_offset m) xs) xs"
    "laid_out (m_ent m) (last_end (m_ent m) (min_offset m) xs) (max_offset m) ys"
  using assms map_invD(2) [of m] by (simp_all add: hole_def laid_out_app)

lemma hole_objects [simp]: "hole (m\<lparr>m_objects := obs\<rparr>) xs ys start sz = hole m xs ys start sz"
  by (simp add: hole_def)

lemma hole_below_max: "hole m xs ys start sz \<Longrightarrow> start + sz \<le> max_offset m \<and> max_offset m < ADDRS"
  using holeD(4) [of m xs ys start sz] laid_out_limit [OF holeD(7), of m xs ys start sz] map_invD(3) [OF holeD(1)]
  by fastforce

lemma hole_before: "hole m xs ys start sz \<Longrightarrow> start \<le> z \<Longrightarrow> view_in (m_ent m) xs z = None"
  using view_in_range [OF holeD(6), of m xs ys start sz z] holeD(3) [of m xs ys start sz] by simp

lemma hole_after: "hole m xs ys start sz \<Longrightarrow> z < start + sz \<Longrightarrow> view_in (m_ent m) ys z = None"
  using view_in_range [OF laid_out_from_limit [OF holeD(7)], of m xs ys start sz z] holeD(4) [of m xs ys start sz] by simp

lemma hole_free: "hole m xs ys start sz \<Longrightarrow> start \<le> z \<Longrightarrow> z < start + sz \<Longrightarrow> mapped m z = None"
  using hole_before hole_after holeD(2) by (simp add: mapped_def view_in_app)

lemma hole_room:
  assumes H: "hole m xs ys start sz"
  shows "uadd (m_size m) sz = m_size m + sz"
proof -
  note D = holeD [OF H]
  have "total_size (m_ent m) xs \<le> last_end (m_ent m) (min_offset m) xs - min_offset m"
    by (rule total_size_bound [OF D(6)])
  moreover have "total_size (m_ent m) ys \<le> max_offset m - limit (m_ent m) (max_offset m) ys"
    by (rule total_size_bound [OF laid_out_from_limit [OF D(7)]])
  ultimately have "total_size (m_ent m) (xs @ ys) + sz \<le> max_offset m"
    using D(3,4) laid_out_limit [OF D(7)] by simp
  then show ?thesis using map_invD(3,8) [OF D(1)] D(2) by (simp add: uadd_eq)
qed

lemma hole_apart:
  assumes "hole m xs ys start sz"
  shows "distinct xs" "distinct ys" "set xs \<inter> set ys = {}" "m_fresh m \<notin> set xs" "m_fresh m \<notin> set ys"
  using map_invD(1) [OF holeD(1) [OF assms]] fresh_not_in [OF holeD(1) [OF assms]] holeD(2) [OF assms] by auto

lemma next_after:
  assumes "m_list m = xs @ ys" "distinct (m_list m)"
  shows "vme_next m (hd_opt (rev xs)) = Some (hd_opt ys)"
proof (cases xs rule: rev_cases)
  case Nil
  then show ?thesis using assms by (simp add: vme_header)
next
  case (snoc zs z)
  then show ?thesis using assms vme_next_split [of m zs z ys] by simp
qed

lemma hole_next: "hole m xs ys start sz \<Longrightarrow> vme_next m (hd_opt (rev xs)) = Some (hd_opt ys)"
  by (rule next_after [OF holeD(2) map_invD(1) [OF holeD(1)]])

subsection \<open>A new entry\<close>

lemma enter_entry_sel [simp]:
  "vme_start (enter_entry A start fin) = start" "vme_end (enter_entry A start fin) = fin"
  "attrs (enter_entry A start fin) = new_attrs A"
  by (simp_all add: enter_entry_def fresh_entry_def attrs_def new_attrs_def)

lemma new_view_entry: "new_view A start z (Some (new_attrs A, backing (enter_entry A start fin) z))"
  by (auto simp: new_view_def backing_def enter_entry_def fresh_entry_def)

lemma entered_insert:
  assumes H: "hole m xs ys start sz"
    and M: "m_list M = xs @ n # ys" "m_ent M = (m_ent m)(n := enter_entry A start (start + sz))" "n \<notin> set xs \<union> set ys"
    and I: "map_inv (regap g h M)" "same_frame m M"
  shows "entered A start sz m (regap g h M)"
  unfolding entered_def same_frame_ops mapped_regap
proof (intro conjI allI I)
  fix z
  show "if start \<le> z \<and> z < start + sz then mapped m z = None \<and> new_view A start z (mapped M z)
      else keeps (mapped m z) (mapped M z)"
    using hole_free [OF H, of z] hole_before [OF H, of z] M holeD(2) [OF H] new_view_entry [of A start z "start + sz"]
    by (auto simp: mapped_def view_in_app split: option.splits)
qed

lemma enter_new_ok:
  assumes H: "hole m xs ys start sz" and w: "\<not> wiring_required m"
  obtains m' where "enter_new V A sz (hd_opt (rev xs)) start (start + sz) m = Some m'" "entered A start sz m m'"
proof -
  let ?n = "m_fresh m" and ?x = "enter_entry A start (start + sz)"
  let ?m = "m\<lparr>m_ent := (m_ent m)(?n := ?x), m_fresh := ?n + 1\<rparr>"
  note D = holeD [OF H] and N = hole_apart [OF H]
  note I = map_invD [OF D(1)]
  have h: "gaps_of ?m = (gaps_of m)(?n := gap_size ?x)" by (rule ext) simp
  have lo: "laid_out (m_ent ?m) (min_offset m) (max_offset m) (xs @ ?n # ys)"
    using D(3-7) N laid_out_last [of "m_ent m" "start + sz" "max_offset m" ys] laid_out_limit [OF D(7)]
    by (cases ys) (auto simp: laid_out_app)
  obtain g h where gh: "vm_map_entry_link (hd_opt (rev xs)) ?n ?m = Some (regap g h (?m\<lparr>m_list := xs @ ?n # ys\<rparr>))"
    "indexed (set (xs @ ?n # ys)) g h" "gaps_right (m_ent ?m) h (max_offset ?m) (xs @ ?n # ys)"
  proof (rule entry_link_ok [of ?m xs ys ?n "min_offset m"])
    show "indexed (set (xs @ ys)) (gap_tree ?m) (gaps_of ?m)" unfolding h using I(6) D(2) N by simp
    show "gaps_inner (m_ent ?m) (gaps_of ?m) xs" "gaps_right (m_ent ?m) (gaps_of ?m) (max_offset ?m) ys"
      unfolding h using I(7) D(2) N gaps_right_inner by (auto simp: gaps_right_app)
  qed (use D N I lo in auto)
  define free where "free = (if first_free m = hd_opt (rev xs) \<and>
    (case hd_opt (rev xs) of None \<Rightarrow> min_offset m | Some e \<Rightarrow> vme_end (m_ent m e)) \<ge> start then Some ?n else first_free m)"
  let ?M = "?m\<lparr>m_list := xs @ ?n # ys, m_size := m_size m + sz, first_free := free, m_hint := Some ?n\<rparr>"
  have "list_all (\<lambda>e. e < Suc ?n) (xs @ ys)"
    using D(1,2) by (auto simp: map_inv_def map_core_def list_all_iff less_Suc_eq)
  then have "map_core ?M"
    using D N I lo by (auto simp: map_core_def free_def ptr_ok_def split: option.splits)
  then have i: "map_inv (regap g h ?M)" using gh(2,3) by (simp add: map_inv_regap)
  have e: "entered A start sz m (regap g h ?M)"
    by (rule entered_insert [OF H, of ?M ?n]) (use i N in \<open>simp_all add: same_frame_def\<close>)
  have p: "hd_opt (rev xs) = Some e \<Longrightarrow> e \<noteq> ?n" for e using N by (cases xs rule: rev_cases) auto
  have "enter_new V A sz (hd_opt (rev xs)) start (start + sz) m = Some (regap g h ?M)"
    using gh(1) w p hole_room [OF H]
    by (auto simp: enter_new_def vm_map_entry_create_def upd_entry_def free_def SAVE_HINT_def Let_def
        split: option.splits)
  then show thesis using e by (rule that)
qed

subsection \<open>Extending a neighbour\<close>

lemma extensible_attrs: "extensible A x \<Longrightarrow> attrs x = new_attrs A"
  by (simp add: extensible_def attrs_def new_attrs_def)

lemma keeps_backing:
  assumes "\<And>ob. vme_object x = Some ob \<Longrightarrow> backing y z = backing x z"
  shows "keeps (Some (a, backing x z)) (Some (a, backing y z))"
  by (rule keeps_view) (use assms in \<open>cases "vme_object x"; auto simp: backing_def\<close>)

definition grow_end :: "nat option \<times> nat \<Rightarrow> nat \<Rightarrow> vm_map_entry \<Rightarrow> vm_map_entry" where
  "grow_end q fin x = x\<lparr>vme_object := fst q, vme_offset := snd q, vme_end := fin\<rparr>"

definition grow_start :: "nat option \<times> nat \<Rightarrow> nat \<Rightarrow> vm_map_entry \<Rightarrow> vm_map_entry" where
  "grow_start q start x = x\<lparr>vme_object := fst q, vme_offset := snd q, vme_start := start\<rparr>"

lemma grow_sel [simp]:
  "vme_start (grow_end q fin x) = vme_start x" "vme_end (grow_end q fin x) = fin"
  "gap_size (grow_end q fin x) = gap_size x" "attrs (grow_end q fin x) = attrs x"
  "vme_start (grow_start q start x) = start" "vme_end (grow_start q start x) = vme_end x"
  "gap_size (grow_start q start x) = gap_size x" "attrs (grow_start q start x) = attrs x"
  by (simp_all add: grow_end_def grow_start_def attrs_def)

lemma grow_end_view:
  assumes co: "vm_object_coalesce V (vme_object x) (a_object A) (vme_offset x) (a_offset A) (start - vme_start x) sz m = (Some q, m')"
    and ext: "extensible A x" and s: "vme_start x \<le> start"
  shows "keeps (Some (attrs x, backing x z)) (Some (attrs x, backing (grow_end q fin x) z))"
    "start \<le> z \<Longrightarrow> new_view A start z (Some (attrs x, backing (grow_end q fin x) z))"
proof -
  have co: "vm_object_coalesce V (vme_object x) (a_object A) (vme_offset x) (a_offset A) (start - vme_start x) sz m =
      (Some (fst q, snd q), m')"
    using co by simp
  show "keeps (Some (attrs x, backing x z)) (Some (attrs x, backing (grow_end q fin x) z))"
    by (rule keeps_backing) (use coalesce_backing(1) [OF co] in \<open>auto simp: backing_def grow_end_def\<close>)
  assume z: "start \<le> z"
  then have "z - vme_start x = (start - vme_start x) + (z - start)" using s by simp
  then show "new_view A start z (Some (attrs x, backing (grow_end q fin x) z))"
    using coalesce_backing(2) [OF co, where d = "z - start"] extensible_attrs [OF ext]
    by (auto simp: new_view_def backing_def grow_end_def)
qed

lemma grow_start_view:
  assumes co: "vm_object_coalesce V (a_object A) (vme_object x) (a_offset A) (vme_offset x) sz qs m = (Some q, m')"
    and ext: "extensible A x" and s: "vme_start x = start + sz"
  shows "vme_start x \<le> z \<Longrightarrow> keeps (Some (attrs x, backing x z)) (Some (attrs x, backing (grow_start q start x) z))"
    "new_view A start z (Some (attrs x, backing (grow_start q start x) z))"
proof -
  have co: "vm_object_coalesce V (a_object A) (vme_object x) (a_offset A) (vme_offset x) sz qs m = (Some (fst q, snd q), m')"
    using co by simp
  show "new_view A start z (Some (attrs x, backing (grow_start q start x) z))"
    using coalesce_backing(1) [OF co] extensible_attrs [OF ext] by (auto simp: new_view_def backing_def grow_start_def)
  assume "vme_start x \<le> z"
  then have "z - start = sz + (z - vme_start x)" using s by simp
  then show "keeps (Some (attrs x, backing x z)) (Some (attrs x, backing (grow_start q start x) z))"
    using coalesce_backing(2) [OF co, where d = "z - vme_start x"]
    by (intro keeps_backing) (auto simp: backing_def grow_start_def)
qed

lemma entered_coalesce:
  assumes "entered A start sz m M" "ptr_ok (m_list M) p"
  obtains c m' where "vm_map_coalesce_entries V p M = Some (c, m')" "entered A start sz m m'"
proof -
  have "map_inv M" using assms(1) by (simp add: entered_def)
  then obtain c m' where "vm_map_coalesce_entries V p M = Some (c, m')" "keeps_map M m'"
    by (rule coalesce_entries_ok [OF _ assms(2)])
  then show thesis using that entered_keeps [OF assms(1)] by blast
qed

lemma enter_below_ok:
  assumes H: "hole m (zs @ [e]) ys start sz" and en: "vme_end (m_ent m e) = start" and xt: "extensible A (m_ent m e)"
    and co: "vm_object_coalesce V (vme_object (m_ent m e)) (a_object A) (vme_offset (m_ent m e)) (a_offset A)
               (start - vme_start (m_ent m e)) sz m0 = (Some q, m1)"
  obtains m' where "enter_below V sz q (hd_opt ys) (start + sz) e m = Some m'" "entered A start sz m m'"
proof -
  let ?x = "m_ent m e" and ?fin = "start + sz"
  let ?M = "m\<lparr>m_size := m_size m + sz, m_ent := (m_ent m)(e := grow_end q ?fin ?x)\<rparr>"
  note D = holeD [OF H] and N = hole_apart [OF H]
  note I = map_invD [OF D(1)]
  have l: "m_list m = zs @ e # ys" using D(2) by simp
  have se: "vme_start ?x < start" using map_inv_ent(1) [OF D(1) l] en by simp
  have h: "gaps_of ?M = gaps_of m" by (rule ext) simp
  have lo: "laid_out (m_ent ?M) (min_offset m) (max_offset m) ((zs @ [e]) @ ys)"
    using D(3-7) N se en laid_out_limit [OF D(7)] by (cases ys) (auto simp: laid_out_app)
  obtain g h where gh: "vm_map_gap_update (hd_opt (rev (zs @ [e]))) ?M = Some (regap g h ?M)"
    "indexed (set ((zs @ [e]) @ ys)) g h" "gaps_right (m_ent ?M) h (max_offset ?M) ((zs @ [e]) @ ys)"
  proof (rule gap_update_ok [of ?M "zs @ [e]" ys "min_offset m"])
    show "indexed (set ((zs @ [e]) @ ys)) (gap_tree ?M) (gaps_of ?M)" unfolding h using I(6) D(2) by simp
    show "gaps_inner (m_ent ?M) (gaps_of ?M) (zs @ [e])" "gaps_right (m_ent ?M) (gaps_of ?M) (max_offset ?M) ys"
      unfolding h using I(7) l N by (auto simp: gaps_right_app)
  qed (use D N I lo in auto)
  have "map_core ?M"
    using D(1) l lo N en se by (auto simp: map_inv_def map_core_def)
  then have i: "map_inv (regap g h ?M)" using gh(2,3) l by (simp add: map_inv_regap)
  have v: "view_in (m_ent m) zs z = None" if "vme_start ?x \<le> z" for z
    using view_in_range [of "m_ent m" "min_offset m" "last_end (m_ent m) (min_offset m) zs" zs z] D(6) that
    by (auto simp: laid_out_app)
  have "entered A start sz m (regap g h ?M)"
    unfolding entered_def same_frame_ops mapped_regap
  proof (intro conjI allI i)
    show "same_frame m ?M" by (simp add: same_frame_def)
    fix z
    show "if start \<le> z \<and> z < start + sz then mapped m z = None \<and> new_view A start z (mapped ?M z)
        else keeps (mapped m z) (mapped ?M z)"
      using hole_free [OF H, of z] v [of z] grow_end_view [OF co xt less_imp_le [OF se], of z ?fin] l N se en
      by (auto simp: mapped_def view_in_app split: option.splits)
  qed
  moreover have ptr: "ptr_ok (m_list (regap g h ?M)) (hd_opt ys)" using l by (cases ys) simp_all
  ultimately obtain c m' where m': "vm_map_coalesce_entries V (hd_opt ys) (regap g h ?M) = Some (c, m')"
      "entered A start sz m m'"
    by (rule entered_coalesce)
  have "enter_below V sz q (hd_opt ys) (start + sz) e m = Some m'"
    using gh(1) m'(1) hole_room [OF H] by (simp add: enter_below_def upd_entry_def grow_end_def)
  then show thesis using m'(2) by (rule that)
qed

lemma enter_above_ok:
  assumes H: "hole m xs (n # ys) start sz" and st: "vme_start (m_ent m n) = start + sz" and xt: "extensible A (m_ent m n)"
    and co: "vm_object_coalesce V (a_object A) (vme_object (m_ent m n)) (a_offset A) (vme_offset (m_ent m n)) sz qs m0 =
               (Some q, m1)"
  obtains m' where "enter_above V sz q (hd_opt (rev xs)) start n m = Some m'" "entered A start sz m m'"
proof -
  let ?x = "m_ent m n"
  let ?M = "m\<lparr>m_size := m_size m + sz, m_ent := (m_ent m)(n := grow_start q start ?x)\<rparr>"
  note D = holeD [OF H] and N = hole_apart [OF H]
  note I = map_invD [OF D(1)]
  have se: "vme_start ?x < vme_end ?x" using map_inv_ent(1) [OF D(1,2)] .
  have h: "gaps_of ?M = gaps_of m" by (rule ext) simp
  have lo: "laid_out (m_ent ?M) (min_offset m) (max_offset m) (xs @ n # ys)"
    using D(3-7) N se st by (auto simp: laid_out_app)
  obtain g h where gh: "vm_map_gap_update (hd_opt (rev xs)) ?M = Some (regap g h ?M)"
    "indexed (set (xs @ n # ys)) g h" "gaps_right (m_ent ?M) h (max_offset ?M) (xs @ n # ys)"
  proof (rule gap_update_ok [of ?M xs "n # ys" "min_offset m"])
    show "indexed (set (xs @ n # ys)) (gap_tree ?M) (gaps_of ?M)" unfolding h using I(6) D(2) by simp
    show "gaps_inner (m_ent ?M) (gaps_of ?M) xs" "gaps_right (m_ent ?M) (gaps_of ?M) (max_offset ?M) (n # ys)"
      unfolding h using I(7) D(2) N gaps_right_inner by (auto simp: gaps_right_app)
  qed (use D N I lo in auto)
  have "map_core ?M"
    using D(1,2) lo N st se by (auto simp: map_inv_def map_core_def)
  then have i: "map_inv (regap g h ?M)" using gh(2,3) D(2) by (simp add: map_inv_regap)
  have "entered A start sz m (regap g h ?M)"
    unfolding entered_def same_frame_ops mapped_regap
  proof (intro conjI allI i)
    show "same_frame m ?M" by (simp add: same_frame_def)
    fix z
    show "if start \<le> z \<and> z < start + sz then mapped m z = None \<and> new_view A start z (mapped ?M z)
        else keeps (mapped m z) (mapped ?M z)"
      using hole_free [OF H, of z] hole_before [OF H, of z] grow_start_view [OF co xt st, of z] D(2) N se st
      by (auto simp: mapped_def view_in_app split: option.splits)
  qed
  moreover have ptr: "ptr_ok (m_list (regap g h ?M)) (Some n)" using D(2) by simp
  ultimately obtain c m' where m': "vm_map_coalesce_entries V (Some n) (regap g h ?M) = Some (c, m')"
      "entered A start sz m m'"
    by (rule entered_coalesce)
  have "enter_above V sz q (hd_opt (rev xs)) start n m = Some m'"
    using gh(1) m'(1) hole_room [OF H] by (simp add: enter_above_def upd_entry_def grow_start_def)
  then show thesis using m'(2) by (rule that)
qed

lemma extend_objects:
  "\<exists>r obs. extend_below V A start sz p m = (r, m\<lparr>m_objects := obs\<rparr>)"
  "\<exists>r obs. extend_above V A fin sz p m = (r, m\<lparr>m_objects := obs\<rparr>)"
proof -
  have c: "\<exists>r obs. vm_object_coalesce V q q' po qo ps qs m = (r, m\<lparr>m_objects := obs\<rparr>)" for q q' po qo ps qs
    using coalesce_eq [of V q q' po qo ps qs m] by blast
  have n: "\<exists>r obs. (None, m) = (r, m\<lparr>m_objects := obs\<rparr>)" by (intro exI [of _ None] exI [of _ "m_objects m"]) simp
  show "\<exists>r obs. extend_below V A start sz p m = (r, m\<lparr>m_objects := obs\<rparr>)"
    unfolding extend_below_def Let_def using c n by (cases p) (simp_all split: if_split)
  show "\<exists>r obs. extend_above V A fin sz p m = (r, m\<lparr>m_objects := obs\<rparr>)"
    unfolding extend_above_def Let_def using c n by (cases p) (simp_all split: if_split)
qed

lemma enter_range_ok:
  assumes H: "hole m xs ys start sz" and w: "\<not> wiring_required m"
  obtains m' where "enter_range V A sz (hd_opt (rev xs)) (hd_opt ys) start (start + sz) m = Some m'"
    "entered A start sz m m'"
proof -
  let ?p = "hd_opt (rev xs)" and ?n = "hd_opt ys"
  obtain r obs where r: "extend_below V A start sz ?p m = (r, m\<lparr>m_objects := obs\<rparr>)"
    using extend_objects(1) by blast
  let ?m1 = "m\<lparr>m_objects := obs\<rparr>"
  have H1: "hole ?m1 xs ys start sz" using H by simp
  obtain r2 obs2 where r2: "extend_above V A (start + sz) sz ?n ?m1 = (r2, m\<lparr>m_objects := obs2\<rparr>)"
    using extend_objects(2) [of V A "start + sz" sz ?n ?m1] by auto
  let ?m2 = "m\<lparr>m_objects := obs2\<rparr>"
  have H2: "hole ?m2 xs ys start sz" using H by simp
  obtain m3 where m3: "enter_new V A sz ?p start (start + sz) ?m2 = Some m3" "entered A start sz m m3"
    using enter_new_ok [OF H2, of V A] w by auto
  show thesis
  proof (cases "\<exists>e q. ?p = Some e \<and> r = Some q")
    case True
    then obtain e q zs where e: "?p = Some e" "r = Some q" "xs = zs @ [e]"
      by (cases xs rule: rev_cases) auto
    have E: "vme_end (m_ent m e) = start" "extensible A (m_ent m e)"
      using r e by (auto simp: extend_below_def Let_def split: if_splits)
    have u: "usub start (vme_start (m_ent m e)) = start - vme_start (m_ent m e)"
      using map_inv_ent [OF holeD(1) [OF H], of zs e ys] holeD(2) [OF H] e E by (intro usub_eq) auto
    have co: "vm_object_coalesce V (vme_object (m_ent ?m1 e)) (a_object A) (vme_offset (m_ent ?m1 e)) (a_offset A)
        (start - vme_start (m_ent ?m1 e)) sz m = (Some q, ?m1)"
      using r e E u by (simp add: extend_below_def Let_def)
    have "hole ?m1 (zs @ [e]) ys start sz" "vme_end (m_ent ?m1 e) = start" "extensible A (m_ent ?m1 e)"
      using H1 e E by simp_all
    then obtain m' where m': "enter_below V sz q ?n (start + sz) e ?m1 = Some m'" "entered A start sz ?m1 m'"
      by (rule enter_below_ok [OF _ _ _ co])
    then show thesis using that r e by (simp add: enter_range_def)
  next
    case False
    then have rn: "?p = None \<or> r = None" by (cases ?p; cases r) auto
    show thesis
    proof (cases "\<exists>n q. ?n = Some n \<and> r2 = Some q")
      case True
      then obtain n q zs where n: "?n = Some n" "r2 = Some q" "ys = n # zs" by (cases ys) auto
      have E: "vme_start (m_ent m n) = start + sz" "extensible A (m_ent m n)"
        using r2 n by (auto simp: extend_above_def Let_def split: if_splits)
      have co: "vm_object_coalesce V (a_object A) (vme_object (m_ent ?m2 n)) (a_offset A) (vme_offset (m_ent ?m2 n)) sz
          (usub (vme_end (m_ent m n)) (vme_start (m_ent m n))) ?m1 = (Some q, ?m2)"
        using r2 n E by (simp add: extend_above_def Let_def)
      have "hole ?m2 xs (n # zs) start sz" "vme_start (m_ent ?m2 n) = start + sz" "extensible A (m_ent ?m2 n)"
        using H2 n E by simp_all
      then obtain m' where m': "enter_above V sz q ?p start n ?m2 = Some m'" "entered A start sz ?m2 m'"
        by (rule enter_above_ok [OF _ _ _ co])
      have "enter_range V A sz ?p ?n start (start + sz) m = Some m'"
        using m'(1) r r2 n rn by (cases ?p) (auto simp: enter_range_def split: option.splits)
      then show thesis using m'(2) by (intro that) simp_all
    next
      case False
      then have rn2: "?n = None \<or> r2 = None" by (cases ?n; cases r2) auto
      have "enter_range V A sz ?p ?n start (start + sz) m = Some m3"
        using m3(1) r r2 rn rn2 by (cases ?p; cases ?n) (auto simp: enter_range_def split: option.splits)
      then show thesis using m3(2) by (rule that)
    qed
  qed
qed

subsection \<open>At a given address\<close>

definition free_at :: "vm_map \<Rightarrow> nat \<Rightarrow> nat \<Rightarrow> bool" where
  "free_at m start sz \<longleftrightarrow>
     min_offset m \<le> start \<and> start + sz \<le> max_offset m \<and> (\<forall>z. start \<le> z \<and> z < start + sz \<longrightarrow> mapped m z = None)"

lemma map_inv_hint [simp]: "map_inv m \<Longrightarrow> ptr_ok (m_list m) p \<Longrightarrow> map_inv (m\<lparr>m_hint := p\<rparr>)"
  by (simp add: map_inv_def map_core_def)

lemma mapped_hint [simp]: "mapped (m\<lparr>m_hint := p\<rparr>) = mapped m"
  by (simp add: mapped_def fun_eq_iff)

lemma same_frame_hint [simp]: "same_frame (m\<lparr>m_hint := p\<rparr>) m' = same_frame m m'" "same_frame m (m\<lparr>m_hint := p\<rparr>)"
  by (simp_all add: same_frame_def)

lemma entered_hint [simp]: "entered A start sz (m\<lparr>m_hint := p\<rparr>) m' = entered A start sz m m'"
  by (simp add: entered_def)

lemma nearest_ptr: "ptr_ok (m_list m) (tree_nearest m a)"
  by (auto simp: tree_nearest_def ptr_ok_def find_Some_iff split: option.splits)
     (metis nth_mem set_rev length_rev)

lemma keeps_map_hint: "map_inv m \<Longrightarrow> keeps_map m (m\<lparr>m_hint := tree_nearest m a\<rparr>)"
  by (simp add: keeps_map_def nearest_ptr)

lemma mapped_member:
  assumes "map_inv m" "e \<in> set (m_list m)" "vme_start (m_ent m e) \<le> z" "z < vme_end (m_ent m e)"
  shows "mapped m z \<noteq> None"
proof -
  have "e \<in> set xs \<Longrightarrow> view_in (m_ent m) xs z \<noteq> None" for xs
    using assms(3,4) by (induction xs) (auto simp del: not_None_eq)
  then show ?thesis using assms(2) by (simp add: mapped_def del: not_None_eq)
qed

lemma hole_from_lookup:
  assumes inv: "map_inv m" and sz: "0 < sz" and b: "min_offset m \<le> start" "start + sz \<le> max_offset m"
    and n: "mapped m start = None" and X: "m_list m = xs @ ys"
      "\<forall>zs e. xs = zs @ [e] \<longrightarrow> vme_start (m_ent m e) \<le> start" "\<forall>n zs. ys = n # zs \<longrightarrow> start < vme_start (m_ent m n)"
    and y: "case hd_opt ys of None \<Rightarrow> True | Some n \<Rightarrow> start + sz \<le> vme_start (m_ent m n)"
  shows "hole m xs ys start sz"
proof -
  have "last_end (m_ent m) (min_offset m) xs \<le> start"
    using nearest_split(2) [OF inv X] n b(1) by (cases xs rule: rev_cases) auto
  moreover have "start + sz \<le> limit (m_ent m) (max_offset m) ys" using y b(2) by (cases ys) auto
  ultimately show ?thesis using inv sz X(1) by (simp add: hole_def)
qed

lemma overlap_not_free:
  assumes inv: "map_inv m" and sz: "0 < sz" and X: "m_list m = xs @ ys" "\<forall>n zs. ys = n # zs \<longrightarrow> start < vme_start (m_ent m n)"
    and b: "mapped m start \<noteq> None \<or> (\<exists>n. hd_opt ys = Some n \<and> vme_start (m_ent m n) < start + sz)"
  shows "\<not> free_at m start sz"
  using b
proof
  assume "mapped m start \<noteq> None"
  then show ?thesis using sz by (auto simp: free_at_def simp del: not_None_eq)
next
  assume "\<exists>n. hd_opt ys = Some n \<and> vme_start (m_ent m n) < start + sz"
  then obtain n zs where n: "ys = n # zs" "vme_start (m_ent m n) < start + sz" by (auto simp: hd_opt_iff)
  have e: "n \<in> set (m_list m)" using X(1) n(1) by simp
  then have "vme_start (m_ent m n) < vme_end (m_ent m n)" using laid_out_ent [OF map_invD(2) [OF inv]] by blast
  then have "mapped m (vme_start (m_ent m n)) \<noteq> None" using mapped_member [OF inv e] by blast
  then show ?thesis using X(2) n by (auto simp: free_at_def simp del: not_None_eq intro!: exI [of _ "vme_start (m_ent m n)"])
qed

lemma enter_at_ok:
  assumes inv: "map_inv m" and w: "\<not> wiring_required m" and sz: "0 < sz" "sz < ADDRS" and st: "start < ADDRS"
  obtains kr m' where "enter_at V A start sz msk m = Some (kr, start, m')"
    "if kr = KERN_SUCCESS then entered A start sz m m' \<and> free_at m start sz \<and> and start msk = 0
     else keeps_map m m' \<and> \<not> (free_at m start sz \<and> and start msk = 0)"
proof (cases "and start msk = 0 \<and> min_offset m \<le> start \<and> start + sz \<le> max_offset m")
  case False
  have "uadd start sz = start + sz \<or> uadd start sz \<le> start" using no_wrap [of start sz] st sz(2) by linarith
  then have "\<exists>kr. enter_at V A start sz msk m = Some (kr, start, m) \<and> kr \<noteq> KERN_SUCCESS"
    using False sz by (auto simp: enter_at_def Let_def)
  then show thesis using that False keeps_map_refl [OF inv] by (auto simp: free_at_def)
next
  case True
  then have u: "uadd start sz = start + sz" using map_invD(3) [OF inv] by (intro uadd_eq) simp
  obtain xs ys where X: "m_list m = xs @ ys" "tree_nearest m start = hd_opt (rev xs)"
    "\<forall>zs e. xs = zs @ [e] \<longrightarrow> vme_start (m_ent m e) \<le> start" "\<forall>n zs. ys = n # zs \<longrightarrow> start < vme_start (m_ent m n)"
    by (rule nearest_exists [OF inv, of start])
  let ?m = "m\<lparr>m_hint := tree_nearest m start\<rparr>"
  have i: "map_inv ?m" using inv nearest_ptr by simp
  note lk = lookup_entry_eq [OF inv, of start]
  have nx: "vme_next ?m (tree_nearest m start) = Some (hd_opt ys)"
    using next_after [of ?m xs ys] X(1,2) map_invD(1) [OF i] by simp
  define busy where "busy \<longleftrightarrow> mapped m start \<noteq> None \<or>
    (case hd_opt ys of None \<Rightarrow> False | Some n \<Rightarrow> vme_start (m_ent m n) < start + sz)"
  show thesis
  proof (cases busy)
    case b: True
    have nf: "\<not> free_at m start sz"
      by (rule overlap_not_free [OF inv sz(1) X(1,4)]) (use b in \<open>auto simp: busy_def split: option.splits simp del: not_None_eq\<close>)
    have "enter_at V A start sz msk m = Some (KERN_NO_SPACE, start, ?m)"
      using True sz b unfolding enter_at_def Let_def u lk
      by (cases "mapped m start = None"; cases "hd_opt ys") (simp_all add: nx busy_def del: not_None_eq)
    then show thesis using that [of KERN_NO_SPACE ?m] keeps_map_hint [OF inv] nf by simp
  next
    case b: False
    have H: "hole m xs ys start sz"
      by (rule hole_from_lookup [OF inv sz(1) _ _ _ X(1,3,4)])
        (use True b in \<open>auto simp: busy_def split: option.splits simp del: not_None_eq\<close>)
    then have H': "hole ?m xs ys start sz" using i by (simp add: hole_def)
    obtain m' where m': "enter_range V A sz (hd_opt (rev xs)) (hd_opt ys) start (start + sz) ?m = Some m'"
        "entered A start sz ?m m'"
      by (rule enter_range_ok [OF H']) (use w in simp)
    have "enter_at V A start sz msk m = Some (KERN_SUCCESS, start, m')"
      using True sz b m'(1) X(2) unfolding enter_at_def Let_def u lk
      by (cases "hd_opt ys") (simp_all add: nx [unfolded X(2)] busy_def del: not_None_eq)
    moreover have "free_at m start sz" using hole_free [OF H] True by (simp add: free_at_def)
    ultimately show thesis using that [of KERN_SUCCESS m'] m'(2) True by simp
  qed
qed

subsection \<open>Anywhere\<close>

lemma free_range_hole:
  assumes "map_inv m" "free_range m p start sz" "0 < sz"
  obtains xs ys where "hole m xs ys start sz" "p = hd_opt (rev xs)"
  using assms by (auto simp: free_range_def hole_def)

definition script_ok :: "vm_map \<Rightarrow> vm_map list \<Rightarrow> bool" where
  "script_ok m ws \<longleftrightarrow>
     list_all (\<lambda>w. user_map w \<and> \<not> wiring_required w \<and> max_offset w = max_offset m) (m # ws)"

lemma mask_limit_low: "and (uadd msk 1) msk = 0 \<Longrightarrow> mask_limit mx msk = Some (Some (mx, msk))"
  by (simp add: mask_limit_def)

lemma enter_placed_ok:
  assumes inv: "map_inv m" and w: "\<not> wiring_required m" and f: "free_range m p start sz" and sz: "0 < sz"
  obtains nx m' where "vme_next m p = Some nx" "enter_range V A sz p nx start (uadd start sz) m = Some m'"
    "entered A start sz m m'" "free_at m start sz"
proof -
  obtain xs ys where H: "hole m xs ys start sz" "p = hd_opt (rev xs)" by (rule free_range_hole [OF inv f sz])
  obtain m' where m': "enter_range V A sz (hd_opt (rev xs)) (hd_opt ys) start (start + sz) m = Some m'"
      "entered A start sz m m'"
    by (rule enter_range_ok [OF H(1) w])
  have "uadd start sz = start + sz" using hole_below_max [OF H(1)] by (intro uadd_eq) simp
  moreover have "free_at m start sz"
    using hole_free [OF H(1)] hole_below_max [OF H(1)] holeD(3) [OF H(1)] laid_out_le [OF holeD(6) [OF H(1)]]
    by (simp add: free_at_def)
  ultimately show thesis using that hole_next [OF H(1)] H(2) m' by simp
qed

lemma enter_anywhere_ok:
  assumes ok: "script_ok m ws" and sz: "0 < sz" "sz < ADDRS" and msk: "msk < ADDRS"
    and lim: "mask_limit (max_offset m) msk = Some l"
  shows "(\<exists>w. w \<in> set (m # ws) \<and> wait_for_space w \<and> enter_anywhere V A address sz msk ws m = Some (Asleep w)) \<or>
    (\<exists>w start m'. w \<in> set (m # ws) \<and> enter_anywhere V A address sz msk ws m = Some (Ended (KERN_SUCCESS, start, m')) \<and>
       entered A start sz w m' \<and> free_at w start sz \<and> and start msk = 0) \<or>
    (\<exists>w. w \<in> set (m # ws) \<and> enter_anywhere V A address sz msk ws m = Some (Ended (KERN_NO_SPACE, address, w)) \<and>
       keeps_map w w \<and> (and (uadd msk 1) msk = 0 \<and> m_list w \<noteq> [] \<longrightarrow> no_hole w (sz + msk)))"
proof (cases l)
  case None
  then have "enter_anywhere V A address sz msk ws m = Some (Ended (KERN_NO_SPACE, address, m))"
    using lim sz by (simp add: enter_anywhere_def vm_map_find_entry_anywhere_def)
  moreover have "\<not> and (uadd msk 1) msk = 0" using lim None mask_limit_low [of msk "max_offset m"] by auto
  moreover have "map_inv m" using ok by (simp add: script_ok_def user_map_def)
  ultimately show ?thesis using keeps_map_refl by (intro disjI2 exI [of _ m]) simp
next
  case (Some q)
  obtain mx low where q: "q = (mx, low)" by force
  note L = mask_limit_ok [OF lim [unfolded Some q] msk]
  obtain k where k: "k \<le> 64" "low = 2 ^ k - 1" using L(1) by blast
  have u: "user_map m" "list_all user_map ws" "list_all (\<lambda>w. max_offset w = max_offset m) ws"
    using ok by (auto simp: script_ok_def list_all_iff)
  have mx: "mx \<le> max_offset m" using L(2) u(1) by (auto simp: user_map_def)
  have f: "vm_map_find_entry_anywhere V sz msk False ws m = place_loop V sz mx (2 ^ k - 1) False ws m"
    using lim Some q k sz by (simp add: vm_map_find_entry_anywhere_def)
  from place_loop_ok [OF u sz k(1) mx, of V False]
  show ?thesis
  proof (elim disjE exE conjE)
    fix w assume "w \<in> set (m # ws)" "wait_for_space w" "place_loop V sz mx (2 ^ k - 1) False ws m = Some (Asleep w)"
    then show ?thesis using f by (intro disjI1 exI [of _ w]) (simp add: enter_anywhere_def)
  next
    fix w r assume w: "w \<in> set (m # ws)" and g: "place_good w sz mx k r" "r \<noteq> Wait_for_room"
      and r: "place_loop V sz mx (2 ^ k - 1) False ws m =
        Some (Ended (case r of Placed p start \<Rightarrow> Some (p, start) | _ \<Rightarrow> None, w))"
    have W: "map_inv w" "\<not> wiring_required w" "max_offset w = max_offset m"
      using ok w by (auto simp: script_ok_def user_map_def list_all_iff)
    show ?thesis
    proof (cases r)
      case (Placed p start)
      then have G: "free_range w p start sz" "start mod 2 ^ k = 0" "start + sz \<le> mx"
        using g by (simp_all add: place_good_def)
      obtain nx m' where m': "vme_next w p = Some nx" "enter_range V A sz p nx start (uadd start sz) w = Some m'"
          "entered A start sz w m'" "free_at w start sz"
        by (rule enter_placed_ok [OF W(1,2) G(1) sz(1)])
      have "enter_anywhere V A address sz msk ws m = Some (Ended (KERN_SUCCESS, start, m'))"
        using f r Placed m'(1,2) by (simp add: enter_anywhere_def)
      moreover have "and start msk = 0" using L(3) [of start] G(2,3) sz(1) unfolding k(2) and_low_mask by simp
      ultimately show ?thesis using w m'(3,4) by (intro disjI2 disjI1 exI [of _ w] exI [of _ start] exI [of _ m']) simp
    next
      case No_room
      then have "enter_anywhere V A address sz msk ws m = Some (Ended (KERN_NO_SPACE, address, w))"
        using f r by (simp add: enter_anywhere_def)
      moreover have "and (uadd msk 1) msk = 0 \<longrightarrow> mx = max_offset m \<and> msk = 2 ^ k - 1"
        using lim Some q k(2) mask_limit_low [of msk "max_offset m"] by auto
      ultimately show ?thesis
        using w g(1) No_room W keeps_map_refl [OF W(1)]
        by (intro disjI2 exI [of _ w]) (auto simp: place_good_def)
    qed (use g in simp)
  qed
qed

subsection \<open>Properties\<close>

text \<open>A map with two entries and holes after both.\<close>

definition example_map :: vm_map where
  "example_map =
     \<lparr>m_list = [0, 1],
      m_ent = (\<lambda>e. if e = 0 then (fresh_entry 4096 8192)\<lparr>gap_size := 8192\<rparr>
                   else (fresh_entry 16384 20480)\<lparr>gap_size := 140737488334848\<rparr>),
      m_fresh = 2,
      m_objects = (\<lambda>_. \<lparr>o_size = 0, o_ref_count = 1, o_copy = None, o_shadow = None, paging_in_progress = 0,
                       used_for_pageout = False, pager_created = False\<rparr>),
      gap_tree = [(8192, [0]), (140737488334848, [1])], min_offset = 4096, max_offset = 2 ^ 47, m_size = 8192,
      size_wired = 0, m_hint = Some 0, first_free = Some 0, wait_for_space = False, wiring_required = False,
      aslr_enabled = True, prefer_high_addr = False, aslr_entropy_bits = 8\<rparr>"

definition example_env :: vm_env where
  "example_env =
     \<lparr>ve_entropy = 12345, ve_collapse = (\<lambda>_ obs. obs), ve_pageable = (\<lambda>_ _ _ m. m),
      ve_pageable_scan = (\<lambda>_ _ m. Some m), ve_kernel_map = False, ve_kernel_pmap = False, ve_kernel_start = 0,
      ve_kernel_end = 0, ve_persistent = (\<lambda>_. False)\<rparr>"

definition example_args :: enter_args where
  "example_args = \<lparr>a_object = None, a_offset = 0, a_needs_copy = False, a_cur_protection = 3, a_max_protection = 7,
     a_inheritance = 1\<rparr>"

lemma indexed_pair: "0 < h a \<Longrightarrow> h a < h b \<Longrightarrow> indexed {a, b} [(h a, [a]), (h b, [b])] h"
  by (auto simp: indexed_def)

lemma example_map_ent:
  "m_list example_map = [0, 1]" "m_fresh example_map = 2" "min_offset example_map = 4096"
  "max_offset example_map = 140737488355328" "m_hint example_map = Some 0" "first_free example_map = Some 0"
  "m_size example_map = 8192" "gap_tree example_map = [(8192, [0]), (140737488334848, [1])]"
  "\<not> wait_for_space example_map" "\<not> wiring_required example_map" "\<not> prefer_high_addr example_map"
  "vme_start (m_ent example_map 0) = 4096" "vme_end (m_ent example_map 0) = 8192"
  "vme_start (m_ent example_map (Suc 0)) = 16384" "vme_end (m_ent example_map (Suc 0)) = 20480"
  "gap_size (m_ent example_map 0) = 8192" "gap_size (m_ent example_map (Suc 0)) = 140737488334848"
  by (simp_all add: example_map_def fresh_entry_def)

lemma example_map_inv: "map_inv example_map"
  using indexed_pair [of "gaps_of example_map" 0 1]
  by (simp add: map_inv_def map_core_def example_map_ent)





end
