(* ===== verification/Vm_Delete.thy ===== *)
theory Vm_Delete
  imports Vm_Enter
begin

text \<open>
  Removal of ranges from an address map.
\<close>

subsection \<open>Deleting an entry\<close>

text \<open>The two maps have the same entries in \<open>xs\<close>, up to the gaps.\<close>

definition same_entries :: "nat set \<Rightarrow> vm_map \<Rightarrow> vm_map \<Rightarrow> bool" where
  "same_entries S m m' \<longleftrightarrow> (\<forall>e. e \<in> S \<longrightarrow> (\<exists>g. m_ent m' e = (m_ent m e)\<lparr>gap_size := g\<rparr>))"

lemma same_entries_trans:
  assumes "same_entries S m m1" "same_entries T m1 m2" "T \<subseteq> S" shows "same_entries T m m2"
  unfolding same_entries_def
proof (intro allI impI)
  fix e assume e: "e \<in> T"
  obtain g where g: "m_ent m1 e = (m_ent m e)\<lparr>gap_size := g\<rparr>" using assms(1,3) e by (auto simp: same_entries_def)
  obtain h where h: "m_ent m2 e = (m_ent m1 e)\<lparr>gap_size := h\<rparr>" using assms(2) e by (auto simp: same_entries_def)
  show "\<exists>g. m_ent m2 e = (m_ent m e)\<lparr>gap_size := g\<rparr>" unfolding h g by (intro exI [of _ h]) simp
qed

lemma same_entries_refl: "same_entries S m m"
  unfolding same_entries_def
proof (intro allI impI)
  show "\<exists>g. m_ent m e = (m_ent m e)\<lparr>gap_size := g\<rparr>" for e by (intro exI [of _ "gap_size (m_ent m e)"]) simp
qed

text \<open>The state of a removal: the hints are before the range, and the map is otherwise as
  \<open>m\<close> but for the range.\<close>

definition trimmed :: "vm_map \<Rightarrow> vm_map \<Rightarrow> bool" where
  "trimmed m m' \<longleftrightarrow>
     map_inv m' \<and> same_frame m m' \<and> m_fresh m \<le> m_fresh m' \<and> m_hint m' = m_hint m \<and> first_free m' = first_free m \<and>
     (\<forall>e. e \<in> set (m_list m') \<longrightarrow> e \<in> set (m_list m) \<or> m_fresh m \<le> e)"

definition cleared :: "nat \<Rightarrow> nat \<Rightarrow> vm_map \<Rightarrow> vm_map \<Rightarrow> bool" where
  "cleared lo fin m m' \<longleftrightarrow> (\<forall>z. mapped m' z = (if lo \<le> z \<and> z < fin then None else mapped m z))"

lemma release_eq: "\<exists>obs. (if b then m else vm_object_deallocate p m) = m\<lparr>m_objects := obs\<rparr>"
proof (cases b)
  case True
  then show ?thesis by (intro exI [of _ "m_objects m"]) simp
next
  case False
  then show ?thesis using deallocate_eq [of p m] by auto
qed

lemma laid_out_lower: "laid_out ent lo hi ys \<Longrightarrow> lo' \<le> lo \<Longrightarrow> laid_out ent lo' hi ys"
  by (cases ys) auto

lemma laid_out_remove:
  assumes "laid_out ent lo hi (xs @ e # ys)" shows "laid_out ent lo hi (xs @ ys)"
proof -
  have a: "laid_out ent lo (last_end ent lo xs) xs" "last_end ent lo xs \<le> vme_end (ent e)" "laid_out ent (vme_end (ent e)) hi ys"
    using assms by (auto simp: laid_out_app)
  show ?thesis unfolding laid_out_app using a(1) laid_out_lower [OF a(3,2)] by blast
qed

lemma view_in_remove:
  assumes "laid_out ent lo hi (xs @ e # ys)"
  shows "view_in ent (xs @ ys) z = (if vme_start (ent e) \<le> z \<and> z < vme_end (ent e) then None else view_in ent (xs @ e # ys) z)"
proof -
  have "laid_out ent lo (last_end ent lo xs) xs" "last_end ent lo xs \<le> vme_start (ent e)" "laid_out ent (vme_end (ent e)) hi ys"
    using assms by (simp_all add: laid_out_app)
  then have "vme_start (ent e) \<le> z \<Longrightarrow> view_in ent xs z = None" "z < vme_end (ent e) \<Longrightarrow> view_in ent ys z = None"
    by (auto intro: view_in_range)
  then show ?thesis by (auto simp: view_in_app split: option.splits)
qed

lemma ptr_ok_app: "ptr_ok xs p \<Longrightarrow> ptr_ok (xs @ ys) p"
  by (cases p) auto

lemma entry_delete_ok:
  assumes inv: "map_inv m" and l: "m_list m = xs @ e # ys" and p: "projected_on (m_ent m e) = 0"
    and h: "ptr_ok xs (m_hint m)" "ptr_ok xs (first_free m)"
  obtains m' where "vm_map_entry_delete V e m = Some m'" "trimmed m m'" "m_list m' = xs @ ys"
    "same_entries (set xs \<union> set ys) m m'"
    "cleared (vme_start (m_ent m e)) (vme_end (m_ent m e)) m m'"
proof -
  let ?x = "m_ent m e"
  define x where "x = (if vme_object ?x \<noteq> None \<and> wired_count ?x \<noteq> 0 then ?x\<lparr>wired_count := 0\<rparr> else ?x)"
  define sw where "sw = (if vme_object ?x \<noteq> None \<and> wired_count ?x \<noteq> 0
    then usub (size_wired m) (usub (vme_end ?x) (vme_start ?x)) else size_wired m)"
  let ?m1 = "m\<lparr>m_ent := (m_ent m)(e := x), size_wired := sw\<rparr>"
  have x: "vme_start x = vme_start ?x" "vme_end x = vme_end ?x" "gap_size x = gap_size ?x" by (simp_all add: x_def)
  have m1: "(if vme_object ?x \<noteq> None then vm_map_entry_reset_wired e m else m) = ?m1"
    by (cases "wired_count ?x = 0") (auto simp: vm_map_entry_reset_wired_def upd_entry_def x_def sw_def Let_def)
  obtain obs where obs: "(if is_sub_map ?x then ?m1 else vm_object_deallocate (vme_object ?x) ?m1) = ?m1\<lparr>m_objects := obs\<rparr>"
    using release_eq by blast
  let ?m2 = "?m1\<lparr>m_objects := obs\<rparr>"
  have del: "vm_map_entry_delete V e m =
      (let m = (if vme_object ?x \<noteq> None then vm_map_entry_reset_wired e m else m) in
       vm_map_entry_unlink e (if is_sub_map ?x then m else vm_object_deallocate (vme_object ?x) m)) \<bind>
      (\<lambda>m'. Some (m'\<lparr>m_size := usub (m_size m') (usub (vme_end ?x) (vme_start ?x))\<rparr>))"
    using l p by (simp add: vm_map_entry_delete_def Let_def del: not_None_eq split del: if_split)
  note I = map_invD [OF inv]
  have d: "distinct (xs @ e # ys)" using I(1) l by simp
  have g: "gaps_of ?m2 = gaps_of m" by (rule ext) (simp add: x)
  have lo: "laid_out (m_ent m) (min_offset m) (max_offset m) (xs @ ys)"
    using laid_out_remove [of "m_ent m" _ _ xs e ys] I(2) l by simp
  obtain g h where gh: "vm_map_entry_unlink e ?m2 = Some (regap g h (?m2\<lparr>m_list := xs @ ys\<rparr>))"
    "indexed (set (xs @ ys)) g h" "gaps_right (m_ent ?m2) h (max_offset ?m2) (xs @ ys)"
  proof (rule entry_unlink_ok [of ?m2 xs e ys "min_offset m"])
    show "indexed (set (xs @ e # ys)) (gap_tree ?m2) (gaps_of ?m2)" unfolding g using I(6) l by simp
    show "gaps_inner (m_ent ?m2) (gaps_of ?m2) xs" "gaps_right (m_ent ?m2) (gaps_of ?m2) (max_offset ?m2) ys"
      unfolding g using I(7) l d gaps_right_inner by (auto simp: gaps_right_app)
  qed (use l d lo I(3) in auto)
  have E: "vme_start ?x < vme_end ?x" "vme_end ?x < ADDRS" using map_inv_ent [OF inv l] by auto
  have sz: "m_size m = total_size (m_ent m) (xs @ ys) + (vme_end ?x - vme_start ?x)" using I(8) l by simp
  have "m_size m < ADDRS" using total_size_bound [OF I(2)] I(3,8) by simp
  then have us: "usub (m_size m) (usub (vme_end ?x) (vme_start ?x)) = total_size (m_ent m) (xs @ ys)"
    using sz E by (simp add: usub_eq)
  let ?M = "?m2\<lparr>m_list := xs @ ys, m_size := total_size (m_ent m) (xs @ ys)\<rparr>"
  have "map_core ?M" using inv l d lo h by (auto simp: map_inv_def map_core_def ptr_ok_app)
  then have i: "map_inv (regap g h ?M)" using gh(2,3) by (simp add: map_inv_regap)
  show thesis
  proof (rule that [of "regap g h ?M"])
    show "vm_map_entry_delete V e m = Some (regap g h ?M)"
      using gh(1) us unfolding del m1 Let_def obs by simp
    show "trimmed m (regap g h ?M)" using i l by (auto simp: trimmed_def same_frame_def)
    show "same_entries (set xs \<union> set ys) m (regap g h ?M)" using d by (auto simp: same_entries_def)
    show "cleared (vme_start ?x) (vme_end ?x) m (regap g h ?M)"
      using view_in_remove [of "m_ent m" "min_offset m" "max_offset m" xs e ys] I(2) l d
      by (simp add: cleared_def mapped_def)
  qed simp
qed

subsection \<open>The loop\<close>

lemma trimmed_trans: "trimmed m m1 \<Longrightarrow> trimmed m1 m2 \<Longrightarrow> trimmed m m2"
  unfolding trimmed_def by (auto intro: same_frame_trans le_trans)

lemma trimmed_refl: "map_inv m \<Longrightarrow> trimmed m m"
  by (simp add: trimmed_def)

lemma same_entries_bounds: "same_entries S m m' \<Longrightarrow> set xs \<subseteq> S \<Longrightarrow> same_bounds (m_ent m) (m_ent m') xs"
  unfolding same_entries_def same_bounds_def by fastforce

definition quiet :: "nat \<Rightarrow> (nat \<Rightarrow> vm_map_entry) \<Rightarrow> nat list \<Rightarrow> bool" where
  "quiet fin ent ys \<longleftrightarrow> list_all (\<lambda>e. vme_start (ent e) < fin \<longrightarrow> \<not> in_transition (ent e) \<and> projected_on (ent e) = 0) ys"

lemma quiet_same: "same_entries S m m' \<Longrightarrow> set ys \<subseteq> S \<Longrightarrow> quiet fin (m_ent m) ys \<Longrightarrow> quiet fin (m_ent m') ys"
  unfolding same_entries_def quiet_def list_all_iff by fastforce

lemma between_free:
  assumes inv: "map_inv m" and l: "m_list m = xs @ ys"
    and z: "last_end (m_ent m) (min_offset m) xs \<le> z" "ys \<noteq> [] \<longrightarrow> z < limit (m_ent m) (max_offset m) ys"
  shows "mapped m z = None"
proof -
  have a: "laid_out (m_ent m) (min_offset m) (last_end (m_ent m) (min_offset m) xs) xs"
      "laid_out (m_ent m) (last_end (m_ent m) (min_offset m) xs) (max_offset m) ys"
    using map_invD(2) [OF inv] l by (simp_all add: laid_out_app)
  have "view_in (m_ent m) xs z = None" using view_in_range [OF a(1)] z(1) by blast
  moreover have "view_in (m_ent m) ys z = None"
    using view_in_range [OF laid_out_from_limit [OF a(2)], of z] z(2) by (cases ys) auto
  ultimately show ?thesis using l by (simp add: mapped_def view_in_app)
qed

text \<open>One entry of the range: clipped at the end of the range and deleted.\<close>

lemma delete_one:
  assumes inv: "map_inv m" and l: "m_list m = xs @ e # zs" and h: "ptr_ok xs (m_hint m)" "ptr_ok xs (first_free m)"
    and q: "quiet fin (m_ent m) (e # zs)" and s: "vme_start (m_ent m e) < fin"
  obtains m1 nx m2 ys where "vm_map_clip_end e fin m = Some m1" "\<not> in_transition (m_ent m1 e)"
    "vme_next m1 (Some e) = Some nx" "vm_map_entry_delete V e m1 = Some m2" "nx = hd_opt ys" "trimmed m m2" "m_list m2 = xs @ ys"
    "cleared (vme_start (m_ent m e)) (min fin (vme_end (m_ent m e))) m m2" "same_bounds (m_ent m) (m_ent m2) xs"
    "if vme_end (m_ent m e) \<le> fin then ys = zs \<and> quiet fin (m_ent m2) ys
     else limit (m_ent m2) (max_offset m2) ys = fin \<and> ys \<noteq> []" "e \<notin> set (m_list m2)"
proof (cases "vme_end (m_ent m e) \<le> fin")
  case True
  have p: "projected_on (m_ent m e) = 0" "\<not> in_transition (m_ent m e)" using q s by (simp_all add: quiet_def)
  have d: "distinct (m_list m)" by (rule map_invD(1) [OF inv])
  obtain m2 where m2: "vm_map_entry_delete V e m = Some m2" "trimmed m m2" "m_list m2 = xs @ zs"
    "same_entries (set xs \<union> set zs) m m2"
    "cleared (vme_start (m_ent m e)) (vme_end (m_ent m e)) m m2"
    by (rule entry_delete_ok [OF inv l p(1) h])
  show thesis
  proof (rule that [of m "hd_opt zs" m2 zs])
    show "vm_map_clip_end e fin m = Some m" using True l by (simp add: vm_map_clip_end_def)
    show "vme_next m (Some e) = Some (hd_opt zs)" by (rule vme_next_split [OF l d])
    show "same_bounds (m_ent m) (m_ent m2) xs" by (rule same_entries_bounds [OF m2(4)]) simp
    show "if vme_end (m_ent m e) \<le> fin then zs = zs \<and> quiet fin (m_ent m2) zs
        else limit (m_ent m2) (max_offset m2) zs = fin \<and> zs \<noteq> []"
      using True quiet_same [OF m2(4), of zs fin] q by (simp add: quiet_def)
    show "cleared (vme_start (m_ent m e)) (min fin (vme_end (m_ent m e))) m m2"
      using m2(5) True by (simp add: cleared_def min_def)
    show "e \<notin> set (m_list m2)" using d l m2(3) by auto
  qed (use p m2 in simp_all)
next
  case False
  then have f: "fin < vme_end (m_ent m e)" by simp
  let ?n = "m_fresh m"
  obtain g k obs where m1: "split_end e fin m = Some ((regap g k (split_map e ?n e fin xs zs m))\<lparr>m_objects := obs\<rparr>)"
    "map_inv (regap g k (split_map e ?n e fin xs zs m))"
    by (rule split_end_ok [OF inv l s f])
  let ?m = "(regap g k (split_map e ?n e fin xs zs m))\<lparr>m_objects := obs\<rparr>"
  have n: "?n \<notin> set (xs @ e # zs)" using fresh_not_in [OF inv] l by simp
  have i: "map_inv ?m" using m1(2) by simp
  have lm: "m_list ?m = xs @ e # ?n # zs" by (simp add: split_map_def)
  have d: "distinct (m_list m)" by (rule map_invD(1) [OF inv])
  have e: "projected_on (m_ent ?m e) = 0" "\<not> in_transition (m_ent ?m e)" "vme_start (m_ent ?m e) = vme_start (m_ent m e)"
      "vme_end (m_ent ?m e) = fin" "vme_start (m_ent ?m ?n) = fin"
    using q s n by (auto simp: quiet_def split_map_def front_def rear_def)
  have hp: "ptr_ok xs (m_hint ?m)" "ptr_ok xs (first_free ?m)" using h by (simp_all add: split_map_def)
  have mp: "mapped ?m = mapped m" using split_map_ok(2) [OF inv l s f, of e ?n] by (simp add: insert_commute)
  obtain m2 where m2: "vm_map_entry_delete V e ?m = Some m2" "trimmed ?m m2" "m_list m2 = xs @ ?n # zs"
    "same_entries (set xs \<union> set (?n # zs)) ?m m2"
    "cleared (vme_start (m_ent ?m e)) (vme_end (m_ent ?m e)) ?m m2"
    by (rule entry_delete_ok [OF i lm e(1) hp])
  have b: "same_bounds (m_ent ?m) (m_ent m2) (xs @ [?n])" by (rule same_entries_bounds [OF m2(4)]) auto
  have c: "trimmed m ?m" using i l by (auto simp: trimmed_def same_frame_def split_map_def)
  show thesis
  proof (rule that [of ?m "Some ?n" m2 "?n # zs"])
    show "vm_map_clip_end e fin m = Some ?m" using f l m1(1) by (simp add: vm_map_clip_end_def)
    show "vme_next ?m (Some e) = Some (Some ?n)" using vme_next_split [OF lm map_invD(1) [OF i]] by simp
    show "trimmed m m2" by (rule trimmed_trans [OF c m2(2)])
    have "same_bounds (m_ent m) (m_ent ?m) xs" using n d l by (auto simp: same_bounds_def split_map_def)
    then show "same_bounds (m_ent m) (m_ent m2) xs" using b by (auto simp: same_bounds_def)
    show "if vme_end (m_ent m e) \<le> fin then ?n # zs = zs \<and> quiet fin (m_ent m2) (?n # zs)
        else limit (m_ent m2) (max_offset m2) (?n # zs) = fin \<and> ?n # zs \<noteq> []"
      using b e(5) False by simp
    show "cleared (vme_start (m_ent m e)) (min fin (vme_end (m_ent m e))) m m2"
      using m2(5) f unfolding cleared_def mp e by (simp add: min_def)
    show "e \<notin> set (m_list m2)" using d l m2(3) n by auto
  qed (use e m2 in simp_all)
qed

lemma delete_loop_ok:
  assumes "map_inv m" "m_list m = xs @ ys" "ptr_ok xs (m_hint m)" "ptr_ok xs (first_free m)"
    and "quiet fin (m_ent m) ys" "length ys < n"
  shows "\<exists>ys' m'. delete_loop n V start fin ws (hd_opt ys) m = Some (Ended (hd_opt ys', m')) \<and> trimmed m m' \<and>
    m_list m' = xs @ ys' \<and> cleared (last_end (m_ent m) (min_offset m) xs) fin m m' \<and>
    (\<forall>e zs. ys = e # zs \<longrightarrow> vme_start (m_ent m e) < fin \<longrightarrow> e \<notin> set (m_list m'))"
  using assms
proof (induction ys arbitrary: m n)
  case Nil
  then obtain k where n: "n = Suc k" by (cases n) auto
  have "cleared (last_end (m_ent m) (min_offset m) xs) fin m m"
    using between_free [OF Nil(1,2)] by (auto simp: cleared_def)
  then show ?case using Nil trimmed_refl by (intro exI [of _ "[]"] exI [of _ m]) (simp add: n)
next
  case (Cons e zs)
  then obtain k where n: "n = Suc k" "length zs < k" by (cases n) auto
  let ?L = "last_end (m_ent m) (min_offset m) xs"
  have e: "e \<in> set (m_list m)" "e < m_fresh m" using Cons(3) map_inv_fresh [OF Cons(2)] by auto
  have L: "?L \<le> vme_start (m_ent m e)" using map_invD(2) [OF Cons(2)] Cons(3) by (simp add: laid_out_app)
  have hole: "?L \<le> z \<Longrightarrow> z < vme_start (m_ent m e) \<Longrightarrow> mapped m z = None" for z
    using between_free [OF Cons(2,3)] by simp
  show ?case
  proof (cases "vme_start (m_ent m e) < fin")
    case False
    then have "cleared ?L fin m m" using hole by (auto simp: cleared_def)
    then show ?thesis
      using False e Cons(3) trimmed_refl [OF Cons(2)] by (intro exI [of _ "e # zs"] exI [of _ m]) (simp add: n)
  next
    case True
    obtain m1 nx m2 ys where D: "vm_map_clip_end e fin m = Some m1" "\<not> in_transition (m_ent m1 e)"
      "vme_next m1 (Some e) = Some nx" "vm_map_entry_delete V e m1 = Some m2" "nx = hd_opt ys" "trimmed m m2"
      "m_list m2 = xs @ ys" "cleared (vme_start (m_ent m e)) (min fin (vme_end (m_ent m e))) m m2"
      "same_bounds (m_ent m) (m_ent m2) xs"
      "if vme_end (m_ent m e) \<le> fin then ys = zs \<and> quiet fin (m_ent m2) ys
       else limit (m_ent m2) (max_offset m2) ys = fin \<and> ys \<noteq> []" "e \<notin> set (m_list m2)"
      by (rule delete_one [OF Cons(2-6) True])
    have step: "delete_loop n V start fin ws (Some e) m = delete_loop k V start fin ws (hd_opt ys) m2"
      using D(1-5) True e by (simp add: n)
    have i2: "map_inv m2" and h2: "ptr_ok xs (m_hint m2)" "ptr_ok xs (first_free m2)"
        and L2: "last_end (m_ent m2) (min_offset m2) xs = ?L"
      using D(6,9) Cons(4,5) last_end_same by (auto simp: trimmed_def same_frame_def)
    show ?thesis
    proof (cases "vme_end (m_ent m e) \<le> fin")
      case end_le: True
      have "ys = zs" "quiet fin (m_ent m2) zs" using D(10) end_le by auto
      then obtain ys' m' where R: "delete_loop k V start fin ws (hd_opt zs) m2 = Some (Ended (hd_opt ys', m'))"
          "trimmed m2 m'" "m_list m' = xs @ ys'" "cleared ?L fin m2 m'"
        using Cons.IH [OF i2 _ h2 _ n(2)] D(7) L2 by auto
      have "trimmed m m'" by (rule trimmed_trans [OF D(6) R(2)])
      moreover have "cleared ?L fin m m'" using R(4) D(8) end_le L by (auto simp: cleared_def)
      moreover have "e \<notin> set (m_list m')" using R(2) D(6,11) e(2) by (auto simp: trimmed_def)
      ultimately show ?thesis using step R(1,3) \<open>ys = zs\<close> by (intro exI [of _ ys'] exI [of _ m']) simp
    next
      case end_gt: False
      then obtain a bs where ys: "ys = a # bs" "vme_start (m_ent m2 a) = fin" using D(10) by (cases ys) auto
      have "a \<in> set (m_list m2)" using D(7) ys by simp
      then have "delete_loop k V start fin ws (hd_opt ys) m2 = Some (Ended (hd_opt ys, m2))"
        using ys n(2) by (cases k) simp_all
      moreover have "cleared ?L fin m m2" using D(8) hole L end_gt by (auto simp: cleared_def)
      ultimately show ?thesis using step D(6,7,11) by (intro exI [of _ ys] exI [of _ m2]) simp
    qed
  qed
qed

subsection \<open>Before the loop\<close>

definition idle_range :: "nat \<Rightarrow> nat \<Rightarrow> vm_map \<Rightarrow> bool" where
  "idle_range start fin m \<longleftrightarrow>
     list_all (\<lambda>e. vme_start (m_ent m e) < fin \<and> start < vme_end (m_ent m e) \<longrightarrow>
       \<not> in_transition (m_ent m e) \<and> projected_on (m_ent m e) = 0) (m_list m)"

lemma idle_quiet:
  assumes "idle_range start fin m" "set ys \<subseteq> set (m_list m)" "\<forall>e. e \<in> set ys \<longrightarrow> start < vme_end (m_ent m e)"
  shows "quiet fin (m_ent m) ys"
  using assms unfolding idle_range_def quiet_def list_all_iff by blast

lemma prev_before:
  assumes "m_list m = xs @ ys" "distinct (m_list m)"
  shows "vme_prev m (hd_opt ys) = Some (hd_opt (rev xs))"
  using assms vme_prev_split [of m xs] by (cases ys) (auto simp: vme_header)

lemma ptr_ok_last: "ptr_ok xs (hd_opt (rev xs))"
  by (cases xs rule: rev_cases) auto

lemma move_free_ok:
  assumes inv: "map_inv m" and l: "m_list m = xs @ ys" and y: "\<forall>e. e \<in> set ys \<longrightarrow> start \<le> vme_start (m_ent m e)"
  obtains ff where "move_free start (hd_opt ys) m = Some (m\<lparr>first_free := ff\<rparr>)" "ptr_ok xs ff"
proof -
  note pv = prev_before [OF l map_invD(1) [OF inv]]
  have moved: "ptr_ok xs (hd_opt (rev xs))" by (rule ptr_ok_last)
  show thesis
  proof (cases "first_free m")
    case None
    show thesis
    proof (cases "start \<le> min_offset m")
      case True
      then show thesis using None pv by (intro that [OF _ moved]) (simp add: move_free_def)
    next
      case False
      then show thesis using None by (intro that [of None]) (simp_all add: move_free_def)
    qed
  next
    case (Some e)
    then have e: "e \<in> set (m_list m)" using map_invD(5) [OF inv] by simp
    show thesis
    proof (cases "start \<le> vme_start (m_ent m e)")
      case True
      then show thesis using Some e pv by (intro that [OF _ moved]) (simp add: move_free_def)
    next
      case False
      then have "ptr_ok xs (Some e)" using e l y by auto
      then show thesis using False Some e by (intro that [of "Some e"]) (simp_all add: move_free_def)
    qed
  qed
qed

subsection \<open>A range that begins in a hole\<close>

lemma map_inv_free [simp]: "map_inv m \<Longrightarrow> ptr_ok (m_list m) p \<Longrightarrow> map_inv (m\<lparr>first_free := p\<rparr>)"
  by (simp add: map_inv_def map_core_def)

lemma mapped_first_free [simp]: "mapped (m\<lparr>first_free := p\<rparr>) = mapped m"
  by (simp add: mapped_def fun_eq_iff)

lemma delete_prepare_free:
  assumes inv: "map_inv m" and n: "mapped m start = None"
  obtains xs ys hint free where
    "delete_prepare start m = Some (hd_opt (rev xs), hd_opt ys, m\<lparr>m_hint := hint, first_free := free\<rparr>)"
    "m_list m = xs @ ys" "map_inv (m\<lparr>m_hint := hint, first_free := free\<rparr>)" "ptr_ok xs hint" "ptr_ok xs free"
    "last_end (m_ent m) (min_offset m) xs \<le> start \<or> xs = []" "\<forall>e. e \<in> set ys \<longrightarrow> start < vme_start (m_ent m e)"
proof -
  obtain xs ys where X: "m_list m = xs @ ys" "tree_nearest m start = hd_opt (rev xs)"
    "\<forall>zs e. xs = zs @ [e] \<longrightarrow> vme_start (m_ent m e) \<le> start" "\<forall>n zs. ys = n # zs \<longrightarrow> start < vme_start (m_ent m n)"
    by (rule nearest_exists [OF inv, of start])
  let ?m = "m\<lparr>m_hint := hd_opt (rev xs)\<rparr>"
  have lo: "laid_out (m_ent m) (last_end (m_ent m) (min_offset m) xs) (max_offset m) ys"
    using map_invD(2) [OF inv] X(1) by (simp add: laid_out_app)
  have y: "\<forall>e. e \<in> set ys \<longrightarrow> start < vme_start (m_ent m e)"
  proof (intro allI impI)
    show "start < vme_start (m_ent m e)" if "e \<in> set ys" for e
      using laid_out_starts [OF lo that] X(4) that by (cases ys) auto
  qed
  have x: "last_end (m_ent m) (min_offset m) xs \<le> start \<or> xs = []"
    using nearest_split(2) [OF inv X(1,3,4)] n by (cases xs rule: rev_cases) auto
  have h: "ptr_ok (xs @ ys) (hd_opt (rev xs))" by (rule ptr_ok_app [OF ptr_ok_last])
  have i: "map_inv ?m" using inv h X(1) by simp
  obtain ff where ff: "move_free start (hd_opt ys) ?m = Some (?m\<lparr>first_free := ff\<rparr>)" "ptr_ok xs ff"
    by (rule move_free_ok [OF i, of xs ys start]) (use X(1) y in \<open>auto simp: less_imp_le\<close>)
  have nx: "vme_next ?m (hd_opt (rev xs)) = Some (hd_opt ys)"
    by (rule next_after) (use X(1) map_invD(1) [OF inv] in simp_all)
  have "delete_prepare start m = Some (hd_opt (rev xs), hd_opt ys, ?m\<lparr>first_free := ff\<rparr>)"
    using lookup_entry_eq [OF inv, of start] n X(2) nx ff(1) by (simp add: delete_prepare_def)
  moreover have "map_inv (?m\<lparr>first_free := ff\<rparr>)" using i ptr_ok_app [OF ff(2)] X(1) by simp
  ultimately show thesis by (rule that [OF _ X(1) _ ptr_ok_last ff(2) x y])
qed

definition removed :: "nat \<Rightarrow> nat \<Rightarrow> vm_map \<Rightarrow> vm_map \<Rightarrow> bool" where
  "removed start fin m m' \<longleftrightarrow>
     map_inv m' \<and> same_frame m m' \<and>
     (\<forall>z. if start \<le> z \<and> z < fin then mapped m' z = None else keeps (mapped m z) (mapped m' z))"

lemma removed_keeps:
  assumes r: "removed start fin m m1" and k: "keeps_map m1 m2"
  shows "removed start fin m m2"
  unfolding removed_def
proof (intro conjI allI)
  show "map_inv m2" using k by (simp add: keeps_map_def)
  show "same_frame m m2" using r k same_frame_trans [of m m1 m2] by (simp add: removed_def keeps_map_def)
  fix z
  have "keeps (mapped m1 z) (mapped m2 z)" using k by (simp add: keeps_map_def)
  moreover have "if start \<le> z \<and> z < fin then mapped m1 z = None else keeps (mapped m z) (mapped m1 z)"
    using r by (simp add: removed_def)
  ultimately show "if start \<le> z \<and> z < fin then mapped m2 z = None else keeps (mapped m z) (mapped m2 z)"
    by (cases "start \<le> z \<and> z < fin") (auto intro: keeps_trans)
qed

lemma coalesce_alone:
  assumes "m_list m = [e]" shows "vm_map_coalesce_entries V (Some e) m = Some (False, m)"
  using assms by (simp add: vm_map_coalesce_entries_def vm_map_coalesce_entry_forward_def vm_map_coalesce_entry_def
    vme_next_def vme_prev_def)

text \<open>The first coalescing after the loop leaves the entry after the range in place.\<close>

lemma coalesce_around:
  assumes inv: "map_inv m" and l: "m_list m = us @ a # vs" and y: "ptr_ok (m_list m) q" "q \<noteq> Some a" "q = None \<or> q \<noteq> hd_opt vs"
  obtains c m' where "vm_map_coalesce_entries V (Some a) m = Some (c, m')" "keeps_map m m'" "ptr_ok (m_list m') q"
proof -
  have "ptr_ok (m_list m) (Some a)" using l by simp
  then obtain c m' where c: "vm_map_coalesce_entries V (Some a) m = Some (c, m')" "keeps_map m m'"
      "set (m_list m) - {u. vme_next m (Some a) = Some (Some u)} - {u. Some a = Some u} \<subseteq> set (m_list m')"
    by (rule coalesce_entries_ok [OF inv])
  have "vme_next m (Some a) = Some (hd_opt vs)" by (rule vme_next_split [OF l map_invD(1) [OF inv]])
  then have "ptr_ok (m_list m') q" using c(3) y by (cases q) auto
  then show thesis by (rule that [OF c(1,2)])
qed

lemma coalesce_before_ok:
  assumes inv: "map_inv m" and l: "m_list m = xs @ ys"
  obtains m' where "coalesce_before V (hd_opt (rev xs)) m = Some m'" "keeps_map m m'" "ptr_ok (m_list m') (hd_opt ys)"
proof -
  have d: "distinct (xs @ ys)" using map_invD(1) [OF inv] l by simp
  have q: "ptr_ok (m_list m) (hd_opt ys)" using l by (cases ys) auto
  note refl = that [OF _ keeps_map_refl [OF inv] q]
  show thesis
  proof (cases xs rule: rev_cases)
    case Nil
    show thesis
    proof (cases ys rule: rev_cases)
      case Nil
      then show thesis using refl l \<open>xs = []\<close> by (simp add: coalesce_before_def vme_header)
    next
      case (snoc vs a)
      have pv: "vme_prev m None = Some (Some a)" using l Nil snoc by (simp add: vme_header)
      show thesis
      proof (cases vs)
        case Nil
        then show thesis using refl pv coalesce_alone [of m a V] l snoc \<open>xs = []\<close> by (simp add: coalesce_before_def)
      next
        case (Cons y ws)
        obtain c m' where "vm_map_coalesce_entries V (Some a) m = Some (c, m')" "keeps_map m m'" "ptr_ok (m_list m') (hd_opt ys)"
          by (rule coalesce_around [OF inv _ q, of vs a "[]"]) (use l Nil snoc Cons d in auto)
        then show thesis using that pv Nil by (simp add: coalesce_before_def)
      qed
    qed
  next
    case (snoc ws f)
    have pv: "vme_prev m (Some f) = Some (hd_opt (rev ws))"
      using vme_prev_split [of m ws f ys] l snoc map_invD(1) [OF inv] by simp
    show thesis
    proof (cases ws rule: rev_cases)
      case Nil
      then show thesis using refl pv snoc by (simp add: coalesce_before_def)
    next
      case (snoc us a)
      obtain c m' where "vm_map_coalesce_entries V (Some a) m = Some (c, m')" "keeps_map m m'" "ptr_ok (m_list m') (hd_opt ys)"
        by (rule coalesce_around [OF inv _ q, of us a "f # ys"])
          (use l snoc \<open>xs = ws @ [f]\<close> d in \<open>auto simp: hd_opt_iff\<close>)
      then show thesis using that pv snoc \<open>xs = ws @ [f]\<close> by (simp add: coalesce_before_def)
    qed
  qed
qed

lemma delete_free_ok:
  assumes inv: "map_inv m" and n: "mapped m start = None" and idle: "idle_range start fin m" and k: "length (m_list m) < k"
    and kern: "\<not> ve_kernel_pmap V"
  obtains m' where "vm_map_delete k V start fin ws m = Some (Ended (KERN_SUCCESS, m'))" "removed start fin m m'"
proof -
  obtain xs ys hint free where P:
    "delete_prepare start m = Some (hd_opt (rev xs), hd_opt ys, m\<lparr>m_hint := hint, first_free := free\<rparr>)"
    "m_list m = xs @ ys" "map_inv (m\<lparr>m_hint := hint, first_free := free\<rparr>)" "ptr_ok xs hint" "ptr_ok xs free"
    "last_end (m_ent m) (min_offset m) xs \<le> start \<or> xs = []" "\<forall>e. e \<in> set ys \<longrightarrow> start < vme_start (m_ent m e)"
    by (rule delete_prepare_free [OF inv n])
  let ?m = "m\<lparr>m_hint := hint, first_free := free\<rparr>" and ?L = "last_end (m_ent m) (min_offset m) xs"
  have "\<forall>e. e \<in> set ys \<longrightarrow> start < vme_end (m_ent m e)"
    using P(2,7) laid_out_ent [OF map_invD(2) [OF inv]] by fastforce
  then have q: "quiet fin (m_ent ?m) ys" using idle_quiet [OF idle, of ys] P(2) by simp
  obtain ys' m1 where R: "delete_loop k V start fin ws (hd_opt ys) ?m = Some (Ended (hd_opt ys', m1))" "trimmed ?m m1"
      "m_list m1 = xs @ ys'" "cleared ?L fin ?m m1"
    using delete_loop_ok [OF P(3), of xs ys fin k V start ws] P(2,4,5) q k by auto
  have i1: "map_inv m1" and f1: "same_frame m m1" using R(2) by (simp_all add: trimmed_def same_frame_def)
  have "mapped m z = None" if "?L \<le> z" "z < start" for z
    using between_free [OF inv P(2) that(1)] P(7) that(2) by (cases ys) fastforce+
  moreover have "mapped m z = None" if "start \<le> z" "z < ?L" for z
    using P(6) that view_in_range [OF map_invD(2) [OF inv], of z] by (auto simp: mapped_def)
  ultimately have "removed start fin m m1"
    using R(4) i1 f1 by (auto simp: removed_def cleared_def)
  obtain m2 where m2: "coalesce_before V (hd_opt (rev xs)) m1 = Some m2" "keeps_map m1 m2" "ptr_ok (m_list m2) (hd_opt ys')"
    by (rule coalesce_before_ok [OF i1 R(3)])
  have "map_inv m2" using m2(2) by (simp add: keeps_map_def)
  then obtain c m3 where m3: "vm_map_coalesce_entries V (hd_opt ys') m2 = Some (c, m3)" "keeps_map m2 m3"
    by (rule coalesce_entries_ok [OF _ m2(3)])
  have "vm_map_delete k V start fin ws m = Some (Ended (KERN_SUCCESS, m3))"
    using P(1) R(1) m2(1) m3(1) kern by (simp add: vm_map_delete_def)
  moreover have "removed start fin m m3"
    by (rule removed_keeps [OF \<open>removed start fin m m1\<close> keeps_map_trans [OF m2(2) m3(2)]])
  ultimately show thesis by (rule that)
qed

subsection \<open>A range that begins in an entry\<close>

lemma find_entry_of:
  assumes inv: "map_inv m" and n: "mapped m start \<noteq> None"
  obtains zs e ys where "m_list m = zs @ e # ys" "tree_nearest m start = Some e" "vme_start (m_ent m e) \<le> start"
    "start < vme_end (m_ent m e)"
proof -
  obtain xs ys where X: "m_list m = xs @ ys" "tree_nearest m start = hd_opt (rev xs)"
    "\<forall>zs e. xs = zs @ [e] \<longrightarrow> vme_start (m_ent m e) \<le> start" "\<forall>n zs. ys = n # zs \<longrightarrow> start < vme_start (m_ent m n)"
    by (rule nearest_exists [OF inv, of start])
  obtain zs e where "xs = zs @ [e]" "start < vme_end (m_ent m e)" using n nearest_split(2) [OF inv X(1,3,4)] by blast
  then show thesis using that [of zs e ys] X by simp
qed

lemma clip_start_ok:
  assumes inv: "map_inv m" and l: "m_list m = zs @ e # ys" and s: "vme_start (m_ent m e) \<le> a" "a < vme_end (m_ent m e)"
    and q: "quiet fin (m_ent m) (e # ys)" and a: "a < fin"
  obtains m1 ws where "vm_map_clip_start e a m = Some m1" "map_inv m1" "m_list m1 = ws @ e # ys"
    "vme_start (m_ent m1 e) = a" "quiet fin (m_ent m1) (e # ys)"
proof (cases "vme_start (m_ent m e) = a")
  case True
  then show thesis using that [of m zs] inv l q by (simp add: vm_map_clip_start_def)
next
  case False
  then have lt: "vme_start (m_ent m e) < a" using s by simp
  let ?n = "m_fresh m"
  obtain g h obs where S: "split_start e a m = Some ((regap g h (split_map ?n e e a zs ys m))\<lparr>m_objects := obs\<rparr>)"
    "map_inv (regap g h (split_map ?n e e a zs ys m))"
    by (rule split_start_ok [OF inv l lt s(2)])
  have n: "?n \<notin> set (zs @ e # ys)" using fresh_not_in [OF inv] l by simp
  have d: "distinct (zs @ e # ys)" using map_invD(1) [OF inv] l by simp
  have "quiet fin (\<lambda>x. (m_ent (split_map ?n e e a zs ys m) x)\<lparr>gap_size := h x\<rparr>) (e # ys)"
    using q n d a lt by (auto simp: quiet_def list_all_iff split_map_def rear_def)
  then show thesis
    using that [of "(regap g h (split_map ?n e e a zs ys m))\<lparr>m_objects := obs\<rparr>" "zs @ [?n]"] S lt l
    by (simp add: vm_map_clip_start_def split_map_def m_ent_regap)
qed

lemma delete_prepare_found:
  assumes inv: "map_inv m" and n: "mapped m start \<noteq> None" and f: "start < fin" and idle: "idle_range start fin m"
  obtains e ws ys m' where "delete_prepare start m = Some (Some e, Some e, m')" "map_inv m'" "m_list m' = ws @ e # ys"
    "ptr_ok ws (m_hint m')" "ptr_ok ws (first_free m')" "vme_start (m_ent m' e) = start" "quiet fin (m_ent m') (e # ys)"
    "length (e # ys) \<le> length (m_list m)"
proof -
  obtain zs e ys where E: "m_list m = zs @ e # ys" "tree_nearest m start = Some e" "vme_start (m_ent m e) \<le> start"
    "start < vme_end (m_ent m e)"
    by (rule find_entry_of [OF inv n])
  let ?m = "m\<lparr>m_hint := Some e\<rparr>"
  have i: "map_inv ?m" using inv E(1) by simp
  have lo: "laid_out (m_ent m) (vme_end (m_ent m e)) (max_offset m) ys" using map_invD(2) [OF inv] E(1) by (simp add: laid_out_app)
  have "\<forall>x. x \<in> set (e # ys) \<longrightarrow> start < vme_end (m_ent m x)" using E(4) laid_out_ent [OF lo] by fastforce
  then have q: "quiet fin (m_ent ?m) (e # ys)" using idle_quiet [OF idle, of "e # ys"] E(1) by auto
  obtain m1 ws where C: "vm_map_clip_start e start ?m = Some m1" "map_inv m1" "m_list m1 = ws @ e # ys"
    "vme_start (m_ent m1 e) = start" "quiet fin (m_ent m1) (e # ys)"
    by (rule clip_start_ok [OF i _ _ _ q f, where zs = zs]) (use E in simp_all)
  let ?m2 = "m1\<lparr>m_hint := hd_opt (rev ws)\<rparr>"
  have pv: "vme_prev m1 (Some e) = Some (hd_opt (rev ws))" by (rule vme_prev_split [OF C(3) map_invD(1) [OF C(2)]])
  have i2: "map_inv ?m2" using C(2,3) ptr_ok_app [OF ptr_ok_last, of ws "e # ys"] by simp
  have "laid_out (m_ent m1) (last_end (m_ent m1) (min_offset m1) ws) (max_offset m1) (e # ys)"
    using map_invD(2) [OF C(2)] C(3) by (simp add: laid_out_app)
  from laid_out_starts [OF this] have y: "\<forall>x. x \<in> set (e # ys) \<longrightarrow> start \<le> vme_start (m_ent ?m2 x)" using C(4) by simp
  obtain ff where ff: "move_free start (hd_opt (e # ys)) ?m2 = Some (?m2\<lparr>first_free := ff\<rparr>)" "ptr_ok ws ff"
    by (rule move_free_ok [OF i2 _ y, of ws]) (use C(3) in simp)
  have "delete_prepare start m = Some (Some e, Some e, ?m2\<lparr>first_free := ff\<rparr>)"
    using lookup_entry_eq [OF inv, of start] n E(2) C(1) pv ff(1)
    by (simp add: delete_prepare_def SAVE_HINT_def del: not_None_eq)
  moreover have "map_inv (?m2\<lparr>first_free := ff\<rparr>)" using i2 C(3) ptr_ok_app [OF ff(2), of "e # ys"] by simp
  ultimately show thesis
    by (rule that [of e _ ws ys]) (use C ff(2) ptr_ok_last E(1) in simp_all)
qed

lemma delete_found_fault:
  assumes inv: "map_inv m" and n: "mapped m start \<noteq> None" and f: "start < fin" and idle: "idle_range start fin m"
    and k: "length (m_list m) < k"
  shows "vm_map_delete k V start fin ws m = None"
proof -
  obtain e vs ys m1 where P: "delete_prepare start m = Some (Some e, Some e, m1)" "map_inv m1" "m_list m1 = vs @ e # ys"
    "ptr_ok vs (m_hint m1)" "ptr_ok vs (first_free m1)" "vme_start (m_ent m1 e) = start" "quiet fin (m_ent m1) (e # ys)"
    "length (e # ys) \<le> length (m_list m)"
    by (rule delete_prepare_found [OF inv n f idle])
  have lt: "length (e # ys) < k" using P(8) k by linarith
  obtain ys' m2 where "delete_loop k V start fin ws (Some e) m1 = Some (Ended (hd_opt ys', m2))" "e \<notin> set (m_list m2)"
    using delete_loop_ok [OF P(2,3,4,5,7) lt, of V start ws] P(6) f by auto
  moreover have "coalesce_before V (Some e) m2 = None" if "e \<notin> set (m_list m2)"
    using that by (simp add: coalesce_before_def vme_prev_def next_in_None [THEN iffD2])
  ultimately show ?thesis using P(1) by (simp add: vm_map_delete_def kassert_def)
qed

subsection \<open>Changing a range that merges with its neighbour\<close>

text \<open>\<^verbatim>\<open>vm_map_inherit\<close> and \<^verbatim>\<open>vm_map_protect\<close> take the next entry before they coalesce the current one,
  forward first.  When the two become one, the loop goes on with an entry that is freed.\<close>

lemma coalesce_pair_anonymous:
  assumes inv: "map_inv m" and l: "m_list m = xs @ e # b # ys"
    and c: "coalescable (m_ent m e) (m_ent m b)" "vme_object (m_ent m e) = None" "vme_object (m_ent m b) = None"
  obtains m' where "coalesce_pair V e b m = Some (True, m')" "map_inv m'" "m_list m' = xs @ e # ys"
proof -
  obtain k m' where k: "coalesce_pair V e b m = Some (k, m')" "keeps_map m m'"
      "m_list m' = (if k then xs @ e # ys else xs @ e # b # ys)"
    by (rule coalesce_pair_ok [OF inv l])
  have "k" using k(1) c l by (auto simp: coalesce_pair_def vm_object_coalesce_def merge_entries_def Let_def
      split: if_splits option.splits bind_splits)
  then show thesis using that k by (simp add: keeps_map_def)
qed

lemma coalesce_entry_subset:
  assumes inv: "map_inv m" and p: "ptr_ok (m_list m) p" and c: "vm_map_coalesce_entry V p m = Some (k, m')"
  shows "set (m_list m') \<subseteq> set (m_list m)"
proof (cases p)
  case None
  then show ?thesis using c by (auto simp: vm_map_coalesce_entry_def vme_header split: option.splits)
next
  case (Some e)
  then obtain xs ys where l: "m_list m = xs @ e # ys" using p by (auto dest: split_list)
  have n: "vme_prev m (Some e) = Some (hd_opt (rev xs))" by (rule vme_prev_split [OF l map_invD(1) [OF inv]])
  show ?thesis
  proof (cases xs rule: rev_cases)
    case Nil
    then show ?thesis using c n Some by (simp add: vm_map_coalesce_entry_def)
  next
    case (snoc zs a)
    obtain k' m1 where "coalesce_pair V a e m = Some (k', m1)" "m_list m1 = (if k' then zs @ a # ys else zs @ a # e # ys)"
      using coalesce_pair_ok [OF inv, of zs a e ys V] l snoc by (metis append.assoc append_Cons append_Nil)
    then show ?thesis using c n Some snoc l by (auto simp: vm_map_coalesce_entry_def split: if_splits)
  qed
qed

lemma inherit_loop_fault:
  assumes inv: "map_inv m" and l: "m_list m = xs @ e # b # ys" and r: "vme_end (m_ent m e) \<le> fin"
    and c: "coalescable ((m_ent m e)\<lparr>inheritance := inh\<rparr>) (m_ent m b)"
      "vme_object (m_ent m e) = None" "vme_object (m_ent m b) = None"
  shows "inherit_loop (Suc (Suc n)) V fin inh (Some e) m = None"
proof -
  let ?ent = "(m_ent m)(e := (m_ent m e)\<lparr>inheritance := inh\<rparr>)"
  let ?m = "m\<lparr>m_ent := ?ent\<rparr>"
  have d: "distinct (xs @ e # b # ys)" using map_invD(1) [OF inv] l by simp
  have lt: "vme_start (m_ent m e) < fin" using map_inv_ent(1) [OF inv l] r by simp
  have bo: "same_bounds (m_ent m) ?ent zs" for zs by (auto simp: same_bounds_def)
  have g: "gaps_of ?m = gaps_of m" by (rule ext) simp
  have i: "map_inv ?m"
    using inv unfolding map_inv_def map_core_def g
    by (simp add: laid_out_same [OF bo] total_size_same [OF bo] gaps_right_same [OF bo, of _ "gaps_of m" "gaps_of m"])
  have lm: "m_list ?m = xs @ e # b # ys" using l by simp
  obtain m1 where m1: "coalesce_pair V e b ?m = Some (True, m1)" "map_inv m1" "m_list m1 = xs @ e # ys"
    by (rule coalesce_pair_anonymous [OF i lm]) (use c d in auto)
  have p: "ptr_ok (m_list m1) (Some e)" using m1(3) by simp
  obtain k m2 where m2: "vm_map_coalesce_entry V (Some e) m1 = Some (k, m2)" by (rule coalesce_entry_ok [OF m1(2) p])
  have "b \<notin> set (m_list m2)" using coalesce_entry_subset [OF m1(2) p m2] m1(3) d by auto
  moreover have "vme_next ?m (Some e) = Some (Some b)" using vme_next_split [OF lm map_invD(1) [OF i]] by simp
  moreover have "upd_entry e (\<lambda>x. x\<lparr>inheritance := inh\<rparr>) m = ?m" by (simp add: upd_entry_def)
  ultimately show ?thesis
    using lt r l m1(1) m2
    by (simp add: vm_map_clip_end_def vm_map_coalesce_entries_def vm_map_coalesce_entry_forward_def entry_at_def)
qed

text \<open>C10: \<^verbatim>\<open>vm_map_delete\<close> on a range whose entries are neither in transition nor projected.  When
  the range begins in a hole, the loop ends, the addresses of the range are not mapped any more,
  all others keep what they had, and the invariant of the map holds.  When it begins in an entry
  (as it does when a task gives back what it was given), that entry is unlinked and freed by the
  loop, and then \<^verbatim>\<open>first_entry->vme_prev\<close> is read from it for the coalescing: the kernel uses an
  entry that is not allocated.\<close>

theorem vm_map_delete_outcome:
  assumes "map_inv m" "start < fin" "idle_range start fin m" "\<not> ve_kernel_pmap V" "length (m_list m) < k"
  shows "if mapped m start = None
    then \<exists>m'. vm_map_delete k V start fin ws m = Some (Ended (KERN_SUCCESS, m')) \<and> removed start fin m m'
    else vm_map_delete k V start fin ws m = None"
proof (cases "mapped m start = None")
  case True
  obtain m' where "vm_map_delete k V start fin ws m = Some (Ended (KERN_SUCCESS, m'))" "removed start fin m m'"
    by (rule delete_free_ok [OF assms(1) True assms(3,5,4)])
  then show ?thesis using True by auto
next
  case False
  then show ?thesis using delete_found_fault [OF assms(1) False assms(2,3,5)] by simp
qed

theorem vm_map_delete_witness:
  "(\<exists>m'. vm_map_delete 3 example_env 8192 20480 [] example_map = Some (Ended (KERN_SUCCESS, m')) \<and>
      removed 8192 20480 example_map m') \<and>
   vm_map_delete 3 example_env 16384 20480 [] example_map = None"
proof -
  have i: "idle_range a 20480 example_map" for a
    by (simp add: idle_range_def example_map_def fresh_entry_def)
  have e: "\<not> ve_kernel_pmap example_env" "length (m_list example_map) < 3" by (simp_all add: example_env_def example_map_ent)
  have m: "mapped example_map 8192 = None" "mapped example_map 16384 \<noteq> None"
    by (simp_all add: mapped_def example_map_ent attrs_def)
  show ?thesis
    using vm_map_delete_outcome [OF example_map_inv _ i e, of 8192 "[]"]
      vm_map_delete_outcome [OF example_map_inv _ i e, of 16384 "[]"] m by simp
qed

end
