(* ===== verification/Spec2Isabelle.thy ===== *)
theory Spec2Isabelle
  imports Mach_Port Ipc_Right_Urefs Bpf_Filter Kern_Lock Cirbuf Sched_Switch Vm_Delete
begin

text \<open>
  A verification library for the core of the GNU Mach kernel.

  The kernel gives tasks ports to send messages to, threads that wait for events, and address
  maps.  A task names its rights to ports by small numbers; a space translates the names.  A
  message is queued at a port until a thread receives it, and the rights it carries move from
  the space of the sender to that of the receiver.  Threads sleep on events, and a scheduler
  chooses the next one and hands over the kernel stack.  An address map says which memory object
  is behind each range of addresses.  Packet filters, supplied by users, run inside the kernel.

  \<^bold>\<open>Names and spaces.\<close>
  \<^item> \<^theory_text>\<open>Rdxtree\<close>, \<^theory_text>\<open>Rdxtree_Map\<close>, \<^theory_text>\<open>Rdxtree_Walk\<close>, \<^theory_text>\<open>Rdxtree_Clear\<close> model
    \<^verbatim>\<open>kern/rdxtree.c\<close>: look-up, insertion, allocation of keys, removal, iteration, clearing.  The
    tree is a finite map (locales \<open>name_map\<close>, \<open>name_alloc\<close>, interpreted on the tree); no assertion
    fails, an insertion that runs out of memory changes nothing, the iteration visits each key
    once in order.
  \<^item> \<^theory_text>\<open>Ipc_Types\<close> has the structures of \<^verbatim>\<open>ipc/*.h\<close> as records and the kernel state \<open>kernel\<close>
    that maps addresses to them.
  \<^item> \<^theory_text>\<open>Ipc_Entry\<close> models \<^verbatim>\<open>ipc/ipc_entry.c\<close>, \<^verbatim>\<open>ipc/ipc_space.h\<close>: entries with the free list and
    the reverse map; the invariant \<open>space_wf\<close>.

  \<^bold>\<open>Ports and messages.\<close>
  \<^item> \<^theory_text>\<open>Ipc_Object\<close> (references, \<^verbatim>\<open>ipc/ipc_object.h\<close>), \<^theory_text>\<open>Ipc_Mqueue\<close> (queues, \<^verbatim>\<open>ipc/ipc_mqueue.c\<close>,
    \<^verbatim>\<open>ipc/ipc_thread.c\<close>; locale \<open>fifo_queue\<close>), \<^theory_text>\<open>Ipc_Pset\<close> (port sets, \<^verbatim>\<open>ipc/ipc_pset.c\<close>),
    \<^theory_text>\<open>Ipc_Port\<close> (\<^verbatim>\<open>ipc/ipc_port.c\<close>, \<^verbatim>\<open>ipc/ipc_table.c\<close>; locale \<open>request_table\<close>),
    \<^theory_text>\<open>Ipc_Notify\<close> (sending, \<^verbatim>\<open>ipc/ipc_notify.c\<close>, the end of a port), \<^theory_text>\<open>Ipc_Kmsg\<close> (clean-up of
    messages, receiving, \<^verbatim>\<open>ipc/ipc_marequest.c\<close>).
  \<^item> The lemmas show what each operation does on every branch: messages keep their order through
    queues and port sets, a send delivers, queues, times out or blocks, requests and limits are
    exact, a port that dies hands on its messages and sends all notifications asked for, the
    check for circles returns and keeps the ports in transit free of circles.

  \<^bold>\<open>Rights.\<close>
  \<^item> \<^theory_text>\<open>Ipc_Right\<close> and \<^theory_text>\<open>Ipc_Right_Copy\<close> are \<^verbatim>\<open>ipc/ipc_right.c\<close>; \<^theory_text>\<open>Ipc_Space\<close> is
    \<^verbatim>\<open>ipc/ipc_object.c\<close> and the rest of \<^verbatim>\<open>ipc/ipc_space.c\<close>; \<^theory_text>\<open>Mach_Port\<close> is \<^verbatim>\<open>ipc/mach_port.c\<close>,
    the kernel calls.
  \<^item> \<^theory_text>\<open>Ipc_Right_Inv\<close> has the invariant of the rights of a space (\<open>right_ok\<close>, one rule per kind
    of right), \<^theory_text>\<open>Ipc_Right_Move\<close> the conservation of rights and references by copyin and
    copyout, \<^theory_text>\<open>Ipc_Right_Urefs\<close> the arithmetic of user references.

  \<^bold>\<open>Threads.\<close>
  \<^item> \<^theory_text>\<open>Kern_Lock\<close> is \<^verbatim>\<open>kern/lock.c\<close>: one function per critical section, and the step relation
    \<open>lock_step\<close> whose executions are the interleavings.  A writer excludes all others, and no
    wakeup is lost.
  \<^item> \<^theory_text>\<open>Sched_Prim\<close> is \<^verbatim>\<open>kern/sched_prim.c\<close>: wait queues, wakeups, timeouts, priorities, run
    queues.  The invariant \<open>sched_inv\<close> says that a thread is in at most one queue and that its
    state bits say which; a wakeup reaches exactly the threads that wait, and the thread chosen
    is the first of the best priority.
  \<^item> \<^theory_text>\<open>Sched_Switch\<close> adds \<open>thread_block\<close>, \<open>thread_invoke\<close>, \<open>thread_dispatch\<close> and the kernel stacks
    of \<^verbatim>\<open>kern/thread.c\<close>, \<^verbatim>\<open>kern/thread_swap.c\<close> and \<^verbatim>\<open>i386/i386/pcb.c\<close>.  Under \<open>switch_inv\<close> a thread
    that blocks always finds another to run, no stack has two owners and no runnable thread is
    lost.

  \<^bold>\<open>Address maps.\<close>
  \<^item> \<^theory_text>\<open>Vm_Map\<close> has the operations of \<^verbatim>\<open>vm/vm_map.c\<close>: entries, the gap tree, hints, look-up,
    randomised placement, entering, splitting, merging, protecting and removing ranges.
  \<^item> \<^theory_text>\<open>Vm_Gaps\<close> is the contract of the index of holes (locale \<open>gap_index\<close>) and its
    interpretation, \<^theory_text>\<open>Vm_Inv\<close> the invariant \<open>map_inv\<close> and the view \<open>mapped\<close> of a map as a
    function of addresses, \<^theory_text>\<open>Vm_Place\<close> the search for space, \<^theory_text>\<open>Vm_Enter\<close> and \<^theory_text>\<open>Vm_Delete\<close>
    the effect of the operations on the view.  \<open>vm_map_enter\<close> changes the view of exactly the range
    it is given or finds.  \<open>vm_map_delete\<close> removes exactly its range if that starts in a hole; if it
    starts in an entry, the code reads the entry after it has freed it, and
    \<open>vm_map_inherit\<close> and \<open>vm_map_protect\<close> have a similar fault.

  \<^bold>\<open>Devices.\<close>
  \<^item> \<^theory_text>\<open>Net_Filter\<close> and \<^theory_text>\<open>Bpf_Filter\<close> are the two filter languages of \<^verbatim>\<open>device/net_io.c\<close>, with the
    checks that filters pass before they are installed.  What the checks guarantee is proved, with
    the conditions they leave out as hypotheses, and these are shown to be needed.
  \<^item> \<^theory_text>\<open>Cirbuf\<close> is \<^verbatim>\<open>device/cirbuf.c\<close>: a circular buffer is a bounded queue (locale
    \<open>char_queue\<close>).

  \<^bold>\<open>Conventions.\<close>  \<^theory_text>\<open>Mach_Prelude\<close> has the result codes, allocation by a script of outcomes, and
  the option monad in which \<open>None\<close> is the kernel stopping at an \<^verbatim>\<open>assert\<close>, a \<^verbatim>\<open>panic\<close> or a pointer
  to memory that is not (or no longer) what it is taken for.  The state is passed explicitly.
  Counters and bit fields of the IPC system, of filters and of thread states are words of their
  width; addresses of maps and keys of trees are numbers below \<open>2 ^ 64\<close> with the wrap-around
  written out.

  \<^bold>\<open>Fuel.\<close>  Loops that are not structural have fuel, and the theorems show how much is enough: as
  many steps as a BPF program has instructions; more than the \<open>load\<close>, the number of threads on
  wait queues and run queues, for \<open>thread_block\<close>; more than the number of entries
  for \<open>vm_map_delete\<close>.  Other loops that may not end (sending to a kernel object, which answers with a message, the check for
  circular messages, the walks through radix trees, the destruction of queued messages) are partial
  functions to option, and the theorems about them give the value they return.

  \<^bold>\<open>Configuration and parameters.\<close>  64-bit kernel and user tasks, one processor, fixed priorities,
  no migrating threads.  Kernel objects behind ports and the servers that MIG generates
  (\<open>ipc_env\<close>), the events of the scheduler, the entropy, the collapse of objects and the wiring of
  pages (\<open>vm_env\<close>), the contents of an uninitialised stack array and of undefined shifts are
  parameters; theorems quantify over them.

  \<^bold>\<open>Approximations.\<close>  The operations of the IPC system, of the scheduler and of address maps run one
  after the other; only read/write locks are interleaved.  An operation that waits goes on with a
  state of its script.  Red-black trees and linked queues are lists in the order they keep.  Of
  memory objects there is what coalescing tests; physical maps, pages and the references to
  submaps are left out, and the theorem on \<open>vm_map_enter\<close> is about maps of tasks that do not wire
  their memory, with bounds between \<open>2 ^ 31\<close> and \<open>2 ^ 63\<close>.

  \<^bold>\<open>Not modelled.\<close>  Conversion of message bodies and \<^verbatim>\<open>mach_msg\<close> (\<^verbatim>\<open>ipc/ipc_kmsg.c\<close>,
  \<^verbatim>\<open>ipc/mach_msg.c\<close>), which need user memory and copies of maps; \<^verbatim>\<open>vm_map_copyin\<close>,
  \<^verbatim>\<open>vm_map_copyout\<close>, \<^verbatim>\<open>vm_map_fork\<close>, \<^verbatim>\<open>vm_map_pageable\<close>, page faults, pageout and the rest of the
  virtual memory system, which need pages and physical maps in the state; allocators, which are
  scripts here; tasks and threads beyond scheduling; multiprocessor code; boot code, drivers,
  machine-dependent code, debuggers and tracing, which are input and output or assembly; and the
  additions of this fork on which none of the above relies.
\<close>

end
